(* ===== verification/SavorPrelude.thy ===== *)
theory SavorPrelude
  imports Main "HOL-Library.Word"
begin

text \<open>
  Shared vocabulary of the development: the machine types of the C++ sources, the
  sequence operations the components are written with (\<open>std::find_if\<close> followed by a
  mutation or an \<open>erase\<close> through the iterator), the keyed store that stands for
  \<open>std::unordered_map\<close>, and the locale of machines whose operations keep an invariant.
\<close>

section \<open>Machine types\<close>

type_synonym u8 = "8 word"
type_synonym u16 = "16 word"
type_synonym u32 = "32 word"
type_synonym u64 = "64 word"

text \<open>
  A \<open>StrongId\<close> is a \<open>std::uint64_t\<close>; its conversion to \<open>bool\<close> tests for nonzero.
  A thread identity is a number; the default-constructed \<open>std::thread::id\<close>, which no
  running thread has, is \<open>None\<close> where the code uses it.
\<close>

type_synonym thread_id = nat

text \<open>\<open>std::numeric_limits<std::uint64_t>::max()\<close>.\<close>

abbreviation uint64_max :: u64 where
  "uint64_max \<equiv> - 1"

named_theorems op_defs \<open>definitions of the operations of the component at hand\<close>
named_theorems frame_simps \<open>fields an operation leaves alone\<close>

lemma word_zero_less: "(x :: 'a::len word) \<noteq> 0 \<longleftrightarrow> 0 < x"
  by (simp add: word_gt_0)

lemma word_less_Suc:
  fixes n :: "'a::len word"
  assumes "n + 1 \<noteq> 0"
  shows "x < n + 1 \<longleftrightarrow> x \<le> n"
proof -
  have "unat (n + 1) = Suc (unat n)"
    using assms by (metis Suc_eq_plus1 add.commute unatSuc)
  then show ?thesis
    by (simp add: word_less_nat_alt word_le_nat_alt less_Suc_eq_le)
qed

lemma unat_ucast_up:
  assumes "LENGTH('a::len) \<le> LENGTH('b::len)"
  shows "unat (ucast (w :: 'a word) :: 'b word) = unat w"
proof -
  have "unat w < 2 ^ LENGTH('a)" by (rule unsigned_less)
  also have "\<dots> \<le> 2 ^ LENGTH('b)" using assms by simp
  finally show ?thesis by (simp add: unsigned_ucast_eq take_bit_nat_eq_self)
qed

lemma of_nat_le_word:
  fixes w :: "'a::len word"
  assumes "n \<le> unat w"
  shows "unat (of_nat n :: 'a word) = n \<and> of_nat n \<le> w"
proof -
  have "n < 2 ^ LENGTH('a)" using assms unsigned_less [of w] by (rule le_less_trans)
  with assms show ?thesis
    by (simp add: word_le_nat_alt unat_of_nat)
qed

lemma word_range:
  assumes "list_all P (map word_of_nat [m..<n])" and "m \<le> unat w" and "unat (w :: 'a::len word) < n"
  shows "P w"
proof -
  have "word_of_nat (unat w) \<in> set (map word_of_nat [m..<n] :: 'a word list)" using assms(2,3) by force
  with assms(1) have "P (word_of_nat (unat w))" unfolding list_all_iff by blast
  then show ?thesis by simp
qed

lemma unat_drop_bit_div: "unat (drop_bit k b) = unat (b :: 'a::len word) div 2 ^ k"
proof -
  have "unat (drop_bit k b) = drop_bit k (take_bit LENGTH('a) (unat b))"
    by (rule unsigned_drop_bit_eq)
  also have "take_bit LENGTH('a) (unat b) = unat b" by (simp add: take_bit_nat_eq_self)
  finally show ?thesis by (simp only: drop_bit_eq_div)
qed

lemma unat_and_mask: "unat (and b (mask k)) = unat (b :: 'a::len word) mod 2 ^ k"
proof -
  have "unat (and b (mask k)) = unat (take_bit k b)" by (simp only: take_bit_eq_mask)
  also have "\<dots> = take_bit k (unat b)" by (rule unsigned_take_bit_eq)
  finally show ?thesis by (simp only: take_bit_eq_mod)
qed

lemma high_bits_iff:
  fixes b :: "'a::len word"
  assumes "LENGTH('a) = k + j" and "v < 2 ^ j"
  shows "and b (push_bit k (mask j)) = push_bit k (of_nat v) \<longleftrightarrow> unat b div 2 ^ k = v"
proof -
  have "and b (push_bit k (mask j)) = push_bit k (drop_bit k b)"
    using assms by (intro bit_word_eqI) (auto simp: bit_simps)
  moreover have "unat (push_bit k (drop_bit k b)) = unat b div 2 ^ k * 2 ^ k"
  proof -
    have "unat b div 2 ^ k * 2 ^ k \<le> unat b" by simp
    then have "unat b div 2 ^ k * 2 ^ k < 2 ^ LENGTH('a)" using unsigned_less [of b, where 'a = nat]
      by (rule le_less_trans)
    then show ?thesis by (simp add: unsigned_push_bit_eq unat_drop_bit_div push_bit_eq_mult [where 'a = nat]
        take_bit_nat_eq_self)
  qed
  moreover have "unat (push_bit k (of_nat v) :: 'a word) = v * 2 ^ k"
  proof -
    have "v * 2 ^ k < 2 ^ LENGTH('a)" using assms by (simp add: power_add mult.commute)
    moreover have "v \<le> v * 2 ^ k" by simp
    ultimately have "v < 2 ^ LENGTH('a)" by (rule le_less_trans [rotated])
    then have "unat (of_nat v :: 'a word) = v" by (simp add: unat_of_nat)
    with \<open>v * 2 ^ k < 2 ^ LENGTH('a)\<close> show ?thesis
      by (simp add: unsigned_push_bit_eq push_bit_eq_mult [where 'a = nat] take_bit_nat_eq_self)
  qed
  ultimately show ?thesis by (metis word_unat_eq_iff mult_cancel2 power_not_zero zero_neq_numeral)
qed
section \<open>Find, then mutate or erase through the iterator\<close>

fun update_first :: "('a \<Rightarrow> bool) \<Rightarrow> ('a \<Rightarrow> 'a) \<Rightarrow> 'a list \<Rightarrow> 'a list" where
  "update_first P f [] = []"
| "update_first P f (x # xs) = (if P x then f x # xs else x # update_first P f xs)"

fun remove_first :: "('a \<Rightarrow> bool) \<Rightarrow> 'a list \<Rightarrow> 'a list" where
  "remove_first P [] = []"
| "remove_first P (x # xs) = (if P x then xs else x # remove_first P xs)"

lemma find_split:
  assumes "List.find P xs = Some x"
  obtains pre post where
    "xs = pre @ x # post" "P x" "\<forall>y \<in> set pre. \<not> P y"
    "\<And>f. update_first P f xs = pre @ f x # post" "remove_first P xs = pre @ post"
proof -
  have "\<exists>pre post. xs = pre @ x # post \<and> P x \<and> (\<forall>y \<in> set pre. \<not> P y)
      \<and> (\<forall>f. update_first P f xs = pre @ f x # post) \<and> remove_first P xs = pre @ post"
    using assms
  proof (induction xs)
    case Nil
    then show ?case by simp
  next
    case (Cons a xs)
    show ?case
    proof (cases "P a")
      case True
      with Cons.prems show ?thesis by (intro exI [of _ "[]"] exI [of _ xs]) auto
    next
      case False
      with Cons.prems have "List.find P xs = Some x" by simp
      from Cons.IH [OF this] obtain pre post where
        "xs = pre @ x # post" "P x" "\<forall>y \<in> set pre. \<not> P y"
        "\<forall>f. update_first P f xs = pre @ f x # post" "remove_first P xs = pre @ post"
        by blast
      with False show ?thesis by (intro exI [of _ "a # pre"] exI [of _ post]) auto
    qed
  qed
  then show ?thesis using that by blast
qed

lemma find_at:
  assumes "\<forall>y \<in> set pre. \<not> P y" and "P x"
  shows "List.find P (pre @ x # post) = Some x"
    and "update_first P f (pre @ x # post) = pre @ f x # post"
    and "remove_first P (pre @ x # post) = pre @ post"
  using assms by (induction pre) auto

lemma find_SomeD: "List.find P xs = Some x \<Longrightarrow> x \<in> set xs \<and> P x"
  by (metis find_Some_iff nth_mem)

lemma find_NoneD: "List.find P xs = None \<Longrightarrow> y \<in> set xs \<Longrightarrow> \<not> P y"
  by (simp add: find_None_iff)

lemma length_update_first [simp]: "length (update_first P f xs) = length xs"
  by (induction xs) auto

lemma map_update_first [simp]:
  "(\<And>x. g (f x) = g x) \<Longrightarrow> map g (update_first P f xs) = map g xs"
  by (induction xs) auto

lemma update_first_none: "\<forall>x \<in> set xs. \<not> P x \<Longrightarrow> update_first P f xs = xs"
  by (induction xs) auto

lemma remove_first_none: "\<forall>x \<in> set xs. \<not> P x \<Longrightarrow> remove_first P xs = xs"
  by (induction xs) auto

lemma set_remove_first: "set (remove_first P xs) \<subseteq> set xs"
  by (induction xs) auto

lemma find_update_first:
  "(\<And>x. P x \<Longrightarrow> P (f x)) \<Longrightarrow>
    List.find P (update_first P f xs) = map_option f (List.find P xs)"
  by (induction xs) auto

lemma find_update_first_other:
  "(\<And>x. P x \<Longrightarrow> \<not> Q x) \<Longrightarrow> (\<And>x. P x \<Longrightarrow> \<not> Q (f x)) \<Longrightarrow>
    List.find Q (update_first P f xs) = List.find Q xs"
  by (induction xs) auto

lemma update_first_map:
  assumes "distinct (map key xs)"
  shows "update_first (\<lambda>x. key x = k) f xs = map (\<lambda>x. if key x = k then f x else x) xs"
  using assms by (induction xs) (auto simp: image_iff intro!: map_idI [symmetric])

lemma sorted_wrt_less_distinct: "sorted_wrt (<) (xs :: 'a::order list) \<Longrightarrow> distinct xs"
  by (induction xs) auto

lemma find_append:
  "List.find P (xs @ ys) = (case List.find P xs of None \<Rightarrow> List.find P ys | Some x \<Rightarrow> Some x)"
  by (induction xs) auto

lemma find_key_iff:
  assumes "distinct (map key xs)"
  shows "List.find (\<lambda>x. key x = k) xs = Some x \<longleftrightarrow> x \<in> set xs \<and> key x = k"
proof
  assume "x \<in> set xs \<and> key x = k"
  then show "List.find (\<lambda>x. key x = k) xs = Some x"
    using assms by (induction xs) (auto simp: image_iff)
qed (auto dest: find_SomeD)

section \<open>The keyed store: std::unordered_map\<close>

text \<open>
  The order in which \<open>std::unordered_map\<close> iterates is unspecified; the components only
  look keys up, insert fresh keys, mutate an element through a pointer, erase a key and
  erase the elements that satisfy a condition. The store is an association list.
\<close>

type_synonym 'v store = "(u64 \<times> 'v) list"

definition store_find :: "'v store \<Rightarrow> u64 \<Rightarrow> 'v option" where
  "store_find m k = map_of m k"

definition store_emplace :: "u64 \<Rightarrow> 'v \<Rightarrow> 'v store \<Rightarrow> 'v store" where
  "store_emplace k v m = (if map_of m k = None then (k, v) # m else m)"

definition store_modify :: "u64 \<Rightarrow> ('v \<Rightarrow> 'v) \<Rightarrow> 'v store \<Rightarrow> 'v store" where
  "store_modify k f m = map (\<lambda>(k', v). (k', if k' = k then f v else v)) m"

definition store_erase :: "u64 \<Rightarrow> 'v store \<Rightarrow> 'v store" where
  "store_erase k m = filter (\<lambda>p. fst p \<noteq> k) m"

definition store_erase_if :: "('v \<Rightarrow> bool) \<Rightarrow> 'v store \<Rightarrow> 'v store" where
  "store_erase_if P m = filter (\<lambda>p. \<not> P (snd p)) m"

definition store_wf :: "'v store \<Rightarrow> bool" where
  "store_wf m \<longleftrightarrow> distinct (map fst m)"

locale keyed_store =
  fixes find :: "'m \<Rightarrow> 'k \<Rightarrow> 'v option"
    and emplace :: "'k \<Rightarrow> 'v \<Rightarrow> 'm \<Rightarrow> 'm"
    and modify :: "'k \<Rightarrow> ('v \<Rightarrow> 'v) \<Rightarrow> 'm \<Rightarrow> 'm"
    and erase :: "'k \<Rightarrow> 'm \<Rightarrow> 'm"
    and erase_if :: "('v \<Rightarrow> bool) \<Rightarrow> 'm \<Rightarrow> 'm"
    and size :: "'m \<Rightarrow> nat"
    and empty :: 'm
    and wf :: "'m \<Rightarrow> bool"
  assumes find_empty: "find empty k = None"
    and find_emplace: "find (emplace k v m) j
      = (if j = k then (case find m k of None \<Rightarrow> Some v | Some w \<Rightarrow> Some w) else find m j)"
    and find_modify: "find (modify k f m) j
      = (if j = k then map_option f (find m k) else find m j)"
    and find_erase: "find (erase k m) j = (if j = k then None else find m j)"
    and find_erase_if: "wf m \<Longrightarrow> find (erase_if P m) j
      = (case find m j of None \<Rightarrow> None | Some v \<Rightarrow> if P v then None else Some v)"
    and size_empty: "size empty = 0"
    and size_emplace: "find m k = None \<Longrightarrow> size (emplace k v m) = Suc (size m)"
    and size_modify: "size (modify k f m) = size m"
    and wf_empty: "wf empty"
    and wf_emplace: "wf m \<Longrightarrow> wf (emplace k v m)"
    and wf_modify: "wf m \<Longrightarrow> wf (modify k f m)"
    and wf_erase: "wf m \<Longrightarrow> wf (erase k m)"
    and wf_erase_if: "wf m \<Longrightarrow> wf (erase_if P m)"
begin

lemmas find_simps = find_empty find_emplace find_modify find_erase find_erase_if
lemmas wf_intros = wf_empty wf_emplace wf_modify wf_erase wf_erase_if

lemma emplace_fresh: "find m k = None \<Longrightarrow> find (emplace k v m) k = Some v"
  by (simp add: find_emplace)

lemma modify_missing: "find m k = None \<Longrightarrow> find (modify k f m) j = find m j"
  by (simp add: find_modify)

end

lemma map_of_filter_snd:
  "distinct (map fst m) \<Longrightarrow> map_of (filter (\<lambda>p. \<not> P (snd p)) m) j
    = (case map_of m j of None \<Rightarrow> None | Some v \<Rightarrow> if P v then None else Some v)"
proof (induction m)
  case Nil
  then show ?case by simp
next
  case (Cons p m)
  obtain k v where p: "p = (k, v)" by (cases p)
  show ?case
  proof (cases "j = k")
    case True
    have "map_of (filter (\<lambda>p. \<not> P (snd p)) m) k = None"
      using Cons.prems p by (auto simp: map_of_eq_None_iff)
    with True p show ?thesis by simp
  next
    case False
    with Cons p show ?thesis by simp
  qed
qed

interpretation um: keyed_store store_find store_emplace store_modify store_erase store_erase_if
  length "[]" store_wf
proof
  show "store_find (store_modify k f m) j
      = (if j = k then map_option f (store_find m k) else store_find m j)" for k f m j
    by (induction m) (auto simp: store_find_def store_modify_def)
  show "store_find (store_erase k m) j = (if j = k then None else store_find m j)" for k m j
    by (induction m) (auto simp: store_find_def store_erase_def)
  show "store_wf (store_modify k f m)" if "store_wf m" for k f m
    using that by (simp add: store_wf_def store_modify_def case_prod_beta comp_def)
  show "store_wf (store_erase k m)" if "store_wf m" for k m
    using that by (simp add: store_wf_def store_erase_def distinct_map_filter)
  show "store_wf (store_erase_if P m)" if "store_wf m" for P m
    using that by (simp add: store_wf_def store_erase_if_def distinct_map_filter)
qed (auto simp: store_find_def store_emplace_def store_wf_def store_modify_def store_erase_if_def
    map_of_filter_snd map_of_eq_None_iff dest: map_of_SomeD intro: rev_image_eqI
    split: option.splits)

section \<open>Machines whose operations keep an invariant\<close>

text \<open>
  Every component is a state and a set of operations. \<open>step\<close> is the effect of one
  operation on the state, \<open>inv\<close> the invariant the operations share; what holds in every
  reachable state follows once, here.
\<close>

inductive reachable_from :: "('op \<Rightarrow> 's \<Rightarrow> 's) \<Rightarrow> 's \<Rightarrow> 's \<Rightarrow> bool"
  for step :: "'op \<Rightarrow> 's \<Rightarrow> 's" and init :: 's where
  start: "reachable_from step init init"
| step: "reachable_from step init s \<Longrightarrow> reachable_from step init (step x s)"

locale invariant_machine =
  fixes step :: "'op \<Rightarrow> 's \<Rightarrow> 's"
    and inv :: "'s \<Rightarrow> bool"
  assumes step_inv: "inv s \<Longrightarrow> inv (step x s)"
begin

lemma run_inv: "inv s \<Longrightarrow> inv (fold step xs s)"
  by (induction xs arbitrary: s) (auto intro: step_inv)

lemma reachable_inv:
  assumes "reachable_from step init s" and "inv init"
  shows "inv s"
  using assms by (induction rule: reachable_from.induct) (auto intro: step_inv)

end

text \<open>
  What never goes back: a preorder on the states that every operation, run on a state with
  the invariant, moves along.
\<close>

locale monotone_machine = invariant_machine step inv
  for step :: "'op \<Rightarrow> 's \<Rightarrow> 's" and inv :: "'s \<Rightarrow> bool" +
  fixes le :: "'s \<Rightarrow> 's \<Rightarrow> bool"
  assumes le_refl: "le s s"
    and le_trans: "le s t \<Longrightarrow> le t u \<Longrightarrow> le s u"
    and step_le: "inv s \<Longrightarrow> le s (step x s)"
begin

lemma run_le: "inv s \<Longrightarrow> le s (fold step xs s)"
  by (induction xs arbitrary: s) (auto intro: le_refl le_trans step_le step_inv)

lemma reachable_le:
  assumes "reachable_from step s t" and "inv s"
  shows "inv t \<and> le s t"
  using assms by (induction rule: reachable_from.induct)
    (auto intro: step_inv le_refl le_trans step_le)

end

lemma reachable_fold: "reachable_from step init (fold step xs init)"
  by (induction xs rule: rev_induct) (auto intro: reachable_from.intros)

end
