(* ===== verification/HostActivityTracker.thy ===== *)
theory HostActivityTracker
  imports SavorPrelude "HOL-Library.Multiset"
begin

text \<open>
  The accounting of host work that holds the guest up
  (SavorCore/Runner/Runtime/Execution/HostActivityTracker.h), at the granularity of its atomic
  operations: any number of activities enter and leave on any threads, and the actor drains the
  completed ones, all interleaved. The clock is an argument of the steps that read it.
\<close>

unbundle bit_operations_syntax

section \<open>The tracker\<close>

definition kCompletedActivityCapacity :: nat where
  "kCompletedActivityCapacity = 64"

definition kInFlightMask :: u64 where
  "kInFlightMask = push_bit 16 1 - 1"

definition kGenerationIncrement :: u64 where
  "kGenerationIncrement = push_bit 16 1"

record HostActivityTracker =
  tracker_state :: u64
  completed_slots :: "u64 list"
  completion_overflow :: u64
  next_activity_sequence :: u32

definition new_tracker :: HostActivityTracker where
  "new_tracker = \<lparr>tracker_state = kGenerationIncrement,
     completed_slots = replicate kCompletedActivityCapacity 0, completion_overflow = 0,
     next_activity_sequence = 0\<rparr>"

record TrackerSnapshot =
  snapshot_generation :: u64
  snapshot_in_flight :: u32

definition tracker_snapshot :: "HostActivityTracker \<Rightarrow> TrackerSnapshot" where
  "tracker_snapshot T = \<lparr>snapshot_generation = drop_bit 16 (tracker_state T),
     snapshot_in_flight = ucast (tracker_state T AND kInFlightMask)\<rparr>"

section \<open>An activity\<close>

definition ClampDuration :: "u64 \<Rightarrow> u32" where
  "ClampDuration ticks = ucast (if ticks > 0xffffffff then 0xffffffff else ticks)"

definition completion_record :: "u32 \<Rightarrow> u32 \<Rightarrow> u64" where
  "completion_record sequence elapsed = push_bit 32 (ucast elapsed) OR ucast sequence"

text \<open>
  Where an activity is: about to draw its sequence, about to draw again because it was 0, about to
  enter, inside, about to try a slot for its completion, about to count it as lost, about to leave.
\<close>

datatype activity =
    ActivityUnused
  | ActivityDrawing
  | ActivityDrawingAgain
  | ActivityEntering u32 u64
  | ActivityInside u32 u64
  | ActivityPublishing u32 u32 nat
  | ActivityOverflowing
  | ActivityLeaving
  | ActivityLeft

definition publish_index :: "u32 \<Rightarrow> nat \<Rightarrow> nat" where
  "publish_index sequence offset =
    (unat sequence mod kCompletedActivityCapacity + offset) mod kCompletedActivityCapacity"

text \<open>One atomic operation of an activity; \<open>now\<close> is what the clock says.\<close>

fun activity_step :: "u64 \<Rightarrow> activity \<Rightarrow> HostActivityTracker \<Rightarrow> activity \<times> HostActivityTracker" where
  "activity_step now ActivityDrawing T =
    (let sequence = next_activity_sequence T + 1 in
     (if sequence = 0 then ActivityDrawingAgain else ActivityEntering sequence now,
      T\<lparr>next_activity_sequence := sequence\<rparr>))"
| "activity_step now ActivityDrawingAgain T =
    (let sequence = next_activity_sequence T + 1 in
     (ActivityEntering sequence now, T\<lparr>next_activity_sequence := sequence\<rparr>))"
| "activity_step now (ActivityEntering sequence started) T =
    (ActivityInside sequence started, T\<lparr>tracker_state := tracker_state T + (kGenerationIncrement + 1)\<rparr>)"
| "activity_step now (ActivityInside sequence started) T =
    (ActivityPublishing sequence (ClampDuration (if now \<ge> started then now - started else 0)) 0, T)"
| "activity_step now (ActivityPublishing sequence elapsed offset) T =
    (let index = publish_index sequence offset in
     if completed_slots T ! index = 0 then
       (ActivityLeaving,
        T\<lparr>completed_slots := (completed_slots T)[index := completion_record sequence elapsed]\<rparr>)
     else if Suc offset = kCompletedActivityCapacity then (ActivityOverflowing, T)
     else (ActivityPublishing sequence elapsed (Suc offset), T))"
| "activity_step now ActivityOverflowing T =
    (ActivityLeaving, T\<lparr>completion_overflow := completion_overflow T + 1\<rparr>)"
| "activity_step now ActivityLeaving T =
    (ActivityLeft, T\<lparr>tracker_state := tracker_state T + (kGenerationIncrement - 1)\<rparr>)"
| "activity_step now a T = (a, T)"

section \<open>The drain\<close>

record CompletedActivity =
  completed_sequence :: u32
  completed_elapsed :: u32

definition decode_record :: "u64 \<Rightarrow> CompletedActivity" where
  "decode_record r = \<lparr>completed_sequence = ucast (r AND 0xffffffff), completed_elapsed = ucast (drop_bit 32 r)\<rparr>"

text \<open>
  The insertion of the code's sort: the sorted part is kept backwards, so its head is the element at
  \<open>position - 1\<close>.
\<close>

fun shift_in :: "CompletedActivity \<Rightarrow> CompletedActivity list \<Rightarrow> CompletedActivity list" where
  "shift_in current [] = [current]"
| "shift_in current (previous # earlier) =
    (if completed_sequence previous > completed_sequence current then previous # shift_in current earlier
     else current # previous # earlier)"

definition sort_activities :: "CompletedActivity list \<Rightarrow> CompletedActivity list" where
  "sort_activities batch = rev (fold shift_in batch [])"

datatype drain =
    DrainIdle
  | DrainAt nat "u64 list"
  | DrainDone "CompletedActivity list" u64

text \<open>One exchange of the drain; the last one takes the overflow count.\<close>

fun drain_step :: "drain \<Rightarrow> HostActivityTracker \<Rightarrow> drain \<times> HostActivityTracker" where
  "drain_step (DrainAt k batch) T =
    (if k < kCompletedActivityCapacity then
       (DrainAt (Suc k) (if completed_slots T ! k = 0 then batch else batch @ [completed_slots T ! k]),
        T\<lparr>completed_slots := (completed_slots T)[k := 0]\<rparr>)
     else
       (DrainDone (sort_activities (map decode_record batch)) (completion_overflow T),
        T\<lparr>completion_overflow := 0\<rparr>))"
| "drain_step d T = (d, T)"

section \<open>All of them\<close>

text \<open>
  \<open>published\<close> and \<open>overflowed\<close> record the completions that found a slot and those that did not,
  \<open>drained\<close> the records and the overflow counts the finished drains returned; the code has no such
  members. The model stops handing out sequences before they wrap around.
\<close>

record TrackerThreads =
  tracker :: HostActivityTracker
  activities :: "nat \<Rightarrow> activity"
  draining :: drain
  published :: "u64 list"
  overflowed :: nat
  drained_records :: "u64 list"
  drained_overflow :: nat

datatype tracker_action = CallTrack nat | StepActivity nat u64 | CallDrain | StepDrain

fun published_by_step :: "activity \<Rightarrow> activity \<Rightarrow> u64 list" where
  "published_by_step (ActivityPublishing sequence elapsed offset) ActivityLeaving =
    [completion_record sequence elapsed]"
| "published_by_step a a' = []"

fun batch_of :: "drain \<Rightarrow> u64 list" where
  "batch_of (DrainAt k batch) = batch"
| "batch_of d = []"

definition drain_ends :: "drain \<Rightarrow> bool" where
  "drain_ends d \<longleftrightarrow> (case d of DrainAt k batch \<Rightarrow> k \<ge> kCompletedActivityCapacity | _ \<Rightarrow> False)"

fun tracker_step :: "tracker_action \<Rightarrow> TrackerThreads \<Rightarrow> TrackerThreads" where
  "tracker_step (CallTrack a) s =
    (if activities s a = ActivityUnused then s\<lparr>activities := (activities s)(a := ActivityDrawing)\<rparr> else s)"
| "tracker_step (StepActivity a now) s =
    (if activities s a = ActivityDrawing \<and> next_activity_sequence (tracker s) = 0xffffffff then s
     else
       (case activity_step now (activities s a) (tracker s) of
          (a', T) \<Rightarrow> s\<lparr>tracker := T, activities := (activities s)(a := a'),
            published := published s @ published_by_step (activities s a) a',
            overflowed := overflowed s + (if activities s a = ActivityOverflowing then 1 else 0)\<rparr>))"
| "tracker_step CallDrain s =
    (case draining s of DrainAt k batch \<Rightarrow> s | _ \<Rightarrow> s\<lparr>draining := DrainAt 0 []\<rparr>)"
| "tracker_step StepDrain s =
    (case drain_step (draining s) (tracker s) of
       (d, T) \<Rightarrow> s\<lparr>tracker := T, draining := d,
         drained_records := drained_records s @ (if drain_ends (draining s) then batch_of (draining s) else []),
         drained_overflow := drained_overflow s +
           (if drain_ends (draining s) then unat (completion_overflow (tracker s)) else 0)\<rparr>)"

definition new_tracker_threads :: TrackerThreads where
  "new_tracker_threads = \<lparr>tracker = new_tracker, activities = (\<lambda>_. ActivityUnused), draining = DrainIdle,
     published = [], overflowed = 0, drained_records = [], drained_overflow = 0\<rparr>"

section \<open>Counting\<close>

definition number :: "(activity \<Rightarrow> bool) \<Rightarrow> (nat \<Rightarrow> activity) \<Rightarrow> nat" where
  "number P f = card {a. P (f a)}"

fun has_token :: "activity \<Rightarrow> bool" where
  "has_token ActivityUnused = False"
| "has_token ActivityDrawing = False"
| "has_token ActivityDrawingAgain = False"
| "has_token a = True"

fun has_entered :: "activity \<Rightarrow> bool" where
  "has_entered (ActivityEntering sequence started) = False"
| "has_entered a = has_token a"

fun has_reported :: "activity \<Rightarrow> bool" where
  "has_reported ActivityLeaving = True"
| "has_reported ActivityLeft = True"
| "has_reported a = False"

definition has_left :: "activity \<Rightarrow> bool" where
  "has_left a \<longleftrightarrow> a = ActivityLeft"

lemma number_update:
  assumes "finite {a. f a \<noteq> ActivityUnused}" and "\<not> P ActivityUnused"
  shows "number P (f(x := v)) + (if P (f x) then 1 else 0) = number P f + (if P v then 1 else 0)"
proof -
  let ?A = "{a. P (f a)} - {x}"
  have fin: "finite {a. P (f a)}" by (rule finite_subset [OF _ assms(1)]) (use assms(2) in auto)
  then have A: "finite ?A" by simp
  have split: "card B = card ?A + (if b then 1 else 0)" if "B = (if b then insert x ?A else ?A)" for B b
  proof (cases b)
    case True
    have "card (insert x ?A) = Suc (card ?A)" by (rule card_insert_disjoint [OF A]) simp
    then show ?thesis using that True by (simp del: insert_Diff_single)
  next
    case False
    then show ?thesis using that by simp
  qed
  have "{a. P ((f(x := v)) a)} = (if P v then insert x ?A else ?A)" by auto
  from split [OF this] have "number P (f(x := v)) = card ?A + (if P v then 1 else 0)"
    by (simp only: number_def)
  moreover have "{a. P (f a)} = (if P (f x) then insert x ?A else ?A)" by auto
  from split [OF this] have "number P f = card ?A + (if P (f x) then 1 else 0)" by (simp only: number_def)
  ultimately show ?thesis by simp
qed

lemma number_mono:
  assumes "finite {a. f a \<noteq> ActivityUnused}" "\<not> Q ActivityUnused" "\<And>a. P a \<Longrightarrow> Q a"
  shows "number P f \<le> number Q f"
  unfolding number_def
  by (rule card_mono) (use assms in \<open>auto intro: finite_subset [OF _ assms(1)]\<close>)

section \<open>The sort\<close>

lemma mset_shift_in: "mset (shift_in x xs) = add_mset x (mset xs)"
  by (induction xs) auto

lemma sorted_shift_in:
  "sorted_wrt (\<ge>) (map completed_sequence xs) \<Longrightarrow> sorted_wrt (\<ge>) (map completed_sequence (shift_in x xs))"
proof (induction xs)
  case (Cons y ys)
  have "set (shift_in x ys) = insert x (set ys)" by (metis mset_shift_in set_mset_add_mset_insert set_mset_mset)
  with Cons show ?case by (auto simp: not_less)
qed simp

lemma sort_activities_sorts:
  "sorted (map completed_sequence (sort_activities batch)) \<and> mset (sort_activities batch) = mset batch"
proof -
  have "sorted_wrt (\<ge>) (map completed_sequence (fold shift_in batch acc))"
    if "sorted_wrt (\<ge>) (map completed_sequence acc)" for acc
    using that by (induction batch arbitrary: acc) (auto intro: sorted_shift_in)
  moreover have "mset (fold shift_in batch acc) = mset batch + mset acc" for acc
    by (induction batch arbitrary: acc) (simp_all add: mset_shift_in)
  ultimately show ?thesis by (simp add: sort_activities_def sorted_wrt_rev flip: rev_map)
qed

end
