(* ===== verification/HostActivityContracts.thy ===== *)
theory HostActivityContracts
  imports HostActivityTracker
begin

text \<open>The activities and the drain as a machine, and what the actor can rely on.\<close>

section \<open>Slots as a multiset\<close>

definition live_records :: "u64 list \<Rightarrow> u64 multiset" where
  "live_records slots = filter_mset (\<lambda>r. r \<noteq> 0) (mset slots)"

definition when_live :: "u64 \<Rightarrow> u64 multiset" where
  "when_live r = (if r = 0 then {#} else {#r#})"

lemma live_records_update:
  assumes "i < length slots"
  shows "live_records (slots[i := r]) + when_live (slots ! i) = live_records slots + when_live r"
proof -
  have "mset (slots[i := r]) + {#slots ! i#} = mset slots + {#r#}"
    using assms by (simp add: mset_update)
  then have "filter_mset (\<lambda>r. r \<noteq> 0) (mset (slots[i := r]) + {#slots ! i#}) =
      filter_mset (\<lambda>r. r \<noteq> 0) (mset slots + {#r#})" by simp
  then show ?thesis by (simp add: live_records_def when_live_def split: if_splits)
qed

lemma word32_less: "unat (x :: u32) < 2 ^ 32"
  using unsigned_less [of x] by simp

lemma unat_widened: "unat (ucast (x :: u32) :: u64) = unat x"
proof -
  have "unat x < 2 ^ 32" using unsigned_less [of x] by simp
  then show ?thesis by (simp add: unsigned_ucast_eq take_bit_nat_eq_self)
qed

lemma completion_record_nonzero: "sequence \<noteq> 0 \<Longrightarrow> completion_record sequence elapsed \<noteq> 0"
proof
  assume "sequence \<noteq> 0" "completion_record sequence elapsed = 0"
  then have "(ucast sequence :: u64) = 0" by (simp add: completion_record_def or_eq_0_iff)
  then have "unat sequence = 0" using unat_widened [of sequence] by simp
  then show False using \<open>sequence \<noteq> 0\<close> by (simp add: unat_eq_0)
qed

lemma publish_index_less: "publish_index sequence offset < 64"
  by (simp add: publish_index_def kCompletedActivityCapacity_def)

section \<open>The invariant\<close>

fun activity_ok :: "activity \<Rightarrow> bool" where
  "activity_ok (ActivityEntering sequence started) = (sequence \<noteq> 0)"
| "activity_ok (ActivityInside sequence started) = (sequence \<noteq> 0)"
| "activity_ok (ActivityPublishing sequence elapsed offset) = (sequence \<noteq> 0)"
| "activity_ok ActivityDrawingAgain = False"
| "activity_ok a = True"

fun drain_ok :: "drain \<Rightarrow> bool" where
  "drain_ok (DrainAt k batch) = (length batch \<le> k \<and> k \<le> kCompletedActivityCapacity)"
| "drain_ok (DrainDone batch n) =
    (length batch \<le> kCompletedActivityCapacity \<and> sorted (map completed_sequence batch))"
| "drain_ok d = True"

definition state_word :: "nat \<Rightarrow> nat \<Rightarrow> u64" where
  "state_word entered left = 65536 * (1 + of_nat entered + of_nat left) + of_nat entered - of_nat left"

definition tracker_inv :: "TrackerThreads \<Rightarrow> bool" where
  "tracker_inv s \<longleftrightarrow>
    (let T = tracker s; f = activities s in
     finite {a. f a \<noteq> ActivityUnused} \<and> length (completed_slots T) = 64 \<and>
     (\<forall>a. activity_ok (f a)) \<and> drain_ok (draining s) \<and>
     number has_token f = unat (next_activity_sequence T) \<and>
     tracker_state T = state_word (number has_entered f) (number has_left f) \<and>
     length (published s) + overflowed s = number has_reported f \<and>
     overflowed s = drained_overflow s + unat (completion_overflow T) \<and>
     mset (published s) = mset (drained_records s) + mset (batch_of (draining s)) + live_records (completed_slots T))"

lemma has_left_unused [simp]: "has_left ActivityUnused = False"
  by (simp add: has_left_def)

lemma number_steps:
  assumes "tracker_inv s" and "\<not> P ActivityUnused"
  shows "number P ((activities s)(a := v)) + (if P (activities s a) then 1 else 0)
      = number P (activities s) + (if P v then 1 else 0)"
proof -
  have "finite {a. activities s a \<noteq> ActivityUnused}" using assms(1) by (simp add: tracker_inv_def Let_def)
  then show ?thesis using number_update [of "activities s" P a v] assms(2) by simp
qed

lemma entered_bounds:
  assumes "tracker_inv s"
  shows "number has_entered (activities s) \<le> unat (next_activity_sequence (tracker s))"
    "number has_left (activities s) \<le> number has_entered (activities s)"
    "number has_reported (activities s) \<le> unat (next_activity_sequence (tracker s))"
proof -
  have fin: "finite {a. activities s a \<noteq> ActivityUnused}"
    and token: "number has_token (activities s) = unat (next_activity_sequence (tracker s))"
    using assms by (simp_all add: tracker_inv_def Let_def)
  have "has_entered x \<Longrightarrow> has_token x" "has_left x \<Longrightarrow> has_entered x" "has_reported x \<Longrightarrow> has_token x" for x
    by (cases x; simp add: has_left_def)+
  then show "number has_entered (activities s) \<le> unat (next_activity_sequence (tracker s))"
    "number has_left (activities s) \<le> number has_entered (activities s)"
    "number has_reported (activities s) \<le> unat (next_activity_sequence (tracker s))"
    unfolding token [symmetric] by (auto intro!: number_mono [OF fin])
qed

section \<open>Steps of an activity\<close>

text \<open>What a step of an activity has to respect, whatever it is.\<close>

lemma activity_moves:
  assumes inv: "tracker_inv s" and "activity_ok a'" "length (completed_slots T) = 64"
    and "unat (next_activity_sequence T) + (if has_token (activities s a) then 1 else 0)
      = unat (next_activity_sequence (tracker s)) + (if has_token a' then 1 else 0)"
    and "\<And>entered left. number has_entered ((activities s)(a := a')) = entered \<Longrightarrow>
      number has_left ((activities s)(a := a')) = left \<Longrightarrow> tracker_state T = state_word entered left"
    and "length new + k + (if has_reported (activities s a) then 1 else 0) = (if has_reported a' then 1 else 0)"
    and "unat (completion_overflow T) = unat (completion_overflow (tracker s)) + k"
    and "live_records (completed_slots T) = live_records (completed_slots (tracker s)) + mset new"
  shows "tracker_inv (s\<lparr>tracker := T, activities := (activities s)(a := a'),
    published := published s @ new, overflowed := overflowed s + k\<rparr>)"
proof -
  have fin: "finite {x. activities s x \<noteq> ActivityUnused}" using inv by (simp add: tracker_inv_def Let_def)
  have "{x. ((activities s)(a := a')) x \<noteq> ActivityUnused} \<subseteq> insert a {x. activities s x \<noteq> ActivityUnused}" by auto
  then have "finite {x. ((activities s)(a := a')) x \<noteq> ActivityUnused}" using fin finite_subset by blast
  moreover have "number has_token ((activities s)(a := a')) = unat (next_activity_sequence T)"
    using number_steps [OF inv, of has_token a a'] assms(4) inv by (simp add: tracker_inv_def Let_def)
  moreover have "length (published s) + length new + (overflowed s + k) = number has_reported ((activities s)(a := a'))"
    using number_steps [OF inv, of has_reported a a'] assms(6) inv
    by (simp add: tracker_inv_def Let_def split: if_splits)
  ultimately show ?thesis
    using inv assms(2,3,5,7,8) by (simp add: tracker_inv_def Let_def)
qed

lemma state_word_enter: "state_word (Suc entered) left = state_word entered left + (kGenerationIncrement + 1)"
  by (simp add: state_word_def kGenerationIncrement_def algebra_simps)

lemma state_word_leave: "state_word entered (Suc left) = state_word entered left + (kGenerationIncrement - 1)"
  by (simp add: state_word_def kGenerationIncrement_def algebra_simps)

lemma state_word_halves:
  assumes "entered < 2 ^ 32" "left \<le> entered" "entered < left + 2 ^ 16"
  shows "unat (ucast (state_word entered left AND kInFlightMask) :: u32) = entered - left"
    "unat (drop_bit 16 (state_word entered left)) = 1 + entered + left"
proof -
  let ?n = "65536 * (1 + entered + left) + (entered - left)"
  have "state_word entered left = of_nat ?n"
    using assms(2) by (simp add: state_word_def of_nat_diff algebra_simps)
  moreover have "unat (of_nat m :: u64) = m" if "m < 2 ^ 64" for m
    using that by (simp add: unsigned_of_nat take_bit_nat_eq_self)
  moreover have "?n < 2 ^ 64" using assms by simp
  ultimately have word: "unat (state_word entered left) = ?n" by metis
  have "kInFlightMask = mask 16" by (simp add: kInFlightMask_def mask_eq_exp_minus_1)
  then have "unat (state_word entered left AND kInFlightMask) = ?n mod 2 ^ 16"
    using unat_and_mask [of "state_word entered left" 16] word by metis
  also have "\<dots> = entered - left"
  proof -
    have "(65536 * m + k) mod 2 ^ 16 = k" if "k < 65536" for m k :: nat using that by simp
    moreover have "entered - left < 65536" using assms(2,3) by simp
    ultimately show ?thesis by blast
  qed
  finally have "unat (state_word entered left AND kInFlightMask) = entered - left" .
  moreover have "unat (ucast (w :: u64) :: u32) = unat w" if "unat w < 2 ^ 32" for w
    using that by (simp add: unsigned_ucast_eq take_bit_nat_eq_self)
  ultimately show "unat (ucast (state_word entered left AND kInFlightMask) :: u32) = entered - left"
    using assms by simp
  show "unat (drop_bit 16 (state_word entered left)) = 1 + entered + left"
  proof -
    have "unat (drop_bit 16 (state_word entered left)) = ?n div 2 ^ 16"
      using word by (metis unat_drop_bit_eq drop_bit_eq_div)
    moreover have "(65536 * m + k) div 2 ^ 16 = m" if "k < 65536" for m k :: nat using that by simp
    moreover have "entered - left < 65536" using assms(2,3) by simp
    ultimately show ?thesis by metis
  qed
qed

lemma sequence_advances:
  assumes "(sequence :: u32) \<noteq> 0xffffffff"
  shows "unat (sequence + 1) = Suc (unat sequence)" "sequence + 1 \<noteq> 0"
proof -
  have "sequence = 0xffffffff" if "sequence + 1 = 0"
  proof -
    have "sequence = - 1" using that by (simp add: eq_neg_iff_add_eq_0)
    then show ?thesis by simp
  qed
  then have "sequence + 1 \<noteq> 0" using assms by blast
  then show "sequence + 1 \<noteq> 0" "unat (sequence + 1) = Suc (unat sequence)"
    by (simp_all add: unatSuc add.commute [of sequence])
qed

lemma overflow_advances:
  assumes "tracker_inv s" "activities s a = ActivityOverflowing"
  shows "unat (completion_overflow (tracker s) + 1) = Suc (unat (completion_overflow (tracker s)))"
proof -
  have "unat (completion_overflow (tracker s)) \<le> number has_reported (activities s)"
    using assms(1) by (auto simp: tracker_inv_def Let_def)
  also have "\<dots> \<le> unat (next_activity_sequence (tracker s))" by (rule entered_bounds(3) [OF assms(1)])
  also have "\<dots> < 2 ^ 32" using unsigned_less [of "next_activity_sequence (tracker s)"] by simp
  finally have "unat (completion_overflow (tracker s)) < 2 ^ 32" .
  then show ?thesis by (subst unat_add_lem [THEN iffD1]) simp_all
qed

lemma StepActivity_inv:
  assumes inv: "tracker_inv s"
  shows "tracker_inv (tracker_step (StepActivity a now) s)"
proof (cases "activities s a = ActivityDrawing \<and> next_activity_sequence (tracker s) = 0xffffffff")
  case True
  then show ?thesis using inv by simp
next
  case False
  obtain a' T where step: "activity_step now (activities s a) (tracker s) = (a', T)" by (metis surj_pair)
  have known: "activity_ok (activities s a)" "length (completed_slots (tracker s)) = 64"
    "tracker_state (tracker s) = state_word (number has_entered (activities s)) (number has_left (activities s))"
    using inv by (simp_all add: tracker_inv_def Let_def)
  note counts = number_steps [OF inv, of has_entered a a'] number_steps [OF inv, of has_left a a']
  note sequences = sequence_advances [of "next_activity_sequence (tracker s)"]
  note slots = publish_index_less live_records_update completion_record_nonzero
  have moved: "tracker_inv (s\<lparr>tracker := T, activities := (activities s)(a := a'),
    published := published s @ published_by_step (activities s a) a',
    overflowed := overflowed s + (if activities s a = ActivityOverflowing then 1 else 0)\<rparr>)"
  proof (rule activity_moves [OF inv])
    show "activity_ok a'"
      using step known(1) False sequences by (cases "activities s a") (auto simp: Let_def split: if_splits)
    show "length (completed_slots T) = 64"
      using step known(2) by (cases "activities s a") (auto simp: Let_def split: if_splits)
    show "unat (next_activity_sequence T) + (if has_token (activities s a) then 1 else 0)
      = unat (next_activity_sequence (tracker s)) + (if has_token a' then 1 else 0)"
      using step known(1) False sequences by (cases "activities s a") (auto simp: Let_def split: if_splits)
    show "tracker_state T = state_word entered left"
      if "number has_entered ((activities s)(a := a')) = entered" "number has_left ((activities s)(a := a')) = left"
      for entered left
      using that step known(1,3) counts False sequences
      by (cases "activities s a")
        (auto simp: Let_def has_left_def state_word_enter state_word_leave split: if_splits)
    show "length (published_by_step (activities s a) a') + (if activities s a = ActivityOverflowing then 1 else 0) +
      (if has_reported (activities s a) then 1 else 0) = (if has_reported a' then 1 else 0)"
      using step known(1) by (cases "activities s a") (auto simp: Let_def split: if_splits)
    show "unat (completion_overflow T) =
      unat (completion_overflow (tracker s)) + (if activities s a = ActivityOverflowing then 1 else 0)"
      using step known(1) overflow_advances [OF inv, of a]
      by (cases "activities s a") (auto simp: Let_def split: if_splits)
    show "live_records (completed_slots T) =
      live_records (completed_slots (tracker s)) + mset (published_by_step (activities s a) a')"
    proof (cases "activities s a")
      case (ActivityPublishing sequence elapsed offset)
      then show ?thesis
        using step known(1,2) publish_index_less completion_record_nonzero [of sequence elapsed]
          live_records_update [of "publish_index sequence offset" "completed_slots (tracker s)"
            "completion_record sequence elapsed"]
        by (auto simp: Let_def when_live_def split: if_splits)
    qed (use step known(1) in \<open>auto simp: Let_def split: if_splits\<close>)
  qed
  moreover have "tracker_step (StepActivity a now) s = (s\<lparr>tracker := T, activities := (activities s)(a := a'),
    published := published s @ published_by_step (activities s a) a',
    overflowed := overflowed s + (if activities s a = ActivityOverflowing then 1 else 0)\<rparr>)"
    unfolding tracker_step.simps step prod.case using False by (rule if_not_P)
  ultimately show ?thesis by (simp only:)
qed

section \<open>Steps of the drain\<close>

lemma CallTrack_inv:
  assumes inv: "tracker_inv s"
  shows "tracker_inv (tracker_step (CallTrack a) s)"
proof (cases "activities s a = ActivityUnused")
  case True
  have same: "number P ((activities s)(a := ActivityDrawing)) = number P (activities s)"
    if "\<not> P ActivityUnused" "\<not> P ActivityDrawing" for P
    using number_steps [of s P a ActivityDrawing] inv that True by simp
  have "tracker_inv (s\<lparr>tracker := tracker s, activities := (activities s)(a := ActivityDrawing),
    published := published s @ [], overflowed := overflowed s + 0\<rparr>)"
    by (rule activity_moves [OF inv]) (use True inv same in \<open>auto simp: tracker_inv_def Let_def has_left_def\<close>)
  then show ?thesis using True by simp
qed (use inv in simp)

lemma CallDrain_inv: "tracker_inv s \<Longrightarrow> tracker_inv (tracker_step CallDrain s)"
  by (cases "draining s") (simp_all add: tracker_inv_def Let_def)

lemma StepDrain_inv:
  assumes inv: "tracker_inv s"
  shows "tracker_inv (tracker_step StepDrain s)"
proof (cases "draining s")
  case (DrainAt k batch)
  show ?thesis
  proof (cases "k < kCompletedActivityCapacity")
    case True
    then have "live_records ((completed_slots (tracker s))[k := 0]) + when_live (completed_slots (tracker s) ! k) =
        live_records (completed_slots (tracker s)) + when_live 0"
      using inv by (intro live_records_update) (simp add: tracker_inv_def Let_def kCompletedActivityCapacity_def)
    then show ?thesis
      using inv DrainAt True by (auto simp: tracker_inv_def Let_def drain_ends_def when_live_def split: if_splits)
  next
    case False
    then show ?thesis
      using inv DrainAt sort_activities_sorts [of "map decode_record batch"]
        mset_eq_length [of "sort_activities (map decode_record batch)" "map decode_record batch"]
      by (auto simp: tracker_inv_def Let_def drain_ends_def)
  qed
qed (use inv in \<open>simp_all add: tracker_inv_def Let_def drain_ends_def\<close>)

section \<open>The machine\<close>

lemma number_none: "\<not> P ActivityUnused \<Longrightarrow> number P (\<lambda>_. ActivityUnused) = 0"
  by (simp add: number_def)

lemma new_tracker_threads_inv: "tracker_inv new_tracker_threads"
  by (simp add: tracker_inv_def Let_def new_tracker_threads_def new_tracker_def number_none state_word_def
      live_records_def kCompletedActivityCapacity_def kGenerationIncrement_def)

interpretation tracker_machine: invariant_machine tracker_step tracker_inv
proof
  fix action s
  assume "tracker_inv s"
  then show "tracker_inv (tracker_step action s)"
    by (cases action) (simp_all only: StepActivity_inv CallTrack_inv CallDrain_inv StepDrain_inv)
qed

lemma tracker_reachable_inv:
  "reachable_from tracker_step new_tracker_threads s \<Longrightarrow> tracker_inv s"
  by (rule tracker_machine.reachable_inv [OF _ new_tracker_threads_inv])

lemma drained_batch:
  assumes "tracker_inv s" "draining s = DrainAt kCompletedActivityCapacity batch"
  shows "draining (tracker_step StepDrain s) =
    DrainDone (sort_activities (map decode_record batch)) (completion_overflow (tracker s))"
  using assms by simp

section \<open>Samples\<close>

text \<open>Two activities: the first is inside, the second has left; the drain is about to end.\<close>

definition sample_tracking :: "tracker_action list" where
  "sample_tracking = [CallTrack 0, CallTrack 1] @ replicate 2 (StepActivity 0 5) @ replicate 2 (StepActivity 1 7) @
     replicate 3 (StepActivity 1 20)"

definition sample_tracked :: "tracker_action list \<Rightarrow> TrackerThreads" where
  "sample_tracked actions = fold tracker_step (sample_tracking @ actions) new_tracker_threads"

lemma sample_tracked_reachable: "reachable_from tracker_step new_tracker_threads (sample_tracked actions)"
  unfolding sample_tracked_def by (rule reachable_fold)

section \<open>Properties\<close>

text \<open>
  One atomic load tells the actor how much host work is under way: as long as fewer than 2^16
  activities are inside, the in-flight half of the state word is exactly the number of activities
  that have entered and not left, and the generation half counts every entry and every departure,
  so it changes with each of them; the borrow of a departure never leaks from one half to the other.
\<close>

theorem snapshot_is_exact:
  assumes "reachable_from tracker_step new_tracker_threads s"
    and "number has_entered (activities s) < number has_left (activities s) + 2 ^ 16"
  shows "unat (snapshot_in_flight (tracker_snapshot (tracker s))) =
      number has_entered (activities s) - number has_left (activities s) \<and>
    unat (snapshot_generation (tracker_snapshot (tracker s))) =
      1 + number has_entered (activities s) + number has_left (activities s)"
proof -
  have inv: "tracker_inv s" by (rule tracker_reachable_inv [OF assms(1)])
  note bounds = entered_bounds [OF inv]
  have "number has_entered (activities s) < 2 ^ 32"
    by (rule le_less_trans [OF bounds(1) word32_less])
  then show ?thesis
    using state_word_halves [OF _ bounds(2) assms(2)] inv
    by (simp add: tracker_inv_def Let_def tracker_snapshot_def)
qed

theorem snapshot_is_exact_witness:
  "number has_entered (activities (sample_tracked [])) - number has_left (activities (sample_tracked [])) = 1"
proof -
  have state: "unat (snapshot_in_flight (tracker_snapshot (tracker (sample_tracked [])))) = 1"
    "unat (next_activity_sequence (tracker (sample_tracked []))) = 2" by code_simp+
  have "number has_entered (activities (sample_tracked [])) \<le> 2"
    using entered_bounds(1) [OF tracker_reachable_inv [OF sample_tracked_reachable]] state(2) by metis
  then have "number has_entered (activities (sample_tracked [])) < number has_left (activities (sample_tracked [])) + 2 ^ 16"
    by simp
  from snapshot_is_exact [OF sample_tracked_reachable this] state(1) show ?thesis by simp
qed

text \<open>
  Every completion is reported exactly once. Whatever the interleaving of the activities and the
  drains, each activity that has reported published one record or was counted as lost; the records
  published are those the finished drains returned, those the drain under way holds and those still in
  a slot, none twice and none missing; the lost ones are those the drains returned plus the counter. A
  finished drain returns at most 64 completions, ordered by the sequence of their activities.
\<close>

theorem completions_are_reported_once:
  assumes "reachable_from tracker_step new_tracker_threads s"
  shows "length (published s) + overflowed s = number has_reported (activities s) \<and>
    mset (published s) = mset (drained_records s) + mset (batch_of (draining s)) +
      filter_mset (\<lambda>r. r \<noteq> 0) (mset (completed_slots (tracker s))) \<and>
    overflowed s = drained_overflow s + unat (completion_overflow (tracker s)) \<and>
    (\<forall>batch n. draining s = DrainDone batch n \<longrightarrow>
      length batch \<le> kCompletedActivityCapacity \<and> sorted (map completed_sequence batch))"
  using tracker_reachable_inv [OF assms] by (auto simp: tracker_inv_def Let_def live_records_def)

theorem completions_are_reported_once_witness:
  "mset (published (sample_tracked (CallDrain # replicate 65 StepDrain))) =
    {#completion_record 2 13#}"
proof -
  let ?s = "sample_tracked (CallDrain # replicate 65 StepDrain)"
  have state: "drained_records ?s = [completion_record 2 13]" "batch_of (draining ?s) = []"
    "filter (\<lambda>r. r \<noteq> 0) (completed_slots (tracker ?s)) = []" by code_simp+
  have "filter_mset (\<lambda>r. r \<noteq> 0) (mset (completed_slots (tracker ?s))) = {#}"
    using state(3) by (metis mset.simps(1) mset_filter)
  with completions_are_reported_once [OF sample_tracked_reachable] state(1,2) show ?thesis by simp
qed

end
