(* ===== verification/ProbeEventQueue.thy ===== *)
theory ProbeEventQueue
  imports SavorPrelude
begin

text \<open>
  The bounded queue between the threads that hit probes and the recorder thread
  (\<open>BoundedEventQueue\<close> in SavorProbe/ProbeEvent.h and .cpp), at the granularity of its atomic
  operations: any number of threads push, one thread pops, and their steps interleave in any order.
  Memory is sequentially consistent in the model; an event is any value, since the queue only
  copies it.
\<close>

section \<open>The queue\<close>

record 'e BoundedEventQueue =
  queue_capacity :: u32
  slot_sequences :: "u64 list"
  slot_events :: "'e list"
  enqueue_position :: u64
  dequeue_position :: u64

definition queue_reset :: "'e BoundedEventQueue \<Rightarrow> 'e BoundedEventQueue" where
  "queue_reset q = q\<lparr>enqueue_position := 0, dequeue_position := 0,
     slot_sequences := map of_nat [0..<unat (queue_capacity q)]\<rparr>"

text \<open>\<open>event\<close> is the default-constructed event of a new slot.\<close>

definition queue_configure :: "u32 \<Rightarrow> 'e \<Rightarrow> 'e BoundedEventQueue \<Rightarrow> bool \<times> 'e BoundedEventQueue" where
  "queue_configure n event q =
    (if n < 2 then (False, q)
     else (True, queue_reset (q\<lparr>queue_capacity := n, slot_events := replicate (unat n) event\<rparr>)))"

definition slot_of :: "'e BoundedEventQueue \<Rightarrow> u64 \<Rightarrow> nat" where
  "slot_of q position = unat (position mod ucast (queue_capacity q))"

definition approximate_size :: "'e BoundedEventQueue \<Rightarrow> u32" where
  "approximate_size q =
    (if queue_capacity q = 0 then 0
     else ucast (min (enqueue_position q - dequeue_position q) (ucast (queue_capacity q))))"

section \<open>A push, step by step\<close>

text \<open>
  Where a thread is in \<open>try_push\<close>: it has the position, it found the slot free and is about to
  claim it, it is about to read the position again, it writes the event, it publishes it.
\<close>

datatype 'e producer =
    PushIdle
  | PushAt 'e u64
  | PushClaiming 'e u64
  | PushReload 'e
  | PushWriting 'e u64
  | PushPublishing u64
  | PushDone bool

definition push_call :: "'e \<Rightarrow> 'e BoundedEventQueue \<Rightarrow> 'e producer" where
  "push_call event q =
    (if slot_events q = [] \<or> queue_capacity q < 2 then PushDone False
     else PushAt event (enqueue_position q))"

text \<open>
  One atomic operation. A weak compare-exchange may fail although the position has not changed;
  \<open>spurious\<close> says when.
\<close>

fun push_step :: "bool \<Rightarrow> 'e producer \<Rightarrow> 'e BoundedEventQueue \<Rightarrow> 'e producer \<times> 'e BoundedEventQueue" where
  "push_step spurious (PushAt event position) q =
    (let difference = sint (slot_sequences q ! slot_of q position) - sint position in
     (if difference = 0 then PushClaiming event position
      else if difference < 0 then PushDone False
      else PushReload event, q))"
| "push_step spurious (PushClaiming event position) q =
    (if enqueue_position q = position \<and> \<not> spurious
     then (PushWriting event position, q\<lparr>enqueue_position := position + 1\<rparr>)
     else (PushAt event (enqueue_position q), q))"
| "push_step spurious (PushReload event) q = (PushAt event (enqueue_position q), q)"
| "push_step spurious (PushWriting event position) q =
    (PushPublishing position, q\<lparr>slot_events := (slot_events q)[slot_of q position := event]\<rparr>)"
| "push_step spurious (PushPublishing position) q =
    (PushDone True, q\<lparr>slot_sequences := (slot_sequences q)[slot_of q position := position + 1]\<rparr>)"
| "push_step spurious p q = (p, q)"

section \<open>A pop, step by step\<close>

datatype 'e consumer =
    PopIdle
  | PopAt u64
  | PopCopying u64
  | PopReleasing 'e u64
  | PopAdvancing 'e u64
  | PopDone "'e option"

definition pop_call :: "'e BoundedEventQueue \<Rightarrow> 'e consumer" where
  "pop_call q =
    (if slot_events q = [] \<or> queue_capacity q < 2 then PopDone None else PopAt (dequeue_position q))"

fun pop_step :: "'e consumer \<Rightarrow> 'e BoundedEventQueue \<Rightarrow> 'e consumer \<times> 'e BoundedEventQueue" where
  "pop_step (PopAt position) q =
    (if sint (slot_sequences q ! slot_of q position) - sint (position + 1) \<noteq> 0 then PopDone None
     else PopCopying position, q)"
| "pop_step (PopCopying position) q = (PopReleasing (slot_events q ! slot_of q position) position, q)"
| "pop_step (PopReleasing event position) q =
    (PopAdvancing event position,
     q\<lparr>slot_sequences := (slot_sequences q)[slot_of q position := position + ucast (queue_capacity q)]\<rparr>)"
| "pop_step (PopAdvancing event position) q = (PopDone (Some event), q\<lparr>dequeue_position := position + 1\<rparr>)"
| "pop_step c q = (c, q)"

section \<open>The threads\<close>

text \<open>
  \<open>pushed\<close> and \<open>popped\<close> record the events in the order of the claims and of the copies; the code
  has no such members. The model stops the claims after \<open>2 ^ 62\<close> events.
\<close>

record 'e QueueThreads =
  queue :: "'e BoundedEventQueue"
  producers :: "thread_id \<Rightarrow> 'e producer"
  consumer :: "'e consumer"
  pushed :: "'e list"
  popped :: "'e list"

datatype 'e queue_action =
    CallPush thread_id 'e
  | StepPush thread_id bool
  | CallPop
  | StepPop

fun queue_at_rest :: "'e producer \<Rightarrow> bool" where
  "queue_at_rest PushIdle = True"
| "queue_at_rest (PushDone b) = True"
| "queue_at_rest p = False"

fun consumer_at_rest :: "'e consumer \<Rightarrow> bool" where
  "consumer_at_rest PopIdle = True"
| "consumer_at_rest (PopDone e) = True"
| "consumer_at_rest c = False"

fun claimed_by_step :: "'e producer \<Rightarrow> 'e producer \<Rightarrow> 'e list" where
  "claimed_by_step (PushClaiming event position) (PushWriting event' position') = [event]"
| "claimed_by_step p p' = []"

fun copied_by_step :: "'e consumer \<Rightarrow> 'e list" where
  "copied_by_step (PopReleasing event position) = [event]"
| "copied_by_step c = []"

fun queue_step :: "'e queue_action \<Rightarrow> 'e QueueThreads \<Rightarrow> 'e QueueThreads" where
  "queue_step (CallPush t event) s =
    (if queue_at_rest (producers s t)
     then s\<lparr>producers := (producers s)(t := push_call event (queue s))\<rparr> else s)"
| "queue_step (StepPush t spurious) s =
    (if enqueue_position (queue s) < 0x4000000000000000 then
       (case push_step spurious (producers s t) (queue s) of
          (p, q) \<Rightarrow> s\<lparr>queue := q, producers := (producers s)(t := p),
            pushed := pushed s @ claimed_by_step (producers s t) p\<rparr>)
     else s)"
| "queue_step CallPop s =
    (if consumer_at_rest (consumer s) then s\<lparr>consumer := pop_call (queue s)\<rparr> else s)"
| "queue_step StepPop s =
    (case pop_step (consumer s) (queue s) of
       (c, q) \<Rightarrow> s\<lparr>queue := q, consumer := c,
         popped := (case consumer s of PopCopying _ \<Rightarrow> popped s @ copied_by_step c | _ \<Rightarrow> popped s)\<rparr>)"

definition queue_threads :: "'e BoundedEventQueue \<Rightarrow> 'e QueueThreads" where
  "queue_threads q = \<lparr>queue = q, producers = (\<lambda>_. PushIdle), consumer = PopIdle, pushed = [], popped = []\<rparr>"

lemma room_nat [simp]: "(w :: u64) < 0x4000000000000000 \<longleftrightarrow> unat w < 2 ^ 62"
  by (simp add: word_less_nat_alt)

section \<open>Positions and slots\<close>

text \<open>
  Positions count the events; \<open>released\<close> is the number of slots the consumer has given back. The
  positions from \<open>released\<close> on, as many as there are slots, each have a slot of their own.
\<close>

definition size_of_queue :: "'e BoundedEventQueue \<Rightarrow> nat" where
  "size_of_queue q = unat (queue_capacity q)"

definition seq :: "'e BoundedEventQueue \<Rightarrow> nat \<Rightarrow> nat" where
  "seq q p = unat (slot_sequences q ! (p mod size_of_queue q))"

definition event_at :: "'e BoundedEventQueue \<Rightarrow> nat \<Rightarrow> 'e" where
  "event_at q p = slot_events q ! (p mod size_of_queue q)"

fun releasing :: "'e consumer \<Rightarrow> nat" where
  "releasing (PopAdvancing event position) = 1"
| "releasing c = 0"

definition released :: "'e QueueThreads \<Rightarrow> nat" where
  "released s = unat (dequeue_position (queue s)) + releasing (consumer s)"

text \<open>The position a thread has claimed and not yet published.\<close>

fun claim :: "'e producer \<Rightarrow> nat option" where
  "claim (PushWriting event position) = Some (unat position)"
| "claim (PushPublishing position) = Some (unat position)"
| "claim p = None"

lemma unat_wide: "unat (ucast (w :: u32) :: u64) = unat w"
proof -
  have "unat w < 2 ^ 32" using unsigned_less [of w] by simp
  then show ?thesis by (simp add: unsigned_ucast_eq take_bit_nat_eq_self)
qed

lemma slot_of_nat: "slot_of q position = unat position mod size_of_queue q"
  by (simp add: slot_of_def size_of_queue_def unat_mod unat_wide)

lemma same_slot:
  assumes "r \<le> (p :: nat)" "p < r + c" "r \<le> p'" "p' < r + c" "p mod c = p' mod c"
  shows "p = p'"
proof (rule ccontr)
  assume "p \<noteq> p'"
  from assms have "c dvd (max p p' - min p p')"
    by (metis max_def min_def mod_eq_dvd_iff_nat nat_le_linear)
  moreover have "0 < max p p' - min p p'" "max p p' - min p p' < c" using assms \<open>p \<noteq> p'\<close> by auto
  ultimately show False by (metis nat_dvd_not_less)
qed

lemma sint_unat:
  assumes "unat (w :: u64) < 2 ^ 63"
  shows "sint w = int (unat w)"
proof -
  have "int (unat w) < int (2 ^ 63)" using assms by (simp only: of_nat_less_iff)
  then have "uint w < 2 ^ 63" by simp
  moreover have "- (2 ^ 63) \<le> uint w" by (rule order_trans [of _ 0]) simp_all
  ultimately have "signed_take_bit 63 (uint w) = uint w" by (intro signed_take_bit_int_eq_self)
  then show ?thesis by (simp add: sint_uint)
qed

lemma unat_succ:
  assumes "unat (w :: u64) < 2 ^ 63"
  shows "unat (w + 1) = unat w + 1"
proof -
  from assms have "unat w + 1 < 2 ^ 64" by simp
  then show ?thesis using unat_add_lem [of w 1] by simp
qed

section \<open>The invariant\<close>

fun taken :: "'e consumer \<Rightarrow> nat" where
  "taken (PopReleasing event position) = 1"
| "taken (PopAdvancing event position) = 1"
| "taken c = 0"

text \<open>A position that is free, holds the event of its push, or is being written by its thread.\<close>

definition slot_ok :: "'e QueueThreads \<Rightarrow> nat \<Rightarrow> bool" where
  "slot_ok s p \<longleftrightarrow>
    (let q = queue s; end = unat (enqueue_position q) in
     if end \<le> p then seq q p = p
     else seq q p = Suc p \<and> event_at q p = pushed s ! p \<or>
       seq q p = p \<and> (\<exists>t. claim (producers s t) = Some p))"

fun producer_ok :: "'e QueueThreads \<Rightarrow> 'e producer \<Rightarrow> bool" where
  "producer_ok s (PushAt e p) = (unat p \<le> unat (enqueue_position (queue s)))"
| "producer_ok s (PushClaiming e p) =
    (unat p \<le> unat (enqueue_position (queue s)) \<and> unat p < released s + size_of_queue (queue s))"
| "producer_ok s (PushWriting e p) =
    (released s \<le> unat p \<and> unat p < unat (enqueue_position (queue s)) \<and>
     seq (queue s) (unat p) = unat p \<and> pushed s ! unat p = e)"
| "producer_ok s (PushPublishing p) =
    (released s \<le> unat p \<and> unat p < unat (enqueue_position (queue s)) \<and>
     seq (queue s) (unat p) = unat p \<and> pushed s ! unat p = event_at (queue s) (unat p))"
| "producer_ok s p = True"

fun consumer_ok :: "'e QueueThreads \<Rightarrow> 'e consumer \<Rightarrow> bool" where
  "consumer_ok s (PopAt p) = (p = dequeue_position (queue s))"
| "consumer_ok s (PopCopying p) =
    (p = dequeue_position (queue s) \<and> unat p < unat (enqueue_position (queue s)) \<and>
     seq (queue s) (unat p) = Suc (unat p))"
| "consumer_ok s (PopReleasing e p) =
    (p = dequeue_position (queue s) \<and> unat p < unat (enqueue_position (queue s)) \<and>
     seq (queue s) (unat p) = Suc (unat p) \<and> e = pushed s ! unat p)"
| "consumer_ok s (PopAdvancing e p) =
    (p = dequeue_position (queue s) \<and> unat p < unat (enqueue_position (queue s)) \<and> e = pushed s ! unat p)"
| "consumer_ok s c = True"

definition bounds_ok :: "'e QueueThreads \<Rightarrow> bool" where
  "bounds_ok s \<longleftrightarrow>
    (let q = queue s; c = size_of_queue q; end = unat (enqueue_position q) in
     2 \<le> c \<and> length (slot_sequences q) = c \<and> length (slot_events q) = c \<and> end \<le> 2 ^ 62 \<and>
     length (pushed s) = end \<and> released s \<le> end \<and> end \<le> released s + c)"

definition claims_ok :: "'e QueueThreads \<Rightarrow> bool" where
  "claims_ok s \<longleftrightarrow>
    (\<forall>t t' p. claim (producers s t) = Some p \<and> claim (producers s t') = Some p \<longrightarrow> t = t')"

definition queue_inv :: "'e QueueThreads \<Rightarrow> bool" where
  "queue_inv s \<longleftrightarrow> bounds_ok s \<and> claims_ok s \<and>
    (\<forall>p. released s \<le> p \<and> p < released s + size_of_queue (queue s) \<longrightarrow> slot_ok s p) \<and>
    (\<forall>t. producer_ok s (producers s t)) \<and> consumer_ok s (consumer s) \<and>
    popped s = take (unat (dequeue_position (queue s)) + taken (consumer s)) (pushed s)"

lemma boundsD:
  assumes "queue_inv s"
  shows "2 \<le> size_of_queue (queue s)" "length (slot_sequences (queue s)) = size_of_queue (queue s)"
    "length (slot_events (queue s)) = size_of_queue (queue s)"
    "unat (enqueue_position (queue s)) \<le> 2 ^ 62" "length (pushed s) = unat (enqueue_position (queue s))"
    "released s \<le> unat (enqueue_position (queue s))"
    "unat (enqueue_position (queue s)) \<le> released s + size_of_queue (queue s)"
    "unat (dequeue_position (queue s)) \<le> released s" "size_of_queue (queue s) < 2 ^ 32"
proof -
  show "size_of_queue (queue s) < 2 ^ 32"
    using unsigned_less [of "queue_capacity (queue s)"] by (simp add: size_of_queue_def)
  show "unat (dequeue_position (queue s)) \<le> released s" by (simp add: released_def)
qed (use assms in \<open>simp_all add: queue_inv_def bounds_ok_def Let_def\<close>)

text \<open>Slots after an update.\<close>

lemma seq_update:
  assumes "length (slot_sequences q) = size_of_queue q" "0 < size_of_queue q"
  shows "seq (q\<lparr>slot_sequences := (slot_sequences q)[slot_of q w := v]\<rparr>) p =
    (if p mod size_of_queue q = unat w mod size_of_queue q then unat v else seq q p)"
  using assms by (simp add: seq_def slot_of_nat size_of_queue_def nth_list_update)

lemma event_update:
  assumes "length (slot_events q) = size_of_queue q" "0 < size_of_queue q"
  shows "event_at (q\<lparr>slot_events := (slot_events q)[slot_of q w := e]\<rparr>) p =
    (if p mod size_of_queue q = unat w mod size_of_queue q then e else event_at q p)"
  using assms by (simp add: event_at_def slot_of_nat size_of_queue_def nth_list_update)

lemma slot_simps [simp]:
  "seq (q\<lparr>slot_events := es\<rparr>) = seq q" "seq (q\<lparr>enqueue_position := w\<rparr>) = seq q"
  "seq (q\<lparr>dequeue_position := w\<rparr>) = seq q" "event_at (q\<lparr>slot_sequences := ws\<rparr>) = event_at q"
  "event_at (q\<lparr>enqueue_position := w\<rparr>) = event_at q" "event_at (q\<lparr>dequeue_position := w\<rparr>) = event_at q"
  "size_of_queue (q\<lparr>slot_events := es\<rparr>) = size_of_queue q"
  "size_of_queue (q\<lparr>slot_sequences := ws\<rparr>) = size_of_queue q"
  "size_of_queue (q\<lparr>enqueue_position := w\<rparr>) = size_of_queue q"
  "size_of_queue (q\<lparr>dequeue_position := w\<rparr>) = size_of_queue q"
  by (simp_all add: seq_def [abs_def] event_at_def [abs_def] size_of_queue_def)

end
