(* ===== verification/ProbeQueueSteps.thy ===== *)
theory ProbeQueueSteps
  imports ProbeEventQueue
begin

text \<open>Every atomic operation of the queue keeps its invariant.\<close>

section \<open>What the invariant says of one thread or slot\<close>

lemma queue_inv_producer: "queue_inv s \<Longrightarrow> producer_ok s (producers s t)"
  by (simp add: queue_inv_def)

lemma queue_inv_consumer: "queue_inv s \<Longrightarrow> consumer_ok s (consumer s)"
  by (simp add: queue_inv_def)

lemma queue_inv_slot:
  "queue_inv s \<Longrightarrow> released s \<le> p \<Longrightarrow> p < released s + size_of_queue (queue s) \<Longrightarrow> slot_ok s p"
  by (simp add: queue_inv_def)

lemma queue_inv_claims:
  "queue_inv s \<Longrightarrow> claim (producers s t) = Some p \<Longrightarrow> claim (producers s t') = Some p \<Longrightarrow> t = t'"
  by (auto simp: queue_inv_def claims_ok_def)

lemma released_simps [simp]:
  "released (s\<lparr>producers := ps\<rparr>) = released s" "released (s\<lparr>pushed := es\<rparr>) = released s"
  "released (s\<lparr>popped := es\<rparr>) = released s"
  "released (s\<lparr>queue := (queue s)\<lparr>enqueue_position := w\<rparr>\<rparr>) = released s"
  "released (s\<lparr>queue := (queue s)\<lparr>slot_events := events\<rparr>\<rparr>) = released s"
  "released (s\<lparr>queue := (queue s)\<lparr>slot_sequences := ws\<rparr>\<rparr>) = released s"
  by (simp_all add: released_def)

lemma claim_parts: "claim p = Some n \<longleftrightarrow> (\<exists>e w. (p = PushWriting e w \<or> p = PushPublishing w) \<and> unat w = n)"
  by (cases p) auto

lemma claimed_position:
  assumes "queue_inv s" "claim (producers s t) = Some p"
  shows "released s \<le> p" "p < unat (enqueue_position (queue s))" "seq (queue s) p = p"
    "p < released s + size_of_queue (queue s)"
  using queue_inv_producer [OF assms(1), of t] assms(2) boundsD(7) [OF assms(1)] by (auto simp: claim_parts)

text \<open>Two positions in the window that share a slot are one.\<close>

lemma window_slot:
  assumes "queue_inv s" "released s \<le> p" "p < released s + size_of_queue (queue s)"
    "released s \<le> p'" "p' < released s + size_of_queue (queue s)"
    "p mod size_of_queue (queue s) = p' mod size_of_queue (queue s)"
  shows "p = p'"
  using same_slot [OF assms(2-)] .

text \<open>The position of a later lap in the window.\<close>

lemma next_lap:
  assumes "0 < c" "p \<le> (r :: nat)"
  obtains p' where "p' mod c = p mod c" "r \<le> p'" "p' < r + c" "p \<le> p'"
proof -
  define q d where "q = (r - p) div c" and "d = (r - p) mod c"
  define k where "k = (if d = 0 then q else Suc q)"
  have "r - p = q * c + d" by (simp add: q_def d_def)
  moreover have "d < c" using assms(1) by (simp add: d_def)
  ultimately have "r \<le> p + k * c" "p + k * c < r + c" using assms by (auto simp: k_def)
  moreover have "(p + k * c) mod c = p mod c" by simp
  ultimately show thesis by (intro that) auto
qed

text \<open>A slot is all right as before when nothing about it has changed.\<close>

lemma slot_ok_same:
  assumes "slot_ok s i"
    and "unat (enqueue_position (queue s)) \<le> i \<longleftrightarrow> unat (enqueue_position (queue s')) \<le> i"
    and "seq (queue s') i = seq (queue s) i" "event_at (queue s') i = event_at (queue s) i"
    and "i < unat (enqueue_position (queue s)) \<Longrightarrow> pushed s' ! i = pushed s ! i"
    and "\<And>u. claim (producers s u) = Some i \<Longrightarrow> claim (producers s' u) = Some i"
  shows "slot_ok s' i"
  using assms by (auto simp: slot_ok_def Let_def split: if_splits)

section \<open>Pushing\<close>

lemma producer_ok_producers [simp]: "producer_ok (s\<lparr>producers := ps\<rparr>) p = producer_ok s p"
  by (cases p) simp_all

lemma consumer_ok_producers [simp]: "consumer_ok (s\<lparr>producers := ps\<rparr>) c = consumer_ok s c"
  by (cases c) simp_all

lemma producer_moves:
  assumes inv: "queue_inv s" and "claim (producers s t) = None" "claim p' = None" "producer_ok s p'"
  shows "queue_inv (s\<lparr>producers := (producers s)(t := p')\<rparr>)"
proof -
  let ?s = "s\<lparr>producers := (producers s)(t := p')\<rparr>"
  have claims: "claim (producers ?s u) = claim (producers s u)" for u using assms(2,3) by simp
  have "slot_ok ?s p = slot_ok s p" for p unfolding slot_ok_def claims by simp
  moreover have "claims_ok ?s = claims_ok s" unfolding claims_ok_def claims by simp
  ultimately show ?thesis using inv assms(4) by (simp add: queue_inv_def bounds_ok_def)
qed

text \<open>What a thread finds at its position: the slot is free, held by an earlier lap, or a later one.\<close>

lemma position_found:
  assumes inv: "queue_inv s" and p: "p \<le> unat (enqueue_position (queue s))"
  shows "seq (queue s) p = p \<longrightarrow> p < released s + size_of_queue (queue s)"
    and "seq (queue s) p < p \<longrightarrow> unat (enqueue_position (queue s)) = released s + size_of_queue (queue s)"
proof -
  let ?c = "size_of_queue (queue s)" and ?r = "released s"
  have full: "seq (queue s) p < p" if "\<not> p < ?r + ?c"
  proof -
    have "p = ?r + ?c" using that p boundsD(7) [OF inv] by linarith
    then have "seq (queue s) p = seq (queue s) ?r" by (simp add: seq_def)
    moreover have "seq (queue s) ?r \<le> Suc ?r"
      using queue_inv_slot [OF inv, of ?r] boundsD(1) [OF inv] by (auto simp: slot_ok_def Let_def split: if_splits)
    ultimately show ?thesis using \<open>p = ?r + ?c\<close> boundsD(1) [OF inv] by linarith
  qed
  then show "seq (queue s) p = p \<longrightarrow> p < ?r + ?c" by fastforce
  have "p \<le> seq (queue s) p" if less: "p < ?r + ?c"
  proof (cases "?r \<le> p")
    case True
    then show ?thesis using queue_inv_slot [OF inv True less] by (auto simp: slot_ok_def Let_def split: if_splits)
  next
    case False
    obtain p' where p': "p' mod ?c = p mod ?c" "?r \<le> p'" "p' < ?r + ?c" "p \<le> p'"
      using next_lap [of ?c p ?r] False boundsD(1) [OF inv] by force
    have "seq (queue s) p = seq (queue s) p'" using p'(1) by (simp add: seq_def)
    with queue_inv_slot [OF inv p'(2,3)] p'(4) show ?thesis
      by (auto simp: slot_ok_def Let_def split: if_splits)
  qed
  then show "seq (queue s) p < p \<longrightarrow> unat (enqueue_position (queue s)) = ?r + ?c"
    using p boundsD(7) [OF inv] by fastforce
qed

text \<open>The claim of the next position.\<close>

lemma claim_step:
  assumes inv: "queue_inv s" and pc: "producers s t = PushClaiming e p"
    and "enqueue_position (queue s) = p" "unat p < 2 ^ 62"
  shows "queue_inv (s\<lparr>queue := (queue s)\<lparr>enqueue_position := p + 1\<rparr>,
    producers := (producers s)(t := PushWriting e p), pushed := pushed s @ [e]\<rparr>)" (is "queue_inv ?s")
proof -
  have succ: "unat (p + 1) = Suc (unat p)" using assms(4) by (subst unat_succ) simp_all
  have window: "unat p < released s + size_of_queue (queue s)"
    using queue_inv_producer [OF inv, of t] pc by simp
  note bounds = boundsD [OF inv, unfolded assms(3)]
  have free: "seq (queue s) (unat p) = unat p"
    using queue_inv_slot [OF inv bounds(6) window] assms(3) by (simp add: slot_ok_def)
  have unclaimed: "claim (producers s u) \<noteq> Some (unat p)" for u
    using claimed_position(2) [OF inv, of u "unat p"] assms(3) by auto
  have claims: "claim (producers ?s u) = (if u = t then Some (unat p) else claim (producers s u))" for u by simp
  have "bounds_ok ?s" using bounds window assms(4) by (simp add: bounds_ok_def succ)
  moreover have "claims_ok ?s"
    unfolding claims_ok_def claims using unclaimed queue_inv_claims [OF inv] by (auto split: if_splits)
  moreover have "slot_ok ?s i" if "released s \<le> i" "i < released s + size_of_queue (queue s)" for i
  proof -
    consider "i = unat p" | "i < unat p" | "unat p < i" by linarith
    then show ?thesis
    proof cases
      case 1
      then show ?thesis using free unfolding slot_ok_def claims by (auto simp: Let_def succ)
    next
      case 2
      show ?thesis
      proof (rule slot_ok_same [OF queue_inv_slot [OF inv that]])
        show "claim (producers ?s u) = Some i" if "claim (producers s u) = Some i" for u
          using that pc by auto
      qed (use 2 assms(3) bounds(5) in \<open>simp_all add: succ nth_append\<close>)
    next
      case 3
      then show ?thesis
        using queue_inv_slot [OF inv that] assms(3) by (simp add: slot_ok_def Let_def succ)
    qed
  qed
  moreover have "producer_ok ?s (producers ?s u)" for u
  proof (cases "u = t")
    case True
    then show ?thesis using free bounds by (simp add: succ nth_append)
  next
    case False
    then show ?thesis
      using queue_inv_producer [OF inv, of u] assms(3) bounds(5)
      by (cases "producers s u") (auto simp: succ nth_append)
  qed
  moreover have "consumer_ok ?s (consumer s)"
    using queue_inv_consumer [OF inv] assms(3) bounds(5)
    by (cases "consumer s") (auto simp: succ nth_append)
  moreover have "unat (dequeue_position (queue s)) + taken (consumer s) \<le> length (pushed s)"
    using queue_inv_consumer [OF inv] bounds(5,6,8) assms(3) by (cases "consumer s") auto
  ultimately show ?thesis using inv by (simp add: queue_inv_def)
qed

text \<open>The writing of the event.\<close>

lemma write_step:
  assumes inv: "queue_inv s" and pc: "producers s t = PushWriting e p"
  shows "queue_inv (s\<lparr>queue := (queue s)\<lparr>slot_events := (slot_events (queue s))[slot_of (queue s) p := e]\<rparr>,
    producers := (producers s)(t := PushPublishing p)\<rparr>)" (is "queue_inv ?s")
proof -
  note bounds = boundsD [OF inv]
  have own: "claim (producers s t) = Some (unat p)" by (simp add: pc)
  note at = claimed_position [OF inv own]
  have e: "pushed s ! unat p = e" using queue_inv_producer [OF inv, of t] pc by simp
  have claims: "claim (producers ?s u) = claim (producers s u)" for u using own by simp
  have events: "event_at (queue ?s) i = (if i mod size_of_queue (queue s) = unat p mod size_of_queue (queue s)
      then e else event_at (queue s) i)" for i
    using bounds(1,3) by (simp add: event_update)
  have other: "event_at (queue ?s) i = event_at (queue s) i"
    if "released s \<le> i" "i < released s + size_of_queue (queue s)" "i \<noteq> unat p" for i
    using window_slot [OF inv that(1,2) at(1,4)] that(3) events by auto
  have "bounds_ok ?s" using bounds by (simp add: bounds_ok_def)
  moreover have "claims_ok ?s" unfolding claims_ok_def claims using queue_inv_claims [OF inv] by blast
  moreover have "slot_ok ?s i" if "released s \<le> i" "i < released s + size_of_queue (queue s)" for i
  proof (cases "i = unat p")
    case True
    then show ?thesis using at(2,3) own unfolding slot_ok_def claims by (auto simp: Let_def)
  next
    case False
    show ?thesis
      by (rule slot_ok_same [OF queue_inv_slot [OF inv that]])
        (use other [OF that False] claims in simp_all)
  qed
  moreover have "producer_ok ?s (producers ?s u)" for u
  proof (cases "u = t")
    case True
    then show ?thesis using at e events [of "unat p"] by simp
  next
    case False
    have "event_at (queue ?s) (unat w) = event_at (queue s) (unat w)" if "producers s u = PushPublishing w" for w
    proof -
      have w: "claim (producers s u) = Some (unat w)" using that by simp
      then have "unat w \<noteq> unat p" using queue_inv_claims [OF inv own, of u] False by auto
      then show ?thesis using other claimed_position(1,4) [OF inv w] by blast
    qed
    then show ?thesis
      using queue_inv_producer [OF inv, of u] False by (cases "producers s u") auto
  qed
  moreover have "consumer_ok ?s (consumer s)"
    using queue_inv_consumer [OF inv] by (cases "consumer s") auto
  ultimately show ?thesis using inv by (simp add: queue_inv_def)
qed

text \<open>The publication of the event.\<close>

lemma publish_step:
  assumes inv: "queue_inv s" and pc: "producers s t = PushPublishing p"
  shows "queue_inv (s\<lparr>queue := (queue s)\<lparr>slot_sequences :=
      (slot_sequences (queue s))[slot_of (queue s) p := p + 1]\<rparr>,
    producers := (producers s)(t := PushDone True)\<rparr>)" (is "queue_inv ?s")
proof -
  note bounds = boundsD [OF inv]
  have own: "claim (producers s t) = Some (unat p)" by (simp add: pc)
  note at = claimed_position [OF inv own]
  have e: "event_at (queue s) (unat p) = pushed s ! unat p" using queue_inv_producer [OF inv, of t] pc by simp
  have succ: "unat (p + 1) = Suc (unat p)" using at(2) bounds(4) by (subst unat_succ) simp_all
  have claims: "claim (producers ?s u) = (if u = t then None else claim (producers s u))" for u by simp
  have seqs: "seq (queue ?s) i = (if i mod size_of_queue (queue s) = unat p mod size_of_queue (queue s)
      then Suc (unat p) else seq (queue s) i)" for i
    using bounds(1,2) by (simp add: seq_update succ)
  have other: "seq (queue ?s) i = seq (queue s) i"
    if "released s \<le> i" "i < released s + size_of_queue (queue s)" "i \<noteq> unat p" for i
    using window_slot [OF inv that(1,2) at(1,4)] that(3) seqs by auto
  have "bounds_ok ?s" using bounds by (simp add: bounds_ok_def)
  moreover have "claims_ok ?s"
    unfolding claims_ok_def claims using queue_inv_claims [OF inv] by (auto split: if_splits)
  moreover have "slot_ok ?s i" if "released s \<le> i" "i < released s + size_of_queue (queue s)" for i
  proof (cases "i = unat p")
    case True
    then show ?thesis using at(2) e seqs by (simp add: slot_ok_def Let_def)
  next
    case False
    show ?thesis
    proof (rule slot_ok_same [OF queue_inv_slot [OF inv that]])
      show "claim (producers ?s u) = Some i" if "claim (producers s u) = Some i" for u
        using that own False by auto
    qed (use other [OF that False] in simp_all)
  qed
  moreover have "producer_ok ?s (producers ?s u)" for u
  proof (cases "u = t")
    case False
    have "seq (queue ?s) w = seq (queue s) w" if "claim (producers s u) = Some w" for w
    proof -
      have "w \<noteq> unat p" using queue_inv_claims [OF inv own, of u] that False by auto
      then show ?thesis using other claimed_position(1,4) [OF inv that] by blast
    qed
    then show ?thesis
      using queue_inv_producer [OF inv, of u] False by (cases "producers s u") auto
  qed simp
  moreover have "consumer_ok ?s (consumer s)"
  proof -
    have "seq (queue ?s) (unat w) = seq (queue s) (unat w)"
      if "seq (queue s) (unat w) = Suc (unat w)" "w = dequeue_position (queue s)" "releasing (consumer s) = 0" for w
    proof -
      have "unat w = released s" using that by (simp add: released_def)
      moreover have "unat w \<noteq> unat p" using at(3) that(1) by auto
      ultimately show ?thesis using other [of "unat w"] bounds(1) by simp
    qed
    then show ?thesis using queue_inv_consumer [OF inv] by (cases "consumer s") auto
  qed
  ultimately show ?thesis using inv by (simp add: queue_inv_def)
qed

section \<open>Popping\<close>

lemma producer_ok_consumer: "releasing c = releasing (consumer s) \<Longrightarrow>
    producer_ok (s\<lparr>consumer := c, popped := es\<rparr>) p = producer_ok s p"
  by (cases p) (simp_all add: released_def)

lemma consumer_ok_consumer [simp]: "consumer_ok (s\<lparr>consumer := c, popped := es\<rparr>) c' = consumer_ok s c'"
  by (cases c') simp_all

lemma consumer_moves:
  assumes inv: "queue_inv s" and same: "releasing c = releasing (consumer s)" and "consumer_ok s c"
    and "es = take (unat (dequeue_position (queue s)) + taken c) (pushed s)"
  shows "queue_inv (s\<lparr>consumer := c, popped := es\<rparr>)" (is "queue_inv ?s")
proof -
  have rel: "released (s\<lparr>consumer := c\<rparr>) = released s" by (simp add: released_def same)
  have "slot_ok ?s i = slot_ok s i" for i by (simp add: slot_ok_def)
  moreover have "bounds_ok ?s = bounds_ok s" by (simp add: bounds_ok_def rel)
  moreover have "claims_ok ?s = claims_ok s" by (simp add: claims_ok_def)
  ultimately show ?thesis
    using inv assms(3,4) by (simp add: queue_inv_def rel producer_ok_consumer [OF same])
qed

text \<open>The slot is given back for the next lap.\<close>

lemma release_step:
  assumes inv: "queue_inv s" and pc: "consumer s = PopReleasing e p"
  shows "queue_inv (s\<lparr>queue := (queue s)\<lparr>slot_sequences :=
      (slot_sequences (queue s))[slot_of (queue s) p := p + ucast (queue_capacity (queue s))]\<rparr>,
    consumer := PopAdvancing e p\<rparr>)" (is "queue_inv ?s")
proof -
  let ?c = "size_of_queue (queue s)"
  note bounds = boundsD [OF inv]
  have at: "p = dequeue_position (queue s)" "unat p < unat (enqueue_position (queue s))"
    "seq (queue s) (unat p) = Suc (unat p)" "e = pushed s ! unat p"
    using queue_inv_consumer [OF inv] unfolding pc by auto
  have old: "released s = unat p" by (simp add: released_def pc at(1))
  have rel: "released ?s = Suc (unat p)" by (simp add: released_def at(1))
  have lap: "unat (p + ucast (queue_capacity (queue s))) = unat p + ?c"
  proof -
    have "unat p + ?c < 2 ^ 64" using at(2) bounds(4,9) by simp
    then have "unat p + unat (ucast (queue_capacity (queue s)) :: u64) < 2 ^ LENGTH(64)"
      by (simp add: unat_wide size_of_queue_def)
    then show ?thesis using unat_add_lem [of p "ucast (queue_capacity (queue s))"]
      by (simp add: unat_wide size_of_queue_def)
  qed
  have seqs: "seq (queue ?s) i = (if i mod ?c = unat p mod ?c then unat p + ?c else seq (queue s) i)" for i
    using bounds(1,2) by (simp add: seq_update lap)
  have other: "seq (queue ?s) i = seq (queue s) i" if "unat p < i" "i < unat p + ?c" for i
    using window_slot [OF inv, of i "unat p"] that seqs old by auto
  have not_claimed: "claim (producers s u) \<noteq> Some (unat p)" for u
    using claimed_position(3) [OF inv, of u "unat p"] at(3) by auto
  have "bounds_ok ?s" using bounds at(2) old by (simp add: bounds_ok_def rel)
  moreover have "claims_ok ?s" using inv by (simp add: queue_inv_def claims_ok_def)
  moreover have "slot_ok ?s i" if "Suc (unat p) \<le> i" "i < Suc (unat p) + ?c" for i
  proof (cases "i = unat p + ?c")
    case True
    then have "unat (enqueue_position (queue s)) \<le> i" using bounds(7) old by simp
    then show ?thesis using seqs [of i] True by (simp add: slot_ok_def Let_def)
  next
    case False
    then have i: "unat p < i" "i < unat p + ?c" using that by auto
    show ?thesis
      by (rule slot_ok_same [OF queue_inv_slot [OF inv, of i]]) (use i old other in simp_all)
  qed
  moreover have "producer_ok ?s (producers s u)" for u
  proof -
    have "seq (queue ?s) w = seq (queue s) w \<and> Suc (unat p) \<le> w" if "claim (producers s u) = Some w" for w
      using claimed_position(1,4) [OF inv that] not_claimed [of u] that old other [of w]
      by (cases "w = unat p") auto
    then show ?thesis
      using queue_inv_producer [OF inv, of u] old by (cases "producers s u") (auto simp: rel)
  qed
  moreover have "popped s = take (Suc (unat p)) (pushed s)"
    using inv unfolding queue_inv_def pc by (simp add: at(1) [symmetric])
  moreover have "consumer_ok ?s (consumer ?s)" using at by simp
  ultimately show ?thesis unfolding queue_inv_def rel by (simp add: at(1) [symmetric])
qed

lemma advance_step:
  assumes inv: "queue_inv s" and pc: "consumer s = PopAdvancing e p"
  shows "queue_inv (s\<lparr>queue := (queue s)\<lparr>dequeue_position := p + 1\<rparr>, consumer := PopDone (Some e)\<rparr>)"
    (is "queue_inv ?s")
proof -
  note bounds = boundsD [OF inv]
  have at: "p = dequeue_position (queue s)" "unat p < unat (enqueue_position (queue s))"
    using queue_inv_consumer [OF inv] unfolding pc by auto
  have succ: "unat (p + 1) = Suc (unat p)" using at(2) bounds(4) by (subst unat_succ) simp_all
  have rel: "released ?s = released s" by (simp add: released_def pc at(1) [symmetric] succ)
  have "bounds_ok ?s" using bounds by (simp add: bounds_ok_def rel)
  moreover have "claims_ok ?s" using inv by (simp add: queue_inv_def claims_ok_def)
  moreover have "slot_ok ?s i = slot_ok s i" for i by (simp add: slot_ok_def Let_def)
  moreover have "producer_ok ?s q = producer_ok s q" for q by (cases q) (simp_all add: rel)
  moreover have "popped ?s = take (unat (p + 1)) (pushed s)"
    using inv pc by (simp add: queue_inv_def at(1) [symmetric] succ)
  ultimately show ?thesis using inv by (simp add: queue_inv_def rel)
qed

end
