(* ===== verification/ProbeQueueContracts.thy ===== *)
theory ProbeQueueContracts
  imports ProbeQueueSteps
begin

text \<open>The threads of a queue as a machine, and what they can rely on.\<close>

section \<open>Decisions\<close>

lemma seq_bound:
  assumes inv: "queue_inv s" and p: "p \<le> unat (enqueue_position (queue s))"
  shows "seq (queue s) p \<le> released s + size_of_queue (queue s)"
proof -
  let ?c = "size_of_queue (queue s)" and ?r = "released s"
  obtain p' where p': "p' mod ?c = p mod ?c" "?r \<le> p'" "p' < ?r + ?c"
  proof (cases "p \<le> ?r")
    case True
    then show ?thesis using next_lap [of ?c p ?r] boundsD(1) [OF inv] that by force
  next
    case False
    show ?thesis
    proof (cases "p < ?r + ?c")
      case True
      then show ?thesis using False that [of p] by simp
    next
      case full: False
      then have "p = ?r + ?c" using p boundsD(7) [OF inv] by linarith
      then show ?thesis using that [of ?r] boundsD(1) [OF inv] by simp
    qed
  qed
  have "seq (queue s) p = seq (queue s) p'" using p'(1) by (simp add: seq_def)
  with queue_inv_slot [OF inv p'(2,3)] p'(3) show ?thesis
    by (auto simp: slot_ok_def Let_def split: if_splits)
qed

text \<open>The difference the code takes is the difference of the counts.\<close>

lemma difference_of_counts:
  assumes inv: "queue_inv s" and p: "unat p \<le> unat (enqueue_position (queue s))"
  shows "sint (slot_sequences (queue s) ! slot_of (queue s) p) = int (seq (queue s) (unat p))"
    and "sint p = int (unat p)"
proof -
  let ?w = "slot_sequences (queue s) ! slot_of (queue s) p"
  have w: "unat ?w = seq (queue s) (unat p)" by (simp add: seq_def slot_of_nat)
  have "unat ?w \<le> released s + size_of_queue (queue s)" using seq_bound [OF inv p] w by simp
  also have "\<dots> < 2 ^ 63" using boundsD(4,6,9) [OF inv] by simp
  finally show "sint ?w = int (seq (queue s) (unat p))" unfolding w [symmetric] by (rule sint_unat)
  show "sint p = int (unat p)" by (rule sint_unat) (use p boundsD(4) [OF inv] in simp)
qed

lemma count_difference: "int m - int k = 0 \<longleftrightarrow> m = k" "int m - int k < 0 \<longleftrightarrow> m < k"
  by auto

lemma push_at_step:
  assumes inv: "queue_inv s" and pc: "producers s t = PushAt e p"
  shows "push_step b (PushAt e p) (queue s) =
    (if seq (queue s) (unat p) = unat p then PushClaiming e p
     else if seq (queue s) (unat p) < unat p then PushDone False else PushReload e, queue s)"
proof -
  have "unat p \<le> unat (enqueue_position (queue s))" using queue_inv_producer [OF inv, of t] pc by simp
  note diff = difference_of_counts [OF inv this]
  show ?thesis by (simp only: push_step.simps Let_def diff count_difference)
qed

lemma pop_at_step:
  assumes inv: "queue_inv s" and pc: "consumer s = PopAt p"
  shows "pop_step (PopAt p) (queue s) =
    (if seq (queue s) (unat p) = Suc (unat p) then PopCopying p else PopDone None, queue s)"
proof -
  have p: "unat p \<le> unat (enqueue_position (queue s))"
    using queue_inv_consumer [OF inv] pc boundsD(6,8) [OF inv] by simp
  note diff = difference_of_counts(1) [OF inv p]
  have small: "unat p < 2 ^ 62 + 1" using p boundsD(4) [OF inv] by linarith
  have succ: "unat (p + 1) = Suc (unat p)" using small by (subst unat_succ) simp_all
  have "sint (p + 1) = int (unat (p + 1))" by (rule sint_unat) (use small succ in simp)
  with succ have "sint (p + 1) = int (Suc (unat p))" by simp
  then show ?thesis by (simp only: pop_step.simps diff count_difference simp_thms) auto
qed

section \<open>The machine\<close>

lemma push_call_inv:
  assumes "queue_inv s" "claim (producers s t) = None"
  shows "queue_inv (s\<lparr>producers := (producers s)(t := push_call e (queue s))\<rparr>)"
  by (rule producer_moves [OF assms]) (simp_all add: push_call_def)

lemma unchanged [simp]:
  "s\<lparr>queue := queue s, producers := ps, pushed := pushed s\<rparr> = s\<lparr>producers := ps\<rparr>"
  "s\<lparr>queue := queue s, consumer := c, popped := es\<rparr> = s\<lparr>consumer := c, popped := es\<rparr>"
  by simp_all

lemma same_consumer: "consumer s = c \<Longrightarrow> s\<lparr>consumer := c\<rparr> = s"
  by (cases s) simp

lemma step_push_inv:
  assumes inv: "queue_inv s" and room: "unat (enqueue_position (queue s)) < 2 ^ 62"
  shows "queue_inv (queue_step (StepPush t b) s)"
proof (cases "producers s t")
  case (PushAt e p)
  have pos: "unat p \<le> unat (enqueue_position (queue s))"
    using queue_inv_producer [OF inv, of t] PushAt by simp
  obtain p' where p': "push_step b (PushAt e p) (queue s) = (p', queue s)" "claim p' = None" "producer_ok s p'"
      "claimed_by_step (PushAt e p) p' = []"
    using pos position_found(1) [OF inv pos] unfolding push_at_step [OF inv PushAt] by auto
  have "queue_inv (s\<lparr>producers := (producers s)(t := p')\<rparr>)"
    by (rule producer_moves [OF inv]) (use PushAt p' in simp_all)
  then show ?thesis using room by (simp add: PushAt p'(1) del: push_step.simps)
next
  case (PushClaiming e p)
  show ?thesis
  proof (cases "enqueue_position (queue s) = p \<and> \<not> b")
    case True
    then show ?thesis using claim_step [OF inv PushClaiming] room PushClaiming by simp
  next
    case False
    have "queue_inv (s\<lparr>producers := (producers s)(t := PushAt e (enqueue_position (queue s)))\<rparr>)"
      by (rule producer_moves [OF inv]) (use PushClaiming in simp_all)
    then show ?thesis using False room PushClaiming by auto
  qed
next
  case (PushReload e)
  have "queue_inv (s\<lparr>producers := (producers s)(t := PushAt e (enqueue_position (queue s)))\<rparr>)"
    by (rule producer_moves [OF inv]) (use PushReload in simp_all)
  then show ?thesis using room PushReload by simp
next
  case (PushWriting e p)
  then show ?thesis using write_step [OF inv PushWriting] room by simp
next
  case (PushPublishing p)
  then show ?thesis using publish_step [OF inv PushPublishing] room by simp
qed (use inv room in \<open>simp_all add: fun_upd_idem\<close>)

lemma step_pop_inv:
  assumes inv: "queue_inv s"
  shows "queue_inv (queue_step StepPop s)"
proof -
  have popped: "popped s = take (unat (dequeue_position (queue s)) + taken (consumer s)) (pushed s)"
    using inv by (simp add: queue_inv_def)
  show ?thesis
  proof (cases "consumer s")
    case (PopAt p)
    have at: "p = dequeue_position (queue s)" using queue_inv_consumer [OF inv] unfolding PopAt by simp
    have less: "unat p < unat (enqueue_position (queue s))" if "seq (queue s) (unat p) = Suc (unat p)"
    proof -
      have "released s = unat p" using PopAt by (simp add: released_def at)
      then show ?thesis
        using queue_inv_slot [OF inv, of "unat p"] boundsD(1) [OF inv] that
        by (auto simp: slot_ok_def Let_def split: if_splits)
    qed
    obtain c where c: "pop_step (PopAt p) (queue s) = (c, queue s)" "releasing c = 0" "taken c = 0" "consumer_ok s c"
      using at less unfolding pop_at_step [OF inv PopAt] by auto
    have "queue_inv (s\<lparr>consumer := c, popped := popped s\<rparr>)"
      by (rule consumer_moves [OF inv]) (use popped PopAt c in simp_all)
    then show ?thesis by (simp add: PopAt c(1) del: pop_step.simps)
  next
    case (PopCopying p)
    have at: "p = dequeue_position (queue s)" "unat p < unat (enqueue_position (queue s))"
      "seq (queue s) (unat p) = Suc (unat p)"
      using queue_inv_consumer [OF inv] unfolding PopCopying by auto
    have "released s = unat p" using PopCopying by (simp add: released_def at(1))
    then have e: "event_at (queue s) (unat p) = pushed s ! unat p"
      using queue_inv_slot [OF inv, of "unat p"] boundsD(1) [OF inv] at(2,3)
      by (auto simp: slot_ok_def Let_def split: if_splits)
    then have slot: "slot_events (queue s) ! slot_of (queue s) p = pushed s ! unat p"
      by (simp add: event_at_def slot_of_nat)
    have "queue_inv (s\<lparr>consumer := PopReleasing (pushed s ! unat p) p, popped := popped s @ [pushed s ! unat p]\<rparr>)"
      by (rule consumer_moves [OF inv])
        (use popped PopCopying at boundsD(5) [OF inv] in \<open>auto simp: take_Suc_conv_app_nth\<close>)
    then show ?thesis using PopCopying slot by simp
  next
    case (PopReleasing e p)
    then show ?thesis using release_step [OF inv PopReleasing] by simp
  next
    case (PopAdvancing e p)
    then show ?thesis using advance_step [OF inv PopAdvancing] by simp
  qed (use inv in \<open>simp_all add: same_consumer\<close>)
qed

lemma call_pop_inv:
  assumes inv: "queue_inv s" and rest: "consumer_at_rest (consumer s)"
  shows "queue_inv (s\<lparr>consumer := pop_call (queue s)\<rparr>)"
proof -
  have "releasing (consumer s) = 0" "taken (consumer s) = 0" using rest by (cases "consumer s"; simp)+
  then have "queue_inv (s\<lparr>consumer := pop_call (queue s), popped := popped s\<rparr>)"
    using inv by (intro consumer_moves) (auto simp: pop_call_def queue_inv_def)
  then show ?thesis by simp
qed

interpretation queue_machine: invariant_machine queue_step queue_inv
proof
  fix s :: "'a QueueThreads" and x
  assume inv: "queue_inv s"
  show "queue_inv (queue_step x s)"
  proof (cases x)
    case (CallPush t e)
    have "claim (producers s t) = None" if "queue_at_rest (producers s t)" using that by (cases "producers s t") auto
    then show ?thesis using CallPush push_call_inv [OF inv] inv by simp
  next
    case (StepPush t b)
    then show ?thesis using step_push_inv [OF inv] inv by (cases "unat (enqueue_position (queue s)) < 2 ^ 62") auto
  next
    case CallPop
    then show ?thesis using call_pop_inv [OF inv] inv by simp
  next
    case StepPop
    then show ?thesis using step_pop_inv [OF inv] by simp
  qed
qed

lemma configured_inv:
  assumes "queue_configure n e q = (True, q0)"
  shows "queue_inv (queue_threads q0)"
proof -
  have q0: "2 \<le> n" "queue_capacity q0 = n" "enqueue_position q0 = 0" "dequeue_position q0 = 0"
    "slot_sequences q0 = map of_nat [0..<unat n]" "slot_events q0 = replicate (unat n) e"
    using assms by (auto simp: queue_configure_def queue_reset_def not_less split: if_splits)
  have n: "2 \<le> unat n" using q0(1) by (simp add: word_le_nat_alt)
  have size: "size_of_queue q0 = unat n" by (simp add: size_of_queue_def q0)
  have "seq q0 p = p" if "p < unat n" for p
  proof -
    have "unat n < 2 ^ 32" using unsigned_less [of n] by simp
    then have "unat (of_nat p :: u64) = p" using that by (simp add: unsigned_of_nat take_bit_nat_eq_self)
    then show ?thesis using that by (simp add: seq_def size q0)
  qed
  then show ?thesis
    using n by (simp add: queue_inv_def queue_threads_def bounds_ok_def claims_ok_def slot_ok_def released_def size q0)
qed

lemma queue_reachable_inv:
  "queue_configure n e q = (True, q0) \<Longrightarrow> reachable_from queue_step (queue_threads q0) s \<Longrightarrow> queue_inv s"
  by (rule queue_machine.reachable_inv [OF _ configured_inv])

section \<open>A push that runs alone\<close>

text \<open>How many steps a push needs when nothing else happens.\<close>

definition steps_needed :: "'e QueueThreads \<Rightarrow> thread_id \<Rightarrow> nat" where
  "steps_needed s t =
    (case producers s t of
       PushAt e p \<Rightarrow> if p = enqueue_position (queue s) then 4 else 6
     | PushClaiming e p \<Rightarrow> if p = enqueue_position (queue s) then 3 else 5
     | PushReload e \<Rightarrow> 5
     | PushWriting e p \<Rightarrow> 2
     | PushPublishing p \<Rightarrow> 1
     | _ \<Rightarrow> 0)"

definition room_left :: "'e QueueThreads \<Rightarrow> thread_id \<Rightarrow> bool" where
  "room_left s t \<longleftrightarrow> unat (enqueue_position (queue s)) < 2 ^ 62 - (if steps_needed s t > 2 then 1 else 0)"

lemma steps_decrease:
  assumes inv: "queue_inv s" and room: "room_left s t" and "steps_needed s t = Suc k"
  shows "steps_needed (queue_step (StepPush t False) s) t \<le> k \<and> room_left (queue_step (StepPush t False) s) t"
proof -
  have small: "unat (enqueue_position (queue s)) < 2 ^ 62"
    using room by (auto simp: room_left_def split: if_splits)
  show ?thesis
  proof (cases "producers s t")
    case (PushAt e p)
    have pos: "unat p \<le> unat (enqueue_position (queue s))" using queue_inv_producer [OF inv, of t] PushAt by simp
    have "seq (queue s) (unat p) \<le> unat p" if "p = enqueue_position (queue s)"
    proof (cases "unat p < released s + size_of_queue (queue s)")
      case True
      then show ?thesis
        using queue_inv_slot [OF inv _ True] boundsD(6) [OF inv] that by (simp add: slot_ok_def Let_def)
    next
      case False
      then show ?thesis using seq_bound [OF inv pos] by linarith
    qed
    then show ?thesis
      using assms(3) room small PushAt
      by (auto simp: steps_needed_def room_left_def push_at_step [OF inv PushAt] simp del: push_step.simps
          split: if_splits)
  next
    case (PushClaiming e p)
    have "unat (p + 1) = Suc (unat p)" if "p = enqueue_position (queue s)"
      using small that by (subst unat_succ) simp_all
    then show ?thesis
      using assms(3) room small PushClaiming by (auto simp: steps_needed_def room_left_def split: if_splits)
  qed (use assms(3) room small in \<open>auto simp: steps_needed_def room_left_def split: if_splits\<close>)
qed

lemma push_runs:
  assumes "queue_inv s" "room_left s t" "steps_needed s t \<le> k"
  shows "steps_needed ((queue_step (StepPush t False) ^^ k) s) t = 0"
  using assms
proof (induction k arbitrary: s)
  case (Suc k)
  let ?s = "queue_step (StepPush t False) s"
  have inv: "queue_inv ?s" by (rule queue_machine.step_inv [OF Suc.prems(1)])
  have "room_left ?s t \<and> steps_needed ?s t \<le> k"
  proof (cases "steps_needed s t")
    case 0
    then have "queue_at_rest (producers s t)" by (cases "producers s t") (auto simp: steps_needed_def split: if_splits)
    then have "?s = s" by (cases "producers s t") (simp_all add: fun_upd_idem)
    with 0 Suc.prems(2) show ?thesis by simp
  next
    case (Suc m)
    with steps_decrease [OF Suc.prems(1,2)] Suc.prems(3) show ?thesis by fastforce
  qed
  then show ?case using Suc.IH [OF inv] by (simp only: funpow_Suc_right o_apply)
qed simp

lemma push_answers:
  assumes "queue_inv s" "unat (enqueue_position (queue s)) < 2 ^ 62 - 1"
  shows "queue_at_rest (producers ((queue_step (StepPush t False) ^^ 6) s) t)"
proof -
  have "steps_needed s t \<le> 6" by (auto simp: steps_needed_def split: producer.splits)
  moreover have "room_left s t" using assms(2) by (auto simp: room_left_def)
  ultimately have "steps_needed ((queue_step (StepPush t False) ^^ 6) s) t = 0" using push_runs [OF assms(1)] by blast
  then show ?thesis
    by (cases "producers ((queue_step (StepPush t False) ^^ 6) s) t") (auto simp: steps_needed_def split: if_splits)
qed

section \<open>A run\<close>

definition sample_queue :: "nat BoundedEventQueue" where
  "sample_queue = snd (queue_configure 2 0 \<lparr>queue_capacity = 0, slot_sequences = [], slot_events = [],
     enqueue_position = 0, dequeue_position = 0\<rparr>)"

lemma sample_queue_configured:
  "queue_configure 2 0 \<lparr>queue_capacity = 0, slot_sequences = [], slot_events = [],
     enqueue_position = 0, dequeue_position = 0\<rparr> = (True, sample_queue)"
  by (simp add: sample_queue_def queue_configure_def)

text \<open>Two threads race for the first slot; the second one loses and writes while the reader looks.\<close>

definition race :: "nat queue_action list" where
  "race = [CallPush 1 10, CallPush 2 20, StepPush 1 False, StepPush 2 False, StepPush 1 False, StepPush 2 False,
     StepPush 2 False, StepPush 2 False]"

definition sample_race :: "nat queue_action list \<Rightarrow> nat QueueThreads" where
  "sample_race actions = fold queue_step (race @ actions) (queue_threads sample_queue)"

lemma sample_race_reachable: "reachable_from queue_step (queue_threads sample_queue) (sample_race actions)"
  unfolding sample_race_def by (rule reachable_fold)

section \<open>Properties\<close>

text \<open>
  The queue is first in, first out, whatever the threads do and however their steps interleave:
  the events popped are the events pushed, each once, in the order in which their pushes claimed
  their positions, and never more than the capacity are in between. A pop that answers an event
  answers the last one taken.
\<close>

theorem queue_is_first_in_first_out:
  assumes "queue_configure n event0 q = (True, q0)"
    and "reachable_from queue_step (queue_threads q0) s"
  shows "popped s = take (length (popped s)) (pushed s) \<and>
    length (pushed s) \<le> length (popped s) + size_of_queue (queue s) \<and>
    (\<forall>e p. consumer s = PopAdvancing e p \<longrightarrow> popped s \<noteq> [] \<and> e = last (popped s))"
proof -
  have inv: "queue_inv s" by (rule queue_reachable_inv [OF assms])
  note bounds = boundsD [OF inv]
  let ?k = "unat (dequeue_position (queue s)) + taken (consumer s)"
  have popped: "popped s = take ?k (pushed s)" using inv by (simp add: queue_inv_def)
  have k: "?k \<le> length (pushed s)" "released s \<le> ?k"
    using queue_inv_consumer [OF inv] bounds(5,6,8) by (cases "consumer s"; simp add: released_def)+
  have "popped s \<noteq> [] \<and> e = last (popped s)" if "consumer s = PopAdvancing e p" for e p
  proof -
    have "e = pushed s ! unat p" "p = dequeue_position (queue s)" "unat p < length (pushed s)"
      using queue_inv_consumer [OF inv] that bounds(5) by auto
    then show ?thesis using popped that by (simp add: take_Suc_conv_app_nth)
  qed
  then show ?thesis using popped k bounds(5,7) by auto
qed

theorem queue_is_first_in_first_out_witness:
  "pushed (sample_race (replicate 2 (StepPush 1 False) @ CallPop # replicate 4 StepPop)) = [10, 20] \<and>
    popped (sample_race (replicate 2 (StepPush 1 False) @ CallPop # replicate 4 StepPop)) = [10]"
proof -
  let ?s = "sample_race (replicate 2 (StepPush 1 False) @ CallPop # replicate 4 StepPop)"
  have "pushed ?s = [10, 20]" "length (popped ?s) = 1" by code_simp+
  with queue_is_first_in_first_out [OF sample_queue_configured sample_race_reachable,
      of "replicate 2 (StepPush 1 False) @ CallPop # replicate 4 StepPop"]
  show ?thesis by simp
qed

text \<open>
  No two threads are in a slot at once: while a thread writes its event, no other thread writes
  to the same slot and the reader does not copy from it. So the copies, which are not atomic, never
  race.
\<close>

theorem slots_are_never_shared:
  assumes "queue_configure n event0 q = (True, q0)"
    and "reachable_from queue_step (queue_threads q0) s"
    and "producers s t = PushWriting e p"
  shows "(\<forall>t' e' p'. t' \<noteq> t \<and> producers s t' = PushWriting e' p' \<longrightarrow> slot_of (queue s) p' \<noteq> slot_of (queue s) p) \<and>
    (\<forall>p'. consumer s = PopCopying p' \<longrightarrow> slot_of (queue s) p' \<noteq> slot_of (queue s) p)"
proof (intro conjI allI impI)
  have inv: "queue_inv s" by (rule queue_reachable_inv [OF assms(1,2)])
  have own: "claim (producers s t) = Some (unat p)" using assms(3) by simp
  note at = claimed_position [OF inv own]
  fix t' e' p' assume other: "t' \<noteq> t \<and> producers s t' = PushWriting e' p'"
  then have claim: "claim (producers s t') = Some (unat p')" by simp
  then have "unat p' \<noteq> unat p" using queue_inv_claims [OF inv own, of t'] other by auto
  then show "slot_of (queue s) p' \<noteq> slot_of (queue s) p"
    using window_slot [OF inv claimed_position(1,4) [OF inv claim] at(1,4)] by (auto simp: slot_of_nat)
next
  have inv: "queue_inv s" by (rule queue_reachable_inv [OF assms(1,2)])
  have own: "claim (producers s t) = Some (unat p)" using assms(3) by simp
  note at = claimed_position [OF inv own]
  fix p' assume pc: "consumer s = PopCopying p'"
  have p': "p' = dequeue_position (queue s)" "seq (queue s) (unat p') = Suc (unat p')"
    using queue_inv_consumer [OF inv] unfolding pc by auto
  then have r: "released s = unat p'" by (simp add: released_def pc)
  have "unat p' \<noteq> unat p" using at(3) p'(2) by auto
  then show "slot_of (queue s) p' \<noteq> slot_of (queue s) p"
    using window_slot [OF inv _ _ at(1,4), of "unat p'"] r boundsD(1) [OF inv] by (auto simp: slot_of_nat)
qed

theorem slots_are_never_shared_witness:
  "producers (sample_race []) 1 = PushWriting 10 0 \<and> producers (sample_race []) 2 = PushWriting 20 1 \<and>
    slot_of (queue (sample_race [])) 1 \<noteq> slot_of (queue (sample_race [])) 0"
proof -
  have state: "producers (sample_race []) 1 = PushWriting 10 0" "producers (sample_race []) 2 = PushWriting 20 1"
    by code_simp+
  have "(2 :: thread_id) \<noteq> 1 \<and> producers (sample_race []) 2 = PushWriting 20 1" using state(2) by simp
  with slots_are_never_shared [OF sample_queue_configured sample_race_reachable state(1), THEN conjunct1]
  have "slot_of (queue (sample_race [])) 1 \<noteq> slot_of (queue (sample_race [])) 0" by blast
  with state show ?thesis by blast
qed

text \<open>
  The answers are true and come: a push is refused only while every slot holds an event that
  has not been given back, a pop finds nothing only when every event has been taken or the next one
  is still being written, and a push that runs without interruption answers within six of its own
  steps.
\<close>

theorem queue_answers_are_true:
  assumes "queue_configure n event0 q = (True, q0)"
    and "reachable_from queue_step (queue_threads q0) s"
    and "unat (enqueue_position (queue s)) < 2 ^ 62 - 1"
  shows "(\<forall>e p b. producers s t = PushAt e p \<and> producers (queue_step (StepPush t b) s) t = PushDone False \<longrightarrow>
      length (pushed s) = released s + size_of_queue (queue s)) \<and>
    (\<forall>p. consumer s = PopAt p \<and> consumer (queue_step StepPop s) = PopDone None \<longrightarrow>
      length (pushed s) = length (popped s) \<or>
      (\<exists>u. claim (producers s u) = Some (length (popped s)))) \<and>
    queue_at_rest (producers ((queue_step (StepPush t False) ^^ 6) s) t)"
proof (intro conjI allI impI)
  have inv: "queue_inv s" by (rule queue_reachable_inv [OF assms(1,2)])
  note bounds = boundsD [OF inv]
  fix e p b
  assume *: "producers s t = PushAt e p \<and> producers (queue_step (StepPush t b) s) t = PushDone False"
  then have pc: "producers s t = PushAt e p" by simp
  have pos: "unat p \<le> unat (enqueue_position (queue s))" using queue_inv_producer [OF inv, of t] pc by simp
  have "seq (queue s) (unat p) < unat p"
    using conjunct2 [OF *] assms(3) by (simp add: pc push_at_step [OF inv pc] del: push_step.simps split: if_splits)
  then show "length (pushed s) = released s + size_of_queue (queue s)"
    using position_found(2) [OF inv pos] bounds(5) by simp
next
  have inv: "queue_inv s" by (rule queue_reachable_inv [OF assms(1,2)])
  note bounds = boundsD [OF inv]
  fix p
  assume *: "consumer s = PopAt p \<and> consumer (queue_step StepPop s) = PopDone None"
  then have pc: "consumer s = PopAt p" by simp
  have p: "p = dequeue_position (queue s)" using queue_inv_consumer [OF inv] pc by simp
  then have r: "released s = unat p" by (simp add: released_def pc)
  have "popped s = take (unat p) (pushed s)" using inv pc p by (simp add: queue_inv_def)
  then have len: "length (popped s) = unat p" using bounds(5,6) r by simp
  have "seq (queue s) (unat p) \<noteq> Suc (unat p)"
    using * by (auto simp: pop_at_step [OF inv pc] simp del: pop_step.simps split: if_splits)
  then have "unat (enqueue_position (queue s)) \<le> unat p \<or> (\<exists>u. claim (producers s u) = Some (unat p))"
    using queue_inv_slot [OF inv, of "unat p"] r bounds(1) by (auto simp: slot_ok_def Let_def split: if_splits)
  then show "length (pushed s) = length (popped s) \<or> (\<exists>u. claim (producers s u) = Some (length (popped s)))"
    using len bounds(5,6) r by auto
next
  have inv: "queue_inv s" by (rule queue_reachable_inv [OF assms(1,2)])
  show "queue_at_rest (producers ((queue_step (StepPush t False) ^^ 6) s) t)"
    by (rule push_answers [OF inv assms(3)])
qed

theorem queue_answers_are_true_witness:
  "(\<exists>u. claim (producers (sample_race [CallPop]) u) = Some 0) \<and>
    queue_at_rest (producers ((queue_step (StepPush 1 False) ^^ 6) (sample_race [CallPop])) 1)"
proof -
  have state: "consumer (sample_race [CallPop]) = PopAt 0"
    "consumer (queue_step StepPop (sample_race [CallPop])) = PopDone None"
    "enqueue_position (queue (sample_race [CallPop])) = 2"
    "length (popped (sample_race [CallPop])) = 0" "length (pushed (sample_race [CallPop])) = 2"
    by code_simp+
  then have "unat (enqueue_position (queue (sample_race [CallPop]))) < 2 ^ 62 - 1" by simp
  from queue_answers_are_true [OF sample_queue_configured sample_race_reachable this, of 1] state
  show ?thesis by auto
qed

end
