(* ===== verification/ProbeLatestEvent.thy ===== *)
theory ProbeLatestEvent
  imports SavorPrelude
begin

text \<open>
  The place for the latest progress event (\<open>LatestRawProbeEvent\<close> in SavorProbe/ProbeEvent.h and
  .cpp), at the granularity of its atomic operations: one thread publishes and may overwrite what has
  not been delivered, another takes. Memory is sequentially consistent in the model; the code's
  orders are weaker (a store of \<open>reader_slot_\<close> with release order, then a load of
  \<open>published_token_\<close>).
\<close>

unbundle bit_operations_syntax

section \<open>The slots\<close>

definition kNoSlot :: u32 where
  "kNoSlot = 0xffffffff"

record 'e LatestRawProbeEvent =
  latest_slots :: "'e list"
  next_generation :: u64
  published_token :: u64
  consumed_token :: u64
  reader_slot :: u32

definition latest_reset :: "'e LatestRawProbeEvent \<Rightarrow> 'e LatestRawProbeEvent" where
  "latest_reset l = l\<lparr>next_generation := 0, published_token := 0, consumed_token := 0, reader_slot := kNoSlot\<rparr>"

text \<open>Three slots of default-constructed events.\<close>

definition latest_configure :: "'e \<Rightarrow> 'e LatestRawProbeEvent \<Rightarrow> 'e LatestRawProbeEvent" where
  "latest_configure event l = latest_reset (l\<lparr>latest_slots := [event, event, event]\<rparr>)"

definition token_slot :: "u64 \<Rightarrow> u32" where
  "token_slot token = ucast (token AND 3)"

definition has_pending :: "'e LatestRawProbeEvent \<Rightarrow> bool" where
  "has_pending l \<longleftrightarrow> published_token l \<noteq> 0 \<and> published_token l \<noteq> consumed_token l"

section \<open>Publishing, step by step\<close>

text \<open>
  The thread is about to load \<open>published_token_\<close>, then \<open>consumed_token_\<close>, then \<open>reader_slot_\<close>; it
  writes the event and stores the token.
\<close>

datatype 'e publisher =
    PublishIdle
  | PublishStart 'e
  | PublishSeen 'e u64
  | PublishChecked 'e u64 bool
  | PublishWriting 'e u32 bool
  | PublishStoring 'e u32 bool
  | PublishDone bool bool

definition publish_call :: "'e \<Rightarrow> 'e LatestRawProbeEvent \<Rightarrow> 'e publisher" where
  "publish_call event l = (if latest_slots l = [] then PublishDone False False else PublishStart event)"

definition select_slot :: "u64 \<Rightarrow> u32 \<Rightarrow> u32 option" where
  "select_slot previous reader =
    (let active = (if previous = 0 then kNoSlot else token_slot previous) in
     List.find (\<lambda>index. index \<noteq> active \<and> index \<noteq> reader) [0, 1, 2])"

fun publish_step :: "'e publisher \<Rightarrow> 'e LatestRawProbeEvent \<Rightarrow> 'e publisher \<times> 'e LatestRawProbeEvent" where
  "publish_step (PublishStart event) l = (PublishSeen event (published_token l), l)"
| "publish_step (PublishSeen event previous) l =
    (PublishChecked event previous (previous \<noteq> 0 \<and> previous \<noteq> consumed_token l), l)"
| "publish_step (PublishChecked event previous replaced) l =
    (case select_slot previous (reader_slot l) of
       None \<Rightarrow> PublishDone False replaced
     | Some selected \<Rightarrow> PublishWriting event selected replaced, l)"
| "publish_step (PublishWriting event selected replaced) l =
    (PublishStoring event selected replaced, l\<lparr>latest_slots := (latest_slots l)[unat selected := event]\<rparr>)"
| "publish_step (PublishStoring event selected replaced) l =
    (PublishDone True replaced,
     l\<lparr>next_generation := next_generation l + 1,
       published_token := push_bit 2 (next_generation l + 1) OR ucast selected\<rparr>)"
| "publish_step p l = (p, l)"

section \<open>Taking, step by step\<close>

text \<open>
  The thread is about to load \<open>published_token_\<close>; it has a token and is about to load
  \<open>consumed_token_\<close>, to announce its slot, to check that the token still stands; to withdraw the
  announcement and start again; it copies, withdraws, checks again and marks the token consumed.
\<close>

datatype 'e taker =
    TakeIdle
  | TakeStart
  | TakeSeen u64
  | TakeAnnouncing u64
  | TakeChecking u64
  | TakeRetreating
  | TakeCopying u64
  | TakeWithdrawing u64 'e
  | TakeVerifying u64 'e
  | TakeConsuming u64 'e
  | TakeDone "'e option"

definition take_call :: "'e LatestRawProbeEvent \<Rightarrow> 'e taker" where
  "take_call l = (if latest_slots l = [] then TakeDone None else TakeStart)"

fun take_step :: "'e taker \<Rightarrow> 'e LatestRawProbeEvent \<Rightarrow> 'e taker \<times> 'e LatestRawProbeEvent" where
  "take_step TakeStart l =
    (if published_token l = 0 then TakeDone None else TakeSeen (published_token l), l)"
| "take_step (TakeSeen token) l =
    (if token = consumed_token l then TakeDone None else TakeAnnouncing token, l)"
| "take_step (TakeAnnouncing token) l = (TakeChecking token, l\<lparr>reader_slot := token_slot token\<rparr>)"
| "take_step (TakeChecking token) l =
    (if published_token l \<noteq> token then TakeRetreating else TakeCopying token, l)"
| "take_step TakeRetreating l = (TakeStart, l\<lparr>reader_slot := kNoSlot\<rparr>)"
| "take_step (TakeCopying token) l =
    (TakeWithdrawing token (latest_slots l ! unat (token_slot token)), l)"
| "take_step (TakeWithdrawing token event) l = (TakeVerifying token event, l\<lparr>reader_slot := kNoSlot\<rparr>)"
| "take_step (TakeVerifying token event) l =
    (if published_token l \<noteq> token then TakeStart else TakeConsuming token event, l)"
| "take_step (TakeConsuming token event) l = (TakeDone (Some event), l\<lparr>consumed_token := token\<rparr>)"
| "take_step t l = (t, l)"

section \<open>The two threads\<close>

text \<open>
  \<open>history\<close> records the published events and \<open>takings\<close> the consumed tokens with their events; the
  code has no such members. The model stops publishing after \<open>2 ^ 62 - 2\<close> events.
\<close>

record 'e LatestThreads =
  latest :: "'e LatestRawProbeEvent"
  publisher :: "'e publisher"
  taker :: "'e taker"
  history :: "'e list"
  takings :: "(u64 \<times> 'e) list"

datatype 'e latest_action = CallPublish 'e | StepPublish | CallTake | StepTake

fun publisher_at_rest :: "'e publisher \<Rightarrow> bool" where
  "publisher_at_rest PublishIdle = True"
| "publisher_at_rest (PublishDone stored replaced) = True"
| "publisher_at_rest p = False"

fun taker_at_rest :: "'e taker \<Rightarrow> bool" where
  "taker_at_rest TakeIdle = True"
| "taker_at_rest (TakeDone e) = True"
| "taker_at_rest t = False"

fun stored_by_step :: "'e publisher \<Rightarrow> 'e list" where
  "stored_by_step (PublishStoring event selected replaced) = [event]"
| "stored_by_step p = []"

fun consumed_by_step :: "'e taker \<Rightarrow> (u64 \<times> 'e) list" where
  "consumed_by_step (TakeConsuming token event) = [(token, event)]"
| "consumed_by_step t = []"

fun latest_step :: "'e latest_action \<Rightarrow> 'e LatestThreads \<Rightarrow> 'e LatestThreads" where
  "latest_step (CallPublish event) s =
    (if publisher_at_rest (publisher s) \<and> next_generation (latest s) < 0x3ffffffffffffffe
     then s\<lparr>publisher := publish_call event (latest s)\<rparr> else s)"
| "latest_step StepPublish s =
    (case publish_step (publisher s) (latest s) of
       (p, l) \<Rightarrow> s\<lparr>latest := l, publisher := p,
         history := history s @ stored_by_step (publisher s)\<rparr>)"
| "latest_step CallTake s = (if taker_at_rest (taker s) then s\<lparr>taker := take_call (latest s)\<rparr> else s)"
| "latest_step StepTake s =
    (case take_step (taker s) (latest s) of
       (t, l) \<Rightarrow> s\<lparr>latest := l, taker := t, takings := takings s @ consumed_by_step (taker s)\<rparr>)"

definition latest_threads :: "'e LatestRawProbeEvent \<Rightarrow> 'e LatestThreads" where
  "latest_threads l =
    \<lparr>latest = l, publisher = PublishIdle, taker = TakeIdle, history = [], takings = []\<rparr>"

section \<open>Tokens\<close>

definition generation :: "u64 \<Rightarrow> nat" where
  "generation token = unat (drop_bit 2 token)"

lemma token_generation:
  assumes "g < 0x3fffffffffffffff" "s < 3"
  shows "generation (push_bit 2 g OR ucast (s :: u32)) = unat g"
proof -
  have small: "(ucast s :: u64) < 4"
  proof -
    have "s = 0 \<or> s = 1 \<or> s = 2" using assms(2) by (auto simp: word_less_nat_alt word_unat_eq_iff)
    then show ?thesis by auto
  qed
  have "drop_bit 2 (ucast s :: u64) = 0"
    using small by (simp add: drop_bit_eq_div word_less_nat_alt unat_eq_0 div_eq_0_iff word_arith_nat_div)
  moreover have "take_bit 62 g = g"
    using assms(1)
    by (intro word_unat_eq_iff [THEN iffD2]) (simp add: word_less_nat_alt unsigned_take_bit_eq take_bit_nat_eq_self)
  moreover have "drop_bit 2 (push_bit 2 g) = take_bit 62 g"
    by (rule bit_word_eqI) (auto simp: bit_simps)
  ultimately show ?thesis by (simp add: generation_def)
qed

lemma token_slot_token:
  assumes "s < 3"
  shows "token_slot (push_bit 2 g OR ucast (s :: u32)) = s"
proof -
  have s: "s = 0 \<or> s = 1 \<or> s = 2" using assms by (auto simp: word_less_nat_alt word_unat_eq_iff)
  have three: "(3 :: u64) = mask 2" by (simp add: mask_eq_exp_minus_1)
  have "take_bit 2 (ucast s :: u64) = ucast s"
    using s by (intro word_unat_eq_iff [THEN iffD2]) (auto simp: unsigned_take_bit_eq take_bit_nat_eq_self)
  then have "(push_bit 2 g OR ucast s) AND 3 = (ucast s :: u64)"
    unfolding three by (simp flip: take_bit_eq_mask add: take_bit_push_bit)
  then show ?thesis using s by (auto simp: token_slot_def)
qed

text \<open>Two slots are never enough to leave none: the active slot and the reader's.\<close>

lemma select_slot_finds:
  "\<exists>selected. select_slot previous reader = Some selected \<and> selected < 3 \<and> selected \<noteq> reader \<and>
    (previous \<noteq> 0 \<longrightarrow> selected \<noteq> token_slot previous)"
  by (simp add: select_slot_def Let_def)

section \<open>The invariant\<close>

text \<open>A token that has been published: the one that stands, or one of an earlier generation.\<close>

definition known :: "'e LatestThreads \<Rightarrow> u64 \<Rightarrow> bool" where
  "known s token \<longleftrightarrow> 1 \<le> generation token \<and> generation token \<le> length (history s) \<and>
    (token = published_token (latest s) \<or> generation token < length (history s))"

definition newer :: "'e LatestThreads \<Rightarrow> u64 \<Rightarrow> bool" where
  "newer s token \<longleftrightarrow> known s token \<and> generation (consumed_token (latest s)) < generation token"

text \<open>The slots the publisher is about to change or has changed for the next token.\<close>

fun writes_slot :: "'e publisher \<Rightarrow> u32 option" where
  "writes_slot (PublishWriting event selected replaced) = Some selected"
| "writes_slot (PublishStoring event selected replaced) = Some selected"
| "writes_slot p = None"

definition event_of :: "'e LatestThreads \<Rightarrow> u64 \<Rightarrow> 'e" where
  "event_of s token = history s ! (generation token - 1)"

fun publisher_ok :: "'e LatestThreads \<Rightarrow> 'e publisher \<Rightarrow> bool" where
  "publisher_ok s (PublishSeen e previous) = (previous = published_token (latest s))"
| "publisher_ok s (PublishChecked e previous replaced) = (previous = published_token (latest s))"
| "publisher_ok s (PublishWriting e selected replaced) =
    (selected < 3 \<and> (history s \<noteq> [] \<longrightarrow> selected \<noteq> token_slot (published_token (latest s))))"
| "publisher_ok s (PublishStoring e selected replaced) =
    (selected < 3 \<and> (history s \<noteq> [] \<longrightarrow> selected \<noteq> token_slot (published_token (latest s))) \<and>
     latest_slots (latest s) ! unat selected = e)"
| "publisher_ok s p = True"

fun taker_ok :: "'e LatestThreads \<Rightarrow> 'e taker \<Rightarrow> bool" where
  "taker_ok s (TakeSeen token) =
    (known s token \<and> (token = consumed_token (latest s) \<or> newer s token))"
| "taker_ok s (TakeAnnouncing token) = newer s token"
| "taker_ok s (TakeChecking token) = (newer s token \<and> reader_slot (latest s) = token_slot token)"
| "taker_ok s (TakeCopying token) =
    (newer s token \<and> reader_slot (latest s) = token_slot token \<and>
     latest_slots (latest s) ! unat (token_slot token) = event_of s token \<and>
     writes_slot (publisher s) \<noteq> Some (token_slot token))"
| "taker_ok s (TakeWithdrawing token e) = (newer s token \<and> e = event_of s token)"
| "taker_ok s (TakeVerifying token e) = (newer s token \<and> e = event_of s token)"
| "taker_ok s (TakeConsuming token e) = (newer s token \<and> e = event_of s token)"
| "taker_ok s t = True"

definition published_ok :: "'e LatestThreads \<Rightarrow> bool" where
  "published_ok s \<longleftrightarrow>
    (let l = latest s; token = published_token l in
     if history s = [] then token = 0
     else token \<noteq> 0 \<and> generation token = length (history s) \<and> token_slot token < 3 \<and>
       latest_slots l ! unat (token_slot token) = last (history s))"

definition takings_ok :: "'e LatestThreads \<Rightarrow> bool" where
  "takings_ok s \<longleftrightarrow>
    sorted_wrt (<) (map (generation \<circ> fst) (takings s)) \<and>
    (\<forall>(token, e) \<in> set (takings s). known s token \<and> e = event_of s token) \<and>
    consumed_token (latest s) = (if takings s = [] then 0 else fst (last (takings s)))"

definition latest_inv :: "'e LatestThreads \<Rightarrow> bool" where
  "latest_inv s \<longleftrightarrow>
    length (latest_slots (latest s)) = 3 \<and>
    unat (next_generation (latest s)) = length (history s) \<and> next_generation (latest s) \<le> 0x3ffffffffffffffe \<and>
    (\<not> publisher_at_rest (publisher s) \<longrightarrow> next_generation (latest s) < 0x3ffffffffffffffe) \<and>
    published_ok s \<and> takings_ok s \<and> publisher_ok s (publisher s) \<and> taker_ok s (taker s)"

lemma generation_0 [simp]: "generation 0 = 0"
  by (simp add: generation_def)

lemma consumed_cases:
  assumes "latest_inv s"
  shows "consumed_token (latest s) = 0 \<or> known s (consumed_token (latest s))"
proof (cases "takings s = []")
  case True
  then show ?thesis using assms by (simp add: latest_inv_def takings_ok_def)
next
  case False
  then have "last (takings s) \<in> set (takings s)" by simp
  then show ?thesis using assms False by (auto simp: latest_inv_def takings_ok_def split_beta)
qed

section \<open>Publishing\<close>

text \<open>A step of the publisher that stores nothing.\<close>

lemma publisher_moves:
  assumes inv: "latest_inv s" and "publisher_ok s p" and "writes_slot p \<noteq> None \<longrightarrow> writes_slot p \<noteq> Some (reader_slot (latest s))"
    and "publisher_at_rest p \<or> \<not> publisher_at_rest (publisher s) \<or> next_generation (latest s) < 0x3ffffffffffffffe"
  shows "latest_inv (s\<lparr>publisher := p\<rparr>)"
proof -
  let ?s = "s\<lparr>publisher := p\<rparr>"
  have known: "known ?s = known s" "newer ?s = newer s" "event_of ?s = event_of s"
    by (simp_all add: fun_eq_iff known_def newer_def event_of_def)
  have "taker_ok ?s (taker s)"
    using inv assms(3) by (cases "taker s") (auto simp: latest_inv_def known)
  moreover have "publisher_ok ?s p = publisher_ok s p" by (cases p) simp_all
  moreover have "published_ok ?s = published_ok s" by (simp add: published_ok_def)
  moreover have "takings_ok ?s = takings_ok s" by (simp add: takings_ok_def known)
  ultimately show ?thesis using inv assms(2,4) by (auto simp: latest_inv_def)
qed

lemma write_latest:
  assumes inv: "latest_inv s" and pc: "publisher s = PublishWriting e selected replaced"
  shows "latest_inv (s\<lparr>latest := (latest s)\<lparr>latest_slots := (latest_slots (latest s))[unat selected := e]\<rparr>,
    publisher := PublishStoring e selected replaced\<rparr>)" (is "latest_inv ?s")
proof -
  have sel: "selected < 3" "history s \<noteq> [] \<longrightarrow> selected \<noteq> token_slot (published_token (latest s))"
    and len: "length (latest_slots (latest s)) = 3"
    using inv by (simp_all add: latest_inv_def pc)
  then have in_range: "unat selected < 3" by (simp add: word_less_nat_alt)
  have known: "known ?s = known s" "newer ?s = newer s" "event_of ?s = event_of s"
    by (simp_all add: fun_eq_iff known_def newer_def event_of_def)
  have "taker_ok ?s (taker s)"
  proof (cases "taker s")
    case (TakeCopying token)
    then have "token_slot token \<noteq> selected" using inv by (auto simp: latest_inv_def pc)
    then have "unat (token_slot token) \<noteq> unat selected" by (simp add: word_unat_eq_iff)
    then show ?thesis using inv TakeCopying by (auto simp: latest_inv_def known pc)
  qed (use inv in \<open>auto simp: latest_inv_def known\<close>)
  moreover have "published_ok ?s"
    using inv sel(2) by (auto simp: latest_inv_def published_ok_def Let_def word_unat_eq_iff)
  moreover have "takings_ok ?s" using inv by (simp add: latest_inv_def takings_ok_def known)
  ultimately show ?thesis using inv sel in_range len by (auto simp: latest_inv_def pc)
qed

lemma store_latest:
  assumes inv: "latest_inv s" and pc: "publisher s = PublishStoring e selected replaced"
  shows "latest_inv (s\<lparr>latest := (latest s)\<lparr>next_generation := next_generation (latest s) + 1,
      published_token := push_bit 2 (next_generation (latest s) + 1) OR ucast selected\<rparr>,
    publisher := PublishDone True replaced, history := history s @ [e]\<rparr>)" (is "latest_inv ?s")
proof -
  let ?g = "next_generation (latest s)" and ?n = "length (history s)"
  let ?t = "push_bit 2 (?g + 1) OR ucast selected :: u64"
  have sel: "selected < 3" "latest_slots (latest s) ! unat selected = e"
    and g: "unat ?g = ?n" "?g < 0x3ffffffffffffffe"
    using inv by (simp_all add: latest_inv_def pc)
  have succ: "unat (?g + 1) = Suc ?n"
  proof -
    have "unat ?g + 1 < 2 ^ 64" using g(2) by (simp add: word_less_nat_alt)
    then show ?thesis using unat_add_lem [of ?g 1] g(1) by simp
  qed
  have small: "?g + 1 < 0x3fffffffffffffff" using g succ by (simp add: word_less_nat_alt)
  have token: "generation ?t = Suc ?n" "token_slot ?t = selected"
    using token_generation [OF small sel(1)] succ token_slot_token [OF sel(1)] by simp_all
  then have "?t \<noteq> 0" using generation_0 by (metis nat.simps(3))
  have known: "known ?s t" if "known s t" for t using that by (auto simp: known_def)
  then have newer: "newer ?s t" if "newer s t" for t using that by (simp add: newer_def)
  have events: "event_of ?s t = event_of s t" if "known s t" for t
    using that by (auto simp: event_of_def known_def nth_append)
  have "taker_ok ?s (taker s)"
    using inv known newer events by (cases "taker s") (auto simp: latest_inv_def newer_def)
  moreover have "published_ok ?s" using token \<open>?t \<noteq> 0\<close> sel by (simp add: published_ok_def Let_def)
  moreover have "takings_ok ?s" using inv known events by (auto simp: latest_inv_def takings_ok_def)
  moreover have "?g + 1 \<le> 0x3ffffffffffffffe" using small succ by (simp add: word_less_nat_alt word_le_nat_alt)
  ultimately show ?thesis using inv succ by (simp add: latest_inv_def)
qed

end
