(* ===== verification/ProbeLatestContracts.thy ===== *)
theory ProbeLatestContracts
  imports ProbeLatestEvent
begin

text \<open>The two threads of the latest event as a machine, and what they can rely on.\<close>

section \<open>Taking\<close>

lemma taker_moves:
  assumes inv: "latest_inv s" and "taker_ok (s\<lparr>latest := (latest s)\<lparr>reader_slot := r\<rparr>\<rparr>) t"
  shows "latest_inv (s\<lparr>latest := (latest s)\<lparr>reader_slot := r\<rparr>, taker := t\<rparr>)" (is "latest_inv ?s")
proof -
  have known: "known ?s = known s" "event_of ?s = event_of s"
    by (simp_all add: fun_eq_iff known_def event_of_def)
  have "taker_ok ?s t = taker_ok (s\<lparr>latest := (latest s)\<lparr>reader_slot := r\<rparr>\<rparr>) t"
    by (cases t) (simp_all add: known_def newer_def event_of_def)
  moreover have "publisher_ok ?s p = publisher_ok s p" for p by (cases p) simp_all
  moreover have "published_ok ?s = published_ok s" by (simp add: published_ok_def Let_def)
  moreover have "takings_ok ?s = takings_ok s" by (simp add: takings_ok_def known)
  ultimately show ?thesis using inv assms(2) by (auto simp: latest_inv_def)
qed

lemma same_reader [simp]: "s\<lparr>latest := (latest s)\<lparr>reader_slot := reader_slot (latest s)\<rparr>\<rparr> = s"
  by simp

lemma taker_stays:
  assumes "latest_inv s" "taker_ok s t"
  shows "latest_inv (s\<lparr>taker := t\<rparr>)"
  using taker_moves [OF assms(1), of "reader_slot (latest s)" t] assms(2) by simp

lemma reader_irrelevant [simp]:
  "known (s\<lparr>latest := (latest s)\<lparr>reader_slot := r\<rparr>\<rparr>) = known s"
  "newer (s\<lparr>latest := (latest s)\<lparr>reader_slot := r\<rparr>\<rparr>) = newer s"
  "event_of (s\<lparr>latest := (latest s)\<lparr>reader_slot := r\<rparr>\<rparr>) = event_of s"
  by (simp_all add: fun_eq_iff known_def newer_def event_of_def)

lemma published_known:
  assumes inv: "latest_inv s" and "published_token (latest s) \<noteq> 0"
  shows "known s (published_token (latest s))" "history s \<noteq> []"
    "generation (published_token (latest s)) = length (history s)"
    "latest_slots (latest s) ! unat (token_slot (published_token (latest s))) = event_of s (published_token (latest s))"
proof -
  have "published_ok s" using inv by (simp add: latest_inv_def)
  then have *: "history s \<noteq> []" "generation (published_token (latest s)) = length (history s)"
    "latest_slots (latest s) ! unat (token_slot (published_token (latest s))) = last (history s)"
    using assms(2) by (auto simp: published_ok_def Let_def split: if_splits)
  then show "history s \<noteq> []" "generation (published_token (latest s)) = length (history s)" by simp_all
  then show "known s (published_token (latest s))" by (simp add: known_def Suc_le_eq)
  show "latest_slots (latest s) ! unat (token_slot (published_token (latest s))) = event_of s (published_token (latest s))"
    using * by (simp add: event_of_def last_conv_nth)
qed

lemma consume_latest:
  assumes inv: "latest_inv s" and pc: "taker s = TakeConsuming token e"
  shows "latest_inv (s\<lparr>latest := (latest s)\<lparr>consumed_token := token\<rparr>, taker := TakeDone (Some e),
    takings := takings s @ [(token, e)]\<rparr>)" (is "latest_inv ?s")
proof -
  have token: "known s token" "generation (consumed_token (latest s)) < generation token" "e = event_of s token"
    and takings: "takings_ok s"
    using inv by (simp_all add: latest_inv_def pc newer_def)
  have known: "known ?s = known s" "event_of ?s = event_of s"
    by (simp_all add: fun_eq_iff known_def event_of_def)
  have "generation (fst x) < generation token" if "x \<in> set (takings s)" for x
  proof -
    obtain xs y where ys: "takings s = xs @ [y]"
      by (cases "takings s" rule: rev_cases) (use \<open>x \<in> set (takings s)\<close> in auto)
    then have "generation (fst y) < generation token" using token(2) takings by (simp add: takings_ok_def)
    moreover have "x = y \<or> generation (fst x) < generation (fst y)"
      using takings that ys by (auto simp: takings_ok_def sorted_wrt_append)
    ultimately show ?thesis by auto
  qed
  then have "takings_ok ?s"
    unfolding takings_ok_def known using takings token by (auto simp: takings_ok_def sorted_wrt_append)
  moreover have "publisher_ok ?s p = publisher_ok s p" for p by (cases p) simp_all
  moreover have "published_ok ?s = published_ok s" by (simp add: published_ok_def Let_def)
  ultimately show ?thesis using inv by (simp add: latest_inv_def)
qed

lemma step_take_inv:
  assumes inv: "latest_inv s"
  shows "latest_inv (latest_step StepTake s)"
proof (cases "taker s")
  case TakeStart
  let ?t = "published_token (latest s)"
  have "known s ?t \<and> (?t = consumed_token (latest s) \<or> newer s ?t)" if "?t \<noteq> 0"
    using published_known [OF inv that] consumed_cases [OF inv] by (auto simp: newer_def known_def)
  then show ?thesis using taker_stays [OF inv, of "TakeSeen ?t"] taker_stays [OF inv, of "TakeDone None"] TakeStart
    by simp
next
  case (TakeSeen token)
  then have "known s token" "token = consumed_token (latest s) \<or> newer s token"
    using inv by (simp_all add: latest_inv_def)
  then show ?thesis
    using taker_stays [OF inv, of "TakeAnnouncing token"] taker_stays [OF inv, of "TakeDone None"] TakeSeen by auto
next
  case (TakeAnnouncing token)
  then have "newer s token" using inv by (simp add: latest_inv_def)
  then show ?thesis
    using taker_moves [OF inv, of "token_slot token" "TakeChecking token"] TakeAnnouncing by simp
next
  case (TakeChecking token)
  then have token: "newer s token" "reader_slot (latest s) = token_slot token"
    using inv by (simp_all add: latest_inv_def)
  show ?thesis
  proof (cases "published_token (latest s) = token")
    case True
    have "token \<noteq> 0" using token(1) by (auto simp: newer_def known_def)
    then have at: "history s \<noteq> []" "latest_slots (latest s) ! unat (token_slot token) = event_of s token"
      using published_known [OF inv] True by auto
    have "writes_slot (publisher s) \<noteq> Some (token_slot token)"
      using inv at(1) True by (cases "publisher s") (auto simp: latest_inv_def)
    then show ?thesis using taker_stays [OF inv, of "TakeCopying token"] TakeChecking token at True by simp
  next
    case False
    then show ?thesis using taker_stays [OF inv, of TakeRetreating] TakeChecking by simp
  qed
next
  case TakeRetreating
  then show ?thesis using taker_moves [OF inv, of kNoSlot TakeStart] by simp
next
  case (TakeCopying token)
  then have "newer s token" "latest_slots (latest s) ! unat (token_slot token) = event_of s token"
    using inv by (simp_all add: latest_inv_def)
  then show ?thesis
    using taker_stays [OF inv, of "TakeWithdrawing token (event_of s token)"] TakeCopying by simp
next
  case (TakeWithdrawing token e)
  then have "newer s token" "e = event_of s token" using inv by (simp_all add: latest_inv_def)
  then show ?thesis
    using taker_moves [OF inv, of kNoSlot "TakeVerifying token e"] TakeWithdrawing by simp
next
  case (TakeVerifying token e)
  then have "newer s token" "e = event_of s token" using inv by (simp_all add: latest_inv_def)
  then show ?thesis
    using taker_stays [OF inv, of "TakeConsuming token e"] taker_stays [OF inv, of TakeStart] TakeVerifying by simp
next
  case (TakeConsuming token e)
  then show ?thesis using consume_latest [OF inv TakeConsuming] by simp
next
  case TakeIdle
  then show ?thesis using taker_stays [OF inv, of TakeIdle] by simp
next
  case (TakeDone e)
  then show ?thesis using taker_stays [OF inv, of "TakeDone e"] by simp
qed

section \<open>The machine\<close>

lemma step_publish_inv:
  assumes inv: "latest_inv s"
  shows "latest_inv (latest_step StepPublish s)"
proof (cases "publisher s")
  case (PublishChecked e previous replaced)
  then have prev: "previous = published_token (latest s)" and busy: "next_generation (latest s) < 0x3ffffffffffffffe"
    using inv by (simp_all add: latest_inv_def)
  obtain selected where sel: "select_slot previous (reader_slot (latest s)) = Some selected" "selected < 3"
    "selected \<noteq> reader_slot (latest s)" "previous \<noteq> 0 \<longrightarrow> selected \<noteq> token_slot previous"
    using select_slot_finds by blast
  have "history s \<noteq> [] \<longrightarrow> previous \<noteq> 0"
    using inv prev by (auto simp: latest_inv_def published_ok_def Let_def)
  then show ?thesis
    using publisher_moves [OF inv, of "PublishWriting e selected replaced"] sel prev busy PublishChecked by simp
next
  case (PublishWriting e selected replaced)
  then show ?thesis using write_latest [OF inv PublishWriting] by simp
next
  case (PublishStoring e selected replaced)
  then show ?thesis using store_latest [OF inv PublishStoring] by simp
qed (use publisher_moves [OF inv] inv in \<open>simp_all add: latest_inv_def\<close>)

interpretation latest_machine: invariant_machine latest_step latest_inv
proof
  fix s :: "'a LatestThreads" and x
  assume inv: "latest_inv s"
  show "latest_inv (latest_step x s)"
  proof (cases x)
    case (CallPublish e)
    then show ?thesis using publisher_moves [OF inv, of "publish_call e (latest s)"] inv
      by (simp add: publish_call_def)
  next
    case StepPublish
    then show ?thesis using step_publish_inv [OF inv] by simp
  next
    case CallTake
    then show ?thesis using taker_stays [OF inv, of "take_call (latest s)"] inv by (simp add: take_call_def)
  next
    case StepTake
    then show ?thesis using step_take_inv [OF inv] by simp
  qed
qed

lemma latest_reachable_inv:
  assumes "reachable_from latest_step (latest_threads (latest_configure e l)) s"
  shows "latest_inv s"
proof (rule latest_machine.reachable_inv [OF assms])
  show "latest_inv (latest_threads (latest_configure e l))"
    by (simp add: latest_inv_def latest_threads_def latest_configure_def latest_reset_def published_ok_def takings_ok_def)
qed

section \<open>A take that runs alone\<close>

lemma take_alone:
  assumes inv: "latest_inv s" and "taker s = TakeStart" "has_pending (latest s)"
  shows "taker ((latest_step StepTake ^^ 8) s) = TakeDone (Some (last (history s)))"
proof -
  let ?t = "published_token (latest s)"
  have t: "?t \<noteq> 0" "?t \<noteq> consumed_token (latest s)" using assms(3) by (simp_all add: has_pending_def)
  have "latest_slots (latest s) ! unat (token_slot ?t) = last (history s)"
    using inv t(1) by (auto simp: latest_inv_def published_ok_def Let_def split: if_splits)
  then show ?thesis using assms(2) t by (simp add: eval_nat_numeral)
qed

section \<open>A run\<close>

definition sample_latest :: "nat LatestRawProbeEvent" where
  "sample_latest = latest_configure 0 \<lparr>latest_slots = [], next_generation = 0, published_token = 0,
     consumed_token = 0, reader_slot = 0\<rparr>"

text \<open>The reader has begun to copy the first event when the second and the third are published.\<close>

definition overtaking :: "nat latest_action list" where
  "overtaking = CallPublish 10 # replicate 5 StepPublish @ CallTake # replicate 4 StepTake @
     CallPublish 20 # replicate 5 StepPublish @ CallPublish 30 # replicate 3 StepPublish"

definition sample_overtaking :: "nat latest_action list \<Rightarrow> nat LatestThreads" where
  "sample_overtaking actions = fold latest_step (overtaking @ actions) (latest_threads sample_latest)"

lemma sample_overtaking_reachable:
  "reachable_from latest_step (latest_threads sample_latest) (sample_overtaking actions)"
  unfolding sample_overtaking_def by (rule reachable_fold)

section \<open>Properties\<close>

text \<open>
  The publisher never touches the slot the reader copies from: from the check that the token
  stands until the copy is made, the slot holds the event the token was published with, and the
  publisher neither writes to it nor is about to publish it, however many events it publishes
  meanwhile.
\<close>

theorem latest_copies_never_race:
  assumes "reachable_from latest_step (latest_threads (latest_configure event0 l)) s"
    and "taker s = TakeCopying token"
  shows "writes_slot (publisher s) \<noteq> Some (token_slot token) \<and>
    1 \<le> generation token \<and> generation token \<le> length (history s) \<and>
    latest_slots (latest s) ! unat (token_slot token) = history s ! (generation token - 1)"
  using latest_reachable_inv [OF assms(1)] assms(2)
  by (simp add: latest_inv_def newer_def known_def event_of_def)

theorem latest_copies_never_race_witness:
  "taker (sample_overtaking []) = TakeCopying 4 \<and> publisher (sample_overtaking []) = PublishWriting 30 2 True \<and>
    latest_slots (latest (sample_overtaking [])) ! 0 = 10"
proof -
  have state: "taker (sample_overtaking []) = TakeCopying 4"
    "publisher (sample_overtaking []) = PublishWriting 30 2 True" "token_slot 4 = 0" "generation 4 = 1"
    "history (sample_overtaking []) = [10, 20]"
    by code_simp+
  from latest_copies_never_race [OF sample_overtaking_reachable [unfolded sample_latest_def] state(1)] state
  show ?thesis by simp
qed

text \<open>
  What is taken is what was published: the events taken are published ones, each with its token,
  and never an older one after a newer one or the same one twice. A publisher always finds a slot,
  and a reader that starts while an event is pending and is not interrupted takes the latest one, in
  eight of its steps.
\<close>

theorem taken_events_are_the_published_ones:
  assumes "reachable_from latest_step (latest_threads (latest_configure event0 l)) s"
  shows "sorted_wrt (<) (map (generation \<circ> fst) (takings s)) \<and>
    (\<forall>(token, e) \<in> set (takings s).
      1 \<le> generation token \<and> generation token \<le> length (history s) \<and> e = history s ! (generation token - 1)) \<and>
    (\<forall>e previous replaced r. publisher s = PublishChecked e previous replaced \<longrightarrow>
      publisher (latest_step StepPublish s) \<noteq> PublishDone False r) \<and>
    (taker s = TakeStart \<and> has_pending (latest s) \<longrightarrow>
      taker ((latest_step StepTake ^^ 8) s) = TakeDone (Some (last (history s))))"
proof -
  have inv: "latest_inv s" by (rule latest_reachable_inv [OF assms])
  have "publisher (latest_step StepPublish s) \<noteq> PublishDone False r"
    if "publisher s = PublishChecked e previous replaced" for e previous replaced r
    using select_slot_finds [of previous "reader_slot (latest s)"] that by auto
  then show ?thesis
    using inv take_alone [OF inv] by (auto simp: latest_inv_def takings_ok_def known_def event_of_def)
qed

theorem taken_events_are_the_published_ones_witness:
  "taker ((latest_step StepTake ^^ 8) (sample_overtaking (replicate 2 StepPublish @ replicate 3 StepTake))) =
    TakeDone (Some 30)"
proof -
  let ?s = "sample_overtaking (replicate 2 StepPublish @ replicate 3 StepTake)"
  have state: "taker ?s = TakeStart" "has_pending (latest ?s)" "history ?s = [10, 20, 30]" by code_simp+
  from taken_events_are_the_published_ones [OF sample_overtaking_reachable [unfolded sample_latest_def],
      of "replicate 2 StepPublish @ replicate 3 StepTake"] state
  show ?thesis by simp
qed

end
