(* ===== verification/ProbeFilters.thy ===== *)
theory ProbeFilters
  imports SavorPrelude
begin

text \<open>
  What happens to a hit of a probe before it becomes a captured event: the stack machine of the
  predicates and the checks the profile parser makes of them (SavorProbe/ProbeProfile.cpp), the
  sampling policies (SavorProbe/ProbeRuntime.cpp), the capture windows
  (SavorProbe/ProbeWindowState.h) and the dispatch to the subscribers (SavorProbe/ProbeDispatchPolicy.h).
\<close>

unbundle bit_operations_syntax

section \<open>Events\<close>

datatype RawFieldStatus = FieldPresent | FieldMissing | FieldTruncated | FieldInvalid

record RawField =
  sample_index :: u16
  field_kind :: u8
  field_status :: RawFieldStatus
  field_value :: u64
  payload_offset :: u32
  field_payload_size :: u32

text \<open>The arrays of fields and of payload bytes, up to \<open>field_count\<close> and \<open>payload_size\<close>, are lists.\<close>

record RawProbeEvent =
  capture_sequence :: u64
  monotonic_ns :: u64
  event_frame_index :: u64
  guest_workset_epoch :: u64
  profile_revision :: u64
  snapshot_id :: u64
  hit_count :: u64
  event_value :: u64
  probe_index :: u32
  event_pc :: u32
  event_address :: u32
  event_size :: u32
  event_kind :: u8
  event_flags :: u8
  event_fields :: "RawField list"
  event_payload :: "u8 list"

definition kRawEventControlPublished :: u8 where
  "kRawEventControlPublished = 1"

definition kSyntheticControlProbeIndex :: u32 where
  "kSyntheticControlProbeIndex = 0xffffffff"

definition kSyntheticMarkerProbeIndex :: u32 where
  "kSyntheticMarkerProbeIndex = 0xffffffff - 1"

section \<open>Predicates\<close>

datatype PredicateOp =
    PushConstant | PushPc | PushLr | PushGpr | PushHitCount | PushSample | PushCaller
  | Equal | NotEqual | Less | LessEqual | Greater | GreaterEqual | MaskEqual
  | LogicalAnd | LogicalOr | LogicalNot

record PredicateInstruction =
  predicate_op :: PredicateOp
  operand :: u64
  operand2 :: u64

definition parse_predicate_op :: "string \<Rightarrow> PredicateOp option" where
  "parse_predicate_op s =
    (if s = ''constant'' then Some PushConstant
     else if s = ''pc'' then Some PushPc
     else if s = ''lr'' then Some PushLr
     else if s = ''gpr'' then Some PushGpr
     else if s = ''hit_count'' then Some PushHitCount
     else if s = ''sample'' then Some PushSample
     else if s = ''caller'' then Some PushCaller
     else if s = ''eq'' then Some Equal
     else if s = ''ne'' then Some NotEqual
     else if s = ''lt'' then Some Less
     else if s = ''le'' then Some LessEqual
     else if s = ''gt'' then Some Greater
     else if s = ''ge'' then Some GreaterEqual
     else if s = ''mask_eq'' then Some MaskEqual
     else if s = ''and'' then Some LogicalAnd
     else if s = ''or'' then Some LogicalOr
     else if s = ''not'' then Some LogicalNot
     else None)"

fun predicate_op_name :: "PredicateOp \<Rightarrow> string" where
  "predicate_op_name PushConstant = ''constant''"
| "predicate_op_name PushPc = ''pc''"
| "predicate_op_name PushLr = ''lr''"
| "predicate_op_name PushGpr = ''gpr''"
| "predicate_op_name PushHitCount = ''hit_count''"
| "predicate_op_name PushSample = ''sample''"
| "predicate_op_name PushCaller = ''caller''"
| "predicate_op_name Equal = ''eq''"
| "predicate_op_name NotEqual = ''ne''"
| "predicate_op_name Less = ''lt''"
| "predicate_op_name LessEqual = ''le''"
| "predicate_op_name Greater = ''gt''"
| "predicate_op_name GreaterEqual = ''ge''"
| "predicate_op_name MaskEqual = ''mask_eq''"
| "predicate_op_name LogicalAnd = ''and''"
| "predicate_op_name LogicalOr = ''or''"
| "predicate_op_name LogicalNot = ''not''"

lemma parse_predicate_op_name [simp]: "parse_predicate_op (predicate_op_name op) = Some op"
  by (cases op) (simp_all add: parse_predicate_op_def)

text \<open>The parser's checks of a predicate, with the depth of the stack the instructions leave.\<close>

definition is_push :: "PredicateOp \<Rightarrow> bool" where
  "is_push op \<longleftrightarrow> op \<in> {PushConstant, PushPc, PushLr, PushGpr, PushHitCount, PushSample, PushCaller}"

definition is_unary :: "PredicateOp \<Rightarrow> bool" where
  "is_unary op \<longleftrightarrow> op = LogicalNot \<or> op = MaskEqual"

datatype predicate_error = InvalidGpr | InvalidSampleIndex | StackUnderflow | NotOneValue | TooManyOperations

fun check_instructions :: "nat \<Rightarrow> PredicateInstruction list \<Rightarrow> nat \<Rightarrow> predicate_error list \<times> nat" where
  "check_instructions samples [] depth = ([], depth)"
| "check_instructions samples (i # is) depth =
    (let op = predicate_op i;
         operand_errors = (if op = PushGpr \<and> operand i \<ge> 32 then [InvalidGpr] else []) @
           (if op = PushSample \<and> unat (operand i) \<ge> samples then [InvalidSampleIndex] else []);
         (stack_errors, depth') =
           (if is_push op then ([], Suc depth)
            else if is_unary op then (if depth < 1 then [StackUnderflow] else [], depth)
            else if depth < 2 then ([StackUnderflow], depth)
            else ([], depth - 1));
         (errors, final) = check_instructions samples is depth'
     in (operand_errors @ stack_errors @ errors, final))"

definition check_predicate :: "nat \<Rightarrow> PredicateInstruction list \<Rightarrow> predicate_error list" where
  "check_predicate samples predicate =
    (if length predicate > 64 then [TooManyOperations]
     else
       (case check_instructions samples predicate 0 of
          (errors, depth) \<Rightarrow> errors @ (if predicate \<noteq> [] \<and> depth \<noteq> 1 then [NotOneValue] else [])))"

text \<open>The registers a predicate reads.\<close>

record PpcRegisters =
  link_register :: u32
  gprs :: "u32 list"

definition predicate_push :: "u64 \<Rightarrow> u64 list \<Rightarrow> u64 list option" where
  "predicate_push v stack = (if length stack \<ge> 64 then None else Some (v # stack))"

definition of_truth :: "bool \<Rightarrow> u64" where
  "of_truth b = (if b then 1 else 0)"

fun binary_result :: "PredicateOp \<Rightarrow> u64 \<Rightarrow> u64 \<Rightarrow> u64" where
  "binary_result Equal lhs rhs = of_truth (lhs = rhs)"
| "binary_result NotEqual lhs rhs = of_truth (lhs \<noteq> rhs)"
| "binary_result Less lhs rhs = of_truth (lhs < rhs)"
| "binary_result LessEqual lhs rhs = of_truth (lhs \<le> rhs)"
| "binary_result Greater lhs rhs = of_truth (lhs > rhs)"
| "binary_result GreaterEqual lhs rhs = of_truth (lhs \<ge> rhs)"
| "binary_result LogicalAnd lhs rhs = of_truth (lhs \<noteq> 0 \<and> rhs \<noteq> 0)"
| "binary_result LogicalOr lhs rhs = of_truth (lhs \<noteq> 0 \<or> rhs \<noteq> 0)"
| "binary_result op lhs rhs = 0"

text \<open>One instruction; \<open>None\<close> is the early \<open>return false\<close>. The head of the list is the top.\<close>

definition predicate_step ::
  "PpcRegisters \<Rightarrow> RawProbeEvent \<Rightarrow> PredicateInstruction \<Rightarrow> u64 list \<Rightarrow> u64 list option" where
  "predicate_step r event i stack =
    (case predicate_op i of
       PushConstant \<Rightarrow> predicate_push (operand i) stack
     | PushPc \<Rightarrow> predicate_push (ucast (event_pc event)) stack
     | PushLr \<Rightarrow> predicate_push (ucast (link_register r)) stack
     | PushCaller \<Rightarrow> predicate_push (ucast (link_register r)) stack
     | PushGpr \<Rightarrow>
         (if operand i \<ge> 32 then None else predicate_push (ucast (gprs r ! unat (operand i))) stack)
     | PushHitCount \<Rightarrow> predicate_push (hit_count event) stack
     | PushSample \<Rightarrow>
         (if unat (operand i) \<ge> length (event_fields event) then None
          else predicate_push (field_value (event_fields event ! unat (operand i))) stack)
     | LogicalNot \<Rightarrow>
         (case stack of [] \<Rightarrow> None | lhs # stack' \<Rightarrow> predicate_push (of_truth (lhs = 0)) stack')
     | MaskEqual \<Rightarrow>
         (case stack of [] \<Rightarrow> None
          | lhs # stack' \<Rightarrow> predicate_push (of_truth (lhs AND operand2 i = operand i)) stack')
     | op \<Rightarrow>
         (case stack of rhs # lhs # stack' \<Rightarrow> predicate_push (binary_result op lhs rhs) stack' | _ \<Rightarrow> None))"

fun run_predicate ::
  "PpcRegisters \<Rightarrow> RawProbeEvent \<Rightarrow> PredicateInstruction list \<Rightarrow> u64 list \<Rightarrow> u64 list option" where
  "run_predicate r event [] stack = Some stack"
| "run_predicate r event (i # is) stack =
    (case predicate_step r event i stack of None \<Rightarrow> None | Some stack' \<Rightarrow> run_predicate r event is stack')"

definition evaluate_predicate :: "PredicateInstruction list \<Rightarrow> RawProbeEvent \<Rightarrow> PpcRegisters \<Rightarrow> bool" where
  "evaluate_predicate predicate event r \<longleftrightarrow>
    predicate = [] \<or> (case run_predicate r event predicate [] of Some [v] \<Rightarrow> v \<noteq> 0 | _ \<Rightarrow> False)"

section \<open>Sampling\<close>

datatype SamplingMode = EveryHit | EveryN | FirstN | ChangedOnly | HitRanges | LastN | Burst

record SamplingPolicy =
  sampling_mode :: SamplingMode
  sampling_n :: u64
  hit_ranges :: "(u64 \<times> u64) list"
  burst_period :: u64
  burst_length :: u64

text \<open>
  \<open>raw_event_hash\<close> is XXH64, a library, over the fields and the payload; the last hash is \<open>None\<close>
  where \<open>has_last_hash\<close> is false.
\<close>

definition sampling_accepts ::
  "(RawProbeEvent \<Rightarrow> u64) \<Rightarrow> SamplingPolicy \<Rightarrow> u64 option \<Rightarrow> RawProbeEvent \<Rightarrow> bool \<times> u64 option" where
  "sampling_accepts raw_event_hash policy recent event =
    (let hit = hit_count event in
     case sampling_mode policy of
       EveryHit \<Rightarrow> (True, recent)
     | EveryN \<Rightarrow> (sampling_n policy \<noteq> 0 \<and> (hit - 1) mod sampling_n policy = 0, recent)
     | FirstN \<Rightarrow> (hit \<le> sampling_n policy, recent)
     | ChangedOnly \<Rightarrow> (recent \<noteq> Some (raw_event_hash event), Some (raw_event_hash event))
     | HitRanges \<Rightarrow> (list_ex (\<lambda>(first, final). hit \<ge> first \<and> hit \<le> final) (hit_ranges policy), recent)
     | LastN \<Rightarrow> (True, recent)
     | Burst \<Rightarrow> (burst_period policy \<noteq> 0 \<and> (hit - 1) mod burst_period policy < burst_length policy, recent))"

section \<open>Windows\<close>

record WindowDefinition =
  window_name :: string
  open_probe :: string
  close_probe :: string
  open_marker :: string
  close_marker :: string
  open_on_control :: bool
  close_on_control :: bool
  open_frame :: "u64 option"
  close_frame :: "u64 option"
  event_limit :: u64
  frame_limit :: u64
  initially_open :: bool

record ProbeWindowState =
  is_open :: bool
  opened_frame :: u64
  accepted_events :: u64
  close_after_frame_event :: bool

definition window_reset :: "bool \<Rightarrow> ProbeWindowState" where
  "window_reset initially =
    \<lparr>is_open = initially, opened_frame = 0, accepted_events = 0, close_after_frame_event = False\<rparr>"

definition open_at :: "u64 \<Rightarrow> ProbeWindowState \<Rightarrow> ProbeWindowState" where
  "open_at frame w = w\<lparr>opened_frame := frame, accepted_events := 0, is_open := True\<rparr>"

definition on_frame :: "WindowDefinition \<Rightarrow> u64 \<Rightarrow> ProbeWindowState \<Rightarrow> ProbeWindowState" where
  "on_frame definition frame w =
    (let w = (if open_frame definition = Some frame then open_at frame w else w) in
     if close_frame definition = Some frame then w\<lparr>close_after_frame_event := True\<rparr> else w)"

definition on_marker :: "WindowDefinition \<Rightarrow> string \<Rightarrow> u64 \<Rightarrow> ProbeWindowState \<Rightarrow> ProbeWindowState" where
  "on_marker definition marker frame w =
    (let w = (if open_marker definition \<noteq> [] \<and> open_marker definition = marker then open_at frame w else w) in
     if close_marker definition \<noteq> [] \<and> close_marker definition = marker then w\<lparr>is_open := False\<rparr> else w)"

definition on_control :: "WindowDefinition \<Rightarrow> u64 \<Rightarrow> ProbeWindowState \<Rightarrow> ProbeWindowState" where
  "on_control definition frame w =
    (let w = (if open_on_control definition then open_at frame w else w) in
     if close_on_control definition then w\<lparr>is_open := False\<rparr> else w)"

definition before_probe :: "WindowDefinition \<Rightarrow> string \<Rightarrow> u64 \<Rightarrow> ProbeWindowState \<Rightarrow> ProbeWindowState" where
  "before_probe definition probe frame w =
    (if open_probe definition \<noteq> [] \<and> open_probe definition = probe then open_at frame w else w)"

definition after_probe ::
  "WindowDefinition \<Rightarrow> string \<Rightarrow> bool \<Rightarrow> bool \<Rightarrow> bool \<Rightarrow> u64 \<Rightarrow> ProbeWindowState \<Rightarrow> ProbeWindowState" where
  "after_probe definition probe member accepted frame_clock frame w =
    (let opened = is_open w;
         events = (if opened \<and> accepted \<and> member then accepted_events w + 1 else accepted_events w);
         w = w\<lparr>accepted_events := events\<rparr>;
         w = (if close_probe definition \<noteq> [] \<and> close_probe definition = probe
                \<or> opened \<and> event_limit definition \<noteq> 0 \<and> accepted \<and> member \<and> events \<ge> event_limit definition
                \<or> opened \<and> frame_limit definition \<noteq> 0 \<and> frame \<ge> opened_frame w
                    \<and> frame - opened_frame w \<ge> frame_limit definition
              then w\<lparr>is_open := False\<rparr> else w)
     in if frame_clock \<and> close_after_frame_event w
        then w\<lparr>close_after_frame_event := False, is_open := False\<rparr> else w)"

text \<open>A window that is open is below its event limit, and every operation keeps that.\<close>

definition window_ok :: "WindowDefinition \<Rightarrow> ProbeWindowState \<Rightarrow> bool" where
  "window_ok d w \<longleftrightarrow> (is_open w \<and> event_limit d \<noteq> 0 \<longrightarrow> accepted_events w < event_limit d)"

lemma window_ok_operations:
  assumes "window_ok d w"
  shows "window_ok d (on_frame d frame w)" "window_ok d (on_marker d marker frame w)"
    "window_ok d (on_control d frame w)" "window_ok d (before_probe d p frame w)"
    "window_ok d (after_probe d p member accepted clock frame w)"
  using assms
  by (auto simp: window_ok_def on_frame_def on_marker_def on_control_def before_probe_def after_probe_def
      open_at_def Let_def not_le word_neq_0_conv)

section \<open>Dispatch\<close>

text \<open>The bits of a \<open>Subscription\<close> are 1 for capture, 2 for progress and 4 for control.\<close>

record SubscriberDispatchDecision =
  dispatch_capture :: bool
  dispatch_progress :: bool
  dispatch_control :: bool

definition has_subscription :: "u8 \<Rightarrow> u8 \<Rightarrow> bool" where
  "has_subscription subscriptions flag \<longleftrightarrow> subscriptions AND flag \<noteq> 0"

definition subscriber_dispatch_decision :: "u8 \<Rightarrow> bool \<Rightarrow> bool \<Rightarrow> bool \<Rightarrow> SubscriberDispatchDecision" where
  "subscriber_dispatch_decision subscriptions capture_enabled active_foreground_wake control_already_published =
    \<lparr>dispatch_capture = capture_enabled \<and>
       (has_subscription subscriptions 1 \<or> has_subscription subscriptions 2),
     dispatch_progress = has_subscription subscriptions 2,
     dispatch_control = active_foreground_wake \<and> \<not> control_already_published \<and> has_subscription subscriptions 4\<rparr>"

end
