(* ===== verification/ProbePredicates.thy ===== *)
theory ProbePredicates
  imports ProbeFilters
begin

text \<open>
  What a predicate means: a postfix program is an expression, and the stack machine computes its value.
  The sampling policies, over the hits of a probe.
\<close>

section \<open>Expressions\<close>

datatype predicate_tree =
    Leaf PredicateInstruction
  | Unary PredicateInstruction predicate_tree
  | Binary PredicateInstruction predicate_tree predicate_tree

fun well_formed :: "predicate_tree \<Rightarrow> bool" where
  "well_formed (Leaf i) = is_push (predicate_op i)"
| "well_formed (Unary i t) = (is_unary (predicate_op i) \<and> well_formed t)"
| "well_formed (Binary i t u) =
    (\<not> is_push (predicate_op i) \<and> \<not> is_unary (predicate_op i) \<and> well_formed t \<and> well_formed u)"

fun postfix :: "predicate_tree \<Rightarrow> PredicateInstruction list" where
  "postfix (Leaf i) = [i]"
| "postfix (Unary i t) = postfix t @ [i]"
| "postfix (Binary i t u) = postfix t @ postfix u @ [i]"

text \<open>The slots of the stack an expression needs.\<close>

fun slots :: "predicate_tree \<Rightarrow> nat" where
  "slots (Leaf i) = 1"
| "slots (Unary i t) = slots t"
| "slots (Binary i t u) = max (slots t) (Suc (slots u))"

definition leaf_value :: "PpcRegisters \<Rightarrow> RawProbeEvent \<Rightarrow> PredicateInstruction \<Rightarrow> u64 option" where
  "leaf_value r event i =
    (case predicate_op i of
       PushConstant \<Rightarrow> Some (operand i)
     | PushPc \<Rightarrow> Some (ucast (event_pc event))
     | PushGpr \<Rightarrow> if operand i < 32 then Some (ucast (gprs r ! unat (operand i))) else None
     | PushHitCount \<Rightarrow> Some (hit_count event)
     | PushSample \<Rightarrow>
         if unat (operand i) < length (event_fields event)
         then Some (field_value (event_fields event ! unat (operand i))) else None
     | _ \<Rightarrow> Some (ucast (link_register r)))"

definition unary_value :: "PredicateInstruction \<Rightarrow> u64 \<Rightarrow> u64" where
  "unary_value i v =
    of_truth (if predicate_op i = LogicalNot then v = 0 else v AND operand2 i = operand i)"

fun tree_value :: "PpcRegisters \<Rightarrow> RawProbeEvent \<Rightarrow> predicate_tree \<Rightarrow> u64 option" where
  "tree_value r event (Leaf i) = leaf_value r event i"
| "tree_value r event (Unary i t) = map_option (unary_value i) (tree_value r event t)"
| "tree_value r event (Binary i t u) =
    (case (tree_value r event t, tree_value r event u) of
       (Some v, Some w) \<Rightarrow> Some (binary_result (predicate_op i) v w) | _ \<Rightarrow> None)"

lemma run_append:
  "run_predicate r event (p @ q) stack =
    (case run_predicate r event p stack of None \<Rightarrow> None | Some stack' \<Rightarrow> run_predicate r event q stack')"
  by (induction p arbitrary: stack) (simp_all split: option.split)

lemma step_leaf:
  assumes "is_push (predicate_op i)"
  shows "predicate_step r event i stack =
    (if length stack < 64 then map_option (\<lambda>v. v # stack) (leaf_value r event i) else None)"
  using assms
  by (cases "predicate_op i") (auto simp: is_push_def predicate_step_def leaf_value_def predicate_push_def not_le not_less)

lemma step_unary:
  assumes "is_unary (predicate_op i)" "length stack < 64"
  shows "predicate_step r event i (v # stack) = Some (unary_value i v # stack)"
  using assms
  by (cases "predicate_op i") (auto simp: is_unary_def predicate_step_def unary_value_def predicate_push_def)

lemma step_binary:
  assumes "\<not> is_push (predicate_op i)" "\<not> is_unary (predicate_op i)" "length stack < 64"
  shows "predicate_step r event i (w # v # stack) = Some (binary_result (predicate_op i) v w # stack)"
  using assms
  by (cases "predicate_op i") (auto simp: is_push_def is_unary_def predicate_step_def predicate_push_def)

lemma slots_pos: "0 < slots t"
  by (induction t) auto

text \<open>Running the postfix form of an expression pushes its value, if there is one and it fits.\<close>

lemma run_postfix:
  assumes "well_formed t"
  shows "run_predicate r event (postfix t) stack =
    (if length stack + slots t \<le> 64 then map_option (\<lambda>v. v # stack) (tree_value r event t) else None)"
  using assms
proof (induction t arbitrary: stack)
  case (Leaf i)
  then show ?case by (simp add: step_leaf split: option.split)
next
  case (Unary i t)
  then show ?case using slots_pos [of t]
    by (auto simp: run_append step_unary split: option.split)
next
  case (Binary i t u)
  show ?case
  proof (cases "length stack + slots t \<le> 64")
    case True
    with Binary show ?thesis using slots_pos [of u] slots_pos [of t]
      by (cases "tree_value r event t"; cases "tree_value r event u") (auto simp: run_append step_binary)
  next
    case False
    then have "\<not> length stack + slots (Binary i t u) \<le> 64" by simp
    with Binary False show ?thesis by (simp add: run_append del: slots.simps)
  qed
qed

text \<open>Conversely, what runs through is the postfix form of as many expressions as it leaves values.\<close>

lemma step_shape:
  assumes "predicate_step r event i stack = Some stack'"
  shows "is_push (predicate_op i) \<and> (\<exists>v. stack' = v # stack) \<or>
    is_unary (predicate_op i) \<and> (\<exists>v w rest. stack = v # rest \<and> stack' = w # rest) \<or>
    \<not> is_push (predicate_op i) \<and> \<not> is_unary (predicate_op i) \<and>
      (\<exists>v w x rest. stack = w # v # rest \<and> stack' = x # rest)"
  using assms
  by (cases "predicate_op i")
    (auto simp: predicate_step_def predicate_push_def is_push_def is_unary_def split: if_splits list.splits)

lemma run_shape:
  assumes "run_predicate r event p stack = Some stack'" "list_all well_formed ts" "length ts = length stack"
  shows "\<exists>us. list_all well_formed us \<and> length us = length stack' \<and>
    concat (map postfix (rev us)) = concat (map postfix (rev ts)) @ p"
  using assms
proof (induction p arbitrary: stack ts)
  case Nil
  then show ?case by auto
next
  case (Cons i p)
  from Cons.prems(1) obtain s where step: "predicate_step r event i stack = Some s"
    and run: "run_predicate r event p s = Some stack'" by (auto split: option.splits)
  have "\<exists>vs. list_all well_formed vs \<and> length vs = length s \<and>
      concat (map postfix (rev vs)) = concat (map postfix (rev ts)) @ [i]"
    using step_shape [OF step]
  proof (elim disjE conjE exE)
    fix v assume "is_push (predicate_op i)" "s = v # stack"
    then show ?thesis using Cons.prems by (intro exI [of _ "Leaf i # ts"]) simp
  next
    fix v w rest assume "is_unary (predicate_op i)" "stack = v # rest" "s = w # rest"
    moreover obtain t ts' where "ts = t # ts'" using Cons.prems(3) calculation by (cases ts) auto
    ultimately show ?thesis using Cons.prems by (intro exI [of _ "Unary i t # ts'"]) simp
  next
    fix v w x rest assume "\<not> is_push (predicate_op i)" "\<not> is_unary (predicate_op i)" "stack = w # v # rest" "s = x # rest"
    moreover obtain u t ts' where "ts = u # t # ts'"
      using Cons.prems(3) calculation by (cases ts; cases "tl ts") auto
    ultimately show ?thesis using Cons.prems by (intro exI [of _ "Binary i t u # ts'"]) simp
  qed
  then obtain vs where vs: "list_all well_formed vs" "length vs = length s"
      "concat (map postfix (rev vs)) = concat (map postfix (rev ts)) @ [i]" by blast
  from Cons.IH [OF run vs(1,2)] vs(3) show ?case by simp
qed

text \<open>What the parser accepts does not get stuck, as long as the event has the samples.\<close>

lemma checked_step:
  assumes "check_instructions samples (i # is) depth = ([], final)" "length stack = depth" "depth < 64"
    and "samples \<le> length (event_fields event)"
  shows "\<exists>stack'. predicate_step r event i stack = Some stack' \<and> length stack' \<le> Suc depth \<and>
    check_instructions samples is (length stack') = ([], final)"
proof -
  obtain errors where rest: "check_instructions samples is
      (if is_push (predicate_op i) then Suc depth else if is_unary (predicate_op i) then depth else depth - 1) = (errors, final)"
    and none: "errors = []"
    using assms(1) by (auto simp: Let_def split: prod.splits if_splits)
  consider "is_push (predicate_op i)" | "is_unary (predicate_op i)" "\<not> is_push (predicate_op i)"
    | "\<not> is_push (predicate_op i)" "\<not> is_unary (predicate_op i)" by blast
  then show ?thesis
  proof cases
    case 1
    have "leaf_value r event i \<noteq> None"
      using assms(1,4) 1 by (cases "predicate_op i")
        (auto simp: leaf_value_def is_push_def Let_def not_le split: prod.splits if_splits)
    then show ?thesis using 1 assms(2,3) rest none by (auto simp: step_leaf)
  next
    case 2
    then obtain v vs where "stack = v # vs"
      using assms(1,2) by (cases stack) (auto simp: Let_def split: prod.splits if_splits)
    then show ?thesis using 2 assms(2,3) rest none step_unary [OF 2(1), of vs r event v] by auto
  next
    case 3
    then obtain w v vs where "stack = w # v # vs"
      using assms(1,2) by (cases stack; cases "tl stack") (auto simp: Let_def split: prod.splits if_splits)
    then show ?thesis using 3 assms(2,3) rest none step_binary [OF 3, of vs r event w v] by auto
  qed
qed

lemma checked_run:
  assumes "check_instructions samples p depth = ([], final)" "length stack = depth" "depth + length p \<le> 64"
    and "samples \<le> length (event_fields event)"
  shows "\<exists>stack'. run_predicate r event p stack = Some stack' \<and> length stack' = final"
  using assms
proof (induction p arbitrary: stack depth)
  case (Cons i p)
  have "depth < 64" using Cons.prems(3) by simp
  from checked_step [OF Cons.prems(1,2) this Cons.prems(4)] obtain stack' where
    step: "predicate_step r event i stack = Some stack'" "length stack' \<le> Suc depth"
      "check_instructions samples p (length stack') = ([], final)" by metis
  from Cons.IH [OF step(3) refl _ Cons.prems(4)] step(1,2) Cons.prems(3) show ?case by simp
qed simp

lemma run_is_value:
  assumes "run_predicate r event p [] = Some [v]"
  shows "\<exists>t. well_formed t \<and> postfix t = p \<and> slots t \<le> 64 \<and> tree_value r event t = Some v"
proof -
  from run_shape [OF assms, of "[]"] obtain t where t: "well_formed t" "postfix t = p"
    by (auto simp: length_Suc_conv)
  with assms run_postfix [OF t(1), of r event "[]"] have "slots t \<le> 64 \<and> tree_value r event t = Some v"
    by (cases "tree_value r event t") (auto split: if_splits)
  with t show ?thesis by blast
qed

section \<open>Samples\<close>

definition instr :: "PredicateOp \<Rightarrow> u64 \<Rightarrow> PredicateInstruction" where
  "instr op v = \<lparr>predicate_op = op, operand = v, operand2 = 0\<rparr>"

text \<open>\<open>not (hit_count < 3) and sample 0 = 7\<close>\<close>

definition sample_predicate :: "PredicateInstruction list" where
  "sample_predicate = [instr PushHitCount 0, instr PushConstant 3, instr Less 0, instr LogicalNot 0,
     instr PushSample 0, instr PushConstant 7, instr Equal 0, instr LogicalAnd 0]"

definition sample_probe_event :: RawProbeEvent where
  "sample_probe_event = \<lparr>capture_sequence = 1, monotonic_ns = 0, event_frame_index = 0, guest_workset_epoch = 0,
     profile_revision = 0, snapshot_id = 0, hit_count = 5, event_value = 0, probe_index = 0, event_pc = 0,
     event_address = 0, event_size = 0, event_kind = 1, event_flags = 0,
     event_fields = [\<lparr>sample_index = 0, field_kind = 1, field_status = FieldPresent, field_value = 7,
       payload_offset = 0, field_payload_size = 0\<rparr>], event_payload = []\<rparr>"

definition sample_registers :: PpcRegisters where
  "sample_registers = \<lparr>link_register = 0, gprs = replicate 32 0\<rparr>"

section \<open>Properties\<close>

text \<open>
  A predicate is an expression. The stack machine says yes exactly to the empty predicate and to
  those that are the postfix form of an expression over the event and the registers that needs no more
  than 64 slots and whose value exists and is not 0. And a predicate the profile parser accepts always
  is such a form, with a value on every event that carries the declared samples, so it is decided by
  that value and never rejected for another reason.
\<close>

theorem predicates_are_expressions:
  "(evaluate_predicate p event r \<longleftrightarrow>
      p = [] \<or> (\<exists>t v. well_formed t \<and> postfix t = p \<and> slots t \<le> 64 \<and> tree_value r event t = Some v \<and> v \<noteq> 0)) \<and>
    (check_predicate samples p = [] \<and> p \<noteq> [] \<and> samples \<le> length (event_fields event) \<longrightarrow>
      (\<exists>t v. well_formed t \<and> postfix t = p \<and> tree_value r event t = Some v \<and>
        (evaluate_predicate p event r \<longleftrightarrow> v \<noteq> 0)))"
proof (intro conjI impI)
  have "run_predicate r event p [] = Some [v]"
    if "well_formed t" "postfix t = p" "slots t \<le> 64" "tree_value r event t = Some v" for t v
    using run_postfix [OF that(1), of r event "[]"] that by simp
  moreover have "\<exists>t. well_formed t \<and> postfix t = p \<and> slots t \<le> 64 \<and> tree_value r event t = Some v"
    if "run_predicate r event p [] = Some [v]" for v by (rule run_is_value [OF that])
  moreover have "evaluate_predicate p event r \<longleftrightarrow> p = [] \<or> (\<exists>v. run_predicate r event p [] = Some [v] \<and> v \<noteq> 0)"
    by (auto simp: evaluate_predicate_def split: option.splits list.splits)
  ultimately show "evaluate_predicate p event r \<longleftrightarrow>
      p = [] \<or> (\<exists>t v. well_formed t \<and> postfix t = p \<and> slots t \<le> 64 \<and> tree_value r event t = Some v \<and> v \<noteq> 0)"
    by blast
next
  assume *: "check_predicate samples p = [] \<and> p \<noteq> [] \<and> samples \<le> length (event_fields event)"
  then have "check_instructions samples p 0 = ([], 1)" "length p \<le> 64"
    by (auto simp: check_predicate_def split: if_splits prod.splits)
  from checked_run [OF this(1), of "[]" event r] this(2) * obtain stack where
    run: "run_predicate r event p [] = Some stack" "length stack = 1" by auto
  then obtain v where v: "run_predicate r event p [] = Some [v]" by (auto simp: length_Suc_conv)
  from run_is_value [OF this] v * show "\<exists>t v. well_formed t \<and> postfix t = p \<and> tree_value r event t = Some v \<and>
      (evaluate_predicate p event r \<longleftrightarrow> v \<noteq> 0)"
    by (auto simp: evaluate_predicate_def)
qed

theorem predicates_are_expressions_witness:
  "(\<exists>t v. well_formed t \<and> postfix t = sample_predicate \<and>
      tree_value sample_registers sample_probe_event t = Some v \<and> v \<noteq> 0)"
proof -
  have "check_predicate 1 sample_predicate = [] \<and> sample_predicate \<noteq> [] \<and> 1 \<le> length (event_fields sample_probe_event)"
    "evaluate_predicate sample_predicate sample_probe_event sample_registers"
    by code_simp+
  with predicates_are_expressions [of sample_predicate sample_probe_event sample_registers 1] show ?thesis by blast
qed

end
