(* ===== verification/CompletionLedger.thy ===== *)
theory CompletionLedger
  imports SavorPrelude
begin

text \<open>
  \<open>WorkerCompletionLedger\<close>: the actor-owned retention of item terminals
  (SavorCore/Runner/Runtime/Worksets/WorkerCompletionLedger.h and .cpp). A terminal is
  reserved, finalized, published in order, and kept until its exact acknowledgement.
  Definitions follow the source function by function; a C++ receipt
  \<open>{ok, code, message}\<close> with a payload is a sum, \<open>Inl\<close> the code of a failure; the
  message, a constant text per failure branch that no code reads back, is left out. \<open>std::this_thread::get_id()\<close> is the first argument of every operation.
  Allocation is taken to succeed, and \<open>std::size_t\<close> is 64 bits wide.
\<close>

section \<open>Data\<close>

datatype CompletionLedgerErrorCode =
    CL_None
  | CL_WrongThread
  | CL_InvalidArgument
  | CL_CapacityExceeded
  | CL_DuplicateTerminal
  | CL_TerminalNotFound
  | CL_TerminalMismatch
  | CL_InvalidState
  | CL_SequenceExhausted

datatype RetainedTerminalState =
    PendingFinalization
  | Ready
  | Publishing
  | AwaitingAcknowledgement

record WorkerItemTerminalCorrelation =
  workset_id :: u64
  item_id :: u64
  item_ordinal :: u32
  invocation_id :: u64
  attempt_id :: u64
  terminal_id :: u64
  terminal_order :: u64

record WorkerTerminalPublication =
  pub_correlation :: WorkerItemTerminalCorrelation
  pub_outbound_sequence :: u64
  pub_payload :: "u8 list"

record Entry =
  correlation :: WorkerItemTerminalCorrelation
  state :: RetainedTerminalState
  retained_bytes :: u64
  outbound_sequence :: u64
  payload :: "u8 list option"

record WorkerCompletionLedger =
  actor_thread :: "thread_id option"
  maximum_terminals :: u64
  maximum_bytes :: u64
  total_retained_bytes :: u64
  next_terminal_id :: u64
  next_terminal_order :: u64
  next_outbound_sequence :: u64
  open_outbound_sequence :: u64
  entries :: "Entry list"
  acknowledged_tombstones :: "WorkerItemTerminalCorrelation list"

record WorkerCompletionLedgerSnapshot =
  on_actor_thread :: bool
  retained_terminals :: nat
  snap_retained_bytes :: u64
  pending_finalization :: nat
  ready :: nat
  publishing :: nat
  awaiting_acknowledgement :: nat
  snap_next_terminal_order :: u64
  snap_next_outbound_sequence :: u64
  snap_open_outbound_sequence :: u64

section \<open>Operations\<close>

definition SameItem ::
  "WorkerItemTerminalCorrelation \<Rightarrow> WorkerItemTerminalCorrelation \<Rightarrow> bool" where
  "SameItem lhs rhs \<longleftrightarrow>
     workset_id lhs = workset_id rhs \<and>
     item_id lhs = item_id rhs \<and>
     item_ordinal lhs = item_ordinal rhs \<and>
     invocation_id lhs = invocation_id rhs \<and>
     attempt_id lhs = attempt_id rhs"

text \<open>The constructor, from the two limits it reads.\<close>

definition new_ledger :: "u32 \<Rightarrow> u64 \<Rightarrow> WorkerCompletionLedger" where
  "new_ledger maximum_retained_terminals maximum_retained_terminal_bytes = \<lparr>
     actor_thread = None,
     maximum_terminals = ucast maximum_retained_terminals,
     maximum_bytes = maximum_retained_terminal_bytes,
     total_retained_bytes = 0,
     next_terminal_id = 1,
     next_terminal_order = 1,
     next_outbound_sequence = 1,
     open_outbound_sequence = 0,
     entries = [],
     acknowledged_tombstones = []\<rparr>"

definition BindActorThread ::
  "thread_id \<Rightarrow> WorkerCompletionLedger \<Rightarrow> (CompletionLedgerErrorCode + unit) \<times> WorkerCompletionLedger"
where
  "BindActorThread current L =
     (case actor_thread L of
        None \<Rightarrow> (Inr (), L\<lparr>actor_thread := Some current\<rparr>)
      | Some t \<Rightarrow>
          if t = current then (Inr (), L)
          else (Inl CL_WrongThread, L))"

definition OnActorThread :: "thread_id \<Rightarrow> WorkerCompletionLedger \<Rightarrow> bool" where
  "OnActorThread current L \<longleftrightarrow> actor_thread L = Some current"

definition RequireActorThread ::
  "thread_id \<Rightarrow> WorkerCompletionLedger \<Rightarrow> CompletionLedgerErrorCode + unit" where
  "RequireActorThread current L =
     (if OnActorThread current L then Inr ()
      else Inl CL_WrongThread)"

definition Find :: "u64 \<Rightarrow> WorkerCompletionLedger \<Rightarrow> Entry option" where
  "Find tid L = List.find (\<lambda>entry. terminal_id (correlation entry) = tid) (entries L)"

text \<open>A write through the pointer \<open>Find\<close> returned.\<close>

definition update_entry ::
  "u64 \<Rightarrow> (Entry \<Rightarrow> Entry) \<Rightarrow> WorkerCompletionLedger \<Rightarrow> WorkerCompletionLedger" where
  "update_entry tid f L =
     L\<lparr>entries := update_first (\<lambda>entry. terminal_id (correlation entry) = tid) f (entries L)\<rparr>"

definition HasDuplicateItem ::
  "WorkerItemTerminalCorrelation \<Rightarrow> WorkerCompletionLedger \<Rightarrow> bool" where
  "HasDuplicateItem c L \<longleftrightarrow> list_ex (\<lambda>entry. SameItem (correlation entry) c) (entries L)"

definition CompleteCorrelation :: "WorkerItemTerminalCorrelation \<Rightarrow> bool" where
  "CompleteCorrelation c \<longleftrightarrow>
     workset_id c \<noteq> 0 \<and> item_id c \<noteq> 0 \<and> invocation_id c \<noteq> 0 \<and> attempt_id c \<noteq> 0 \<and>
     terminal_id c \<noteq> 0 \<and> terminal_order c \<noteq> 0"

definition ReserveTerminal ::
  "thread_id \<Rightarrow> WorkerItemTerminalCorrelation \<Rightarrow> u64 \<Rightarrow> WorkerCompletionLedger \<Rightarrow>
    (CompletionLedgerErrorCode + WorkerItemTerminalCorrelation) \<times> WorkerCompletionLedger" where
  "ReserveTerminal current c maximum_encoded_bytes L =
     (case RequireActorThread current L of Inl e \<Rightarrow> (Inl e, L) | Inr _ \<Rightarrow>
      if workset_id c = 0 \<or> item_id c = 0 \<or> invocation_id c = 0 \<or> attempt_id c = 0 \<or>
         terminal_id c \<noteq> 0 \<or> terminal_order c \<noteq> 0 \<or> maximum_encoded_bytes = 0
      then (Inl CL_InvalidArgument, L)
      else if HasDuplicateItem c L
      then (Inl CL_DuplicateTerminal, L)
      else if maximum_terminals L = 0 \<or>
         length (entries L) \<ge> unat (maximum_terminals L) \<or>
         maximum_encoded_bytes > maximum_bytes L \<or>
         total_retained_bytes L > maximum_bytes L - maximum_encoded_bytes
      then (Inl CL_CapacityExceeded, L)
      else if next_terminal_id L = 0 \<or> next_terminal_order L = 0
      then (Inl CL_SequenceExhausted, L)
      else
        let c' = c\<lparr>terminal_id := next_terminal_id L, terminal_order := next_terminal_order L\<rparr>;
            entry = \<lparr>correlation = c', state = PendingFinalization,
              retained_bytes = maximum_encoded_bytes, outbound_sequence = 0, payload = None\<rparr>
        in (Inr c', L\<lparr>
             next_terminal_id := next_terminal_id L + 1,
             next_terminal_order := next_terminal_order L + 1,
             entries := entries L @ [entry],
             total_retained_bytes := total_retained_bytes L + maximum_encoded_bytes\<rparr>))"

definition CompleteTerminal ::
  "thread_id \<Rightarrow> WorkerItemTerminalCorrelation \<Rightarrow> u8 list \<Rightarrow> WorkerCompletionLedger \<Rightarrow>
    (CompletionLedgerErrorCode + unit) \<times> WorkerCompletionLedger" where
  "CompleteTerminal current c bytes L =
     (case RequireActorThread current L of Inl e \<Rightarrow> (Inl e, L) | Inr _ \<Rightarrow>
      if \<not> CompleteCorrelation c
      then (Inl CL_InvalidArgument, L)
      else case Find (terminal_id c) L of
        None \<Rightarrow> (Inl CL_TerminalNotFound, L)
      | Some entry \<Rightarrow>
          if correlation entry \<noteq> c
          then (Inl CL_TerminalMismatch, L)
          else if state entry \<noteq> PendingFinalization
          then (Inl CL_InvalidState, L)
          else
            let actual_bytes = of_nat (length bytes) :: u64;
                finish = update_entry (terminal_id c) (\<lambda>e. e\<lparr>retained_bytes := actual_bytes,
                  payload := Some bytes, state := Ready\<rparr>)
            in if actual_bytes > retained_bytes entry then
                 (let growth = actual_bytes - retained_bytes entry in
                  if growth > maximum_bytes L \<or> total_retained_bytes L > maximum_bytes L - growth
                  then (Inl CL_CapacityExceeded, L)
                  else (Inr (), finish (L\<lparr>total_retained_bytes := total_retained_bytes L + growth\<rparr>)))
               else (Inr (), finish (L\<lparr>total_retained_bytes :=
                      total_retained_bytes L - (retained_bytes entry - actual_bytes)\<rparr>)))"

definition ReserveOutboundSequenceUnchecked ::
  "WorkerCompletionLedger \<Rightarrow> (CompletionLedgerErrorCode + u64) \<times> WorkerCompletionLedger" where
  "ReserveOutboundSequenceUnchecked L =
     (if open_outbound_sequence L \<noteq> 0
      then (Inl CL_InvalidState, L)
      else if next_outbound_sequence L = 0
      then (Inl CL_SequenceExhausted, L)
      else (Inr (next_outbound_sequence L),
            L\<lparr>open_outbound_sequence := next_outbound_sequence L,
              next_outbound_sequence := next_outbound_sequence L + 1\<rparr>))"

definition ReserveOutboundSequence ::
  "thread_id \<Rightarrow> WorkerCompletionLedger \<Rightarrow> (CompletionLedgerErrorCode + u64) \<times> WorkerCompletionLedger" where
  "ReserveOutboundSequence current L =
     (case RequireActorThread current L of Inl e \<Rightarrow> (Inl e, L)
      | Inr _ \<Rightarrow> ReserveOutboundSequenceUnchecked L)"

definition ConfirmOutboundSequence ::
  "thread_id \<Rightarrow> u64 \<Rightarrow> WorkerCompletionLedger \<Rightarrow> (CompletionLedgerErrorCode + unit) \<times> WorkerCompletionLedger" where
  "ConfirmOutboundSequence current sequence L =
     (case RequireActorThread current L of Inl e \<Rightarrow> (Inl e, L) | Inr _ \<Rightarrow>
      if sequence = 0 \<or> sequence \<noteq> open_outbound_sequence L
      then (Inl CL_TerminalMismatch, L)
      else (Inr (), L\<lparr>open_outbound_sequence := 0\<rparr>))"

definition AbandonOutboundSequence ::
  "thread_id \<Rightarrow> u64 \<Rightarrow> WorkerCompletionLedger \<Rightarrow> (CompletionLedgerErrorCode + unit) \<times> WorkerCompletionLedger" where
  "AbandonOutboundSequence current sequence L =
     (case RequireActorThread current L of Inl e \<Rightarrow> (Inl e, L) | Inr _ \<Rightarrow>
      if sequence = 0 \<or> sequence \<noteq> open_outbound_sequence L
      then (Inl CL_TerminalMismatch, L)
      else (Inr (), L\<lparr>open_outbound_sequence := 0\<rparr>))"

text \<open>
  The loop of \<open>BeginNextPublication\<close> over the entries, \<open>passed\<close> those already skipped; a
  write to the current entry puts it back between them.
\<close>

fun publication_loop ::
  "WorkerCompletionLedger \<Rightarrow> Entry list \<Rightarrow> Entry list \<Rightarrow>
    (CompletionLedgerErrorCode + WorkerTerminalPublication option) \<times> WorkerCompletionLedger" where
  "publication_loop L passed [] = (Inr None, L)"
| "publication_loop L passed (entry # rest) =
     (if state entry = AwaitingAcknowledgement then publication_loop L (passed @ [entry]) rest
      else if state entry = PendingFinalization then (Inr None, L)
      else if state entry = Publishing
      then (Inl CL_InvalidState, L)
      else case payload entry of
        None \<Rightarrow> (Inl CL_InvalidState, L)
      | Some bytes \<Rightarrow>
          if outbound_sequence entry = 0 then
            (case ReserveOutboundSequenceUnchecked L of
               (Inl e, L') \<Rightarrow> (Inl e, L')
             | (Inr sequence, L') \<Rightarrow>
                 (Inr (Some \<lparr>pub_correlation = correlation entry,
                    pub_outbound_sequence = sequence, pub_payload = bytes\<rparr>),
                  L'\<lparr>entries := passed @
                    entry\<lparr>outbound_sequence := sequence, state := Publishing\<rparr> # rest\<rparr>))
          else if open_outbound_sequence L \<noteq> outbound_sequence entry
          then (Inl CL_InvalidState, L)
          else (Inr (Some \<lparr>pub_correlation = correlation entry,
                  pub_outbound_sequence = outbound_sequence entry, pub_payload = bytes\<rparr>),
                L\<lparr>entries := passed @ entry\<lparr>state := Publishing\<rparr> # rest\<rparr>))"

definition BeginNextPublication ::
  "thread_id \<Rightarrow> WorkerCompletionLedger \<Rightarrow>
    (CompletionLedgerErrorCode + WorkerTerminalPublication option) \<times> WorkerCompletionLedger" where
  "BeginNextPublication current L =
     (case RequireActorThread current L of Inl e \<Rightarrow> (Inl e, L)
      | Inr _ \<Rightarrow> publication_loop L [] (entries L))"

definition ConfirmPublished ::
  "thread_id \<Rightarrow> WorkerItemTerminalCorrelation \<Rightarrow> WorkerCompletionLedger \<Rightarrow>
    (CompletionLedgerErrorCode + unit) \<times> WorkerCompletionLedger" where
  "ConfirmPublished current c L =
     (case RequireActorThread current L of Inl e \<Rightarrow> (Inl e, L) | Inr _ \<Rightarrow>
      case Find (terminal_id c) L of
        None \<Rightarrow> (Inl CL_TerminalNotFound, L)
      | Some entry \<Rightarrow>
          if correlation entry \<noteq> c
          then (Inl CL_TerminalMismatch, L)
          else if state entry \<noteq> Publishing
          then (Inl CL_InvalidState, L)
          else case ConfirmOutboundSequence current (outbound_sequence entry) L of
            (Inl e, L') \<Rightarrow> (Inl e, L')
          | (Inr _, L') \<Rightarrow> (Inr (), update_entry (terminal_id c)
               (\<lambda>e. e\<lparr>state := AwaitingAcknowledgement\<rparr>) L'))"

definition AbortPublication ::
  "thread_id \<Rightarrow> WorkerItemTerminalCorrelation \<Rightarrow> WorkerCompletionLedger \<Rightarrow>
    (CompletionLedgerErrorCode + unit) \<times> WorkerCompletionLedger" where
  "AbortPublication current c L =
     (case RequireActorThread current L of Inl e \<Rightarrow> (Inl e, L) | Inr _ \<Rightarrow>
      case Find (terminal_id c) L of
        None \<Rightarrow> (Inl CL_TerminalNotFound, L)
      | Some entry \<Rightarrow>
          if correlation entry \<noteq> c
          then (Inl CL_TerminalMismatch, L)
          else if state entry \<noteq> Publishing
          then (Inl CL_InvalidState, L)
          else (Inr (), update_entry (terminal_id c) (\<lambda>e. e\<lparr>state := Ready\<rparr>) L))"

text \<open>
  The tombstones are a bounded queue: pushed at the back, popped from the front while there
  are more than \<open>max 1 maximum_terminals\<close> of them.
\<close>

definition trim_tombstones ::
  "nat \<Rightarrow> WorkerItemTerminalCorrelation list \<Rightarrow> WorkerItemTerminalCorrelation list" where
  "trim_tombstones maximum ts = drop (length ts - maximum) ts"

definition AcknowledgeTerminal ::
  "thread_id \<Rightarrow> WorkerItemTerminalCorrelation \<Rightarrow> WorkerCompletionLedger \<Rightarrow>
    (CompletionLedgerErrorCode + unit) \<times> WorkerCompletionLedger" where
  "AcknowledgeTerminal current c L =
     (case RequireActorThread current L of Inl e \<Rightarrow> (Inl e, L) | Inr _ \<Rightarrow>
      if \<not> CompleteCorrelation c
      then (Inl CL_InvalidArgument, L)
      else case Find (terminal_id c) L of
        None \<Rightarrow>
          (case List.find (\<lambda>prior. terminal_id prior = terminal_id c) (acknowledged_tombstones L) of
             Some tombstone \<Rightarrow>
               if tombstone = c then (Inr (), L)
               else (Inl CL_TerminalMismatch, L)
           | None \<Rightarrow> (Inl CL_TerminalNotFound, L))
      | Some entry \<Rightarrow>
          if correlation entry \<noteq> c
          then (Inl CL_TerminalMismatch, L)
          else if state entry \<noteq> AwaitingAcknowledgement
          then (Inl CL_InvalidState, L)
          else (Inr (), L\<lparr>
             total_retained_bytes := total_retained_bytes L - retained_bytes entry,
             acknowledged_tombstones := trim_tombstones (max 1 (unat (maximum_terminals L)))
               (acknowledged_tombstones L @ [correlation entry]),
             entries := remove_first (\<lambda>e. terminal_id (correlation e) = terminal_id c) (entries L)\<rparr>))"

definition count_state :: "RetainedTerminalState \<Rightarrow> WorkerCompletionLedger \<Rightarrow> nat" where
  "count_state s L = length (filter (\<lambda>entry. state entry = s) (entries L))"

definition completion_snapshot ::
  "thread_id \<Rightarrow> WorkerCompletionLedger \<Rightarrow> WorkerCompletionLedgerSnapshot" where
  "completion_snapshot current L =
     (if \<not> OnActorThread current L
      then \<lparr>on_actor_thread = False, retained_terminals = 0, snap_retained_bytes = 0,
        pending_finalization = 0, ready = 0, publishing = 0, awaiting_acknowledgement = 0,
        snap_next_terminal_order = 0, snap_next_outbound_sequence = 0,
        snap_open_outbound_sequence = 0\<rparr>
      else \<lparr>on_actor_thread = True, retained_terminals = length (entries L),
        snap_retained_bytes = total_retained_bytes L,
        pending_finalization = count_state PendingFinalization L,
        ready = count_state Ready L,
        publishing = count_state Publishing L,
        awaiting_acknowledgement = count_state AwaitingAcknowledgement L,
        snap_next_terminal_order = next_terminal_order L,
        snap_next_outbound_sequence = next_outbound_sequence L,
        snap_open_outbound_sequence = open_outbound_sequence L\<rparr>)"


section \<open>The ledger as a machine\<close>

text \<open>
  One constructor per public mutating operation; \<open>ledger_step\<close> is the operation's effect on
  the state when thread \<open>current\<close> calls it.
\<close>

datatype ledger_operation =
    Op_BindActorThread
  | Op_ReserveTerminal WorkerItemTerminalCorrelation u64
  | Op_CompleteTerminal WorkerItemTerminalCorrelation "u8 list"
  | Op_ReserveOutboundSequence
  | Op_ConfirmOutboundSequence u64
  | Op_AbandonOutboundSequence u64
  | Op_BeginNextPublication
  | Op_ConfirmPublished WorkerItemTerminalCorrelation
  | Op_AbortPublication WorkerItemTerminalCorrelation
  | Op_AcknowledgeTerminal WorkerItemTerminalCorrelation

fun ledger_step ::
  "thread_id \<times> ledger_operation \<Rightarrow> WorkerCompletionLedger \<Rightarrow> WorkerCompletionLedger" where
  "ledger_step (t, Op_BindActorThread) L = snd (BindActorThread t L)"
| "ledger_step (t, Op_ReserveTerminal c n) L = snd (ReserveTerminal t c n L)"
| "ledger_step (t, Op_CompleteTerminal c bs) L = snd (CompleteTerminal t c bs L)"
| "ledger_step (t, Op_ReserveOutboundSequence) L = snd (ReserveOutboundSequence t L)"
| "ledger_step (t, Op_ConfirmOutboundSequence q) L = snd (ConfirmOutboundSequence t q L)"
| "ledger_step (t, Op_AbandonOutboundSequence q) L = snd (AbandonOutboundSequence t q L)"
| "ledger_step (t, Op_BeginNextPublication) L = snd (BeginNextPublication t L)"
| "ledger_step (t, Op_ConfirmPublished c) L = snd (ConfirmPublished t c L)"
| "ledger_step (t, Op_AbortPublication c) L = snd (AbortPublication t c L)"
| "ledger_step (t, Op_AcknowledgeTerminal c) L = snd (AcknowledgeTerminal t c L)"

section \<open>The invariant\<close>

text \<open>
  Between an entry and a later one: terminal identities grow, the items differ, and the later
  one owns an outbound sequence only when the earlier one is already published under a
  smaller sequence.
\<close>

definition publish_order :: "Entry \<Rightarrow> Entry \<Rightarrow> bool" where
  "publish_order a b \<longleftrightarrow>
     terminal_id (correlation a) < terminal_id (correlation b) \<and>
     \<not> SameItem (correlation a) (correlation b) \<and>
     (outbound_sequence b \<noteq> 0 \<longrightarrow>
        state a = AwaitingAcknowledgement \<and> outbound_sequence a < outbound_sequence b)"

definition entry_wf :: "Entry \<Rightarrow> bool" where
  "entry_wf e \<longleftrightarrow>
     CompleteCorrelation (correlation e) \<and>
     terminal_order (correlation e) = terminal_id (correlation e) \<and>
     (payload e = None \<longleftrightarrow> state e = PendingFinalization) \<and>
     (\<forall>bytes. payload e = Some bytes \<longrightarrow> retained_bytes e = of_nat (length bytes)) \<and>
     (state e = PendingFinalization \<longrightarrow> outbound_sequence e = 0) \<and>
     (state e = Publishing \<or> state e = AwaitingAcknowledgement \<longrightarrow> outbound_sequence e \<noteq> 0)"

definition bytes_of :: "Entry list \<Rightarrow> nat" where
  "bytes_of es = sum_list (map (\<lambda>e. unat (retained_bytes e)) es)"

definition ledger_inv :: "WorkerCompletionLedger \<Rightarrow> bool" where
  "ledger_inv L \<longleftrightarrow>
     sorted_wrt publish_order (entries L) \<and>
     (\<forall>e \<in> set (entries L). entry_wf e) \<and>
     next_terminal_order L = next_terminal_id L \<and>
     (next_terminal_id L \<noteq> 0 \<longrightarrow>
        (\<forall>e \<in> set (entries L). terminal_id (correlation e) < next_terminal_id L) \<and>
        (\<forall>c \<in> set (acknowledged_tombstones L). terminal_id c < next_terminal_id L)) \<and>
     (next_outbound_sequence L \<noteq> 0 \<longrightarrow>
        (\<forall>e \<in> set (entries L). outbound_sequence e < next_outbound_sequence L) \<and>
        open_outbound_sequence L < next_outbound_sequence L) \<and>
     length (entries L) \<le> unat (maximum_terminals L) \<and>
     unat (total_retained_bytes L) = bytes_of (entries L) \<and>
     total_retained_bytes L \<le> maximum_bytes L \<and>
     length (acknowledged_tombstones L) \<le> max 1 (unat (maximum_terminals L)) \<and>
     (\<forall>c \<in> set (acknowledged_tombstones L). \<forall>e \<in> set (entries L).
        terminal_id c \<noteq> terminal_id (correlation e))"

lemma bytes_of_simps [simp]:
  "bytes_of [] = 0"
  "bytes_of (e # es) = unat (retained_bytes e) + bytes_of es"
  "bytes_of (es @ fs) = bytes_of es + bytes_of fs"
  by (simp_all add: bytes_of_def)

lemma new_ledger_inv: "ledger_inv (new_ledger n b)"
  by (simp add: ledger_inv_def new_ledger_def)

lemma RequireActorThread_Inr [simp]:
  "RequireActorThread t L = Inr u \<longleftrightarrow> actor_thread L = Some t"
  by (simp add: RequireActorThread_def OnActorThread_def)

lemma RequireActorThread_ok [simp]:
  "actor_thread L = Some t \<Longrightarrow> RequireActorThread t L = Inr ()"
  by simp

lemma Find_split:
  assumes "Find tid L = Some e"
  obtains pre post where
    "entries L = pre @ e # post" "terminal_id (correlation e) = tid"
    "\<And>f. update_first (\<lambda>x. terminal_id (correlation x) = tid) f (entries L) = pre @ f e # post"
    "remove_first (\<lambda>x. terminal_id (correlation x) = tid) (entries L) = pre @ post"
  using assms unfolding Find_def by (rule find_split) blast

lemma Find_at:
  assumes "sorted_wrt publish_order (entries L)" and "entries L = pre @ e # post"
    and "terminal_id (correlation e) = tid"
  shows "Find tid L = Some e"
    and "update_entry tid f L = L\<lparr>entries := pre @ f e # post\<rparr>"
    and "remove_first (\<lambda>x. terminal_id (correlation x) = tid) (entries L) = pre @ post"
proof -
  have "\<forall>a \<in> set pre. terminal_id (correlation a) \<noteq> tid"
    using assms by (auto simp: sorted_wrt_append publish_order_def)
  from find_at [OF this, of e] show "Find tid L = Some e"
      "update_entry tid f L = L\<lparr>entries := pre @ f e # post\<rparr>"
      "remove_first (\<lambda>x. terminal_id (correlation x) = tid) (entries L) = pre @ post"
    using assms by (simp_all add: Find_def update_entry_def)
qed

lemma publish_order_replace:
  assumes "sorted_wrt publish_order (pre @ e # post)"
    and "correlation e' = correlation e"
    and "outbound_sequence e' \<noteq> 0 \<Longrightarrow> \<forall>a \<in> set pre.
      state a = AwaitingAcknowledgement \<and> outbound_sequence a < outbound_sequence e'"
    and "\<And>b. b \<in> set post \<Longrightarrow> outbound_sequence b \<noteq> 0 \<Longrightarrow>
      state e' = AwaitingAcknowledgement \<and> outbound_sequence e' < outbound_sequence b"
  shows "sorted_wrt publish_order (pre @ e' # post)"
  using assms by (auto simp: sorted_wrt_append publish_order_def)

text \<open>
  Every operation but reservation and acknowledgement replaces at most one entry by one with
  the same correlation: what it then owes to the invariant.
\<close>

lemma ledger_inv_replace:
  assumes inv: "ledger_inv L" and split: "entries L = pre @ e # post"
    and corr: "correlation e' = correlation e" and wf: "entry_wf e'"
    and before: "outbound_sequence e' \<noteq> 0 \<Longrightarrow> \<forall>a \<in> set pre.
      state a = AwaitingAcknowledgement \<and> outbound_sequence a < outbound_sequence e'"
    and after: "\<And>b. b \<in> set post \<Longrightarrow> outbound_sequence b \<noteq> 0 \<Longrightarrow>
      state e' = AwaitingAcknowledgement \<and> outbound_sequence e' < outbound_sequence b"
    and out: "next_outbound_sequence L' \<noteq> 0 \<Longrightarrow>
      (\<forall>x \<in> set pre \<union> set post. outbound_sequence x < next_outbound_sequence L') \<and>
      outbound_sequence e' < next_outbound_sequence L' \<and>
      open_outbound_sequence L' < next_outbound_sequence L'"
    and total: "unat (total_retained_bytes L') =
      bytes_of pre + unat (retained_bytes e') + bytes_of post"
    and bound: "total_retained_bytes L' \<le> maximum_bytes L"
    and frame: "entries L' = pre @ e' # post" "next_terminal_id L' = next_terminal_id L"
      "next_terminal_order L' = next_terminal_order L"
      "maximum_terminals L' = maximum_terminals L" "maximum_bytes L' = maximum_bytes L"
      "acknowledged_tombstones L' = acknowledged_tombstones L"
  shows "ledger_inv L'"
proof -
  have "sorted_wrt publish_order (pre @ e' # post)"
    using inv split corr before after
    by (intro publish_order_replace [of pre e post e']) (auto simp: ledger_inv_def)
  then show ?thesis
    using inv split corr wf out total bound frame by (auto simp: ledger_inv_def)
qed


subsection \<open>Each operation keeps the invariant\<close>

lemmas step_splits = sum.splits option.splits if_splits prod.splits

lemma BindActorThread_inv: "ledger_inv L \<Longrightarrow> ledger_inv (snd (BindActorThread t L))"
  by (simp add: BindActorThread_def ledger_inv_def split: step_splits)

lemma ReserveOutboundSequenceUnchecked_inv:
  "ledger_inv L \<Longrightarrow> ledger_inv (snd (ReserveOutboundSequenceUnchecked L))"
  by (force simp: ReserveOutboundSequenceUnchecked_def ledger_inv_def word_less_Suc)

lemma ReserveOutboundSequence_inv:
  "ledger_inv L \<Longrightarrow> ledger_inv (snd (ReserveOutboundSequence t L))"
  by (simp add: ReserveOutboundSequence_def ReserveOutboundSequenceUnchecked_inv split: step_splits)

lemma ConfirmOutboundSequence_inv:
  "ledger_inv L \<Longrightarrow> ledger_inv (snd (ConfirmOutboundSequence t q L))"
  by (auto simp: ConfirmOutboundSequence_def ledger_inv_def word_zero_less [symmetric]
      split: step_splits)

lemma AbandonOutboundSequence_inv:
  "ledger_inv L \<Longrightarrow> ledger_inv (snd (AbandonOutboundSequence t q L))"
  by (auto simp: AbandonOutboundSequence_def ledger_inv_def word_zero_less [symmetric]
      split: step_splits)

lemma reserve_bytes:
  fixes total n bound :: u64
  assumes "n \<le> bound" and "total \<le> bound - n"
  shows "unat (total + n) = unat total + unat n \<and> total + n \<le> bound"
proof -
  have "unat total + unat n \<le> unat bound"
    using assms by (simp add: word_le_nat_alt unat_sub)
  moreover have "unat bound < 2 ^ LENGTH(64)" by (rule unsigned_less)
  ultimately have "unat (total + n) = unat total + unat n"
    by (intro unat_add_lem [THEN iffD1]) simp
  with \<open>unat total + unat n \<le> unat bound\<close> show ?thesis
    by (simp add: word_le_nat_alt)
qed

lemma ReserveTerminal_inv:
  assumes "ledger_inv L"
  shows "ledger_inv (snd (ReserveTerminal t c n L))"
proof (cases "fst (ReserveTerminal t c n L)")
  case (Inl e)
  then have "snd (ReserveTerminal t c n L) = L"
    by (auto simp: ReserveTerminal_def Let_def split: step_splits)
  with assms show ?thesis by simp
next
  case (Inr c')
  then have actor: "actor_thread L = Some t"
    and args: "workset_id c \<noteq> 0" "item_id c \<noteq> 0" "invocation_id c \<noteq> 0" "attempt_id c \<noteq> 0"
    and fresh: "\<not> HasDuplicateItem c L"
    and count: "length (entries L) < unat (maximum_terminals L)"
    and bytes: "n \<le> maximum_bytes L" "total_retained_bytes L \<le> maximum_bytes L - n"
    and ids: "next_terminal_id L \<noteq> 0" "next_terminal_order L \<noteq> 0"
    by (auto simp: ReserveTerminal_def Let_def split: step_splits)
  let ?e = "\<lparr>correlation = c\<lparr>terminal_id := next_terminal_id L,
      terminal_order := next_terminal_order L\<rparr>, state = PendingFinalization,
      retained_bytes = n, outbound_sequence = 0, payload = None\<rparr>"
  let ?L = "L\<lparr>next_terminal_id := next_terminal_id L + 1,
       next_terminal_order := next_terminal_order L + 1, entries := entries L @ [?e],
       total_retained_bytes := total_retained_bytes L + n\<rparr>"
  have result: "snd (ReserveTerminal t c n L) = ?L"
    using actor args fresh count bytes ids Inr
    by (simp add: ReserveTerminal_def Let_def split: if_splits)
  have total: "unat (total_retained_bytes L + n) = unat (total_retained_bytes L) + unat n
      \<and> total_retained_bytes L + n \<le> maximum_bytes L"
    using bytes by (rule reserve_bytes)
  have wf: "entry_wf ?e"
    using assms args ids by (simp add: entry_wf_def CompleteCorrelation_def ledger_inv_def)
  have order: "sorted_wrt publish_order (entries L @ [?e])"
    using assms fresh ids
    by (auto simp: ledger_inv_def sorted_wrt_append publish_order_def SameItem_def
        HasDuplicateItem_def list_ex_iff)
  have below: "next_terminal_id L + 1 \<noteq> 0 \<longrightarrow>
      (\<forall>e \<in> set (entries L @ [?e]). terminal_id (correlation e) < next_terminal_id L + 1) \<and>
      (\<forall>c \<in> set (acknowledged_tombstones L). terminal_id c < next_terminal_id L + 1)"
    using assms ids by (auto simp: ledger_inv_def word_less_Suc less_imp_le)
  show ?thesis
    unfolding result ledger_inv_def
  proof (intro conjI)
    show "\<forall>c\<in>set (acknowledged_tombstones ?L). \<forall>e\<in>set (entries ?L).
        terminal_id c \<noteq> terminal_id (correlation e)"
      using assms ids by (auto simp: ledger_inv_def)
  qed (use assms order wf below total count in
      \<open>simp_all add: ledger_inv_def word_gt_0 del: unsigned_less\<close>)
qed

lemma CompleteTerminal_inv:
  assumes inv: "ledger_inv L"
  shows "ledger_inv (snd (CompleteTerminal t c bs L))"
proof (cases "fst (CompleteTerminal t c bs L)")
  case (Inl e)
  then have "snd (CompleteTerminal t c bs L) = L"
    by (auto simp: CompleteTerminal_def Let_def split: step_splits)
  with inv show ?thesis by simp
next
  case (Inr u)
  then obtain entry where entry: "Find (terminal_id c) L = Some entry" "correlation entry = c"
      "state entry = PendingFinalization" and actor: "actor_thread L = Some t"
    by (auto simp: CompleteTerminal_def Let_def split: step_splits)
  from entry(1) obtain pre post where split: "entries L = pre @ entry # post"
    and upd: "\<And>f. update_first (\<lambda>x. terminal_id (correlation x) = terminal_id c) f (entries L)
      = pre @ f entry # post" by (rule Find_split) blast
  let ?n = "of_nat (length bs) :: u64"
  let ?entry = "entry\<lparr>retained_bytes := ?n, payload := Some bs, state := Ready\<rparr>"
  let ?total = "if ?n > retained_bytes entry
    then total_retained_bytes L + (?n - retained_bytes entry)
    else total_retained_bytes L - (retained_bytes entry - ?n)"
  have result: "snd (CompleteTerminal t c bs L)
      = L\<lparr>total_retained_bytes := ?total, entries := pre @ ?entry # post\<rparr>"
    using Inr entry actor upd
    by (auto simp: CompleteTerminal_def Let_def update_entry_def split: step_splits)
  have old: "unat (total_retained_bytes L)
      = bytes_of pre + unat (retained_bytes entry) + bytes_of post"
    using inv split by (simp add: ledger_inv_def)
  have total: "unat ?total = bytes_of pre + unat ?n + bytes_of post \<and> ?total \<le> maximum_bytes L"
  proof (cases "?n > retained_bytes entry")
    case True
    with Inr entry actor have
      "?n - retained_bytes entry \<le> maximum_bytes L"
      "total_retained_bytes L \<le> maximum_bytes L - (?n - retained_bytes entry)"
      by (auto simp: CompleteTerminal_def Let_def split: step_splits)
    from reserve_bytes [OF this] True old show ?thesis
      by (simp add: unat_sub word_le_nat_alt word_less_nat_alt)
  next
    case False
    then have small: "?n \<le> retained_bytes entry" by simp
    have "retained_bytes entry - ?n \<le> total_retained_bytes L"
      using small old by (simp add: word_le_nat_alt unat_sub)
    moreover have "total_retained_bytes L \<le> maximum_bytes L"
      using inv by (simp add: ledger_inv_def)
    ultimately show ?thesis
      using False small old by (simp add: unat_sub word_le_nat_alt)
  qed
  have wf: "entry_wf entry" using inv split by (simp add: ledger_inv_def)
  show ?thesis
    unfolding result
  proof (rule ledger_inv_replace [OF inv split, where e' = ?entry])
    show "state ?entry = AwaitingAcknowledgement \<and> outbound_sequence ?entry < outbound_sequence b"
      if "b \<in> set post" "outbound_sequence b \<noteq> 0" for b
      using inv split entry(3) that
      by (auto simp: ledger_inv_def sorted_wrt_append publish_order_def)
  qed (use inv split entry wf total in \<open>auto simp: entry_wf_def ledger_inv_def\<close>)
qed


text \<open>
  What a publication that goes ahead does: the first entry that is not yet published is ready,
  and takes either a fresh outbound sequence or the one it kept.
\<close>

definition published_from ::
  "WorkerCompletionLedger \<Rightarrow> Entry list \<Rightarrow> Entry \<Rightarrow> Entry list \<Rightarrow>
    WorkerTerminalPublication \<Rightarrow> WorkerCompletionLedger \<Rightarrow> bool" where
  "published_from L pre e post p L' \<longleftrightarrow>
     entries L = pre @ e # post \<and>
     (\<forall>a \<in> set pre. state a = AwaitingAcknowledgement) \<and> state e = Ready \<and>
     payload e = Some (pub_payload p) \<and> pub_correlation p = correlation e \<and>
     (if outbound_sequence e = 0
      then open_outbound_sequence L = 0 \<and> next_outbound_sequence L \<noteq> 0 \<and>
        pub_outbound_sequence p = next_outbound_sequence L \<and>
        L' = L\<lparr>open_outbound_sequence := next_outbound_sequence L,
          next_outbound_sequence := next_outbound_sequence L + 1,
          entries := pre @ e\<lparr>outbound_sequence := next_outbound_sequence L,
            state := Publishing\<rparr> # post\<rparr>
      else open_outbound_sequence L = outbound_sequence e \<and>
        pub_outbound_sequence p = outbound_sequence e \<and>
        L' = L\<lparr>entries := pre @ e\<lparr>state := Publishing\<rparr> # post\<rparr>)"

lemma publication_loop_result:
  assumes "publication_loop L passed rest = (r, L')"
    and "entries L = passed @ rest" and "\<forall>a \<in> set passed. state a = AwaitingAcknowledgement"
  shows "(L' = L \<and> (\<forall>p. r \<noteq> Inr (Some p))) \<or>
    (\<exists>pre e post p. r = Inr (Some p) \<and> published_from L pre e post p L')"
  using assms
proof (induction L passed rest rule: publication_loop.induct)
  case (1 L passed)
  then show ?case by auto
next
  case (2 L passed entry rest)
  show ?case
  proof (cases "state entry = AwaitingAcknowledgement")
    case True
    with 2 show ?thesis by auto
  next
    case False
    show ?thesis
    proof (cases "\<exists>p. r = Inr (Some p)")
      case True
      then obtain p where r: "r = Inr (Some p)" by blast
      with False 2(2-) have "published_from L passed entry rest p L'"
        by (cases "state entry") (auto simp: published_from_def
            ReserveOutboundSequenceUnchecked_def split: option.splits if_splits)
      with r show ?thesis by blast
    next
      case unsuccessful: False
      with False 2(2-) show ?thesis
        by (cases "state entry") (auto simp: ReserveOutboundSequenceUnchecked_def
            split: option.splits if_splits)
    qed
  qed
qed

lemma publication_loop_skip:
  "\<forall>a \<in> set pre. state a = AwaitingAcknowledgement \<Longrightarrow>
    publication_loop L passed (pre @ rest) = publication_loop L (passed @ pre) rest"
  by (induction pre arbitrary: passed) auto

lemma BeginNextPublication_result:
  obtains (none) "snd (BeginNextPublication t L) = L"
      "\<And>p. fst (BeginNextPublication t L) \<noteq> Inr (Some p)"
  | (some) pre e post p where "fst (BeginNextPublication t L) = Inr (Some p)"
      "actor_thread L = Some t" "published_from L pre e post p (snd (BeginNextPublication t L))"
proof (cases "actor_thread L = Some t")
  case True
  obtain r L' where "publication_loop L [] (entries L) = (r, L')"
    by (cases "publication_loop L [] (entries L)")
  with publication_loop_result [OF this] True that show ?thesis
    by (auto simp: BeginNextPublication_def)
next
  case False
  with none show ?thesis
    by (simp add: BeginNextPublication_def RequireActorThread_def OnActorThread_def)
qed

lemma published_from_inv:
  assumes inv: "ledger_inv L" and pub: "published_from L pre e post p L'"
  shows "ledger_inv L'"
proof -
  have split: "entries L = pre @ e # post" and st: "state e = Ready"
    and pre: "\<forall>a \<in> set pre. state a = AwaitingAcknowledgement"
    using pub by (auto simp: published_from_def)
  have wf: "\<forall>x \<in> set pre \<union> {e} \<union> set post. entry_wf x"
    using inv split by (auto simp: ledger_inv_def)
  have unpublished: "outbound_sequence b = 0" if "b \<in> set post" for b
    using inv split st that by (auto simp: ledger_inv_def sorted_wrt_append publish_order_def)
  define e' where "e' = (if outbound_sequence e = 0
    then e\<lparr>outbound_sequence := next_outbound_sequence L, state := Publishing\<rparr>
    else e\<lparr>state := Publishing\<rparr>)"
  have earlier: "\<forall>a \<in> set pre. state a = AwaitingAcknowledgement \<and>
      outbound_sequence a < outbound_sequence e'"
    using inv split pre pub
    by (auto simp: e'_def published_from_def ledger_inv_def sorted_wrt_append publish_order_def)
  show ?thesis
  proof (rule ledger_inv_replace [OF inv split, where e' = e'])
    show "next_outbound_sequence L' \<noteq> 0 \<Longrightarrow>
      (\<forall>x \<in> set pre \<union> set post. outbound_sequence x < next_outbound_sequence L') \<and>
      outbound_sequence e' < next_outbound_sequence L' \<and>
      open_outbound_sequence L' < next_outbound_sequence L'"
      using inv split pub
      by (auto simp: e'_def published_from_def ledger_inv_def word_less_Suc less_imp_le
          split: if_splits)
  qed (use inv split pub earlier unpublished wf st in
      \<open>auto simp: e'_def published_from_def entry_wf_def ledger_inv_def split: if_splits\<close>)
qed

lemma BeginNextPublication_inv:
  assumes "ledger_inv L"
  shows "ledger_inv (snd (BeginNextPublication t L))"
  by (rule BeginNextPublication_result [of t L])
    (use assms published_from_inv in auto)

text \<open>Confirming and aborting change only the state of the entry in publication.\<close>

lemma ConfirmPublished_result:
  assumes "fst (ConfirmPublished t c L) = Inr u"
  obtains pre e post where "actor_thread L = Some t" "entries L = pre @ e # post"
    "correlation e = c" "state e = Publishing" "open_outbound_sequence L = outbound_sequence e"
    "snd (ConfirmPublished t c L) = L\<lparr>open_outbound_sequence := 0,
       entries := pre @ e\<lparr>state := AwaitingAcknowledgement\<rparr> # post\<rparr>"
proof -
  from assms obtain e where e: "Find (terminal_id c) L = Some e" "correlation e = c"
      "state e = Publishing" "open_outbound_sequence L = outbound_sequence e"
    and actor: "actor_thread L = Some t"
    by (auto simp: ConfirmPublished_def ConfirmOutboundSequence_def split: step_splits)
  from e(1) obtain pre post where "entries L = pre @ e # post"
    "\<And>f. update_first (\<lambda>x. terminal_id (correlation x) = terminal_id c) f (entries L)
      = pre @ f e # post" by (rule Find_split) blast
  with e actor assms that show ?thesis
    by (simp add: ConfirmPublished_def ConfirmOutboundSequence_def update_entry_def
        split: if_splits)
qed

lemma AbortPublication_result:
  assumes "fst (AbortPublication t c L) = Inr u"
  obtains pre e post where "actor_thread L = Some t" "entries L = pre @ e # post"
    "correlation e = c" "state e = Publishing"
    "snd (AbortPublication t c L) = L\<lparr>entries := pre @ e\<lparr>state := Ready\<rparr> # post\<rparr>"
proof -
  from assms obtain e where e: "Find (terminal_id c) L = Some e" "correlation e = c"
      "state e = Publishing" and actor: "actor_thread L = Some t"
    by (auto simp: AbortPublication_def split: step_splits)
  from e(1) obtain pre post where "entries L = pre @ e # post"
    "\<And>f. update_first (\<lambda>x. terminal_id (correlation x) = terminal_id c) f (entries L)
      = pre @ f e # post" by (rule Find_split) blast
  with e actor that show ?thesis
    by (auto simp: AbortPublication_def update_entry_def)
qed

lemma AcknowledgeTerminal_result:
  assumes "fst (AcknowledgeTerminal t c L) = Inr u"
  obtains (retained) pre e post where "actor_thread L = Some t" "CompleteCorrelation c"
      "entries L = pre @ e # post" "correlation e = c" "state e = AwaitingAcknowledgement"
      "snd (AcknowledgeTerminal t c L) = L\<lparr>
         total_retained_bytes := total_retained_bytes L - retained_bytes e,
         acknowledged_tombstones := trim_tombstones (max 1 (unat (maximum_terminals L)))
           (acknowledged_tombstones L @ [c]),
         entries := pre @ post\<rparr>"
  | (tombstone) "actor_thread L = Some t" "c \<in> set (acknowledged_tombstones L)"
      "snd (AcknowledgeTerminal t c L) = L"
proof (cases "Find (terminal_id c) L")
  case None
  with assms tombstone show ?thesis
    by (auto simp: AcknowledgeTerminal_def split: step_splits dest: find_SomeD)
next
  case (Some e)
  with assms have e: "correlation e = c" "state e = AwaitingAcknowledgement"
    and actor: "actor_thread L = Some t" "CompleteCorrelation c"
    by (auto simp: AcknowledgeTerminal_def split: step_splits)
  from Some obtain pre post where "entries L = pre @ e # post"
    "remove_first (\<lambda>x. terminal_id (correlation x) = terminal_id c) (entries L) = pre @ post"
    by (rule Find_split) blast
  with e actor Some retained show ?thesis
    by (auto simp: AcknowledgeTerminal_def)
qed

lemma failed_op_unchanged:
  "fst (ConfirmPublished t c L) = Inl e \<Longrightarrow> snd (ConfirmPublished t c L) = L"
  "fst (AbortPublication t c L) = Inl e \<Longrightarrow> snd (AbortPublication t c L) = L"
  "fst (AcknowledgeTerminal t c L) = Inl e \<Longrightarrow> snd (AcknowledgeTerminal t c L) = L"
  by (auto simp: ConfirmPublished_def AbortPublication_def AcknowledgeTerminal_def
      ConfirmOutboundSequence_def split: step_splits)

lemma ConfirmPublished_inv:
  assumes inv: "ledger_inv L"
  shows "ledger_inv (snd (ConfirmPublished t c L))"
proof (cases "fst (ConfirmPublished t c L)")
  case (Inl e)
  with inv show ?thesis by (simp add: failed_op_unchanged)
next
  case (Inr u)
  then obtain pre e post where e: "entries L = pre @ e # post" "state e = Publishing"
    and result: "snd (ConfirmPublished t c L) = L\<lparr>open_outbound_sequence := 0,
       entries := pre @ e\<lparr>state := AwaitingAcknowledgement\<rparr> # post\<rparr>"
    by (rule ConfirmPublished_result) blast
  show ?thesis
    unfolding result
    by (rule ledger_inv_replace [OF inv e(1), where e' = "e\<lparr>state := AwaitingAcknowledgement\<rparr>"])
      (use inv e in \<open>auto simp: ledger_inv_def entry_wf_def sorted_wrt_append publish_order_def
        word_gt_0\<close>)
qed

lemma AbortPublication_inv:
  assumes inv: "ledger_inv L"
  shows "ledger_inv (snd (AbortPublication t c L))"
proof (cases "fst (AbortPublication t c L)")
  case (Inl e)
  with inv show ?thesis by (simp add: failed_op_unchanged)
next
  case (Inr u)
  then obtain pre e post where e: "entries L = pre @ e # post" "state e = Publishing"
    and result: "snd (AbortPublication t c L) = L\<lparr>entries := pre @ e\<lparr>state := Ready\<rparr> # post\<rparr>"
    by (rule AbortPublication_result) blast
  show ?thesis
    unfolding result
    by (rule ledger_inv_replace [OF inv e(1), where e' = "e\<lparr>state := Ready\<rparr>"])
      (use inv e in \<open>auto simp: ledger_inv_def entry_wf_def sorted_wrt_append publish_order_def\<close>)
qed

lemma AcknowledgeTerminal_inv:
  assumes inv: "ledger_inv L"
  shows "ledger_inv (snd (AcknowledgeTerminal t c L))"
proof (cases "fst (AcknowledgeTerminal t c L)")
  case (Inl e)
  with inv show ?thesis by (simp add: failed_op_unchanged)
next
  case (Inr u)
  then show ?thesis
  proof (cases rule: AcknowledgeTerminal_result)
    case (retained pre e post)
    let ?ts = "trim_tombstones (max 1 (unat (maximum_terminals L)))
      (acknowledged_tombstones L @ [c])"
    have ts: "length ?ts \<le> max 1 (unat (maximum_terminals L))"
      "set ?ts \<subseteq> insert c (set (acknowledged_tombstones L))"
      by (auto simp: trim_tombstones_def dest: in_set_dropD)
    have "unat (total_retained_bytes L) = bytes_of pre + unat (retained_bytes e) + bytes_of post"
      using inv retained by (simp add: ledger_inv_def)
    then have bytes: "unat (total_retained_bytes L - retained_bytes e) = bytes_of (pre @ post)"
        "total_retained_bytes L - retained_bytes e \<le> total_retained_bytes L"
      by (simp_all add: unat_sub word_le_nat_alt)
    have distinct: "\<forall>x \<in> set (pre @ post). terminal_id c \<noteq> terminal_id (correlation x)"
      using inv retained by (auto simp: ledger_inv_def sorted_wrt_append publish_order_def)
    have order: "sorted_wrt publish_order (pre @ post)"
      using inv retained by (auto simp: ledger_inv_def sorted_wrt_append)
    have bound: "total_retained_bytes L - retained_bytes e \<le> maximum_bytes L"
      using inv bytes(2) by (auto simp: ledger_inv_def)
    show ?thesis
      unfolding retained(6) ledger_inv_def
      by (intro conjI; use inv retained(3,4) ts bytes(1) distinct order bound in
          \<open>simp add: ledger_inv_def; fast?\<close>)
  qed (use inv in simp)
qed

theorem ledger_step_inv: "ledger_inv L \<Longrightarrow> ledger_inv (ledger_step x L)"
  by (cases x; rename_tac t oper; case_tac oper)
    (simp_all add: BindActorThread_inv ReserveTerminal_inv CompleteTerminal_inv
      ReserveOutboundSequence_inv ConfirmOutboundSequence_inv AbandonOutboundSequence_inv
      BeginNextPublication_inv ConfirmPublished_inv AbortPublication_inv AcknowledgeTerminal_inv)

interpretation completion: invariant_machine ledger_step ledger_inv
  by unfold_locales (rule ledger_step_inv)


section \<open>Properties\<close>

lemma ledger_step_limits:
  "maximum_terminals (ledger_step x L) = maximum_terminals L \<and>
   maximum_bytes (ledger_step x L) = maximum_bytes L"
proof (cases x)
  case (Pair t oper)
  show ?thesis
  proof (cases oper)
    case Op_BeginNextPublication
    with Pair show ?thesis
      by (auto simp: published_from_def split: if_splits
          intro: BeginNextPublication_result [of t L])
  qed (simp_all add: Pair BindActorThread_def ReserveTerminal_def CompleteTerminal_def Let_def
      ReserveOutboundSequence_def ReserveOutboundSequenceUnchecked_def ConfirmOutboundSequence_def
      AbandonOutboundSequence_def ConfirmPublished_def AbortPublication_def
      AcknowledgeTerminal_def update_entry_def split: step_splits)
qed

lemma ledger_reachable_inv:
  assumes "reachable_from ledger_step (new_ledger n b) L"
  shows "ledger_inv L" "maximum_terminals L = ucast n" "maximum_bytes L = b"
proof -
  show "ledger_inv L"
    using assms by (rule completion.reachable_inv) (rule new_ledger_inv)
  show "maximum_terminals L = ucast n" "maximum_bytes L = b"
    using assms by (induction rule: reachable_from.induct)
      (simp_all add: ledger_step_limits new_ledger_def)
qed

lemma sorted_wrt_index:
  "sorted_wrt P xs \<Longrightarrow> i < j \<Longrightarrow> j < length xs \<Longrightarrow> P (xs ! i) (xs ! j)"
  by (simp add: sorted_wrt_iff_nth_less)

lemma entry_wf_nth: "ledger_inv L \<Longrightarrow> i < length (entries L) \<Longrightarrow> entry_wf (entries L ! i)"
  by (simp add: ledger_inv_def)

text \<open>
  C1. Whatever sequence of operations, by whatever threads, a fresh ledger goes through, it
  retains at most the configured number of terminals, its byte counter is exactly the sum of
  the retained sizes (the 64-bit additions and subtractions never wrap) and stays within the
  configured bound, and the acknowledged tombstones stay bounded. Identities are fresh: the
  retained terminals have different identities, which no tombstone has, and a reservation
  that succeeds gives its terminal an identity and an order greater than those of every
  terminal retained, and an identity greater than that of every tombstone.
\<close>

theorem completion_ledger_bounds:
  assumes "reachable_from ledger_step (new_ledger n b) L"
  shows "length (entries L) \<le> unat n \<and>
    unat (total_retained_bytes L) = (\<Sum>e \<leftarrow> entries L. unat (retained_bytes e)) \<and>
    total_retained_bytes L \<le> b \<and>
    length (acknowledged_tombstones L) \<le> max 1 (unat n) \<and>
    distinct (map (\<lambda>e. terminal_id (correlation e)) (entries L)) \<and>
    (\<forall>e \<in> set (entries L). \<forall>c \<in> set (acknowledged_tombstones L).
      terminal_id (correlation e) \<noteq> terminal_id c) \<and>
    (\<forall>t c k c' L'. ReserveTerminal t c k L = (Inr c', L') \<longrightarrow>
      (\<forall>e \<in> set (entries L). terminal_id (correlation e) < terminal_id c' \<and>
        terminal_order (correlation e) < terminal_order c') \<and>
      (\<forall>x \<in> set (acknowledged_tombstones L). terminal_id x < terminal_id c'))"
proof -
  note inv = ledger_reachable_inv [OF assms]
  have "sorted_wrt (\<lambda>a b. terminal_id (correlation a) < terminal_id (correlation b)) (entries L)"
    using inv(1) by (auto simp: ledger_inv_def publish_order_def intro: sorted_wrt_mono_rel [rotated])
  then have "distinct (map (\<lambda>e. terminal_id (correlation e)) (entries L))"
    by (simp add: strict_sorted_iff [THEN iffD1, THEN conjunct2] sorted_wrt_map)
  moreover have "(\<forall>e \<in> set (entries L). terminal_id (correlation e) < terminal_id c' \<and>
        terminal_order (correlation e) < terminal_order c') \<and>
      (\<forall>x \<in> set (acknowledged_tombstones L). terminal_id x < terminal_id c')"
    if "ReserveTerminal t c k L = (Inr c', L')" for t c k c' L'
  proof -
    have "next_terminal_id L \<noteq> 0 \<and> c' = c\<lparr>terminal_id := next_terminal_id L,
        terminal_order := next_terminal_order L\<rparr>"
      using that by (auto simp: ReserveTerminal_def Let_def split: step_splits)
    then show ?thesis using inv(1) by (auto simp: ledger_inv_def entry_wf_def)
  qed
  moreover have "\<forall>e \<in> set (entries L). \<forall>c \<in> set (acknowledged_tombstones L).
      terminal_id (correlation e) \<noteq> terminal_id c"
    using inv(1) unfolding ledger_inv_def by metis
  moreover have "length (entries L) \<le> unat n \<and>
      unat (total_retained_bytes L) = (\<Sum>e \<leftarrow> entries L. unat (retained_bytes e)) \<and>
      total_retained_bytes L \<le> b \<and> length (acknowledged_tombstones L) \<le> max 1 (unat n)"
    using inv by (simp add: ledger_inv_def bytes_of_def unat_ucast_up)
  ultimately show ?thesis by blast
qed

definition sample_item :: WorkerItemTerminalCorrelation where
  "sample_item = \<lparr>workset_id = 7, item_id = 3, item_ordinal = 0, invocation_id = 5,
     attempt_id = 1, terminal_id = 0, terminal_order = 0\<rparr>"

definition sample_ledger :: WorkerCompletionLedger where
  "sample_ledger = fold ledger_step [(1, Op_BindActorThread),
     (1, Op_ReserveTerminal sample_item 10),
     (1, Op_ReserveTerminal (sample_item\<lparr>item_id := 4\<rparr>) 10),
     (1, Op_CompleteTerminal (sample_item\<lparr>terminal_id := 1, terminal_order := 1\<rparr>) [1, 2, 3])]
     (new_ledger 4 100)"

lemma sample_ledger_reachable: "reachable_from ledger_step (new_ledger 4 100) sample_ledger"
  unfolding sample_ledger_def by (rule reachable_fold)

lemma sample_ledger_eq: "sample_ledger = \<lparr>actor_thread = Some 1, maximum_terminals = 4,
  maximum_bytes = 100, total_retained_bytes = 13, next_terminal_id = 3, next_terminal_order = 3,
  next_outbound_sequence = 1, open_outbound_sequence = 0,
  entries = [
    \<lparr>correlation = sample_item\<lparr>terminal_id := 1, terminal_order := 1\<rparr>, state = Ready,
     retained_bytes = 3, outbound_sequence = 0, payload = Some [1, 2, 3]\<rparr>,
    \<lparr>correlation = sample_item\<lparr>item_id := 4, terminal_id := 2, terminal_order := 2\<rparr>,
     state = PendingFinalization, retained_bytes = 10, outbound_sequence = 0, payload = None\<rparr>],
  acknowledged_tombstones = []\<rparr>"
  by (simp add: sample_ledger_def sample_item_def new_ledger_def BindActorThread_def
      ReserveTerminal_def CompleteTerminal_def RequireActorThread_def OnActorThread_def
      HasDuplicateItem_def SameItem_def CompleteCorrelation_def Find_def update_entry_def Let_def)

theorem completion_ledger_bounds_witness:
  "length (entries sample_ledger) \<le> 4 \<and> total_retained_bytes sample_ledger \<le> 100 \<and>
    length (entries sample_ledger) = 2"
  using completion_ledger_bounds [OF sample_ledger_reachable] by (simp add: sample_ledger_eq)


text \<open>
  C2. Ordered publication: when \<open>BeginNextPublication\<close> hands out a terminal, that terminal is
  retained, ready and not under publication (no terminal is), and its payload is the one
  published; every terminal retained with a smaller terminal order has already been published
  and waits for its acknowledgement under a smaller outbound sequence, and no terminal with a
  larger order has an outbound sequence yet. The sequence is the one the terminal kept from an
  aborted attempt, still open, or else the next one. Afterwards the terminal, and only it, is
  marked as under publication, under that sequence.
\<close>

theorem publication_in_terminal_order:
  assumes reach: "reachable_from ledger_step (new_ledger n b) L"
    and pub: "fst (BeginNextPublication t L) = Inr (Some p)"
  shows "\<exists>pre e post. entries L = pre @ e # post \<and> correlation e = pub_correlation p \<and>
    state e = Ready \<and> payload e = Some (pub_payload p) \<and> pub_outbound_sequence p \<noteq> 0 \<and>
    (\<forall>a \<in> set (entries L). state a \<noteq> Publishing) \<and>
    (\<forall>a \<in> set pre. state a = AwaitingAcknowledgement \<and>
       terminal_order (correlation a) < terminal_order (correlation e) \<and>
       outbound_sequence a < pub_outbound_sequence p) \<and>
    (\<forall>a \<in> set post. terminal_order (correlation e) < terminal_order (correlation a) \<and>
       outbound_sequence a = 0) \<and>
    (if outbound_sequence e = 0
     then open_outbound_sequence L = 0 \<and> pub_outbound_sequence p = next_outbound_sequence L
     else open_outbound_sequence L = outbound_sequence e \<and> pub_outbound_sequence p = outbound_sequence e) \<and>
    entries (snd (BeginNextPublication t L)) =
      pre @ e\<lparr>outbound_sequence := pub_outbound_sequence p, state := Publishing\<rparr> # post \<and>
    open_outbound_sequence (snd (BeginNextPublication t L)) = pub_outbound_sequence p"
  using BeginNextPublication_result [of t L]
proof cases
  case none
  with pub show ?thesis by simp
next
  case (some pre e post p')
  note inv = ledger_reachable_inv(1) [OF reach]
  from some pub have p: "published_from L pre e post p (snd (BeginNextPublication t L))" by simp
  then have split: "entries L = pre @ e # post" by (simp add: published_from_def)
  have wf: "terminal_order (correlation x) = terminal_id (correlation x)"
    "state x = Publishing \<Longrightarrow> outbound_sequence x \<noteq> 0" if "x \<in> set pre \<union> {e} \<union> set post" for x
    using inv split that by (auto simp: ledger_inv_def entry_wf_def)
  have order: "\<forall>a \<in> set pre. publish_order a e" "\<forall>a \<in> set post. publish_order e a"
    using inv split by (auto simp: ledger_inv_def sorted_wrt_append)
  have next_out: "\<forall>a \<in> set pre. next_outbound_sequence L \<noteq> 0 \<longrightarrow>
      outbound_sequence a < next_outbound_sequence L"
    using inv split by (simp add: ledger_inv_def)
  have e: "state e = Ready" "correlation e = pub_correlation p" "payload e = Some (pub_payload p)"
      "\<forall>a \<in> set pre. state a = AwaitingAcknowledgement"
      "pub_outbound_sequence p = (if outbound_sequence e = 0 then next_outbound_sequence L
        else outbound_sequence e)" "pub_outbound_sequence p \<noteq> 0"
      "if outbound_sequence e = 0
       then open_outbound_sequence L = 0 \<and> pub_outbound_sequence p = next_outbound_sequence L
       else open_outbound_sequence L = outbound_sequence e \<and> pub_outbound_sequence p = outbound_sequence e"
    and after: "entries (snd (BeginNextPublication t L)) =
        pre @ e\<lparr>outbound_sequence := pub_outbound_sequence p, state := Publishing\<rparr> # post"
      "open_outbound_sequence (snd (BeginNextPublication t L)) = pub_outbound_sequence p"
    using p by (simp_all add: published_from_def split: if_splits)
  have "\<forall>a \<in> set pre. outbound_sequence a < pub_outbound_sequence p"
    using order(1) next_out e(5,6) by (simp add: publish_order_def split: if_splits)
  moreover have fresh: "\<forall>a \<in> set post. outbound_sequence a = 0"
    using order(2) e(1) by (auto simp: publish_order_def)
  moreover have "\<forall>a \<in> set (entries L). state a \<noteq> Publishing"
    using e(1,4) fresh wf(2) by (auto simp: split)
  moreover have "\<forall>a \<in> set pre. terminal_order (correlation a) < terminal_order (correlation e)"
    "\<forall>a \<in> set post. terminal_order (correlation e) < terminal_order (correlation a)"
    using order wf(1) by (simp_all add: publish_order_def)
  ultimately show ?thesis
    using split e(1-4) e(6,7) after by blast
qed

theorem publication_in_terminal_order_witness:
  "\<exists>pre e post. entries sample_ledger = pre @ e # post \<and>
     (\<forall>a \<in> set post. outbound_sequence a = 0) \<and> payload e = Some [1, 2, 3]"
proof -
  have "fst (BeginNextPublication 1 sample_ledger) = Inr (Some
      \<lparr>pub_correlation = sample_item\<lparr>terminal_id := 1, terminal_order := 1\<rparr>,
       pub_outbound_sequence = 1, pub_payload = [1, 2, 3]\<rparr>)"
    by (simp add: sample_ledger_eq BeginNextPublication_def RequireActorThread_def
        OnActorThread_def ReserveOutboundSequenceUnchecked_def)
  from publication_in_terminal_order [OF sample_ledger_reachable this] show ?thesis by force
qed

text \<open>
  C3. Outbound order is terminal order: in every reachable ledger, of two retained terminals
  the one reserved later has the larger terminal identity and order, and it holds an outbound
  sequence only if the earlier one was published under a smaller one.
\<close>

theorem outbound_order_is_terminal_order:
  assumes reach: "reachable_from ledger_step (new_ledger n b) L"
    and ij: "i < j" "j < length (entries L)"
  shows "terminal_order (correlation (entries L ! i)) < terminal_order (correlation (entries L ! j)) \<and>
    terminal_id (correlation (entries L ! i)) < terminal_id (correlation (entries L ! j)) \<and>
    \<not> SameItem (correlation (entries L ! i)) (correlation (entries L ! j)) \<and>
    (outbound_sequence (entries L ! j) \<noteq> 0 \<longrightarrow>
      state (entries L ! i) = AwaitingAcknowledgement \<and> 0 < outbound_sequence (entries L ! i) \<and>
      outbound_sequence (entries L ! i) < outbound_sequence (entries L ! j))"
proof -
  note inv = ledger_reachable_inv(1) [OF reach]
  then have "publish_order (entries L ! i) (entries L ! j)"
    using ij by (intro sorted_wrt_index) (simp_all add: ledger_inv_def)
  moreover have "entry_wf (entries L ! i)" "entry_wf (entries L ! j)"
    using inv ij by (simp_all add: entry_wf_nth)
  ultimately show ?thesis
    by (auto simp: publish_order_def entry_wf_def word_gt_0)
qed

theorem outbound_order_is_terminal_order_witness:
  "terminal_order (correlation (entries sample_ledger ! 0)) <
    terminal_order (correlation (entries sample_ledger ! 1))"
  using outbound_order_is_terminal_order [OF sample_ledger_reachable, of 0 1]
  by (simp add: sample_ledger_eq)

text \<open>
  A transport failure is retried without a second logical event: after a publication is
  aborted, the next \<open>BeginNextPublication\<close> hands out the same correlation, outbound sequence
  and payload again and restores the very state the first attempt left.
\<close>

theorem aborted_publication_retries:
  assumes reach: "reachable_from ledger_step (new_ledger n b) L"
    and pub: "BeginNextPublication t L = (Inr (Some p), L1)"
  shows "\<exists>L2. AbortPublication t (pub_correlation p) L1 = (Inr (), L2) \<and>
    BeginNextPublication t L2 = (Inr (Some p), L1)"
proof -
  from pub obtain pre e post where actor: "actor_thread L = Some t"
    and p: "published_from L pre e post p L1"
    by (metis BeginNextPublication_result fst_conv snd_conv sum.inject(2) option.inject)
  define e1 where "e1 = e\<lparr>outbound_sequence := pub_outbound_sequence p, state := Publishing\<rparr>"
  have L1: "entries L1 = pre @ e1 # post" "actor_thread L1 = Some t"
      "open_outbound_sequence L1 = pub_outbound_sequence p"
    and e1: "correlation e1 = pub_correlation p" "pub_outbound_sequence p \<noteq> 0"
      "payload e = Some (pub_payload p)" "pub_correlation p = correlation e"
    and pre: "\<forall>a \<in> set pre. state a = AwaitingAcknowledgement"
    using p actor by (auto simp: published_from_def e1_def split: if_splits)
  have "ledger_inv L1"
    using ledger_reachable_inv(1) [OF reach] p by (rule published_from_inv)
  then have order: "sorted_wrt publish_order (entries L1)" by (simp add: ledger_inv_def)
  let ?L2 = "L1\<lparr>entries := pre @ e1\<lparr>state := Ready\<rparr> # post\<rparr>"
  have "AbortPublication t (pub_correlation p) L1 = (Inr (), ?L2)"
    using Find_at [OF order L1(1), of "terminal_id (pub_correlation p)"] L1 e1
    by (simp add: AbortPublication_def e1_def)
  moreover have "BeginNextPublication t ?L2 = (Inr (Some p), L1)"
    using L1 e1 pre by (simp add: BeginNextPublication_def publication_loop_skip e1_def)
  ultimately show ?thesis by blast
qed


theorem aborted_publication_retries_witness:
  "\<exists>p L1 L2. pub_payload p = [1, 2, 3] \<and> AbortPublication 1 (pub_correlation p) L1 = (Inr (), L2)
    \<and> BeginNextPublication 1 L2 = (Inr (Some p), L1)"
proof -
  let ?p = "\<lparr>pub_correlation = sample_item\<lparr>terminal_id := 1, terminal_order := 1\<rparr>,
       pub_outbound_sequence = 1, pub_payload = [1, 2, 3]\<rparr>"
  have "BeginNextPublication 1 sample_ledger
      = (Inr (Some ?p), snd (BeginNextPublication 1 sample_ledger))"
    by (simp add: sample_ledger_eq BeginNextPublication_def RequireActorThread_def
        OnActorThread_def ReserveOutboundSequenceUnchecked_def)
  from aborted_publication_retries [OF sample_ledger_reachable this]
  show ?thesis by (intro exI [of _ ?p]) auto
qed

lemma ReserveTerminal_result:
  assumes "ReserveTerminal t c n L = (Inr c', L')"
  shows "actor_thread L = Some t" "c' = c\<lparr>terminal_id := next_terminal_id L,
      terminal_order := next_terminal_order L\<rparr>" "CompleteCorrelation c'"
    and "L' = L\<lparr>next_terminal_id := next_terminal_id L + 1,
       next_terminal_order := next_terminal_order L + 1,
       entries := entries L @ [\<lparr>correlation = c', state = PendingFinalization,
         retained_bytes = n, outbound_sequence = 0, payload = None\<rparr>],
       total_retained_bytes := total_retained_bytes L + n\<rparr>"
  using assms
  by (auto simp: ReserveTerminal_def CompleteCorrelation_def Let_def split: step_splits)

text \<open>
  The whole life of a terminal: a reservation that succeeds while everything retained
  before it is already published and no outbound sequence is open can be finalized with any
  payload within its reserved size, is published next with exactly that payload under the next
  outbound sequence, confirmed and acknowledged; the retained entries and the byte counter are
  then what they were before, and the acknowledgement is remembered.
\<close>

theorem terminal_lifecycle:
  assumes reach: "reachable_from ledger_step (new_ledger m b) L"
    and reserved: "ReserveTerminal t c n L = (Inr c', L1)"
    and published: "\<forall>e \<in> set (entries L). state e = AwaitingAcknowledgement"
    and outbound: "open_outbound_sequence L = 0" "next_outbound_sequence L \<noteq> 0"
    and size: "length bytes \<le> unat n"
  shows "\<exists>L2 L3 L4 L5.
    CompleteTerminal t c' bytes L1 = (Inr (), L2) \<and>
    BeginNextPublication t L2 = (Inr (Some \<lparr>pub_correlation = c',
      pub_outbound_sequence = next_outbound_sequence L, pub_payload = bytes\<rparr>), L3) \<and>
    ConfirmPublished t c' L3 = (Inr (), L4) \<and>
    AcknowledgeTerminal t c' L4 = (Inr (), L5) \<and>
    entries L5 = entries L \<and> total_retained_bytes L5 = total_retained_bytes L \<and>
    open_outbound_sequence L5 = 0 \<and> c' \<in> set (acknowledged_tombstones L5)"
proof -
  note r = ReserveTerminal_result [OF reserved]
  define e where "e st q p k = \<lparr>correlation = c', state = st, retained_bytes = k,
    outbound_sequence = q, payload = p\<rparr>" for st q p k
  have inv1: "ledger_inv L1"
    using ReserveTerminal_inv [OF ledger_reachable_inv(1) [OF reach], of t c n] reserved by simp
  have "sorted_wrt publish_order (entries L1)" using inv1 by (simp add: ledger_inv_def)
  then have less: "\<forall>a \<in> set (entries L). terminal_id (correlation a) \<noteq> terminal_id c'"
    by (auto simp: r(4) sorted_wrt_append publish_order_def)
  have at: "List.find (\<lambda>a. terminal_id (correlation a) = terminal_id c')
        (entries L @ [e st q p k]) = Some (e st q p k)"
      "update_first (\<lambda>a. terminal_id (correlation a) = terminal_id c') f
        (entries L @ [e st q p k]) = entries L @ [f (e st q p k)]"
      "remove_first (\<lambda>a. terminal_id (correlation a) = terminal_id c')
        (entries L @ [e st q p k]) = entries L" for st q p k f
    using find_at [where pre = "entries L" and x = "e st q p k" and post = "[]"
        and P = "\<lambda>a. terminal_id (correlation a) = terminal_id c'"]
      less by (simp_all add: e_def)
  let ?k = "of_nat (length bytes) :: u64"
  have "?k \<le> n" using size by (simp add: of_nat_le_word)
  define L2 where "L2 = L1\<lparr>total_retained_bytes := total_retained_bytes L1 - (n - ?k),
    entries := entries L @ [e Ready 0 (Some bytes) ?k]\<rparr>"
  define L3 where "L3 = L2\<lparr>open_outbound_sequence := next_outbound_sequence L,
    next_outbound_sequence := next_outbound_sequence L + 1,
    entries := entries L @ [e Publishing (next_outbound_sequence L) (Some bytes) ?k]\<rparr>"
  define L4 where "L4 = L3\<lparr>open_outbound_sequence := 0,
    entries := entries L @ [e AwaitingAcknowledgement (next_outbound_sequence L) (Some bytes) ?k]\<rparr>"
  define L5 where "L5 = L4\<lparr>total_retained_bytes := total_retained_bytes L4 - ?k,
    acknowledged_tombstones := trim_tombstones (max 1 (unat (maximum_terminals L)))
      (acknowledged_tombstones L @ [c']), entries := entries L\<rparr>"
  have L1: "entries L1 = entries L @ [e PendingFinalization 0 None n]" "actor_thread L1 = Some t"
    by (simp_all add: r e_def)
  have 2: "CompleteTerminal t c' bytes L1 = (Inr (), L2)"
    using r(3) L1 at \<open>?k \<le> n\<close> [folded linorder_not_less]
    by (simp add: CompleteTerminal_def Find_def update_entry_def L2_def e_def Let_def)
  have 3: "BeginNextPublication t L2 = (Inr (Some \<lparr>pub_correlation = c',
      pub_outbound_sequence = next_outbound_sequence L, pub_payload = bytes\<rparr>), L3)"
    using r(1) published outbound
    by (simp add: BeginNextPublication_def publication_loop_skip L2_def L3_def e_def r(4)
        ReserveOutboundSequenceUnchecked_def)
  have 4: "ConfirmPublished t c' L3 = (Inr (), L4)"
    using r(1) outbound at
    by (simp add: ConfirmPublished_def ConfirmOutboundSequence_def Find_def update_entry_def
        L3_def L4_def L2_def e_def r(4))
  have 5: "AcknowledgeTerminal t c' L4 = (Inr (), L5)"
    using r(1,3) at
    by (simp add: AcknowledgeTerminal_def Find_def L5_def L4_def L3_def L2_def e_def r(4))
  have "total_retained_bytes L5 = total_retained_bytes L"
    by (simp add: L5_def L4_def L3_def L2_def r(4))
  moreover have "c' \<in> set (acknowledged_tombstones L5)"
    by (simp add: L5_def trim_tombstones_def)
  ultimately show ?thesis
    using 2 3 4 5 by (intro exI [of _ L2] exI [of _ L3] exI [of _ L4] exI [of _ L5])
      (simp add: L5_def L4_def)
qed

lemma bound_ledger_reachable:
  "reachable_from ledger_step (new_ledger 4 100) (ledger_step (1, Op_BindActorThread) (new_ledger 4 100))"
  by (intro reachable_from.intros)

theorem terminal_lifecycle_witness:
  "\<exists>L1 L2 L3 L4 L5 c'. CompleteTerminal 1 c' [9, 9] L1 = (Inr (), L2) \<and>
    BeginNextPublication 1 L2 = (Inr (Some \<lparr>pub_correlation = c', pub_outbound_sequence = 1,
      pub_payload = [9, 9]\<rparr>), L3) \<and>
    AcknowledgeTerminal 1 c' L4 = (Inr (), L5) \<and> entries L5 = []"
proof -
  let ?L = "ledger_step (1, Op_BindActorThread) (new_ledger 4 100)"
  have "ReserveTerminal 1 sample_item 10 ?L
      = (Inr (sample_item\<lparr>terminal_id := 1, terminal_order := 1\<rparr>),
         snd (ReserveTerminal 1 sample_item 10 ?L))"
    by (simp add: new_ledger_def BindActorThread_def ReserveTerminal_def RequireActorThread_def
        OnActorThread_def HasDuplicateItem_def sample_item_def Let_def)
  from terminal_lifecycle [OF bound_ledger_reachable this, of "[9, 9]"] show ?thesis
    by (simp add: new_ledger_def BindActorThread_def) blast
qed

text \<open>
  C4. Acknowledgement is exact and idempotent: it succeeds only for the complete correlation of
  a terminal that has been published and not yet acknowledged (whose bytes it then returns), or
  for one acknowledged before (and then changes nothing), and repeating a successful
  acknowledgement succeeds without any effect.
\<close>

theorem acknowledgement_exact_and_idempotent:
  assumes reach: "reachable_from ledger_step (new_ledger n b) L"
    and ack: "AcknowledgeTerminal t c L = (Inr (), L')"
  shows "((\<exists>e \<in> set (entries L). correlation e = c \<and> state e = AwaitingAcknowledgement \<and>
        unat (total_retained_bytes L) = unat (total_retained_bytes L') + unat (retained_bytes e) \<and>
        (\<forall>x \<in> set (entries L'). terminal_id (correlation x) \<noteq> terminal_id c)) \<or>
      c \<in> set (acknowledged_tombstones L) \<and> L' = L) \<and>
    AcknowledgeTerminal t c L' = (Inr (), L')"
proof -
  note inv = ledger_reachable_inv(1) [OF reach]
  from ack have ok: "fst (AcknowledgeTerminal t c L) = Inr ()" by simp
  then show ?thesis
  proof (cases rule: AcknowledgeTerminal_result)
    case (retained pre e post)
    let ?m = "max 1 (unat (maximum_terminals L))"
    let ?ts = "acknowledged_tombstones L"
    from retained(6) ack have L': "L' = L\<lparr>
         total_retained_bytes := total_retained_bytes L - retained_bytes e,
         acknowledged_tombstones := trim_tombstones ?m (?ts @ [c]), entries := pre @ post\<rparr>"
      by simp
    have others: "terminal_id (correlation x) \<noteq> terminal_id c" if "x \<in> set (pre @ post)" for x
      using inv retained(3,4) that by (auto simp: ledger_inv_def sorted_wrt_append publish_order_def)
    have ts: "terminal_id x \<noteq> terminal_id c" if "x \<in> set ?ts" for x
      using inv retained(3,4) that by (auto simp: ledger_inv_def)
    have "trim_tombstones ?m (?ts @ [c]) = drop (Suc (length ?ts) - ?m) ?ts @ [c]"
      by (simp add: trim_tombstones_def)
    then have "List.find (\<lambda>x. terminal_id x = terminal_id c) (trim_tombstones ?m (?ts @ [c])) = Some c"
      using ts find_at(1) [of "drop (Suc (length ?ts) - ?m) ?ts" "\<lambda>x. terminal_id x = terminal_id c" c "[]"]
      by (auto dest: in_set_dropD)
    moreover have "Find (terminal_id c) L' = None"
      using others by (auto simp: Find_def L' find_None_iff)
    ultimately have again: "AcknowledgeTerminal t c L' = (Inr (), L')"
      using retained(1,2) by (simp add: AcknowledgeTerminal_def L')
    have "unat (total_retained_bytes L) = bytes_of pre + unat (retained_bytes e) + bytes_of post"
      using inv retained(3) by (simp add: ledger_inv_def)
    then have "unat (total_retained_bytes L) = unat (total_retained_bytes L') + unat (retained_bytes e)"
      by (simp add: L' unat_sub word_le_nat_alt)
    with again retained(3-5) others show ?thesis by (auto simp: L')
  qed (use ack in auto)
qed

definition published_sample :: WorkerCompletionLedger where
  "published_sample = fold ledger_step [(1, Op_BeginNextPublication),
     (1, Op_ConfirmPublished (sample_item\<lparr>terminal_id := 1, terminal_order := 1\<rparr>))] sample_ledger"

lemma published_sample_reachable: "reachable_from ledger_step (new_ledger 4 100) published_sample"
  unfolding published_sample_def fold_simps id_apply
  by (intro reachable_from.step sample_ledger_reachable)

theorem acknowledgement_exact_and_idempotent_witness:
  "\<exists>c L'. c = sample_item\<lparr>terminal_id := 1, terminal_order := 1\<rparr> \<and>
    AcknowledgeTerminal 1 c published_sample = (Inr (), L') \<and>
    AcknowledgeTerminal 1 c L' = (Inr (), L')"
proof -
  let ?c = "sample_item\<lparr>terminal_id := 1, terminal_order := 1\<rparr>"
  have "AcknowledgeTerminal 1 ?c published_sample
      = (Inr (), snd (AcknowledgeTerminal 1 ?c published_sample))"
    by (simp add: published_sample_def sample_ledger_eq sample_item_def BeginNextPublication_def
        RequireActorThread_def OnActorThread_def ReserveOutboundSequenceUnchecked_def
        ConfirmPublished_def ConfirmOutboundSequence_def Find_def update_entry_def
        AcknowledgeTerminal_def CompleteCorrelation_def)
  from acknowledgement_exact_and_idempotent [OF published_sample_reachable this] this
  show ?thesis by blast
qed

end
