(* ===== verification/ResourceLedger.thy ===== *)
theory ResourceLedger
  imports SavorPrelude
begin

text \<open>
  \<open>SessionResourceLedger\<close>: the scopes of a session, the resources they own and their release
  (SavorCore/Runner/Runtime/Services/Resources/SessionResourceLedger.h and .cpp). Scopes form a
  tree under the session root; closing one releases the live resources of its subtree, latest
  acquisition first, through a dispatcher that may suspend the unwind and have it continued.

  Results are sums, \<open>Inl\<close> the error code of a failure; its message, a constant text, is left
  out. The dispatcher is an argument: its identity (a number, for the pointer comparison), its
  \<open>Release\<close> function and its state, which every call threads. Allocation is taken to succeed.
\<close>

section \<open>Data\<close>

datatype ResourceScopeKind = SessionRoot | Synthetic

datatype ResourceKind =
    InputLease
  | StopPointGroup
  | ExecutionOperation
  | GuestMutation
  | PreparedMoviePlayback
  | MovieSession
  | ArtifactWriter
  | TelemetrySubscription
  | HostResource

datatype ResourcePromotionPolicy = Forbidden | ImmediateParent | AnyAncestor

datatype ResourceCleanupRequirement = Optional | Mandatory

datatype ResourceRecordStatus = Active | Released | ReleaseFailed

datatype ResourceLedgerState = Uninitialized | Accepting | Unwinding | Tainted | Closed

datatype ResourceLedgerErrorCode =
    RL_None
  | RL_WrongThread
  | RL_InvalidState
  | RL_InvalidArgument
  | RL_StaleEpoch
  | RL_ExhaustedIdentity
  | RL_ScopeNotFound
  | RL_ScopeClosed
  | RL_ResourceNotFound
  | RL_ResourceAlreadyRegistered
  | RL_PromotionForbidden
  | RL_DestinationNotAncestor
  | RL_CleanupInProgress
  | RL_InternalFailure

record ResourceReleaseDescriptor =
  rel_kind :: ResourceKind
  rel_external_id :: u64

record ResourceAcquisitionDefinition =
  def_owner :: u64
  def_service :: u64
  def_release :: ResourceReleaseDescriptor
  def_promotion :: ResourcePromotionPolicy
  def_cleanup :: ResourceCleanupRequirement
  def_diagnostic_label :: string

record ResourceReceipt =
  res_session :: u64
  res_id :: u64
  res_sequence :: u64
  res_owner :: u64
  res_service :: u64
  res_scope :: u64
  res_release :: ResourceReleaseDescriptor
  res_acquisition_epoch :: u64
  res_promotion :: ResourcePromotionPolicy
  res_cleanup :: ResourceCleanupRequirement
  res_status :: ResourceRecordStatus
  res_diagnostic_label :: string
  res_release_diagnostic :: string

record ResourceScopeReceipt =
  scope_session :: u64
  scope_id :: u64
  scope_parent :: u64
  scope_owner :: u64
  scope_kind :: ResourceScopeKind
  scope_open :: bool
  scope_diagnostic_label :: string

datatype ResourceReleaseReason = Explicit | ScopeExit | ShutdownReason

record ResourceReleaseRequest =
  req_receipt :: ResourceReceipt
  req_reason :: ResourceReleaseReason
  req_current_epoch :: u64
  req_cleanup_only :: bool

datatype ResourceReleaseStatus = RS_Released | RS_CleanupExecutionRequired | RS_Failed

record ResourceReleaseResult =
  rr_status :: ResourceReleaseStatus
  rr_diagnostic :: string

record ResourceUnwindStep =
  step_request :: ResourceReleaseRequest
  step_result :: ResourceReleaseResult

datatype ResourceUnwindOutcome =
    Completed
  | AlreadyComplete
  | CleanupExecutionRequired
  | CleanupFailed
  | Rejected

datatype ResourceCleanupDisposition = Clean | CleanWithDiagnostics | TaintRequired

record ResourceCleanupExecutionRequest =
  cer_continuation :: u64
  cer_release :: ResourceReleaseRequest

record ResourceUnwindResult =
  outcome :: ResourceUnwindOutcome
  result_disposition :: ResourceCleanupDisposition
  result_steps :: "ResourceUnwindStep list"
  cleanup_execution_request :: "ResourceCleanupExecutionRequest option"
  result_error :: ResourceLedgerErrorCode

definition unwind_completed :: "ResourceUnwindResult \<Rightarrow> bool" where
  "unwind_completed r \<longleftrightarrow> outcome r = Completed \<or> outcome r = AlreadyComplete"

record ResourceLedgerSnapshot =
  rls_state :: ResourceLedgerState
  rls_disposition :: ResourceCleanupDisposition
  rls_session :: u64
  rls_workset_epoch :: u64
  rls_session_root :: u64
  rls_open_scope_count :: nat
  rls_active_resource_count :: nat
  rls_failed_release_count :: nat
  rls_cleanup_execution_pending :: bool
  rls_diagnostic :: string

record PendingUnwind =
  pu_resources :: "u64 list"
  pu_next_resource :: nat
  pu_scopes_to_close :: "u64 list"
  pu_reason :: ResourceReleaseReason
  pu_completion_state :: ResourceLedgerState
  pu_shutdown :: bool
  pu_had_failure :: bool
  pu_continuation :: u64
  pu_steps :: "ResourceUnwindStep list"

record SessionResourceLedger =
  owner_thread :: thread_id
  ledger_state :: ResourceLedgerState
  disposition :: ResourceCleanupDisposition
  session_id :: u64
  workset_epoch :: u64
  session_root :: u64
  next_scope_id :: u64
  next_resource_id :: u64
  next_sequence :: u64
  next_continuation_id :: u64
  scopes :: "ResourceScopeReceipt list"
  resources :: "ResourceReceipt list"
  pending_unwind :: "PendingUnwind option"
  bound_dispatcher :: "nat option"
  diagnostic :: string

type_synonym 'd release_fn = "'d \<Rightarrow> ResourceReleaseRequest \<Rightarrow> ResourceReleaseResult \<times> 'd"

section \<open>Queries\<close>

definition new_resource_ledger :: "thread_id \<Rightarrow> SessionResourceLedger" where
  "new_resource_ledger t = \<lparr>owner_thread = t, ledger_state = Uninitialized, disposition = Clean,
     session_id = 0, workset_epoch = 0, session_root = 0, next_scope_id = 1,
     next_resource_id = 1, next_sequence = 1, next_continuation_id = 1, scopes = [],
     resources = [], pending_unwind = None, bound_dispatcher = None, diagnostic = []\<rparr>"

definition IsLive :: "ResourceRecordStatus \<Rightarrow> bool" where
  "IsLive status \<longleftrightarrow> status = Active \<or> status = ReleaseFailed"

definition MergeDiagnosticDisposition ::
  "ResourceCleanupDisposition \<Rightarrow> ResourceCleanupDisposition" where
  "MergeDiagnosticDisposition d = (if d = Clean then CleanWithDiagnostics else d)"

definition FindResource :: "u64 \<Rightarrow> SessionResourceLedger \<Rightarrow> ResourceReceipt option" where
  "FindResource r L = List.find (\<lambda>candidate. res_id candidate = r) (resources L)"

definition FindScope :: "u64 \<Rightarrow> SessionResourceLedger \<Rightarrow> ResourceScopeReceipt option" where
  "FindScope s L = List.find (\<lambda>candidate. scope_id candidate = s) (scopes L)"

definition ValidateAccepting :: "SessionResourceLedger \<Rightarrow> ResourceLedgerErrorCode" where
  "ValidateAccepting L =
     (if ledger_state L = Accepting then RL_None
      else if ledger_state L = Unwinding then RL_CleanupInProgress
      else RL_InvalidState)"

definition ValidateScopeForAcquisition ::
  "u64 \<Rightarrow> SessionResourceLedger \<Rightarrow> ResourceLedgerErrorCode" where
  "ValidateScopeForAcquisition s L =
     (if s = 0 then RL_InvalidArgument
      else case FindScope s L of
        None \<Rightarrow> RL_ScopeNotFound
      | Some found \<Rightarrow> if \<not> scope_open found then RL_ScopeClosed else RL_None)"

definition ParentOf :: "u64 \<Rightarrow> SessionResourceLedger \<Rightarrow> u64" where
  "ParentOf s L = (case FindScope s L of None \<Rightarrow> 0 | Some found \<Rightarrow> scope_parent found)"

text \<open>
  The loop of \<open>IsAncestor\<close>, with fuel; \<open>None\<close> is running out of it. A walk through
  distinct scopes takes at most one step per scope and one to see the zero identity.
\<close>

fun ancestor_loop :: "nat \<Rightarrow> SessionResourceLedger \<Rightarrow> u64 \<Rightarrow> u64 \<Rightarrow> bool option" where
  "ancestor_loop 0 L possible_ancestor cursor = None"
| "ancestor_loop (Suc fuel) L possible_ancestor cursor =
     (if cursor = 0 then Some False
      else if cursor = possible_ancestor then Some True
      else ancestor_loop fuel L possible_ancestor (ParentOf cursor L))"

definition IsAncestor :: "u64 \<Rightarrow> u64 \<Rightarrow> SessionResourceLedger \<Rightarrow> bool" where
  "IsAncestor possible_ancestor s L \<longleftrightarrow>
     \<not> (possible_ancestor = 0 \<or> s = 0 \<or> possible_ancestor = s) \<and>
     ancestor_loop (Suc (length (scopes L))) L possible_ancestor (ParentOf s L) = Some True"

definition IsInScopeSubtree :: "u64 \<Rightarrow> u64 \<Rightarrow> SessionResourceLedger \<Rightarrow> bool" where
  "IsInScopeSubtree candidate subtree_root L \<longleftrightarrow>
     candidate = subtree_root \<or> IsAncestor subtree_root candidate L"

text \<open>The depth of a scope below the root, as the comparator of \<open>CloseScope\<close> counts it.\<close>

fun depth_loop :: "nat \<Rightarrow> SessionResourceLedger \<Rightarrow> u64 \<Rightarrow> nat option" where
  "depth_loop 0 L candidate = None"
| "depth_loop (Suc fuel) L candidate =
     (if candidate \<noteq> 0 \<and> candidate \<noteq> session_root L
      then map_option Suc (depth_loop fuel L (ParentOf candidate L)) else Some 0)"

definition scope_depth :: "SessionResourceLedger \<Rightarrow> u64 \<Rightarrow> nat" where
  "scope_depth L s = (case depth_loop (Suc (length (scopes L))) L s of None \<Rightarrow> 0 | Some n \<Rightarrow> n)"

text \<open>
  Sorting by descending acquisition sequence (the sequences of distinct resources differ, so
  every sorting algorithm gives this list).
\<close>

definition sort_latest_first :: "SessionResourceLedger \<Rightarrow> u64 list \<Rightarrow> u64 list" where
  "sort_latest_first L ids = sort_key
     (\<lambda>r. case FindResource r L of None \<Rightarrow> 0 | Some x \<Rightarrow> - uint (res_sequence x)) ids"

definition resource_ledger_snapshot :: "SessionResourceLedger \<Rightarrow> ResourceLedgerSnapshot" where
  "resource_ledger_snapshot L = \<lparr>
     rls_state = ledger_state L,
     rls_disposition = disposition L,
     rls_session = session_id L,
     rls_workset_epoch = workset_epoch L,
     rls_session_root = session_root L,
     rls_open_scope_count = length (filter scope_open (scopes L)),
     rls_active_resource_count = length (filter (\<lambda>r. IsLive (res_status r)) (resources L)),
     rls_failed_release_count = length (filter (\<lambda>r. res_status r = ReleaseFailed) (resources L)),
     rls_cleanup_execution_pending =
       (case pending_unwind L of None \<Rightarrow> False
        | Some p \<Rightarrow> pu_steps p \<noteq> [] \<and>
            rr_status (step_result (last (pu_steps p))) = RS_CleanupExecutionRequired),
     rls_diagnostic = diagnostic L\<rparr>"

section \<open>Opening, acquiring, promoting\<close>

definition Initialize ::
  "thread_id \<Rightarrow> u64 \<Rightarrow> u64 \<Rightarrow> u64 \<Rightarrow> SessionResourceLedger \<Rightarrow>
    (ResourceLedgerErrorCode + unit) \<times> SessionResourceLedger" where
  "Initialize current session epoch session_owner L =
     (if current \<noteq> owner_thread L then (Inl RL_WrongThread, L)
      else if ledger_state L \<noteq> Uninitialized then (Inl RL_InvalidState, L)
      else if session = 0 \<or> epoch = 0 \<or> session_owner = 0 then (Inl RL_InvalidArgument, L)
      else
        let root = \<lparr>scope_session = session, scope_id = next_scope_id L, scope_parent = 0,
              scope_owner = session_owner, scope_kind = SessionRoot, scope_open = True,
              scope_diagnostic_label = ''session''\<rparr>
        in (Inr (), L\<lparr>scopes := [root], session_root := scope_id root, session_id := session,
             next_scope_id := next_scope_id L + 1, workset_epoch := epoch,
             disposition := Clean, ledger_state := Accepting\<rparr>))"

definition OpenSyntheticScope ::
  "thread_id \<Rightarrow> u64 \<Rightarrow> u64 \<Rightarrow> string \<Rightarrow> SessionResourceLedger \<Rightarrow>
    (ResourceLedgerErrorCode + ResourceScopeReceipt) \<times> SessionResourceLedger" where
  "OpenSyntheticScope current parent owner label L =
     (if current \<noteq> owner_thread L then (Inl RL_WrongThread, L)
      else if ValidateAccepting L \<noteq> RL_None then (Inl (ValidateAccepting L), L)
      else if ValidateScopeForAcquisition parent L \<noteq> RL_None
      then (Inl (ValidateScopeForAcquisition parent L), L)
      else if owner = 0 then (Inl RL_InvalidArgument, L)
      else if next_scope_id L = uint64_max then (Inl RL_ExhaustedIdentity, L)
      else
        let receipt = \<lparr>scope_session = session_id L, scope_id = next_scope_id L,
              scope_parent = parent, scope_owner = owner, scope_kind = Synthetic,
              scope_open = True, scope_diagnostic_label = label\<rparr>
        in (Inr receipt, L\<lparr>scopes := scopes L @ [receipt], next_scope_id := next_scope_id L + 1\<rparr>))"

definition same_identity ::
  "ResourceAcquisitionDefinition \<Rightarrow> ResourceReceipt \<Rightarrow> bool" where
  "same_identity definition existing \<longleftrightarrow>
     IsLive (res_status existing) \<and> res_service existing = def_service definition \<and>
     res_release existing = def_release definition"

text \<open>The validation loop of \<open>Acquire\<close>; \<open>earlier\<close> are the definitions already passed.\<close>

fun validate_definitions ::
  "ResourceScopeReceipt option \<Rightarrow> SessionResourceLedger \<Rightarrow> ResourceAcquisitionDefinition list \<Rightarrow>
    ResourceAcquisitionDefinition list \<Rightarrow> ResourceLedgerErrorCode" where
  "validate_definitions owning_scope L earlier [] = RL_None"
| "validate_definitions owning_scope L earlier (definition # rest) =
     (if def_owner definition = 0 \<or> def_service definition = 0 \<or>
         rel_external_id (def_release definition) = 0
      then RL_InvalidArgument
      else if (case owning_scope of None \<Rightarrow> True
               | Some s \<Rightarrow> def_owner definition \<noteq> scope_owner s)
      then RL_InvalidArgument
      else if list_ex (same_identity definition) (resources L)
      then RL_ResourceAlreadyRegistered
      else if list_ex (\<lambda>e. def_service e = def_service definition \<and>
                def_release e = def_release definition) earlier
      then RL_ResourceAlreadyRegistered
      else validate_definitions owning_scope L (earlier @ [definition]) rest)"

fun make_receipts ::
  "SessionResourceLedger \<Rightarrow> u64 \<Rightarrow> u64 \<Rightarrow> u64 \<Rightarrow> ResourceAcquisitionDefinition list \<Rightarrow>
    ResourceReceipt list" where
  "make_receipts L s resource_id sequence [] = []"
| "make_receipts L s resource_id sequence (d # ds) =
     \<lparr>res_session = session_id L, res_id = resource_id, res_sequence = sequence,
      res_owner = def_owner d, res_service = def_service d, res_scope = s,
      res_release = def_release d, res_acquisition_epoch = workset_epoch L,
      res_promotion = def_promotion d, res_cleanup = def_cleanup d, res_status = Active,
      res_diagnostic_label = def_diagnostic_label d, res_release_diagnostic = []\<rparr>
     # make_receipts L s (resource_id + 1) (sequence + 1) ds"

definition Acquire ::
  "thread_id \<Rightarrow> u64 \<Rightarrow> ResourceAcquisitionDefinition list \<Rightarrow> SessionResourceLedger \<Rightarrow>
    (ResourceLedgerErrorCode + ResourceReceipt list) \<times> SessionResourceLedger" where
  "Acquire current s definitions L =
     (if current \<noteq> owner_thread L then (Inl RL_WrongThread, L)
      else if ValidateAccepting L \<noteq> RL_None then (Inl (ValidateAccepting L), L)
      else if ValidateScopeForAcquisition s L \<noteq> RL_None
      then (Inl (ValidateScopeForAcquisition s L), L)
      else if definitions = [] then (Inr [], L)
      else
        let owning_scope = FindScope s L; count = length definitions in
        if count > unat (uint64_max - next_resource_id L) \<or> count > unat (uint64_max - next_sequence L)
        then (Inl RL_ExhaustedIdentity, L)
        else if validate_definitions owning_scope L [] definitions \<noteq> RL_None
        then (Inl (validate_definitions owning_scope L [] definitions), L)
        else
          let receipts = make_receipts L s (next_resource_id L) (next_sequence L) definitions
          in (Inr receipts, L\<lparr>resources := resources L @ receipts,
               next_resource_id := next_resource_id L + of_nat count,
               next_sequence := next_sequence L + of_nat count\<rparr>))"

text \<open>A failed promotion carries the receipt it found, when it found one.\<close>

definition Promote ::
  "thread_id \<Rightarrow> u64 \<Rightarrow> u64 \<Rightarrow> SessionResourceLedger \<Rightarrow>
    (ResourceLedgerErrorCode \<times> ResourceReceipt option + bool \<times> ResourceReceipt) \<times>
    SessionResourceLedger" where
  "Promote current r destination_scope L =
     (if current \<noteq> owner_thread L then (Inl (RL_WrongThread, None), L)
      else if ValidateAccepting L \<noteq> RL_None then (Inl (ValidateAccepting L, None), L)
      else if ValidateScopeForAcquisition destination_scope L \<noteq> RL_None
      then (Inl (ValidateScopeForAcquisition destination_scope L, None), L)
      else case FindResource r L of
        None \<Rightarrow> (Inl (RL_ResourceNotFound, None), L)
      | Some found \<Rightarrow>
          if \<not> IsLive (res_status found) then (Inl (RL_InvalidState, Some found), L)
          else if (case FindScope destination_scope L of None \<Rightarrow> True
                   | Some destination \<Rightarrow> scope_owner destination \<noteq> res_owner found)
          then (Inl (RL_PromotionForbidden, Some found), L)
          else if res_scope found = destination_scope then (Inr (False, found), L)
          else if \<not> IsAncestor destination_scope (res_scope found) L
          then (Inl (RL_DestinationNotAncestor, Some found), L)
          else if res_promotion found = Forbidden
          then (Inl (RL_PromotionForbidden, Some found), L)
          else if res_promotion found = ImmediateParent \<and>
             ParentOf (res_scope found) L \<noteq> destination_scope
          then (Inl (RL_PromotionForbidden, Some found), L)
          else (Inr (True, found\<lparr>res_scope := destination_scope\<rparr>),
                L\<lparr>resources := update_first (\<lambda>x. res_id x = r)
                    (\<lambda>x. x\<lparr>res_scope := destination_scope\<rparr>) (resources L)\<rparr>))"


section \<open>Unwinding\<close>

definition RejectedUnwind :: "ResourceLedgerErrorCode \<Rightarrow> SessionResourceLedger \<Rightarrow> ResourceUnwindResult" where
  "RejectedUnwind code L = \<lparr>outcome = Rejected, result_disposition = disposition L,
     result_steps = [], cleanup_execution_request = None, result_error = code\<rparr>"

definition finished_unwind ::
  "ResourceUnwindOutcome \<Rightarrow> ResourceUnwindStep list \<Rightarrow> SessionResourceLedger \<Rightarrow> ResourceUnwindResult" where
  "finished_unwind oc steps L = \<lparr>outcome = oc, result_disposition = disposition L,
     result_steps = steps, cleanup_execution_request = None, result_error = RL_None\<rparr>"

text \<open>
  What \<open>PumpUnwind\<close> writes into the resource, the disposition and the diagnostic once the
  dispatcher has released it or failed to.
\<close>

definition settle_release ::
  "ResourceReceipt \<Rightarrow> ResourceReleaseResult \<Rightarrow> SessionResourceLedger \<Rightarrow> SessionResourceLedger" where
  "settle_release found release L =
     (let status = (if rr_status release = RS_Released then Released else ReleaseFailed);
          L' = L\<lparr>resources := update_first (\<lambda>x. res_id x = res_id found)
                 (\<lambda>x. x\<lparr>res_release_diagnostic := rr_diagnostic release, res_status := status\<rparr>)
                 (resources L)\<rparr>
      in if rr_status release = RS_Released then L'
         else L'\<lparr>diagnostic :=
                (if rr_diagnostic release = [] then diagnostic L
                 else if diagnostic L = [] then rr_diagnostic release
                 else diagnostic L @ ''; '' @ rr_diagnostic release),
              disposition :=
                (if res_cleanup found = Mandatory then TaintRequired
                 else MergeDiagnosticDisposition (disposition L))\<rparr>)"

definition release_request ::
  "PendingUnwind \<Rightarrow> ResourceReceipt \<Rightarrow> SessionResourceLedger \<Rightarrow> ResourceReleaseRequest" where
  "release_request pending found L = \<lparr>req_receipt = found, req_reason = pu_reason pending,
     req_current_epoch = workset_epoch L, req_cleanup_only = True\<rparr>"

text \<open>
  The loop of \<open>PumpUnwind\<close> over the resources not yet dealt with. It ends with the request
  the dispatcher suspended on, or \<open>None\<close> when no resource is left.
\<close>

fun pump_loop ::
  "'d release_fn \<Rightarrow> u64 list \<Rightarrow> PendingUnwind \<Rightarrow> SessionResourceLedger \<Rightarrow> 'd \<Rightarrow>
    ResourceReleaseRequest option \<times> PendingUnwind \<times> SessionResourceLedger \<times> 'd" where
  "pump_loop release_of [] pending L d = (None, pending, L, d)"
| "pump_loop release_of (r # rs) pending L d =
     (let next = pending\<lparr>pu_next_resource := Suc (pu_next_resource pending)\<rparr> in
      case FindResource r L of
        None \<Rightarrow> pump_loop release_of rs next L d
      | Some found \<Rightarrow>
          if \<not> IsLive (res_status found) then pump_loop release_of rs next L d
          else
            let request = release_request pending found L;
                (release, d') = release_of d request;
                step = \<lparr>step_request = request, step_result = release\<rparr>;
                stepped = pending\<lparr>pu_steps := pu_steps pending @ [step]\<rparr>
            in if rr_status release = RS_CleanupExecutionRequired
               then (Some request, stepped, L, d')
               else pump_loop release_of rs
                 (stepped\<lparr>pu_had_failure := pu_had_failure pending \<or> rr_status release = RS_Failed,
                    pu_next_resource := Suc (pu_next_resource pending)\<rparr>)
                 (settle_release found release L) d')"

text \<open>
  Closing the scopes of a finished unwind, in the order they are listed. A scope that still
  owns a live resource somewhere below it stays open unless the session shuts down.
\<close>

definition still_owns_resource :: "u64 \<Rightarrow> SessionResourceLedger \<Rightarrow> bool" where
  "still_owns_resource s L \<longleftrightarrow>
     list_ex (\<lambda>r. IsLive (res_status r) \<and> IsInScopeSubtree (res_scope r) s L) (resources L)"

definition close_scope :: "bool \<Rightarrow> u64 \<Rightarrow> SessionResourceLedger \<Rightarrow> SessionResourceLedger" where
  "close_scope shutdown s L =
     (if still_owns_resource s L \<and> \<not> shutdown then L
      else L\<lparr>scopes := update_first (\<lambda>c. scope_id c = s) (\<lambda>c. c\<lparr>scope_open := False\<rparr>) (scopes L)\<rparr>)"

definition FinishPendingUnwind :: "SessionResourceLedger \<Rightarrow> SessionResourceLedger" where
  "FinishPendingUnwind L =
     (case pending_unwind L of
        None \<Rightarrow> L
      | Some pending \<Rightarrow>
          let L' = fold (close_scope (pu_shutdown pending)) (pu_scopes_to_close pending) L
          in L'\<lparr>pending_unwind := None,
               ledger_state :=
                 (if pu_shutdown pending then Closed
                  else if disposition L' = TaintRequired then Tainted
                  else pu_completion_state pending)\<rparr>)"

definition PumpUnwind ::
  "'d release_fn \<Rightarrow> SessionResourceLedger \<Rightarrow> 'd \<Rightarrow>
    ResourceUnwindResult \<times> SessionResourceLedger \<times> 'd" where
  "PumpUnwind release_of L d =
     (case pending_unwind L of
        None \<Rightarrow> (RejectedUnwind RL_InvalidState L, L, d)
      | Some pending \<Rightarrow>
          (case pump_loop release_of (drop (pu_next_resource pending) (pu_resources pending))
                  pending L d of
             (Some request, pending', L', d') \<Rightarrow>
               (\<lparr>outcome = CleanupExecutionRequired, result_disposition = disposition L',
                 result_steps = pu_steps pending',
                 cleanup_execution_request = Some \<lparr>cer_continuation = pu_continuation pending',
                   cer_release = request\<rparr>, result_error = RL_None\<rparr>,
                L'\<lparr>pending_unwind := Some pending'\<rparr>, d')
           | (None, pending', L', d') \<Rightarrow>
               let L'' = FinishPendingUnwind (L'\<lparr>pending_unwind := Some pending'\<rparr>)
               in (finished_unwind (if pu_had_failure pending' then CleanupFailed else Completed)
                     (pu_steps pending') L'', L'', d')))"

definition StartUnwind ::
  "u64 list \<Rightarrow> u64 list \<Rightarrow> ResourceReleaseReason \<Rightarrow> ResourceLedgerState \<Rightarrow> bool \<Rightarrow>
    nat \<Rightarrow> 'd release_fn \<Rightarrow> SessionResourceLedger \<Rightarrow> 'd \<Rightarrow>
    ResourceUnwindResult \<times> SessionResourceLedger \<times> 'd" where
  "StartUnwind rs ss reason completion_state shutdown dispatcher release_of L d =
     (if pending_unwind L \<noteq> None then (RejectedUnwind RL_CleanupInProgress L, L, d)
      else if bound_dispatcher L \<noteq> None \<and> bound_dispatcher L \<noteq> Some dispatcher
      then (RejectedUnwind RL_InvalidArgument L, L, d)
      else if next_continuation_id L = uint64_max
      then (RejectedUnwind RL_ExhaustedIdentity L, L, d)
      else
        let pending = \<lparr>pu_resources = rs, pu_next_resource = 0, pu_scopes_to_close = ss,
              pu_reason = reason, pu_completion_state = completion_state,
              pu_shutdown = shutdown, pu_had_failure = False,
              pu_continuation = next_continuation_id L, pu_steps = []\<rparr>
        in PumpUnwind release_of (L\<lparr>pending_unwind := Some pending,
             bound_dispatcher := Some dispatcher,
             next_continuation_id := next_continuation_id L + 1,
             ledger_state := Unwinding\<rparr>) d)"

definition Release ::
  "thread_id \<Rightarrow> u64 \<Rightarrow> nat \<Rightarrow> 'd release_fn \<Rightarrow> SessionResourceLedger \<Rightarrow> 'd \<Rightarrow>
    ResourceUnwindResult \<times> SessionResourceLedger \<times> 'd" where
  "Release current r dispatcher release_of L d =
     (if current \<noteq> owner_thread L then (RejectedUnwind RL_WrongThread L, L, d)
      else if ledger_state L \<noteq> Accepting \<and> ledger_state L \<noteq> Tainted
      then (RejectedUnwind (if ledger_state L = Unwinding then RL_CleanupInProgress
              else RL_InvalidState) L, L, d)
      else case FindResource r L of
        None \<Rightarrow> (RejectedUnwind RL_ResourceNotFound L, L, d)
      | Some found \<Rightarrow>
          if \<not> IsLive (res_status found) then (finished_unwind AlreadyComplete [] L, L, d)
          else StartUnwind [r] [] Explicit (ledger_state L) False dispatcher release_of L d)"

definition live_in_subtree :: "u64 \<Rightarrow> SessionResourceLedger \<Rightarrow> u64 list" where
  "live_in_subtree s L = map res_id
     (filter (\<lambda>r. IsLive (res_status r) \<and> IsInScopeSubtree (res_scope r) s L) (resources L))"

definition open_in_subtree :: "u64 \<Rightarrow> SessionResourceLedger \<Rightarrow> u64 list" where
  "open_in_subtree s L = map scope_id
     (filter (\<lambda>c. scope_open c \<and> IsInScopeSubtree (scope_id c) s L) (scopes L))"

text \<open>
  The scopes are sorted deepest first. Scopes of one depth may come in any order: whether a
  scope is closed does not depend on the others.
\<close>

definition CloseScope ::
  "thread_id \<Rightarrow> u64 \<Rightarrow> nat \<Rightarrow> 'd release_fn \<Rightarrow> SessionResourceLedger \<Rightarrow> 'd \<Rightarrow>
    ResourceUnwindResult \<times> SessionResourceLedger \<times> 'd" where
  "CloseScope current s dispatcher release_of L d =
     (if current \<noteq> owner_thread L then (RejectedUnwind RL_WrongThread L, L, d)
      else if ledger_state L \<noteq> Accepting \<and> ledger_state L \<noteq> Tainted
      then (RejectedUnwind (if ledger_state L = Unwinding then RL_CleanupInProgress
              else RL_InvalidState) L, L, d)
      else if s = session_root L then (RejectedUnwind RL_InvalidArgument L, L, d)
      else case FindScope s L of
        None \<Rightarrow> (RejectedUnwind RL_ScopeNotFound L, L, d)
      | Some found \<Rightarrow>
          if \<not> scope_open found then (finished_unwind AlreadyComplete [] L, L, d)
          else StartUnwind (sort_latest_first L (live_in_subtree s L))
                 (sort_key (\<lambda>c. - int (scope_depth L c)) (open_in_subtree s L))
                 ScopeExit (ledger_state L) False dispatcher release_of L d)"

definition ContinueCleanup ::
  "thread_id \<Rightarrow> u64 \<Rightarrow> nat \<Rightarrow> 'd release_fn \<Rightarrow> SessionResourceLedger \<Rightarrow> 'd \<Rightarrow>
    ResourceUnwindResult \<times> SessionResourceLedger \<times> 'd" where
  "ContinueCleanup current continuation dispatcher release_of L d =
     (if current \<noteq> owner_thread L then (RejectedUnwind RL_WrongThread L, L, d)
      else case (if ledger_state L = Unwinding then pending_unwind L else None) of
        None \<Rightarrow> (RejectedUnwind RL_InvalidState L, L, d)
      | Some pending \<Rightarrow>
          if continuation = 0 \<or> continuation \<noteq> pu_continuation pending
          then (RejectedUnwind RL_InvalidArgument L, L, d)
          else if bound_dispatcher L \<noteq> Some dispatcher
          then (RejectedUnwind RL_InvalidArgument L, L, d)
          else PumpUnwind release_of L d)"

definition Shutdown ::
  "thread_id \<Rightarrow> nat \<Rightarrow> 'd release_fn \<Rightarrow> SessionResourceLedger \<Rightarrow> 'd \<Rightarrow>
    ResourceUnwindResult \<times> SessionResourceLedger \<times> 'd" where
  "Shutdown current dispatcher release_of L d =
     (if current \<noteq> owner_thread L then (RejectedUnwind RL_WrongThread L, L, d)
      else if ledger_state L = Closed then (finished_unwind AlreadyComplete [] L, L, d)
      else if ledger_state L = Uninitialized
      then (let L' = L\<lparr>ledger_state := Closed\<rparr> in (finished_unwind Completed [] L', L', d))
      else if ledger_state L = Unwinding then (RejectedUnwind RL_CleanupInProgress L, L, d)
      else StartUnwind
             (sort_latest_first L
               (map res_id (filter (\<lambda>r. IsLive (res_status r)) (resources L))))
             (map scope_id (filter scope_open (scopes L)))
             ShutdownReason Closed True dispatcher release_of L d)"

end
