(* ===== verification/ResourceScopes.thy ===== *)
theory ResourceScopes
  imports ResourceLedger
begin

text \<open>
  The scopes of the resource ledger as a tree: ancestry as the code walks it is the transitive
  closure of the parent relation, and every walk to the root returns within the fuel the
  definitions give it.
\<close>

section \<open>The tree of scopes\<close>

definition parent_rel :: "SessionResourceLedger \<Rightarrow> (u64 \<times> u64) set" where
  "parent_rel L = {(scope_parent c, scope_id c) | c. c \<in> set (scopes L) \<and> scope_parent c \<noteq> 0}"

definition scope_ids :: "SessionResourceLedger \<Rightarrow> u64 set" where
  "scope_ids L = scope_id ` set (scopes L)"

definition links :: "SessionResourceLedger \<Rightarrow> (u64 \<times> u64) list" where
  "links L = map (\<lambda>c. (scope_id c, scope_parent c)) (scopes L)"

text \<open>
  Scopes are listed by increasing identity; every scope but the root names an earlier scope
  as its parent.
\<close>

definition scope_tree :: "SessionResourceLedger \<Rightarrow> bool" where
  "scope_tree L \<longleftrightarrow>
     sorted_wrt (<) (map scope_id (scopes L)) \<and> session_root L < next_scope_id L \<and>
     (\<forall>c \<in> set (scopes L). scope_id c \<noteq> 0 \<and> scope_id c < next_scope_id L \<and>
        (scope_parent c = 0 \<longleftrightarrow> scope_id c = session_root L) \<and>
        (scope_parent c \<noteq> 0 \<longrightarrow> scope_parent c < scope_id c \<and> scope_parent c \<in> scope_ids L))"

lemma scope_tree_distinct: "scope_tree L \<Longrightarrow> distinct (map scope_id (scopes L))"
  by (simp add: scope_tree_def sorted_wrt_less_distinct)

lemma FindScope_iff:
  "scope_tree L \<Longrightarrow> FindScope s L = Some c \<longleftrightarrow> c \<in> set (scopes L) \<and> scope_id c = s"
  by (simp add: FindScope_def find_key_iff scope_tree_distinct)

lemma FindScope_None: "FindScope s L = None \<longleftrightarrow> s \<notin> scope_ids L"
  by (auto simp: FindScope_def find_None_iff scope_ids_def)

lemma ParentOf_scope: "scope_tree L \<Longrightarrow> c \<in> set (scopes L) \<Longrightarrow> ParentOf (scope_id c) L = scope_parent c"
  using FindScope_iff [of L "scope_id c" c] by (simp add: ParentOf_def)

lemma ParentOf_missing: "s \<notin> scope_ids L \<Longrightarrow> ParentOf s L = 0"
  using FindScope_None [of s L] by (simp add: ParentOf_def)

lemma parent_rel_iff:
  "scope_tree L \<Longrightarrow> (p, s) \<in> parent_rel L \<longleftrightarrow> p = ParentOf s L \<and> p \<noteq> 0"
  by (cases "s \<in> scope_ids L")
    (auto simp: parent_rel_def scope_ids_def ParentOf_scope ParentOf_missing)

lemma ParentOf_cases:
  assumes "scope_tree L"
  obtains "ParentOf s L = 0" | "ParentOf s L \<in> scope_ids L" "ParentOf s L < s" "ParentOf s L \<noteq> 0"
proof (cases "s \<in> scope_ids L")
  case True
  then obtain c where "c \<in> set (scopes L)" "s = scope_id c" by (auto simp: scope_ids_def)
  with assms that show ?thesis by (auto simp: ParentOf_scope scope_tree_def)
next
  case False
  with that show ?thesis by (simp add: ParentOf_missing)
qed

lemma ancestors_less:
  assumes "scope_tree L" and "(a, s) \<in> (parent_rel L)\<^sup>+"
  shows "a < s \<and> a \<in> scope_ids L \<and> a \<noteq> 0 \<and> s \<in> scope_ids L"
  using assms(2)
proof (induction rule: trancl_induct)
  case (base y)
  with assms(1) show ?case
    by (auto simp: parent_rel_def scope_tree_def scope_ids_def)
next
  case (step y z)
  with assms(1) have "y < z" "z \<in> scope_ids L"
    by (auto simp: parent_rel_def scope_tree_def scope_ids_def)
  with step show ?case by auto
qed

text \<open>The number of steps a walk from a scope to the root can take.\<close>

definition walk_bound :: "SessionResourceLedger \<Rightarrow> u64 \<Rightarrow> nat" where
  "walk_bound L s = (if s \<in> scope_ids L then card {i \<in> scope_ids L. i \<le> s} else 0)"

lemma finite_scope_ids [simp]: "finite (scope_ids L)"
  by (simp add: scope_ids_def)

lemma walk_bound_length: "walk_bound L s \<le> length (scopes L)"
proof -
  have "card {i \<in> scope_ids L. i \<le> s} \<le> card (scope_ids L)"
    by (intro card_mono) auto
  also have "\<dots> \<le> length (scopes L)"
    by (metis scope_ids_def card_length length_map list.set_map)
  finally show ?thesis by (simp add: walk_bound_def)
qed

lemma walk_bound_parent:
  assumes "scope_tree L" and "ParentOf s L \<noteq> 0"
  shows "walk_bound L (ParentOf s L) < walk_bound L s"
proof -
  have "ParentOf s L \<in> scope_ids L \<and> ParentOf s L < s"
    using assms by (cases rule: ParentOf_cases [of L s]) simp_all
  moreover have "s \<in> scope_ids L" using assms(2) ParentOf_missing by blast
  ultimately have p: "ParentOf s L \<in> scope_ids L" "ParentOf s L < s" "s \<in> scope_ids L"
    by simp_all
  then have "{i \<in> scope_ids L. i \<le> ParentOf s L} \<subset> {i \<in> scope_ids L. i \<le> s}"
    by (auto simp: order.strict_iff_not)
  then show ?thesis using p by (simp add: walk_bound_def psubset_card_mono)
qed

lemma walk_bound_zero: "scope_tree L \<Longrightarrow> walk_bound L 0 = 0"
  by (auto simp: walk_bound_def scope_ids_def scope_tree_def)

lemma ancestor_loop_returns:
  assumes "scope_tree L" and "a \<noteq> 0" and "walk_bound L s < fuel" and "s = 0 \<or> s \<in> scope_ids L"
  shows "ancestor_loop fuel L a s = Some (s \<noteq> 0 \<and> (a, s) \<in> (parent_rel L)\<^sup>*)"
  using assms(3,4)
proof (induction fuel arbitrary: s)
  case 0
  then show ?case by simp
next
  case (Suc fuel)
  show ?case
  proof (cases "s = 0 \<or> s = a")
    case True
    then show ?thesis using assms(2) by auto
  next
    case False
    have step: "(a, s) \<in> (parent_rel L)\<^sup>* \<longleftrightarrow>
        ParentOf s L \<noteq> 0 \<and> (a, ParentOf s L) \<in> (parent_rel L)\<^sup>*"
    proof
      assume "(a, s) \<in> (parent_rel L)\<^sup>*"
      then show "ParentOf s L \<noteq> 0 \<and> (a, ParentOf s L) \<in> (parent_rel L)\<^sup>*"
        using False assms(1) by (cases rule: rtranclE) (auto simp: parent_rel_iff)
    next
      assume "ParentOf s L \<noteq> 0 \<and> (a, ParentOf s L) \<in> (parent_rel L)\<^sup>*"
      then show "(a, s) \<in> (parent_rel L)\<^sup>*"
        using assms(1) by (auto simp: parent_rel_iff intro: rtrancl_into_rtrancl)
    qed
    show ?thesis
    proof (cases "ParentOf s L = 0")
      case True
      moreover have "walk_bound L s \<noteq> 0"
        using False Suc.prems by (auto simp: walk_bound_def card_eq_0_iff)
      ultimately show ?thesis using False step Suc.prems by (cases fuel) auto
    next
      case False
      moreover have "ParentOf s L \<in> scope_ids L"
        using assms(1) False by (cases rule: ParentOf_cases [of L s]) simp_all
      ultimately show ?thesis
        using Suc.IH [of "ParentOf s L"] walk_bound_parent [OF assms(1) False] Suc.prems
          \<open>\<not> (s = 0 \<or> s = a)\<close> step by simp
    qed
  qed
qed

lemma depth_loop_returns:
  assumes "scope_tree L" and "walk_bound L s < fuel" and "s = 0 \<or> s \<in> scope_ids L"
  shows "\<exists>n. depth_loop fuel L s = Some n"
  using assms(2,3)
proof (induction fuel arbitrary: s)
  case (Suc fuel)
  show ?case
  proof (cases "ParentOf s L = 0")
    case True
    moreover have "s \<noteq> 0 \<Longrightarrow> walk_bound L s \<noteq> 0"
      using Suc.prems by (auto simp: walk_bound_def card_eq_0_iff)
    ultimately show ?thesis using Suc.prems by (cases fuel) auto
  next
    case False
    moreover have "ParentOf s L \<in> scope_ids L"
      using assms(1) False by (cases rule: ParentOf_cases [of L s]) simp_all
    ultimately show ?thesis
      using Suc.IH [of "ParentOf s L"] walk_bound_parent [OF assms(1) False] Suc.prems by auto
  qed
qed simp

lemma IsAncestor_iff:
  assumes tree: "scope_tree L"
  shows "IsAncestor a s L \<longleftrightarrow> (a, s) \<in> (parent_rel L)\<^sup>+"
proof -
  have p: "ParentOf s L = 0 \<or> ParentOf s L \<in> scope_ids L"
    using tree by (cases rule: ParentOf_cases [of L s]) simp_all
  have "walk_bound L (ParentOf s L) < Suc (length (scopes L))"
    using walk_bound_length [of L "ParentOf s L"] by simp
  note ret = ancestor_loop_returns [OF tree _ this p]
  show ?thesis
  proof
    assume "IsAncestor a s L"
    then have "a \<noteq> 0" "ParentOf s L \<noteq> 0" "(a, ParentOf s L) \<in> (parent_rel L)\<^sup>*"
      using ret by (auto simp: IsAncestor_def)
    moreover from this(2) have "(ParentOf s L, s) \<in> parent_rel L"
      using parent_rel_iff [OF tree] by simp
    ultimately show "(a, s) \<in> (parent_rel L)\<^sup>+"
      by (intro rtrancl_into_trancl1)
  next
    assume anc: "(a, s) \<in> (parent_rel L)\<^sup>+"
    then have "a < s" "a \<noteq> 0" using ancestors_less [OF tree] by auto
    moreover obtain p where "(a, p) \<in> (parent_rel L)\<^sup>*" "(p, s) \<in> parent_rel L"
      using tranclD2 [OF anc] by blast
    then have "ParentOf s L \<noteq> 0 \<and> (a, ParentOf s L) \<in> (parent_rel L)\<^sup>*"
      using parent_rel_iff [OF tree, of p s] by auto
    ultimately show "IsAncestor a s L" using ret by (auto simp: IsAncestor_def)
  qed
qed

lemma IsInScopeSubtree_iff:
  "scope_tree L \<Longrightarrow> IsInScopeSubtree c s L \<longleftrightarrow> (s, c) \<in> (parent_rel L)\<^sup>*"
  by (auto simp: IsInScopeSubtree_def IsAncestor_iff rtrancl_eq_or_trancl)

text \<open>Ancestry reads the identities and the parents only.\<close>

lemma ParentOf_links: "links L = links L' \<Longrightarrow> ParentOf s L = ParentOf s L'"
proof -
  have "ParentOf s L = (case map_of (links L) s of None \<Rightarrow> 0 | Some p \<Rightarrow> p)" for L
  proof -
    have "map_of (map (\<lambda>c. (scope_id c, scope_parent c)) cs) s
        = map_option scope_parent (List.find (\<lambda>c. scope_id c = s) cs)"
      for cs :: "ResourceScopeReceipt list"
      by (induction cs) auto
    then show ?thesis
      by (cases "List.find (\<lambda>c. scope_id c = s) (scopes L)")
        (simp_all add: ParentOf_def FindScope_def links_def)
  qed
  then show "links L = links L' \<Longrightarrow> ParentOf s L = ParentOf s L'" by simp
qed

lemma ancestor_loop_links:
  assumes "links L = links L'"
  shows "ancestor_loop fuel L a s = ancestor_loop fuel L' a s"
  by (induction fuel arbitrary: s) (simp_all add: ParentOf_links [OF assms])

lemma subtree_links: "links L = links L' \<Longrightarrow> IsInScopeSubtree c s L = IsInScopeSubtree c s L'"
proof -
  assume eq: "links L = links L'"
  then have "length (scopes L) = length (scopes L')" by (metis links_def length_map)
  then show ?thesis
    using ancestor_loop_links [OF eq] ParentOf_links [OF eq]
    by (simp add: IsInScopeSubtree_def IsAncestor_def)
qed

lemma parent_rel_links: "parent_rel L = {(p, s). (s, p) \<in> set (links L) \<and> p \<noteq> 0}"
  by (auto simp: parent_rel_def links_def)

lemma scope_ids_links: "scope_ids L = fst ` set (links L)"
  by (force simp: scope_ids_def links_def)
end
