(* ===== verification/ResourceUnwind.thy ===== *)
theory ResourceUnwind
  imports ResourceScopes
begin

text \<open>
  The invariant of the resource ledger, and what the unwind loop does: which resources a pump
  settles, where a suspended one stands, and that finishing or suspending an unwind keeps the
  invariant.
\<close>

section \<open>The invariant\<close>

abbreviation live :: "ResourceReceipt \<Rightarrow> bool" where
  "live r \<equiv> IsLive (res_status r)"

definition same_release :: "ResourceReceipt \<Rightarrow> ResourceReceipt \<Rightarrow> bool" where
  "same_release r r' \<longleftrightarrow> res_service r = res_service r' \<and> res_release r = res_release r'"

text \<open>
  Resources are listed by increasing identity and acquisition sequence, belong to a scope of
  their owner, and no two live ones stand for the same external resource.
\<close>

definition owned_by :: "SessionResourceLedger \<Rightarrow> ResourceReceipt \<Rightarrow> bool" where
  "owned_by L r \<longleftrightarrow> (\<exists>c \<in> set (scopes L). scope_id c = res_scope r \<and> scope_owner c = res_owner r)"

definition resource_order :: "ResourceReceipt \<Rightarrow> ResourceReceipt \<Rightarrow> bool" where
  "resource_order r r' \<longleftrightarrow> res_id r < res_id r' \<and> res_sequence r < res_sequence r' \<and>
     (live r \<and> live r' \<longrightarrow> \<not> same_release r r')"

definition resource_list :: "SessionResourceLedger \<Rightarrow> bool" where
  "resource_list L \<longleftrightarrow>
     sorted_wrt resource_order (resources L) \<and>
     next_resource_id L \<noteq> 0 \<and> next_sequence L \<noteq> 0 \<and>
     (\<forall>r \<in> set (resources L). res_id r \<noteq> 0 \<and> res_id r < next_resource_id L \<and>
        res_sequence r \<noteq> 0 \<and> res_sequence r < next_sequence L \<and> owned_by L r)"

text \<open>
  The disposition records every failure still standing, and agrees with the state.
\<close>

definition failures_recorded :: "SessionResourceLedger \<Rightarrow> bool" where
  "failures_recorded L \<longleftrightarrow>
     (\<forall>r \<in> set (resources L). res_status r = ReleaseFailed \<longrightarrow> disposition L \<noteq> Clean \<and>
        (res_cleanup r = Mandatory \<longrightarrow> disposition L = TaintRequired))"

definition disposition_wf :: "SessionResourceLedger \<Rightarrow> bool" where
  "disposition_wf L \<longleftrightarrow> failures_recorded L \<and>
     (ledger_state L = Accepting \<longrightarrow> disposition L \<noteq> TaintRequired) \<and>
     (ledger_state L = Tainted \<longrightarrow> disposition L = TaintRequired)"

text \<open>
  An open scope hangs below open scopes only, and live resources are in open scopes until
  the session is closed.
\<close>

definition open_ids :: "SessionResourceLedger \<Rightarrow> u64 set" where
  "open_ids L = scope_id ` {c \<in> set (scopes L). scope_open c}"

definition openness_wf :: "SessionResourceLedger \<Rightarrow> bool" where
  "openness_wf L \<longleftrightarrow> (ledger_state L \<noteq> Closed \<longrightarrow>
     (\<forall>(p, s) \<in> parent_rel L. s \<in> open_ids L \<longrightarrow> p \<in> open_ids L) \<and>
     (\<forall>r \<in> set (resources L). live r \<longrightarrow> res_scope r \<in> open_ids L))"

abbreviation released_id :: "ResourceUnwindStep \<Rightarrow> u64" where
  "released_id st \<equiv> res_id (req_receipt (step_request st))"

abbreviation step_status :: "ResourceUnwindStep \<Rightarrow> ResourceReleaseStatus" where
  "step_status st \<equiv> rr_status (step_result st)"

definition is_live :: "SessionResourceLedger \<Rightarrow> u64 \<Rightarrow> bool" where
  "is_live L r \<longleftrightarrow> (\<exists>x \<in> set (resources L). res_id x = r \<and> live x)"

text \<open>
  A suspended unwind stands at a live resource, whose last dispatch asked for a cleanup
  execution; the scopes it closes are all the open scopes below any of them.
\<close>

definition unwind_wf :: "SessionResourceLedger \<Rightarrow> PendingUnwind \<Rightarrow> bool" where
  "unwind_wf L p \<longleftrightarrow>
     pu_continuation p \<noteq> 0 \<and> pu_continuation p < next_continuation_id L \<and>
     pu_completion_state p \<in> {Accepting, Tainted, Closed} \<and>
     (pu_shutdown p \<longleftrightarrow> pu_completion_state p = Closed) \<and>
     (pu_completion_state p = Tainted \<longrightarrow> disposition L = TaintRequired) \<and>
     (\<forall>(a, s) \<in> parent_rel L. a \<in> set (pu_scopes_to_close p) \<and> s \<in> open_ids L
        \<longrightarrow> s \<in> set (pu_scopes_to_close p)) \<and>
     bound_dispatcher L \<noteq> None"

definition pending_wf :: "SessionResourceLedger \<Rightarrow> PendingUnwind \<Rightarrow> bool" where
  "pending_wf L p \<longleftrightarrow> unwind_wf L p \<and> pu_next_resource p < length (pu_resources p) \<and>
     (\<exists>x \<in> set (resources L). live x \<and> res_id x = pu_resources p ! pu_next_resource p \<and>
        step_request (last (pu_steps p)) = release_request p x L) \<and>
     pu_steps p \<noteq> [] \<and> step_status (last (pu_steps p)) = RS_CleanupExecutionRequired"

definition phase_wf :: "SessionResourceLedger \<Rightarrow> bool" where
  "phase_wf L \<longleftrightarrow> next_continuation_id L \<noteq> 0 \<and>
     (ledger_state L = Unwinding \<longleftrightarrow> pending_unwind L \<noteq> None) \<and>
     (case pending_unwind L of None \<Rightarrow> True | Some p \<Rightarrow> pending_wf L p) \<and>
     (ledger_state L = Uninitialized \<longrightarrow> scopes L = [] \<and> resources L = [] \<and>
        disposition L = Clean \<and> next_scope_id L = 1)"

definition resource_ledger_inv :: "SessionResourceLedger \<Rightarrow> bool" where
  "resource_ledger_inv L \<longleftrightarrow> scope_tree L \<and> resource_list L \<and> disposition_wf L \<and>
     openness_wf L \<and> phase_wf L"

lemmas inv_parts = resource_list_def disposition_wf_def openness_wf_def phase_wf_def

section \<open>Settling resources\<close>

text \<open>What an unwind may do to the resource list: settle live resources among \<open>ids\<close>.\<close>

definition settled :: "u64 set \<Rightarrow> ResourceReceipt \<Rightarrow> ResourceReceipt \<Rightarrow> bool" where
  "settled ids r r' \<longleftrightarrow> r' = r \<or> res_id r \<in> ids \<and> live r \<and>
     (\<exists>status \<in> {Released, ReleaseFailed}. \<exists>text.
        r' = r\<lparr>res_release_diagnostic := text, res_status := status\<rparr>)"

lemma settled_refl [simp]: "settled ids r r"
  by (simp add: settled_def)

lemma settled_fields:
  assumes "settled ids r r'"
  shows "res_id r' = res_id r" "res_sequence r' = res_sequence r" "res_owner r' = res_owner r"
    "res_scope r' = res_scope r" "res_service r' = res_service r" "res_release r' = res_release r"
    "res_cleanup r' = res_cleanup r" "live r' \<Longrightarrow> live r"
    "\<not> live r \<Longrightarrow> r' = r" "res_id r \<notin> ids \<Longrightarrow> r' = r"
  using assms by (auto simp: settled_def IsLive_def)

lemma settled_trans:
  assumes "settled ids r r'" and "settled ids r' r''"
  shows "settled ids r r''"
proof (cases "r' = r \<or> r'' = r'")
  case True
  with assms show ?thesis by auto
next
  case False
  with assms(2) have "live r'" by (simp add: settled_def)
  moreover from False assms(1) have "res_id r \<in> ids" "live r" by (simp_all add: settled_def)
  moreover obtain a b where "r' = r\<lparr>res_release_diagnostic := a, res_status := b\<rparr>"
    using False assms(1) by (auto simp: settled_def)
  moreover obtain a' b' where "r'' = r'\<lparr>res_release_diagnostic := a', res_status := b'\<rparr>"
      "b' \<in> {Released, ReleaseFailed}"
    using False assms(2) unfolding settled_def by blast
  ultimately show ?thesis
    unfolding settled_def by (intro disjI2 conjI bexI [of _ b'] exI [of _ a']) simp_all
qed

lemma settled_mono: "settled ids r r' \<Longrightarrow> ids \<subseteq> ids' \<Longrightarrow> settled ids' r r'"
  by (auto simp: settled_def)

abbreviation all_settled :: "u64 set \<Rightarrow> SessionResourceLedger \<Rightarrow> SessionResourceLedger \<Rightarrow> bool" where
  "all_settled ids L L' \<equiv> list_all2 (settled ids) (resources L) (resources L')"

text \<open>The fields an unwind step leaves alone.\<close>

definition same_frame :: "SessionResourceLedger \<Rightarrow> SessionResourceLedger \<Rightarrow> bool" where
  "same_frame L L' \<longleftrightarrow>
     owner_thread L' = owner_thread L \<and> ledger_state L' = ledger_state L \<and>
     session_id L' = session_id L \<and> workset_epoch L' = workset_epoch L \<and>
     session_root L' = session_root L \<and> next_scope_id L' = next_scope_id L \<and>
     next_resource_id L' = next_resource_id L \<and> next_sequence L' = next_sequence L \<and>
     next_continuation_id L' = next_continuation_id L \<and> scopes L' = scopes L \<and>
     pending_unwind L' = pending_unwind L \<and> bound_dispatcher L' = bound_dispatcher L"

lemma same_frame_refl [simp]: "same_frame L L"
  by (simp add: same_frame_def)

lemma same_frame_trans: "same_frame L L' \<Longrightarrow> same_frame L' L'' \<Longrightarrow> same_frame L L''"
  by (simp add: same_frame_def)

lemma sorted_resource_ids:
  "resource_list L \<Longrightarrow> distinct (map res_id (resources L))"
  unfolding resource_list_def
  by (intro sorted_wrt_less_distinct) (auto simp: sorted_wrt_map resource_order_def
      elim: sorted_wrt_mono_rel [rotated])

lemma FindResource_iff:
  "resource_list L \<Longrightarrow> FindResource r L = Some x \<longleftrightarrow> x \<in> set (resources L) \<and> res_id x = r"
  by (simp add: FindResource_def find_key_iff sorted_resource_ids)

section \<open>One settled release\<close>

definition severity :: "ResourceCleanupDisposition \<Rightarrow> nat" where
  "severity d = (case d of Clean \<Rightarrow> 0 | CleanWithDiagnostics \<Rightarrow> 1 | TaintRequired \<Rightarrow> 2)"

lemma severity_simps [simp]: "severity Clean = 0" "severity CleanWithDiagnostics = 1"
  "severity TaintRequired = 2" "severity d \<le> 2" "2 \<le> severity d \<longleftrightarrow> d = TaintRequired"
  by (cases d; simp add: severity_def)+

lemma settle_release_frame: "same_frame L (settle_release found release L)"
  by (simp add: same_frame_def settle_release_def Let_def)

lemma settle_release_settled:
  assumes list: "resource_list L" and found: "FindResource r L = Some found" and "live found"
  shows "all_settled {r} L (settle_release found release L)"
proof -
  have id: "res_id found = r" and "found \<in> set (resources L)"
    using found by (simp_all add: FindResource_iff [OF list])
  let ?f = "\<lambda>st x. if res_id x = r
      then x\<lparr>res_release_diagnostic := rr_diagnostic release, res_status := st\<rparr> else x"
  have "resources (settle_release found release L)
      = map (?f (if rr_status release = RS_Released then Released else ReleaseFailed)) (resources L)"
    using sorted_resource_ids [OF list] id
    by (simp add: settle_release_def Let_def update_first_map [where key = res_id])
  moreover have "settled {r} x (?f st x)"
    if "x \<in> set (resources L)" "st \<in> {Released, ReleaseFailed}" for x st
  proof (cases "res_id x = r")
    case True
    with that(1) have "x = found" using found by (metis FindResource_iff [OF list] option.inject)
    with True that(2) \<open>live found\<close> show ?thesis unfolding settled_def by auto
  qed simp
  ultimately show ?thesis by (auto simp: list_all2_map2 list.rel_refl_strong)
qed

lemma settle_release_disposition:
  "disposition (settle_release found release L) =
     (if rr_status release = RS_Released then disposition L
      else if res_cleanup found = Mandatory then TaintRequired
      else MergeDiagnosticDisposition (disposition L))"
  by (simp add: settle_release_def Let_def)


lemma list_all2_in2:
  "list_all2 P xs ys \<Longrightarrow> y \<in> set ys \<Longrightarrow> \<exists>x \<in> set xs. P x y"
  by (induction rule: list_all2_induct) auto

lemma list_all2_in1:
  "list_all2 P xs ys \<Longrightarrow> x \<in> set xs \<Longrightarrow> \<exists>y \<in> set ys. P x y"
  by (induction rule: list_all2_induct) auto

lemma settled_sorted:
  "list_all2 (settled ids) xs ys \<Longrightarrow> sorted_wrt resource_order xs \<Longrightarrow> sorted_wrt resource_order ys"
proof (induction rule: list_all2_induct)
  case (Cons x xs y ys)
  have "resource_order y y'" if y': "y' \<in> set ys" for y'
  proof -
    obtain x' where x': "x' \<in> set xs" "settled ids x' y'"
      using list_all2_in2 [OF Cons.hyps(2) y'] by blast
    note eq = settled_fields [OF x'(2)] settled_fields [OF Cons.hyps(1)]
    show ?thesis
      using Cons.prems x'(1) eq(8,18) by (simp add: resource_order_def same_release_def eq)
  qed
  with Cons show ?case by simp
qed simp

lemma resource_list_settled:
  assumes "resource_list L" and "same_frame L L'" and "all_settled ids L L'"
  shows "resource_list L'"
proof -
  have frame: "next_resource_id L' = next_resource_id L" "next_sequence L' = next_sequence L"
      "scopes L' = scopes L"
    using assms(2) by (simp_all add: same_frame_def)
  have "res_id y \<noteq> 0 \<and> res_id y < next_resource_id L \<and> res_sequence y \<noteq> 0 \<and>
      res_sequence y < next_sequence L \<and> owned_by L' y" if y: "y \<in> set (resources L')" for y
  proof -
    obtain x where x: "x \<in> set (resources L)" "settled ids x y"
      using list_all2_in2 [OF assms(3) y] by blast
    then show ?thesis
      using assms(1) settled_fields(1-4) [OF x(2)]
      by (simp add: resource_list_def owned_by_def frame)
  qed
  then show ?thesis
    using settled_sorted [OF assms(3)] assms(1) by (simp add: resource_list_def frame)
qed

lemma settle_release_failures:
  assumes "resource_list L" and "failures_recorded L"
    and found: "FindResource r L = Some found" and "live found"
  shows "failures_recorded (settle_release found release L)"
  unfolding failures_recorded_def
proof (intro ballI impI)
  let ?L = "settle_release found release L"
  fix y
  assume y: "y \<in> set (resources ?L)" and failed: "res_status y = ReleaseFailed"
  have id: "res_id found = r"
    using found by (simp add: FindResource_iff [OF assms(1)])
  have "resources ?L = map (\<lambda>x. if res_id x = r
      then x\<lparr>res_release_diagnostic := rr_diagnostic release, res_status :=
        (if rr_status release = RS_Released then Released else ReleaseFailed)\<rparr> else x) (resources L)"
    using sorted_resource_ids [OF assms(1)] id
    by (simp add: settle_release_def Let_def update_first_map [where key = res_id])
  with y obtain x where x: "x \<in> set (resources L)" "y = (if res_id x = r
      then x\<lparr>res_release_diagnostic := rr_diagnostic release, res_status :=
        (if rr_status release = RS_Released then Released else ReleaseFailed)\<rparr> else x)"
    by auto
  show "disposition ?L \<noteq> Clean \<and> (res_cleanup y = Mandatory \<longrightarrow> disposition ?L = TaintRequired)"
  proof (cases "res_id x = r")
    case True
    with x(1) have "x = found" using found by (metis FindResource_iff [OF assms(1)] option.inject)
    with x(2) True failed show ?thesis
      by (cases "rr_status release = RS_Released")
        (simp_all add: settle_release_disposition MergeDiagnosticDisposition_def)
  next
    case False
    with x failed have "res_status x = ReleaseFailed" "y = x" by simp_all
    with x(1) assms(2) show ?thesis
      unfolding failures_recorded_def
      by (simp add: settle_release_disposition MergeDiagnosticDisposition_def)
  qed
qed

lemma settle_release_severity:
  "severity (disposition L) \<le> severity (disposition (settle_release found release L))"
  by (cases "disposition L") (simp_all add: settle_release_disposition MergeDiagnosticDisposition_def)

definition progress :: "u64 set \<Rightarrow> SessionResourceLedger \<Rightarrow> SessionResourceLedger \<Rightarrow> bool" where
  "progress ids L L' \<longleftrightarrow> same_frame L L' \<and> all_settled ids L L' \<and>
     severity (disposition L) \<le> severity (disposition L') \<and>
     resource_list L' \<and> failures_recorded L'"

lemma progress_refl: "resource_list L \<Longrightarrow> failures_recorded L \<Longrightarrow> progress ids L L"
  by (simp add: progress_def list.rel_refl)

lemma progress_trans:
  assumes "progress ids L L'" and "progress ids' L' L''"
  shows "progress (ids \<union> ids') L L''"
proof -
  have ab: "all_settled (ids \<union> ids') L L'" "all_settled (ids \<union> ids') L' L''"
    using assms by (auto simp: progress_def elim!: list_all2_mono elim: settled_mono)
  have "all_settled (ids \<union> ids') L L''"
    by (rule list_all2_trans [OF settled_trans ab])
  with assms same_frame_trans [of L L' L''] show ?thesis by (simp add: progress_def)
qed

lemma settle_release_progress:
  assumes "resource_list L" and "failures_recorded L"
    and "FindResource r L = Some found" and "live found"
  shows "progress {r} L (settle_release found release L)"
  using assms resource_list_settled [OF assms(1) settle_release_frame settle_release_settled]
  by (simp add: progress_def settle_release_frame settle_release_settled settle_release_failures
      settle_release_severity)

section \<open>The loop of PumpUnwind\<close>

text \<open>What the loop does to the unwind itself.\<close>

definition same_unwind :: "PendingUnwind \<Rightarrow> PendingUnwind \<Rightarrow> bool" where
  "same_unwind p p' \<longleftrightarrow> pu_resources p' = pu_resources p \<and>
     pu_scopes_to_close p' = pu_scopes_to_close p \<and> pu_reason p' = pu_reason p \<and>
     pu_completion_state p' = pu_completion_state p \<and> pu_shutdown p' = pu_shutdown p \<and>
     pu_continuation p' = pu_continuation p"

lemma is_live_find:
  "resource_list L \<Longrightarrow> is_live L r \<longleftrightarrow> (\<exists>x. FindResource r L = Some x \<and> live x)"
  by (auto simp: is_live_def FindResource_iff)

lemma progress_live: "progress ids L L' \<Longrightarrow> is_live L' r \<Longrightarrow> is_live L r"
  unfolding is_live_def progress_def
  by (metis list_all2_in2 settled_fields(1,8))

lemma progress_live_outside:
  "progress ids L L' \<Longrightarrow> r \<notin> ids \<Longrightarrow> is_live L r \<Longrightarrow> is_live L' r"
  unfolding is_live_def progress_def
  by (metis list_all2_in1 settled_fields(10))

lemma pump_loop_skip:
  assumes "resource_list L" and "\<not> is_live L r"
  shows "pump_loop f (r # rs) p L d
    = pump_loop f rs (p\<lparr>pu_next_resource := Suc (pu_next_resource p)\<rparr>) L d"
  using assms by (auto simp: is_live_find Let_def split: option.split)

lemma pump_loop_live:
  assumes "resource_list L" and "FindResource r L = Some x" and "live x"
    and "f d (release_request p x L) = (res, d1)"
  shows "pump_loop f (r # rs) p L d =
    (let step = \<lparr>step_request = release_request p x L, step_result = res\<rparr>;
         stepped = p\<lparr>pu_steps := pu_steps p @ [step]\<rparr>
     in if rr_status res = RS_CleanupExecutionRequired
        then (Some (release_request p x L), stepped, L, d1)
        else pump_loop f rs (stepped\<lparr>pu_had_failure := pu_had_failure p \<or> rr_status res = RS_Failed,
               pu_next_resource := Suc (pu_next_resource p)\<rparr>) (settle_release x res L) d1)"
  using assms by (simp add: Let_def)

declare pump_loop.simps(2) [simp del]

text \<open>The cases of the induction over the loop: a resource is skipped, suspends it, or is settled.\<close>

lemma pump_loop_cases:
  assumes "pump_loop f (r # rs) p L d = (req, p', L', d')" and "resource_list L" "failures_recorded L"
  obtains (skipped) "\<not> is_live L r"
      "pump_loop f rs (p\<lparr>pu_next_resource := Suc (pu_next_resource p)\<rparr>) L d = (req, p', L', d')"
    | (suspended) x res where "FindResource r L = Some x" "live x" "req = Some (release_request p x L)"
      "L' = L" "p' = p\<lparr>pu_steps := pu_steps p @
        [\<lparr>step_request = release_request p x L, step_result = res\<rparr>]\<rparr>"
      "f d (release_request p x L) = (res, d')" "rr_status res = RS_CleanupExecutionRequired"
    | (settled) x res d1 where "FindResource r L = Some x" "live x" "res_id x = r"
      "f d (release_request p x L) = (res, d1)" "rr_status res \<noteq> RS_CleanupExecutionRequired"
      "progress {r} L (settle_release x res L)"
      "pump_loop f rs (p\<lparr>pu_steps := pu_steps p @
          [\<lparr>step_request = release_request p x L, step_result = res\<rparr>],
          pu_had_failure := pu_had_failure p \<or> rr_status res = RS_Failed,
          pu_next_resource := Suc (pu_next_resource p)\<rparr>) (settle_release x res L) d1
        = (req, p', L', d')"
proof (cases "is_live L r")
  case False
  then show ?thesis using assms skipped by (simp add: pump_loop_skip)
next
  case True
  then obtain x where x: "FindResource r L = Some x" "live x" using assms by (auto simp: is_live_find)
  obtain res d1 where d1: "f d (release_request p x L) = (res, d1)" by fastforce
  note loop = pump_loop_live [where f = f, OF assms(2) x d1, of rs]
  show ?thesis
  proof (cases "rr_status res = RS_CleanupExecutionRequired")
    case True
    with loop assms(1) have "req = Some (release_request p x L)" "L' = L" "d' = d1"
        "p' = p\<lparr>pu_steps := pu_steps p @
          [\<lparr>step_request = release_request p x L, step_result = res\<rparr>]\<rparr>"
      by (simp_all add: Let_def)
    with suspended [OF x] d1 True show ?thesis by simp
  next
    case False
    have "res_id x = r" using x assms(2) by (simp add: FindResource_iff)
    moreover have "pump_loop f rs (p\<lparr>pu_steps := pu_steps p @
          [\<lparr>step_request = release_request p x L, step_result = res\<rparr>],
          pu_had_failure := pu_had_failure p \<or> rr_status res = RS_Failed,
          pu_next_resource := Suc (pu_next_resource p)\<rparr>) (settle_release x res L) d1
        = (req, p', L', d')"
      using loop assms(1) False by (simp add: Let_def)
    ultimately show ?thesis
      using settled [OF x _ d1 False settle_release_progress [OF assms(2,3) x]] by blast
  qed
qed

lemma pump_loop_progress:
  assumes "pump_loop f rs p L d = (req, p', L', d')" and "resource_list L" and "failures_recorded L"
  shows "progress (set rs) L L'"
  using assms
proof (induction rs arbitrary: p L d)
  case Nil
  then show ?case by (simp add: progress_refl)
next
  case (Cons r rs)
  from Cons.prems show ?case
  proof (cases rule: pump_loop_cases)
    case skipped
    from progress_trans [OF progress_refl Cons.IH [OF this(2)], of "{r}"] Cons.prems
    show ?thesis by simp
  next
    case (suspended x res)
    with Cons.prems show ?thesis by (simp add: progress_refl)
  next
    case (settled x res d1)
    then have "resource_list (settle_release x res L)" "failures_recorded (settle_release x res L)"
      by (simp_all add: progress_def)
    from progress_trans [OF settled(6) Cons.IH [OF settled(7) this]] show ?thesis by simp
  qed
qed

lemma pump_loop_same_unwind:
  assumes "pump_loop f rs p L d = (req, p', L', d')" and "resource_list L" and "failures_recorded L"
  shows "same_unwind p p'"
  using assms
proof (induction rs arbitrary: p L d)
  case Nil
  then show ?case by (simp add: same_unwind_def)
next
  case (Cons r rs)
  from Cons.prems show ?case
  proof (cases rule: pump_loop_cases)
    case skipped
    from Cons.IH [OF this(2)] Cons.prems show ?thesis by (simp add: same_unwind_def)
  next
    case (suspended x res)
    then show ?thesis by (simp add: same_unwind_def)
  next
    case (settled x res d1)
    then have "resource_list (settle_release x res L)" "failures_recorded (settle_release x res L)"
      by (simp_all add: progress_def)
    from Cons.IH [OF settled(7) this] show ?thesis by (simp add: same_unwind_def)
  qed
qed

lemma pump_loop_steps:
  assumes "pump_loop f rs p L d = (req, p', L', d')" and "resource_list L" and "failures_recorded L"
  shows "\<exists>new. pu_steps p' = pu_steps p @ new \<and>
      (pu_had_failure p' \<longleftrightarrow> pu_had_failure p \<or> (\<exists>st \<in> set new. step_status st = RS_Failed))"
  using assms
proof (induction rs arbitrary: p L d)
  case Nil
  then show ?case by simp
next
  case (Cons r rs)
  from Cons.prems show ?case
  proof (cases rule: pump_loop_cases)
    case skipped
    from Cons.IH [OF this(2)] Cons.prems show ?thesis by simp
  next
    case (suspended x res)
    then show ?thesis by simp
  next
    case (settled x res d1)
    then have "resource_list (settle_release x res L)" "failures_recorded (settle_release x res L)"
      by (simp_all add: progress_def)
    from Cons.IH [OF settled(7) this] show ?thesis by auto
  qed
qed

lemma pump_loop_next:
  assumes "pump_loop f rs p L d = (None, p', L', d')" and "resource_list L" and "failures_recorded L"
  shows "pu_next_resource p' = pu_next_resource p + length rs"
  using assms
proof (induction rs arbitrary: p L d)
  case Nil
  then show ?case by simp
next
  case (Cons r rs)
  from Cons.prems show ?case
  proof (cases rule: pump_loop_cases)
    case skipped
    from Cons.IH [OF this(2)] Cons.prems show ?thesis by simp
  next
    case (settled x res d1)
    then have "resource_list (settle_release x res L)" "failures_recorded (settle_release x res L)"
      by (simp_all add: progress_def)
    from Cons.IH [OF settled(7) this] show ?thesis by simp
  qed simp
qed

text \<open>Where a suspended loop stands.\<close>

definition suspended_at :: "u64 list \<Rightarrow> nat \<Rightarrow> ResourceReleaseRequest \<Rightarrow> PendingUnwind \<Rightarrow>
    SessionResourceLedger \<Rightarrow> bool" where
  "suspended_at rs i q p L \<longleftrightarrow> i < length rs \<and>
     (\<exists>x \<in> set (resources L). res_id x = rs ! i \<and> live x \<and> q = release_request p x L) \<and>
     pu_steps p \<noteq> [] \<and> step_request (last (pu_steps p)) = q \<and>
     step_status (last (pu_steps p)) = RS_CleanupExecutionRequired"

lemma suspended_at_Cons: "suspended_at rs i q p L \<Longrightarrow> suspended_at (r # rs) (Suc i) q p L"
  by (simp add: suspended_at_def)

lemma pump_loop_suspended:
  assumes "pump_loop f rs p L d = (Some q, p', L', d')" and "resource_list L" "failures_recorded L"
  shows "\<exists>i. pu_next_resource p' = pu_next_resource p + i \<and> suspended_at rs i q p' L'"
  using assms
proof (induction rs arbitrary: p L d)
  case Nil
  then show ?case by simp
next
  case (Cons r rs)
  from Cons.prems show ?case
  proof (cases rule: pump_loop_cases)
    case skipped
    from Cons.IH [OF this(2)] Cons.prems show ?thesis by (auto intro: suspended_at_Cons)
  next
    case (suspended x res)
    then have "suspended_at (r # rs) 0 q p' L'" using Cons.prems(2)
      by (auto simp: suspended_at_def FindResource_iff release_request_def)
    with suspended(5) show ?thesis by (intro exI [of _ 0]) simp
  next
    case (settled x res d1)
    then have "resource_list (settle_release x res L)" "failures_recorded (settle_release x res L)"
      by (simp_all add: progress_def)
    from Cons.IH [OF settled(7) this] show ?thesis by (auto intro: suspended_at_Cons)
  qed
qed

section \<open>Finishing an unwind\<close>

definition closes :: "bool \<Rightarrow> u64 list \<Rightarrow> SessionResourceLedger \<Rightarrow> u64 \<Rightarrow> bool" where
  "closes shutdown ss L s \<longleftrightarrow> s \<in> set ss \<and> (shutdown \<or> \<not> still_owns_resource s L)"

definition with_closed :: "(u64 \<Rightarrow> bool) \<Rightarrow> SessionResourceLedger \<Rightarrow> SessionResourceLedger" where
  "with_closed P L = L\<lparr>scopes :=
     map (\<lambda>c. if P (scope_id c) then c\<lparr>scope_open := False\<rparr> else c) (scopes L)\<rparr>"

lemma with_closed_simps [simp]:
  "links (with_closed P L) = links L" "resources (with_closed P L) = resources L"
  "pending_unwind (with_closed P L) = pending_unwind L"
  "disposition (with_closed P L) = disposition L" "ledger_state (with_closed P L) = ledger_state L"
  "map scope_id (scopes (with_closed P L)) = map scope_id (scopes L)"
  by (simp_all add: with_closed_def links_def)

lemma with_closed_fields [simp]:
  "next_scope_id (with_closed P L) = next_scope_id L"
  "next_resource_id (with_closed P L) = next_resource_id L"
  "next_sequence (with_closed P L) = next_sequence L"
  "next_continuation_id (with_closed P L) = next_continuation_id L"
  "session_root (with_closed P L) = session_root L"
  "bound_dispatcher (with_closed P L) = bound_dispatcher L"
  "owner_thread (with_closed P L) = owner_thread L"
  "session_id (with_closed P L) = session_id L" "workset_epoch (with_closed P L) = workset_epoch L"
  "diagnostic (with_closed P L) = diagnostic L"
  by (simp_all add: with_closed_def)

lemma still_owns_with_closed [simp]:
  "still_owns_resource s (with_closed P L) = still_owns_resource s L"
  by (simp add: still_owns_resource_def subtree_links [of "with_closed P L" L])

lemma with_closed_with_closed: "with_closed P (with_closed Q L) = with_closed (\<lambda>s. P s \<or> Q s) L"
  by (simp add: with_closed_def comp_def)

lemma with_closed_none: "(\<And>s. \<not> P s) \<Longrightarrow> with_closed P L = L"
  by (simp add: with_closed_def)

lemma close_scope_eq:
  assumes "distinct (map scope_id (scopes L))"
  shows "close_scope shutdown s L = with_closed (closes shutdown [s] L) L"
proof (cases "still_owns_resource s L \<and> \<not> shutdown")
  case True
  then have "with_closed (closes shutdown [s] L) L = L"
    by (intro with_closed_none) (auto simp: closes_def)
  with True show ?thesis by (simp add: close_scope_def)
next
  case False
  then have "closes shutdown [s] L t \<longleftrightarrow> t = s" for t by (auto simp: closes_def)
  then have "with_closed (closes shutdown [s] L) L
      = L\<lparr>scopes := update_first (\<lambda>c. scope_id c = s) (\<lambda>c. c\<lparr>scope_open := False\<rparr>) (scopes L)\<rparr>"
    using assms by (simp add: with_closed_def update_first_map [where key = scope_id])
  with False show ?thesis unfolding close_scope_def by (simp only: if_False)
qed

lemma fold_close_scope:
  assumes "distinct (map scope_id (scopes L))"
  shows "fold (close_scope shutdown) ss L = with_closed (closes shutdown ss L) L"
  using assms
proof (induction ss rule: rev_induct)
  case Nil
  then show ?case by (simp add: closes_def with_closed_def)
next
  case (snoc s ss)
  let ?L = "with_closed (closes shutdown ss L) L"
  have "fold (close_scope shutdown) (ss @ [s]) L = close_scope shutdown s ?L"
    using snoc by simp
  also have "\<dots> = with_closed (closes shutdown [s] ?L) ?L"
    using snoc.prems by (intro close_scope_eq) simp
  also have "\<dots> = with_closed (closes shutdown (ss @ [s]) L) L"
    unfolding with_closed_with_closed
    by (rule arg_cong [of _ _ "\<lambda>P. with_closed P L"]) (auto simp: closes_def)
  finally show ?case .
qed

lemma FinishPendingUnwind_eq:
  assumes "scope_tree L" and "pending_unwind L = Some p"
  shows "FinishPendingUnwind L =
    (with_closed (closes (pu_shutdown p) (pu_scopes_to_close p) L) L)\<lparr>pending_unwind := None,
       ledger_state := (if pu_shutdown p then Closed
          else if disposition L = TaintRequired then Tainted else pu_completion_state p)\<rparr>"
  using assms by (simp add: FinishPendingUnwind_def fold_close_scope scope_tree_distinct Let_def)

lemma parent_rel_with_closed [simp]: "parent_rel (with_closed P L) = parent_rel L"
  by (simp add: parent_rel_links)

lemma scope_ids_with_closed [simp]: "scope_ids (with_closed P L) = scope_ids L"
  by (simp add: scope_ids_links)

lemma open_ids_with_closed [simp]: "open_ids (with_closed P L) = {s \<in> open_ids L. \<not> P s}"
  by (auto simp: open_ids_def with_closed_def split: if_splits)

lemma scope_tree_links: "scope_tree L \<longleftrightarrow>
   sorted_wrt (<) (map fst (links L)) \<and> session_root L < next_scope_id L \<and>
   (\<forall>(s, p) \<in> set (links L). s \<noteq> 0 \<and> s < next_scope_id L \<and>
      (p = 0 \<longleftrightarrow> s = session_root L) \<and> (p \<noteq> 0 \<longrightarrow> p < s \<and> p \<in> scope_ids L))"
  unfolding scope_tree_def links_def by (simp add: comp_def)

lemma scope_tree_with_closed [simp]: "scope_tree (with_closed P L) = scope_tree L"
  by (simp add: scope_tree_links)

lemma owned_by_with_closed [simp]: "owned_by (with_closed P L) r = owned_by L r"
proof -
  have "owned_by L r \<longleftrightarrow> (res_scope r, res_owner r) \<in> set (map (\<lambda>c. (scope_id c, scope_owner c)) (scopes L))"
    for L by (auto simp: owned_by_def intro: rev_image_eqI)
  moreover have "map (\<lambda>c. (scope_id c, scope_owner c)) (scopes (with_closed P L))
      = map (\<lambda>c. (scope_id c, scope_owner c)) (scopes L)"
    by (simp add: with_closed_def)
  ultimately show ?thesis by presburger
qed

lemma resource_list_with_closed [simp]: "resource_list (with_closed P L) = resource_list L"
  by (simp add: resource_list_def)

lemma still_owns_up:
  assumes "scope_tree L" and "(p, s) \<in> parent_rel L" and "still_owns_resource s L"
  shows "still_owns_resource p L"
  using assms unfolding still_owns_resource_def list_ex_iff
  by (metis IsInScopeSubtree_iff converse_rtrancl_into_rtrancl)

lemma open_ids_frame: "same_frame L L' \<Longrightarrow> open_ids L' = open_ids L"
  by (simp add: open_ids_def same_frame_def)

lemma parent_rel_frame: "same_frame L L' \<Longrightarrow> parent_rel L' = parent_rel L"
  by (simp add: parent_rel_def same_frame_def)

lemma scope_tree_frame: "same_frame L L' \<Longrightarrow> scope_tree L' = scope_tree L"
  by (simp add: scope_tree_def scope_ids_def same_frame_def)

lemma subtree_frame: "same_frame L L' \<Longrightarrow> IsInScopeSubtree c s L' = IsInScopeSubtree c s L"
  by (rule subtree_links) (simp add: same_frame_def links_def)

lemma unwind_wf_progress:
  assumes "unwind_wf L p" and "progress ids L L'" and "same_unwind p p'"
  shows "unwind_wf L' p'"
proof -
  from assms(2) have frame: "same_frame L L'" and sev: "severity (disposition L) \<le> severity (disposition L')"
    by (simp_all add: progress_def)
  have "disposition L = TaintRequired \<Longrightarrow> disposition L' = TaintRequired"
    using sev by simp
  then show ?thesis
    using assms(1,3) frame open_ids_frame [OF frame] parent_rel_frame [OF frame]
    by (simp add: unwind_wf_def same_unwind_def same_frame_def)
qed

text \<open>Openness without the phase it is claimed in.\<close>

definition opens_wf :: "SessionResourceLedger \<Rightarrow> bool" where
  "opens_wf L \<longleftrightarrow>
     (\<forall>(p, s) \<in> parent_rel L. s \<in> open_ids L \<longrightarrow> p \<in> open_ids L) \<and>
     (\<forall>r \<in> set (resources L). live r \<longrightarrow> res_scope r \<in> open_ids L)"

lemma opens_wf_progress:
  assumes "opens_wf L" and "progress ids L L'"
  shows "opens_wf L'"
proof -
  from assms(2) have frame: "same_frame L L'" and settled: "all_settled ids L L'"
    by (simp_all add: progress_def)
  have "res_scope y \<in> open_ids L" if y: "y \<in> set (resources L')" "live y" for y
  proof -
    obtain x where x: "x \<in> set (resources L)" "settled ids x y"
      using list_all2_in2 [OF settled y(1)] by blast
    with settled_fields(4,8) [OF x(2)] y(2) assms(1) show ?thesis by (simp add: opens_wf_def)
  qed
  with assms(1) open_ids_frame [OF frame] parent_rel_frame [OF frame] show ?thesis
    by (simp add: opens_wf_def)
qed

lemma opens_wf_closes:
  assumes tree: "scope_tree L" and opens: "opens_wf L" and "unwind_wf L p" and "\<not> pu_shutdown p"
  shows "opens_wf (with_closed (closes False (pu_scopes_to_close p) L) L)"
proof -
  have "p' \<in> open_ids L \<and> \<not> closes False (pu_scopes_to_close p) L p'"
    if "(p', s) \<in> parent_rel L" "s \<in> open_ids L" "\<not> closes False (pu_scopes_to_close p) L s" for p' s
  proof
    show "p' \<in> open_ids L" using that opens by (auto simp: opens_wf_def)
    show "\<not> closes False (pu_scopes_to_close p) L p'"
    proof
      assume c: "closes False (pu_scopes_to_close p) L p'"
      then have "s \<in> set (pu_scopes_to_close p)"
        using assms(3) that by (auto simp: unwind_wf_def closes_def)
      with that(3) have "still_owns_resource s L" by (simp add: closes_def)
      with still_owns_up [OF tree that(1)] c show False by (simp add: closes_def)
    qed
  qed
  moreover have "res_scope r \<in> open_ids L \<and> \<not> closes False (pu_scopes_to_close p) L (res_scope r)"
    if "r \<in> set (resources L)" "live r" for r
    using that opens by (auto simp: opens_wf_def closes_def still_owns_resource_def list_ex_iff
        IsInScopeSubtree_def)
  ultimately show ?thesis by (auto simp: opens_wf_def)
qed

lemma openness_wf_iff: "openness_wf L \<longleftrightarrow> (ledger_state L \<noteq> Closed \<longrightarrow> opens_wf L)"
  by (simp add: openness_wf_def opens_wf_def)

section \<open>Every pump keeps the invariant\<close>

text \<open>What holds while an unwind is under way, before it is suspended or finished.\<close>

definition unwinding :: "SessionResourceLedger \<Rightarrow> PendingUnwind \<Rightarrow> bool" where
  "unwinding L p \<longleftrightarrow> scope_tree L \<and> resource_list L \<and> failures_recorded L \<and> opens_wf L \<and>
     next_continuation_id L \<noteq> 0 \<and> ledger_state L = Unwinding \<and> unwind_wf L p"

lemma unwinding_progress:
  assumes "unwinding L p" and "progress ids L L'" and "same_unwind p p'"
  shows "unwinding L' p'"
proof -
  from assms(2) have frame: "same_frame L L'" by (simp add: progress_def)
  show ?thesis
    using assms frame scope_tree_frame [OF frame] opens_wf_progress [OF _ assms(2)]
      unwind_wf_progress [OF _ assms(2,3)]
    by (simp add: unwinding_def progress_def same_frame_def)
qed

text \<open>The bookkeeping of an unwind is invisible to everything but the phase.\<close>

lemma bookkeeping_parts [simp]:
  "links (L\<lparr>pending_unwind := a\<rparr>) = links L" "links (L\<lparr>ledger_state := b\<rparr>) = links L"
  "links (L\<lparr>bound_dispatcher := c\<rparr>) = links L" "links (L\<lparr>next_continuation_id := n\<rparr>) = links L"
  "open_ids (L\<lparr>pending_unwind := a\<rparr>) = open_ids L" "open_ids (L\<lparr>ledger_state := b\<rparr>) = open_ids L"
  "open_ids (L\<lparr>bound_dispatcher := c\<rparr>) = open_ids L"
  "open_ids (L\<lparr>next_continuation_id := n\<rparr>) = open_ids L"
  by (simp_all add: links_def open_ids_def)

lemma bookkeeping_scopes [simp]:
  "parent_rel (L\<lparr>pending_unwind := a\<rparr>) = parent_rel L" "parent_rel (L\<lparr>ledger_state := b\<rparr>) = parent_rel L"
  "parent_rel (L\<lparr>bound_dispatcher := c\<rparr>) = parent_rel L"
  "parent_rel (L\<lparr>next_continuation_id := n\<rparr>) = parent_rel L"
  "scope_tree (L\<lparr>pending_unwind := a\<rparr>) = scope_tree L" "scope_tree (L\<lparr>ledger_state := b\<rparr>) = scope_tree L"
  "scope_tree (L\<lparr>bound_dispatcher := c\<rparr>) = scope_tree L"
  "scope_tree (L\<lparr>next_continuation_id := n\<rparr>) = scope_tree L"
  by (simp_all add: parent_rel_links scope_tree_links scope_ids_links)

lemma bookkeeping_resources [simp]:
  "resource_list (L\<lparr>pending_unwind := a\<rparr>) = resource_list L"
  "resource_list (L\<lparr>ledger_state := b\<rparr>) = resource_list L"
  "resource_list (L\<lparr>bound_dispatcher := c\<rparr>) = resource_list L"
  "resource_list (L\<lparr>next_continuation_id := n\<rparr>) = resource_list L"
  "failures_recorded (L\<lparr>pending_unwind := a\<rparr>) = failures_recorded L"
  "failures_recorded (L\<lparr>ledger_state := b\<rparr>) = failures_recorded L"
  "failures_recorded (L\<lparr>bound_dispatcher := c\<rparr>) = failures_recorded L"
  "failures_recorded (L\<lparr>next_continuation_id := n\<rparr>) = failures_recorded L"
  "opens_wf (L\<lparr>pending_unwind := a\<rparr>) = opens_wf L" "opens_wf (L\<lparr>ledger_state := b\<rparr>) = opens_wf L"
  "opens_wf (L\<lparr>bound_dispatcher := c\<rparr>) = opens_wf L" "opens_wf (L\<lparr>next_continuation_id := n\<rparr>) = opens_wf L"
  by (simp_all add: resource_list_def owned_by_def failures_recorded_def opens_wf_def)

lemma bookkeeping_live [simp]:
  "is_live (L\<lparr>pending_unwind := a\<rparr>) r = is_live L r" "is_live (L\<lparr>ledger_state := b\<rparr>) r = is_live L r"
  "unwind_wf (L\<lparr>pending_unwind := a\<rparr>) p = unwind_wf L p"
  "unwind_wf (L\<lparr>ledger_state := b\<rparr>) p = unwind_wf L p"
  by (simp_all add: is_live_def unwind_wf_def)

lemma FinishPendingUnwind_inv:
  assumes un: "unwinding L p" and p: "pending_unwind L = Some p"
  shows "resource_ledger_inv (FinishPendingUnwind L)"
proof -
  let ?C = "with_closed (closes (pu_shutdown p) (pu_scopes_to_close p) L) L"
  have tree: "scope_tree L" and wf: "unwind_wf L p" using un by (simp_all add: unwinding_def)
  note eq = FinishPendingUnwind_eq [OF tree p]
  have opens: "opens_wf ?C" if "\<not> pu_shutdown p"
    using un opens_wf_closes [OF tree _ wf that] that by (simp add: unwinding_def)
  show ?thesis
    unfolding resource_ledger_inv_def
  proof (intro conjI)
    show "scope_tree (FinishPendingUnwind L)" "resource_list (FinishPendingUnwind L)"
      using un by (simp_all add: eq unwinding_def)
    show "disposition_wf (FinishPendingUnwind L)"
      using un wf by (auto simp: eq unwinding_def disposition_wf_def failures_recorded_def unwind_wf_def)
    show "openness_wf (FinishPendingUnwind L)"
      using opens by (auto simp: eq openness_wf_iff)
    show "phase_wf (FinishPendingUnwind L)"
      using un wf by (auto simp: eq unwinding_def phase_wf_def unwind_wf_def)
  qed
qed

lemma PumpUnwind_result:
  assumes un: "unwinding L p" and p: "pending_unwind L = Some p"
  obtains (suspended) q p' L1 d' i where
      "PumpUnwind f L d = (\<lparr>outcome = CleanupExecutionRequired, result_disposition = disposition L1,
         result_steps = pu_steps p', cleanup_execution_request =
           Some \<lparr>cer_continuation = pu_continuation p', cer_release = q\<rparr>, result_error = RL_None\<rparr>,
         L1\<lparr>pending_unwind := Some p'\<rparr>, d')"
      "unwinding L1 p'" "same_unwind p p'" "pu_next_resource p' = pu_next_resource p + i"
      "suspended_at (drop (pu_next_resource p) (pu_resources p)) i q p' L1"
      "progress (set (drop (pu_next_resource p) (pu_resources p))) L L1"
      "pump_loop f (drop (pu_next_resource p) (pu_resources p)) p L d = (Some q, p', L1, d')"
    | (finished) p' L1 d' where
      "PumpUnwind f L d = (finished_unwind (if pu_had_failure p' then CleanupFailed else Completed)
          (pu_steps p') (FinishPendingUnwind (L1\<lparr>pending_unwind := Some p'\<rparr>)),
         FinishPendingUnwind (L1\<lparr>pending_unwind := Some p'\<rparr>), d')"
      "unwinding L1 p'" "same_unwind p p'"
      "progress (set (drop (pu_next_resource p) (pu_resources p))) L L1"
      "pump_loop f (drop (pu_next_resource p) (pu_resources p)) p L d = (None, p', L1, d')"
proof -
  let ?rs = "drop (pu_next_resource p) (pu_resources p)"
  obtain req p' L1 d' where loop: "pump_loop f ?rs p L d = (req, p', L1, d')"
    by (cases "pump_loop f ?rs p L d") auto
  have wf: "resource_list L" "failures_recorded L" using un by (simp_all add: unwinding_def)
  note prog = pump_loop_progress [OF loop wf] and same = pump_loop_same_unwind [OF loop wf]
  note un1 = unwinding_progress [OF un prog same]
  show ?thesis
  proof (cases req)
    case None
    with loop p un1 prog same finished [of p' L1 d'] show ?thesis
      by (simp add: PumpUnwind_def Let_def)
  next
    case (Some q)
    with pump_loop_suspended [OF _ wf] loop obtain i where
      "pu_next_resource p' = pu_next_resource p + i" "suspended_at ?rs i q p' L1" by metis
    with Some loop p un1 prog same suspended [of L1 p' q d' i] show ?thesis
      by (simp add: PumpUnwind_def)
  qed
qed

lemma PumpUnwind_inv:
  assumes un: "unwinding L p" and p: "pending_unwind L = Some p"
  shows "resource_ledger_inv (fst (snd (PumpUnwind f L d)))"
  using un p
proof (cases rule: PumpUnwind_result [where f = f and d = d])
  case (suspended q p' L1 d' i)
  then have "pending_wf L1 p'"
    by (auto simp: pending_wf_def unwinding_def suspended_at_def same_unwind_def)
  with suspended(1,2) show ?thesis
    by (simp add: resource_ledger_inv_def unwinding_def disposition_wf_def openness_wf_iff
        phase_wf_def pending_wf_def release_request_def)
next
  case (finished p' L1 d')
  then have "unwinding (L1\<lparr>pending_unwind := Some p'\<rparr>) p'" by (simp add: unwinding_def)
  then show ?thesis using finished(1) by (simp add: FinishPendingUnwind_inv)
qed
end
