(* ===== verification/ResourceOperations.thy ===== *)
theory ResourceOperations
  imports ResourceUnwind
begin

text \<open>
  Every operation of the resource ledger keeps its invariant; the ledger as a machine whose
  step is one call, on some thread, with some dispatcher.
\<close>

section \<open>Every operation keeps the invariant\<close>

lemma StartUnwind_pump:
  assumes "pending_unwind L = None" "bound_dispatcher L \<in> {None, Some n}"
    "next_continuation_id L \<noteq> uint64_max"
  shows "StartUnwind rs ss reason st sh n f L d = PumpUnwind f (L\<lparr>
      pending_unwind := Some \<lparr>pu_resources = rs, pu_next_resource = 0, pu_scopes_to_close = ss,
        pu_reason = reason, pu_completion_state = st, pu_shutdown = sh, pu_had_failure = False,
        pu_continuation = next_continuation_id L, pu_steps = []\<rparr>,
      bound_dispatcher := Some n, next_continuation_id := next_continuation_id L + 1,
      ledger_state := Unwinding\<rparr>) d"
  using assms by (auto simp: StartUnwind_def)

definition may_unwind :: "SessionResourceLedger \<Rightarrow> u64 list \<Rightarrow> ResourceLedgerState \<Rightarrow> bool \<Rightarrow> bool" where
  "may_unwind L ss st sh \<longleftrightarrow> resource_ledger_inv L \<and> ledger_state L \<in> {Accepting, Tainted} \<and>
     (if sh then st = Closed else st = ledger_state L) \<and>
     (\<forall>(a, s) \<in> parent_rel L. a \<in> set ss \<and> s \<in> open_ids L \<longrightarrow> s \<in> set ss)"

lemma succ_not_zero: "(n :: u64) \<noteq> - 1 \<Longrightarrow> n + 1 \<noteq> 0"
  by (metis add.inverse_unique add.commute)

lemma less_succ: "(n :: u64) \<noteq> - 1 \<Longrightarrow> n < n + 1"
  using word_less_Suc [of n n] succ_not_zero [of n] by simp

lemma StartUnwind_unwinding:
  assumes may: "may_unwind L ss st sh" and "next_continuation_id L \<noteq> uint64_max"
  shows "unwinding (L\<lparr>
      pending_unwind := Some p, bound_dispatcher := Some n,
      next_continuation_id := next_continuation_id L + 1, ledger_state := Unwinding\<rparr>)
    \<lparr>pu_resources = rs, pu_next_resource = 0, pu_scopes_to_close = ss,
        pu_reason = reason, pu_completion_state = st, pu_shutdown = sh, pu_had_failure = False,
        pu_continuation = next_continuation_id L, pu_steps = []\<rparr>"
  using assms succ_not_zero [of "next_continuation_id L"] less_succ [of "next_continuation_id L"]
  by (auto simp: unwinding_def may_unwind_def resource_ledger_inv_def disposition_wf_def
      openness_wf_iff phase_wf_def unwind_wf_def split: if_splits)

lemma StartUnwind_inv:
  assumes "may_unwind L ss st sh"
  shows "resource_ledger_inv (fst (snd (StartUnwind rs ss reason st sh n f L d)))"
proof (cases "pending_unwind L = None \<and> bound_dispatcher L \<in> {None, Some n} \<and>
    next_continuation_id L \<noteq> uint64_max")
  case True
  then have free: "pending_unwind L = None" "bound_dispatcher L \<in> {None, Some n}"
      "next_continuation_id L \<noteq> uint64_max"
    by simp_all
  show ?thesis
    unfolding StartUnwind_pump [OF free]
    by (rule PumpUnwind_inv [OF StartUnwind_unwinding [OF assms free(3)]]) simp
next
  case False
  then have "fst (snd (StartUnwind rs ss reason st sh n f L d)) = L"
    by (auto simp: StartUnwind_def)
  with assms show ?thesis by (simp add: may_unwind_def)
qed

lemma Release_inv:
  "resource_ledger_inv L \<Longrightarrow> resource_ledger_inv (fst (snd (Release t r n f L d)))"
  by (auto simp: Release_def may_unwind_def split: option.split intro!: StartUnwind_inv)

lemma open_in_subtree_iff:
  "s \<in> set (open_in_subtree root L) \<longleftrightarrow> s \<in> open_ids L \<and> IsInScopeSubtree s root L"
  by (auto simp: open_in_subtree_def open_ids_def)

lemma CloseScope_may_unwind:
  assumes "resource_ledger_inv L" and "ledger_state L = st" and "st = Accepting \<or> st = Tainted"
  shows "may_unwind L (sort_key g (open_in_subtree s L)) st False"
  using assms by (auto simp: may_unwind_def open_in_subtree_iff resource_ledger_inv_def
      IsInScopeSubtree_iff intro: rtrancl_into_rtrancl)

lemma CloseScope_inv:
  "resource_ledger_inv L \<Longrightarrow> resource_ledger_inv (fst (snd (CloseScope t s n f L d)))"
  by (auto simp: CloseScope_def split: option.split intro!: StartUnwind_inv CloseScope_may_unwind)

lemma ContinueCleanup_inv:
  assumes "resource_ledger_inv L"
  shows "resource_ledger_inv (fst (snd (ContinueCleanup t c n f L d)))"
proof (cases "ledger_state L = Unwinding")
  case True
  then obtain p where p: "pending_unwind L = Some p" "pending_wf L p"
    using assms by (auto simp: resource_ledger_inv_def phase_wf_def)
  then have "unwinding L p" using assms True
    by (auto simp: resource_ledger_inv_def unwinding_def disposition_wf_def openness_wf_iff
        phase_wf_def pending_wf_def)
  with assms True p show ?thesis by (simp add: ContinueCleanup_def PumpUnwind_inv)
qed (simp add: ContinueCleanup_def assms)

lemma Shutdown_inv:
  assumes "resource_ledger_inv L"
  shows "resource_ledger_inv (fst (snd (Shutdown t n f L d)))"
proof -
  have "may_unwind L (map scope_id (filter scope_open (scopes L))) Closed True"
    if "ledger_state L \<in> {Accepting, Tainted}"
    using assms that by (auto simp: may_unwind_def open_ids_def)
  moreover have "resource_ledger_inv (L\<lparr>ledger_state := Closed\<rparr>)"
    if "ledger_state L = Uninitialized"
    using assms that
    by (simp add: resource_ledger_inv_def disposition_wf_def openness_wf_iff phase_wf_def)
  ultimately show ?thesis
    using assms by (cases "ledger_state L") (auto simp: Shutdown_def Let_def intro!: StartUnwind_inv)
qed

lemma new_resource_ledger_inv: "resource_ledger_inv (new_resource_ledger t)"
  by (simp add: resource_ledger_inv_def new_resource_ledger_def scope_tree_def resource_list_def
      disposition_wf_def failures_recorded_def openness_wf_def phase_wf_def parent_rel_def)

lemma Initialize_inv:
  assumes "resource_ledger_inv L"
  shows "resource_ledger_inv (snd (Initialize t s e w L))"
proof (cases "t = owner_thread L \<and> ledger_state L = Uninitialized \<and> s \<noteq> 0 \<and> e \<noteq> 0 \<and> w \<noteq> 0")
  case True
  with assms have start: "scopes L = []" "resources L = []" "disposition L = Clean"
      "next_scope_id L = 1" "resource_list L" "pending_unwind L = None" "next_continuation_id L \<noteq> 0"
    by (simp_all add: resource_ledger_inv_def phase_wf_def)
  define L' where "L' = snd (Initialize t s e w L)"
  have "scope_tree L'" "resource_list L'" "disposition_wf L'" "openness_wf L'" "phase_wf L'"
    using True start
    by (simp_all add: L'_def Initialize_def Let_def scope_tree_def resource_list_def
        disposition_wf_def failures_recorded_def openness_wf_iff opens_wf_def parent_rel_def phase_wf_def)
  then show ?thesis by (simp add: resource_ledger_inv_def L'_def)
qed (auto simp: Initialize_def assms)

lemma ValidateScope_ok:
  assumes "ValidateScopeForAcquisition s L = RL_None"
  obtains c where "FindScope s L = Some c" "scope_open c" "s \<noteq> 0"
  using assms by (auto simp: ValidateScopeForAcquisition_def split: if_splits option.splits)

lemma ValidateScope_open:
  assumes "scope_tree L" and "ValidateScopeForAcquisition s L = RL_None"
  shows "s \<in> open_ids L \<and> s \<in> scope_ids L \<and> s \<noteq> 0"
  using assms(2)
proof (rule ValidateScope_ok)
  fix c
  assume "FindScope s L = Some c" "scope_open c" "s \<noteq> 0"
  then show ?thesis using assms(1) by (auto simp: FindScope_iff open_ids_def scope_ids_def)
qed

lemma ValidateAccepting_ok: "ValidateAccepting L = RL_None \<longleftrightarrow> ledger_state L = Accepting"
  by (simp add: ValidateAccepting_def)

lemma OpenSyntheticScope_result:
  assumes "OpenSyntheticScope t p w l L = (Inr c, L')"
  shows "ledger_state L = Accepting" "ValidateScopeForAcquisition p L = RL_None" "w \<noteq> 0"
    "next_scope_id L \<noteq> uint64_max"
    "c = \<lparr>scope_session = session_id L, scope_id = next_scope_id L, scope_parent = p,
       scope_owner = w, scope_kind = Synthetic, scope_open = True, scope_diagnostic_label = l\<rparr>"
    "L' = L\<lparr>scopes := scopes L @ [c], next_scope_id := next_scope_id L + 1\<rparr>"
  using assms by (auto simp: OpenSyntheticScope_def ValidateAccepting_ok Let_def split: if_splits)

lemma open_ids_set: "open_ids L = set (map scope_id (filter scope_open (scopes L)))"
  by (auto simp: open_ids_def)

lemma OpenSyntheticScope_inv:
  assumes inv: "resource_ledger_inv L"
  shows "resource_ledger_inv (snd (OpenSyntheticScope t p w l L))"
proof (cases "OpenSyntheticScope t p w l L")
  case (Pair r L')
  show ?thesis
  proof (cases r)
    case (Inl e)
    with Pair have "L' = L" by (auto simp: OpenSyntheticScope_def Let_def split: if_splits)
    with Pair inv show ?thesis by simp
  next
    case (Inr c)
    note res = OpenSyntheticScope_result [OF Pair [unfolded Inr]]
    have tree: "scope_tree L" and list: "resource_list L" and opens: "opens_wf L"
      using inv res(1) by (simp_all add: resource_ledger_inv_def openness_wf_iff)
    note p = ValidateScope_open [OF tree res(2)]
    note nxt = less_succ [OF res(4)] succ_not_zero [OF res(4)]
    have ids: "scope_ids L' = insert (next_scope_id L) (scope_ids L)"
        "open_ids L' = insert (next_scope_id L) (open_ids L)"
        "parent_rel L' = insert (p, next_scope_id L) (parent_rel L)"
      using p by (auto simp: scope_ids_def open_ids_set parent_rel_links links_def res(5,6))
    have below: "s < next_scope_id L" if "s \<in> scope_ids L" for s
      using tree that by (auto simp: scope_tree_def scope_ids_def)
    have "scope_tree L'"
      using tree nxt p below
      by (auto simp: scope_tree_def res(5,6) sorted_wrt_append scope_ids_def intro: order.strict_trans)
    moreover have "resource_list L'"
      using list by (auto simp: resource_list_def res(6) owned_by_def)
    moreover have "disposition_wf L'" "phase_wf L'"
      using inv res(1) by (simp_all add: resource_ledger_inv_def disposition_wf_def
          failures_recorded_def phase_wf_def res(6))
    moreover have "(a, next_scope_id L) \<notin> parent_rel L" for a
      using below [of "next_scope_id L"] by (auto simp: parent_rel_def scope_ids_def)
    then have "openness_wf L'"
      using opens p ids below unfolding openness_wf_iff opens_wf_def
      by (auto simp: res(6) simp del: bookkeeping_parts)
    ultimately show ?thesis using Pair by (simp add: resource_ledger_inv_def)
  qed
qed

text \<open>The receipts of an acquisition carry consecutive identities and sequence numbers.\<close>

definition receipt_of ::
  "SessionResourceLedger \<Rightarrow> u64 \<Rightarrow> u64 \<Rightarrow> u64 \<Rightarrow> ResourceAcquisitionDefinition \<Rightarrow> ResourceReceipt" where
  "receipt_of L s r q d = \<lparr>res_session = session_id L, res_id = r, res_sequence = q,
      res_owner = def_owner d, res_service = def_service d, res_scope = s,
      res_release = def_release d, res_acquisition_epoch = workset_epoch L,
      res_promotion = def_promotion d, res_cleanup = def_cleanup d, res_status = Active,
      res_diagnostic_label = def_diagnostic_label d, res_release_diagnostic = []\<rparr>"

lemma receipt_of_simps [simp]:
  "res_id (receipt_of L s r q d) = r" "res_sequence (receipt_of L s r q d) = q"
  "res_owner (receipt_of L s r q d) = def_owner d" "res_scope (receipt_of L s r q d) = s"
  "res_status (receipt_of L s r q d) = Active" "live (receipt_of L s r q d)"
  "res_service (receipt_of L s r q d) = def_service d"
  "res_release (receipt_of L s r q d) = def_release d"
  by (simp_all add: receipt_of_def IsLive_def)

lemma length_make_receipts [simp]: "length (make_receipts L s r q ds) = length ds"
  by (induction ds arbitrary: r q) simp_all

lemma make_receipts_nth:
  "k < length ds \<Longrightarrow>
    make_receipts L s r q ds ! k = receipt_of L s (r + of_nat k) (q + of_nat k) (ds ! k)"
proof (induction ds arbitrary: r q k)
  case (Cons d ds)
  then show ?case by (cases k) (simp_all add: receipt_of_def add.assoc)
qed simp

lemma validate_definitions_ok:
  assumes "validate_definitions owning L earlier ds = RL_None"
  shows "(\<forall>d \<in> set ds. def_owner d \<noteq> 0 \<and> def_service d \<noteq> 0 \<and>
      rel_external_id (def_release d) \<noteq> 0 \<and>
      (\<exists>c. owning = Some c \<and> def_owner d = scope_owner c) \<and>
      (\<forall>r \<in> set (resources L). \<not> same_identity d r) \<and>
      (def_service d, def_release d) \<notin> (\<lambda>e. (def_service e, def_release e)) ` set earlier) \<and>
    distinct (map (\<lambda>d. (def_service d, def_release d)) ds)"
  using assms
proof (induction ds arbitrary: earlier)
  case (Cons d ds)
  then have "validate_definitions owning L (earlier @ [d]) ds = RL_None"
    by (simp split: if_splits)
  from Cons.IH [OF this] Cons.prems show ?case
    by (auto simp: list_ex_iff image_iff split: if_splits option.splits)
qed simp

lemma add_of_nat_bound:
  assumes "n \<le> unat (uint64_max - i)" and "k \<le> n"
  shows "unat (i + of_nat k) = unat i + k"
proof -
  have "unat (uint64_max - i) = unat uint64_max - unat i"
    by (rule unat_sub) simp
  also have "unat uint64_max = 2 ^ 64 - 1"
    by (simp add: unsigned_minus_1_eq_mask mask_eq_exp_minus_1)
  finally have "unat (uint64_max - i) = 2 ^ 64 - 1 - unat i" .
  moreover have "unat i < 2 ^ LENGTH(64)" by (rule unsigned_less)
  ultimately have "unat i + k < 2 ^ 64" using assms by simp
  then show ?thesis by (simp add: unat_word_ariths unat_of_nat)
qed

lemma of_nat_bounds:
  assumes "n \<le> unat (uint64_max - i)" and "i \<noteq> 0"
  shows "k < n \<Longrightarrow> i + of_nat k \<noteq> 0 \<and> i + of_nat k < i + of_nat n"
    and "i + of_nat n \<noteq> 0" and "i \<le> i + of_nat n"
    and "j < k \<Longrightarrow> k < n \<Longrightarrow> i + of_nat j < i + of_nat k"
  using add_of_nat_bound [OF assms(1)] assms(2)
  by (simp_all add: word_less_nat_alt word_le_nat_alt unat_eq_0 [symmetric] del: unat_eq_0)

lemma Acquire_result:
  assumes "Acquire t s ds L = (Inr rs, L')" and "ds \<noteq> []"
  shows "ledger_state L = Accepting" "ValidateScopeForAcquisition s L = RL_None"
    "length ds \<le> unat (uint64_max - next_resource_id L)" "length ds \<le> unat (uint64_max - next_sequence L)"
    "validate_definitions (FindScope s L) L [] ds = RL_None"
    "rs = make_receipts L s (next_resource_id L) (next_sequence L) ds"
    "L' = L\<lparr>resources := resources L @ rs,
       next_resource_id := next_resource_id L + of_nat (length ds),
       next_sequence := next_sequence L + of_nat (length ds)\<rparr>"
  using assms by (auto simp: Acquire_def ValidateAccepting_ok Let_def split: if_splits)

lemma same_identity_receipt: "live x \<Longrightarrow>
    same_identity d x \<longleftrightarrow> res_service x = def_service d \<and> res_release x = def_release d"
  by (simp add: same_identity_def)

lemma Acquire_order:
  assumes acquired: "Acquire t s ds L = (Inr rs, L')" and "ds \<noteq> []" and list: "resource_list L"
  shows "sorted_wrt resource_order (resources L @ rs)"
proof -
  note res = Acquire_result [OF acquired assms(2)]
  note ids = of_nat_bounds [OF res(3)] and seqs = of_nat_bounds [OF res(4)]
  have nz: "next_resource_id L \<noteq> 0" "next_sequence L \<noteq> 0" using list by (simp_all add: resource_list_def)
  note valid = validate_definitions_ok [OF res(5)]
  have "sorted_wrt resource_order rs"
    unfolding sorted_wrt_iff_nth_less
  proof (intro allI impI)
    fix i j
    assume "i < j" "j < length rs"
    then have ij: "i < length ds" "j < length ds" "i < j" by (simp_all add: res(6))
    then have "(def_service (ds ! i), def_release (ds ! i)) \<noteq> (def_service (ds ! j), def_release (ds ! j))"
      using valid by (auto simp: distinct_conv_nth)
    then show "resource_order (rs ! i) (rs ! j)"
      using ids(4) [OF nz(1) ij(3,2)] seqs(4) [OF nz(2) ij(3,2)] ij
      by (simp add: res(6) make_receipts_nth resource_order_def same_release_def)
  qed
  moreover have "resource_order x y" if x: "x \<in> set (resources L)" and y: "y \<in> set rs" for x y
  proof -
    obtain k where k: "k < length ds" "y = receipt_of L s (next_resource_id L + of_nat k)
        (next_sequence L + of_nat k) (ds ! k)"
      using y by (auto simp: res(6) in_set_conv_nth make_receipts_nth)
    have below: "res_id x < next_resource_id L" "res_sequence x < next_sequence L"
      using list x by (simp_all add: resource_list_def)
    have k_le: "next_resource_id L \<le> next_resource_id L + of_nat k"
        "next_sequence L \<le> next_sequence L + of_nat k"
      using of_nat_bounds(3) [of k "next_resource_id L"] of_nat_bounds(3) [of k "next_sequence L"]
        res(3,4) nz k(1) by auto
    have "\<not> same_identity (ds ! k) x" using valid k(1) x by auto
    then show ?thesis
      using below k_le k(2) by (auto simp: resource_order_def same_release_def same_identity_receipt)
  qed
  ultimately show ?thesis using list by (simp add: sorted_wrt_append resource_list_def)
qed

lemma Acquire_inv:
  assumes inv: "resource_ledger_inv L"
  shows "resource_ledger_inv (snd (Acquire t s ds L))"
proof (cases "\<exists>rs L'. Acquire t s ds L = (Inr rs, L') \<and> ds \<noteq> []")
  case False
  then have "snd (Acquire t s ds L) = L" by (auto simp: Acquire_def Let_def)
  with inv show ?thesis by simp
next
  case True
  then obtain rs L' where acquired: "Acquire t s ds L = (Inr rs, L')" and "ds \<noteq> []" by blast
  note res = Acquire_result [OF this]
  have tree: "scope_tree L" and list: "resource_list L" and opens: "opens_wf L"
    using inv res(1) by (simp_all add: resource_ledger_inv_def openness_wf_iff)
  have nz: "next_resource_id L \<noteq> 0" "next_sequence L \<noteq> 0" using list by (simp_all add: resource_list_def)
  note ids = of_nat_bounds [OF res(3) nz(1)] and seqs = of_nat_bounds [OF res(4) nz(2)]
  obtain c where c: "FindScope s L = Some c" "scope_open c" "s \<noteq> 0" using res(2) by (rule ValidateScope_ok)
  have new: "res_id y \<noteq> 0 \<and> res_id y < next_resource_id L' \<and> res_sequence y \<noteq> 0 \<and>
      res_sequence y < next_sequence L' \<and> owned_by L' y \<and> res_scope y = s \<and> res_status y = Active"
    if y: "y \<in> set rs" for y
  proof -
    obtain k where k: "k < length ds" "y = receipt_of L s (next_resource_id L + of_nat k)
        (next_sequence L + of_nat k) (ds ! k)"
      using y by (auto simp: res(6) in_set_conv_nth make_receipts_nth)
    then have "scope_owner c = def_owner (ds ! k)"
      using validate_definitions_ok [OF res(5)] c(1) by auto
    then have "owned_by L' y"
      using c(1) k(2) by (auto simp: owned_by_def res(7) FindScope_iff [OF tree])
    with ids(1) [OF k(1)] seqs(1) [OF k(1)] k(2) show ?thesis by (simp add: res(7))
  qed
  have old: "res_id y < next_resource_id L' \<and> res_sequence y < next_sequence L'"
    if "y \<in> set (resources L)" for y
    using list that ids(3) seqs(3) by (auto simp: resource_list_def res(7))
  have "resource_list L'"
    using Acquire_order [OF acquired \<open>ds \<noteq> []\<close> list] list old new ids(2) seqs(2)
    by (auto simp: resource_list_def res(7) owned_by_def)
  moreover have "scope_tree L'" using tree by (simp add: scope_tree_def scope_ids_def res(7))
  moreover have "disposition_wf L'" "phase_wf L'"
    using inv res(1) new by (auto simp: resource_ledger_inv_def disposition_wf_def
        failures_recorded_def phase_wf_def res(7) split: option.splits)
  moreover have "openness_wf L'"
  proof -
    have "open_ids L' = open_ids L" "parent_rel L' = parent_rel L"
      by (simp_all add: open_ids_def parent_rel_def res(7))
    moreover have "s \<in> open_ids L" using ValidateScope_open [OF tree res(2)] by simp
    moreover have "resources L' = resources L @ rs" by (simp add: res(7))
    ultimately show ?thesis using opens new by (auto simp: openness_wf_iff opens_wf_def)
  qed
  ultimately show ?thesis using acquired by (simp add: resource_ledger_inv_def)
qed

lemma Promote_result:
  assumes "Promote t r s L = (Inr (moved, x), L')"
  obtains (same) "moved = False" "L' = L" "FindResource r L = Some x" "res_scope x = s"
    | (moved) y c where "moved" "FindResource r L = Some y" "live y" "FindScope s L = Some c" "scope_open c"
      "scope_owner c = res_owner y" "IsAncestor s (res_scope y) L" "res_promotion y \<noteq> Forbidden"
      "res_promotion y = ImmediateParent \<longrightarrow> ParentOf (res_scope y) L = s"
      "x = y\<lparr>res_scope := s\<rparr>" "ledger_state L = Accepting"
      "L' = L\<lparr>resources := update_first (\<lambda>x. res_id x = r) (\<lambda>x. x\<lparr>res_scope := s\<rparr>) (resources L)\<rparr>"
proof -
  have acc: "ledger_state L = Accepting" "ValidateScopeForAcquisition s L = RL_None"
    using assms by (auto simp: Promote_def ValidateAccepting_ok split: if_splits)
  obtain c where c: "FindScope s L = Some c" "scope_open c" using acc(2) by (rule ValidateScope_ok)
  obtain y where y: "FindResource r L = Some y" "live y" "scope_owner c = res_owner y"
    using assms c by (auto simp: Promote_def split: if_splits option.splits)
  show ?thesis
  proof (cases "res_scope y = s")
    case True
    with assms y c acc same show ?thesis by (simp add: Promote_def split: if_splits)
  next
    case False
    with assms y c acc moved [of y c] show ?thesis by (simp add: Promote_def split: if_splits)
  qed
qed

lemma Promote_inv:
  assumes inv: "resource_ledger_inv L"
  shows "resource_ledger_inv (snd (Promote t r s L))"
proof (cases "\<exists>moved x L'. Promote t r s L = (Inr (moved, x), L')")
  case False
  then have "snd (Promote t r s L) = L"
    by (auto simp: Promote_def split: option.splits)
  with inv show ?thesis by simp
next
  case True
  then obtain moved x L' where promoted: "Promote t r s L = (Inr (moved, x), L')" by blast
  then show ?thesis
  proof (cases rule: Promote_result)
    case same
    with promoted inv show ?thesis by simp
  next
    case (moved y c)
    have tree: "scope_tree L" and list: "resource_list L" and opens: "opens_wf L"
      using inv moved(11) by (simp_all add: resource_ledger_inv_def openness_wf_iff)
    have c: "c \<in> set (scopes L)" "scope_id c = s" using moved(4) by (simp_all add: FindScope_iff tree)
    let ?f = "\<lambda>x. if res_id x = r then x\<lparr>res_scope := s\<rparr> else x"
    have rs: "resources L' = map ?f (resources L)"
      using sorted_resource_ids [OF list] by (simp add: moved(12) update_first_map [where key = res_id])
    have frame: "scopes L' = scopes L" "next_resource_id L' = next_resource_id L"
        "next_sequence L' = next_sequence L" "ledger_state L' = ledger_state L"
        "disposition L' = disposition L" "session_root L' = session_root L"
        "next_scope_id L' = next_scope_id L" "pending_unwind L' = pending_unwind L"
        "next_continuation_id L' = next_continuation_id L"
      by (simp_all add: moved(12))
    have only: "z = y" if "z \<in> set (resources L)" "res_id z = r" for z
      using that moved(2) by (metis FindResource_iff [OF list] option.inject)
    have "resource_order (?f a) (?f b) \<longleftrightarrow> resource_order a b" for a b
      by (simp add: resource_order_def same_release_def)
    then have "sorted_wrt resource_order (resources L')"
      using list by (simp add: rs sorted_wrt_map resource_list_def)
    moreover have "res_id w \<noteq> 0 \<and> res_id w < next_resource_id L \<and> res_sequence w \<noteq> 0 \<and>
        res_sequence w < next_sequence L \<and> owned_by L' w" if "w \<in> set (resources L')" for w
    proof -
      from that obtain z where w: "w = ?f z" and z: "z \<in> set (resources L)"
        unfolding rs set_map by (rule imageE)
      have "owned_by L' (?f z)"
        using z list only [OF z] c moved(6) by (auto simp: resource_list_def owned_by_def frame)
      moreover have "res_id w = res_id z" "res_sequence w = res_sequence z" by (simp_all add: w)
      ultimately show ?thesis using z list w by (simp only: resource_list_def) blast
    qed
    ultimately have "resource_list L'"
      using list by (simp add: resource_list_def frame)
    moreover have "scope_tree L'" using tree by (simp add: scope_tree_def scope_ids_def frame)
    moreover have "disposition_wf L'"
      using inv by (auto simp: resource_ledger_inv_def disposition_wf_def failures_recorded_def frame rs)
    moreover have "phase_wf L'"
      using inv moved(11) by (simp add: resource_ledger_inv_def phase_wf_def frame split: option.splits)
    moreover have "openness_wf L'"
    proof -
      have "open_ids L' = open_ids L" "parent_rel L' = parent_rel L"
        by (simp_all add: open_ids_def parent_rel_def frame)
      moreover have "s \<in> open_ids L" using c moved(5) by (auto simp: open_ids_def)
      ultimately show ?thesis using opens by (auto simp: openness_wf_iff opens_wf_def rs)
    qed
    ultimately show ?thesis using promoted by (simp add: resource_ledger_inv_def)
  qed
qed

section \<open>The ledger as a machine\<close>

text \<open>
  One operation, called on a thread with a dispatcher, on the ledger and the state of the
  dispatchers; \<open>release_of n\<close> is the \<open>Release\<close> function of dispatcher \<open>n\<close>.
\<close>

datatype resource_operation =
    Op_Initialize u64 u64 u64
  | Op_OpenSyntheticScope u64 u64 string
  | Op_Acquire u64 "ResourceAcquisitionDefinition list"
  | Op_Promote u64 u64
  | Op_Release u64
  | Op_CloseScope u64
  | Op_ContinueCleanup u64
  | Op_Shutdown

fun resource_step ::
  "(nat \<Rightarrow> 'd release_fn) \<Rightarrow> thread_id \<times> nat \<times> resource_operation \<Rightarrow>
    SessionResourceLedger \<times> 'd \<Rightarrow> SessionResourceLedger \<times> 'd" where
  "resource_step release_of (t, n, Op_Initialize s e w) (L, d) = (snd (Initialize t s e w L), d)"
| "resource_step release_of (t, n, Op_OpenSyntheticScope p w l) (L, d) =
     (snd (OpenSyntheticScope t p w l L), d)"
| "resource_step release_of (t, n, Op_Acquire s ds) (L, d) = (snd (Acquire t s ds L), d)"
| "resource_step release_of (t, n, Op_Promote r s) (L, d) = (snd (Promote t r s L), d)"
| "resource_step release_of (t, n, Op_Release r) (L, d) = snd (Release t r n (release_of n) L d)"
| "resource_step release_of (t, n, Op_CloseScope s) (L, d) = snd (CloseScope t s n (release_of n) L d)"
| "resource_step release_of (t, n, Op_ContinueCleanup c) (L, d) =
     snd (ContinueCleanup t c n (release_of n) L d)"
| "resource_step release_of (t, n, Op_Shutdown) (L, d) = snd (Shutdown t n (release_of n) L d)"

lemma resource_step_inv:
  "resource_ledger_inv (fst S) \<Longrightarrow> resource_ledger_inv (fst (resource_step release_of x S))"
  by (cases "(release_of, x, S)" rule: resource_step.cases)
    (simp_all add: Initialize_inv OpenSyntheticScope_inv Acquire_inv Promote_inv Release_inv
      CloseScope_inv ContinueCleanup_inv Shutdown_inv)

interpretation resource_machine: invariant_machine "resource_step release_of"
  "\<lambda>S. resource_ledger_inv (fst S)" for release_of
  by unfold_locales (rule resource_step_inv)

lemma resource_reachable_inv:
  assumes "reachable_from (resource_step release_of) (new_resource_ledger t, d0) (L, d)"
  shows "resource_ledger_inv L"
  using resource_machine.reachable_inv [OF assms] new_resource_ledger_inv by simp
end
