(* ===== verification/ResourceHistory.thy ===== *)
theory ResourceHistory
  imports ResourceOperations
begin

text \<open>
  What no operation of the resource ledger undoes: scopes stay closed, released resources stay
  as they are, identities and sequence numbers are not reused, the disposition only worsens.
\<close>

section \<open>What never goes back\<close>

definition scope_le :: "ResourceScopeReceipt \<Rightarrow> ResourceScopeReceipt \<Rightarrow> bool" where
  "scope_le c c' \<longleftrightarrow> scope_id c' = scope_id c \<and> scope_parent c' = scope_parent c \<and>
     scope_owner c' = scope_owner c \<and> (scope_open c' \<longrightarrow> scope_open c)"

definition resource_le :: "ResourceReceipt \<Rightarrow> ResourceReceipt \<Rightarrow> bool" where
  "resource_le r r' \<longleftrightarrow> res_id r' = res_id r \<and> res_sequence r' = res_sequence r \<and>
     res_owner r' = res_owner r \<and> res_service r' = res_service r \<and>
     res_release r' = res_release r \<and> (\<not> live r \<longrightarrow> r' = r)"

definition list_grows :: "('a \<Rightarrow> 'a \<Rightarrow> bool) \<Rightarrow> 'a list \<Rightarrow> 'a list \<Rightarrow> bool" where
  "list_grows le xs ys \<longleftrightarrow> length xs \<le> length ys \<and> (\<forall>i < length xs. le (xs ! i) (ys ! i))"

lemma list_grows_refl: "(\<And>x. le x x) \<Longrightarrow> list_grows le xs xs"
  by (simp add: list_grows_def)

lemma list_grows_trans:
  "(\<And>x y z. le x y \<Longrightarrow> le y z \<Longrightarrow> le x z) \<Longrightarrow> list_grows le xs ys \<Longrightarrow> list_grows le ys zs \<Longrightarrow> list_grows le xs zs"
  unfolding list_grows_def by (meson order.strict_trans2 order.trans)

lemma list_grows_append: "(\<And>x. le x x) \<Longrightarrow> list_grows le xs (xs @ ys)"
  by (simp add: list_grows_def nth_append)

lemma list_grows_all2: "list_all2 P xs ys \<Longrightarrow> (\<And>x y. P x y \<Longrightarrow> le x y) \<Longrightarrow> list_grows le xs ys"
  by (simp add: list_grows_def list_all2_conv_all_nth)

lemma list_grows_map: "(\<And>x. le x (f x)) \<Longrightarrow> list_grows le xs (map f xs)"
  by (simp add: list_grows_def)

definition resource_ledger_le :: "SessionResourceLedger \<Rightarrow> SessionResourceLedger \<Rightarrow> bool" where
  "resource_ledger_le L L' \<longleftrightarrow>
     list_grows scope_le (scopes L) (scopes L') \<and>
     list_grows resource_le (resources L) (resources L') \<and>
     severity (disposition L) \<le> severity (disposition L') \<and>
     next_scope_id L \<le> next_scope_id L' \<and> next_resource_id L \<le> next_resource_id L' \<and>
     next_sequence L \<le> next_sequence L' \<and> next_continuation_id L \<le> next_continuation_id L' \<and>
     (\<forall>n. bound_dispatcher L = Some n \<longrightarrow> bound_dispatcher L' = Some n) \<and>
     (ledger_state L = Closed \<longrightarrow> L' = L)"

lemma scope_le_refl [simp]: "scope_le c c"
  by (simp add: scope_le_def)

lemma resource_le_refl [simp]: "resource_le r r"
  by (simp add: resource_le_def)

lemma scope_le_trans: "scope_le c d \<Longrightarrow> scope_le d e \<Longrightarrow> scope_le c e"
  by (auto simp: scope_le_def)

lemma resource_le_trans: "resource_le c d \<Longrightarrow> resource_le d e \<Longrightarrow> resource_le c e"
  unfolding resource_le_def by metis

lemma resource_ledger_le_refl: "resource_ledger_le L L"
  by (simp add: resource_ledger_le_def list_grows_refl)

lemma resource_ledger_le_trans:
  assumes "resource_ledger_le L M" and "resource_ledger_le M N"
  shows "resource_ledger_le L N"
proof -
  have "list_grows scope_le (scopes L) (scopes N)" "list_grows resource_le (resources L) (resources N)"
    using assms list_grows_trans [of scope_le, OF scope_le_trans]
      list_grows_trans [of resource_le, OF resource_le_trans]
    by (auto simp: resource_ledger_le_def)
  then show ?thesis using assms by (auto simp: resource_ledger_le_def intro: order.trans)
qed

lemma settled_le: "settled ids r r' \<Longrightarrow> resource_le r r'"
  by (auto simp: settled_def resource_le_def)

lemma progress_le: "progress ids L L' \<Longrightarrow> ledger_state L \<noteq> Closed \<Longrightarrow> resource_ledger_le L L'"
  by (auto simp: progress_def same_frame_def resource_ledger_le_def list_grows_refl
      intro: list_grows_all2 settled_le)

lemma FinishPendingUnwind_le:
  assumes "scope_tree L" and "pending_unwind L = Some p" and "ledger_state L \<noteq> Closed"
  shows "resource_ledger_le L (FinishPendingUnwind L)"
  using assms(3) unfolding FinishPendingUnwind_eq [OF assms(1,2)]
  by (simp add: resource_ledger_le_def list_grows_refl with_closed_def)
    (simp add: list_grows_map scope_le_def)

lemma PumpUnwind_le:
  assumes un: "unwinding L p" and p: "pending_unwind L = Some p"
  shows "resource_ledger_le L (fst (snd (PumpUnwind f L d)))"
proof -
  have nc: "ledger_state L \<noteq> Closed" using un by (simp add: unwinding_def)
  have pending: "resource_ledger_le M (M\<lparr>pending_unwind := q\<rparr>)" if "ledger_state M \<noteq> Closed" for M q
    using that by (simp add: resource_ledger_le_def list_grows_refl)
  from un p show ?thesis
  proof (cases rule: PumpUnwind_result [where f = f and d = d])
    case (suspended q p' L1 d' i)
    then show ?thesis
      using resource_ledger_le_trans [OF progress_le [OF suspended(6) nc] pending, of "Some p'"]
      by (simp add: unwinding_def)
  next
    case (finished p' L1 d')
    let ?M = "L1\<lparr>pending_unwind := Some p'\<rparr>"
    have "resource_ledger_le L ?M"
      using resource_ledger_le_trans [OF progress_le [OF finished(4) nc] pending, of "Some p'"]
        finished(2) by (simp add: unwinding_def)
    moreover have "resource_ledger_le ?M (FinishPendingUnwind ?M)"
      using finished(2) by (intro FinishPendingUnwind_le) (simp_all add: unwinding_def)
    ultimately show ?thesis using finished(1) by (auto intro: resource_ledger_le_trans)
  qed
qed

lemma StartUnwind_le:
  assumes may: "may_unwind L ss st sh"
  shows "resource_ledger_le L (fst (snd (StartUnwind rs ss reason st sh n f L d)))"
proof (cases "pending_unwind L = None \<and> bound_dispatcher L \<in> {None, Some n} \<and>
    next_continuation_id L \<noteq> uint64_max")
  case True
  then have free: "pending_unwind L = None" "bound_dispatcher L \<in> {None, Some n}"
      "next_continuation_id L \<noteq> uint64_max"
    by simp_all
  let ?p = "\<lparr>pu_resources = rs, pu_next_resource = 0, pu_scopes_to_close = ss,
        pu_reason = reason, pu_completion_state = st, pu_shutdown = sh, pu_had_failure = False,
        pu_continuation = next_continuation_id L, pu_steps = []\<rparr>"
  let ?M = "L\<lparr>pending_unwind := Some ?p, bound_dispatcher := Some n,
      next_continuation_id := next_continuation_id L + 1, ledger_state := Unwinding\<rparr>"
  have "resource_ledger_le L ?M"
    using may free less_succ [OF free(3)]
    by (auto simp: resource_ledger_le_def list_grows_refl may_unwind_def)
  moreover have "resource_ledger_le ?M (fst (snd (PumpUnwind f ?M d)))"
    by (rule PumpUnwind_le [OF StartUnwind_unwinding [OF may free(3)]]) simp
  ultimately show ?thesis
    unfolding StartUnwind_pump [OF free] by (rule resource_ledger_le_trans)
next
  case False
  then have "fst (snd (StartUnwind rs ss reason st sh n f L d)) = L"
    by (auto simp: StartUnwind_def)
  then show ?thesis by (simp add: resource_ledger_le_refl)
qed

lemma Initialize_le:
  assumes "resource_ledger_inv L"
  shows "resource_ledger_le L (snd (Initialize t s e w L))"
  using assms by (auto simp: Initialize_def Let_def resource_ledger_le_def resource_ledger_inv_def
      phase_wf_def list_grows_def)

lemma Acquire_le:
  assumes inv: "resource_ledger_inv L"
  shows "resource_ledger_le L (snd (Acquire t s ds L))"
proof (cases "\<exists>rs L'. Acquire t s ds L = (Inr rs, L') \<and> ds \<noteq> []")
  case False
  then have "snd (Acquire t s ds L) = L" by (auto simp: Acquire_def Let_def)
  then show ?thesis by (simp add: resource_ledger_le_refl)
next
  case True
  then obtain rs L' where acquired: "Acquire t s ds L = (Inr rs, L')" and "ds \<noteq> []" by blast
  note res = Acquire_result [OF this]
  have "next_resource_id L \<noteq> 0" "next_sequence L \<noteq> 0"
    using inv by (simp_all add: resource_ledger_inv_def resource_list_def)
  then show ?thesis
    using acquired res(1) of_nat_bounds(3) [OF res(3)] of_nat_bounds(3) [OF res(4)]
    by (simp add: resource_ledger_le_def list_grows_refl list_grows_append res(7))
qed

lemma OpenSyntheticScope_le: "resource_ledger_le L (snd (OpenSyntheticScope t p w l L))"
proof (cases "OpenSyntheticScope t p w l L")
  case (Pair r L')
  show ?thesis
  proof (cases r)
    case (Inl e)
    with Pair have "L' = L" by (auto simp: OpenSyntheticScope_def Let_def split: if_splits)
    with Pair show ?thesis by (simp add: resource_ledger_le_refl)
  next
    case (Inr c)
    note res = OpenSyntheticScope_result [OF Pair [unfolded Inr]]
    show ?thesis
      using res(1) less_succ [OF res(4)] Pair
      by (simp add: resource_ledger_le_def list_grows_refl list_grows_append res(6))
  qed
qed

lemma Promote_le:
  assumes inv: "resource_ledger_inv L"
  shows "resource_ledger_le L (snd (Promote t r s L))"
proof (cases "\<exists>moved x L'. Promote t r s L = (Inr (moved, x), L')")
  case False
  then have "snd (Promote t r s L) = L"
    by (auto simp: Promote_def split: option.splits)
  then show ?thesis by (simp add: resource_ledger_le_refl)
next
  case True
  then obtain moved x L' where promoted: "Promote t r s L = (Inr (moved, x), L')" by blast
  then show ?thesis
  proof (cases rule: Promote_result)
    case same
    with promoted show ?thesis by (simp add: resource_ledger_le_refl)
  next
    case (moved y c)
    have list: "resource_list L" using inv by (simp add: resource_ledger_inv_def)
    have "resource_le z (if res_id z = r then z\<lparr>res_scope := s\<rparr> else z)" if "z \<in> set (resources L)" for z
      using that moved(2,3) FindResource_iff [OF list, of r z] by (auto simp: resource_le_def)
    then have "list_grows resource_le (resources L) (resources L')"
      using sorted_resource_ids [OF list]
      by (simp add: moved(12) update_first_map [where key = res_id] list_grows_def)
    then show ?thesis
      using promoted moved(11) by (simp add: resource_ledger_le_def list_grows_refl moved(12))
  qed
qed

lemma unwinding_pending:
  assumes "resource_ledger_inv L" and "ledger_state L = Unwinding"
  obtains p where "pending_unwind L = Some p" "pending_wf L p" "unwinding L p"
proof -
  from assms obtain p where p: "pending_unwind L = Some p" "pending_wf L p"
    by (auto simp: resource_ledger_inv_def phase_wf_def)
  then have "unwinding L p" using assms
    by (auto simp: resource_ledger_inv_def unwinding_def disposition_wf_def openness_wf_iff
        phase_wf_def pending_wf_def)
  with p that show ?thesis by blast
qed

lemma Release_le:
  "resource_ledger_inv L \<Longrightarrow> resource_ledger_le L (fst (snd (Release t r n f L d)))"
  by (auto simp: Release_def may_unwind_def resource_ledger_le_refl split: option.split intro!: StartUnwind_le)

lemma CloseScope_le:
  "resource_ledger_inv L \<Longrightarrow> resource_ledger_le L (fst (snd (CloseScope t s n f L d)))"
  by (auto simp: CloseScope_def resource_ledger_le_refl split: option.split
      intro!: StartUnwind_le CloseScope_may_unwind)

lemma ContinueCleanup_le:
  assumes "resource_ledger_inv L"
  shows "resource_ledger_le L (fst (snd (ContinueCleanup t c n f L d)))"
proof (cases "ledger_state L = Unwinding")
  case True
  with assms obtain p where "pending_unwind L = Some p" "unwinding L p" by (rule unwinding_pending)
  with True show ?thesis by (simp add: ContinueCleanup_def PumpUnwind_le resource_ledger_le_refl)
qed (simp add: ContinueCleanup_def resource_ledger_le_refl)

lemma Shutdown_le:
  assumes "resource_ledger_inv L"
  shows "resource_ledger_le L (fst (snd (Shutdown t n f L d)))"
proof -
  have "may_unwind L (map scope_id (filter scope_open (scopes L))) Closed True"
    if "ledger_state L \<in> {Accepting, Tainted}"
    using assms that by (auto simp: may_unwind_def open_ids_def)
  moreover have "resource_ledger_le L (L\<lparr>ledger_state := Closed\<rparr>)"
    if "ledger_state L = Uninitialized"
    using that by (simp add: resource_ledger_le_def list_grows_refl)
  ultimately show ?thesis
    by (cases "ledger_state L")
      (auto simp: Shutdown_def Let_def resource_ledger_le_refl intro!: StartUnwind_le)
qed

lemma resource_step_le:
  "resource_ledger_inv (fst S) \<Longrightarrow> resource_ledger_le (fst S) (fst (resource_step release_of x S))"
  by (cases "(release_of, x, S)" rule: resource_step.cases)
    (simp_all add: Initialize_le OpenSyntheticScope_le Acquire_le Promote_le Release_le
      CloseScope_le ContinueCleanup_le Shutdown_le)

interpretation resource_history: monotone_machine "resource_step release_of"
  "\<lambda>S. resource_ledger_inv (fst S)" "\<lambda>S S'. resource_ledger_le (fst S) (fst S')" for release_of
  by unfold_locales (auto intro: resource_ledger_le_refl resource_ledger_le_trans resource_step_le)
end
