(* ===== verification/ResourceCompletion.thy ===== *)
theory ResourceCompletion
  imports ResourceHistory
begin

text \<open>
  What a finished unwind has done: the steps it took, what they made of every resource, the
  order it took them in, and how \<open>CloseScope\<close> starts one.
\<close>

section \<open>A completed unwind\<close>

text \<open>What the steps of an unwind make of a resource.\<close>

definition settle_by :: "ResourceUnwindStep list \<Rightarrow> ResourceReceipt \<Rightarrow> ResourceReceipt" where
  "settle_by steps r = (case List.find (\<lambda>st. released_id st = res_id r) steps of
       None \<Rightarrow> r
     | Some st \<Rightarrow> r\<lparr>res_release_diagnostic := rr_diagnostic (step_result st),
         res_status := (if step_status st = RS_Released then Released else ReleaseFailed)\<rparr>)"

lemma settle_by_none: "res_id r \<notin> released_id ` set steps \<Longrightarrow> settle_by steps r = r"
proof -
  assume "res_id r \<notin> released_id ` set steps"
  then have "List.find (\<lambda>st. released_id st = res_id r) steps = None"
    by (auto simp: find_None_iff image_iff)
  then show ?thesis by (simp add: settle_by_def)
qed

lemma settle_by_Nil [simp]: "settle_by [] = (\<lambda>r. r)"
  by (simp add: settle_by_def fun_eq_iff)

lemma settle_release_map:
  assumes "resource_list L" and "FindResource r L = Some x"
  shows "resources (settle_release x res L) =
    map (settle_by [\<lparr>step_request = release_request p x L, step_result = res\<rparr>]) (resources L)"
proof -
  have "res_id x = r" using assms by (simp add: FindResource_iff)
  then show ?thesis
    using sorted_resource_ids [OF assms(1)]
    by (auto simp: settle_release_def Let_def update_first_map [where key = res_id] settle_by_def
        release_request_def)
qed

definition done_by :: "u64 list \<Rightarrow> ResourceUnwindStep list \<Rightarrow> SessionResourceLedger \<Rightarrow>
    SessionResourceLedger \<Rightarrow> bool" where
  "done_by rs new L L' \<longleftrightarrow>
     map released_id new = filter (is_live L) rs \<and>
     (\<forall>st \<in> set new. step_status st \<noteq> RS_CleanupExecutionRequired \<and>
        req_receipt (step_request st) \<in> set (resources L)) \<and>
     resources L' = map (settle_by new) (resources L)"

lemma pump_loop_done:
  assumes "pump_loop f rs p L d = (None, p', L', d')" and "resource_list L" "failures_recorded L"
    and "distinct rs"
  shows "\<exists>new. pu_steps p' = pu_steps p @ new \<and> done_by rs new L L' \<and>
    (pu_had_failure p' \<longleftrightarrow> pu_had_failure p \<or> (\<exists>st \<in> set new. step_status st = RS_Failed))"
  using assms
proof (induction rs arbitrary: p L d)
  case Nil
  then show ?case by (simp add: done_by_def)
next
  case (Cons r rs)
  from Cons.prems(1-3) show ?case
  proof (cases rule: pump_loop_cases)
    case skipped
    from Cons.IH [OF this(2)] Cons.prems skipped(1) show ?thesis by (simp add: done_by_def)
  next
    case (settled x res d1)
    let ?st = "\<lparr>step_request = release_request p x L, step_result = res\<rparr>"
    let ?L = "settle_release x res L"
    from settled(6) have "resource_list ?L" "failures_recorded ?L" by (simp_all add: progress_def)
    from Cons.IH [OF settled(7) this] Cons.prems(4) obtain new where
      steps: "pu_steps p' = pu_steps p @ ?st # new" and new: "done_by rs new ?L L'" and
      failure: "pu_had_failure p' \<longleftrightarrow> pu_had_failure p \<or> rr_status res = RS_Failed \<or>
        (\<exists>st \<in> set new. step_status st = RS_Failed)"
      by auto
    have x: "x \<in> set (resources L)" "released_id ?st = r"
      using settled(1,3) Cons.prems(2) by (simp_all add: FindResource_iff release_request_def)
    have others: "is_live ?L q \<longleftrightarrow> is_live L q" if "q \<noteq> r" for q
      using progress_live [OF settled(6)] progress_live_outside [OF settled(6), of q] that by auto
    then have live: "filter (is_live ?L) rs = filter (is_live L) rs"
      using Cons.prems(4) by (intro filter_cong refl others) auto
    have fresh: "released_id st \<noteq> r" if "st \<in> set new" for st
    proof -
      have "released_id st \<in> set (map released_id new)" using that by simp
      then show ?thesis using new Cons.prems(4) by (auto simp: done_by_def simp del: set_map)
    qed
    have rs: "resources ?L = map (settle_by [?st]) (resources L)"
      by (rule settle_release_map [OF Cons.prems(2) settled(1)])
    have "settle_by new (settle_by [?st] y) = settle_by (?st # new) y" for y
    proof (cases "res_id y = r")
      case True
      have "r \<notin> released_id ` set new" by (auto dest: fresh)
      then have "settle_by new (settle_by [?st] y) = settle_by [?st] y"
        using True by (intro settle_by_none) (simp add: settle_by_def)
      with True x(2) show ?thesis by (simp add: settle_by_def)
    next
      case False
      with x(2) show ?thesis by (simp add: settle_by_def)
    qed
    then have "resources L' = map (settle_by (?st # new)) (resources L)"
      using new rs by (simp add: done_by_def comp_def)
    moreover have "req_receipt (step_request st) \<in> set (resources L)" if "st \<in> set new" for st
    proof -
      have "req_receipt (step_request st) \<in> set (resources ?L)" using new that by (simp add: done_by_def)
      with rs obtain y where y: "y \<in> set (resources L)" "req_receipt (step_request st) = settle_by [?st] y"
        by auto
      moreover have "res_id y \<noteq> r" using fresh [OF that] y(2) x(2)
        by (auto simp: settle_by_def split: if_splits)
      ultimately show ?thesis using x(2) by (simp add: settle_by_def)
    qed
    moreover have "is_live L r" using settled(1,2) Cons.prems(2) by (auto simp: is_live_find)
    ultimately have "done_by (r # rs) (?st # new) L L'"
      using new live x settled(5) unfolding done_by_def by (auto simp: release_request_def)
    with steps failure show ?thesis by (intro exI [of _ "?st # new"]) auto
  qed simp
qed

section \<open>The resources an unwind covers\<close>

lemma sort_latest_first_set [simp]:
  "set (sort_latest_first L ids) = set ids" "distinct (sort_latest_first L ids) = distinct ids"
  by (simp_all add: sort_latest_first_def)

lemma live_in_subtree_distinct: "resource_list L \<Longrightarrow> distinct (live_in_subtree s L)"
  by (simp add: live_in_subtree_def distinct_map_filter sorted_resource_ids)

lemma live_in_subtree_live: "r \<in> set (live_in_subtree s L) \<Longrightarrow> is_live L r"
  by (auto simp: live_in_subtree_def is_live_def)

definition sequence_of :: "SessionResourceLedger \<Rightarrow> u64 \<Rightarrow> u64" where
  "sequence_of L r = (case FindResource r L of None \<Rightarrow> 0 | Some x \<Rightarrow> res_sequence x)"

lemma sequence_of_resource:
  "resource_list L \<Longrightarrow> x \<in> set (resources L) \<Longrightarrow> sequence_of L (res_id x) = res_sequence x"
  using FindResource_iff [of L "res_id x" x] by (simp add: sequence_of_def)

lemma sequence_inj:
  assumes list: "resource_list L" and "x \<in> set (resources L)" "y \<in> set (resources L)"
    and "res_sequence x = res_sequence y"
  shows "x = y"
proof -
  from assms(2,3) obtain i j where ij: "i < length (resources L)" "x = resources L ! i"
      "j < length (resources L)" "y = resources L ! j"
    by (auto simp: in_set_conv_nth)
  have "res_sequence (resources L ! a) < res_sequence (resources L ! b)"
    if "a < b" "b < length (resources L)" for a b
    using list that sorted_wrt_nth_less [of resource_order "resources L" a b]
    by (simp add: resource_list_def resource_order_def)
  from this [of i j] this [of j i] ij assms(4) have "i = j" by (cases i j rule: linorder_cases) auto
  with ij show ?thesis by simp
qed

text \<open>The release order: strictly descending acquisition sequence.\<close>

lemma sort_latest_first_order:
  assumes list: "resource_list L" and "distinct ids" and ids: "\<forall>r \<in> set ids. r \<in> res_id ` set (resources L)"
  shows "sorted_wrt (>) (map (sequence_of L) (sort_latest_first L ids))"
proof -
  let ?key = "\<lambda>r. case FindResource r L of None \<Rightarrow> 0 | Some x \<Rightarrow> - uint (res_sequence x)"
  let ?xs = "sort_latest_first L ids"
  have sorted: "sorted (map ?key ?xs)" by (simp add: sort_latest_first_def)
  have key: "?key r = - uint (sequence_of L r)" for r
    by (simp add: sequence_of_def split: option.split)
  have "sequence_of L (?xs ! j) < sequence_of L (?xs ! i)" if "i < j" "j < length ?xs" for i j
  proof -
    have "?key (?xs ! i) \<le> ?key (?xs ! j)"
      using sorted_nth_mono [OF sorted, of i j] that by simp
    then have "sequence_of L (?xs ! j) \<le> sequence_of L (?xs ! i)"
      unfolding key by (simp add: word_le_def)
    moreover have "?xs ! i \<noteq> ?xs ! j"
      using assms(2) that by (simp add: nth_eq_iff_index_eq)
    moreover have "?xs ! i \<in> res_id ` set (resources L)" "?xs ! j \<in> res_id ` set (resources L)"
      using ids nth_mem [of i ?xs] nth_mem [of j ?xs] that by simp_all
    then obtain x y where "x \<in> set (resources L)" "?xs ! i = res_id x"
        "y \<in> set (resources L)" "?xs ! j = res_id y"
      by (elim imageE)
    moreover from this have "sequence_of L (?xs ! i) \<noteq> sequence_of L (?xs ! j)"
      using sequence_inj [OF list, of x y] sequence_of_resource [OF list, of x]
        sequence_of_resource [OF list, of y] \<open>?xs ! i \<noteq> ?xs ! j\<close> by metis
    ultimately show ?thesis by simp
  qed
  then show ?thesis by (simp add: sorted_wrt_iff_nth_less)
qed

section \<open>How an unwind starts\<close>

definition fresh_unwind :: "u64 list \<Rightarrow> u64 list \<Rightarrow> ResourceReleaseReason \<Rightarrow> ResourceLedgerState \<Rightarrow> bool \<Rightarrow>
    SessionResourceLedger \<Rightarrow> PendingUnwind" where
  "fresh_unwind rs ss reason st sh L = \<lparr>pu_resources = rs, pu_next_resource = 0,
     pu_scopes_to_close = ss, pu_reason = reason, pu_completion_state = st, pu_shutdown = sh,
     pu_had_failure = False, pu_continuation = next_continuation_id L, pu_steps = []\<rparr>"

definition started :: "PendingUnwind \<Rightarrow> nat \<Rightarrow> SessionResourceLedger \<Rightarrow> SessionResourceLedger" where
  "started p n L = L\<lparr>pending_unwind := Some p, bound_dispatcher := Some n,
      next_continuation_id := next_continuation_id L + 1, ledger_state := Unwinding\<rparr>"

definition can_start :: "nat \<Rightarrow> SessionResourceLedger \<Rightarrow> bool" where
  "can_start n L \<longleftrightarrow> pending_unwind L = None \<and> bound_dispatcher L \<in> {None, Some n} \<and>
     next_continuation_id L \<noteq> uint64_max"

lemma fresh_unwind_simps [simp]:
  "pu_resources (fresh_unwind rs ss reason st sh L) = rs"
  "pu_next_resource (fresh_unwind rs ss reason st sh L) = 0"
  "pu_scopes_to_close (fresh_unwind rs ss reason st sh L) = ss"
  "pu_reason (fresh_unwind rs ss reason st sh L) = reason"
  "pu_completion_state (fresh_unwind rs ss reason st sh L) = st"
  "pu_shutdown (fresh_unwind rs ss reason st sh L) = sh"
  "pu_had_failure (fresh_unwind rs ss reason st sh L) = False"
  "pu_continuation (fresh_unwind rs ss reason st sh L) = next_continuation_id L"
  "pu_steps (fresh_unwind rs ss reason st sh L) = []"
  by (simp_all add: fresh_unwind_def)

lemma started_simps [simp]:
  "pending_unwind (started p n L) = Some p" "resources (started p n L) = resources L"
  "scopes (started p n L) = scopes L" "links (started p n L) = links L"
  "disposition (started p n L) = disposition L" "ledger_state (started p n L) = Unwinding"
  "FindResource r (started p n L) = FindResource r L" "is_live (started p n L) = is_live L"
  "resource_list (started p n L) = resource_list L" "failures_recorded (started p n L) = failures_recorded L"
  "workset_epoch (started p n L) = workset_epoch L"
  by (simp_all add: started_def FindResource_def is_live_def fun_eq_iff)

lemma StartUnwind_started:
  "can_start n L \<Longrightarrow> StartUnwind rs ss reason st sh n f L d
    = PumpUnwind f (started (fresh_unwind rs ss reason st sh L) n L) d"
  by (simp add: StartUnwind_pump can_start_def started_def fresh_unwind_def)

lemma StartUnwind_refused:
  "\<not> can_start n L \<Longrightarrow> \<exists>e. StartUnwind rs ss reason st sh n f L d = (RejectedUnwind e L, L, d)"
  by (auto simp: StartUnwind_def can_start_def)

lemma started_unwinding:
  "may_unwind L ss st sh \<Longrightarrow> can_start n L \<Longrightarrow>
    unwinding (started (fresh_unwind rs ss reason st sh L) n L) (fresh_unwind rs ss reason st sh L)"
  unfolding started_def fresh_unwind_def can_start_def
  by (rule StartUnwind_unwinding) simp_all

abbreviation close_resources :: "u64 \<Rightarrow> SessionResourceLedger \<Rightarrow> u64 list" where
  "close_resources s L \<equiv> sort_latest_first L (live_in_subtree s L)"

abbreviation close_scopes :: "u64 \<Rightarrow> SessionResourceLedger \<Rightarrow> u64 list" where
  "close_scopes s L \<equiv> sort_key (\<lambda>c. - int (scope_depth L c)) (open_in_subtree s L)"

lemma CloseScope_started:
  assumes close: "CloseScope t s n f L d = (res, L', d')" and inv: "resource_ledger_inv L"
    and "outcome res \<noteq> Rejected" "outcome res \<noteq> AlreadyComplete"
  obtains p where "p = fresh_unwind (close_resources s L) (close_scopes s L) ScopeExit (ledger_state L) False L"
    "unwinding (started p n L) p" "PumpUnwind f (started p n L) d = (res, L', d')"
    "ledger_state L \<in> {Accepting, Tainted}" "s \<in> open_ids L" "s \<noteq> session_root L" "can_start n L"
proof -
  let ?p = "fresh_unwind (close_resources s L) (close_scopes s L) ScopeExit (ledger_state L) False L"
  have phase: "ledger_state L \<in> {Accepting, Tainted}" "s \<noteq> session_root L"
    using close assms(3) by (auto simp: CloseScope_def RejectedUnwind_def split: if_splits)
  obtain c where c: "FindScope s L = Some c" "scope_open c"
    using close assms(3,4) phase
    by (auto simp: CloseScope_def RejectedUnwind_def finished_unwind_def split: if_splits option.splits)
  have run: "StartUnwind (close_resources s L) (close_scopes s L) ScopeExit (ledger_state L) False n f L d
      = (res, L', d')"
    using close assms(3) phase c by (auto simp: CloseScope_def RejectedUnwind_def split: if_splits)
  have can: "can_start n L"
  proof (rule ccontr)
    assume "\<not> can_start n L"
    from StartUnwind_refused [OF this] run obtain e where "res = RejectedUnwind e L" by (metis prod.inject)
    with assms(3) show False by (simp add: RejectedUnwind_def)
  qed
  have may: "may_unwind L (close_scopes s L) (ledger_state L) False"
    using inv phase(1) by (intro CloseScope_may_unwind) auto
  have "scope_tree L" using inv by (simp add: resource_ledger_inv_def)
  with c have "s \<in> open_ids L" by (auto simp: FindScope_iff open_ids_def)
  then show ?thesis
    using that [OF refl started_unwinding [OF may can]] run phase can
    by (simp add: StartUnwind_started)
qed

lemma subtree_started [simp]: "IsInScopeSubtree c s (started p n L) = IsInScopeSubtree c s L"
  by (rule subtree_links) simp


lemma CloseScope_unwinds:
  assumes inv: "resource_ledger_inv L"
    and close: "CloseScope t s n f L d = (res, L', d')"
    and outcome: "outcome res = Completed \<or> outcome res = CleanupFailed"
  shows "set (map released_id (result_steps res)) =
      {res_id r | r. r \<in> set (resources L) \<and> IsLive (res_status r) \<and> IsInScopeSubtree (res_scope r) s L} \<and>
    sorted_wrt (>) (map (\<lambda>st. res_sequence (req_receipt (step_request st))) (result_steps res)) \<and>
    (\<forall>st \<in> set (result_steps res). req_receipt (step_request st) \<in> set (resources L) \<and>
       rr_status (step_result st) \<noteq> RS_CleanupExecutionRequired) \<and>
    resources L' = map (settle_by (result_steps res)) (resources L) \<and>
    scopes L' = map (\<lambda>c. if IsInScopeSubtree (scope_id c) s L \<and> \<not> still_owns_resource (scope_id c) L'
      then c\<lparr>scope_open := False\<rparr> else c) (scopes L) \<and>
    (outcome res = CleanupFailed \<longleftrightarrow>
      (\<exists>st \<in> set (result_steps res). rr_status (step_result st) = RS_Failed)) \<and>
    pending_unwind L' = None \<and>
    ledger_state L' = (if disposition L' = TaintRequired then Tainted else Accepting)"
proof -
  from inv have list: "resource_list L" and failures: "failures_recorded L"
    by (simp_all add: resource_ledger_inv_def disposition_wf_def)
  have run: "outcome res \<noteq> Rejected" "outcome res \<noteq> AlreadyComplete" using outcome by auto
  obtain p where p: "p = fresh_unwind (close_resources s L) (close_scopes s L) ScopeExit (ledger_state L) False L"
    and un: "unwinding (started p n L) p" and pump: "PumpUnwind f (started p n L) d = (res, L', d')"
    and phase: "ledger_state L \<in> {Accepting, Tainted}"
    by (rule CloseScope_started [OF close inv run]) blast
  have distinct: "distinct (close_resources s L)" by (simp add: live_in_subtree_distinct list)
  from un started_simps(1) show ?thesis
  proof (cases rule: PumpUnwind_result [where f = "f" and d = d])
    case (suspended q p' L1 d'' i)
    with pump outcome show ?thesis by auto
  next
    case (finished p' L1 d'')
    let ?M = "L1\<lparr>pending_unwind := Some p'\<rparr>"
    from finished(1) pump have res: "res = finished_unwind (if pu_had_failure p' then CleanupFailed else Completed)
          (pu_steps p') L'" and L': "L' = FinishPendingUnwind ?M"
      by simp_all
    obtain new where steps: "pu_steps p' = new" and dn: "done_by (close_resources s L) new (started p n L) L1"
      and failure: "pu_had_failure p' \<longleftrightarrow> (\<exists>st \<in> set new. step_status st = RS_Failed)"
      using pump_loop_done [OF finished(5)] list failures distinct p by auto
    have frame: "same_frame (started p n L) L1" using finished(4) by (simp add: progress_def)
    have p': "pu_shutdown p' = False" "pu_scopes_to_close p' = close_scopes s L"
        "pu_completion_state p' = ledger_state L"
      using finished(3) p by (simp_all add: same_unwind_def)
    have tree: "scope_tree ?M" and wf: "unwind_wf L1 p'" using finished(2) by (simp_all add: unwinding_def)
    note eq = FinishPendingUnwind_eq [OF tree, of p', folded L', simplified, unfolded p']
    have rs: "resources L' = map (settle_by new) (resources L)" using dn by (simp add: eq done_by_def)
    have ids: "map released_id new = close_resources s L"
      using dn live_in_subtree_live [of _ s L] by (simp add: done_by_def)
    have receipts: "\<forall>st \<in> set new. req_receipt (step_request st) \<in> set (resources L) \<and>
        step_status st \<noteq> RS_CleanupExecutionRequired"
      using dn by (simp add: done_by_def)
    then have "map (\<lambda>st. res_sequence (req_receipt (step_request st))) new
        = map (sequence_of L) (map released_id new)"
      by (simp add: sequence_of_resource [OF list])
    then have order: "sorted_wrt (>) (map (\<lambda>st. res_sequence (req_receipt (step_request st))) new)"
      using sort_latest_first_order [OF list live_in_subtree_distinct [OF list], of s]
      by (auto simp: ids live_in_subtree_def)
    have "links L' = links ?M" "resources L' = resources ?M" by (simp_all add: eq)
    then have owns: "still_owns_resource c L' = still_owns_resource c ?M" for c
      by (simp add: still_owns_resource_def subtree_links [of L' ?M])
    have scopes: "scopes L' = map (\<lambda>c. if IsInScopeSubtree (scope_id c) s L \<and>
        \<not> still_owns_resource (scope_id c) L' then c\<lparr>scope_open := False\<rparr> else c) (scopes L)"
    proof -
      have "scopes L' = map (\<lambda>c. if closes False (close_scopes s L) ?M (scope_id c)
          then c\<lparr>scope_open := False\<rparr> else c) (scopes L)"
        using frame by (simp add: eq with_closed_def same_frame_def)
      also have "\<dots> = map (\<lambda>c. if IsInScopeSubtree (scope_id c) s L \<and>
        \<not> still_owns_resource (scope_id c) L' then c\<lparr>scope_open := False\<rparr> else c) (scopes L)"
      proof (rule map_cong [OF refl])
        fix c assume c: "c \<in> set (scopes L)"
        show "(if closes False (close_scopes s L) ?M (scope_id c) then c\<lparr>scope_open := False\<rparr> else c)
          = (if IsInScopeSubtree (scope_id c) s L \<and> \<not> still_owns_resource (scope_id c) L'
             then c\<lparr>scope_open := False\<rparr> else c)"
        proof (cases "scope_open c")
          case True
          with c have "scope_id c \<in> open_ids L" by (auto simp: open_ids_def)
          then show ?thesis by (simp add: closes_def owns open_in_subtree_iff)
        qed simp
      qed
      finally show ?thesis .
    qed
    have "ledger_state L' = (if disposition L' = TaintRequired then Tainted else Accepting)"
      using phase wf p'(3) by (auto simp: eq unwind_wf_def)
    moreover have "result_steps res = new"
        "outcome res = CleanupFailed \<longleftrightarrow> (\<exists>st \<in> set new. step_status st = RS_Failed)"
      using failure steps by (simp_all add: res finished_unwind_def)
    moreover have "set (map released_id new) =
        {res_id r | r. r \<in> set (resources L) \<and> live r \<and> IsInScopeSubtree (res_scope r) s L}"
      unfolding ids by (auto simp: live_in_subtree_def)
    moreover have "pending_unwind L' = None" by (simp add: eq)
    ultimately show ?thesis using rs receipts order scopes by (simp only: simp_thms)
  qed
qed

end
