(* ===== verification/ReleaseDispatcher.thy ===== *)
theory ReleaseDispatcher
  imports ResourceCompletion
begin

text \<open>
  What the resource ledger may rely on of the dispatcher that releases its resources
  (\<open>IResourceReleaseDispatcher\<close> in SessionResourceLedger.h), as a locale: a release that reports
  success removes the binding of the requested external identity and nothing else, any other
  report leaves the bindings alone. The lemmas say what the ledger's unwinds then do to them.
\<close>

abbreviation request_id :: "ResourceReleaseRequest \<Rightarrow> u64" where
  "request_id q \<equiv> rel_external_id (res_release (req_receipt q))"

definition released_ids :: "ResourceUnwindStep list \<Rightarrow> u64 set" where
  "released_ids steps = (\<lambda>st. request_id (step_request st)) `
     {st \<in> set steps. step_status st = RS_Released}"

lemma released_ids_simps [simp]:
  "released_ids [] = {}" "released_ids (steps @ steps') = released_ids steps \<union> released_ids steps'"
  "released_ids (st # steps) = (if step_status st = RS_Released
     then insert (request_id (step_request st)) (released_ids steps) else released_ids steps)"
  by (auto simp: released_ids_def)

locale release_dispatcher =
  fixes release :: "'d release_fn"
    and bound :: "'d \<Rightarrow> u64 set"
    and wf :: "'d \<Rightarrow> bool"
  assumes release_wf: "wf d \<Longrightarrow> release d q = (r, d') \<Longrightarrow> wf d'"
    and released: "wf d \<Longrightarrow> release d q = (r, d') \<Longrightarrow> rr_status r = RS_Released \<Longrightarrow>
      bound d' = bound d - {request_id q}"
    and kept: "wf d \<Longrightarrow> release d q = (r, d') \<Longrightarrow> rr_status r \<noteq> RS_Released \<Longrightarrow> bound d' = bound d"
begin

lemma pump_bound:
  assumes "pump_loop release rs p L d = (req, p', L', d')" and "resource_list L" "failures_recorded L"
    and "wf d"
  shows "wf d' \<and> (\<exists>new. pu_steps p' = pu_steps p @ new \<and> bound d' = bound d - released_ids new)"
  using assms
proof (induction rs arbitrary: p L d)
  case Nil
  then show ?case by simp
next
  case (Cons r rs)
  from Cons.prems(1-3) show ?case
  proof (cases rule: pump_loop_cases)
    case skipped
    from Cons.IH [OF this(2)] Cons.prems show ?thesis by simp
  next
    case (suspended x res)
    with Cons.prems(4) show ?thesis
      using release_wf [OF _ suspended(6)] kept [OF _ suspended(6)] by simp
  next
    case (settled x res d1)
    let ?q = "release_request p x L"
    have "wf d1" using release_wf [OF Cons.prems(4) settled(4)] .
    moreover have "bound d1 = bound d - released_ids [\<lparr>step_request = ?q, step_result = res\<rparr>]"
      using released [OF Cons.prems(4) settled(4)] kept [OF Cons.prems(4) settled(4)] by simp
    moreover have "resource_list (settle_release x res L)" "failures_recorded (settle_release x res L)"
      using settled(6) by (simp_all add: progress_def)
    moreover note Cons.IH [OF settled(7)]
    ultimately show ?thesis by auto
  qed
qed

lemma PumpUnwind_bound:
  assumes un: "unwinding L p" and p: "pending_unwind L = Some p" "pu_steps p = []"
    and run: "PumpUnwind release L d = (res, L', d')" and "wf d"
  shows "wf d' \<and> bound d' = bound d - released_ids (result_steps res)"
proof -
  have wf: "resource_list L" "failures_recorded L" using un by (simp_all add: unwinding_def)
  from un p(1) show ?thesis
  proof (cases rule: PumpUnwind_result [where f = release and d = d])
    case (suspended q p' L1 d'' i)
    then have "d'' = d'" "result_steps res = pu_steps p'" using run by auto
    with pump_bound [OF suspended(7) wf assms(5)] p(2) show ?thesis by simp
  next
    case (finished p' L1 d'')
    then have "d'' = d'" "result_steps res = pu_steps p'" using run by (auto simp: finished_unwind_def)
    with pump_bound [OF finished(5) wf assms(5)] p(2) show ?thesis by simp
  qed
qed

text \<open>A close that completes in one call unbinds exactly the live resources of the subtree.\<close>

lemma CloseScope_bound:
  assumes inv: "resource_ledger_inv L" and close: "CloseScope t s n release L d = (res, L', d')"
    and completed: "outcome res = Completed" and "wf d"
  shows "wf d' \<and> bound d' = bound d - {rel_external_id (res_release r) | r.
    r \<in> set (resources L) \<and> live r \<and> IsInScopeSubtree (res_scope r) s L}"
proof -
  have list: "resource_list L" using inv by (simp add: resource_ledger_inv_def)
  have run: "outcome res \<noteq> Rejected" "outcome res \<noteq> AlreadyComplete" using completed by auto
  obtain p where p: "p = fresh_unwind (close_resources s L) (close_scopes s L) ScopeExit (ledger_state L) False L"
    and un: "unwinding (started p n L) p" and pump: "PumpUnwind release (started p n L) d = (res, L', d')"
    by (rule CloseScope_started [OF close inv run]) blast
  have bound: "wf d' \<and> bound d' = bound d - released_ids (result_steps res)"
    by (rule PumpUnwind_bound [OF un _ _ pump assms(4)]) (simp_all add: p)
  have "outcome res = Completed \<or> outcome res = CleanupFailed" using completed by simp
  note facts = CloseScope_unwinds [OF inv close this]
  let ?covered = "{r \<in> set (resources L). live r \<and> IsInScopeSubtree (res_scope r) s L}"
  have ids: "released_id ` set (result_steps res) = res_id ` ?covered" using facts by auto
  have receipts: "\<forall>st \<in> set (result_steps res). req_receipt (step_request st) \<in> set (resources L)"
    using facts by blast
  have ok: "step_status st = RS_Released" if "st \<in> set (result_steps res)" for st
    using facts that completed by (cases "step_status st") auto
  have same: "x = y" if "x \<in> set (resources L)" "y \<in> set (resources L)" "res_id x = res_id y" for x y
    using that FindResource_iff [OF list] by (metis option.inject)
  have "(\<lambda>st. req_receipt (step_request st)) ` set (result_steps res) = ?covered"
  proof (intro set_eqI iffI)
    fix x assume "x \<in> (\<lambda>st. req_receipt (step_request st)) ` set (result_steps res)"
    then obtain st where st: "st \<in> set (result_steps res)" "x = req_receipt (step_request st)" by blast
    then have "res_id x \<in> res_id ` ?covered" using ids by auto
    then obtain y where "y \<in> ?covered" "res_id x = res_id y" by blast
    moreover have "x \<in> set (resources L)" using receipts st by simp
    ultimately show "x \<in> ?covered" using same by blast
  next
    fix x assume x: "x \<in> ?covered"
    then have "res_id x \<in> released_id ` set (result_steps res)" using ids by auto
    then obtain st where "st \<in> set (result_steps res)" "res_id x = released_id st" by blast
    moreover from this have "req_receipt (step_request st) \<in> set (resources L)" using receipts by simp
    ultimately show "x \<in> (\<lambda>st. req_receipt (step_request st)) ` set (result_steps res)"
      using same x by blast
  qed
  moreover have "{st \<in> set (result_steps res). step_status st = RS_Released} = set (result_steps res)"
    using ok by auto
  then have "released_ids (result_steps res) = (\<lambda>r. rel_external_id (res_release r)) `
      (\<lambda>st. req_receipt (step_request st)) ` set (result_steps res)"
    by (simp add: released_ids_def image_image)
  ultimately have "released_ids (result_steps res) = (\<lambda>r. rel_external_id (res_release r)) ` ?covered"
    by simp
  with bound show ?thesis by (simp add: setcompr_eq_image)
qed

end

end
