(* ===== verification/BindingTable.thy ===== *)
theory BindingTable
  imports ReleaseDispatcher
begin

text \<open>
  \<open>SessionResourceBindingTable\<close>, the release dispatcher of a session
  (SavorCore/Runner/Runtime/ProgramRuntime/Actions/SessionResourceBindingTable.h and .cpp): it maps
  the opaque external identities the ledger holds to the callbacks that release the concrete
  resources. A callback is code of its client: a function of the client's state and the request
  that returns a result or throws. A callback does not call back into the table it is run from.
\<close>

section \<open>Data\<close>

datatype callback_outcome =
    Returned ResourceReleaseResult
  | ThrewException string
  | ThrewUnknown

type_synonym 'w release_callback = "'w \<Rightarrow> ResourceReleaseRequest \<Rightarrow> callback_outcome \<times> 'w"

text \<open>\<open>binding_release = None\<close> is the empty \<open>std::function\<close>.\<close>

record 'w SessionResourceBindingDefinition =
  binding_kind :: ResourceKind
  binding_epoch :: u64
  binding_release :: "'w release_callback option"
  binding_label :: string

record 'w BindingRecord =
  external_id :: u64
  binding_definition :: "'w SessionResourceBindingDefinition"

record 'w SessionResourceBindingTable =
  table_owner :: thread_id
  next_external_id :: u64
  relationships :: "'w BindingRecord list"

datatype BindingRefusal = ForeignThread | MissingCallback | MissingLabel | IdentitiesExhausted

section \<open>Operations\<close>

definition new_binding_table :: "thread_id \<Rightarrow> 'w SessionResourceBindingTable" where
  "new_binding_table t = \<lparr>table_owner = t, next_external_id = 1, relationships = []\<rparr>"

definition Bind ::
  "thread_id \<Rightarrow> 'w SessionResourceBindingDefinition \<Rightarrow> 'w SessionResourceBindingTable \<Rightarrow>
    (BindingRefusal + u64) \<times> 'w SessionResourceBindingTable" where
  "Bind current definition T =
     (if current \<noteq> table_owner T then (Inl ForeignThread, T)
      else if binding_release definition = None then (Inl MissingCallback, T)
      else if binding_kind definition = HostResource \<and> binding_label definition = []
      then (Inl MissingLabel, T)
      else if next_external_id T = 0 \<or> next_external_id T = uint64_max
      then (Inl IdentitiesExhausted, T)
      else (Inr (next_external_id T), T\<lparr>next_external_id := next_external_id T + 1,
        relationships := relationships T @
          [\<lparr>external_id = next_external_id T, binding_definition = definition\<rparr>]\<rparr>))"

definition msg_foreign_thread :: string where
  "msg_foreign_thread = ''Session resource release ran outside the actor thread''"

definition msg_kind_mismatch :: string where
  "msg_kind_mismatch = ''Session resource release kind does not match its binding''"

definition msg_threw :: "callback_outcome \<Rightarrow> string" where
  "msg_threw oc = (case oc of ThrewException what \<Rightarrow> ''Session resource release threw: '' @ what
     | _ \<Rightarrow> ''Session resource release threw'')"

text \<open>
  The callback of a bound record is present (\<open>Bind\<close> refuses an empty one); calling an empty
  \<open>std::function\<close> throws.
\<close>

definition run_callback ::
  "'w SessionResourceBindingDefinition \<Rightarrow> 'w \<Rightarrow> ResourceReleaseRequest \<Rightarrow> ResourceReleaseResult \<times> 'w" where
  "run_callback definition w request =
     (let (oc, w') = (case binding_release definition of
            None \<Rightarrow> (ThrewException ''bad_function_call'', w) | Some f \<Rightarrow> f w request)
      in (case oc of Returned result \<Rightarrow> result
          | _ \<Rightarrow> \<lparr>rr_status = RS_Failed, rr_diagnostic = msg_threw oc\<rparr>, w'))"

definition TableRelease ::
  "thread_id \<Rightarrow> 'w SessionResourceBindingTable \<times> 'w \<Rightarrow> ResourceReleaseRequest \<Rightarrow>
    ResourceReleaseResult \<times> 'w SessionResourceBindingTable \<times> 'w" where
  "TableRelease current S request =
     (let (T, w) = S; wanted = rel_external_id (res_release (req_receipt request)) in
      if current \<noteq> table_owner T
      then (\<lparr>rr_status = RS_Failed, rr_diagnostic = msg_foreign_thread\<rparr>, T, w)
      else case List.find (\<lambda>candidate. external_id candidate = wanted) (relationships T) of
        None \<Rightarrow> (\<lparr>rr_status = RS_Released, rr_diagnostic = []\<rparr>, T, w)
      | Some found \<Rightarrow>
          if binding_kind (binding_definition found) \<noteq> rel_kind (res_release (req_receipt request))
          then (\<lparr>rr_status = RS_Failed, rr_diagnostic = msg_kind_mismatch\<rparr>, T, w)
          else let (result, w') = run_callback (binding_definition found) w request in
            (result, if rr_status result = RS_Released
               then T\<lparr>relationships := remove_first (\<lambda>candidate. external_id candidate = wanted)
                       (relationships T)\<rparr>
               else T, w'))"

definition Contains :: "u64 \<Rightarrow> 'w SessionResourceBindingTable \<Rightarrow> bool" where
  "Contains wanted T \<longleftrightarrow> list_ex (\<lambda>candidate. external_id candidate = wanted) (relationships T)"

definition table_size :: "'w SessionResourceBindingTable \<Rightarrow> nat" where
  "table_size T = length (relationships T)"

section \<open>The table keeps the dispatcher's contract\<close>

definition bound_ids :: "'w SessionResourceBindingTable \<Rightarrow> u64 set" where
  "bound_ids T = external_id ` set (relationships T)"

definition table_inv :: "'w SessionResourceBindingTable \<Rightarrow> bool" where
  "table_inv T \<longleftrightarrow> sorted_wrt (<) (map external_id (relationships T)) \<and>
     (\<forall>r \<in> set (relationships T). external_id r \<noteq> 0 \<and> external_id r < next_external_id T \<and>
        binding_release (binding_definition r) \<noteq> None)"

lemma Contains_iff: "Contains i T \<longleftrightarrow> i \<in> bound_ids T"
  by (auto simp: Contains_def bound_ids_def list_ex_iff)

lemma TableRelease_result:
  assumes "TableRelease t (T, w) q = (r, T', w')"
  obtains (foreign) "t \<noteq> table_owner T" "rr_status r = RS_Failed" "T' = T" "w' = w"
    | (absent) "t = table_owner T" "request_id q \<notin> bound_ids T" "rr_status r = RS_Released" "T' = T" "w' = w"
    | (mismatch) "t = table_owner T" "request_id q \<in> bound_ids T" "rr_status r = RS_Failed" "T' = T" "w' = w"
    | (ran) pre x post where "t = table_owner T" "relationships T = pre @ x # post"
      "external_id x = request_id q" "binding_kind (binding_definition x) = rel_kind (res_release (req_receipt q))"
      "run_callback (binding_definition x) w q = (r, w')"
      "T' = (if rr_status r = RS_Released then T\<lparr>relationships := pre @ post\<rparr> else T)"
proof (cases "t = table_owner T")
  case False
  with assms have "rr_status r = RS_Failed \<and> T' = T \<and> w' = w" by (auto simp: TableRelease_def)
  with False foreign show ?thesis by blast
next
  case True
  let ?P = "\<lambda>x. external_id x = request_id q"
  show ?thesis
  proof (cases "List.find ?P (relationships T)")
    case None
    then have "request_id q \<notin> bound_ids T" by (auto simp: find_None_iff bound_ids_def)
    moreover have "rr_status r = RS_Released \<and> T' = T \<and> w' = w"
      using assms True None by (auto simp: TableRelease_def)
    ultimately show ?thesis using True absent by blast
  next
    case (Some x)
    then obtain pre post where split: "relationships T = pre @ x # post" "external_id x = request_id q"
        "remove_first ?P (relationships T) = pre @ post"
      by (rule find_split) blast
    show ?thesis
    proof (cases "binding_kind (binding_definition x) = rel_kind (res_release (req_receipt q))")
      case False
      moreover have "request_id q \<in> bound_ids T" using split by (auto simp: bound_ids_def)
      moreover have "rr_status r = RS_Failed" "T' = T" "w' = w"
        using assms True Some False by (auto simp: TableRelease_def)
      ultimately show ?thesis using True mismatch by blast
    next
      case same: True
      obtain r' w'' where run: "run_callback (binding_definition x) w q = (r', w'')" by fastforce
      have "r = r'" "w' = w''" and T': "T' = (if rr_status r = RS_Released
          then T\<lparr>relationships := pre @ post\<rparr> else T)"
        using assms True Some same run split(3) by (auto simp: TableRelease_def)
      with run show ?thesis using ran [OF True split(1,2) same _ T'] by simp
    qed
  qed
qed

lemma table_inv_remove:
  assumes "table_inv T" and "relationships T = pre @ x # post"
  shows "table_inv (T\<lparr>relationships := pre @ post\<rparr>)"
    and "bound_ids (T\<lparr>relationships := pre @ post\<rparr>) = bound_ids T - {external_id x}"
  using assms by (auto simp: table_inv_def sorted_wrt_append bound_ids_def)

lemma Bind_inv: "table_inv T \<Longrightarrow> table_inv (snd (Bind t def T))"
  by (auto simp: Bind_def table_inv_def sorted_wrt_append less_succ intro: order.strict_trans)

lemma TableRelease_inv: "table_inv T \<Longrightarrow> TableRelease t (T, w) q = (r, T', w') \<Longrightarrow> table_inv T'"
  by (erule TableRelease_result) (auto simp: table_inv_remove)

interpretation binding_dispatcher: release_dispatcher "TableRelease t" "\<lambda>(T, w). bound_ids T"
  "\<lambda>(T, w). table_inv T" for t
proof
  fix d :: "'a SessionResourceBindingTable \<times> 'a" and q r d'
  assume wf: "case d of (T, w) \<Rightarrow> table_inv T" and run: "TableRelease t d q = (r, d')"
  obtain T w T' w' where d: "d = (T, w)" "d' = (T', w')" by (metis surj_pair)
  have inv: "table_inv T" and run': "TableRelease t (T, w) q = (r, T', w')" using wf run d by simp_all
  show "case d' of (T, w) \<Rightarrow> table_inv T" using TableRelease_inv [OF inv run'] d by simp
  show "(case d' of (T, w) \<Rightarrow> bound_ids T) = (case d of (T, w) \<Rightarrow> bound_ids T) - {request_id q}"
    if "rr_status r = RS_Released"
    using run' that by (cases rule: TableRelease_result) (use inv in \<open>auto simp: d table_inv_remove\<close>)
  show "(case d' of (T, w) \<Rightarrow> bound_ids T) = (case d of (T, w) \<Rightarrow> bound_ids T)"
    if "rr_status r \<noteq> RS_Released"
    using run' that by (cases rule: TableRelease_result) (simp_all add: d)
qed

section \<open>The table as a machine\<close>

datatype 'w binding_operation =
    Op_Bind "'w SessionResourceBindingDefinition"
  | Op_TableRelease ResourceReleaseRequest

fun binding_step ::
  "thread_id \<times> 'w binding_operation \<Rightarrow> 'w SessionResourceBindingTable \<times> 'w \<Rightarrow>
    'w SessionResourceBindingTable \<times> 'w" where
  "binding_step (t, Op_Bind definition) (T, w) = (snd (Bind t definition T), w)"
| "binding_step (t, Op_TableRelease q) (T, w) = snd (TableRelease t (T, w) q)"

lemma Bind_next: "next_external_id T \<le> next_external_id (snd (Bind t def T))"
  using less_succ [of "next_external_id T"] by (auto simp: Bind_def)

lemma TableRelease_next: "TableRelease t (T, w) q = (r, T', w') \<Longrightarrow> next_external_id T' = next_external_id T"
  by (erule TableRelease_result) simp_all

interpretation binding_machine: monotone_machine binding_step "\<lambda>S. table_inv (fst S)"
  "\<lambda>S S'. next_external_id (fst S) \<le> next_external_id (fst S')"
proof
  fix S :: "'w SessionResourceBindingTable \<times> 'w" and x :: "thread_id \<times> 'w binding_operation"
  assume inv: "table_inv (fst S)"
  obtain t op where x: "x = (t, op)" by fastforce
  obtain T w where S: "S = (T, w)" by fastforce
  show "table_inv (fst (binding_step x S))"
  proof (cases op)
    case (Op_Bind b)
    with inv show ?thesis by (simp add: x S Bind_inv)
  next
    case (Op_TableRelease q)
    obtain r T' w' where "TableRelease t (T, w) q = (r, T', w')" by (rule prod_cases3)
    with inv Op_TableRelease show ?thesis by (simp add: x S TableRelease_inv)
  qed
  show "next_external_id (fst S) \<le> next_external_id (fst (binding_step x S))"
  proof (cases op)
    case (Op_Bind b)
    then show ?thesis by (simp add: x S Bind_next)
  next
    case (Op_TableRelease q)
    obtain r T' w' where "TableRelease t (T, w) q = (r, T', w')" by (rule prod_cases3)
    with Op_TableRelease show ?thesis by (simp add: x S TableRelease_next)
  qed
qed auto

lemma new_binding_table_inv: "table_inv (new_binding_table t)"
  by (simp add: table_inv_def new_binding_table_def)

lemma binding_reachable_inv:
  "reachable_from binding_step (new_binding_table t, w0) (T, w) \<Longrightarrow> table_inv T"
  using binding_machine.reachable_inv [of "(new_binding_table t, w0)" "(T, w)"]
  by (simp add: new_binding_table_inv)

text \<open>
  C12. A binding is released exactly once. A release that succeeds removes the one binding of the
  requested identity, and asking again succeeds without running anything; a release that fails,
  asks for a cleanup execution or throws keeps the binding, so that it can be retried; no other
  binding is touched; and a callback that throws is reported as a failure.
\<close>

theorem binding_is_released_once:
  assumes reach: "reachable_from binding_step (new_binding_table t0, w0) (T, w)"
    and release: "TableRelease t (T, w) q = (r, T', w')"
  shows "(rr_status r = RS_Released \<longrightarrow> \<not> Contains (request_id q) T' \<and>
      (\<forall>q'. request_id q' = request_id q \<longrightarrow>
         TableRelease t (T', w') q' = (\<lparr>rr_status = RS_Released, rr_diagnostic = []\<rparr>, T', w'))) \<and>
    (rr_status r \<noteq> RS_Released \<longrightarrow> T' = T) \<and>
    (\<forall>i. i \<noteq> request_id q \<longrightarrow> Contains i T' = Contains i T) \<and>
    (\<forall>x f oc. x \<in> set (relationships T) \<and> external_id x = request_id q \<and> t = table_owner T \<and>
       binding_kind (binding_definition x) = rel_kind (res_release (req_receipt q)) \<and>
       binding_release (binding_definition x) = Some f \<and> f w q = (oc, w') \<longrightarrow>
         (case oc of Returned result \<Rightarrow> r = result | _ \<Rightarrow> rr_status r = RS_Failed))"
proof -
  have inv: "table_inv T" by (rule binding_reachable_inv [OF reach])
  have gone: "\<not> Contains (request_id q) T' \<and>
      (\<forall>q'. request_id q' = request_id q \<longrightarrow>
         TableRelease t (T', w') q' = (\<lparr>rr_status = RS_Released, rr_diagnostic = []\<rparr>, T', w'))"
    if ok: "rr_status r = RS_Released"
  proof -
    have "request_id q \<notin> bound_ids T'" "t = table_owner T'"
      using release ok by (cases rule: TableRelease_result; use inv in \<open>simp add: table_inv_remove\<close>)+
    moreover from this have "List.find (\<lambda>x. external_id x = request_id q) (relationships T') = None"
      by (auto simp: find_None_iff bound_ids_def image_iff)
    ultimately show ?thesis by (simp add: Contains_iff TableRelease_def)
  qed
  have others: "Contains i T' = Contains i T" if "i \<noteq> request_id q" for i
    using release that by (cases rule: TableRelease_result) (auto simp: Contains_def)
  have kept: "T' = T" if "rr_status r \<noteq> RS_Released"
    using release that by (cases rule: TableRelease_result) auto
  have threw: "case oc of Returned result \<Rightarrow> r = result | _ \<Rightarrow> rr_status r = RS_Failed"
    if x: "x \<in> set (relationships T)" "external_id x = request_id q" "t = table_owner T"
      "binding_kind (binding_definition x) = rel_kind (res_release (req_receipt q))"
      "binding_release (binding_definition x) = Some f" "f w q = (oc, w')" for x f oc
  proof -
    have "distinct (map external_id (relationships T))"
      using inv by (simp add: table_inv_def sorted_wrt_less_distinct)
    then have "List.find (\<lambda>y. external_id y = request_id q) (relationships T) = Some x"
      using x(1,2) by (simp add: find_key_iff)
    then have "r = fst (run_callback (binding_definition x) w q)"
      using release x by (simp add: TableRelease_def split: prod.splits)
    then show ?thesis using x by (cases oc) (simp_all add: run_callback_def)
  qed
  show ?thesis using gone others kept threw by blast
qed

definition sample_binding :: "nat SessionResourceBindingDefinition" where
  "sample_binding = \<lparr>binding_kind = HostResource, binding_epoch = 3, binding_release =
     Some (\<lambda>w q. (Returned \<lparr>rr_status = RS_Released, rr_diagnostic = []\<rparr>, Suc w)), binding_label = ''x''\<rparr>"

definition sample_request :: "u64 \<Rightarrow> ResourceReleaseRequest" where
  "sample_request i = \<lparr>req_receipt = \<lparr>res_session = 7, res_id = 1, res_sequence = 1, res_owner = 5,
       res_service = 11, res_scope = 2, res_release = \<lparr>rel_kind = HostResource, rel_external_id = i\<rparr>,
       res_acquisition_epoch = 3, res_promotion = Forbidden, res_cleanup = Mandatory,
       res_status = Active, res_diagnostic_label = [], res_release_diagnostic = []\<rparr>,
     req_reason = ScopeExit, req_current_epoch = 3, req_cleanup_only = True\<rparr>"

lemma sample_table_reachable:
  "reachable_from binding_step (new_binding_table 1, w) (snd (Bind 1 sample_binding (new_binding_table 1)), w)"
  using reachable_from.step [OF reachable_from.start, of binding_step "(new_binding_table 1, w)"
      "(1, Op_Bind sample_binding)"] by simp

theorem binding_is_released_once_witness:
  "\<exists>T' w'. TableRelease 1 (snd (Bind 1 sample_binding (new_binding_table 1)), 0) (sample_request 1)
      = (\<lparr>rr_status = RS_Released, rr_diagnostic = []\<rparr>, T', w') \<and> w' = 1 \<and> \<not> Contains 1 T' \<and>
    TableRelease 1 (T', w') (sample_request 1) = (\<lparr>rr_status = RS_Released, rr_diagnostic = []\<rparr>, T', w')"
proof -
  let ?T = "snd (Bind 1 sample_binding (new_binding_table 1))"
  have "\<exists>T'. TableRelease 1 (?T, 0) (sample_request 1)
      = (\<lparr>rr_status = RS_Released, rr_diagnostic = []\<rparr>, T', 1)"
    by (simp add: Bind_def sample_binding_def new_binding_table_def TableRelease_def sample_request_def
        run_callback_def Let_def)
  then obtain T' where run: "TableRelease 1 (?T, 0) (sample_request 1)
      = (\<lparr>rr_status = RS_Released, rr_diagnostic = []\<rparr>, T', 1)" by blast
  have "request_id (sample_request 1) = 1" by (simp add: sample_request_def)
  with binding_is_released_once [OF sample_table_reachable run] run show ?thesis by simp
qed

text \<open>
  External identities are not reused: the identity a successful \<open>Bind\<close> hands out is nonzero
  and not in the table before, is in the table after, and is smaller than the identity of every
  later successful \<open>Bind\<close>, whatever is bound and released in between.
\<close>

theorem bound_identities_are_fresh:
  assumes reach: "reachable_from binding_step (new_binding_table t0, w0) (T, w)"
    and bind: "Bind t definition T = (Inr i, T1)"
    and later: "reachable_from binding_step (T1, w) (T2, w2)"
  shows "i \<noteq> 0 \<and> \<not> Contains i T \<and> Contains i T1 \<and> (\<forall>j. Contains j T \<longrightarrow> Contains j T1) \<and>
    (\<forall>t' b' j T3. Bind t' b' T2 = (Inr j, T3) \<longrightarrow> i < j)"
proof -
  have inv: "table_inv T" by (rule binding_reachable_inv [OF reach])
  have i: "i = next_external_id T" "i \<noteq> 0" "i \<noteq> uint64_max" "next_external_id T1 = i + 1"
    "relationships T1 = relationships T @ [\<lparr>external_id = i, binding_definition = definition\<rparr>]"
    using bind by (auto simp: Bind_def split: if_splits)
  have inv1: "table_inv T1" using Bind_inv [OF inv, of t "definition"] bind by simp
  have "i + 1 \<le> next_external_id T2"
    using binding_machine.reachable_le [OF later] inv1 i(4) by simp
  then have "i < next_external_id T2" using less_succ [OF i(3)] by simp
  moreover have "j = next_external_id T2" if "Bind t' b' T2 = (Inr j, T3)" for t' b' j T3
    using that by (auto simp: Bind_def split: if_splits)
  moreover have "i \<notin> bound_ids T" using inv i(1) by (auto simp: table_inv_def bound_ids_def)
  ultimately show ?thesis using i(2,5) by (auto simp: Contains_iff bound_ids_def)
qed

theorem bound_identities_are_fresh_witness:
  "\<exists>T1 j T3. Bind 1 sample_binding (new_binding_table 1) = (Inr 1, T1) \<and>
    Bind 1 sample_binding T1 = (Inr j, T3) \<and> 1 < j"
proof -
  have "\<exists>T1. Bind 1 sample_binding (new_binding_table 1) = (Inr 1, T1)"
    by (simp add: Bind_def sample_binding_def new_binding_table_def)
  then obtain T1 where first: "Bind 1 sample_binding (new_binding_table 1) = (Inr 1, T1)" by blast
  then have "\<exists>j T3. Bind 1 sample_binding T1 = (Inr j, T3)"
    by (auto simp: Bind_def sample_binding_def new_binding_table_def)
  then obtain j T3 where second: "Bind 1 sample_binding T1 = (Inr j, T3)" by blast
  from bound_identities_are_fresh [OF reachable_from.start first reachable_from.start] first second
  show ?thesis by blast
qed

end
