(* ===== verification/ResourceContracts.thy ===== *)
theory ResourceContracts
  imports ResourceCompletion
begin

text \<open>The properties of the resource ledger, each over the states a session can reach.\<close>

lemma IsLive_simps [simp]: "IsLive Active" "IsLive ReleaseFailed" "\<not> IsLive Released"
  by (simp_all add: IsLive_def)

section \<open>A sample session\<close>

text \<open>
  A root with one synthetic scope that holds two resources, and two dispatchers: one that
  releases whatever it is given, one that asks for a cleanup execution the first time.
\<close>

definition sample_definition :: "u64 \<Rightarrow> ResourceCleanupRequirement \<Rightarrow> ResourceAcquisitionDefinition" where
  "sample_definition e c = \<lparr>def_owner = 5, def_service = 11,
     def_release = \<lparr>rel_kind = HostResource, rel_external_id = e\<rparr>, def_promotion = AnyAncestor,
     def_cleanup = c, def_diagnostic_label = []\<rparr>"

definition sample_session :: SessionResourceLedger where
  "sample_session = snd (Acquire 1 2 [sample_definition 100 Mandatory, sample_definition 101 Optional]
     (snd (OpenSyntheticScope 1 1 5 [] (snd (Initialize 1 7 3 5 (new_resource_ledger 1))))))"

definition accept_all :: "nat \<Rightarrow> unit release_fn" where
  "accept_all n d q = (\<lparr>rr_status = RS_Released, rr_diagnostic = []\<rparr>, d)"

definition ask_once :: "nat \<Rightarrow> nat release_fn" where
  "ask_once n d q = (\<lparr>rr_status = (if d = 0 then RS_CleanupExecutionRequired else RS_Released),
     rr_diagnostic = []\<rparr>, Suc d)"

lemma sample_reachable:
  "reachable_from (resource_step release_of) (new_resource_ledger 1, d) (sample_session, d)"
proof -
  have "(sample_session, d) = fold (resource_step release_of)
    [(1, 0, Op_Initialize 7 3 5), (1, 0, Op_OpenSyntheticScope 1 5 []),
     (1, 0, Op_Acquire 2 [sample_definition 100 Mandatory, sample_definition 101 Optional])]
    (new_resource_ledger 1, d)"
    by (simp add: sample_session_def)
  then show ?thesis using reachable_fold [of "resource_step release_of"] by metis
qed


lemma sample_session_eq: "sample_session = \<lparr>owner_thread = 1, ledger_state = Accepting,
    disposition = Clean, session_id = 7, workset_epoch = 3, session_root = 1, next_scope_id = 3,
    next_resource_id = 3, next_sequence = 3, next_continuation_id = 1, scopes =
      [\<lparr>scope_session = 7, scope_id = 1, scope_parent = 0, scope_owner = 5, scope_kind = SessionRoot,
         scope_open = True, scope_diagnostic_label = ''session''\<rparr>,
       \<lparr>scope_session = 7, scope_id = 2, scope_parent = 1, scope_owner = 5, scope_kind = Synthetic,
         scope_open = True, scope_diagnostic_label = []\<rparr>], resources =
      [\<lparr>res_session = 7, res_id = 1, res_sequence = 1, res_owner = 5, res_service = 11, res_scope = 2,
         res_release = \<lparr>rel_kind = HostResource, rel_external_id = 100\<rparr>, res_acquisition_epoch = 3,
         res_promotion = AnyAncestor, res_cleanup = Mandatory, res_status = Active,
         res_diagnostic_label = [], res_release_diagnostic = []\<rparr>,
       \<lparr>res_session = 7, res_id = 2, res_sequence = 2, res_owner = 5, res_service = 11, res_scope = 2,
         res_release = \<lparr>rel_kind = HostResource, rel_external_id = 101\<rparr>, res_acquisition_epoch = 3,
         res_promotion = AnyAncestor, res_cleanup = Optional, res_status = Active,
         res_diagnostic_label = [], res_release_diagnostic = []\<rparr>],
    pending_unwind = None, bound_dispatcher = None, diagnostic = []\<rparr>"
  by (simp add: sample_session_def new_resource_ledger_def Initialize_def OpenSyntheticScope_def
      ValidateAccepting_def ValidateScopeForAcquisition_def FindScope_def Acquire_def Let_def
      sample_definition_def)


lemma sample_subtree: "IsInScopeSubtree 2 2 sample_session" "\<not> IsInScopeSubtree 1 2 sample_session"
   "live_in_subtree 2 sample_session = [1, 2]" "open_in_subtree 2 sample_session = [2]"
  by (simp_all add: sample_session_eq IsInScopeSubtree_def IsAncestor_def ParentOf_def FindScope_def
      live_in_subtree_def open_in_subtree_def IsLive_def)

lemma sample_order: "sort_latest_first sample_session [1, 2] = [2, 1]"
  by (simp add: sort_latest_first_def sample_session_eq FindResource_def)

lemma sample_can_start: "can_start 0 sample_session"
  by (simp add: can_start_def sample_session_eq)

lemma sample_fields: "owner_thread sample_session = 1" "ledger_state sample_session = Accepting"
    "session_root sample_session = 1" "next_continuation_id sample_session = 1"
    "bound_dispatcher sample_session = None" "pending_unwind sample_session = None"
    "\<exists>c. FindScope 2 sample_session = Some c \<and> scope_open c"
  by (simp_all add: sample_session_eq FindScope_def)

definition sample_closing :: SessionResourceLedger where
  "sample_closing = started (fresh_unwind [2, 1] [2] ScopeExit Accepting False sample_session) 0 sample_session"

lemma sample_CloseScope: "CloseScope 1 2 0 f sample_session d = PumpUnwind f sample_closing d"
  using sample_fields(7)
  by (auto simp: CloseScope_def StartUnwind_started [OF sample_can_start] sample_closing_def
      sample_fields(1-6) sample_subtree sample_order)

lemmas pump_evaluation = PumpUnwind_def pump_loop.simps(2) FindResource_def IsLive_def
  settle_release_def Let_def finished_unwind_def release_request_def

lemma sample_close: "outcome (fst (CloseScope 1 2 0 (accept_all 0) sample_session ())) = Completed"
  by (unfold sample_CloseScope, simp add: sample_closing_def started_def fresh_unwind_def sample_session_eq
      accept_all_def pump_evaluation)

lemma sample_suspends:
  "outcome (fst (CloseScope 1 2 0 (ask_once 0) sample_session 0)) = CleanupExecutionRequired"
  "ledger_state (fst (snd (CloseScope 1 2 0 (ask_once 0) sample_session 0))) = Unwinding"
  by (unfold sample_CloseScope, simp_all add: sample_closing_def started_def fresh_unwind_def sample_session_eq
      ask_once_def pump_evaluation)

lemma sample_resumes: "CloseScope 1 2 0 (ask_once 0) sample_session 0 = (res, L, d) \<Longrightarrow>
   outcome (fst (ContinueCleanup 1 1 0 (ask_once 0) L d)) = Completed"
  by (unfold sample_CloseScope, auto simp: sample_closing_def started_def fresh_unwind_def sample_session_eq
      ask_once_def pump_evaluation ContinueCleanup_def)


section \<open>Well-formedness\<close>

text \<open>
  C5. In every state a session reaches, the scopes form a tree under increasing identities and an
  open scope hangs below an open one; every resource belongs to a scope of its owner, an open one
  while it is live; no external resource is live under two identities; a failed mandatory cleanup
  is on record as a required taint and never coexists with acceptance; and the ledger is unwinding
  exactly when its snapshot reports a pending cleanup execution.
\<close>

theorem resource_ledger_wellformed:
  assumes reach: "reachable_from (resource_step release_of) (new_resource_ledger t0, d0) (L, d)"
  shows "sorted_wrt (<) (map scope_id (scopes L)) \<and>
    sorted_wrt (<) (map res_id (resources L)) \<and> sorted_wrt (<) (map res_sequence (resources L)) \<and>
    (\<forall>c \<in> set (scopes L). scope_id c \<noteq> session_root L \<longrightarrow>
       (\<exists>p \<in> set (scopes L). scope_id p = scope_parent c \<and> scope_id p < scope_id c \<and>
          (scope_open c \<and> ledger_state L \<noteq> Closed \<longrightarrow> scope_open p))) \<and>
    (\<forall>r \<in> set (resources L). \<exists>c \<in> set (scopes L). scope_id c = res_scope r \<and>
       scope_owner c = res_owner r \<and>
       (IsLive (res_status r) \<and> ledger_state L \<noteq> Closed \<longrightarrow> scope_open c)) \<and>
    (\<forall>r \<in> set (resources L). \<forall>r' \<in> set (resources L). IsLive (res_status r) \<and> IsLive (res_status r') \<and>
       res_service r = res_service r' \<and> res_release r = res_release r' \<longrightarrow> r = r') \<and>
    (\<forall>r \<in> set (resources L). res_cleanup r = Mandatory \<and> res_status r = ReleaseFailed \<longrightarrow>
       disposition L = TaintRequired \<and> ledger_state L \<noteq> Accepting) \<and>
    (ledger_state L = Unwinding \<longleftrightarrow> rls_cleanup_execution_pending (resource_ledger_snapshot L))"
proof -
  have inv: "resource_ledger_inv L" by (rule resource_reachable_inv [OF reach])
  have tree: "scope_tree L" and list: "resource_list L" using inv by (simp_all add: resource_ledger_inv_def)
  have opens: "opens_wf L" if "ledger_state L \<noteq> Closed"
    using inv that by (simp add: resource_ledger_inv_def openness_wf_iff)
  have order: "sorted_wrt resource_order (resources L)" using list by (simp add: resource_list_def)
  have is_open: "scope_open c" if "c \<in> set (scopes L)" "scope_id c \<in> open_ids L" for c
    using that FindScope_iff [OF tree] by (auto simp: open_ids_def) (metis option.inject)
  have parent: "\<exists>p \<in> set (scopes L). scope_id p = scope_parent c \<and> scope_id p < scope_id c \<and>
      (scope_open c \<and> ledger_state L \<noteq> Closed \<longrightarrow> scope_open p)"
    if c: "c \<in> set (scopes L)" "scope_id c \<noteq> session_root L" for c
  proof -
    have nz: "scope_parent c \<noteq> 0" "scope_parent c < scope_id c" "scope_parent c \<in> scope_ids L"
      using tree c by (auto simp: scope_tree_def)
    then obtain p where p: "p \<in> set (scopes L)" "scope_id p = scope_parent c"
      by (auto simp: scope_ids_def)
    have "(scope_id p, scope_id c) \<in> parent_rel L" using c nz p by (auto simp: parent_rel_def)
    then have "scope_open p" if "scope_open c" "ledger_state L \<noteq> Closed"
      using opens [OF that(2)] that(1) c p is_open [OF p(1)] by (auto simp: opens_wf_def open_ids_def)
    with p nz show ?thesis by auto
  qed
  have owner: "\<exists>c \<in> set (scopes L). scope_id c = res_scope r \<and> scope_owner c = res_owner r \<and>
      (live r \<and> ledger_state L \<noteq> Closed \<longrightarrow> scope_open c)" if r: "r \<in> set (resources L)" for r
  proof -
    obtain c where c: "c \<in> set (scopes L)" "scope_id c = res_scope r" "scope_owner c = res_owner r"
      using list r by (auto simp: resource_list_def owned_by_def)
    then have "scope_open c" if "live r" "ledger_state L \<noteq> Closed"
      using is_open opens that r by (auto simp: opens_wf_def)
    with c show ?thesis by auto
  qed
  have unique: "r = r'" if r: "r \<in> set (resources L)" "r' \<in> set (resources L)" "live r" "live r'"
    "same_release r r'" for r r'
  proof -
    obtain i j where ij: "i < length (resources L)" "r = resources L ! i"
        "j < length (resources L)" "r' = resources L ! j"
      using r(1,2) by (auto simp: in_set_conv_nth)
    have "same_release r' r" using r(5) by (simp add: same_release_def)
    then have "\<not> i < j" "\<not> j < i"
      using order r(3,4,5) ij by (auto simp: resource_order_def dest: sorted_wrt_nth_less)
    with ij show ?thesis by simp
  qed
  have sorted: "sorted_wrt (<) (map res_id (resources L))" "sorted_wrt (<) (map res_sequence (resources L))"
    using order by (auto simp: sorted_wrt_map resource_order_def elim: sorted_wrt_mono_rel [rotated])
  have pending: "ledger_state L = Unwinding \<longleftrightarrow> rls_cleanup_execution_pending (resource_ledger_snapshot L)"
    using inv by (auto simp: resource_ledger_snapshot_def resource_ledger_inv_def phase_wf_def
        pending_wf_def split: option.splits)
  have taint: "disposition L = TaintRequired \<and> ledger_state L \<noteq> Accepting"
    if "r \<in> set (resources L)" "res_cleanup r = Mandatory" "res_status r = ReleaseFailed" for r
    using inv that by (auto simp: resource_ledger_inv_def disposition_wf_def failures_recorded_def)
  show ?thesis
    using tree sorted parent owner unique pending taint
    by (intro conjI) (auto simp: scope_tree_def same_release_def)
qed

theorem resource_ledger_wellformed_witness:
  "rls_cleanup_execution_pending (resource_ledger_snapshot
     (fst (snd (CloseScope 1 2 0 (ask_once 0) sample_session 0))))"
proof -
  have "reachable_from (resource_step ask_once) (new_resource_ledger 1, 0)
     (resource_step ask_once (1, 0, Op_CloseScope 2) (sample_session, 0))"
    by (intro reachable_from.step sample_reachable)
  then have "reachable_from (resource_step ask_once) (new_resource_ledger 1, 0)
     (fst (snd (CloseScope 1 2 0 (ask_once 0) sample_session 0)),
      snd (snd (CloseScope 1 2 0 (ask_once 0) sample_session 0)))"
    by simp
  from resource_ledger_wellformed [OF this] sample_suspends(2) show ?thesis by blast
qed

text \<open>
  C6. The walks through the tree return: in every reachable state the loop of \<open>IsAncestor\<close> ends
  within one step more than there are scopes, from any scope, and so does the count of a scope's
  depth; and \<open>IsAncestor\<close> decides the transitive closure of the parent relation, a strict order.
\<close>

theorem ancestry_walks_return:
  assumes reach: "reachable_from (resource_step release_of) (new_resource_ledger t0, d0) (L, d)"
  shows "(a \<noteq> 0 \<longrightarrow> ancestor_loop (Suc (length (scopes L))) L a (ParentOf s L) \<noteq> None) \<and>
    (s \<in> scope_id ` set (scopes L) \<longrightarrow> depth_loop (Suc (length (scopes L))) L s \<noteq> None) \<and>
    (IsAncestor a s L \<longleftrightarrow> (a, s) \<in> {(scope_parent c, scope_id c) | c.
       c \<in> set (scopes L) \<and> scope_parent c \<noteq> 0}\<^sup>+) \<and>
    \<not> IsAncestor s s L \<and> (IsAncestor a b L \<and> IsAncestor b s L \<longrightarrow> IsAncestor a s L)"
proof -
  have tree: "scope_tree L" using resource_reachable_inv [OF reach] by (simp add: resource_ledger_inv_def)
  have bound: "walk_bound L x < Suc (length (scopes L))" for x
    using walk_bound_length [of L x] by simp
  have p: "ParentOf s L = 0 \<or> ParentOf s L \<in> scope_ids L"
    using tree by (cases rule: ParentOf_cases [of L s]) simp_all
  have "a \<noteq> 0 \<longrightarrow> ancestor_loop (Suc (length (scopes L))) L a (ParentOf s L) \<noteq> None"
    using ancestor_loop_returns [OF tree _ bound p] by auto
  moreover have "s \<in> scope_ids L \<longrightarrow> depth_loop (Suc (length (scopes L))) L s \<noteq> None"
    using depth_loop_returns [OF tree bound] by (metis option.distinct(1))
  moreover have "(s, s) \<notin> (parent_rel L)\<^sup>+" using ancestors_less [OF tree, of s s] by blast
  ultimately show ?thesis
    by (simp add: IsAncestor_iff [OF tree] scope_ids_def [symmetric] parent_rel_def [symmetric] del: depth_loop.simps ancestor_loop.simps)
      (blast intro: trancl_trans)
qed

theorem ancestry_walks_return_witness: "IsAncestor 1 2 sample_session \<and> \<not> IsAncestor 2 2 sample_session"
proof
  show "IsAncestor 1 2 sample_session"
    by (simp add: IsAncestor_def ParentOf_def FindScope_def sample_session_eq)
  show "\<not> IsAncestor 2 2 sample_session"
    using ancestry_walks_return [OF sample_reachable [of accept_all "()"], of 2 2 2] by blast
qed

section \<open>Closing a scope\<close>

text \<open>
  C7. Closing a scope releases its subtree, latest acquisition first. When the unwind of a
  \<open>CloseScope\<close> comes to its end, the resources it dispatched are exactly the live resources of the
  scope's subtree, each once, in strictly descending acquisition sequence, and each with the
  receipt the ledger held; every resource of the ledger is then what the step on it made of it, or
  as it was; the scopes of the subtree are closed except those that still own a resource whose
  release failed; and the ledger is tainted exactly when a mandatory cleanup has failed.
\<close>

theorem close_scope_unwinds_subtree:
  assumes reach: "reachable_from (resource_step release_of) (new_resource_ledger t0, d0) (L, d)"
    and close: "CloseScope t s n (release_of n) L d = (res, L', d')"
    and outcome: "outcome res = Completed \<or> outcome res = CleanupFailed"
  shows "set (map released_id (result_steps res)) =
      {res_id r | r. r \<in> set (resources L) \<and> IsLive (res_status r) \<and> IsInScopeSubtree (res_scope r) s L} \<and>
    sorted_wrt (>) (map (\<lambda>st. res_sequence (req_receipt (step_request st))) (result_steps res)) \<and>
    (\<forall>st \<in> set (result_steps res). req_receipt (step_request st) \<in> set (resources L) \<and>
       rr_status (step_result st) \<noteq> RS_CleanupExecutionRequired) \<and>
    resources L' = map (settle_by (result_steps res)) (resources L) \<and>
    scopes L' = map (\<lambda>c. if IsInScopeSubtree (scope_id c) s L \<and> \<not> still_owns_resource (scope_id c) L'
      then c\<lparr>scope_open := False\<rparr> else c) (scopes L) \<and>
    (outcome res = CleanupFailed \<longleftrightarrow>
      (\<exists>st \<in> set (result_steps res). rr_status (step_result st) = RS_Failed)) \<and>
    pending_unwind L' = None \<and>
    ledger_state L' = (if disposition L' = TaintRequired then Tainted else Accepting)"
  by (rule CloseScope_unwinds [OF resource_reachable_inv [OF reach] close outcome])

theorem close_scope_unwinds_subtree_witness:
  "\<exists>res L' d'. CloseScope 1 2 0 (accept_all 0) sample_session () = (res, L', d') \<and>
    set (map released_id (result_steps res)) = {1, 2} \<and> pending_unwind L' = None"
proof -
  obtain res L' d' where run: "CloseScope 1 2 0 (accept_all 0) sample_session () = (res, L', d')"
    by (rule prod_cases3)
  have ids: "{res_id r | r. r \<in> set (resources sample_session) \<and> IsLive (res_status r) \<and>
      IsInScopeSubtree (res_scope r) 2 sample_session} = set (live_in_subtree 2 sample_session)"
    by (auto simp: live_in_subtree_def)
  have "outcome res = Completed \<or> outcome res = CleanupFailed" using sample_close run by simp
  from close_scope_unwinds_subtree [OF sample_reachable [of accept_all "()"] run this]
  show ?thesis using run unfolding ids sample_subtree by auto
qed

section \<open>A close that is suspended and continued\<close>

text \<open>
  The resources an unwind has not yet failed on are still ahead of it.
\<close>

definition covers :: "PendingUnwind \<Rightarrow> SessionResourceLedger \<Rightarrow> bool" where
  "covers p L \<longleftrightarrow> (\<not> pu_had_failure p \<longrightarrow> (\<forall>r \<in> set (resources L).
     live r \<and> res_scope r \<in> set (pu_scopes_to_close p) \<longrightarrow>
     res_id r \<in> set (drop (pu_next_resource p) (pu_resources p))))"

lemma pump_loop_handled:
  assumes "pump_loop f rs p L d = (req, p', L', d')" and "resource_list L" "failures_recorded L"
    and "\<not> pu_had_failure p'"
  shows "\<not> pu_had_failure p \<and> pu_next_resource p \<le> pu_next_resource p' \<and>
    (\<forall>r \<in> set rs. is_live L' r \<longrightarrow> r \<in> set (drop (pu_next_resource p' - pu_next_resource p) rs))"
  using assms
proof (induction rs arbitrary: p L d)
  case Nil
  then show ?case by simp
next
  case (Cons r rs)
  have later: "r' \<in> set (drop (m - n) (r # rs))" if "r' \<in> set (drop (m - Suc n) rs)" "Suc n \<le> m"
    for r' m n
    using that by (simp add: Suc_diff_Suc [symmetric])
  from Cons.prems(1-3) show ?case
  proof (cases rule: pump_loop_cases)
    case skipped
    have "\<not> is_live L' r"
      using skipped(1) progress_live [OF pump_loop_progress [OF Cons.prems(1-3)]] by blast
    with Cons.IH [OF skipped(2) Cons.prems(2-4)] later show ?thesis by auto
  next
    case (suspended x res)
    then show ?thesis using Cons.prems(4) by simp
  next
    case (settled x res d1)
    let ?L = "settle_release x res L"
    from settled(6) have wf: "resource_list ?L" "failures_recorded ?L" by (simp_all add: progress_def)
    note IH = Cons.IH [OF settled(7) wf Cons.prems(4)]
    then have "rr_status res = RS_Released"
      using settled(5) by (cases "rr_status res") auto
    then have "\<not> is_live ?L r"
      using settled(3) sorted_resource_ids [OF Cons.prems(2)]
      by (auto simp: is_live_def settle_release_def Let_def update_first_map [where key = res_id] IsLive_def)
    then have "\<not> is_live L' r"
      using progress_live [OF pump_loop_progress [OF settled(7) wf]] by blast
    with IH later show ?thesis by auto
  qed
qed

lemma covers_progress:
  assumes "covers p L" and "progress ids L L'" and "same_unwind p p'"
    and "\<not> pu_had_failure p' \<Longrightarrow> \<not> pu_had_failure p \<and> pu_next_resource p \<le> pu_next_resource p' \<and>
      (\<forall>r \<in> set (drop (pu_next_resource p) (pu_resources p)). is_live L' r \<longrightarrow>
        r \<in> set (drop (pu_next_resource p' - pu_next_resource p) (drop (pu_next_resource p) (pu_resources p))))"
  shows "covers p' L'"
  unfolding covers_def
proof (intro impI ballI, elim conjE)
  fix y assume ok: "\<not> pu_had_failure p'" and y: "y \<in> set (resources L')" "live y"
    "res_scope y \<in> set (pu_scopes_to_close p')"
  obtain x where x: "x \<in> set (resources L)" "settled ids x y"
    using assms(2) list_all2_in2 [OF _ y(1)] by (auto simp: progress_def)
  note eq = settled_fields [OF x(2)]
  have "res_id x \<in> set (drop (pu_next_resource p) (pu_resources p))"
    using assms(1,3) assms(4) [OF ok] x(1) y eq(4) eq(8) by (auto simp: covers_def same_unwind_def)
  moreover have "is_live L' (res_id x)" using y eq(1) by (auto simp: is_live_def)
  ultimately show "res_id y \<in> set (drop (pu_next_resource p') (pu_resources p'))"
    using assms(3) assms(4) [OF ok] eq(1) by (auto simp: same_unwind_def)
qed

lemma pump_covers:
  assumes un: "unwinding L p" and "covers p L"
    and loop: "pump_loop f (drop (pu_next_resource p) (pu_resources p)) p L d = (req, p', L1, d')"
  shows "covers p' L1"
proof -
  have wf: "resource_list L" "failures_recorded L" using un by (simp_all add: unwinding_def)
  show ?thesis
    using covers_progress [OF assms(2) pump_loop_progress [OF loop wf] pump_loop_same_unwind [OF loop wf]]
      pump_loop_handled [OF loop wf] by blast
qed

text \<open>
  A close of scope \<open>s\<close>, asked for in ledger \<open>L0\<close>, that is suspended in the state at hand: the
  call itself was suspended, or a continuation of a suspended one was suspended again.
\<close>

inductive close_suspended ::
  "(nat \<Rightarrow> 'd release_fn) \<Rightarrow> u64 \<Rightarrow> SessionResourceLedger \<Rightarrow> SessionResourceLedger \<times> 'd \<Rightarrow> bool"
  for release_of s L0 where
  called: "CloseScope t s n (release_of n) L0 d = (res, L, d') \<Longrightarrow>
    outcome res = CleanupExecutionRequired \<Longrightarrow> close_suspended release_of s L0 (L, d')"
| continued: "close_suspended release_of s L0 (L, d) \<Longrightarrow>
    ContinueCleanup t c n (release_of n) L d = (res, L', d') \<Longrightarrow>
    outcome res = CleanupExecutionRequired \<Longrightarrow> close_suspended release_of s L0 (L', d')"

inductive_cases close_suspendedE: "close_suspended release_of s L0 S"

definition closing :: "u64 \<Rightarrow> SessionResourceLedger \<Rightarrow> SessionResourceLedger \<Rightarrow> bool" where
  "closing s L0 L \<longleftrightarrow> (\<exists>p. pending_unwind L = Some p \<and> unwinding L p \<and> covers p L \<and>
     \<not> pu_shutdown p \<and> set (pu_scopes_to_close p) = set (open_in_subtree s L0) \<and>
     links L = links L0 \<and> open_ids L = open_ids L0)"

lemma pump_suspended_closing:
  assumes closing: "closing s L0 L" and run: "PumpUnwind f L d = (res, L', d')"
    and "outcome res = CleanupExecutionRequired"
  shows "closing s L0 L'"
proof -
  obtain p where p: "pending_unwind L = Some p" "unwinding L p" "covers p L" "\<not> pu_shutdown p"
      "set (pu_scopes_to_close p) = set (open_in_subtree s L0)" "links L = links L0" "open_ids L = open_ids L0"
    using closing by (auto simp: closing_def)
  from p(2,1) show ?thesis
  proof (cases rule: PumpUnwind_result [where f = f and d = d])
    case (suspended q p' L1 d'' i)
    have frame: "same_frame L L1" using suspended(6) by (simp add: progress_def)
    have L': "L' = L1\<lparr>pending_unwind := Some p'\<rparr>" using suspended(1) run by simp
    have "unwinding L' p'" using suspended(2) by (simp add: L' unwinding_def)
    moreover have "covers p' L'" using pump_covers [OF p(2,3) suspended(7)] by (simp add: covers_def L')
    moreover have "links L' = links L" "open_ids L' = open_ids L" "pending_unwind L' = Some p'"
      using frame by (simp_all add: L' links_def same_frame_def open_ids_def)
    ultimately show ?thesis using p suspended(3) by (simp add: closing_def same_unwind_def)
  next
    case (finished p' L1 d'')
    with run assms(3) show ?thesis by (auto simp: finished_unwind_def split: if_splits)
  qed
qed

lemma descendant_closes:
  assumes tree: "scope_tree L" and opens: "opens_wf L" and wf: "unwind_wf L p"
    and path: "(a, b) \<in> (parent_rel L)\<^sup>*" and "a \<in> set (pu_scopes_to_close p)" and "b \<in> open_ids L"
  shows "b \<in> set (pu_scopes_to_close p)"
  using path assms(6)
proof (induction rule: rtrancl_induct)
  case base
  show ?case by (rule assms(5))
next
  case (step y z)
  with opens have "y \<in> open_ids L" by (auto simp: opens_wf_def)
  with step wf show ?case by (auto simp: unwind_wf_def)
qed

lemma pump_completed_closing:
  assumes closing: "closing s L0 L" and run: "PumpUnwind f L d = (res, L', d')"
    and "outcome res = Completed"
  shows "links L' = links L0 \<and> open_ids L' = open_ids L0 - set (open_in_subtree s L0) \<and>
    (\<forall>r \<in> set (resources L'). live r \<longrightarrow> res_scope r \<notin> set (open_in_subtree s L0)) \<and>
    resource_ledger_inv L' \<and> ledger_state L' \<noteq> Closed"
proof -
  obtain p where p: "pending_unwind L = Some p" "unwinding L p" "covers p L" "\<not> pu_shutdown p"
      "set (pu_scopes_to_close p) = set (open_in_subtree s L0)" "links L = links L0" "open_ids L = open_ids L0"
    using closing by (auto simp: closing_def)
  from p(2,1) show ?thesis
  proof (cases rule: PumpUnwind_result [where f = f and d = d])
    case (suspended q p' L1 d'' i)
    with run assms(3) show ?thesis by auto
  next
    case (finished p' L1 d'')
    let ?M = "L1\<lparr>pending_unwind := Some p'\<rparr>"
    have frame: "same_frame L L1" using finished(4) by (simp add: progress_def)
    have L': "L' = FinishPendingUnwind ?M" and ok: "\<not> pu_had_failure p'"
      using finished(1) run assms(3) by (auto simp: finished_unwind_def split: if_splits)
    have un: "scope_tree L1" "opens_wf L1" "unwind_wf L1 p'" "resource_list L" "failures_recorded L"
      using finished(2) p(2) by (simp_all add: unwinding_def)
    have p': "pu_shutdown p' = False" "pu_scopes_to_close p' = pu_scopes_to_close p"
      using finished(3) p(4) by (simp_all add: same_unwind_def)
    have tree: "scope_tree ?M" using un(1) by simp
    note eq = FinishPendingUnwind_eq [OF tree, of p', folded L', simplified, unfolded p']
    have covered: "covers p' L1" by (rule pump_covers [OF p(2,3) finished(5)])
    have "pu_next_resource p' \<ge> length (pu_resources p')"
      using pump_loop_next [OF finished(5) un(4,5)] finished(3) by (simp add: same_unwind_def)
    then have none: "res_scope r \<notin> set (pu_scopes_to_close p)" if "r \<in> set (resources L1)" "live r" for r
      using covered ok that p'(2) by (auto simp: covers_def)
    have "\<not> still_owns_resource a ?M" if a: "a \<in> set (pu_scopes_to_close p)" for a
    proof
      assume "still_owns_resource a ?M"
      then obtain r where r: "r \<in> set (resources L1)" "live r" "IsInScopeSubtree (res_scope r) a L1"
        by (auto simp: still_owns_resource_def list_ex_iff subtree_links [of ?M L1])
      moreover have "res_scope r \<in> open_ids L1" using un(2) r by (simp add: opens_wf_def)
      ultimately have "res_scope r \<in> set (pu_scopes_to_close p)"
        using descendant_closes [OF un(1,2,3), of a "res_scope r"] a p'(2) un(1)
        by (simp add: IsInScopeSubtree_iff)
      with none [OF r(1,2)] show False by simp
    qed
    then have "closes False (pu_scopes_to_close p) ?M a \<longleftrightarrow> a \<in> set (pu_scopes_to_close p)" for a
      by (auto simp: closes_def)
    then have "open_ids L' = open_ids L1 - set (pu_scopes_to_close p)" by (auto simp: eq)
    moreover have "links L' = links L1" "resources L' = resources L1" by (simp_all add: eq)
    moreover have "links L1 = links L" "open_ids L1 = open_ids L"
      using frame by (simp_all add: links_def same_frame_def open_ids_def)
    moreover have "resource_ledger_inv L'" using PumpUnwind_inv [OF p(2,1), of f d] run by simp
    moreover have "ledger_state L' \<noteq> Closed" using un(3) p'(1) by (auto simp: eq unwind_wf_def)
    ultimately show ?thesis using none p by simp
  qed
qed

lemma PumpUnwind_outcomes:
  assumes "unwinding L p" "pending_unwind L = Some p"
  shows "outcome (fst (PumpUnwind f L d)) \<in> {CleanupExecutionRequired, Completed, CleanupFailed}"
  using assms by (cases rule: PumpUnwind_result [where f = f and d = d]) (simp_all add: finished_unwind_def)

lemma ContinueCleanup_pump:
  assumes "ContinueCleanup t c n f L d = (res, L', d')" and "outcome res \<noteq> Rejected"
  shows "PumpUnwind f L d = (res, L', d')"
  using assms by (auto simp: ContinueCleanup_def RejectedUnwind_def split: option.splits if_splits)

lemma started_closing:
  assumes inv: "resource_ledger_inv L" and "can_start n L" and un: "unwinding (started p n L) p"
    and p: "p = fresh_unwind (close_resources s L) (close_scopes s L) ScopeExit (ledger_state L) False L"
  shows "closing s L (started p n L)"
proof -
  have "covers p (started p n L)"
    by (auto simp: covers_def p live_in_subtree_def open_in_subtree_iff)
  moreover have "open_ids (started p n L) = open_ids L" by (simp add: open_ids_def)
  ultimately show ?thesis using un by (simp add: closing_def p)
qed

lemma close_suspended_closing:
  assumes "close_suspended release_of s L0 S" and inv: "resource_ledger_inv L0"
  shows "closing s L0 (fst S)"
  using assms(1)
proof (induction rule: close_suspended.induct)
  case (called t n d res L d')
  then have "outcome res \<noteq> Rejected" "outcome res \<noteq> AlreadyComplete" by simp_all
  from called(1) inv this obtain p where
    p: "p = fresh_unwind (close_resources s L0) (close_scopes s L0) ScopeExit (ledger_state L0) False L0"
      "unwinding (started p n L0) p" "PumpUnwind (release_of n) (started p n L0) d = (res, L, d')" "can_start n L0"
    by (rule CloseScope_started)
  from pump_suspended_closing [OF started_closing [OF inv p(4,2,1)] p(3) called(2)] show ?case by simp
next
  case (continued L d t c n res L' d')
  then have "PumpUnwind (release_of n) L d = (res, L', d')" by (intro ContinueCleanup_pump) simp_all
  from pump_suspended_closing [OF _ this continued(3)] continued(4) show ?case by simp
qed

lemma open_scope_ids:
  assumes "scope_tree L"
  shows "map scope_id (filter scope_open (scopes L)) = filter (\<lambda>c. c \<in> open_ids L) (map scope_id (scopes L))"
proof -
  have "scope_id c \<in> open_ids L \<longleftrightarrow> scope_open c" if "c \<in> set (scopes L)" for c
    using that FindScope_iff [OF assms] by (auto simp: open_ids_def) (metis option.inject)
  then show ?thesis by (simp add: filter_map comp_def cong: filter_cong)
qed

text \<open>
  C8. A suspended close is finished by its continuations: however often the dispatcher asks for a
  cleanup execution, once a continuation completes, every scope of the subtree the close was
  called on is closed, no resource in it is live, and no other scope has been opened or closed.
\<close>

theorem suspended_close_completes_subtree:
  assumes reach: "reachable_from (resource_step release_of) (new_resource_ledger t0, d0) (L0, d1)"
    and suspended: "close_suspended release_of s L0 (L, d)"
    and continue: "ContinueCleanup t c n (release_of n) L d = (res, L', d')"
    and completed: "outcome res = Completed"
  shows "(\<forall>c \<in> set (scopes L'). IsInScopeSubtree (scope_id c) s L' \<longrightarrow> \<not> scope_open c) \<and>
    (\<forall>r \<in> set (resources L'). IsLive (res_status r) \<longrightarrow> \<not> IsInScopeSubtree (res_scope r) s L') \<and>
    map scope_id (filter scope_open (scopes L')) =
      filter (\<lambda>c. \<not> IsInScopeSubtree c s L0) (map scope_id (filter scope_open (scopes L0)))"
proof -
  have inv: "resource_ledger_inv L0" by (rule resource_reachable_inv [OF reach])
  have closing: "closing s L0 L" using close_suspended_closing [OF suspended inv] by simp
  have run: "PumpUnwind (release_of n) L d = (res, L', d')"
    using ContinueCleanup_pump [OF continue] completed by simp
  from pump_completed_closing [OF closing run completed]
  have finished: "links L' = links L0" "open_ids L' = open_ids L0 - set (open_in_subtree s L0)"
      "resource_ledger_inv L'" "ledger_state L' \<noteq> Closed"
    by auto
  have sub: "IsInScopeSubtree x s L' = IsInScopeSubtree x s L0" for x
    by (rule subtree_links [OF finished(1)])
  have tree: "scope_tree L'" "scope_tree L0" and opens: "opens_wf L'"
    using finished inv by (simp_all add: resource_ledger_inv_def openness_wf_iff)
  have closed: "c \<in> open_ids L' \<longleftrightarrow> c \<in> open_ids L0 \<and> \<not> IsInScopeSubtree c s L0" for c
    using finished(2) by (auto simp: open_in_subtree_iff)
  have "res_scope r \<in> open_ids L'" if "r \<in> set (resources L')" "live r" for r
    using opens that by (simp add: opens_wf_def)
  then have free: "\<not> IsInScopeSubtree (res_scope r) s L'" if "r \<in> set (resources L')" "live r" for r
    using that closed by (simp add: sub)
  have shut: "\<not> scope_open c" if "c \<in> set (scopes L')" "IsInScopeSubtree (scope_id c) s L'" for c
    using that closed [of "scope_id c"] by (auto simp: open_ids_def sub)
  have "map scope_id (scopes L') = map scope_id (scopes L0)"
    using arg_cong [OF finished(1), of "map fst"] by (simp add: links_def comp_def)
  then have "map scope_id (filter scope_open (scopes L')) =
      filter (\<lambda>c. \<not> IsInScopeSubtree c s L0) (map scope_id (filter scope_open (scopes L0)))"
    using tree closed by (simp add: open_scope_ids)
  with free shut show ?thesis by blast
qed

theorem suspended_close_completes_subtree_witness:
  "\<exists>L d res L' d'. close_suspended ask_once 2 sample_session (L, d) \<and>
    ContinueCleanup 1 1 0 (ask_once 0) L d = (res, L', d') \<and>
    map scope_id (filter scope_open (scopes L')) = [1]"
proof -
  obtain res L d where run: "CloseScope 1 2 0 (ask_once 0) sample_session 0 = (res, L, d)"
    by (rule prod_cases3)
  obtain res' L' d' where cont: "ContinueCleanup 1 1 0 (ask_once 0) L d = (res', L', d')"
    by (rule prod_cases3)
  have sus: "close_suspended ask_once 2 sample_session (L, d)"
    by (rule close_suspended.called [of _ _ _ ask_once, OF run]) (use sample_suspends(1) run in simp)
  have "outcome res' = Completed" using sample_resumes [OF run] cont by simp
  from suspended_close_completes_subtree [OF sample_reachable [of ask_once 0] sus cont this]
  have "map scope_id (filter scope_open (scopes L')) =
      filter (\<lambda>c. \<not> IsInScopeSubtree c 2 sample_session) (map scope_id (filter scope_open (scopes sample_session)))"
    by blast
  also have "map scope_id (filter scope_open (scopes sample_session)) = [1, 2]"
    by (simp add: sample_session_eq)
  finally have "map scope_id (filter scope_open (scopes L')) = [1]" by (simp only: sample_subtree filter.simps) simp
  with sus cont show ?thesis by (intro exI conjI)
qed

section \<open>Suspension\<close>

lemma unwinding_rejects:
  assumes "ledger_state L = Unwinding" and "t = owner_thread L"
  shows "Initialize t s e w L = (Inl RL_InvalidState, L)"
    "OpenSyntheticScope t p w l L = (Inl RL_CleanupInProgress, L)"
    "Acquire t s ds L = (Inl RL_CleanupInProgress, L)"
    "Promote t r s L = (Inl (RL_CleanupInProgress, None), L)"
    "Release t r n f L d = (RejectedUnwind RL_CleanupInProgress L, L, d)"
    "CloseScope t s n f L d = (RejectedUnwind RL_CleanupInProgress L, L, d)"
    "Shutdown t n f L d = (RejectedUnwind RL_CleanupInProgress L, L, d)"
  using assms
  by (simp_all add: Initialize_def OpenSyntheticScope_def Acquire_def Promote_def Release_def
      CloseScope_def Shutdown_def ValidateAccepting_def)

lemma foreign_rejects:
  assumes "t \<noteq> owner_thread L"
  shows "Initialize t s e w L = (Inl RL_WrongThread, L)"
    "OpenSyntheticScope t p w l L = (Inl RL_WrongThread, L)"
    "Acquire t s ds L = (Inl RL_WrongThread, L)"
    "Promote t r s L = (Inl (RL_WrongThread, None), L)"
    "Release t r n f L d = (RejectedUnwind RL_WrongThread L, L, d)"
    "CloseScope t s n f L d = (RejectedUnwind RL_WrongThread L, L, d)"
    "Shutdown t n f L d = (RejectedUnwind RL_WrongThread L, L, d)"
  using assms
  by (simp_all add: Initialize_def OpenSyntheticScope_def Acquire_def Promote_def Release_def
      CloseScope_def Shutdown_def)

lemma pump_loop_first:
  assumes "resource_list L" and "FindResource r L = Some x" and "live x" and "failures_recorded L"
    and loop: "pump_loop f (r # rs) p L d = (req, p', L', d')"
  shows "\<exists>res new. pu_steps p' = pu_steps p @
      \<lparr>step_request = release_request p x L, step_result = res\<rparr> # new"
  using loop assms(1,4)
proof (cases rule: pump_loop_cases)
  case skipped
  with assms show ?thesis by (auto simp: is_live_find)
next
  case (suspended y res)
  with assms show ?thesis by auto
next
  case (settled y res d1)
  then have "resource_list (settle_release y res L)" "failures_recorded (settle_release y res L)"
    by (simp_all add: progress_def)
  from pump_loop_steps [OF settled(7) this] settled(1) assms(2) show ?thesis by auto
qed

lemma foreign_thread_rejected:
  assumes "t \<noteq> owner_thread L"
  shows "resource_step release_of (t, n, x) (L, d) = (L, d)"
  using assms by (cases x) (simp_all add: Initialize_def OpenSyntheticScope_def Acquire_def
      Promote_def Release_def CloseScope_def ContinueCleanup_def Shutdown_def)

text \<open>
  C9. While an unwind is suspended, nothing else runs: every other operation is refused, with the
  error that a cleanup is in progress (initialization: that the state is wrong) or, on another
  thread, that the thread is wrong, and without effect. A continuation is refused too, with an error
  and without effect, unless it names the pending unwind, comes from the owner thread and brings the
  dispatcher the unwind was started with, and the right
  continuation keeps the steps taken and dispatches, first, the very request the unwind is
  suspended on.
\<close>

theorem suspended_unwind_is_exclusive:
  assumes reach: "reachable_from (resource_step release_of) (new_resource_ledger t0, d0) (L, d)"
    and suspended: "ledger_state L = Unwinding"
  shows "\<exists>p n request. pending_unwind L = Some p \<and> bound_dispatcher L = Some n \<and>
    IsLive (res_status (req_receipt request)) \<and> req_receipt request \<in> set (resources L) \<and>
    request = step_request (last (pu_steps p)) \<and>
    (\<forall>t. let code = (if t = owner_thread L then RL_CleanupInProgress else RL_WrongThread) in
       (\<forall>s e w. Initialize t s e w L = (Inl (if t = owner_thread L then RL_InvalidState else RL_WrongThread), L)) \<and>
       (\<forall>parent w l. OpenSyntheticScope t parent w l L = (Inl code, L)) \<and>
       (\<forall>s ds. Acquire t s ds L = (Inl code, L)) \<and>
       (\<forall>r s. Promote t r s L = (Inl (code, None), L)) \<and>
       (\<forall>r m. Release t r m (release_of m) L d = (RejectedUnwind code L, L, d)) \<and>
       (\<forall>s m. CloseScope t s m (release_of m) L d = (RejectedUnwind code L, L, d)) \<and>
       (\<forall>m. Shutdown t m (release_of m) L d = (RejectedUnwind code L, L, d)) \<and>
       (\<forall>c m. c \<noteq> pu_continuation p \<or> m \<noteq> n \<or> t \<noteq> owner_thread L \<longrightarrow>
          ContinueCleanup t c m (release_of m) L d =
            (RejectedUnwind (if t = owner_thread L then RL_InvalidArgument else RL_WrongThread) L, L, d))) \<and>
    (\<forall>t m x. (\<forall>c. x = Op_ContinueCleanup c \<longrightarrow>
         c \<noteq> pu_continuation p \<or> m \<noteq> n \<or> t \<noteq> owner_thread L) \<longrightarrow>
       resource_step release_of (t, m, x) (L, d) = (L, d)) \<and>
    (\<forall>res S. ContinueCleanup (owner_thread L) (pu_continuation p) n (release_of n) L d = (res, S) \<longrightarrow>
       (\<exists>result later. result_steps res = pu_steps p @
          \<lparr>step_request = request, step_result = result\<rparr> # later))"
proof -
  have inv: "resource_ledger_inv L" by (rule resource_reachable_inv [OF reach])
  from inv suspended obtain p where p: "pending_unwind L = Some p" "pending_wf L p" "unwinding L p"
    by (rule unwinding_pending)
  have wf: "resource_list L" "failures_recorded L" using p(3) by (simp_all add: unwinding_def)
  obtain x where x: "x \<in> set (resources L)" "live x" "res_id x = pu_resources p ! pu_next_resource p"
      "step_request (last (pu_steps p)) = release_request p x L"
    and bounds: "pu_next_resource p < length (pu_resources p)"
    using p(2) by (auto simp: pending_wf_def)
  obtain n where n: "bound_dispatcher L = Some n" and cont: "pu_continuation p \<noteq> 0"
    using p(2) by (auto simp: pending_wf_def unwind_wf_def)
  let ?request = "release_request p x L"
  have others: "resource_step release_of (t, m, op) (L, d) = (L, d)"
    if "\<forall>c. op = Op_ContinueCleanup c \<longrightarrow> c \<noteq> pu_continuation p \<or> m \<noteq> n \<or> t \<noteq> owner_thread L" for t m op
  proof (cases "t = owner_thread L")
    case True
    with that suspended n p(1) show ?thesis
      by (cases op) (auto simp: unwinding_rejects ContinueCleanup_def)
  qed (rule foreign_thread_rejected)
  have refused: "let code = (if t = owner_thread L then RL_CleanupInProgress else RL_WrongThread) in
       (\<forall>s e w. Initialize t s e w L = (Inl (if t = owner_thread L then RL_InvalidState else RL_WrongThread), L)) \<and>
       (\<forall>parent w l. OpenSyntheticScope t parent w l L = (Inl code, L)) \<and>
       (\<forall>s ds. Acquire t s ds L = (Inl code, L)) \<and>
       (\<forall>r s. Promote t r s L = (Inl (code, None), L)) \<and>
       (\<forall>r m. Release t r m (release_of m) L d = (RejectedUnwind code L, L, d)) \<and>
       (\<forall>s m. CloseScope t s m (release_of m) L d = (RejectedUnwind code L, L, d)) \<and>
       (\<forall>m. Shutdown t m (release_of m) L d = (RejectedUnwind code L, L, d)) \<and>
       (\<forall>c m. c \<noteq> pu_continuation p \<or> m \<noteq> n \<or> t \<noteq> owner_thread L \<longrightarrow>
          ContinueCleanup t c m (release_of m) L d =
            (RejectedUnwind (if t = owner_thread L then RL_InvalidArgument else RL_WrongThread) L, L, d))" for t
  proof (cases "t = owner_thread L")
    case True
    with suspended p(1) n show ?thesis by (auto simp: unwinding_rejects ContinueCleanup_def Let_def)
  next
    case False
    then show ?thesis by (simp add: foreign_rejects ContinueCleanup_def Let_def)
  qed
  have first: "\<exists>result later. result_steps res = pu_steps p @ \<lparr>step_request = ?request, step_result = result\<rparr> # later"
    if "ContinueCleanup (owner_thread L) (pu_continuation p) n (release_of n) L d = (res, S)" for res S
  proof -
    have run: "PumpUnwind (release_of n) L d = (res, S)"
      using that suspended p(1) n cont by (simp add: ContinueCleanup_def)
    have split: "drop (pu_next_resource p) (pu_resources p)
        = res_id x # drop (Suc (pu_next_resource p)) (pu_resources p)"
      using bounds x(3) by (simp add: Cons_nth_drop_Suc)
    have found: "FindResource (res_id x) L = Some x" using x(1) wf(1) by (simp add: FindResource_iff)
    have first: "\<exists>result later. pu_steps p' = pu_steps p @ \<lparr>step_request = ?request, step_result = result\<rparr> # later"
      if "pump_loop (release_of n) (drop (pu_next_resource p) (pu_resources p)) p L d = (req, p', L', d')"
      for req p' L' d'
      by (rule pump_loop_first [OF wf(1) found x(2) wf(2) that [unfolded split]])
    from p(3,1) show ?thesis
    proof (cases rule: PumpUnwind_result [where f = "release_of n" and d = d])
      case (suspended q p' L1 d' i)
      with run first [OF suspended(7)] show ?thesis by auto
    next
      case (finished p' L1 d')
      with run first [OF finished(5)] show ?thesis by (auto simp: finished_unwind_def)
    qed
  qed
  show ?thesis
    by (rule exI [of _ p], rule exI [of _ n], rule exI [of _ ?request])
      (use p(1) n x others first refused in \<open>simp add: release_request_def\<close>)
qed

theorem suspended_unwind_is_exclusive_witness:
  "\<exists>L d. reachable_from (resource_step ask_once) (new_resource_ledger 1, 0) (L, d) \<and>
    ledger_state L = Unwinding \<and> resource_step ask_once (1, 0, Op_Shutdown) (L, d) = (L, d)"
proof -
  obtain res L d where run: "CloseScope 1 2 0 (ask_once 0) sample_session 0 = (res, L, d)"
    by (rule prod_cases3)
  have "reachable_from (resource_step ask_once) (new_resource_ledger 1, 0)
     (resource_step ask_once (1, 0, Op_CloseScope 2) (sample_session, 0))"
    by (intro reachable_from.step sample_reachable)
  then have reach: "reachable_from (resource_step ask_once) (new_resource_ledger 1, 0) (L, d)"
    using run by simp
  have sus: "ledger_state L = Unwinding" using sample_suspends(2) run by simp
  from suspended_unwind_is_exclusive [OF reach sus] reach sus show ?thesis by blast
qed

section \<open>Taking and moving resources\<close>

text \<open>
  Acquisition is all or nothing: a refused batch changes nothing, and an accepted one appends
  one active receipt per definition, in the order given, under consecutive fresh identities and
  sequence numbers, in the named open scope whose owner it shares, none of them standing for an
  external resource that is already live.
\<close>

theorem acquisition_is_all_or_nothing:
  assumes reach: "reachable_from (resource_step release_of) (new_resource_ledger t0, d0) (L, d)"
  shows "case Acquire t s ds L of
      (Inl e, L') \<Rightarrow> e \<noteq> RL_None \<and> L' = L
    | (Inr rs, L') \<Rightarrow> resources L' = resources L @ rs \<and> length rs = length ds \<and>
        L' = L\<lparr>resources := resources L @ rs,
          next_resource_id := next_resource_id L + of_nat (length ds),
          next_sequence := next_sequence L + of_nat (length ds)\<rparr> \<and>
        (\<forall>i < length ds.
          res_id (rs ! i) = next_resource_id L + of_nat i \<and> res_sequence (rs ! i) = next_sequence L + of_nat i \<and>
          (\<forall>r \<in> set (resources L). res_id r < res_id (rs ! i) \<and> res_sequence r < res_sequence (rs ! i)) \<and>
          res_scope (rs ! i) = s \<and> res_status (rs ! i) = Active \<and>
          res_owner (rs ! i) = def_owner (ds ! i) \<and> res_service (rs ! i) = def_service (ds ! i) \<and>
          res_release (rs ! i) = def_release (ds ! i) \<and>
          (\<exists>c \<in> set (scopes L). scope_id c = s \<and> scope_open c \<and> scope_owner c = def_owner (ds ! i)) \<and>
          (\<forall>r \<in> set (resources L') - {rs ! i}. IsLive (res_status r) \<longrightarrow>
             res_service r \<noteq> def_service (ds ! i) \<or> res_release r \<noteq> def_release (ds ! i)))"
proof (cases "Acquire t s ds L")
  case (Pair r L')
  have inv: "resource_ledger_inv L" by (rule resource_reachable_inv [OF reach])
  have tree: "scope_tree L" and list: "resource_list L" using inv by (simp_all add: resource_ledger_inv_def)
  show ?thesis
  proof (cases r)
    case (Inl e)
    with Pair show ?thesis by (auto simp: Acquire_def Let_def split: if_splits)
  next
    case (Inr rs)
    show ?thesis
    proof (cases "ds = []")
      case True
      with Pair Inr show ?thesis by (auto simp: Acquire_def Let_def split: if_splits)
    next
      case False
      note acquired = Pair [unfolded Inr]
      note res = Acquire_result [OF acquired False]
      have order: "sorted_wrt resource_order (resources L @ rs)"
        by (rule Acquire_order [OF acquired False list])
      obtain c where c: "FindScope s L = Some c" "scope_open c" using res(2) by (rule ValidateScope_ok)
      have len: "length rs = length ds" by (simp add: res(6))
      have item: "rs ! i = receipt_of L s (next_resource_id L + of_nat i) (next_sequence L + of_nat i) (ds ! i)"
        if "i < length ds" for i using that by (simp add: res(6) make_receipts_nth)
      have owner: "c \<in> set (scopes L) \<and> scope_id c = s \<and> scope_open c \<and> scope_owner c = def_owner (ds ! i)"
        if "i < length ds" for i
        using that validate_definitions_ok [OF res(5)] c by (auto simp: FindScope_iff [OF tree])
      have before: "res_id r < res_id (rs ! i) \<and> res_sequence r < res_sequence (rs ! i)"
        if "i < length ds" "r \<in> set (resources L)" for i r
        using order that len by (simp add: sorted_wrt_append resource_order_def)
      have unique: "res_service r \<noteq> def_service (ds ! i) \<or> res_release r \<noteq> def_release (ds ! i)"
        if i: "i < length ds" and r: "r \<in> set (resources L') - {rs ! i}" "live r" for i r
      proof -
        have xs: "resources L' = resources L @ rs" by (simp add: res(7))
        then have "r \<in> set (resources L @ rs)" using r(1) by simp
        then obtain k where k: "k < length (resources L @ rs)" "r = (resources L @ rs) ! k"
          unfolding in_set_conv_nth by blast
        let ?j = "length (resources L) + i"
        have j: "?j < length (resources L @ rs)" "(resources L @ rs) ! ?j = rs ! i"
          using i len by simp_all
        with k r(1) have "k \<noteq> ?j" by auto
        then have "resource_order r (rs ! i) \<or> resource_order (rs ! i) r"
          using order j k by (metis sorted_wrt_nth_less linorder_neqE_nat)
        then show ?thesis using r(2) item [OF i] by (auto simp: resource_order_def same_release_def)
      qed
      show ?thesis
        using Pair Inr len item owner before unique by (simp add: res(7)) blast
    qed
  qed
qed

theorem acquisition_is_all_or_nothing_witness:
  "resources (snd (Acquire 1 1 [sample_definition 200 Optional] sample_session)) =
     resources sample_session @ [receipt_of sample_session 1 3 3 (sample_definition 200 Optional)] \<and>
   snd (Acquire 1 1 [sample_definition 100 Optional] sample_session) = sample_session"
proof
  show "resources (snd (Acquire 1 1 [sample_definition 200 Optional] sample_session)) =
     resources sample_session @ [receipt_of sample_session 1 3 3 (sample_definition 200 Optional)]"
    by (simp add: sample_session_eq Acquire_def ValidateAccepting_def ValidateScopeForAcquisition_def
        FindScope_def Let_def sample_definition_def same_identity_def receipt_of_def)
  have "fst (Acquire 1 1 [sample_definition 100 Optional] sample_session) = Inl RL_ResourceAlreadyRegistered"
    by (simp add: sample_session_eq Acquire_def ValidateAccepting_def ValidateScopeForAcquisition_def
        FindScope_def Let_def sample_definition_def same_identity_def)
  then show "snd (Acquire 1 1 [sample_definition 100 Optional] sample_session) = sample_session"
    using acquisition_is_all_or_nothing [OF sample_reachable [of accept_all "()"],
        of "[sample_definition 100 Optional]" 1 1]
    by (cases "Acquire 1 1 [sample_definition 100 Optional] sample_session") simp
qed

text \<open>
  Promotion moves a live resource to an open scope of the same owner strictly above its own,
  as its policy allows, and touches nothing but the scope of that one resource; promoting it there
  again reports that nothing moved.
\<close>

theorem promotion_moves_up:
  assumes reach: "reachable_from (resource_step release_of) (new_resource_ledger t0, d0) (L, d)"
    and promoted: "Promote t r s L = (Inr (moved, x), L')"
  shows "res_id x = r \<and> res_scope x = s \<and>
    resources L' = map (\<lambda>y. if res_id y = r then x else y) (resources L) \<and>
    scopes L' = scopes L \<and>
    (\<exists>y \<in> set (resources L). x = y\<lparr>res_scope := s\<rparr> \<and>
      (\<exists>c \<in> set (scopes L). scope_id c = s \<and> scope_owner c = res_owner x) \<and>
      (moved \<longleftrightarrow> res_scope y \<noteq> s) \<and>
      (moved \<longrightarrow> IsLive (res_status y) \<and> (s, res_scope y) \<in> (parent_rel L)\<^sup>+ \<and> s < res_scope y \<and>
        res_promotion y \<noteq> Forbidden \<and>
        (res_promotion y = ImmediateParent \<longrightarrow> ParentOf (res_scope y) L = s))) \<and>
    Promote t r s L' = (Inr (False, x), L')"
proof -
  have inv: "resource_ledger_inv L" by (rule resource_reachable_inv [OF reach])
  have tree: "scope_tree L" and list: "resource_list L" using inv by (simp_all add: resource_ledger_inv_def)
  have list': "resource_list L'" using Promote_inv [OF inv, of t r s] promoted by (simp add: resource_ledger_inv_def)
  have guards: "t = owner_thread L" "ledger_state L = Accepting" "ValidateScopeForAcquisition s L = RL_None"
    using promoted by (auto simp: Promote_def ValidateAccepting_ok split: if_splits)
  from promoted show ?thesis
  proof (cases rule: Promote_result)
    case same
    have x: "x \<in> set (resources L)" "res_id x = r" using same(3) by (simp_all add: FindResource_iff list)
    have only: "y = x" if "y \<in> set (resources L)" "res_id y = r" for y
      using that same(3) by (metis FindResource_iff [OF list] option.inject)
    have "\<exists>c \<in> set (scopes L). scope_id c = s \<and> scope_owner c = res_owner x"
      using list x same(4) by (auto simp: resource_list_def owned_by_def)
    moreover have "x = x\<lparr>res_scope := s\<rparr>" using same(4) by simp
    moreover have "map (\<lambda>y. if res_id y = r then x else y) (resources L) = resources L"
      using only by (intro map_idI) auto
    ultimately have "\<exists>y \<in> set (resources L). x = y\<lparr>res_scope := s\<rparr> \<and>
      (\<exists>c \<in> set (scopes L). scope_id c = s \<and> scope_owner c = res_owner x) \<and> res_scope y = s"
      using x(1) same(4) by blast
    with \<open>map (\<lambda>y. if res_id y = r then x else y) (resources L) = resources L\<close>
    show ?thesis using same x promoted by simp
  next
    case (moved y c)
    have y: "y \<in> set (resources L)" "res_id y = r" using moved(2) by (simp_all add: FindResource_iff list)
    have only: "z = y" if "z \<in> set (resources L)" "res_id z = r" for z
      using that moved(2) by (metis FindResource_iff [OF list] option.inject)
    have anc: "(s, res_scope y) \<in> (parent_rel L)\<^sup>+" using moved(7) by (simp add: IsAncestor_iff tree)
    then have less: "s < res_scope y" using ancestors_less [OF tree] by blast
    have rs: "resources L' = map (\<lambda>z. if res_id z = r then x else z) (resources L)"
      using sorted_resource_ids [OF list] only
      by (simp add: moved(10,12) update_first_map [where key = res_id] cong: map_cong)
    have c: "c \<in> set (scopes L)" "scope_id c = s" using moved(4) by (simp_all add: FindScope_iff tree)
    have "x \<in> set (resources L')" unfolding rs using y by force
    then have "FindResource r L' = Some x" using moved(10) y(2) by (simp add: FindResource_iff [OF list'])
    moreover have same_scope: "FindScope s L' = FindScope s L" by (simp add: moved(12) FindScope_def)
    moreover have "ValidateScopeForAcquisition s L' = RL_None"
      using guards(3) unfolding ValidateScopeForAcquisition_def same_scope .
    ultimately have "Promote t r s L' = (Inr (False, x), L')"
      using guards moved(3,4,6,10)
      by (simp add: Promote_def ValidateAccepting_ok) (simp add: moved(12) ValidateAccepting_def)
    then show ?thesis
      using y c moved anc less rs by auto
  qed
qed

theorem promotion_moves_up_witness:
  "\<exists>x L'. Promote 1 2 1 sample_session = (Inr (True, x), L') \<and> Promote 1 2 1 L' = (Inr (False, x), L')"
proof -
  have "\<exists>x L'. Promote 1 2 1 sample_session = (Inr (True, x), L')"
    by (simp add: sample_session_eq Promote_def ValidateAccepting_def ValidateScopeForAcquisition_def
        FindScope_def FindResource_def IsAncestor_def ParentOf_def)
  then obtain x L' where run: "Promote 1 2 1 sample_session = (Inr (True, x), L')" by blast
  from promotion_moves_up [OF sample_reachable [of accept_all "()"] run] run show ?thesis by blast
qed

section \<open>What lasts\<close>

text \<open>
  C10. Nothing the ledger has finished comes back: from one reachable state to any later one, closed
  scopes stay closed, released resources stay exactly as they are, a resource keeps its identity,
  sequence, owner and external identity, a required taint stays required and bars acquisition for
  good, and a closed ledger never changes again.
\<close>

theorem finished_work_stays_finished:
  assumes reach: "reachable_from (resource_step release_of) (new_resource_ledger t0, d0) (L, d)"
    and later: "reachable_from (resource_step release_of) (L, d) (L', d')"
  shows "(\<forall>i < length (scopes L). i < length (scopes L') \<and>
      scope_id (scopes L' ! i) = scope_id (scopes L ! i) \<and>
      (\<not> scope_open (scopes L ! i) \<longrightarrow> \<not> scope_open (scopes L' ! i))) \<and>
    (\<forall>i < length (resources L). i < length (resources L') \<and>
      res_id (resources L' ! i) = res_id (resources L ! i) \<and>
      res_sequence (resources L' ! i) = res_sequence (resources L ! i) \<and>
      res_owner (resources L' ! i) = res_owner (resources L ! i) \<and>
      res_release (resources L' ! i) = res_release (resources L ! i) \<and>
      (res_status (resources L ! i) = Released \<longrightarrow> resources L' ! i = resources L ! i)) \<and>
    (disposition L = TaintRequired \<longrightarrow> disposition L' = TaintRequired \<and>
      (\<forall>t s ds. \<exists>e. Acquire t s ds L' = (Inl e, L'))) \<and>
    (ledger_state L = Closed \<longrightarrow> L' = L)"
proof -
  have inv: "resource_ledger_inv L" by (rule resource_reachable_inv [OF reach])
  with resource_history.reachable_le [OF later] have inv': "resource_ledger_inv L'"
    and le: "resource_ledger_le L L'" by simp_all
  have "\<exists>e. Acquire t s ds L' = (Inl e, L')" if "disposition L' = TaintRequired" for t s ds
  proof -
    have "ledger_state L' \<noteq> Accepting" using inv' that by (auto simp: resource_ledger_inv_def disposition_wf_def)
    then show ?thesis by (auto simp: Acquire_def ValidateAccepting_def)
  qed
  moreover have "disposition L = TaintRequired \<Longrightarrow> disposition L' = TaintRequired"
    using le by (simp add: resource_ledger_le_def)
  ultimately show ?thesis
    using le by (auto simp: resource_ledger_le_def list_grows_def scope_le_def resource_le_def)
qed

theorem finished_work_stays_finished_witness:
  "resource_step accept_all (1, 0, Op_Acquire 1 []) (resource_step accept_all (1, 0, Op_Shutdown)
     (new_resource_ledger 1, ())) = resource_step accept_all (1, 0, Op_Shutdown) (new_resource_ledger 1, ())"
proof -
  let ?S = "resource_step accept_all (1, 0, Op_Shutdown) (new_resource_ledger 1, ())"
  let ?T = "resource_step accept_all (1, 0, Op_Acquire 1 []) ?S"
  have "reachable_from (resource_step accept_all) (new_resource_ledger 1, ()) (fst ?S, ())"
    using reachable_from.step [OF reachable_from.start] by (metis surjective_pairing unit.exhaust)
  moreover have "reachable_from (resource_step accept_all) (fst ?S, ()) (fst ?T, ())"
    using reachable_from.step [OF reachable_from.start, of "resource_step accept_all"]
    by (metis surjective_pairing unit.exhaust)
  ultimately have "fst ?T = fst ?S"
    using finished_work_stays_finished [of accept_all 1 "()" "fst ?S" "()" "fst ?T" "()"]
    by (simp add: Shutdown_def new_resource_ledger_def Let_def)
  then show ?thesis by (metis prod_eqI unit.exhaust)
qed

lemma closed_absorbs:
  assumes "ledger_state L = Closed"
  shows "resource_step release_of (t, n, x) (L, d) = (L, d)"
  using assms by (cases x) (simp_all add: Initialize_def OpenSyntheticScope_def Acquire_def
      Promote_def Release_def CloseScope_def ContinueCleanup_def Shutdown_def ValidateAccepting_def)

lemma Shutdown_closed_state:
  assumes inv: "resource_ledger_inv L" and run: "Shutdown t n f L d = (res, L', d')"
    and "outcome res = Completed \<or> outcome res = CleanupFailed"
  shows "ledger_state L' = Closed \<and> open_ids L' = {} \<and>
    (outcome res = Completed \<longrightarrow> (\<forall>r \<in> set (resources L'). \<not> live r))"
proof (cases "ledger_state L = Uninitialized")
  case True
  then show ?thesis using inv run assms(3)
    by (auto simp: Shutdown_def Let_def RejectedUnwind_def resource_ledger_inv_def phase_wf_def
        open_ids_def split: if_splits)
next
  case False
  let ?p = "fresh_unwind (sort_latest_first L (map res_id (filter (\<lambda>r. live r) (resources L))))
      (map scope_id (filter scope_open (scopes L))) ShutdownReason Closed True L"
  have phase: "ledger_state L \<in> {Accepting, Tainted}"
    using False run assms(3) by (cases "ledger_state L")
      (auto simp: Shutdown_def RejectedUnwind_def finished_unwind_def split: if_splits)
  have may: "may_unwind L (map scope_id (filter scope_open (scopes L))) Closed True"
    using inv phase by (auto simp: may_unwind_def open_ids_def)
  have run: "StartUnwind (pu_resources ?p) (pu_scopes_to_close ?p) ShutdownReason Closed True n f L d = (res, L', d')"
    using run phase assms(3) by (auto simp: Shutdown_def RejectedUnwind_def split: if_splits)
  have can: "can_start n L"
  proof (rule ccontr)
    assume "\<not> can_start n L"
    from StartUnwind_refused [OF this] run obtain e where "res = RejectedUnwind e L" by (metis prod.inject)
    with assms(3) show False by (simp add: RejectedUnwind_def)
  qed
  have pump: "PumpUnwind f (started ?p n L) d = (res, L', d')"
    using run by (simp add: StartUnwind_started [OF can])
  have un: "unwinding (started ?p n L) ?p" by (rule started_unwinding [OF may can])
  have cov: "covers ?p (started ?p n L)" by (auto simp: covers_def)
  from un started_simps(1) show ?thesis
  proof (cases rule: PumpUnwind_result [where f = f and d = d])
    case (suspended q p' L1 d'' i)
    with pump assms(3) show ?thesis by auto
  next
    case (finished p' L1 d'')
    let ?M = "L1\<lparr>pending_unwind := Some p'\<rparr>"
    have L': "L' = FinishPendingUnwind ?M" and ok: "outcome res = Completed \<longleftrightarrow> \<not> pu_had_failure p'"
      using finished(1) pump by (auto simp: finished_unwind_def split: if_splits)
    have frame: "same_frame (started ?p n L) L1" using finished(4) by (simp add: progress_def)
    have wf: "scope_tree L1" "opens_wf L1" "resource_list L" "failures_recorded L"
      using finished(2) inv by (simp_all add: unwinding_def resource_ledger_inv_def disposition_wf_def)
    have p': "pu_shutdown p'" "set (pu_scopes_to_close p') = open_ids L"
      using finished(3) by (auto simp: same_unwind_def open_ids_def)
    have tree: "scope_tree ?M" using wf(1) by simp
    note eq = FinishPendingUnwind_eq [OF tree, of p', folded L', simplified]
    have opens: "open_ids L1 = open_ids L" using frame by (simp add: open_ids_def same_frame_def)
    have "pu_next_resource p' \<ge> length (pu_resources p')"
      using pump_loop_next [OF finished(5)] wf finished(3) by (simp add: same_unwind_def)
    then have "res_scope r \<notin> open_ids L" if "\<not> pu_had_failure p'" "r \<in> set (resources L1)" "live r" for r
      using pump_covers [OF un cov finished(5)] p'(2) that by (auto simp: covers_def)
    then have "\<not> live r" if "\<not> pu_had_failure p'" "r \<in> set (resources L1)" for r
      using that wf(2) opens by (auto simp: opens_wf_def)
    then show ?thesis using p' ok opens by (auto simp: eq closes_def)
  qed
qed

text \<open>
  C11. Shutting down is final. Once a shutdown has run to its end, the ledger is closed with every
  scope closed, whatever failed; if nothing failed no resource is live. From then on no operation on
  any thread with any dispatcher changes anything, and another shutdown is already complete.
\<close>

theorem shutdown_is_final:
  assumes reach: "reachable_from (resource_step release_of) (new_resource_ledger t0, d0) (L, d)"
    and down: "Shutdown t n (release_of n) L d = (res, L', d')"
    and outcome: "outcome res = Completed \<or> outcome res = CleanupFailed"
  shows "ledger_state L' = Closed \<and> (\<forall>c \<in> set (scopes L'). \<not> scope_open c) \<and>
    (outcome res = Completed \<longrightarrow> (\<forall>r \<in> set (resources L'). \<not> IsLive (res_status r))) \<and>
    (\<forall>u m x. resource_step release_of (u, m, x) (L', d') = (L', d')) \<and>
    outcome (fst (Shutdown (owner_thread L') n (release_of n) L' d')) = AlreadyComplete"
proof -
  have inv: "resource_ledger_inv L" by (rule resource_reachable_inv [OF reach])
  note closed = Shutdown_closed_state [OF inv down outcome]
  have "outcome (fst (Shutdown (owner_thread L') n (release_of n) L' d')) = AlreadyComplete"
    using closed by (simp add: Shutdown_def finished_unwind_def)
  with closed closed_absorbs show ?thesis by (auto simp: open_ids_def)
qed

theorem shutdown_is_final_witness:
  "\<exists>res L' d'. Shutdown 1 0 (accept_all 0) (new_resource_ledger 1) () = (res, L', d') \<and>
    ledger_state L' = Closed \<and> (\<forall>x. resource_step accept_all (1, 0, x) (L', d') = (L', d'))"
proof -
  obtain res L' d' where run: "Shutdown 1 0 (accept_all 0) (new_resource_ledger 1) () = (res, L', d')"
    by (rule prod_cases3)
  then have "outcome res = Completed \<or> outcome res = CleanupFailed"
    by (auto simp: Shutdown_def new_resource_ledger_def Let_def finished_unwind_def)
  from shutdown_is_final [where release_of = accept_all, OF reachable_from.start run this] run
  show ?thesis by blast
qed

lemma pump_loop_prompt:
  assumes "\<And>d q. rr_status (fst (f d q)) \<noteq> RS_CleanupExecutionRequired"
    and "pump_loop f rs p L d = (req, p', L', d')" and "resource_list L" "failures_recorded L"
  shows "req = None \<and> (\<not> pu_had_failure p' \<longrightarrow> disposition L' = disposition L)"
  using assms(2-4)
proof (induction rs arbitrary: p L d)
  case Nil
  then show ?case by simp
next
  case (Cons r rs)
  from Cons.prems show ?case
  proof (cases rule: pump_loop_cases)
    case skipped
    from Cons.IH [OF this(2)] Cons.prems show ?thesis by simp
  next
    case (suspended x res)
    then show ?thesis using assms(1) by (metis fst_conv)
  next
    case (settled x res d1)
    then have wf: "resource_list (settle_release x res L)" "failures_recorded (settle_release x res L)"
      by (simp_all add: progress_def)
    have "rr_status res = RS_Released" if "\<not> pu_had_failure p'"
      using pump_loop_steps [OF settled(7) wf] that settled(5) by (cases "rr_status res") auto
    then show ?thesis
      using Cons.IH [OF settled(7) wf] by (auto simp: settle_release_disposition)
  qed
qed

text \<open>
  Every call returns with a definite answer: with a dispatcher that never asks for a cleanup
  execution, closing an open scope below the root is carried out in full by the one call, and
  either completes or reports the cleanup that failed. Nothing stays pending and the ledger is
  usable again or tainted.
\<close>

theorem close_scope_returns_settled:
  assumes reach: "reachable_from (resource_step release_of) (new_resource_ledger t0, d0) (L, d)"
    and phase: "ledger_state L = Accepting \<or> ledger_state L = Tainted"
    and scope: "c \<in> set (scopes L)" "scope_open c" "scope_id c \<noteq> session_root L"
    and dispatcher: "bound_dispatcher L = None \<or> bound_dispatcher L = Some n"
    and continuation: "next_continuation_id L \<noteq> uint64_max"
    and prompt: "\<And>d q. rr_status (fst (release_of n d q)) \<noteq> RS_CleanupExecutionRequired"
  shows "\<exists>res L' d'. CloseScope (owner_thread L) (scope_id c) n (release_of n) L d = (res, L', d') \<and>
    (outcome res = Completed \<or> outcome res = CleanupFailed) \<and> pending_unwind L' = None \<and>
    (outcome res = Completed \<longrightarrow> disposition L' = disposition L \<and> ledger_state L' = ledger_state L)"
proof -
  have inv: "resource_ledger_inv L" by (rule resource_reachable_inv [OF reach])
  then have wf: "scope_tree L" "resource_list L" "failures_recorded L"
    by (simp_all add: resource_ledger_inv_def disposition_wf_def)
  let ?s = "scope_id c"
  let ?p = "fresh_unwind (close_resources ?s L) (close_scopes ?s L) ScopeExit (ledger_state L) False L"
  have found: "FindScope ?s L = Some c" using scope wf by (simp add: FindScope_iff)
  have can: "can_start n L"
    using inv phase dispatcher continuation
    by (auto simp: can_start_def resource_ledger_inv_def phase_wf_def)
  have may: "may_unwind L (close_scopes ?s L) (ledger_state L) False"
    using inv phase by (intro CloseScope_may_unwind) auto
  have close: "CloseScope (owner_thread L) ?s n (release_of n) L d = PumpUnwind (release_of n) (started ?p n L) d"
    using phase scope found by (auto simp: CloseScope_def StartUnwind_started [OF can])
  have un: "unwinding (started ?p n L) ?p" by (rule started_unwinding [OF may can])
  from un started_simps(1) show ?thesis
  proof (cases rule: PumpUnwind_result [where f = "release_of n" and d = d])
    case (suspended q p' L1 d' i)
    with pump_loop_prompt [OF prompt suspended(7)] wf show ?thesis by simp
  next
    case (finished p' L1 d')
    let ?M = "L1\<lparr>pending_unwind := Some p'\<rparr>"
    let ?L = "FinishPendingUnwind ?M"
    have tree: "scope_tree ?M" and uw: "unwind_wf L1 p'" using finished(2) by (simp_all add: unwinding_def)
    have p': "\<not> pu_shutdown p'" "pu_completion_state p' = ledger_state L"
      using finished(3) by (simp_all add: same_unwind_def)
    note eq = FinishPendingUnwind_eq [OF tree, of p', simplified]
    have kept: "disposition L1 = disposition L" if "\<not> pu_had_failure p'"
      using pump_loop_prompt [OF prompt finished(5)] wf that by simp
    have state: "ledger_state ?L = ledger_state L" if "\<not> pu_had_failure p'"
      using kept [OF that] p' uw inv phase
      by (auto simp: eq unwind_wf_def resource_ledger_inv_def disposition_wf_def)
    let ?res = "finished_unwind (if pu_had_failure p' then CleanupFailed else Completed) (pu_steps p') ?L"
    have run: "CloseScope (owner_thread L) ?s n (release_of n) L d = (?res, ?L, d')"
      using close finished(1) by simp
    have "pending_unwind ?L = None" "disposition ?L = disposition L1" by (simp_all add: eq)
    then show ?thesis
      using run kept state
      by (intro exI [of _ ?res] exI [of _ ?L] exI [of _ d'] conjI)
        (simp_all add: finished_unwind_def split: if_splits)
  qed
qed

theorem close_scope_returns_settled_witness:
  "\<exists>res L' d'. CloseScope 1 2 0 (accept_all 0) sample_session () = (res, L', d') \<and>
    (outcome res = Completed \<or> outcome res = CleanupFailed) \<and> pending_unwind L' = None"
proof -
  have "\<exists>c \<in> set (scopes sample_session). scope_id c = 2 \<and> scope_open c"
    by (simp add: sample_session_eq)
  then obtain c where c: "c \<in> set (scopes sample_session)" "scope_open c" "scope_id c = 2" by blast
  show ?thesis
    using close_scope_returns_settled [OF sample_reachable [of accept_all "()"] _ c(1,2), of 0]
    by (simp add: c(3) sample_fields accept_all_def) blast
qed

end
