(* ===== verification/SessionSample.thy ===== *)
theory SessionSample
  imports BindingTable ResourceContracts
begin

text \<open>
  A sample that joins the resource ledger and the binding table: a session whose one resource is the
  one binding of a table, and the close of its scope.
\<close>

definition bound_session :: SessionResourceLedger where
  "bound_session = snd (Acquire 1 2 [sample_definition 1 Mandatory]
     (snd (OpenSyntheticScope 1 1 5 [] (snd (Initialize 1 7 3 5 (new_resource_ledger 1))))))"

lemma bound_session_reachable:
  "reachable_from (resource_step accept_all) (new_resource_ledger 1, ()) (bound_session, ())"
proof -
  have "(bound_session, ()) = fold (resource_step accept_all)
    [(1, 0, Op_Initialize 7 3 5), (1, 0, Op_OpenSyntheticScope 1 5 []),
     (1, 0, Op_Acquire 2 [sample_definition 1 Mandatory])] (new_resource_ledger 1, ())"
    by (simp add: bound_session_def)
  then show ?thesis using reachable_fold [of "resource_step accept_all"] by metis
qed

lemma bound_session_eq: "bound_session = \<lparr>owner_thread = 1, ledger_state = Accepting,
    disposition = Clean, session_id = 7, workset_epoch = 3, session_root = 1, next_scope_id = 3,
    next_resource_id = 2, next_sequence = 2, next_continuation_id = 1, scopes = scopes sample_session,
    resources = [\<lparr>res_session = 7, res_id = 1, res_sequence = 1, res_owner = 5, res_service = 11,
      res_scope = 2, res_release = \<lparr>rel_kind = HostResource, rel_external_id = 1\<rparr>,
      res_acquisition_epoch = 3, res_promotion = AnyAncestor, res_cleanup = Mandatory,
      res_status = Active, res_diagnostic_label = [], res_release_diagnostic = []\<rparr>],
    pending_unwind = None, bound_dispatcher = None, diagnostic = []\<rparr>"
  by (simp add: bound_session_def sample_session_eq new_resource_ledger_def Initialize_def
      OpenSyntheticScope_def ValidateAccepting_def ValidateScopeForAcquisition_def FindScope_def
      Acquire_def Let_def sample_definition_def)

lemma bound_session_close:
  "CloseScope 1 2 0 f bound_session d =
     PumpUnwind f (started (fresh_unwind [1] [2] ScopeExit Accepting False bound_session) 0 bound_session) d"
proof -
  have "can_start 0 bound_session" by (simp add: can_start_def bound_session_eq)
  moreover have "live_in_subtree 2 bound_session = [1]" "open_in_subtree 2 bound_session = [2]"
    "IsInScopeSubtree 2 2 bound_session"
    by (simp_all add: bound_session_eq sample_session_eq IsInScopeSubtree_def IsAncestor_def
        ParentOf_def FindScope_def live_in_subtree_def open_in_subtree_def)
  moreover have "sort_latest_first bound_session [1] = [1]"
    by (simp add: sort_latest_first_def)
  moreover have "\<exists>c. FindScope 2 bound_session = Some c \<and> scope_open c"
    by (simp add: bound_session_eq sample_session_eq FindScope_def)
  ultimately show ?thesis
    by (auto simp: CloseScope_def StartUnwind_started bound_session_eq)
qed

definition bound_table :: "nat SessionResourceBindingTable" where
  "bound_table = snd (Bind 1 sample_binding (new_binding_table 1))"

lemma bound_table_eq: "bound_table = \<lparr>table_owner = 1, next_external_id = 2,
    relationships = [\<lparr>external_id = 1, binding_definition = sample_binding\<rparr>]\<rparr>"
  by (simp add: bound_table_def Bind_def sample_binding_def new_binding_table_def)

lemmas bound_table_reachable = sample_table_reachable [folded bound_table_def]

lemma bound_table_contains: "Contains 1 bound_table"
  by (simp add: bound_table_eq Contains_def)

lemma bound_session_resource: "\<exists>r \<in> set (resources bound_session). IsLive (res_status r) \<and>
    rel_external_id (res_release r) = 1 \<and> IsInScopeSubtree (res_scope r) 2 bound_session"
  by (simp add: bound_session_eq IsInScopeSubtree_def)

lemma bound_session_closes:
  obtains res L' T' w' where
    "CloseScope 1 2 0 (TableRelease 1) bound_session (bound_table, 0) = (res, L', T', w')"
    "outcome res = Completed" "w' = 1"
proof -
  obtain res L' S' where run: "CloseScope 1 2 0 (TableRelease 1) bound_session (bound_table, 0) = (res, L', S')"
    by (rule prod_cases3)
  obtain T' w' where S': "S' = (T', w')" by fastforce
  have "outcome res = Completed \<and> w' = 1"
    using run unfolding bound_session_close
    by (auto simp: started_def fresh_unwind_def bound_session_eq pump_evaluation TableRelease_def
        bound_table_eq run_callback_def sample_binding_def S' sample_session_eq)
  with run S' that show thesis by blast
qed

end
