(* ===== verification/AddressPrograms.thy ===== *)
theory AddressPrograms
  imports SavorPrelude
begin

text \<open>
  Address programs: byte strings that compute a guest address. Two interpreters run them, the
  game-state reader's (\<open>addrprog::evaluate\<close> in SavorCore/Core/Memory/Soa/SoaAddrProgram.cpp, over the
  registry of SoaAddrRegistry.cpp and SoaAddr.def.h) and the probe runtime's
  (\<open>evaluate_address_program_fixed\<close> in SavorProbe/AddressProgramEvaluator.h); a builder
  (SoaAddrProgramBuilder.h) writes them and \<open>validate_address_program\<close>
  (SavorProbe/ProbeProfile.cpp) checks them before they are run.

  A cursor into the bytes is the list of the bytes it has still to read. Error texts are
  constructors of a datatype. Reading guest memory and registers is an argument: the machine the
  program runs on. The host that reads multi-byte operands by \<open>memcpy\<close> is little-endian.
\<close>

section \<open>The address registry\<close>

datatype Region = MEM1 | MEM2

record DolphinAddr =
  region :: Region
  base :: u32

text \<open>The rows of \<open>ADDR_TABLE_ALL\<close>; a row's key is its position, as the enumerators are numbered.\<close>

definition addr_table :: "u32 list" where
  "addr_table = [
     0x803469A8, 0x80311AC4, 0x80311AC8, 0x8030D6C0, 0x8030D6C4, 0x8030CEA0, 0x8030CEA4,
     0x80309DE4, 0x80309DCC, 0x803092f4, 0x80347390, 0x8034737c, 0x80347344, 0x8034733c,
     0x80347340, 0x80309174]"

definition kAll :: "(u16 \<times> DolphinAddr) list" where
  "kAll = map (\<lambda>(i, b). (of_nat i, \<lparr>region = MEM1, base = b\<rparr>)) (enumerate 0 addr_table)"

definition registry_find :: "u16 \<Rightarrow> (u16 \<times> DolphinAddr) option" where
  "registry_find k = List.find (\<lambda>r. fst r = k) kAll"

definition registry_spec :: "u16 \<Rightarrow> DolphinAddr" where
  "registry_spec k = (case registry_find k of Some r \<Rightarrow> snd r | None \<Rightarrow> snd (hd kAll))"

definition registry_base :: "u16 \<Rightarrow> u32" where
  "registry_base k = base (registry_spec k)"

definition registry_region :: "u16 \<Rightarrow> Region" where
  "registry_region k = region (registry_spec k)"

definition registry_exists :: "u16 \<Rightarrow> bool" where
  "registry_exists k \<longleftrightarrow> registry_find k \<noteq> None"

section \<open>Operations\<close>

abbreviation "op_END \<equiv> 0x00 :: u8"
abbreviation "op_BASE_KEY \<equiv> 0x01 :: u8"
abbreviation "op_LOAD_PTR32 \<equiv> 0x02 :: u8"
abbreviation "op_ADD_I32 \<equiv> 0x03 :: u8"
abbreviation "op_INDEX \<equiv> 0x04 :: u8"
abbreviation "op_FIELD_OFF \<equiv> 0x05 :: u8"
abbreviation "op_BASE_GPR \<equiv> 0x06 :: u8"
abbreviation "op_BASE_ABS \<equiv> 0x07 :: u8"
abbreviation "op_INDEX_GPR \<equiv> 0x08 :: u8"

definition le16 :: "u8 \<Rightarrow> u8 \<Rightarrow> u16" where
  "le16 a b = or (ucast a) (push_bit 8 (ucast b))"

definition le32 :: "u8 \<Rightarrow> u8 \<Rightarrow> u8 \<Rightarrow> u8 \<Rightarrow> u32" where
  "le32 a b c d = or (or (or (ucast a) (push_bit 8 (ucast b))) (push_bit 16 (ucast c)))
     (push_bit 24 (ucast d))"

fun read_u8 :: "u8 list \<Rightarrow> (u8 \<times> u8 list) option" where
  "read_u8 (a # p) = Some (a, p)"
| "read_u8 p = None"

fun read_u16 :: "u8 list \<Rightarrow> (u16 \<times> u8 list) option" where
  "read_u16 (a # b # p) = Some (le16 a b, p)"
| "read_u16 p = None"

fun read_u32 :: "u8 list \<Rightarrow> (u32 \<times> u8 list) option" where
  "read_u32 (a # b # c # d # p) = Some (le32 a b c d, p)"
| "read_u32 p = None"

definition read_i32 :: "u8 list \<Rightarrow> (u32 \<times> u8 list) option" where
  "read_i32 p = read_u32 p"

lemma read_shorter:
  "read_u8 p = Some (v, q) \<Longrightarrow> length q < length p"
  "read_u16 p = Some (w, q) \<Longrightarrow> length q < length p"
  "read_u32 p = Some (x, q) \<Longrightarrow> length q < length p"
  subgoal by (cases p rule: read_u8.cases) simp_all
  subgoal by (cases p rule: read_u16.cases) simp_all
  subgoal by (cases p rule: read_u32.cases) simp_all
  done

section \<open>The game-state interpreter\<close>

datatype EvalError =
    NullBlob
  | OffsetOutOfRange
  | EndedWithoutEnd
  | TruncatedBaseKey
  | LoadBeforeBase
  | UnsupportedRegion
  | LoadReadFailed
  | LoadResolvedNull
  | TruncatedAdd
  | TruncatedIndex
  | TruncatedField
  | TruncatedGpr
  | GprOutOfRange
  | NoRegisterReader
  | GprReadFailed
  | TruncatedAbs
  | UnknownOp

text \<open>A step's name is a function of its operation and is left out.\<close>

record EvalTraceStep =
  ts_op :: u8
  ts_before :: u32
  ts_after :: u32
  ts_value :: "u64 option"

record EvalResult =
  eval_va :: u32
  eval_ok :: bool
  eval_error :: "EvalError option"
  eval_trace :: "EvalTraceStep list"

record ExecResult =
  exec_va :: u32
  exec_ok :: bool

text \<open>The guest: memory reads at each width, and the register reader, when the caller has one.\<close>

record Guest =
  readU8 :: "u32 \<Rightarrow> u8 option"
  readU16 :: "u32 \<Rightarrow> u16 option"
  readU32 :: "u32 \<Rightarrow> u32 option"
  readU64 :: "u32 \<Rightarrow> u64 option"
  read_register :: "(u8 \<Rightarrow> u32 option) option"

definition append_step ::
  "bool \<Rightarrow> u8 \<Rightarrow> u32 \<Rightarrow> u32 \<Rightarrow> u64 option \<Rightarrow> EvalTraceStep list \<Rightarrow> EvalTraceStep list" where
  "append_step include_trace op before after v trace =
     (if include_trace then trace @ [\<lparr>ts_op = op, ts_before = before, ts_after = after, ts_value = v\<rparr>]
      else trace)"

definition eval_fail :: "EvalError \<Rightarrow> EvalTraceStep list \<Rightarrow> EvalResult" where
  "eval_fail e trace = \<lparr>eval_va = 0, eval_ok = False, eval_error = Some e, eval_trace = trace\<rparr>"

text \<open>The loop of \<open>evaluate\<close>; \<open>reg\<close> is the region, once there is one.\<close>

function eval_loop ::
  "Guest \<Rightarrow> bool \<Rightarrow> u8 list \<Rightarrow> u32 \<Rightarrow> Region option \<Rightarrow> EvalTraceStep list \<Rightarrow> EvalResult" where
  "eval_loop host tr [] va reg trace = eval_fail EndedWithoutEnd trace"
| "eval_loop host tr (op # p) va reg trace =
     (if op = op_END then
        \<lparr>eval_va = va, eval_ok = True, eval_error = None, eval_trace = append_step tr op va va None trace\<rparr>
      else if op = op_BASE_KEY then
        (case read_u16 p of
           None \<Rightarrow> eval_fail TruncatedBaseKey trace
         | Some (k, q) \<Rightarrow> eval_loop host tr q (registry_base k) (Some (registry_region k))
             (append_step tr op va (registry_base k) (Some (ucast k)) trace))
      else if op = op_LOAD_PTR32 then
        (case reg of
           None \<Rightarrow> eval_fail LoadBeforeBase trace
         | Some r \<Rightarrow>
             if r \<noteq> MEM1 \<and> r \<noteq> MEM2 then eval_fail UnsupportedRegion trace
             else case readU32 host va of
               None \<Rightarrow> eval_fail LoadReadFailed trace
             | Some tmp \<Rightarrow>
                 if tmp = 0 then eval_fail LoadResolvedNull trace
                 else eval_loop host tr p tmp reg (append_step tr op va tmp (Some (ucast tmp)) trace))
      else if op = op_ADD_I32 then
        (case read_i32 p of
           None \<Rightarrow> eval_fail TruncatedAdd trace
         | Some (imm, q) \<Rightarrow> eval_loop host tr q (va + imm) reg
             (append_step tr op va (va + imm) (Some (ucast imm)) trace))
      else if op = op_INDEX then
        (case read_u16 p of
           None \<Rightarrow> eval_fail TruncatedIndex trace
         | Some (n, q) \<Rightarrow>
             (case read_u16 q of
                None \<Rightarrow> eval_fail TruncatedIndex trace
              | Some (s, q') \<Rightarrow> eval_loop host tr q' (va + ucast n * ucast s) reg
                  (append_step tr op va (va + ucast n * ucast s)
                    (Some (ucast (ucast n * ucast s :: u32))) trace)))
      else if op = op_FIELD_OFF then
        (case read_u32 p of
           None \<Rightarrow> eval_fail TruncatedField trace
         | Some (off, q) \<Rightarrow> eval_loop host tr q (va + off) reg
             (append_step tr op va (va + off) (Some (ucast off)) trace))
      else if op = op_BASE_GPR then
        (case read_u8 p of
           None \<Rightarrow> eval_fail TruncatedGpr trace
         | Some (r, q) \<Rightarrow>
             if r > 31 then eval_fail GprOutOfRange trace
             else case read_register host of
               None \<Rightarrow> eval_fail NoRegisterReader trace
             | Some f \<Rightarrow>
                 (case f r of
                    None \<Rightarrow> eval_fail GprReadFailed trace
                  | Some v \<Rightarrow> eval_loop host tr q v (Some MEM1)
                      (append_step tr op va v (Some (ucast r)) trace)))
      else if op = op_BASE_ABS then
        (case read_u32 p of
           None \<Rightarrow> eval_fail TruncatedAbs trace
         | Some (v, q) \<Rightarrow> eval_loop host tr q v (Some MEM1) (append_step tr op va v None trace))
      else eval_fail UnknownOp trace)"
  by pat_completeness auto
termination
  by (relation "measure (\<lambda>(host, tr, p, va, reg, trace). length p)")
    (auto simp: read_i32_def dest!: read_shorter)

text \<open>\<open>blob = None\<close> is the null pointer.\<close>

definition evaluate :: "u8 list option \<Rightarrow> u32 \<Rightarrow> Guest \<Rightarrow> bool \<Rightarrow> EvalResult" where
  "evaluate blob offset host include_trace =
     (case blob of
        None \<Rightarrow> eval_fail NullBlob []
      | Some bytes \<Rightarrow>
          if unat offset \<ge> length bytes then eval_fail OffsetOutOfRange []
          else eval_loop host include_trace (drop (unat offset) bytes) 0 None [])"

definition exec :: "u8 list option \<Rightarrow> u32 \<Rightarrow> Guest \<Rightarrow> ExecResult" where
  "exec blob offset host =
     (let result = evaluate blob offset (host\<lparr>read_register := None\<rparr>) False
      in \<lparr>exec_va = eval_va result, exec_ok = eval_ok result\<rparr>)"

definition read_host_value :: "Guest \<Rightarrow> u32 \<Rightarrow> u8 \<Rightarrow> u64 option" where
  "read_host_value host va width =
     (if width = 1 then map_option ucast (readU8 host va)
      else if width = 2 then map_option ucast (readU16 host va)
      else if width = 4 then map_option ucast (readU32 host va)
      else if width = 8 then readU64 host va
      else None)"

definition read_value ::
  "u8 list option \<Rightarrow> u32 \<Rightarrow> Guest \<Rightarrow> u8 \<Rightarrow> bool \<Rightarrow> u64 option \<times> EvalResult" where
  "read_value blob offset host width include_trace =
     (let result = evaluate blob offset host include_trace in
      if \<not> eval_ok result then (None, result)
      else (read_host_value host (eval_va result) width, result))"

section \<open>The probe interpreter\<close>

datatype AddressProgramFailure =
    NoFailure
  | MissingTerminator
  | TrailingBytes
  | UnknownOperation
  | TruncatedOperand
  | InvalidRegister
  | MissingBaseResolver
  | BaseResolutionFailed
  | GuestReadFailed
  | OperationLimit

record RawAddressTraceStep =
  rs_index :: nat
  rs_operation :: u8
  rs_dereferenced_value :: "u64 option"
  rs_failure :: AddressProgramFailure
  rs_before :: u32
  rs_after :: u32

text \<open>
  \<open>operations\<close> is the used prefix of the array of 64 steps; \<open>count\<close> is its length.
\<close>

record RawAddressTrace =
  rt_success :: bool
  rt_failure_operation :: nat
  rt_failure :: AddressProgramFailure
  rt_final_address :: u32
  rt_operations :: "RawAddressTraceStep list"

definition empty_raw_trace :: RawAddressTrace where
  "empty_raw_trace = \<lparr>rt_success = False, rt_failure_operation = 0, rt_failure = NoFailure,
     rt_final_address = 0, rt_operations = []\<rparr>"

text \<open>
  What the probe interpreter reads: the registers, the base resolver when there is one, and
  \<open>U32\<close> reads of the guest, which deliver 64 bits.
\<close>

record ProbeHost =
  gprs :: "u32 list"
  resolve_base :: "(u16 \<Rightarrow> u32 option) option"
  read_guest :: "u32 \<Rightarrow> u64 option"

text \<open>
  The lambda \<open>fail\<close>: it marks the step it is given, and closes the trace, when there is one.
\<close>

definition probe_fail ::
  "AddressProgramFailure \<Rightarrow> RawAddressTraceStep option \<Rightarrow> u32 \<Rightarrow> RawAddressTrace option \<Rightarrow>
    u32 option \<times> RawAddressTrace option" where
  "probe_fail failure step address trace =
     (None, map_option (\<lambda>t. t\<lparr>rt_success := False, rt_failure := failure,
        rt_failure_operation := (case step of Some s \<Rightarrow> rs_index s | None \<Rightarrow> length (rt_operations t)),
        rt_final_address := address,
        rt_operations := rt_operations t @
          (case step of Some s \<Rightarrow> [s\<lparr>rs_failure := failure\<rparr>] | None \<Rightarrow> [])\<rparr>) trace)"

definition add_step ::
  "RawAddressTraceStep \<Rightarrow> RawAddressTrace option \<Rightarrow> RawAddressTrace option" where
  "add_step step trace = map_option (\<lambda>t. t\<lparr>rt_operations := rt_operations t @ [step]\<rparr>) trace"

text \<open>
  The operation of a step: the address it moves to, the value it dereferenced and the bytes left,
  or its failure.
\<close>

definition probe_operation ::
  "ProbeHost \<Rightarrow> u8 \<Rightarrow> u8 list \<Rightarrow> u32 \<Rightarrow>
    AddressProgramFailure + u32 \<times> u64 option \<times> u8 list" where
  "probe_operation host op p address =
     (if op = 0x01 then
        (case read_u16 p of
           None \<Rightarrow> Inl TruncatedOperand
         | Some (key, q) \<Rightarrow>
             (case resolve_base host of
                None \<Rightarrow> Inl MissingBaseResolver
              | Some resolve \<Rightarrow>
                  (case resolve key of
                     None \<Rightarrow> Inl BaseResolutionFailed
                   | Some b \<Rightarrow> Inr (b, None, q))))
      else if op = 0x02 then
        (case read_guest host address of
           None \<Rightarrow> Inl GuestReadFailed
         | Some v \<Rightarrow> Inr (ucast v, Some v, p))
      else if op = 0x03 then
        (case read_u32 p of
           None \<Rightarrow> Inl TruncatedOperand
         | Some (v, q) \<Rightarrow> Inr (word_of_int (uint address + sint v), None, q))
      else if op = 0x04 then
        (case read_u16 p of
           None \<Rightarrow> Inl TruncatedOperand
         | Some (n, q) \<Rightarrow>
             (case read_u16 q of
                None \<Rightarrow> Inl TruncatedOperand
              | Some (s, q') \<Rightarrow> Inr (address + ucast n * ucast s, None, q')))
      else if op = 0x05 then
        (case read_u32 p of
           None \<Rightarrow> Inl TruncatedOperand
         | Some (v, q) \<Rightarrow> Inr (address + v, None, q))
      else if op = 0x06 then
        (case p of
           [] \<Rightarrow> Inl TruncatedOperand
         | r # q \<Rightarrow>
             if unat r \<ge> length (gprs host) then Inl InvalidRegister
             else Inr (gprs host ! unat r, None, q))
      else if op = 0x07 then
        (case read_u32 p of
           None \<Rightarrow> Inl TruncatedOperand
         | Some (v, q) \<Rightarrow> Inr (v, None, q))
      else if op = 0x08 then
        (case p of
           [] \<Rightarrow> Inl TruncatedOperand
         | r # q \<Rightarrow>
             if unat r \<ge> length (gprs host) then Inl InvalidRegister
             else case read_u32 q of
               None \<Rightarrow> Inl TruncatedOperand
             | Some (stride, q') \<Rightarrow> Inr (address + gprs host ! unat r * stride, None, q'))
      else Inl UnknownOperation)"

lemma probe_operation_shorter:
  "probe_operation host op p address = Inr (a, v, q) \<Longrightarrow> length q \<le> length p"
  by (auto simp: probe_operation_def dest!: read_shorter split: if_splits option.splits list.splits)

function probe_loop ::
  "ProbeHost \<Rightarrow> u8 list \<Rightarrow> u32 \<Rightarrow> RawAddressTrace option \<Rightarrow> u32 option \<times> RawAddressTrace option" where
  "probe_loop host [] address trace = probe_fail MissingTerminator None address trace"
| "probe_loop host (op # p) address trace =
     (if (case trace of None \<Rightarrow> False | Some t \<Rightarrow> length (rt_operations t) \<ge> 64)
      then probe_fail OperationLimit None address trace
      else
        let step = \<lparr>rs_index = (case trace of None \<Rightarrow> 0 | Some t \<Rightarrow> length (rt_operations t)),
              rs_operation = op, rs_dereferenced_value = None, rs_failure = NoFailure,
              rs_before = address, rs_after = 0\<rparr>
        in if op = 0x00 then
             let done_step = step\<lparr>rs_after := address\<rparr> in
             if p \<noteq> [] then probe_fail TrailingBytes (Some done_step) address trace
             else (Some address, map_option (\<lambda>t. t\<lparr>rt_success := True, rt_failure := NoFailure,
                     rt_final_address := address\<rparr>) (add_step done_step trace))
           else case probe_operation host op p address of
             Inl failure \<Rightarrow> probe_fail failure (Some step) address trace
           | Inr (a, v, q) \<Rightarrow> probe_loop host q a
               (add_step (step\<lparr>rs_dereferenced_value := v, rs_after := a\<rparr>) trace))"
  by pat_completeness auto
termination
  by (relation "measure (\<lambda>(host, p, address, trace). length p)")
    (auto dest: probe_operation_shorter)

definition evaluate_address_program_fixed ::
  "u8 list \<Rightarrow> ProbeHost \<Rightarrow> bool \<Rightarrow> u32 option \<times> RawAddressTrace option" where
  "evaluate_address_program_fixed program host with_trace =
     probe_loop host program 0 (if with_trace then Some empty_raw_trace else None)"

section \<open>The validator\<close>

record AddressProgramValidation =
  valid :: bool
  operation_count :: nat
  failure_offset :: nat
  validation_failure :: AddressProgramFailure

text \<open>The operand bytes of an operation, \<open>None\<close> for the \<open>default\<close> case.\<close>

definition operand_bytes :: "u8 \<Rightarrow> nat option" where
  "operand_bytes operation =
     (if operation = 0x01 then Some 2 else if operation = 0x02 then Some 0
      else if operation = 0x03 then Some 4 else if operation = 0x04 then Some 4
      else if operation = 0x05 then Some 4 else if operation = 0x06 then Some 1
      else if operation = 0x07 then Some 4 else if operation = 0x08 then Some 5 else None)"

definition rejected :: "nat \<Rightarrow> nat \<Rightarrow> AddressProgramFailure \<Rightarrow> AddressProgramValidation" where
  "rejected n at f = \<lparr>valid = False, operation_count = n, failure_offset = at, validation_failure = f\<rparr>"

function validate_loop :: "u8 list \<Rightarrow> nat \<Rightarrow> nat \<Rightarrow> AddressProgramValidation" where
  "validate_loop program offset n =
     (if offset \<ge> length program then rejected n (length program) MissingTerminator
      else if n = 64 then rejected n offset OperationLimit
      else
        let operation = program ! offset in
        if operation = 0x00 then
          (if Suc offset \<noteq> length program then rejected (Suc n) (Suc offset) TrailingBytes
           else \<lparr>valid = True, operation_count = Suc n, failure_offset = 0,
             validation_failure = NoFailure\<rparr>)
        else case operand_bytes operation of
          None \<Rightarrow> rejected (Suc n) offset UnknownOperation
        | Some bytes \<Rightarrow>
            if length program - Suc offset < bytes then rejected (Suc n) offset TruncatedOperand
            else if (operation = 0x06 \<or> operation = 0x08) \<and> program ! Suc offset \<ge> 32
            then rejected (Suc n) offset InvalidRegister
            else validate_loop program (Suc offset + bytes) (Suc n))"
  by pat_completeness auto
termination
  by (relation "measure (\<lambda>(program, offset, n). length program - offset)") auto

definition validate_address_program :: "u8 list \<Rightarrow> AddressProgramValidation" where
  "validate_address_program program = validate_loop program 0 0"

declare eval_loop.simps(2) [simp del] probe_loop.simps(2) [simp del] validate_loop.simps [simp del]

section \<open>The builder\<close>

record Builder =
  blob :: "u8 list"
  last_prog_offset :: u32

definition new_builder :: Builder where
  "new_builder = \<lparr>blob = [], last_prog_offset = 0\<rparr>"

definition emit_byte :: "u8 \<Rightarrow> Builder \<Rightarrow> Builder" where
  "emit_byte b B = \<lparr>blob = blob B @ [b],
     last_prog_offset = (if blob B = [] then 0 else last_prog_offset B)\<rparr>"

definition emit_u16 :: "u16 \<Rightarrow> Builder \<Rightarrow> Builder" where
  "emit_u16 v B = B\<lparr>blob := blob B @ [ucast v, ucast (drop_bit 8 v)]\<rparr>"

definition emit_u32 :: "u32 \<Rightarrow> Builder \<Rightarrow> Builder" where
  "emit_u32 v B = B\<lparr>blob := blob B @
     [ucast v, ucast (drop_bit 8 v), ucast (drop_bit 16 v), ucast (drop_bit 24 v)]\<rparr>"

definition op_base_key :: "u16 \<Rightarrow> Builder \<Rightarrow> Builder" where
  "op_base_key k B = emit_u16 k (emit_byte op_BASE_KEY B)"

definition op_base_gpr :: "u8 \<Rightarrow> Builder \<Rightarrow> Builder" where
  "op_base_gpr r B = emit_byte r (emit_byte op_BASE_GPR B)"

definition op_base_abs :: "u32 \<Rightarrow> Builder \<Rightarrow> Builder" where
  "op_base_abs va B = emit_u32 va (emit_byte op_BASE_ABS B)"

definition op_add_i32 :: "u32 \<Rightarrow> Builder \<Rightarrow> Builder" where
  "op_add_i32 imm B = emit_u32 imm (emit_byte op_ADD_I32 B)"

definition op_index :: "u16 \<Rightarrow> u16 \<Rightarrow> Builder \<Rightarrow> Builder" where
  "op_index n s B = emit_u16 s (emit_u16 n (emit_byte op_INDEX B))"

definition op_field :: "u32 \<Rightarrow> Builder \<Rightarrow> Builder" where
  "op_field off B = emit_u32 off (emit_byte op_FIELD_OFF B)"

definition op_end :: "Builder \<Rightarrow> Builder" where
  "op_end B = emit_byte op_END B"

definition op_load_ptr32 :: "Builder \<Rightarrow> Builder" where
  "op_load_ptr32 B = emit_byte op_LOAD_PTR32 B"

text \<open>\<open>op_index_elems<Elem>\<close>, from the element's size.\<close>

definition op_index_elems :: "nat \<Rightarrow> u32 \<Rightarrow> Builder \<Rightarrow> Builder" where
  "op_index_elems size_of index B = op_index (ucast index) (of_nat size_of) B"

definition finalize_program :: "Builder \<Rightarrow> u32 \<times> Builder" where
  "finalize_program B = (last_prog_offset (emit_byte op_END B), emit_byte op_END B)"

definition current_offset :: "Builder \<Rightarrow> u32" where
  "current_offset B = of_nat (length (blob B))"

end
