(* ===== verification/AddressInterpreters.thy ===== *)
theory AddressInterpreters
  imports AddressPrograms
begin

text \<open>
  The lemmas of the two interpreters and the builder: the bytes of an instruction, what one
  instruction does in each interpreter, a whole program as a fold over its instructions, and the
  two simulations between the interpreters on a guest and a host that describe one machine.
\<close>

unbundle bit_operations_syntax

lemma le16_bytes: "le16 (ucast v) (ucast (drop_bit 8 v)) = v"
proof (rule bit_word_eqI)
  fix n assume "n < LENGTH(16)"
  then show "bit (le16 (ucast v) (ucast (drop_bit 8 v))) n = bit v n"
    by (cases "n < 8") (auto simp: le16_def bit_simps dest: bit_imp_le_length)
qed

lemma le32_bytes:
  "le32 (ucast v) (ucast (drop_bit 8 v)) (ucast (drop_bit 16 v)) (ucast (drop_bit 24 v)) = v"
proof (rule bit_word_eqI)
  fix n assume n: "n < LENGTH(32)"
  consider "n < 8" | "8 \<le> n" "n < 16" | "16 \<le> n" "n < 24" | "24 \<le> n" by linarith
  then show "bit (le32 (ucast v) (ucast (drop_bit 8 v)) (ucast (drop_bit 16 v))
      (ucast (drop_bit 24 v))) n = bit v n"
    using n by cases (auto simp: le32_def bit_simps dest: bit_imp_le_length)
qed

lemma read_u16_bytes: "read_u16 (ucast v # ucast (drop_bit 8 v) # p) = Some (v, p)"
  by (simp add: le16_bytes)

lemma read_u32_bytes: "read_u32 (ucast v # ucast (drop_bit 8 v) # ucast (drop_bit 16 v) #
    ucast (drop_bit 24 v) # p) = Some (v, p)"
  by (simp add: le32_bytes)

section \<open>Programs as lists of instructions\<close>

datatype instr =
    BaseKey u16
  | LoadPtr32
  | AddI32 u32
  | Index u16 u16
  | FieldOff u32
  | BaseGpr u8
  | BaseAbs u32

text \<open>The builder's call for an instruction, and the bytes it stands for.\<close>

fun emit_instr :: "instr \<Rightarrow> Builder \<Rightarrow> Builder" where
  "emit_instr (BaseKey k) B = op_base_key k B"
| "emit_instr LoadPtr32 B = op_load_ptr32 B"
| "emit_instr (AddI32 i) B = op_add_i32 i B"
| "emit_instr (Index n s) B = op_index n s B"
| "emit_instr (FieldOff off) B = op_field off B"
| "emit_instr (BaseGpr r) B = op_base_gpr r B"
| "emit_instr (BaseAbs va) B = op_base_abs va B"

definition bytes16 :: "u16 \<Rightarrow> u8 list" where
  "bytes16 v = [ucast v, ucast (drop_bit 8 v)]"

definition bytes32 :: "u32 \<Rightarrow> u8 list" where
  "bytes32 v = [ucast v, ucast (drop_bit 8 v), ucast (drop_bit 16 v), ucast (drop_bit 24 v)]"

fun encode :: "instr \<Rightarrow> u8 list" where
  "encode (BaseKey k) = op_BASE_KEY # bytes16 k"
| "encode LoadPtr32 = [op_LOAD_PTR32]"
| "encode (AddI32 i) = op_ADD_I32 # bytes32 i"
| "encode (Index n s) = op_INDEX # bytes16 n @ bytes16 s"
| "encode (FieldOff off) = op_FIELD_OFF # bytes32 off"
| "encode (BaseGpr r) = [op_BASE_GPR, r]"
| "encode (BaseAbs va) = op_BASE_ABS # bytes32 va"

definition build :: "instr list \<Rightarrow> Builder \<Rightarrow> Builder" where
  "build is B = op_end (fold emit_instr is B)"

lemma read_bytes [simp]:
  "read_u16 (bytes16 v @ p) = Some (v, p)" "read_u32 (bytes32 w @ p) = Some (w, p)"
  by (simp_all add: bytes16_def bytes32_def le16_bytes le32_bytes)

lemma emit_instr_blob: "blob (emit_instr i B) = blob B @ encode i"
  by (cases i) (simp_all add: op_base_key_def op_load_ptr32_def op_add_i32_def op_index_def op_field_def
      op_base_gpr_def op_base_abs_def emit_byte_def emit_u16_def emit_u32_def bytes16_def bytes32_def)

lemma fold_emit_blob: "blob (fold emit_instr is B) = blob B @ concat (map encode is)"
  by (induction "is" arbitrary: B) (simp_all add: emit_instr_blob)

lemma build_blob: "blob (build is B) = blob B @ concat (map encode is) @ [op_END]"
  by (simp add: build_def op_end_def emit_byte_def fold_emit_blob)

section \<open>What a program computes\<close>

text \<open>One instruction, on the address and the region a base has set.\<close>

fun run_instr :: "Guest \<Rightarrow> instr \<Rightarrow> u32 \<times> Region option \<Rightarrow> EvalError + u32 \<times> Region option" where
  "run_instr host (BaseKey k) (va, reg) = Inr (registry_base k, Some (registry_region k))"
| "run_instr host LoadPtr32 (va, reg) =
     (if reg = None then Inl LoadBeforeBase
      else case readU32 host va of
        None \<Rightarrow> Inl LoadReadFailed
      | Some p \<Rightarrow> if p = 0 then Inl LoadResolvedNull else Inr (p, reg))"
| "run_instr host (AddI32 i) (va, reg) = Inr (va + i, reg)"
| "run_instr host (Index n s) (va, reg) = Inr (va + ucast n * ucast s, reg)"
| "run_instr host (FieldOff off) (va, reg) = Inr (va + off, reg)"
| "run_instr host (BaseGpr r) (va, reg) =
     (if r > 31 then Inl GprOutOfRange
      else case read_register host of
        None \<Rightarrow> Inl NoRegisterReader
      | Some f \<Rightarrow> (case f r of None \<Rightarrow> Inl GprReadFailed | Some v \<Rightarrow> Inr (v, Some MEM1)))"
| "run_instr host (BaseAbs va') (va, reg) = Inr (va', Some MEM1)"

fun run_instrs :: "Guest \<Rightarrow> instr list \<Rightarrow> u32 \<times> Region option \<Rightarrow> EvalError + u32" where
  "run_instrs host [] (va, reg) = Inr va"
| "run_instrs host (i # is) (va, reg) =
     (case run_instr host i (va, reg) of Inl e \<Rightarrow> Inl e | Inr s \<Rightarrow> run_instrs host is s)"

lemma region_total: "\<not> (r \<noteq> MEM1 \<and> r \<noteq> MEM2)"
  by (cases r) simp_all

lemma eval_loop_instr:
  "\<exists>step. eval_loop host tr (encode i @ p) va reg trace =
    (case run_instr host i (va, reg) of
       Inl e \<Rightarrow> eval_fail e trace
     | Inr (va', reg') \<Rightarrow> eval_loop host tr p va' reg'
         (if tr then trace @ [\<lparr>ts_op = hd (encode i), ts_before = va, ts_after = va', ts_value = step\<rparr>]
          else trace))"
proof (cases i)
  case (BaseGpr r)
  then show ?thesis
    by (auto simp: eval_loop.simps(2) append_step_def split: option.split)
next
  case LoadPtr32
  then show ?thesis
    using region_total by (auto simp: eval_loop.simps(2) append_step_def split: option.split)
qed (auto simp: eval_loop.simps(2) append_step_def read_i32_def)


lemma eval_loop_program:
  "eval_loop host tr (concat (map encode is) @ op_END # post) va reg trace = res \<Longrightarrow>
    (case run_instrs host is (va, reg) of
       Inl e \<Rightarrow> \<not> eval_ok res \<and> eval_error res = Some e \<and> eval_va res = 0
     | Inr va' \<Rightarrow> eval_ok res \<and> eval_error res = None \<and> eval_va res = va' \<and>
         length (eval_trace res) = length trace + (if tr then Suc (length is) else 0))"
proof (induction "is" arbitrary: va reg trace)
  case Nil
  then show ?case by (auto simp: eval_loop.simps(2) append_step_def)
next
  case (Cons i is')
  let ?rest = "concat (map encode is') @ op_END # post"
  obtain step where step: "eval_loop host tr (encode i @ ?rest) va reg trace =
    (case run_instr host i (va, reg) of
       Inl e \<Rightarrow> eval_fail e trace
     | Inr (va', reg') \<Rightarrow> eval_loop host tr ?rest va' reg'
         (if tr then trace @ [\<lparr>ts_op = hd (encode i), ts_before = va, ts_after = va', ts_value = step\<rparr>]
          else trace))"
    using eval_loop_instr by blast
  show ?case
  proof (cases "run_instr host i (va, reg)")
    case (Inl e)
    with step have "eval_loop host tr (encode i @ ?rest) va reg trace = eval_fail e trace" by simp
    with Cons.prems have "res = eval_fail e trace" by simp
    with Inl show ?thesis by (simp add: eval_fail_def)
  next
    case (Inr s)
    obtain va' reg' where s: "s = (va', reg')" by (cases s)
    with Inr step Cons.prems Cons.IH [of va' reg'] show ?thesis by (auto split: sum.splits)
  qed
qed

section \<open>Decoding one instruction\<close>

lemma byte_pair: "bytes16 (le16 a b) = [a, b]"
proof -
  have "ucast (le16 a b) = a" "ucast (drop_bit 8 (le16 a b)) = b"
    by (rule bit_word_eqI, auto simp: le16_def bit_simps dest: bit_imp_le_length)+
  then show ?thesis by (simp add: bytes16_def)
qed

lemma byte_quad: "bytes32 (le32 a b c d) = [a, b, c, d]"
proof -
  have "ucast (le32 a b c d) = a" "ucast (drop_bit 8 (le32 a b c d)) = b"
    "ucast (drop_bit 16 (le32 a b c d)) = c" "ucast (drop_bit 24 (le32 a b c d)) = d"
    by (rule bit_word_eqI, auto simp: le32_def bit_simps dest: bit_imp_le_length)+
  then show ?thesis by (simp add: bytes32_def)
qed

lemma read_split:
  "read_u16 p = Some (v, q) \<Longrightarrow> p = bytes16 v @ q" "read_u32 p = Some (w, q) \<Longrightarrow> p = bytes32 w @ q"
  subgoal by (cases p rule: read_u16.cases) (auto simp: byte_pair)
  subgoal by (cases p rule: read_u32.cases) (auto simp: byte_quad)
  done

definition decode :: "u8 list \<Rightarrow> (instr \<times> u8 list) option" where
  "decode bs = (case bs of
     [] \<Rightarrow> None
   | op # p \<Rightarrow>
       if op = op_BASE_KEY then map_option (\<lambda>(k, q). (BaseKey k, q)) (read_u16 p)
       else if op = op_LOAD_PTR32 then Some (LoadPtr32, p)
       else if op = op_ADD_I32 then map_option (\<lambda>(i, q). (AddI32 i, q)) (read_u32 p)
       else if op = op_INDEX then
         (case read_u16 p of None \<Rightarrow> None
          | Some (n, q) \<Rightarrow> map_option (\<lambda>(s, q'). (Index n s, q')) (read_u16 q))
       else if op = op_FIELD_OFF then map_option (\<lambda>(off, q). (FieldOff off, q)) (read_u32 p)
       else if op = op_BASE_GPR then (case p of [] \<Rightarrow> None | r # q \<Rightarrow> Some (BaseGpr r, q))
       else if op = op_BASE_ABS then map_option (\<lambda>(v, q). (BaseAbs v, q)) (read_u32 p)
       else None)"

lemma decode_Some: "decode p = Some (i, q) \<Longrightarrow> p = encode i @ q"
  by (auto simp: decode_def dest!: read_split split: list.splits if_splits option.splits)

lemma encode_length: "0 < length (encode i)"
  by (cases i) simp_all

definition decode_errors :: "EvalError set" where
  "decode_errors = {UnknownOp, TruncatedBaseKey, TruncatedAdd, TruncatedIndex, TruncatedField,
     TruncatedGpr, TruncatedAbs}"

lemma decode_None:
  assumes "decode (op # p) = None" and "op \<noteq> op_END"
  shows "\<exists>e. eval_loop host tr (op # p) va reg trace = eval_fail e trace \<and> e \<in> decode_errors"
    and "op \<noteq> op_INDEX_GPR \<Longrightarrow> \<exists>f. probe_operation h op p va = Inl f \<and>
      f \<in> {UnknownOperation, TruncatedOperand}"
proof -
  consider "op = op_BASE_KEY" | "op = op_LOAD_PTR32" | "op = op_ADD_I32" | "op = op_INDEX"
    | "op = op_FIELD_OFF" | "op = op_BASE_GPR" | "op = op_BASE_ABS"
    | "op \<notin> {op_BASE_KEY, op_LOAD_PTR32, op_ADD_I32, op_INDEX, op_FIELD_OFF, op_BASE_GPR, op_BASE_ABS}"
    by blast
  then have "(\<exists>e. eval_loop host tr (op # p) va reg trace = eval_fail e trace \<and> e \<in> decode_errors)
    \<and> (op \<noteq> op_INDEX_GPR \<longrightarrow> (\<exists>f. probe_operation h op p va = Inl f \<and>
      f \<in> {UnknownOperation, TruncatedOperand}))"
  proof cases
    case 4
    with assms show ?thesis
      by (auto simp: decode_def eval_loop.simps(2) probe_operation_def decode_errors_def
          split: option.splits)
  next
    case 6
    with assms show ?thesis
      by (cases p) (auto simp: decode_def eval_loop.simps(2) probe_operation_def decode_errors_def)
  next
    case 8
    with assms(2) show ?thesis
      by (intro conjI exI [of _ UnknownOp])
        (simp_all add: eval_loop.simps(2) probe_operation_def decode_errors_def)
  qed (use assms in \<open>auto simp: decode_def eval_loop.simps(2) read_i32_def probe_operation_def decode_errors_def
      split: option.splits\<close>)
  then show "\<exists>e. eval_loop host tr (op # p) va reg trace = eval_fail e trace \<and> e \<in> decode_errors"
    and "op \<noteq> op_INDEX_GPR \<Longrightarrow> \<exists>f. probe_operation h op p va = Inl f \<and>
      f \<in> {UnknownOperation, TruncatedOperand}" by blast+
qed

lemma decode_INDEX_GPR: "decode (op_INDEX_GPR # p) = None"
  by (simp add: decode_def)

text \<open>What the probe interpreter makes of an instruction.\<close>

fun probe_instr :: "ProbeHost \<Rightarrow> instr \<Rightarrow> u32 \<Rightarrow> AddressProgramFailure + u32 \<times> u64 option" where
  "probe_instr h (BaseKey k) va =
     (case resolve_base h of None \<Rightarrow> Inl MissingBaseResolver
      | Some f \<Rightarrow> (case f k of None \<Rightarrow> Inl BaseResolutionFailed | Some b \<Rightarrow> Inr (b, None)))"
| "probe_instr h LoadPtr32 va =
     (case read_guest h va of None \<Rightarrow> Inl GuestReadFailed | Some v \<Rightarrow> Inr (ucast v, Some v))"
| "probe_instr h (AddI32 i) va = Inr (va + i, None)"
| "probe_instr h (Index n s) va = Inr (va + ucast n * ucast s, None)"
| "probe_instr h (FieldOff off) va = Inr (va + off, None)"
| "probe_instr h (BaseGpr r) va =
     (if unat r \<ge> length (gprs h) then Inl InvalidRegister else Inr (gprs h ! unat r, None))"
| "probe_instr h (BaseAbs va') va = Inr (va', None)"

lemma add_sint: "word_of_int (uint va + sint i) = va + (i :: u32)"
  by (simp add: wi_hom_syms)

lemma probe_operation_instr:
  "encode i = op # bs \<Longrightarrow> probe_operation h op (bs @ q) va =
    (case probe_instr h i va of Inl f \<Rightarrow> Inl f | Inr (a, v) \<Rightarrow> Inr (a, v, q))"
  by (cases i) (auto simp: probe_operation_def add_sint split: option.splits)

lemma encode_not_end: "encode i = op # bs \<Longrightarrow> op \<noteq> op_END"
  by (cases i) auto

lemma probe_loop_instr:
  "probe_loop h (encode i @ q) va None =
    (case probe_instr h i va of Inl f \<Rightarrow> (None, None) | Inr (a, v) \<Rightarrow> probe_loop h q a None)"
proof -
  obtain op bs where enc: "encode i = op # bs"
    using encode_length [of i] by (cases "encode i") auto
  with encode_not_end [OF enc] show ?thesis
    by (simp add: probe_loop.simps(2) probe_operation_instr probe_fail_def add_step_def
        split: sum.split)
qed

section \<open>The two interpreters side by side\<close>

text \<open>A guest and a host that describe the same machine.\<close>

definition agrees :: "Guest \<Rightarrow> ProbeHost \<Rightarrow> bool" where
  "agrees g h \<longleftrightarrow> length (gprs h) = 32 \<and>
     (\<exists>f. read_register g = Some f \<and> (\<forall>r. r \<le> 31 \<longrightarrow> f r = Some (gprs h ! unat r))) \<and>
     resolve_base h = Some (\<lambda>k. Some (registry_base k)) \<and>
     (\<forall>a. read_guest h a = map_option ucast (readU32 g a))"

lemma ucast_u32_u64: "ucast (ucast (v :: u32) :: u64) = v"
  by (rule bit_word_eqI) (auto simp: bit_simps dest: bit_imp_le_length)

lemma instr_agrees:
  assumes "agrees g h"
  shows "run_instr g i (va, reg) = Inr (a, reg') \<Longrightarrow> \<exists>v. probe_instr h i va = Inr (a, v)"
    and "probe_instr h i va = Inr (a, v) \<Longrightarrow>
      (\<exists>reg'. run_instr g i (va, reg) = Inr (a, reg')) \<or>
      run_instr g i (va, reg) \<in> {Inl LoadBeforeBase, Inl LoadResolvedNull}"
proof -
  obtain f where f: "read_register g = Some f" "\<And>r. r \<le> 31 \<Longrightarrow> f r = Some (gprs h ! unat r)"
    and h: "length (gprs h) = 32" "resolve_base h = Some (\<lambda>k. Some (registry_base k))"
      "\<And>a. read_guest h a = map_option ucast (readU32 g a)"
    using assms unfolding agrees_def by blast
  have reg: "r > 31 \<longleftrightarrow> unat r \<ge> 32" for r :: u8
    by (simp add: word_less_nat_alt) linarith
  have f': "f r = Some (gprs h ! unat r)" if "\<not> 32 \<le> unat r" for r
    using that f(2) [of r] reg [of r] by (simp add: not_less)
  show "\<exists>v. probe_instr h i va = Inr (a, v)" if "run_instr g i (va, reg) = Inr (a, reg')"
    using that f(1) f' h reg by (cases i) (auto split: if_splits option.splits simp: ucast_u32_u64)
  show "(\<exists>reg'. run_instr g i (va, reg) = Inr (a, reg')) \<or>
      run_instr g i (va, reg) \<in> {Inl LoadBeforeBase, Inl LoadResolvedNull}"
    if "probe_instr h i va = Inr (a, v)"
    using that f(1) f' h reg by (cases i) (auto split: if_splits option.splits simp: ucast_u32_u64)
qed

lemma evaluated_prefix_probed:
  assumes "agrees g h"
  shows "eval_ok (eval_loop g tr p va reg trace) \<Longrightarrow>
    \<exists>q r. p = q @ r \<and> probe_loop h q va None = (Some (eval_va (eval_loop g tr p va reg trace)), None)"
proof (induction p arbitrary: va reg trace rule: length_induct)
  case (1 p)
  show ?case
  proof (cases p)
    case Nil
    with "1.prems" show ?thesis by (simp add: eval_fail_def)
  next
    case (Cons op p')
    consider "op = op_END" | "op \<noteq> op_END" "decode p = None" | i q where "decode p = Some (i, q)"
      by fastforce
    then show ?thesis
    proof cases
      case 1
      with Cons show ?thesis
        by (intro exI [of _ "[op]"] exI [of _ p'])
          (simp add: eval_loop.simps(2) probe_loop.simps(2) add_step_def)
    next
      case 2
      with decode_None(1) [of op p' g tr va reg trace] Cons "1.prems" show ?thesis
        by (auto simp: eval_fail_def)
    next
      case (3 i q)
      then have p: "p = encode i @ q" by (rule decode_Some)
      obtain step where step: "eval_loop g tr p va reg trace =
        (case run_instr g i (va, reg) of
           Inl e \<Rightarrow> eval_fail e trace
         | Inr (va', reg') \<Rightarrow> eval_loop g tr q va' reg'
             (if tr then trace @ [\<lparr>ts_op = hd (encode i), ts_before = va, ts_after = va', ts_value = step\<rparr>]
              else trace))"
        unfolding p using eval_loop_instr by blast
      then obtain a reg' where run: "run_instr g i (va, reg) = Inr (a, reg')"
        using "1.prems" by (cases "run_instr g i (va, reg)") (auto simp: eval_fail_def)
      from instr_agrees(1) [OF assms run] obtain v where v: "probe_instr h i va = Inr (a, v)" ..
      have "length q < length p" using encode_length [of i] p by simp
      moreover obtain trace' where moved: "eval_loop g tr p va reg trace = eval_loop g tr q a reg' trace'"
        using step run by simp
      ultimately obtain q' r where
        "q = q' @ r" "probe_loop h q' a None = (Some (eval_va (eval_loop g tr p va reg trace)), None)"
        using "1.IH" "1.prems" unfolding moved by blast
      with p v show ?thesis
        by (intro exI [of _ "encode i @ q'"] exI [of _ r]) (simp add: probe_loop_instr)
    qed
  qed
qed

lemma probed_evaluated:
  assumes "agrees g h"
  shows "probe_loop h p va None = (Some va', t) \<Longrightarrow>
    (let res = eval_loop g tr p va reg trace in
     (eval_ok res \<and> eval_va res = va') \<or>
     (\<not> eval_ok res \<and> eval_error res \<in> Some ` {LoadBeforeBase, LoadResolvedNull, UnknownOp}))"
proof (induction p arbitrary: va reg trace rule: length_induct)
  case (1 p)
  show ?case
  proof (cases p)
    case Nil
    with "1.prems" show ?thesis by (simp add: probe_fail_def)
  next
    case (Cons op p')
    consider "op = op_END" | "op = op_INDEX_GPR" | "op \<noteq> op_END" "op \<noteq> op_INDEX_GPR" "decode p = None"
      | i q where "decode p = Some (i, q)"
      by fastforce
    then show ?thesis
    proof cases
      case 1
      with Cons "1.prems" show ?thesis
        by (auto simp: eval_loop.simps(2) probe_loop.simps(2) probe_fail_def Let_def split: if_splits)
    next
      case 2
      with Cons show ?thesis by (simp add: eval_loop.simps(2) eval_fail_def)
    next
      case 3
      with decode_None(2) [of op p' h va] Cons "1.prems" show ?thesis
        by (auto simp: probe_loop.simps(2) probe_fail_def)
    next
      case (4 i q)
      then have p: "p = encode i @ q" by (rule decode_Some)
      with "1.prems" obtain a v where v: "probe_instr h i va = Inr (a, v)"
        by (cases "probe_instr h i va") (auto simp: probe_loop_instr)
      with p "1.prems" have rest: "probe_loop h q a None = (Some va', t)" by (simp add: probe_loop_instr)
      have "length q < length p" using encode_length [of i] p by simp
      with "1.IH" rest have IH: "\<And>reg trace. let res = eval_loop g tr q a reg trace in
         (eval_ok res \<and> eval_va res = va') \<or>
         (\<not> eval_ok res \<and> eval_error res \<in> Some ` {LoadBeforeBase, LoadResolvedNull, UnknownOp})"
        by blast
      obtain step where step: "eval_loop g tr p va reg trace =
        (case run_instr g i (va, reg) of
           Inl e \<Rightarrow> eval_fail e trace
         | Inr (va', reg') \<Rightarrow> eval_loop g tr q va' reg'
             (if tr then trace @ [\<lparr>ts_op = hd (encode i), ts_before = va, ts_after = va', ts_value = step\<rparr>]
              else trace))"
        unfolding p using eval_loop_instr by blast
      from instr_agrees(2) [OF assms v, of reg] step IH show ?thesis
        by (auto simp: eval_fail_def)
    qed
  qed
qed

end
