(* ===== verification/AddressValidation.thy ===== *)
theory AddressValidation
  imports AddressPrograms
begin

text \<open>
  The lemmas of the probe interpreter's trace and of the validator: the shape of a trace under
  construction, and the validator's verdict as a prediction of the traced run.
\<close>

section \<open>The trace under construction\<close>

text \<open>Steps are numbered, and each starts at the address its predecessor moved to.\<close>

fun chain_from :: "nat \<Rightarrow> u32 \<Rightarrow> RawAddressTraceStep list \<Rightarrow> bool" where
  "chain_from i a [] \<longleftrightarrow> True"
| "chain_from i a (s # ss) \<longleftrightarrow> rs_index s = i \<and> rs_before s = a \<and> chain_from (Suc i) (rs_after s) ss"

definition chained :: "RawAddressTraceStep list \<Rightarrow> bool" where
  "chained ss \<longleftrightarrow> chain_from 0 0 ss"

definition last_after :: "RawAddressTraceStep list \<Rightarrow> u32" where
  "last_after ss = (if ss = [] then 0 else rs_after (last ss))"

lemma chained_Nil: "chained []"
  by (simp add: chained_def)

lemma chain_from_snoc: "chain_from i a (ss @ [s]) \<longleftrightarrow> chain_from i a ss \<and> rs_index s = i + length ss \<and>
    rs_before s = (if ss = [] then a else rs_after (last ss))"
  by (induction ss arbitrary: i a) auto

lemma chained_snoc [simp]:
  "chained (ss @ [s]) \<longleftrightarrow> chained ss \<and> rs_index s = length ss \<and> rs_before s = last_after ss"
  by (simp add: chained_def chain_from_snoc last_after_def)

lemma last_after_snoc [simp]: "last_after (ss @ [s]) = rs_after s"
  by (simp add: last_after_def)

definition unfailed :: "RawAddressTraceStep list \<Rightarrow> bool" where
  "unfailed ss \<longleftrightarrow> (\<forall>s \<in> set ss. rs_failure s = NoFailure)"

lemma unfailed_snoc [simp]: "unfailed (ss @ [s]) \<longleftrightarrow> unfailed ss \<and> rs_failure s = NoFailure"
  by (auto simp: unfailed_def)

text \<open>What a finished trace says of its run.\<close>

definition faithful_trace :: "u32 option \<Rightarrow> RawAddressTrace \<Rightarrow> bool" where
  "faithful_trace result t \<longleftrightarrow>
     chained (rt_operations t) \<and> length (rt_operations t) \<le> 64 \<and>
     (case result of
        Some va \<Rightarrow> rt_success t \<and> rt_failure t = NoFailure \<and> rt_final_address t = va \<and>
          unfailed (rt_operations t) \<and> rt_operations t \<noteq> [] \<and>
          rs_operation (last (rt_operations t)) = op_END \<and> last_after (rt_operations t) = va
      | None \<Rightarrow> \<not> rt_success t \<and> rt_failure t \<noteq> NoFailure \<and>
          (if rt_failure_operation t < length (rt_operations t)
           then rt_operations t = butlast (rt_operations t) @ [last (rt_operations t)] \<and>
             rt_failure_operation t = length (rt_operations t) - 1 \<and>
             unfailed (butlast (rt_operations t)) \<and>
             rs_failure (last (rt_operations t)) = rt_failure t \<and>
             rs_before (last (rt_operations t)) = rt_final_address t
           else rt_failure_operation t = length (rt_operations t) \<and> unfailed (rt_operations t) \<and>
             rt_failure t \<in> {MissingTerminator, OperationLimit} \<and>
             last_after (rt_operations t) = rt_final_address t))"

definition open_trace :: "RawAddressTrace \<Rightarrow> u32 \<Rightarrow> bool" where
  "open_trace t va \<longleftrightarrow> chained (rt_operations t) \<and> unfailed (rt_operations t) \<and>
     length (rt_operations t) \<le> 64 \<and> last_after (rt_operations t) = va \<and>
     rt_failure t = NoFailure \<and> rt_failure_operation t = 0 \<and> \<not> rt_success t"

lemma open_empty: "open_trace empty_raw_trace 0"
  by (simp add: open_trace_def empty_raw_trace_def chained_Nil unfailed_def last_after_def)

lemma open_add_step:
  assumes "open_trace t va" and "length (rt_operations t) < 64"
    and "rs_index s = length (rt_operations t)" and "rs_before s = va" and "rs_failure s = NoFailure"
  shows "open_trace (t\<lparr>rt_operations := rt_operations t @ [s]\<rparr>) (rs_after s)"
  using assms by (auto simp: open_trace_def unfailed_def)

lemma fail_at_step:
  assumes "open_trace t va" and "length (rt_operations t) < 64"
    and "rs_index s = length (rt_operations t)" and "rs_before s = va" and "f \<noteq> NoFailure"
    and "probe_fail f (Some s) va (Some t) = (r, Some t')"
  shows "r = None \<and> faithful_trace r t' \<and> rt_failure t' = f"
  using assms by (auto simp: probe_fail_def faithful_trace_def open_trace_def)

lemma fail_between_steps:
  assumes "open_trace t va" and "f \<in> {MissingTerminator, OperationLimit}"
    and "probe_fail f None va (Some t) = (r, Some t')"
  shows "r = None \<and> faithful_trace r t' \<and> rt_failure t' = f"
  using assms by (auto simp: probe_fail_def faithful_trace_def open_trace_def)

lemma probe_operation_failure:
  "probe_operation h op p va = Inl f \<Longrightarrow> f \<in> {TruncatedOperand, MissingBaseResolver,
    BaseResolutionFailed, GuestReadFailed, InvalidRegister, UnknownOperation}"
  by (auto simp: probe_operation_def split: if_splits option.splits list.splits)

text \<open>One round of the loop under a trace with room.\<close>

definition step_at :: "RawAddressTrace \<Rightarrow> u8 \<Rightarrow> u32 \<Rightarrow> RawAddressTraceStep" where
  "step_at t op va = \<lparr>rs_index = length (rt_operations t), rs_operation = op,
     rs_dereferenced_value = None, rs_failure = NoFailure, rs_before = va, rs_after = 0\<rparr>"

lemma step_at_simps [simp]:
  "rs_index (step_at t op va) = length (rt_operations t)" "rs_operation (step_at t op va) = op"
  "rs_failure (step_at t op va) = NoFailure" "rs_before (step_at t op va) = va"
  by (simp_all add: step_at_def)

lemma probe_loop_traced:
  assumes "length (rt_operations t) < 64"
  shows "probe_loop h (op # p) va (Some t) =
    (if op = 0x00 then
       if p \<noteq> [] then probe_fail TrailingBytes (Some ((step_at t op va)\<lparr>rs_after := va\<rparr>)) va (Some t)
       else (Some va, Some (t\<lparr>rt_operations := rt_operations t @ [(step_at t op va)\<lparr>rs_after := va\<rparr>],
         rt_success := True, rt_failure := NoFailure, rt_final_address := va\<rparr>))
     else case probe_operation h op p va of
       Inl failure \<Rightarrow> probe_fail failure (Some (step_at t op va)) va (Some t)
     | Inr (a, v, q) \<Rightarrow> probe_loop h q a (Some (t\<lparr>rt_operations := rt_operations t @
         [(step_at t op va)\<lparr>rs_dereferenced_value := v, rs_after := a\<rparr>]\<rparr>)))"
  using assms by (simp add: probe_loop.simps(2) step_at_def add_step_def Let_def split: sum.split)

lemma probe_loop_trace:
  "open_trace t va \<Longrightarrow> probe_loop h p va (Some t) = (r, t') \<Longrightarrow>
    \<exists>t''. t' = Some t'' \<and> faithful_trace r t''"
proof (induction p arbitrary: va t rule: length_induct)
  case (1 p)
  show ?case
  proof (cases p)
    case Nil
    with "1.prems" fail_between_steps [of t va MissingTerminator] show ?thesis
      by (auto simp: probe_fail_def)
  next
    case (Cons op p')
    show ?thesis
    proof (cases "length (rt_operations t) \<ge> 64")
      case True
      with Cons "1.prems" fail_between_steps [of t va OperationLimit] show ?thesis
        by (auto simp: probe_loop.simps(2) probe_fail_def)
    next
      case short: False
      let ?s = "step_at t op va"
      from short have "length (rt_operations t) < 64" by simp
      note unfold = probe_loop_traced [OF this, of h op p' va, folded Cons]
      consider "op = op_END" "p' \<noteq> []" | "op = op_END" "p' = []"
        | f where "op \<noteq> op_END" "probe_operation h op p' va = Inl f"
        | a v q where "op \<noteq> op_END" "probe_operation h op p' va = Inr (a, v, q)"
        by (metis prod_cases3 old.sum.exhaust)
      then show ?thesis
      proof cases
        case 1
        with unfold "1.prems" short fail_at_step [of t va "?s\<lparr>rs_after := va\<rparr>" TrailingBytes r]
        show ?thesis by (auto simp: probe_fail_def)
      next
        case 2
        then have r: "r = Some va" "t' = Some (t\<lparr>rt_operations := rt_operations t @ [?s\<lparr>rs_after := va\<rparr>],
               rt_success := True, rt_failure := NoFailure, rt_final_address := va\<rparr>)"
          using unfold "1.prems"(2) by auto
        have "open_trace (t\<lparr>rt_operations := rt_operations t @ [?s\<lparr>rs_after := va\<rparr>]\<rparr>) va"
          using open_add_step [of t va "?s\<lparr>rs_after := va\<rparr>"] "1.prems"(1) short by simp
        with r 2 show ?thesis by (simp add: faithful_trace_def open_trace_def)
      next
        case (3 f)
        with probe_operation_failure [OF 3(2)] unfold "1.prems" short
          fail_at_step [of t va ?s f r]
        show ?thesis by (auto simp: probe_fail_def)
      next
        case (4 a v q)
        let ?d = "?s\<lparr>rs_dereferenced_value := v, rs_after := a\<rparr>"
        have "open_trace (t\<lparr>rt_operations := rt_operations t @ [?d]\<rparr>) a"
          using open_add_step [of t va ?d] "1.prems"(1) short by simp
        moreover have "length q < length p"
          using probe_operation_shorter [OF 4(2)] Cons by simp
        moreover have "probe_loop h q a (Some (t\<lparr>rt_operations := rt_operations t @ [?d]\<rparr>)) = (r, t')"
          using 4 unfold "1.prems"(2) by simp
        ultimately show ?thesis using "1.IH" by blast
      qed
    qed
  qed
qed

lemma trace_does_not_matter:
  "probe_loop h p va (Some t) = (r, Some t') \<Longrightarrow> r \<noteq> None \<or> rt_failure t' \<noteq> OperationLimit \<Longrightarrow>
    probe_loop h p va None = (r, None)"
proof (induction p arbitrary: va t rule: length_induct)
  case (1 p)
  show ?case
  proof (cases p)
    case Nil
    with "1.prems" show ?thesis by (auto simp: probe_fail_def)
  next
    case (Cons op p')
    have short: "\<not> length (rt_operations t) \<ge> 64"
      using "1.prems" Cons by (auto simp: probe_loop.simps(2) probe_fail_def)
    show ?thesis
    proof (cases "probe_operation h op p' va")
      case (Inl f)
      with Cons "1.prems" short show ?thesis
        by (auto simp: probe_loop.simps(2) probe_fail_def add_step_def Let_def split: if_splits)
    next
      case (Inr x)
      then obtain a v q where x: "probe_operation h op p' va = Inr (a, v, q)" by (cases x) auto
      then have "length q < length p" using probe_operation_shorter [OF x] Cons by simp
      with Cons "1.prems" short x "1.IH" show ?thesis
        by (auto simp: probe_loop.simps(2) probe_fail_def add_step_def Let_def split: if_splits)
    qed
  qed
qed


section \<open>The verdict predicts the run\<close>

text \<open>Failures that the environment of a run causes, and not its program.\<close>

definition environment_failed :: "ProbeHost \<Rightarrow> AddressProgramFailure \<Rightarrow> bool" where
  "environment_failed h f \<longleftrightarrow>
     (f = MissingBaseResolver \<and> resolve_base h = None) \<or>
     (f = BaseResolutionFailed \<and> (\<exists>resolve k. resolve_base h = Some resolve \<and> resolve k = None)) \<or>
     (f = GuestReadFailed \<and> (\<exists>a. read_guest h a = None))"

lemma read_enough:
  "2 \<le> length p \<Longrightarrow> \<exists>v. read_u16 p = Some (v, drop 2 p)"
  "4 \<le> length p \<Longrightarrow> \<exists>w. read_u32 p = Some (w, drop 4 p)"
  subgoal by (cases p rule: read_u16.cases) auto
  subgoal by (cases p rule: read_u32.cases) auto
  done

lemma read_too_short:
  "length p < 2 \<Longrightarrow> read_u16 p = None" "length p < 4 \<Longrightarrow> read_u32 p = None"
  subgoal by (cases p rule: read_u16.cases) auto
  subgoal by (cases p rule: read_u32.cases) auto
  done

lemma register_in_range: "(\<not> unat r < 32) \<longleftrightarrow> 32 \<le> (r :: u8)"
  by (simp add: word_le_nat_alt not_less)

lemma operand_bytes_None:
  "operand_bytes op = None \<Longrightarrow> op \<noteq> 0 \<Longrightarrow> probe_operation h op p va = Inl UnknownOperation"
  by (simp add: operand_bytes_def probe_operation_def split: if_splits)

lemma operand_bytes_cases:
  assumes "operand_bytes op = Some k"
  obtains "op = 0x01" "k = 2" | "op = 0x02" "k = 0" | "op \<in> {0x03, 0x05, 0x07}" "k = 4"
    | "op = 0x04" "k = 4" | "op = 0x06" "k = 1" | "op = 0x08" "k = 5"
  using assms by (auto simp: operand_bytes_def split: if_splits)

lemma operand_truncated:
  assumes "operand_bytes op = Some k" and "length p < k"
  shows "\<exists>f. probe_operation h op p va = Inl f"
  using assms(1)
proof (cases rule: operand_bytes_cases)
  case 4
  with assms(2) show ?thesis
    by (cases p rule: read_u16.cases) (auto simp: probe_operation_def read_too_short)
next
  case 6
  with assms(2) show ?thesis by (cases p) (auto simp: probe_operation_def read_too_short)
qed (use assms(2) in \<open>auto simp: probe_operation_def read_too_short\<close>)

lemma register_refused:
  assumes "op = 0x06 \<or> op = 0x08" and "32 \<le> r" and "length (gprs h) = 32"
  shows "probe_operation h op (r # p) va = Inl InvalidRegister"
  using assms by (auto simp: probe_operation_def word_le_nat_alt)

lemma operation_runs:
  assumes "operand_bytes op = Some k" and "k \<le> length p" and "length (gprs h) = 32"
    and "op = 0x06 \<or> op = 0x08 \<Longrightarrow> hd p < 32"
  shows "(\<exists>f. probe_operation h op p va = Inl f \<and> environment_failed h f) \<or>
    (\<exists>a v. probe_operation h op p va = Inr (a, v, drop k p))"
  using assms(1)
proof (cases rule: operand_bytes_cases)
  case 1
  with assms(2) read_enough(1) [of p] show ?thesis
    by (auto simp: probe_operation_def environment_failed_def split: option.splits)
next
  case 2
  then show ?thesis by (auto simp: probe_operation_def environment_failed_def split: option.splits)
next
  case 3
  with assms(2) read_enough(2) [of p] show ?thesis by (auto simp: probe_operation_def)
next
  case 4
  with assms(2) read_enough(1) [of p] read_enough(1) [of "drop 2 p"] show ?thesis
    by (auto simp: probe_operation_def le_diff_conv2)
next
  case 5
  with assms(2-) show ?thesis by (cases p) (auto simp: probe_operation_def word_less_nat_alt)
next
  case 6
  with assms(2) obtain r q where p: "p = r # q" "4 \<le> length q" by (cases p) auto
  with 6 assms(3,4) read_enough(2) [of q] show ?thesis
    by (auto simp: probe_operation_def word_less_nat_alt)
qed

lemma validated_run:
  assumes "length (gprs h) = 32"
  shows "length (rt_operations t) = n \<Longrightarrow> n \<le> 64 \<Longrightarrow>
    probe_loop h (drop offset program) va (Some t) = (r, Some t') \<Longrightarrow>
    (if valid (validate_loop program offset n)
     then (r \<noteq> None \<and> length (rt_operations t') = operation_count (validate_loop program offset n)) \<or>
       (r = None \<and> environment_failed h (rt_failure t'))
     else r = None)"
proof (induction "length program - offset" arbitrary: offset n va t rule: less_induct)
  case less
  note V = validate_loop.simps [of program offset n]
  show ?case
  proof (cases "offset \<ge> length program \<or> n = 64")
    case True
    have "\<not> valid (validate_loop program offset n)"
      using True V by (auto simp: rejected_def)
    moreover have "r = None"
      using True less.prems
      by (cases "drop offset program") (auto simp: probe_loop.simps(2) probe_fail_def)
    ultimately show ?thesis by simp
  next
    case False
    then have offset: "offset < length program" and n: "n < 64" using less.prems(2) by auto
    define op p where "op = program ! offset" and "p = drop (Suc offset) program"
    have bytes: "drop offset program = op # p"
      using offset by (simp add: op_def p_def Cons_nth_drop_Suc)
    have run: "(if op = 0x00 then
         if p \<noteq> [] then probe_fail TrailingBytes (Some ((step_at t op va)\<lparr>rs_after := va\<rparr>)) va (Some t)
         else (Some va, Some (t\<lparr>rt_operations := rt_operations t @ [(step_at t op va)\<lparr>rs_after := va\<rparr>],
           rt_success := True, rt_failure := NoFailure, rt_final_address := va\<rparr>))
       else case probe_operation h op p va of
         Inl failure \<Rightarrow> probe_fail failure (Some (step_at t op va)) va (Some t)
       | Inr (a, v, q) \<Rightarrow> probe_loop h q a (Some (t\<lparr>rt_operations := rt_operations t @
           [(step_at t op va)\<lparr>rs_dereferenced_value := v, rs_after := a\<rparr>]\<rparr>))) = (r, Some t')"
      using less.prems n bytes by (simp only: probe_loop_traced simp_thms)
    consider "op = 0" | "op \<noteq> 0" "operand_bytes op = None"
      | k where "op \<noteq> 0" "operand_bytes op = Some k" "length p < k"
      | k where "op \<noteq> 0" "operand_bytes op = Some k" "k \<le> length p" "op = 0x06 \<or> op = 0x08" "32 \<le> hd p"
      | k where "op \<noteq> 0" "operand_bytes op = Some k" "k \<le> length p" "op = 0x06 \<or> op = 0x08 \<Longrightarrow> hd p < 32"
      by (metis not_le option.exhaust)
    then show ?thesis
    proof cases
      case 1
      then have "p = [] \<longleftrightarrow> Suc offset = length program"
        using offset by (auto simp: p_def)
      with 1 V offset n run less.prems(1) show ?thesis
        by (auto simp: probe_fail_def rejected_def op_def [symmetric] Let_def split: if_splits)
    next
      case 2
      with operand_bytes_None [of op h p va] V offset n run show ?thesis
        by (auto simp: probe_fail_def rejected_def op_def [symmetric])
    next
      case (3 k)
      then have "length program - Suc offset < k" by (simp add: p_def)
      with 3 operand_truncated [of op k p h va] V offset n run show ?thesis
        by (auto simp: probe_fail_def rejected_def op_def [symmetric])
    next
      case (4 k)
      then have "p \<noteq> []" by (auto simp: operand_bytes_def)
      then have hd: "program ! Suc offset = hd p" by (simp add: p_def hd_drop_conv_nth)
      with 4 V offset n have "\<not> valid (validate_loop program offset n)"
        by (auto simp: rejected_def op_def [symmetric] p_def)
      moreover have "probe_operation h op p va = Inl InvalidRegister"
        using register_refused [OF 4(4,5) assms, of "tl p"] \<open>p \<noteq> []\<close> by simp
      ultimately show ?thesis using 4(1) run by (simp add: probe_fail_def)
    next
      case (5 k)
      have "program ! Suc offset = hd p" if "op = 0x06 \<or> op = 0x08"
        using that 5 by (auto simp: p_def operand_bytes_def hd_drop_conv_nth)
      with 5 V offset n have V': "validate_loop program offset n = validate_loop program (Suc offset + k) (Suc n)"
        by (auto simp: op_def [symmetric] p_def not_less not_le)
      from operation_runs [OF 5(2,3) assms 5(4)]
      consider f where "probe_operation h op p va = Inl f" "environment_failed h f"
        | a v where "probe_operation h op p va = Inr (a, v, drop k p)" by blast
      then show ?thesis
      proof cases
        case (1 f)
        with 5(1) run show ?thesis by (auto simp: probe_fail_def)
      next
        case (2 a v)
        have "drop k p = drop (Suc offset + k) program" by (simp add: p_def add.commute)
        with 2 5(1) run have rest: "probe_loop h (drop (Suc offset + k) program) a
            (Some (t\<lparr>rt_operations := rt_operations t @ [(step_at t op va)\<lparr>rs_dereferenced_value := v, rs_after := a\<rparr>]\<rparr>))
          = (r, Some t')" by simp
        show ?thesis unfolding V'
          by (rule less.hyps [OF _ _ _ rest]) (use offset n less.prems(1) in simp_all)
      qed
    qed
  qed
qed

end
