(* ===== verification/AddressProgramContracts.thy ===== *)
theory AddressProgramContracts
  imports AddressInterpreters AddressValidation
begin

text \<open>
  What the address programs promise: the builder and the game-state interpreter are inverse, the
  two interpreters agree on a common machine, the validator predicts the probe interpreter's run,
  and a trace tells its run.
\<close>

section \<open>Building and evaluating\<close>

lemma evaluate_built:
  assumes "length (blob B) < 2 ^ 32"
  shows "evaluate (Some (blob (build is B) @ rest)) (current_offset B) host tr =
    eval_loop host tr (concat (map encode is) @ op_END # rest) 0 None []"
proof -
  have "unat (current_offset B) = length (blob B)"
    using assms by (simp add: current_offset_def unat_of_nat take_bit_nat_eq_self)
  then show ?thesis by (simp add: evaluate_def build_blob)
qed

text \<open>
  C13. A program that the builder writes with \<open>op_*\<close> calls and \<open>op_end\<close>, evaluated at the offset
  \<open>current_offset\<close> had before, behind any earlier programs and before any later bytes, computes
  what its instructions compute one after the other: it ends with their address, with a trace of
  one step per instruction and one for the end when a trace is asked for, or fails with the error
  of the first instruction that fails.
\<close>

theorem built_program_evaluates:
  assumes "length (blob B) < 2 ^ 32"
    and "evaluate (Some (blob (build is B) @ rest)) (current_offset B) host tr = res"
  shows "case run_instrs host is (0, None) of
       Inl e \<Rightarrow> \<not> eval_ok res \<and> eval_error res = Some e \<and> eval_va res = 0
     | Inr va \<Rightarrow> eval_ok res \<and> eval_error res = None \<and> eval_va res = va \<and>
         length (eval_trace res) = (if tr then Suc (length is) else 0)"
  using eval_loop_program [OF assms(2) [unfolded evaluate_built [OF assms(1)]]]
  by (simp split: sum.splits if_splits)

definition sample_guest :: Guest where
  "sample_guest = \<lparr>readU8 = \<lambda>_. None, readU16 = \<lambda>_. None,
     readU32 = \<lambda>a. if a = 0x80309DE4 then Some 0x81000000 else None, readU64 = \<lambda>_. None,
     read_register = Some (\<lambda>r. if r \<le> 31 then Some (ucast r * 4) else None)\<rparr>"

definition sample_program :: "instr list" where
  "sample_program = [BaseKey 7, LoadPtr32, Index 3 0x10, FieldOff 8, AddI32 (- 4)]"

lemma sample_registry: "registry_base 7 = 0x80309DE4" "registry_region 7 = MEM1"
  by (simp_all add: registry_base_def registry_region_def registry_spec_def registry_find_def kAll_def
      addr_table_def)

lemma sample_program_run:
  "run_instrs sample_guest sample_program (0, None) = Inr 0x81000034"
  by (simp add: sample_program_def sample_guest_def sample_registry)

theorem built_program_evaluates_witness:
  "let B = build [BaseAbs 0x80000000] new_builder;
       res = evaluate (Some (blob (build sample_program B) @ [0xFF])) (current_offset B) sample_guest True
   in eval_ok res \<and> eval_va res = 0x81000034 \<and> length (eval_trace res) = 6"
proof -
  let ?B = "build [BaseAbs 0x80000000] new_builder"
  have "length (blob ?B) < 2 ^ 32"
    by (simp add: build_blob new_builder_def bytes32_def)
  from built_program_evaluates [OF this refl, of sample_program "[0xFF]" sample_guest True]
  have "eval_ok (evaluate (Some (blob (build sample_program ?B) @ [0xFF])) (current_offset ?B) sample_guest True)
    \<and> eval_va (evaluate (Some (blob (build sample_program ?B) @ [0xFF])) (current_offset ?B) sample_guest True)
      = 0x81000034
    \<and> length (eval_trace (evaluate (Some (blob (build sample_program ?B) @ [0xFF])) (current_offset ?B)
      sample_guest True)) = Suc (length sample_program)"
    unfolding sample_program_run by simp
  then show ?thesis by (simp add: Let_def sample_program_def)
qed

text \<open>
  \<open>finalize_program\<close> returns 0 whatever was built before: for a second program it is the offset
  of the first one, and not, as its comment says, the offset at which the program starts.
\<close>

theorem finalized_offset_is_zero:
  "fst (finalize_program (fold emit_instr is (build js new_builder))) = 0"
proof -
  have emit: "last_prog_offset (emit_instr i B) = 0" if "last_prog_offset B = 0" for i B
    using that by (cases i) (simp_all add: op_base_key_def op_load_ptr32_def op_add_i32_def op_index_def
        op_field_def op_base_gpr_def op_base_abs_def emit_byte_def emit_u16_def emit_u32_def)
  have "last_prog_offset (fold emit_instr is B) = 0" if "last_prog_offset B = 0" for "is" B
    using that by (induction "is" arbitrary: B) (simp_all add: emit)
  then show ?thesis
    by (simp add: finalize_program_def build_def op_end_def emit_byte_def new_builder_def)
qed

section \<open>The two interpreters\<close>

lemma interpreters_simulate:
  assumes "agrees g h"
  shows "eval_ok (evaluate (Some p) 0 g tr) \<Longrightarrow>
      \<exists>q r. p = q @ r \<and> evaluate_address_program_fixed q h False = (Some (eval_va (evaluate (Some p) 0 g tr)), None)"
    and "evaluate_address_program_fixed p h False = (Some va, t) \<Longrightarrow>
      (eval_ok (evaluate (Some p) 0 g tr) \<and> eval_va (evaluate (Some p) 0 g tr) = va) \<or>
      (\<not> eval_ok (evaluate (Some p) 0 g tr) \<and>
       eval_error (evaluate (Some p) 0 g tr) \<in> Some ` {LoadBeforeBase, LoadResolvedNull, UnknownOp})"
proof -
  have nonempty: "evaluate (Some p) 0 g tr = eval_loop g tr p 0 None []" if "p \<noteq> []" for p
    using that by (simp add: evaluate_def)
  show "\<exists>q r. p = q @ r \<and>
      evaluate_address_program_fixed q h False = (Some (eval_va (evaluate (Some p) 0 g tr)), None)"
    if "eval_ok (evaluate (Some p) 0 g tr)"
  proof -
    from that have "p \<noteq> []" by (auto simp: evaluate_def eval_fail_def)
    with evaluated_prefix_probed [OF assms, of tr p 0 None "[]"] that show ?thesis
      by (simp add: nonempty evaluate_address_program_fixed_def)
  qed
  show "(eval_ok (evaluate (Some p) 0 g tr) \<and> eval_va (evaluate (Some p) 0 g tr) = va) \<or>
      (\<not> eval_ok (evaluate (Some p) 0 g tr) \<and>
       eval_error (evaluate (Some p) 0 g tr) \<in> Some ` {LoadBeforeBase, LoadResolvedNull, UnknownOp})"
    if "evaluate_address_program_fixed p h False = (Some va, t)"
  proof -
    from that have p: "p \<noteq> []"
      by (auto simp: evaluate_address_program_fixed_def probe_fail_def)
    from probed_evaluated [OF assms, of p 0 va t tr None "[]"] that show ?thesis
      by (simp add: nonempty [OF p] evaluate_address_program_fixed_def Let_def)
  qed
qed

text \<open>
  C14. The game-state interpreter and the probe interpreter agree on a guest and a host that
  describe the same machine (the registry as base resolver, the same registers and memory). If the
  first succeeds, the second computes the same address from the bytes up to the end of the program.
  If the second succeeds, the first computes the same address or refuses the program for one of
  three reasons the probe interpreter does not have: a load before a base, a load of the null
  pointer, an operation it does not know (\<open>INDEX_GPR\<close>).
\<close>

theorem interpreters_agree:
  assumes "agrees g h"
  shows "(let res = evaluate (Some p) 0 g tr in
      (eval_ok res \<longrightarrow>
         (\<exists>q r. p = q @ r \<and> evaluate_address_program_fixed q h False = (Some (eval_va res), None))) \<and>
      (\<forall>va t. evaluate_address_program_fixed p h False = (Some va, t) \<longrightarrow>
         (eval_ok res \<and> eval_va res = va) \<or>
         (\<not> eval_ok res \<and>
          eval_error res \<in> Some ` {LoadBeforeBase, LoadResolvedNull, UnknownOp})))"
  unfolding Let_def using interpreters_simulate [OF assms] by blast

definition sample_host :: ProbeHost where
  "sample_host = \<lparr>gprs = map (\<lambda>r. of_nat (4 * r)) [0..<32],
     resolve_base = Some (\<lambda>k. Some (registry_base k)),
     read_guest = \<lambda>a. map_option ucast (readU32 sample_guest a)\<rparr>"

lemma sample_agrees: "agrees sample_guest sample_host"
proof -
  have "ucast r * 4 = map (\<lambda>r. of_nat (4 * r) :: u32) [0..<32] ! unat r" if "r \<le> 31" for r :: u8
  proof -
    from that have "unat r < 32" by (simp add: word_le_nat_alt)
    then show ?thesis by (simp add: mult.commute)
  qed
  then show ?thesis by (simp add: agrees_def sample_guest_def sample_host_def)
qed

theorem interpreters_agree_witness:
  "(\<exists>q r. concat (map encode sample_program) @ [0x00, 0xFF] = q @ r \<and>
     evaluate_address_program_fixed q sample_host False = (Some 0x81000034, None)) \<and>
   evaluate_address_program_fixed [0x07, 4, 0, 0, 0, 0x00] sample_host False = (Some 4, None) \<and>
   eval_va (evaluate (Some [0x07, 4, 0, 0, 0, 0x00]) 0 sample_guest False) = 4"
proof (intro conjI)
  let ?p = "concat (map encode sample_program) @ [0x00, 0xFF]"
  have "evaluate (Some ?p) 0 sample_guest False = eval_loop sample_guest False ?p 0 None []"
    by (simp add: evaluate_def)
  with eval_loop_program [OF refl, of sample_guest False sample_program "[0xFF]" 0 None "[]"] sample_program_run
  have "eval_ok (evaluate (Some ?p) 0 sample_guest False)" "eval_va (evaluate (Some ?p) 0 sample_guest False) = 0x81000034"
    by simp_all
  with interpreters_agree [OF sample_agrees, of ?p False]
  show "\<exists>q r. ?p = q @ r \<and> evaluate_address_program_fixed q sample_host False = (Some 0x81000034, None)"
    by (simp add: Let_def)
  show probe: "evaluate_address_program_fixed [0x07, 4, 0, 0, 0, 0x00] sample_host False = (Some 4, None)"
    by (simp add: evaluate_address_program_fixed_def probe_loop.simps(2) probe_operation_def le32_def
        add_step_def)
  have "evaluate (Some [0x07, 4, 0, 0, 0, 0x00]) 0 sample_guest False =
      \<lparr>eval_va = 4, eval_ok = True, eval_error = None, eval_trace = []\<rparr>"
    by (simp add: evaluate_def eval_loop.simps(2) le32_def append_step_def)
  with interpreters_agree [OF sample_agrees, of "[0x07, 4, 0, 0, 0, 0x00]" False] probe
  show "eval_va (evaluate (Some [0x07, 4, 0, 0, 0, 0x00]) 0 sample_guest False) = 4" by simp
qed

section \<open>The validator\<close>

lemma traced_run:
  "evaluate_address_program_fixed program host True = (r, t) \<Longrightarrow>
    probe_loop host (drop 0 program) 0 (Some empty_raw_trace) = (r, t)"
  by (simp add: evaluate_address_program_fixed_def)

text \<open>
  C15. The validator predicts the traced run on 32 registers: a valid program ends, with as many
  steps as the validator counted, unless the environment refuses it (no base resolver, a base it
  does not know, a guest read that fails); an invalid program never produces an address.
\<close>

theorem validation_predicts_run:
  assumes "length (gprs host) = 32"
    and "evaluate_address_program_fixed program host True = (r, Some t)"
  shows "if valid (validate_address_program program)
     then (r \<noteq> None \<and> length (rt_operations t) = operation_count (validate_address_program program)) \<or>
       (r = None \<and> environment_failed host (rt_failure t))
     else r = None"
  using validated_run [OF assms(1) _ _ traced_run [OF assms(2)], of 0]
  by (simp add: validate_address_program_def empty_raw_trace_def split: if_splits)

theorem validation_predicts_run_witness:
  "let t = the (snd (evaluate_address_program_fixed [0x07, 4, 0, 0, 0, 0x00] sample_host True))
   in length (rt_operations t) = operation_count (validate_address_program [0x07, 4, 0, 0, 0, 0x00])
     \<and> fst (evaluate_address_program_fixed [0x06, 32, 0x00] sample_host True) = None"
proof -
  have host: "length (gprs sample_host) = 32" by (simp add: sample_host_def)
  have V: "valid (validate_address_program [0x07, 4, 0, 0, 0, 0x00])"
    "\<not> valid (validate_address_program [0x06, 32, 0x00])"
    by (simp_all add: validate_address_program_def validate_loop.simps operand_bytes_def rejected_def)
  obtain t where ok: "evaluate_address_program_fixed [0x07, 4, 0, 0, 0, 0x00] sample_host True = (Some 4, Some t)"
    by (simp add: evaluate_address_program_fixed_def probe_loop.simps(2) probe_operation_def le32_def
        add_step_def empty_raw_trace_def)
  obtain r t' where bad: "evaluate_address_program_fixed [0x06, 32, 0x00] sample_host True = (r, Some t')"
    by (simp add: evaluate_address_program_fixed_def probe_loop.simps(2) probe_operation_def
        probe_fail_def empty_raw_trace_def host)
  from validation_predicts_run [OF host ok] validation_predicts_run [OF host bad] V ok bad
  show ?thesis by simp
qed

text \<open>
  With a resolver that knows every base and a guest whose reads succeed, the validator decides
  whether the traced probe interpreter produces an address.
\<close>

theorem valid_iff_program_runs:
  assumes "length (gprs host) = 32" and "resolve_base host = Some resolve"
    and "\<And>k. resolve k \<noteq> None" and "\<And>a. read_guest host a \<noteq> None"
  shows "valid (validate_address_program program) \<longleftrightarrow>
    fst (evaluate_address_program_fixed program host True) \<noteq> None"
proof -
  obtain r t where run: "evaluate_address_program_fixed program host True = (r, t)" by fastforce
  from probe_loop_trace [OF open_empty traced_run [OF run, simplified]] obtain t' where t: "t = Some t'"
    by blast
  have "\<not> environment_failed host f" for f
    using assms(2-) by (auto simp: environment_failed_def)
  with validated_run [OF assms(1) _ _ traced_run [OF run [unfolded t]], of 0] run show ?thesis
    by (simp add: validate_address_program_def empty_raw_trace_def split: if_splits)
qed

theorem valid_iff_program_runs_witness:
  "valid (validate_address_program [0x07, 4, 0, 0, 0, 0x02, 0x00]) \<longleftrightarrow>
    fst (evaluate_address_program_fixed [0x07, 4, 0, 0, 0, 0x02, 0x00]
      (sample_host\<lparr>read_guest := \<lambda>a. Some (ucast a)\<rparr>) True) \<noteq> None"
  by (rule valid_iff_program_runs [of _ "\<lambda>k. Some (registry_base k)"]) (simp_all add: sample_host_def)

section \<open>The trace\<close>

text \<open>
  A traced run returns a trace of at most 64 steps, numbered in order, each starting at the
  address its predecessor moved to, the first at 0. If the run produced an address, the trace says
  success with that address and ends with the \<open>END\<close> step; otherwise it names the failure, the step
  it happened at and the address it happened at, and no other step is marked. Unless the trace's
  room ran out, the untraced run gives the same result.
\<close>

theorem trace_tells_the_run:
  assumes "evaluate_address_program_fixed program host True = (r, t)"
  shows "\<exists>t'. t = Some t' \<and> faithful_trace r t' \<and>
    (rt_failure t' \<noteq> OperationLimit \<longrightarrow> evaluate_address_program_fixed program host False = (r, None))"
proof -
  from probe_loop_trace [OF open_empty traced_run [OF assms, simplified]] obtain t' where
    t: "t = Some t'" "faithful_trace r t'" by blast
  with trace_does_not_matter [of host program 0 empty_raw_trace r t'] assms show ?thesis
    by (auto simp: evaluate_address_program_fixed_def)
qed

theorem trace_tells_the_run_witness:
  "\<exists>t. evaluate_address_program_fixed [0x02, 0x00] sample_host True = (None, Some t) \<and>
    rt_failure t = GuestReadFailed \<and>
    evaluate_address_program_fixed [0x02, 0x00] sample_host False = (None, None)"
proof -
  obtain t where t: "evaluate_address_program_fixed [0x02, 0x00] sample_host True = (None, Some t)"
      "rt_failure t = GuestReadFailed"
    by (simp add: evaluate_address_program_fixed_def probe_loop.simps(2) probe_operation_def
        probe_fail_def empty_raw_trace_def sample_host_def sample_guest_def)
  with trace_tells_the_run [OF t(1)] show ?thesis by simp
qed

end
