(* ===== verification/MemoryAccessDecoder.thy ===== *)
theory MemoryAccessDecoder
  imports SavorPrelude "HOL-Library.Sublist"
begin

text \<open>
  The decoder of the guest's memory accesses (SavorCore/Core/PowerPcMemoryAccessDecoder.h and .cpp):
  from an instruction word and the means to read registers and memory, the kind, address and size
  of the access, the value stored and the registers it used. Reasons for not supporting an
  instruction are constructors; the register and memory readers are arguments, \<open>None\<close> for an
  empty \<open>std::function\<close>.
\<close>

unbundle bit_operations_syntax

section \<open>Results\<close>

datatype MemoryAccessKind = Read | Write | Access

datatype UnsupportedReason =
    NotAMemoryAccess
  | FailedToRead u8
  | UnsupportedOpcode31Form
  | UnsupportedOpcode

record DecodedMemoryRegisterValue =
  reg :: u8
  role :: string
  reg_value :: u32

record DecodedMemoryAccess =
  pc :: u32
  opcode :: u32
  decoded :: bool
  is_memory_access :: bool
  supported :: bool
  mnemonic :: string
  unsupported_reason :: "UnsupportedReason option"
  access :: MemoryAccessKind
  effective_address :: u32
  access_size :: u32
  base_reg :: u8
  has_base_reg :: bool
  index_reg :: u8
  has_index_reg :: bool
  value_reg :: u8
  has_value_reg :: bool
  value_available :: bool
  access_value :: u64
  value_source :: string
  memory_value_available :: bool
  memory_value :: u64
  gpr_values :: "DecodedMemoryRegisterValue list"

type_synonym GprReadFn = "(u8 \<Rightarrow> u32 option) option"
type_synonym MemoryReadFn = "(u32 \<Rightarrow> u32 \<Rightarrow> u64 option) option"

definition new_access :: "u32 \<Rightarrow> u32 \<Rightarrow> DecodedMemoryAccess" where
  "new_access p op = \<lparr>pc = p, opcode = op, decoded = True, is_memory_access = False,
     supported = False, mnemonic = [], unsupported_reason = None, access = Access,
     effective_address = 0, access_size = 0, base_reg = 0, has_base_reg = False, index_reg = 0,
     has_index_reg = False, value_reg = 0, has_value_reg = False, value_available = False,
     access_value = 0, value_source = [], memory_value_available = False, memory_value = 0,
     gpr_values = []\<rparr>"

section \<open>Fields of an instruction\<close>

definition ppc_rt :: "u32 \<Rightarrow> u8" where
  "ppc_rt op = ucast (drop_bit 21 op AND 0x1F)"

definition ppc_ra :: "u32 \<Rightarrow> u8" where
  "ppc_ra op = ucast (drop_bit 16 op AND 0x1F)"

definition ppc_rb :: "u32 \<Rightarrow> u8" where
  "ppc_rb op = ucast (drop_bit 11 op AND 0x1F)"

definition ppc_xo :: "u32 \<Rightarrow> u32" where
  "ppc_xo op = drop_bit 1 op AND 0x3FF"

definition ppc_simm16 :: "u32 \<Rightarrow> u32" where
  "ppc_simm16 op = scast (ucast (op AND 0xFFFF) :: u16)"

definition mask_store_value :: "u32 \<Rightarrow> u32 \<Rightarrow> u64" where
  "mask_store_value v n =
     (if n = 1 then ucast (v AND 0xFF) else if n = 2 then ucast (v AND 0xFFFF) else ucast v)"

section \<open>Reading registers and memory\<close>

fun add_role :: "u8 \<Rightarrow> string \<Rightarrow> u32 \<Rightarrow> DecodedMemoryRegisterValue list \<Rightarrow> DecodedMemoryRegisterValue list" where
  "add_role r ro v [] = [\<lparr>reg = r, role = ro, reg_value = v\<rparr>]"
| "add_role r ro v (e # es) =
     (if reg e = r
      then (if sublist ro (role e) then e
            else e\<lparr>role := (if role e = [] then ro else role e @ ''+'' @ ro)\<rparr>) # es
      else e # add_role r ro v es)"

definition append_register_role :: "u8 \<Rightarrow> string \<Rightarrow> u32 \<Rightarrow> DecodedMemoryAccess \<Rightarrow> DecodedMemoryAccess" where
  "append_register_role r ro v d = d\<lparr>gpr_values := add_role r ro v (gpr_values d)\<rparr>"

definition read_gpr_for_decode ::
  "GprReadFn \<Rightarrow> u8 \<Rightarrow> string \<Rightarrow> DecodedMemoryAccess \<Rightarrow> u32 option \<times> DecodedMemoryAccess" where
  "read_gpr_for_decode read_gpr r ro d =
     (case (case read_gpr of None \<Rightarrow> None | Some f \<Rightarrow> f r) of
        None \<Rightarrow> (None, d\<lparr>unsupported_reason := Some (FailedToRead r)\<rparr>)
      | Some v \<Rightarrow> (Some v, append_register_role r ro v d))"

definition read_memory_value_for_decode :: "MemoryReadFn \<Rightarrow> DecodedMemoryAccess \<Rightarrow> DecodedMemoryAccess" where
  "read_memory_value_for_decode read_memory d =
     (case read_memory of
        None \<Rightarrow> d
      | Some f \<Rightarrow>
          if \<not> is_memory_access d \<or> access_size d = 0 \<or> access_size d > 8 then d
          else case f (effective_address d) (access_size d) of
            None \<Rightarrow> d
          | Some v \<Rightarrow>
              let d = d\<lparr>memory_value_available := True, memory_value := v\<rparr> in
              if access d = Read \<and> \<not> value_available d
              then d\<lparr>value_available := True, access_value := v, value_source := ''memory''\<rparr>
              else d)"

section \<open>The instruction tables\<close>

record AccessInfo =
  info_mnemonic :: string
  info_access :: MemoryAccessKind
  info_size :: u32
  integer_store :: bool
  multiple_store :: bool

abbreviation load :: "string \<Rightarrow> u32 \<Rightarrow> AccessInfo option" where
  "load m n \<equiv> Some \<lparr>info_mnemonic = m, info_access = Read, info_size = n, integer_store = False,
     multiple_store = False\<rparr>"

abbreviation store :: "string \<Rightarrow> u32 \<Rightarrow> AccessInfo option" where
  "store m n \<equiv> Some \<lparr>info_mnemonic = m, info_access = Write, info_size = n, integer_store = False,
     multiple_store = False\<rparr>"

abbreviation store_gpr :: "string \<Rightarrow> u32 \<Rightarrow> AccessInfo option" where
  "store_gpr m n \<equiv> Some \<lparr>info_mnemonic = m, info_access = Write, info_size = n, integer_store = True,
     multiple_store = False\<rparr>"

definition d_form_access_info :: "u32 \<Rightarrow> AccessInfo option" where
  "d_form_access_info primary =
     (if primary = 32 then load ''lwz'' 4
      else if primary = 33 then load ''lwzu'' 4
      else if primary = 34 then load ''lbz'' 1
      else if primary = 35 then load ''lbzu'' 1
      else if primary = 36 then store_gpr ''stw'' 4
      else if primary = 37 then store_gpr ''stwu'' 4
      else if primary = 38 then store_gpr ''stb'' 1
      else if primary = 39 then store_gpr ''stbu'' 1
      else if primary = 40 then load ''lhz'' 2
      else if primary = 41 then load ''lhzu'' 2
      else if primary = 42 then load ''lha'' 2
      else if primary = 43 then load ''lhau'' 2
      else if primary = 44 then store_gpr ''sth'' 2
      else if primary = 45 then store_gpr ''sthu'' 2
      else if primary = 46 then load ''lmw'' 4
      else if primary = 47 then Some \<lparr>info_mnemonic = ''stmw'', info_access = Write, info_size = 4,
        integer_store = False, multiple_store = True\<rparr>
      else if primary = 48 then load ''lfs'' 4
      else if primary = 49 then load ''lfsu'' 4
      else if primary = 50 then load ''lfd'' 8
      else if primary = 51 then load ''lfdu'' 8
      else if primary = 52 then store ''stfs'' 4
      else if primary = 53 then store ''stfsu'' 4
      else if primary = 54 then store ''stfd'' 8
      else if primary = 55 then store ''stfdu'' 8
      else None)"

definition x_form_access_info :: "u32 \<Rightarrow> AccessInfo option" where
  "x_form_access_info xo =
     (if xo = 23 then load ''lwzx'' 4
      else if xo = 55 then load ''lwzux'' 4
      else if xo = 87 then load ''lbzx'' 1
      else if xo = 119 then load ''lbzux'' 1
      else if xo = 151 then store_gpr ''stwx'' 4
      else if xo = 183 then store_gpr ''stwux'' 4
      else if xo = 215 then store_gpr ''stbx'' 1
      else if xo = 247 then store_gpr ''stbux'' 1
      else if xo = 279 then load ''lhzx'' 2
      else if xo = 311 then load ''lhzux'' 2
      else if xo = 343 then load ''lhax'' 2
      else if xo = 375 then load ''lhaux'' 2
      else if xo = 407 then store_gpr ''sthx'' 2
      else if xo = 439 then store_gpr ''sthux'' 2
      else if xo = 535 then load ''lfsx'' 4
      else if xo = 567 then load ''lfsux'' 4
      else if xo = 599 then load ''lfdx'' 8
      else if xo = 631 then load ''lfdux'' 8
      else if xo = 663 then store ''stfsx'' 4
      else if xo = 695 then store ''stfsux'' 4
      else if xo = 727 then store ''stfdx'' 8
      else if xo = 759 then store ''stfdux'' 8
      else None)"

section \<open>Decoding\<close>

text \<open>The end of both forms: the value stored from a register, the value in memory, the support.\<close>

definition finish_access ::
  "GprReadFn \<Rightarrow> MemoryReadFn \<Rightarrow> u8 \<Rightarrow> AccessInfo \<Rightarrow> DecodedMemoryAccess \<Rightarrow> DecodedMemoryAccess" where
  "finish_access read_gpr read_memory rt info d =
     (if integer_store info then
        (case read_gpr_for_decode read_gpr rt ''source'' d of
           (None, d) \<Rightarrow> d
         | (Some v, d) \<Rightarrow>
             let d = d\<lparr>value_reg := rt, has_value_reg := True, value_available := True,
                   access_value := mask_store_value v (info_size info), value_source := ''source_gpr''\<rparr>
             in (read_memory_value_for_decode read_memory d)\<lparr>supported := True\<rparr>)
      else (read_memory_value_for_decode read_memory d)\<lparr>supported := True\<rparr>)"

text \<open>The base of an address: register 0 stands for the number 0.\<close>

definition read_base ::
  "GprReadFn \<Rightarrow> u8 \<Rightarrow> DecodedMemoryAccess \<Rightarrow> u32 option \<times> DecodedMemoryAccess" where
  "read_base read_gpr ra d =
     (if ra \<noteq> 0 then read_gpr_for_decode read_gpr ra ''base'' d else (Some 0, d))"

definition decode_d_form ::
  "u32 \<Rightarrow> GprReadFn \<Rightarrow> MemoryReadFn \<Rightarrow> AccessInfo \<Rightarrow> DecodedMemoryAccess \<Rightarrow> DecodedMemoryAccess" where
  "decode_d_form op read_gpr read_memory info d =
     (let rt = ppc_rt op; ra = ppc_ra op;
          d = d\<lparr>mnemonic := info_mnemonic info, is_memory_access := True, access := info_access info,
                access_size := (if multiple_store info then (32 - ucast rt) * 4 else info_size info),
                base_reg := ra, has_base_reg := ra \<noteq> 0\<rparr>
      in case read_base read_gpr ra d of
           (None, d) \<Rightarrow> d
         | (Some base, d) \<Rightarrow> finish_access read_gpr read_memory rt info
             (d\<lparr>effective_address := ucast (ucast base + scast (ppc_simm16 op) :: u64)\<rparr>))"

definition decode_x_form ::
  "u32 \<Rightarrow> GprReadFn \<Rightarrow> MemoryReadFn \<Rightarrow> AccessInfo \<Rightarrow> DecodedMemoryAccess \<Rightarrow> DecodedMemoryAccess" where
  "decode_x_form op read_gpr read_memory info d =
     (let rt = ppc_rt op; ra = ppc_ra op; rb = ppc_rb op;
          d = d\<lparr>mnemonic := info_mnemonic info, is_memory_access := True, access := info_access info,
                access_size := info_size info, base_reg := ra, has_base_reg := ra \<noteq> 0,
                index_reg := rb, has_index_reg := True\<rparr>
      in case read_base read_gpr ra d of
           (None, d) \<Rightarrow> d
         | (Some base, d) \<Rightarrow>
             (case read_gpr_for_decode read_gpr rb ''index'' d of
                (None, d) \<Rightarrow> d
              | (Some index, d) \<Rightarrow> finish_access read_gpr read_memory rt info
                  (d\<lparr>effective_address := ucast (ucast base + ucast index :: u64)\<rparr>)))"

definition DecodeCurrentMemoryAccess ::
  "u32 \<Rightarrow> u32 \<Rightarrow> GprReadFn \<Rightarrow> MemoryReadFn \<Rightarrow> DecodedMemoryAccess" where
  "DecodeCurrentMemoryAccess p op read_gpr read_memory =
     (let d = new_access p op; primary = drop_bit 26 op in
      if primary = 18 then
        d\<lparr>mnemonic := (if op AND 1 \<noteq> 0 then ''bl'' else ''b''),
          unsupported_reason := Some NotAMemoryAccess\<rparr>
      else if primary = 16 then
        d\<lparr>mnemonic := ''bc'', unsupported_reason := Some NotAMemoryAccess\<rparr>
      else if primary = 19 then
        d\<lparr>mnemonic := ''branch'', unsupported_reason := Some NotAMemoryAccess\<rparr>
      else case d_form_access_info primary of
        Some info \<Rightarrow> decode_d_form op read_gpr read_memory info d
      | None \<Rightarrow>
          if primary = 31 then
            (case x_form_access_info (ppc_xo op) of
               None \<Rightarrow> d\<lparr>mnemonic := ''opcode31'', unsupported_reason := Some UnsupportedOpcode31Form\<rparr>
             | Some info \<Rightarrow> decode_x_form op read_gpr read_memory info d)
          else d\<lparr>mnemonic := ''unknown'', unsupported_reason := Some UnsupportedOpcode\<rparr>)"


lemmas access_defs = DecodeCurrentMemoryAccess_def decode_d_form_def decode_x_form_def read_base_def
  finish_access_def read_gpr_for_decode_def append_register_role_def new_access_def

section \<open>Instruction words\<close>

text \<open>The words of the two forms, from their fields.\<close>

definition encode_d :: "u32 \<Rightarrow> u8 \<Rightarrow> u8 \<Rightarrow> u16 \<Rightarrow> u32" where
  "encode_d primary rt ra imm =
     push_bit 26 primary OR push_bit 21 (ucast rt) OR push_bit 16 (ucast ra) OR ucast imm"

definition encode_x :: "u8 \<Rightarrow> u8 \<Rightarrow> u8 \<Rightarrow> u32 \<Rightarrow> u32" where
  "encode_x rt ra rb xo =
     push_bit 26 31 OR push_bit 21 (ucast rt) OR push_bit 16 (ucast ra) OR push_bit 11 (ucast rb) OR
     push_bit 1 xo"

lemma small_bits:
  assumes "unat (w :: 'a::len word) < 2 ^ k" and "bit w n"
  shows "n < k"
proof -
  have "take_bit k (unat w) = unat w" using assms(1) by (rule take_bit_nat_eq_self)
  moreover have "bit (unat w) n" using assms(2) by (simp add: bit_unsigned_iff)
  ultimately show ?thesis by (metis bit_take_bit_iff)
qed

lemma field_bits:
  "ppc_rt op = ucast (take_bit 5 (drop_bit 21 op))"
  "ppc_ra op = ucast (take_bit 5 (drop_bit 16 op))"
  "ppc_rb op = ucast (take_bit 5 (drop_bit 11 op))"
  "ppc_xo op = take_bit 10 (drop_bit 1 op)"
  "ppc_simm16 op = scast (ucast (take_bit 16 op) :: u16)"
proof -
  have "(0x1F :: u32) = mask 5" "(0x3FF :: u32) = mask 10" "(0xFFFF :: u32) = mask 16"
    by (simp_all add: mask_eq_exp_minus_1)
  then show
    "ppc_rt op = ucast (take_bit 5 (drop_bit 21 op))"
    "ppc_ra op = ucast (take_bit 5 (drop_bit 16 op))"
    "ppc_rb op = ucast (take_bit 5 (drop_bit 11 op))"
    "ppc_xo op = take_bit 10 (drop_bit 1 op)"
    "ppc_simm16 op = scast (ucast (take_bit 16 op) :: u16)"
    by (simp_all only: ppc_rt_def ppc_ra_def ppc_rb_def ppc_xo_def ppc_simm16_def take_bit_eq_mask)
qed

lemma encode_d_fields:
  assumes "primary < 64" and "rt < 32" and "ra < 32"
  shows "drop_bit 26 (encode_d primary rt ra imm) = primary"
    and "ppc_rt (encode_d primary rt ra imm) = rt"
    and "ppc_ra (encode_d primary rt ra imm) = ra"
    and "ppc_simm16 (encode_d primary rt ra imm) = scast imm"
proof -
  have bits: "\<And>n. bit primary n \<Longrightarrow> n < 6" "\<And>n. bit rt n \<Longrightarrow> n < 5" "\<And>n. bit ra n \<Longrightarrow> n < 5"
    "\<And>n. bit imm n \<Longrightarrow> n < 16"
    using assms small_bits [of primary 6] small_bits [of rt 5] small_bits [of ra 5]
      bit_imp_le_length [of imm] by (auto simp: word_less_nat_alt)
  show "drop_bit 26 (encode_d primary rt ra imm) = primary"
    by (rule bit_word_eqI) (auto simp: encode_d_def bit_simps dest: bits)
  show "ppc_rt (encode_d primary rt ra imm) = rt" "ppc_ra (encode_d primary rt ra imm) = ra"
    by (rule bit_word_eqI, auto simp: field_bits encode_d_def bit_simps dest: bits)+
  have "ucast (take_bit 16 (encode_d primary rt ra imm)) = imm"
    by (rule bit_word_eqI) (auto simp: encode_d_def bit_simps dest: bits)
  then show "ppc_simm16 (encode_d primary rt ra imm) = scast imm" by (simp add: field_bits)
qed

lemma bit_encode_x:
  "bit (encode_x rt ra rb xo) n \<longleftrightarrow> n < 32 \<and> ((26 \<le> n \<and> n < 31) \<or> (21 \<le> n \<and> bit rt (n - 21)) \<or>
     (16 \<le> n \<and> bit ra (n - 16)) \<or> (11 \<le> n \<and> bit rb (n - 11)) \<or> (1 \<le> n \<and> bit xo (n - 1)))"
proof -
  have thirty_one: "(31 :: u32) = mask 5" by (simp add: mask_eq_exp_minus_1)
  show ?thesis
    unfolding encode_x_def thirty_one bit_or_iff bit_push_bit_iff bit_mask_iff bit_unsigned_iff
    by (auto simp: bit_imp_le_length)
qed

lemma x_bits:
  fixes rt ra rb :: u8 and xo :: u32
  assumes "rt < 32" and "ra < 32" and "rb < 32" and "xo < 1024"
  shows "bit xo n \<Longrightarrow> n < 10" and "bit rt n \<Longrightarrow> n < 5" and "bit ra n \<Longrightarrow> n < 5"
    and "bit rb n \<Longrightarrow> n < 5"
  using assms small_bits [of xo 10] small_bits [of rt 5] small_bits [of ra 5] small_bits [of rb 5]
  by (auto simp: word_less_nat_alt)

lemma encode_x_primary:
  fixes rt ra rb :: u8 and xo :: u32
  assumes "rt < 32" and "ra < 32" and "rb < 32" and "xo < 1024"
  shows "drop_bit 26 (encode_x rt ra rb xo) = 31"
proof -
  have thirty_one: "(31 :: u32) = mask 5" by (simp add: mask_eq_exp_minus_1)
  show ?thesis unfolding thirty_one
    by (rule bit_word_eqI)
      (auto simp: bit_drop_bit_eq bit_encode_x bit_mask_iff dest: x_bits [OF assms])
qed

lemma encode_x_registers:
  fixes rt ra rb :: u8 and xo :: u32
  assumes "rt < 32" and "ra < 32" and "rb < 32" and "xo < 1024"
  shows "ppc_rt (encode_x rt ra rb xo) = rt" and "ppc_ra (encode_x rt ra rb xo) = ra"
    and "ppc_rb (encode_x rt ra rb xo) = rb"
  by (rule bit_word_eqI, auto simp: field_bits bit_unsigned_iff bit_take_bit_iff bit_drop_bit_eq
      bit_encode_x dest: x_bits [OF assms])+

lemma encode_x_xo:
  fixes rt ra rb :: u8 and xo :: u32
  assumes "rt < 32" and "ra < 32" and "rb < 32" and "xo < 1024"
  shows "ppc_xo (encode_x rt ra rb xo) = xo"
  by (rule bit_word_eqI) (auto simp: field_bits bit_take_bit_iff bit_drop_bit_eq
      bit_encode_x dest: x_bits [OF assms])

lemmas encode_x_fields = encode_x_primary encode_x_registers encode_x_xo

lemma ucast_sum: "ucast (x + y :: u64) = (ucast x + ucast y :: u32)"
proof -
  have "uint (ucast (x + y) :: u32) = take_bit 32 (uint x + uint y)"
    by (simp add: unsigned_ucast_eq uint_word_ariths take_bit_eq_mod mod_mod_cancel)
  also have "\<dots> = uint (ucast x + ucast y :: u32)"
    by (simp add: unsigned_ucast_eq uint_word_ariths take_bit_eq_mod mod_add_eq)
  finally show ?thesis by (simp only: word_uint_eq_iff)
qed
lemma ucast_up: "ucast (ucast (x::u32) :: u64) = x" "ucast (scast (x::u32) :: u64) = x"
  by (rule bit_word_eqI, auto simp: bit_simps dest: bit_imp_le_length)+

lemma truncated_sum: "ucast (ucast (a :: u32) + ucast (b :: u32) :: u64) = a + b"
  "ucast (ucast (a :: u32) + scast (b :: u32) :: u64) = a + b"
  by (simp_all add: ucast_sum ucast_up)

lemma masked_value: "unat (ucast (v AND 0xFF) :: u64) = unat (v::u32) mod 256"
  "unat (ucast (v AND 0xFFFF) :: u64) = unat (v::u32) mod 65536"
  "unat (ucast v :: u64) = unat (v::u32) mod 4294967296"
proof -
  have m: "(0xFFFF :: u32) = mask 16" "(0xFF :: u32) = mask 8" by (simp_all add: mask_eq_exp_minus_1)
  have "unat (take_bit 8 v) = take_bit 8 (unat v)" "unat (take_bit 16 v) = take_bit 16 (unat v)"
    by (simp_all add: unsigned_take_bit_eq)
  then show "unat (ucast (v AND 0xFF) :: u64) = unat (v::u32) mod 256"
  "unat (ucast (v AND 0xFFFF) :: u64) = unat (v::u32) mod 65536"
  by (simp_all add: unat_ucast_up m take_bit_eq_mask [symmetric] take_bit_eq_mod)
 show  "unat (ucast v :: u64) = unat (v::u32) mod 4294967296"
proof -
  have "unat v < 2 ^ LENGTH(32)" by (rule unsigned_less)
  then show ?thesis by (simp add: unat_ucast_up)
qed
qed
lemma mask_store_value_mod:
  "n \<in> {1, 2, 4} \<Longrightarrow> unat (mask_store_value v n) = unat v mod 256 ^ unat n"
  using masked_value [of v] by (auto simp: mask_store_value_def simp del: unsigned_and_eq)

section \<open>The tables\<close>

text \<open>The displacement opcodes with an indexed sibling, less 32: all but \<open>lmw\<close> and \<open>stmw\<close>.\<close>

definition indexable :: "nat list" where
  "indexable = [0..<14] @ [16..<24]"

lemma indexable_list: "indexable = [0, 1, 2, 3, 4, 5, 6, 7, 8, 9, 10, 11, 12, 13, 16, 17, 18, 19, 20, 21, 22, 23]"
  by (simp add: indexable_def upt_conv_Cons)

lemma d_form_range: "d_form_access_info primary \<noteq> None \<longleftrightarrow> 32 \<le> primary \<and> primary < 56"
proof -
  have "32 \<le> primary \<and> primary < 56 \<longleftrightarrow> unat primary \<in> set [32..<56]"
    unfolding set_upt atLeastLessThan_iff word_le_nat_alt word_less_nat_alt by simp
  moreover have "[32..<56] = [32, 33, 34, 35, 36, 37, 38, 39, 40, 41, 42, 43, 44, 45, 46, 47, 48, 49, 50,
      51, 52, 53, 54, 55::nat]"
    by (simp add: upt_conv_Cons)
  ultimately show ?thesis
    by (simp only: list.set) (simp add: d_form_access_info_def word_unat_eq_iff)
qed

text \<open>
  The indexed form mirrors the displacement form: the extended opcodes it knows are
  \<open>32 * k + 23\<close> for the displacement opcodes \<open>32 + k\<close> but the two multiple ones, and each accesses
  memory as its displacement sibling does, under its name with an \<open>x\<close>. The displacement opcodes
  are those from 32 to 55.
\<close>

theorem indexed_form_mirrors_displacement:
  "map (\<lambda>k. x_form_access_info (of_nat (32 * k + 23))) indexable =
      map (\<lambda>k. map_option (\<lambda>i. i\<lparr>info_mnemonic := info_mnemonic i @ ''x''\<rparr>)
        (d_form_access_info (of_nat (32 + k)))) indexable \<and>
   (x_form_access_info xo \<noteq> None \<longleftrightarrow> xo \<in> set (map (\<lambda>k. of_nat (32 * k + 23)) indexable)) \<and>
   (d_form_access_info primary \<noteq> None \<longleftrightarrow> 32 \<le> primary \<and> primary < 56)"
proof (intro conjI d_form_range)
  show "map (\<lambda>k. x_form_access_info (of_nat (32 * k + 23))) indexable =
      map (\<lambda>k. map_option (\<lambda>i. i\<lparr>info_mnemonic := info_mnemonic i @ ''x''\<rparr>)
        (d_form_access_info (of_nat (32 + k)))) indexable"
    by (simp add: indexable_list x_form_access_info_def d_form_access_info_def)
  show "x_form_access_info xo \<noteq> None \<longleftrightarrow> xo \<in> set (map (\<lambda>k. of_nat (32 * k + 23)) indexable)"
    by (simp add: indexable_list x_form_access_info_def)
qed

section \<open>Decoding an instruction\<close>

text \<open>A table entry's sizes, and when a register holds the value stored.\<close>

lemma info_sizes:
  "d_form_access_info primary = Some info \<Longrightarrow> info_size info \<in> {1, 2, 4, 8} \<and> info_access info \<noteq> Access \<and>
    (integer_store info \<longrightarrow> info_size info \<in> {1, 2, 4} \<and> info_access info = Write \<and> \<not> multiple_store info)"
  "x_form_access_info xo = Some info \<Longrightarrow> info_size info \<in> {1, 2, 4, 8} \<and> info_access info \<noteq> Access \<and>
    (integer_store info \<longrightarrow> info_size info \<in> {1, 2, 4} \<and> info_access info = Write) \<and> \<not> multiple_store info"
  by (auto simp: d_form_access_info_def x_form_access_info_def split: if_splits)


text \<open>Reading the memory leaves everything but the memory's value alone, or fills in a missing value.\<close>

lemma read_memory_frame [simp]:
  "supported (read_memory_value_for_decode m d) = supported d"
  "is_memory_access (read_memory_value_for_decode m d) = is_memory_access d"
  "mnemonic (read_memory_value_for_decode m d) = mnemonic d"
  "unsupported_reason (read_memory_value_for_decode m d) = unsupported_reason d"
  "access (read_memory_value_for_decode m d) = access d"
  "effective_address (read_memory_value_for_decode m d) = effective_address d"
  "access_size (read_memory_value_for_decode m d) = access_size d"
  "base_reg (read_memory_value_for_decode m d) = base_reg d"
  "has_base_reg (read_memory_value_for_decode m d) = has_base_reg d"
  "index_reg (read_memory_value_for_decode m d) = index_reg d"
  "has_index_reg (read_memory_value_for_decode m d) = has_index_reg d"
  "value_reg (read_memory_value_for_decode m d) = value_reg d"
  "has_value_reg (read_memory_value_for_decode m d) = has_value_reg d"
  "gpr_values (read_memory_value_for_decode m d) = gpr_values d"
  by (simp_all add: read_memory_value_for_decode_def Let_def split: option.split)

lemma read_memory_keeps_value:
  "value_available d \<Longrightarrow> value_available (read_memory_value_for_decode m d) \<and>
    access_value (read_memory_value_for_decode m d) = access_value d"
  by (simp add: read_memory_value_for_decode_def Let_def split: option.split)

lemma d_form_dispatch:
  assumes "d_form_access_info primary = Some info" and "drop_bit 26 op = primary"
  shows "DecodeCurrentMemoryAccess p op g m = decode_d_form op g m info (new_access p op)"
proof -
  have "primary \<noteq> 18 \<and> primary \<noteq> 16 \<and> primary \<noteq> 19"
    using assms(1) by (auto simp: d_form_access_info_def)
  with assms show ?thesis by (simp add: DecodeCurrentMemoryAccess_def Let_def)
qed

lemma x_form_dispatch:
  assumes "x_form_access_info (ppc_xo op) = Some info" and "drop_bit 26 op = 31"
  shows "DecodeCurrentMemoryAccess p op g m = decode_x_form op g m info (new_access p op)"
  using assms by (simp add: DecodeCurrentMemoryAccess_def Let_def d_form_access_info_def)

lemma finish_access_ok:
  assumes "integer_store info \<Longrightarrow> f rt = Some v"
  shows "let d' = finish_access (Some f) m rt info d in
     supported d' \<and> is_memory_access d' = is_memory_access d \<and> mnemonic d' = mnemonic d \<and>
     access d' = access d \<and> effective_address d' = effective_address d \<and> access_size d' = access_size d \<and>
     (integer_store info \<longrightarrow> has_value_reg d' \<and> value_reg d' = rt \<and> value_available d' \<and>
        access_value d' = mask_store_value v (info_size info))"
  using assms by (auto simp: finish_access_def read_gpr_for_decode_def append_register_role_def Let_def
      read_memory_keeps_value)

text \<open>
  A displacement instruction whose registers can be read: the address is the base register, or 0 for
  register 0, plus the sign-extended displacement; kind and size are its table entry's.
\<close>

lemma displacement_decoding:
  assumes "primary < 64" and "rt < 32" and "ra < 32"
    and "d_form_access_info primary = Some info"
    and "if ra = 0 then base = 0 else f ra = Some base"
    and "integer_store info \<Longrightarrow> f rt = Some v"
  shows "let d = DecodeCurrentMemoryAccess p (encode_d primary rt ra imm) (Some f) m in
    supported d \<and> is_memory_access d \<and> mnemonic d = info_mnemonic info \<and> access d = info_access info \<and>
    effective_address d = base + scast imm \<and>
    access_size d = (if primary = 47 then (32 - ucast rt) * 4 else info_size info) \<and>
    (integer_store info \<longrightarrow> has_value_reg d \<and> value_reg d = rt \<and> value_available d \<and>
       unat (access_value d) = unat v mod 256 ^ unat (info_size info))"
proof -
  note fields = encode_d_fields [OF assms(1-3), of imm]
  have zero: "(0 :: u8) < 32" by simp
  note fields0 = encode_d_fields [OF assms(1,2) zero, of imm]
  have multiple: "multiple_store info \<longleftrightarrow> primary = 47"
    using assms(4) by (auto simp: d_form_access_info_def split: if_splits)
  have size: "integer_store info \<Longrightarrow> info_size info \<in> {1, 2, 4}"
    using info_sizes(1) [OF assms(4)] by blast
  have step: "\<exists>d. decode_d_form (encode_d primary rt ra imm) (Some f) m info (new_access p (encode_d primary rt ra imm))
      = finish_access (Some f) m rt info d \<and> is_memory_access d \<and> mnemonic d = info_mnemonic info \<and>
      access d = info_access info \<and> effective_address d = base + scast imm \<and>
      access_size d = (if primary = 47 then (32 - ucast rt) * 4 else info_size info)"
    using assms(5) by (auto simp: decode_d_form_def read_base_def read_gpr_for_decode_def fields fields0 multiple
        Let_def append_register_role_def truncated_sum ucast_up split: if_splits)
  then obtain d where "DecodeCurrentMemoryAccess p (encode_d primary rt ra imm) (Some f) m =
      finish_access (Some f) m rt info d" "is_memory_access d" "mnemonic d = info_mnemonic info"
      "access d = info_access info" "effective_address d = base + scast imm"
      "access_size d = (if primary = 47 then (32 - ucast rt) * 4 else info_size info)"
    unfolding d_form_dispatch [OF assms(4) fields(1)] by blast
  with finish_access_ok [of info f rt v m d, OF assms(6)] size mask_store_value_mod [of "info_size info" v]
  show ?thesis by (simp add: Let_def)
qed

text \<open>An indexed instruction likewise, with the index register in place of the displacement.\<close>

lemma indexed_decoding:
  assumes "rt < 32" and "ra < 32" and "rb < 32" and "xo < 1024"
    and "x_form_access_info xo = Some info"
    and "if ra = 0 then base = 0 else f ra = Some base" and "f rb = Some index"
    and "integer_store info \<Longrightarrow> f rt = Some v"
  shows "let d = DecodeCurrentMemoryAccess p (encode_x rt ra rb xo) (Some f) m in
    supported d \<and> is_memory_access d \<and> mnemonic d = info_mnemonic info \<and> access d = info_access info \<and>
    effective_address d = base + index \<and> access_size d = info_size info \<and>
    (integer_store info \<longrightarrow> has_value_reg d \<and> value_reg d = rt \<and> value_available d \<and>
       unat (access_value d) = unat v mod 256 ^ unat (info_size info))"
proof -
  note fields = encode_x_fields [OF assms(1-4)]
  have zero: "(0 :: u8) < 32" by simp
  note fields0 = encode_x_fields [OF assms(1) zero assms(3,4)]
  have table: "x_form_access_info (ppc_xo (encode_x rt ra rb xo)) = Some info"
    using assms(5) by (simp add: fields)
  have size: "integer_store info \<Longrightarrow> info_size info \<in> {1, 2, 4}"
    using info_sizes(2) [OF assms(5)] by blast
  have step: "\<exists>d. decode_x_form (encode_x rt ra rb xo) (Some f) m info (new_access p (encode_x rt ra rb xo))
      = finish_access (Some f) m rt info d \<and> is_memory_access d \<and> mnemonic d = info_mnemonic info \<and>
      access d = info_access info \<and> effective_address d = base + index \<and> access_size d = info_size info"
    using assms(6,7) by (auto simp: decode_x_form_def read_base_def read_gpr_for_decode_def fields fields0
        Let_def append_register_role_def truncated_sum ucast_up split: if_splits)
  then obtain d where "DecodeCurrentMemoryAccess p (encode_x rt ra rb xo) (Some f) m =
      finish_access (Some f) m rt info d" "is_memory_access d" "mnemonic d = info_mnemonic info"
      "access d = info_access info" "effective_address d = base + index" "access_size d = info_size info"
    unfolding x_form_dispatch [OF table fields(1)] by blast
  with finish_access_ok [of info f rt v m d, OF assms(8)] size mask_store_value_mod [of "info_size info" v]
  show ?thesis by (simp add: Let_def)
qed

section \<open>The architecture\<close>

text \<open>
  What the architecture's opcode map says of the loads and stores, from the five low bits of the
  primary opcode (32 to 55), which the extended opcodes \<open>32 * k + 23\<close> repeat: bit 2 is set for
  stores, bit 0 for the forms that update the base, the opcodes from 16 on are floating-point with
  bit 1 for double precision; of the others, bit 3 is set for halfwords, and bit 1 then says that a
  load extends the sign, and bytes are told from words by bit 1. 14 and 15 load and store the
  registers from \<open>rt\<close> on.
\<close>

definition arch_multiple :: "nat \<Rightarrow> bool" where
  "arch_multiple k \<longleftrightarrow> k = 14 \<or> k = 15"

definition arch_store :: "nat \<Rightarrow> bool" where
  "arch_store k \<longleftrightarrow> (if arch_multiple k then odd k else odd (k div 4))"

definition arch_size :: "u8 \<Rightarrow> nat \<Rightarrow> nat" where
  "arch_size rt k =
    (if arch_multiple k then 4 * (32 - unat rt)
     else if k \<ge> 16 then (if odd (k div 2) then 8 else 4)
     else if odd (k div 8) then 2
     else if odd (k div 2) then 1
     else 4)"

definition arch_mnemonic :: "nat \<Rightarrow> string" where
  "arch_mnemonic k =
    (if arch_store k then ''st'' else ''l'') @
    (if arch_multiple k then ''mw''
     else if k \<ge> 16 then (if odd (k div 2) then ''fd'' else ''fs'')
     else (if odd (k div 8) then ''h'' else if odd (k div 2) then ''b'' else ''w'') @
       (if arch_store k then [] else if odd (k div 8) \<and> odd (k div 2) then ''a'' else ''z'')) @
    (if odd k \<and> \<not> arch_multiple k then ''u'' else [])"

text \<open>The stores of the low bytes of a general register.\<close>

definition arch_integer_store :: "nat \<Rightarrow> bool" where
  "arch_integer_store k \<longleftrightarrow> arch_store k \<and> k < 14"

definition arch_entry :: "nat \<Rightarrow> AccessInfo" where
  "arch_entry k = \<lparr>info_mnemonic = arch_mnemonic k, info_access = (if arch_store k then Write else Read),
     info_size = (if arch_multiple k then 4 else of_nat (arch_size 0 k)), integer_store = arch_integer_store k,
     multiple_store = (k = 15)\<rparr>"

lemma d_table: "k < 24 \<Longrightarrow> d_form_access_info (of_nat (32 + k)) = Some (arch_entry k)"
proof -
  have "\<forall>k \<in> set [0..<24]. d_form_access_info (of_nat (32 + k)) = Some (arch_entry k)" by code_simp
  then show "k < 24 \<Longrightarrow> ?thesis" by simp
qed

lemma x_table:
  "k < 24 \<Longrightarrow> \<not> arch_multiple k \<Longrightarrow> x_form_access_info (of_nat (32 * k + 23)) =
    Some ((arch_entry k)\<lparr>info_mnemonic := arch_mnemonic k @ ''x''\<rparr>)"
proof -
  have "\<forall>k \<in> set [0..<24]. \<not> arch_multiple k \<longrightarrow> x_form_access_info (of_nat (32 * k + 23)) =
    Some ((arch_entry k)\<lparr>info_mnemonic := arch_mnemonic k @ ''x''\<rparr>)" by code_simp
  then show "k < 24 \<Longrightarrow> \<not> arch_multiple k \<Longrightarrow> ?thesis" by simp
qed

lemma arch_entry_size: "\<not> arch_multiple k \<Longrightarrow> info_size (arch_entry k) = of_nat (arch_size rt k)"
  "unat (of_nat (arch_size rt k) :: u32) = arch_size rt k"
proof -
  show "\<not> arch_multiple k \<Longrightarrow> info_size (arch_entry k) = of_nat (arch_size rt k)"
    by (simp add: arch_entry_def arch_size_def)
  have "arch_size rt k \<le> 128" by (simp add: arch_size_def)
  then show "unat (of_nat (arch_size rt k) :: u32) = arch_size rt k"
    by (simp add: unsigned_of_nat take_bit_nat_eq_self)
qed

lemma multiple_size: "rt < 32 \<Longrightarrow> (32 - ucast (rt :: u8)) * 4 = (of_nat (4 * (32 - unat rt)) :: u32)"
proof -
  assume "rt < 32"
  then have "unat rt < 32" by (simp add: word_less_nat_alt)
  moreover have "(ucast rt :: u32) = of_nat (unat rt)" by simp
  ultimately show ?thesis by (simp add: of_nat_diff)
qed

text \<open>
  C17. A displacement instruction whose registers can be read is decoded as the architecture's opcode
  map defines it, for each of its 24 primary opcodes: mnemonic, load or store and size are those of
  the opcode's bits, the address is the base register, or 0 for register 0, plus the sign-extended
  displacement, and an integer store delivers the low bytes of its source register. The one
  exception is \<open>lmw\<close>, which is decoded as an access of one word whatever \<open>rt\<close> is.
\<close>

theorem displacement_access_decoded:
  assumes "k < 24" and "rt < 32" and "ra < 32"
    and "if ra = 0 then base = 0 else f ra = Some base"
    and "arch_integer_store k \<Longrightarrow> f rt = Some v"
  shows "let d = DecodeCurrentMemoryAccess p (encode_d (of_nat (32 + k)) rt ra imm) (Some f) m in
    supported d \<and> is_memory_access d \<and> mnemonic d = arch_mnemonic k \<and>
    access d = (if arch_store k then Write else Read) \<and> effective_address d = base + scast imm \<and>
    access_size d = (if k = 14 then 4 else of_nat (arch_size rt k)) \<and>
    (arch_integer_store k \<longrightarrow> has_value_reg d \<and> value_reg d = rt \<and> value_available d \<and>
       unat (access_value d) = unat v mod 256 ^ arch_size rt k)"
proof -
  have primary: "(of_nat (32 + k) :: u32) < 64" "(of_nat (32 + k) :: u32) = 47 \<longleftrightarrow> k = 15"
  proof -
    have n: "unat (of_nat (32 + k) :: u32) = 32 + k"
      using assms(1) by (simp add: unsigned_of_nat take_bit_nat_eq_self del: of_nat_add)
    then show "(of_nat (32 + k) :: u32) < 64" using assms(1) by (simp add: word_less_nat_alt del: of_nat_add)
    show "(of_nat (32 + k) :: u32) = 47 \<longleftrightarrow> k = 15"
      using n by (simp add: word_unat_eq_iff del: of_nat_add)
  qed
  have "integer_store (arch_entry k) \<Longrightarrow> f rt = Some v" using assms(5) by (simp add: arch_entry_def)
  from displacement_decoding [OF primary(1) assms(2,3) d_table [OF assms(1)] assms(4) this, of p imm m]
  show ?thesis
    using multiple_size [OF assms(2)] arch_entry_size(1) [of k rt] arch_entry_size(2) [of rt k]
    by (auto simp: Let_def primary(2) arch_multiple_def arch_entry_def arch_size_def arch_integer_store_def
        simp del: of_nat_add)
qed

theorem displacement_access_decoded_witness:
  "let d = DecodeCurrentMemoryAccess 0 (encode_d 44 5 3 (- 2)) (Some (\<lambda>r. Some (if r = 5 then 0x12345678 else 0x80000010))) None
   in access d = Write \<and> effective_address d = 0x8000000E \<and> access_size d = 2 \<and> unat (access_value d) = 0x5678"
proof -
  have "(0x12345678 :: nat) mod 65536 = 0x5678" by simp
  moreover have "scast (- 2 :: u16) = (- 2 :: u32)" by simp
  moreover have "arch_size 5 12 = 2" "arch_store 12" "arch_integer_store 12" by code_simp+
  ultimately show ?thesis
    using displacement_access_decoded [where k = 12 and rt = 5 and ra = 3 and base = "0x80000010"
      and f = "\<lambda>r. Some (if r = 5 then 0x12345678 else 0x80000010)" and v = "0x12345678"
      and p = 0 and imm = "- 2" and m = None]
    by (simp add: Let_def)
qed

text \<open>
  C18. An indexed instruction whose registers can be read is decoded as the architecture's opcode map
  defines it, for each of its 22 extended opcodes: mnemonic, load or store and size are those of the
  opcode's bits, the address is the sum of the base register, or 0 for register 0, and the index
  register, and an integer store delivers the low bytes of its source register.
\<close>

theorem indexed_access_decoded:
  assumes "k < 24" and "\<not> arch_multiple k" and "rt < 32" and "ra < 32" and "rb < 32"
    and "if ra = 0 then base = 0 else f ra = Some base" and "f rb = Some index"
    and "arch_integer_store k \<Longrightarrow> f rt = Some v"
  shows "let d = DecodeCurrentMemoryAccess p (encode_x rt ra rb (of_nat (32 * k + 23))) (Some f) m in
    supported d \<and> is_memory_access d \<and> mnemonic d = arch_mnemonic k @ ''x'' \<and>
    access d = (if arch_store k then Write else Read) \<and>
    effective_address d = base + index \<and> access_size d = of_nat (arch_size rt k) \<and>
    (arch_integer_store k \<longrightarrow> has_value_reg d \<and> value_reg d = rt \<and> value_available d \<and>
       unat (access_value d) = unat v mod 256 ^ arch_size rt k)"
proof -
  let ?e = "(arch_entry k)\<lparr>info_mnemonic := arch_mnemonic k @ ''x''\<rparr>"
  have xo: "(of_nat (32 * k + 23) :: u32) < 1024"
  proof -
    have "unat (of_nat (32 * k + 23) :: u32) = 32 * k + 23"
      using assms(1) by (simp add: unsigned_of_nat take_bit_nat_eq_self del: of_nat_add of_nat_mult)
    then show ?thesis using assms(1) by (simp add: word_less_nat_alt del: of_nat_add of_nat_mult)
  qed
  have "integer_store ?e \<Longrightarrow> f rt = Some v" using assms(8) by (simp add: arch_entry_def)
  from indexed_decoding [OF assms(3-5) xo x_table [OF assms(1,2)] assms(6,7) this, of p m]
  show ?thesis
    using arch_entry_size(1) [OF assms(2), of rt] arch_entry_size(2) [of rt k]
    by (simp add: Let_def arch_entry_def del: of_nat_add of_nat_mult)
qed

theorem indexed_access_decoded_witness:
  "let d = DecodeCurrentMemoryAccess 0 (encode_x 5 0 4 23) (Some (\<lambda>r. Some (ucast r + 0xFFFFFFF0))) None
   in supported d \<and> access d = Read \<and> effective_address d = 0xFFFFFFF4 \<and> access_size d = 4"
proof -
  have "arch_size 5 0 = 4" "\<not> arch_store 0" "\<not> arch_multiple 0" "\<not> arch_integer_store 0" by code_simp+
  then show ?thesis
    using indexed_access_decoded [where k = 0 and rt = 5 and ra = 0 and rb = 4 and base = 0
      and f = "\<lambda>r. Some (ucast r + 0xFFFFFFF0)" and index = "0xFFFFFFF4" and p = 0 and m = None]
    by (simp add: Let_def)
qed

end
