(* ===== verification/DecodedRegisters.thy ===== *)
theory DecodedRegisters
  imports MemoryAccessDecoder
begin

text \<open>
  What holds of every decoded access: the registers it recorded and their roles, the reason for
  not supporting it, and the memory value it delivers.
\<close>

lemma field_small: "ppc_rt op < 32" "ppc_ra op < 32" "ppc_rb op < 32"
proof -
  have "ucast (take_bit 5 (x :: u32)) < (32 :: u8)" for x
  proof -
    have "unat (take_bit 5 x) = take_bit 5 (unat x)" by (rule unsigned_take_bit_eq)
    also have "\<dots> < 2 ^ 5" by (rule take_bit_nat_less_exp)
    finally have "unat (take_bit 5 x) < 32" by simp
    moreover have "unat (ucast y :: u8) \<le> unat y" for y :: u32
      by (simp add: unsigned_ucast_eq take_bit_nat_less_eq_self)
    ultimately show ?thesis unfolding word_less_nat_alt by (auto intro: le_less_trans)
  qed
  then show "ppc_rt op < 32" "ppc_ra op < 32" "ppc_rb op < 32" by (simp_all add: field_bits)
qed

text \<open>The registers an access has recorded, with their values and roles.\<close>

definition registers_read :: "GprReadFn \<Rightarrow> DecodedMemoryAccess \<Rightarrow> bool" where
  "registers_read g d \<longleftrightarrow> distinct (map reg (gpr_values d)) \<and>
     (\<forall>e \<in> set (gpr_values d). reg e < 32 \<and> (\<exists>f. g = Some f \<and> f (reg e) = Some (reg_value e)))"

definition recorded :: "u8 \<Rightarrow> string \<Rightarrow> DecodedMemoryAccess \<Rightarrow> bool" where
  "recorded r ro d \<longleftrightarrow> (\<exists>e \<in> set (gpr_values d). reg e = r \<and> sublist ro (role e))"

lemma add_role_regs: "set (map reg (add_role r ro v es)) = insert r (reg ` set es)"
  by (induction es) auto

lemma add_role_distinct: "distinct (map reg es) \<Longrightarrow> distinct (map reg (add_role r ro v es))"
proof (induction es)
  case (Cons e es)
  then show ?case using add_role_regs [of r ro v es] by auto
qed simp

lemma add_role_values:
  "e \<in> set (add_role r ro v es) \<Longrightarrow>
    (reg e = r \<and> reg_value e = v) \<or> (\<exists>e' \<in> set es. reg e = reg e' \<and> reg_value e = reg_value e')"
  by (induction es) (auto split: if_splits)

lemma add_role_records: "\<exists>e \<in> set (add_role r ro v es). reg e = r \<and> sublist ro (role e)"
proof (induction es)
  case (Cons e es)
  have "sublist ro (role e @ ''+'' @ ro)" unfolding sublist_def
    by (intro exI [of _ "role e @ ''+''"] exI [of _ "[]"]) simp
  with Cons show ?case by auto
qed simp

lemma add_role_keeps:
  "e \<in> set es \<Longrightarrow> sublist ro' (role e) \<Longrightarrow>
    \<exists>e' \<in> set (add_role r ro v es). reg e' = reg e \<and> sublist ro' (role e')"
  by (induction es) (auto simp: sublist_appendI sublist_append)

lemma read_gpr_result:
  assumes "read_gpr_for_decode g r ro d = (x, d')" and "r < 32" and "registers_read g d"
  shows "registers_read g d' \<and>
    (case x of
       None \<Rightarrow> d' = d\<lparr>unsupported_reason := Some (FailedToRead r)\<rparr> \<and> (\<forall>f. g = Some f \<longrightarrow> f r = None)
     | Some v \<Rightarrow> d' = d\<lparr>gpr_values := gpr_values d'\<rparr> \<and> recorded r ro d' \<and>
         (\<forall>r' ro'. recorded r' ro' d \<longrightarrow> recorded r' ro' d'))"
proof (cases "case g of None \<Rightarrow> None | Some f \<Rightarrow> f r")
  case None
  with assms show ?thesis
    by (auto simp: read_gpr_for_decode_def registers_read_def split: option.splits)
next
  case (Some v)
  then obtain f where f: "g = Some f" "f r = Some v" by (cases g) auto
  with assms(1) have d': "x = Some v" "d' = d\<lparr>gpr_values := add_role r ro v (gpr_values d)\<rparr>"
    by (auto simp: read_gpr_for_decode_def append_register_role_def)
  have "registers_read g d'"
    using assms(2,3) f add_role_distinct [of "gpr_values d" r ro v]
    by (fastforce simp: registers_read_def d' dest: add_role_values)
  moreover have "recorded r ro d'"
    using add_role_records [of r ro v "gpr_values d"] by (simp add: recorded_def d')
  moreover have "recorded r' ro' d'" if "recorded r' ro' d" for r' ro'
    using that add_role_keeps [of _ "gpr_values d" ro' r ro v] by (auto simp: recorded_def d')
  ultimately show ?thesis by (simp add: d')
qed

text \<open>What the decoder's answer promises, whatever the word and however the readers answer.\<close>

definition memory_read :: "MemoryReadFn \<Rightarrow> DecodedMemoryAccess \<Rightarrow> bool" where
  "memory_read m d \<longleftrightarrow> (memory_value_available d \<longrightarrow>
     0 < access_size d \<and> access_size d \<le> 8 \<and>
     (\<exists>f. m = Some f \<and> f (effective_address d) (access_size d) = Some (memory_value d)))"

definition support_explained :: "GprReadFn \<Rightarrow> DecodedMemoryAccess \<Rightarrow> bool" where
  "support_explained g d \<longleftrightarrow> supported d = (unsupported_reason d = None) \<and>
     (supported d \<longrightarrow> is_memory_access d \<and> access d \<noteq> Access \<and>
        (has_base_reg d \<longrightarrow> recorded (base_reg d) ''base'' d) \<and>
        (has_index_reg d \<longrightarrow> recorded (index_reg d) ''index'' d) \<and>
        (has_value_reg d \<longrightarrow> access d = Write \<and> recorded (value_reg d) ''source'' d)) \<and>
     (\<forall>r f. unsupported_reason d = Some (FailedToRead r) \<longrightarrow> g = Some f \<longrightarrow> f r = None)"

definition faithful_access :: "GprReadFn \<Rightarrow> MemoryReadFn \<Rightarrow> DecodedMemoryAccess \<Rightarrow> bool" where
  "faithful_access g m d \<longleftrightarrow> registers_read g d \<and> memory_read m d \<and> support_explained g d"

lemma read_memory_memory:
  "\<not> memory_value_available d \<Longrightarrow> memory_read m (read_memory_value_for_decode m d)"
  by (auto simp: read_memory_value_for_decode_def memory_read_def Let_def word_gt_0 split: option.splits)

lemma recorded_cong: "gpr_values d = gpr_values d' \<Longrightarrow> recorded r ro d = recorded r ro d'"
  by (simp add: recorded_def)

lemma registers_read_cong: "gpr_values d = gpr_values d' \<Longrightarrow> registers_read g d = registers_read g d'"
  by (simp add: registers_read_def)

definition decoding :: "GprReadFn \<Rightarrow> DecodedMemoryAccess \<Rightarrow> bool" where
  "decoding g d \<longleftrightarrow> registers_read g d \<and> \<not> supported d \<and> unsupported_reason d = None \<and>
     is_memory_access d \<and> access d \<noteq> Access \<and> \<not> has_value_reg d \<and> \<not> memory_value_available d"

lemma failed_read_faithful:
  assumes "decoding g d" and "r < 32" and "read_gpr_for_decode g r ro d = (None, d')"
  shows "faithful_access g m d'"
  using read_gpr_result [OF assms(3,2)] assms(1)
  by (auto simp: decoding_def faithful_access_def memory_read_def support_explained_def)

lemma finish_faithful:
  assumes "decoding g d" and "rt < 32"
    and "has_base_reg d \<Longrightarrow> recorded (base_reg d) ''base'' d"
    and "has_index_reg d \<Longrightarrow> recorded (index_reg d) ''index'' d"
    and "integer_store info \<Longrightarrow> access d = Write"
  shows "faithful_access g m (finish_access g m rt info d)"
proof (cases "integer_store info")
  case False
  let ?d = "(read_memory_value_for_decode m d)\<lparr>supported := True\<rparr>"
  have "memory_read m ?d"
    using read_memory_memory [of d m] assms(1) by (simp add: decoding_def memory_read_def)
  moreover have "registers_read g ?d" "\<And>r ro. recorded r ro ?d = recorded r ro d"
    using assms(1) by (simp_all add: decoding_def registers_read_def recorded_def)
  ultimately show ?thesis
    using assms False by (simp add: finish_access_def faithful_access_def support_explained_def decoding_def)
next
  case True
  obtain x d' where read: "read_gpr_for_decode g rt ''source'' d = (x, d')" by fastforce
  note result = read_gpr_result [OF read assms(2)]
  show ?thesis
  proof (cases x)
    case None
    with failed_read_faithful [OF assms(1,2)] read True show ?thesis by (simp add: finish_access_def)
  next
    case (Some v)
    let ?e = "d'\<lparr>value_reg := rt, has_value_reg := True, value_available := True,
      access_value := mask_store_value v (info_size info), value_source := ''source_gpr''\<rparr>"
    let ?d = "(read_memory_value_for_decode m ?e)\<lparr>supported := True\<rparr>"
    have d': "registers_read g d'" "d' = d\<lparr>gpr_values := gpr_values d'\<rparr>" "recorded rt ''source'' d'"
      "\<And>r ro. recorded r ro d \<Longrightarrow> recorded r ro d'"
      using result assms(1) Some by (auto simp: decoding_def)
    have fields: "unsupported_reason d' = unsupported_reason d" "memory_value_available d' = memory_value_available d"
      "is_memory_access d' = is_memory_access d" "access d' = access d" "has_base_reg d' = has_base_reg d"
      "base_reg d' = base_reg d" "has_index_reg d' = has_index_reg d" "index_reg d' = index_reg d"
      by (subst d'(2), simp)+
    have "memory_read m ?d"
      using read_memory_memory [of ?e m] assms(1) fields by (simp add: decoding_def memory_read_def)
    moreover have "registers_read g ?d" "\<And>r ro. recorded r ro ?d = recorded r ro d'"
      using d'(1) by (simp_all add: registers_read_def recorded_def)
    ultimately show ?thesis
      using assms True read Some d'(3,4) fields
      by (simp add: finish_access_def faithful_access_def support_explained_def decoding_def Let_def)
  qed
qed

lemma read_base_result:
  assumes "decoding g d" and "ra < 32" and "read_base g ra d = (x, d')"
  shows "case x of None \<Rightarrow> faithful_access g m d'
    | Some v \<Rightarrow> decoding g d' \<and> d' = d\<lparr>gpr_values := gpr_values d'\<rparr> \<and> (ra \<noteq> 0 \<longrightarrow> recorded ra ''base'' d')"
proof (cases "ra = 0")
  case True
  with assms show ?thesis by (auto simp: read_base_def)
next
  case False
  with assms(3) have read: "read_gpr_for_decode g ra ''base'' d = (x, d')" by (simp add: read_base_def)
  show ?thesis
  proof (cases x)
    case None
    with failed_read_faithful [OF assms(1,2)] read show ?thesis by simp
  next
    case (Some v)
    with read_gpr_result [OF read assms(2)] assms(1)
    have d': "registers_read g d'" "d' = d\<lparr>gpr_values := gpr_values d'\<rparr>" "recorded ra ''base'' d'"
      by (auto simp: decoding_def)
    from d'(1) assms(1) have "decoding g (d\<lparr>gpr_values := gpr_values d'\<rparr>)"
      by (simp add: decoding_def registers_read_def)
    with d' Some show ?thesis by simp
  qed
qed


lemma decode_d_form_faithful:
  assumes "d_form_access_info primary = Some info"
  shows "faithful_access g m (decode_d_form op g m info (new_access p op))"
proof -
  define d where "d = (new_access p op)\<lparr>mnemonic := info_mnemonic info, is_memory_access := True,
    access := info_access info,
    access_size := (if multiple_store info then (32 - ucast (ppc_rt op)) * 4 else info_size info),
    base_reg := ppc_ra op, has_base_reg := ppc_ra op \<noteq> 0\<rparr>"
  have d: "decoding g d" "has_index_reg d = False" "access d = info_access info"
    "base_reg d = ppc_ra op" "has_base_reg d = (ppc_ra op \<noteq> 0)"
    using info_sizes(1) [OF assms] by (auto simp: d_def decoding_def new_access_def registers_read_def)
  obtain x d' where read: "read_base g (ppc_ra op) d = (x, d')" by fastforce
  note base = read_base_result [OF d(1) field_small(2) read]
  have step: "decode_d_form op g m info (new_access p op) = (case x of None \<Rightarrow> d'
    | Some b \<Rightarrow> finish_access g m (ppc_rt op) info
        (d'\<lparr>effective_address := ucast (ucast b + scast (ppc_simm16 op) :: u64)\<rparr>))"
    using read by (simp add: decode_d_form_def d_def Let_def split: option.split)
  show ?thesis
  proof (cases x)
    case None
    with base step show ?thesis by simp
  next
    case (Some b)
    let ?e = "d'\<lparr>effective_address := ucast (ucast b + scast (ppc_simm16 op) :: u64)\<rparr>"
    have e: "decoding g d'" "d' = d\<lparr>gpr_values := gpr_values d'\<rparr>"
      "ppc_ra op \<noteq> 0 \<Longrightarrow> recorded (ppc_ra op) ''base'' d'"
      using base Some by auto
    have fields: "access d' = access d" "has_base_reg d' = has_base_reg d"
      "base_reg d' = base_reg d" "has_index_reg d' = has_index_reg d"
      by (subst e(2), simp)+
    from e(1) have "decoding g ?e" by (simp add: decoding_def registers_read_def)
    moreover have "recorded r ro ?e = recorded r ro d'" for r ro by (simp add: recorded_def)
    ultimately have "faithful_access g m (finish_access g m (ppc_rt op) info ?e)"
      using e(3) fields d info_sizes(1) [OF assms] field_small(1)
      by (intro finish_faithful) simp_all
    with step Some show ?thesis by simp
  qed
qed

lemma decode_x_form_faithful:
  assumes "x_form_access_info xo = Some info"
  shows "faithful_access g m (decode_x_form op g m info (new_access p op))"
proof -
  define d where "d = (new_access p op)\<lparr>mnemonic := info_mnemonic info, is_memory_access := True,
    access := info_access info, access_size := info_size info,
    base_reg := ppc_ra op, has_base_reg := ppc_ra op \<noteq> 0,
    index_reg := ppc_rb op, has_index_reg := True\<rparr>"
  have d: "decoding g d" "index_reg d = ppc_rb op" "access d = info_access info"
    "base_reg d = ppc_ra op" "has_base_reg d = (ppc_ra op \<noteq> 0)"
    using info_sizes(2) [OF assms] by (auto simp: d_def decoding_def new_access_def registers_read_def)
  obtain x d' where read: "read_base g (ppc_ra op) d = (x, d')" by fastforce
  note base = read_base_result [OF d(1) field_small(2) read]
  obtain y d'' where read': "read_gpr_for_decode g (ppc_rb op) ''index'' d' = (y, d'')" by fastforce
  have step: "decode_x_form op g m info (new_access p op) = (case x of None \<Rightarrow> d'
    | Some b \<Rightarrow> (case y of None \<Rightarrow> d''
      | Some i \<Rightarrow> finish_access g m (ppc_rt op) info
        (d''\<lparr>effective_address := ucast (ucast b + ucast i :: u64)\<rparr>)))"
    using read read' by (simp add: decode_x_form_def d_def Let_def split: option.split)
  show ?thesis
  proof (cases x)
    case None
    with base step show ?thesis by simp
  next
    case (Some b)
    have e: "decoding g d'" "d' = d\<lparr>gpr_values := gpr_values d'\<rparr>"
      "ppc_ra op \<noteq> 0 \<Longrightarrow> recorded (ppc_ra op) ''base'' d'"
      using base Some by auto
    show ?thesis
    proof (cases y)
      case None
      with failed_read_faithful [OF e(1) field_small(3)] read' step Some show ?thesis by simp
    next
      case y: (Some i)
      have e': "registers_read g d''" "d'' = d'\<lparr>gpr_values := gpr_values d''\<rparr>"
        "recorded (ppc_rb op) ''index'' d''" "\<And>r ro. recorded r ro d' \<Longrightarrow> recorded r ro d''"
        using read_gpr_result [OF read' field_small(3)] e(1) y by (auto simp: decoding_def)
      let ?e = "d''\<lparr>effective_address := ucast (ucast b + ucast i :: u64)\<rparr>"
      have fields: "access d' = access d" "has_base_reg d' = has_base_reg d"
        "base_reg d' = base_reg d" "index_reg d' = index_reg d"
        by (subst e(2), simp)+
      have fields': "access d'' = access d'" "has_base_reg d'' = has_base_reg d'"
        "base_reg d'' = base_reg d'" "index_reg d'' = index_reg d'" "supported d'' = supported d'"
        "unsupported_reason d'' = unsupported_reason d'" "is_memory_access d'' = is_memory_access d'"
        "has_value_reg d'' = has_value_reg d'" "memory_value_available d'' = memory_value_available d'"
        by (subst e'(2), simp)+
      from e(1) e'(1) fields' have "decoding g ?e" by (simp add: decoding_def registers_read_def)
      moreover have "recorded r ro ?e = recorded r ro d''" for r ro by (simp add: recorded_def)
      ultimately have "faithful_access g m (finish_access g m (ppc_rt op) info ?e)"
        using e(3) e'(3,4) fields fields' d info_sizes(2) [OF assms] field_small(1)
        by (intro finish_faithful) simp_all
      with step Some y show ?thesis by simp
    qed
  qed
qed

text \<open>
  C16. Whatever the word and however the readers answer: the registers recorded are different
  registers with the values the reader gave; the base, index and source registers of a supported
  access are recorded in their roles; an access is supported unless a reason says otherwise, is
  then a read or a write, and stores from a register only as a write; a register named as
  unreadable is one; a memory value is what the memory reader gave for the access's own address
  and size, of 1 to 8 bytes.
\<close>

theorem decoded_access_is_faithful:
  "faithful_access g m (DecodeCurrentMemoryAccess p op g m)"
proof -
  have plain: "faithful_access g m ((new_access p op)\<lparr>mnemonic := n, unsupported_reason := Some e\<rparr>)"
    if "\<And>r. e \<noteq> FailedToRead r" for n e
    using that by (simp add: faithful_access_def registers_read_def memory_read_def support_explained_def
        new_access_def)
  consider info where "d_form_access_info (drop_bit 26 op) = Some info"
    | info where "drop_bit 26 op = 31" "x_form_access_info (ppc_xo op) = Some info"
    | "d_form_access_info (drop_bit 26 op) = None" "drop_bit 26 op = 31 \<longrightarrow> x_form_access_info (ppc_xo op) = None"
    by (metis not_None_eq)
  then show ?thesis
  proof cases
    case (1 info)
    from d_form_dispatch [OF this refl, of p g m] decode_d_form_faithful [OF this, of g m op p]
    show ?thesis by simp
  next
    case (2 info)
    from x_form_dispatch [OF 2(2,1), of p g m] decode_x_form_faithful [OF 2(2), of g m op p]
    show ?thesis by simp
  next
    case 3
    with plain show ?thesis by (simp add: DecodeCurrentMemoryAccess_def Let_def)
  qed
qed

text \<open>
  \<open>stmw\<close> and \<open>lmw\<close> transfer the registers from \<open>rt\<close> to 31; the decoder gives the store its
  \<open>4 * (32 - rt)\<close> bytes, and every load the 4 bytes of one register.
\<close>

theorem multiple_access_sizes:
  assumes "rt < 32"
  shows "access_size (DecodeCurrentMemoryAccess p (encode_d 47 rt 0 imm) g m) = (32 - ucast rt) * 4 \<and>
    access_size (DecodeCurrentMemoryAccess p (encode_d 46 rt 0 imm) g m) = 4 \<and>
    supported (DecodeCurrentMemoryAccess p (encode_d 46 rt 0 imm) g m)"
proof -
  have zero: "(0 :: u8) < 32" "(47 :: u32) < 64" "(46 :: u32) < 64" by simp_all
  note f = encode_d_fields [OF zero(2) assms zero(1), of imm] encode_d_fields [OF zero(3) assms zero(1), of imm]
  show ?thesis
    by (simp add: DecodeCurrentMemoryAccess_def decode_d_form_def f d_form_access_info_def read_base_def
        finish_access_def Let_def)
qed

theorem multiple_access_sizes_witness:
  "access_size (DecodeCurrentMemoryAccess 0 (encode_d 47 29 0 0) None None) = 12 \<and>
    access_size (DecodeCurrentMemoryAccess 0 (encode_d 46 29 0 0) None None) = 4"
  using multiple_access_sizes [of 29 0 0 None None] by simp

end
