(* ===== verification/WatchpointRegistry.thy ===== *)
theory WatchpointRegistry
  imports SavorPrelude
begin

text \<open>
  The watchpoint registry of the probe runtime (SavorProbe/ProbeWatchpointRegistry.h and .cpp): the
  plan that binds each logical request to one of Dolphin's physical memory checks, and the registry
  of requests that is reconciled against it.

  \<open>std::ranges::sort\<close> does not fix the order of elements with equal keys; the model sorts stably,
  and no property depends on the order of such elements. The error text is left out.
\<close>

section \<open>Requests, ranges and bindings\<close>

datatype MemoryAccess = ReadAccess | WriteAccess | ReadWriteAccess

datatype WatchpointOwnerKind = ProfileOwner | ControlOwner

record WatchpointOwner =
  owner_kind :: WatchpointOwnerKind
  owner_index :: u32

datatype WatchpointBindingSource = StaticSource | DynamicSource | ControlSource | ForeignSource

record WatchpointRequest =
  req_owner :: WatchpointOwner
  req_address :: u32
  req_size :: u32
  req_access :: MemoryAccess
  req_source :: WatchpointBindingSource
  req_generation :: u64

record WatchpointForeignRange =
  foreign_start :: u32
  foreign_end :: u32

record WatchpointPhysicalRange =
  phys_start :: u32
  phys_end :: u32
  phys_read :: bool
  phys_write :: bool
  phys_foreign :: bool

record WatchpointBinding =
  bind_owner :: WatchpointOwner
  bind_address :: u32
  bind_size :: u32
  bind_start :: u32
  bind_end :: u32
  bind_source :: WatchpointBindingSource
  bind_generation :: u64

datatype WatchpointBindingFailureReason =
    InvalidRange
  | PartialSameStartForeignOverlap
  | AddressDerivationFailed

record WatchpointBindingFailure =
  fail_owner :: WatchpointOwner
  fail_address :: u32
  fail_size :: u32
  fail_reason :: WatchpointBindingFailureReason
  fail_generation :: u64

record WatchpointPlan =
  physical_ranges :: "WatchpointPhysicalRange list"
  plan_bindings :: "WatchpointBinding list"
  plan_failures :: "WatchpointBindingFailure list"

definition watchpoint_binding_source_name :: "WatchpointBindingSource \<Rightarrow> string" where
  "watchpoint_binding_source_name source =
     (case source of StaticSource \<Rightarrow> ''static'' | DynamicSource \<Rightarrow> ''dynamic''
      | ControlSource \<Rightarrow> ''control'' | ForeignSource \<Rightarrow> ''foreign'')"

section \<open>Ranges\<close>

definition range_end :: "u32 \<Rightarrow> u32 \<Rightarrow> u32 option" where
  "range_end address n =
     (if n = 0 then None
      else let e = (ucast address + ucast n - 1 :: u64)
           in if e > 0xFFFFFFFF then None else Some (ucast e))"

definition covers :: "u32 \<Rightarrow> u32 \<Rightarrow> u32 \<Rightarrow> u32 \<Rightarrow> bool" where
  "covers outer_start outer_end inner_start inner_end \<longleftrightarrow>
     outer_start \<le> inner_start \<and> outer_end \<ge> inner_end"

definition overlaps :: "u32 \<Rightarrow> u32 \<Rightarrow> u32 \<Rightarrow> u32 \<Rightarrow> bool" where
  "overlaps lhs_start lhs_end rhs_start rhs_end \<longleftrightarrow> lhs_start \<le> rhs_end \<and> rhs_start \<le> lhs_end"

definition reads :: "MemoryAccess \<Rightarrow> bool" where
  "reads access \<longleftrightarrow> access = ReadAccess \<or> access = ReadWriteAccess"

definition writes :: "MemoryAccess \<Rightarrow> bool" where
  "writes access \<longleftrightarrow> access = WriteAccess \<or> access = ReadWriteAccess"

definition add_access :: "MemoryAccess \<Rightarrow> WatchpointPhysicalRange \<Rightarrow> WatchpointPhysicalRange" where
  "add_access access p = p\<lparr>phys_read := phys_read p \<or> reads access,
     phys_write := phys_write p \<or> writes access\<rparr>"

section \<open>The plan\<close>

text \<open>The loop that looks for the smallest foreign range around a request.\<close>

definition better_cover ::
  "u32 \<Rightarrow> u32 \<Rightarrow> WatchpointForeignRange \<Rightarrow> WatchpointForeignRange option \<Rightarrow> WatchpointForeignRange option" where
  "better_cover address e f best =
     (if \<not> covers (foreign_start f) (foreign_end f) address e then best
      else case best of
        None \<Rightarrow> Some f
      | Some b \<Rightarrow>
          if (ucast (foreign_end f) - ucast (foreign_start f) :: u64) <
             ucast (foreign_end b) - ucast (foreign_start b)
          then Some f else best)"

definition best_cover :: "u32 \<Rightarrow> u32 \<Rightarrow> WatchpointForeignRange list \<Rightarrow> WatchpointForeignRange option" where
  "best_cover address e foreign = fold (better_cover address e) foreign None"

definition partial_same_start :: "u32 \<Rightarrow> u32 \<Rightarrow> WatchpointForeignRange list \<Rightarrow> bool" where
  "partial_same_start address e foreign =
     list_ex (\<lambda>f. foreign_start f = address \<and> overlaps (foreign_start f) (foreign_end f) address e) foreign"

definition failure_of :: "WatchpointRequest \<Rightarrow> WatchpointBindingFailureReason \<Rightarrow> WatchpointBindingFailure" where
  "failure_of r reason = \<lparr>fail_owner = req_owner r, fail_address = req_address r, fail_size = req_size r,
     fail_reason = reason, fail_generation = req_generation r\<rparr>"

definition binding_of ::
  "WatchpointRequest \<Rightarrow> u32 \<Rightarrow> u32 \<Rightarrow> WatchpointBindingSource \<Rightarrow> WatchpointBinding" where
  "binding_of r s e source = \<lparr>bind_owner = req_owner r, bind_address = req_address r,
     bind_size = req_size r, bind_start = s, bind_end = e, bind_source = source,
     bind_generation = req_generation r\<rparr>"

text \<open>The first loop sends each request to the failures, the bindings or the owned requests.\<close>

fun sort_out ::
  "WatchpointForeignRange list \<Rightarrow> WatchpointRequest list \<Rightarrow>
    WatchpointBindingFailure list \<times> WatchpointBinding list \<times> WatchpointRequest list" where
  "sort_out foreign [] = ([], [], [])"
| "sort_out foreign (r # rs) =
     (let (fs, bs, owned) = sort_out foreign rs in
      case range_end (req_address r) (req_size r) of
        None \<Rightarrow> (failure_of r InvalidRange # fs, bs, owned)
      | Some e \<Rightarrow>
          (case best_cover (req_address r) e foreign of
             Some c \<Rightarrow> (fs, binding_of r (foreign_start c) (foreign_end c) ForeignSource # bs, owned)
           | None \<Rightarrow>
               if partial_same_start (req_address r) e foreign
               then (failure_of r PartialSameStartForeignOverlap # fs, bs, owned)
               else (fs, bs, r # owned)))"

definition request_end :: "WatchpointRequest \<Rightarrow> u32" where
  "request_end r = the (range_end (req_address r) (req_size r))"

text \<open>The second loop extends the last physical range or starts another.\<close>

definition add_request ::
  "WatchpointRequest \<Rightarrow> WatchpointPhysicalRange list \<Rightarrow> WatchpointPhysicalRange list" where
  "add_request r ps =
     (if ps = [] \<or> \<not> overlaps (phys_start (last ps)) (phys_end (last ps)) (req_address r) (request_end r)
      then ps @ [add_access (req_access r) \<lparr>phys_start = req_address r, phys_end = request_end r,
        phys_read = False, phys_write = False, phys_foreign = False\<rparr>]
      else butlast ps @ [add_access (req_access r)
        ((last ps)\<lparr>phys_end := max (phys_end (last ps)) (request_end r)\<rparr>)])"

definition merge_requests :: "WatchpointRequest list \<Rightarrow> WatchpointPhysicalRange list" where
  "merge_requests owned = fold add_request owned []"

text \<open>The third loop binds each owned request to the range that covers it.\<close>

definition bind_owned :: "WatchpointPhysicalRange list \<Rightarrow> WatchpointRequest list \<Rightarrow> WatchpointBinding list" where
  "bind_owned ps owned = List.map_filter (\<lambda>r.
     map_option (\<lambda>p. binding_of r (phys_start p) (phys_end p) (req_source r))
       (List.find (\<lambda>p. covers (phys_start p) (phys_end p) (req_address r) (request_end r)) ps)) owned"

definition kind_number :: "WatchpointOwnerKind \<Rightarrow> u64" where
  "kind_number k = (case k of ProfileOwner \<Rightarrow> 1 | ControlOwner \<Rightarrow> 2)"

definition owner_key :: "WatchpointOwner \<Rightarrow> u64" where
  "owner_key ow = or (push_bit 32 (kind_number (owner_kind ow))) (ucast (owner_index ow))"

definition plan_watchpoint_bindings ::
  "WatchpointRequest list \<Rightarrow> WatchpointForeignRange list \<Rightarrow> WatchpointPlan" where
  "plan_watchpoint_bindings requests foreign =
     (let (failures, bindings, owned) = sort_out foreign requests;
          owned = sort_key req_address owned;
          ranges = merge_requests owned
      in \<lparr>physical_ranges = ranges,
          plan_bindings = sort_key (\<lambda>b. owner_key (bind_owner b)) (bindings @ bind_owned ranges owned),
          plan_failures = failures\<rparr>)"

section \<open>The registry\<close>

record ProbeWatchpointRegistry =
  requests :: "WatchpointRequest list"
  owned_physical :: "WatchpointPhysicalRange list"
  bindings :: "WatchpointBinding list"
  failures :: "WatchpointBindingFailure list"
  next_binding_generation :: u64

definition new_registry :: ProbeWatchpointRegistry where
  "new_registry = \<lparr>requests = [], owned_physical = [], bindings = [], failures = [],
     next_binding_generation = 1\<rparr>"

definition upsert :: "WatchpointRequest \<Rightarrow> ProbeWatchpointRegistry \<Rightarrow> bool \<times> ProbeWatchpointRegistry" where
  "upsert request R =
     (if range_end (req_address request) (req_size request) = None then (False, R)
      else
        let request = request\<lparr>req_generation := next_binding_generation R\<rparr>;
            R = R\<lparr>next_binding_generation := next_binding_generation R + 1\<rparr>
        in case List.find (\<lambda>r. req_owner r = req_owner request) (requests R) of
             None \<Rightarrow> (True, R\<lparr>requests := requests R @ [request]\<rparr>)
           | Some _ \<Rightarrow> (True, R\<lparr>requests :=
               update_first (\<lambda>r. req_owner r = req_owner request) (\<lambda>_. request) (requests R)\<rparr>))"

definition release :: "WatchpointOwner \<Rightarrow> ProbeWatchpointRegistry \<Rightarrow> bool \<times> ProbeWatchpointRegistry" where
  "release ow R =
     (case List.find (\<lambda>r. req_owner r = ow) (requests R) of
        None \<Rightarrow> (False, R)
      | Some _ \<Rightarrow> (True, R\<lparr>requests := remove_first (\<lambda>r. req_owner r = ow) (requests R)\<rparr>))"

definition release_kind :: "WatchpointOwnerKind \<Rightarrow> ProbeWatchpointRegistry \<Rightarrow> bool \<times> ProbeWatchpointRegistry" where
  "release_kind k R =
     (let kept = filter (\<lambda>r. owner_kind (req_owner r) \<noteq> k) (requests R)
      in (length kept \<noteq> length (requests R), R\<lparr>requests := kept\<rparr>))"

definition clear_requests :: "ProbeWatchpointRegistry \<Rightarrow> ProbeWatchpointRegistry" where
  "clear_requests R = R\<lparr>requests := []\<rparr>"

definition reconcile ::
  "WatchpointForeignRange list \<Rightarrow> ProbeWatchpointRegistry \<Rightarrow> bool \<times> ProbeWatchpointRegistry" where
  "reconcile unmanaged R =
     (if unmanaged \<noteq> [] then (False, R)
      else
        let plan = plan_watchpoint_bindings (requests R) []
        in if plan_failures plan \<noteq> [] then (False, R)
           else (True, R\<lparr>owned_physical := physical_ranges plan, bindings := plan_bindings plan,
                  failures := []\<rparr>))"

definition release_all :: "ProbeWatchpointRegistry \<Rightarrow> ProbeWatchpointRegistry" where
  "release_all R = R\<lparr>requests := [], owned_physical := [], bindings := [], failures := []\<rparr>"

definition binding_for :: "WatchpointOwner \<Rightarrow> ProbeWatchpointRegistry \<Rightarrow> WatchpointBinding option" where
  "binding_for ow R = List.find (\<lambda>b. bind_owner b = ow) (bindings R)"

definition failure_for :: "WatchpointOwner \<Rightarrow> ProbeWatchpointRegistry \<Rightarrow> WatchpointBindingFailure option" where
  "failure_for ow R = List.find (\<lambda>f. fail_owner f = ow) (failures R)"

end
