(* ===== verification/WatchpointPlanning.thy ===== *)
theory WatchpointPlanning
  imports WatchpointRegistry "HOL-Library.Multiset"
begin

text \<open>
  The lemmas of the plan: the end of a range, the smallest foreign cover, the invariant of the
  merging loop, and where the first loop sends a request.
\<close>

section \<open>Ranges\<close>

lemma range_end_iff:
  "range_end a n = Some e \<longleftrightarrow> n \<noteq> 0 \<and> unat a + unat n \<le> 2 ^ 32 \<and> unat e = unat a + unat n - 1"
proof (cases "n = 0")
  case False
  have bounds: "unat a < 2 ^ 32" "unat n < 2 ^ 32" "0 < unat n"
    using unsigned_less [of a] unsigned_less [of n] False by (simp_all add: unat_gt_0)
  let ?w = "ucast a + ucast n - 1 :: u64"
  have sum: "unat (ucast a + ucast n :: u64) = unat a + unat n"
    using bounds by (subst unat_word_ariths) (simp add: unat_ucast_up)
  then have "(ucast a + ucast n :: u64) \<noteq> 0" using bounds by (metis add_is_0 less_numeral_extra(3) unat_0)
  then have w: "unat ?w = unat a + unat n - 1"
    using sum by (simp add: unat_minus_one)
  have "?w > 0xFFFFFFFF \<longleftrightarrow> unat a + unat n - 1 > 2 ^ 32 - 1"
    unfolding word_less_nat_alt w by simp
  moreover have "unat (ucast ?w :: u32) = unat a + unat n - 1" if "unat a + unat n \<le> 2 ^ 32"
    using that bounds by (simp add: unsigned_ucast_eq w take_bit_nat_eq_self)
  ultimately show ?thesis
    using False bounds by (auto simp: range_end_def Let_def word_unat_eq_iff)
qed (simp add: range_end_def)

abbreviation valid_request :: "WatchpointRequest \<Rightarrow> bool" where
  "valid_request r \<equiv> range_end (req_address r) (req_size r) \<noteq> None"

lemma unat_request_end:
  assumes "valid_request r"
  shows "unat (request_end r) = unat (req_address r) + unat (req_size r) - 1" and "0 < unat (req_size r)"
proof -
  obtain e where "range_end (req_address r) (req_size r) = Some e" using assms by blast
  moreover from this have "request_end r = e" by (simp add: request_end_def)
  ultimately show "unat (request_end r) = unat (req_address r) + unat (req_size r) - 1"
    and "0 < unat (req_size r)" by (simp_all add: range_end_iff unat_gt_0)
qed

lemma request_end_ge: "valid_request r \<Longrightarrow> req_address r \<le> request_end r"
  using unat_request_end [of r] by (simp add: word_le_nat_alt)

text \<open>The bytes of a request and of a physical range.\<close>

definition request_bytes :: "WatchpointRequest \<Rightarrow> u32 set" where
  "request_bytes r = {req_address r .. request_end r}"

definition range_bytes :: "WatchpointPhysicalRange \<Rightarrow> u32 set" where
  "range_bytes p = {phys_start p .. phys_end p}"

lemma request_bytes_iff:
  assumes "valid_request r"
  shows "x \<in> request_bytes r \<longleftrightarrow>
    unat (req_address r) \<le> unat x \<and> unat x < unat (req_address r) + unat (req_size r)"
  using unat_request_end [OF assms] by (auto simp: request_bytes_def word_le_nat_alt)

section \<open>The smallest foreign cover\<close>

definition span :: "WatchpointForeignRange \<Rightarrow> u64" where
  "span f = ucast (foreign_end f) - ucast (foreign_start f)"

definition smallest_cover :: "u32 \<Rightarrow> u32 \<Rightarrow> WatchpointForeignRange set \<Rightarrow> WatchpointForeignRange option \<Rightarrow> bool" where
  "smallest_cover a e F best \<longleftrightarrow>
     (case best of
        None \<Rightarrow> \<forall>f \<in> F. \<not> covers (foreign_start f) (foreign_end f) a e
      | Some b \<Rightarrow> b \<in> F \<and> covers (foreign_start b) (foreign_end b) a e \<and>
          (\<forall>f \<in> F. covers (foreign_start f) (foreign_end f) a e \<longrightarrow> span b \<le> span f))"

lemma better_cover_smallest:
  "smallest_cover a e F best \<Longrightarrow> smallest_cover a e (insert f F) (better_cover a e f best)"
  by (auto simp: smallest_cover_def better_cover_def span_def split: option.splits)

lemma best_cover_smallest: "smallest_cover a e (set foreign) (best_cover a e foreign)"
proof -
  have "smallest_cover a e (F \<union> set foreign) (fold (better_cover a e) foreign best)"
    if "smallest_cover a e F best" for F best
    using that
  proof (induction foreign arbitrary: F best)
    case (Cons f foreign)
    from Cons.IH [OF better_cover_smallest [OF Cons.prems]] show ?case by simp
  qed simp
  from this [of "{}" None] show ?thesis by (simp add: best_cover_def smallest_cover_def)
qed

lemma best_cover_none: "best_cover a e [] = None"
  by (simp add: best_cover_def)

section \<open>Merging\<close>

definition merged :: "WatchpointPhysicalRange list \<Rightarrow> WatchpointRequest set \<Rightarrow> bool" where
  "merged ps D \<longleftrightarrow>
     sorted_wrt (\<lambda>p q. phys_end p < phys_start q) ps \<and>
     (\<forall>p \<in> set ps. phys_start p \<le> phys_end p \<and> phys_start p \<in> req_address ` D \<and> \<not> phys_foreign p) \<and>
     (\<Union>p \<in> set ps. range_bytes p) = (\<Union>r \<in> D. request_bytes r) \<and>
     (\<forall>r \<in> D. \<exists>p \<in> set ps. request_bytes r \<subseteq> range_bytes p) \<and>
     (\<forall>p \<in> set ps. (phys_read p \<longleftrightarrow> (\<exists>r \<in> D. reads (req_access r) \<and> req_address r \<in> range_bytes p)) \<and>
        (phys_write p \<longleftrightarrow> (\<exists>r \<in> D. writes (req_access r) \<and> req_address r \<in> range_bytes p)))"

lemma add_access_simps [simp]:
  "phys_start (add_access a p) = phys_start p" "phys_end (add_access a p) = phys_end p"
  "phys_foreign (add_access a p) = phys_foreign p"
  "phys_read (add_access a p) = (phys_read p \<or> reads a)"
  "phys_write (add_access a p) = (phys_write p \<or> writes a)"
  by (simp_all add: add_access_def)

lemma range_bytes_add_access [simp]: "range_bytes (add_access a p) = range_bytes p"
  by (simp add: range_bytes_def)

lemma last_range_highest:
  assumes "sorted_wrt (\<lambda>p q. phys_end p < phys_start q) (qs @ [l])"
    and "\<forall>p \<in> set (qs @ [l]). phys_start p \<le> phys_end p" and "p \<in> set (qs @ [l])"
  shows "phys_end p \<le> phys_end l" and "p \<in> set qs \<Longrightarrow> phys_end p < phys_start l"
  using assms by (force simp: sorted_wrt_append)+

lemma merged_address:
  assumes "merged ps D" and "r \<in> D" and "valid_request r"
  obtains p where "p \<in> set ps" "req_address r \<in> range_bytes p"
proof -
  from assms obtain p where "p \<in> set ps" "request_bytes r \<subseteq> range_bytes p"
    unfolding merged_def by blast
  moreover have "req_address r \<in> request_bytes r"
    using request_end_ge [OF assms(3)] by (simp add: request_bytes_def)
  ultimately show ?thesis using that by blast
qed

lemma add_request_new:
  assumes "merged ps D" and "\<forall>r' \<in> D. valid_request r'" and "valid_request r"
    and "\<forall>p \<in> set ps. phys_end p < req_address r"
  shows "merged (ps @ [add_access (req_access r) \<lparr>phys_start = req_address r, phys_end = request_end r,
        phys_read = False, phys_write = False, phys_foreign = False\<rparr>]) (insert r D)"
    (is "merged (ps @ [?n]) _")
proof -
  have n: "range_bytes ?n = request_bytes r" by (simp add: range_bytes_def request_bytes_def)
  have fresh: "req_address r' \<notin> request_bytes r" if r': "r' \<in> D" for r'
  proof -
    from r' assms(2) have "valid_request r'" by blast
    from merged_address [OF assms(1) r' this] obtain p where "p \<in> set ps" "req_address r' \<in> range_bytes p" .
    with assms(4) show ?thesis by (force simp: range_bytes_def request_bytes_def)
  qed
  have beyond: "req_address r \<notin> range_bytes p" if "p \<in> set ps" for p
    using assms(4) that by (force simp: range_bytes_def)
  have self: "req_address r \<in> request_bytes r"
    using request_end_ge [OF assms(3)] by (simp add: request_bytes_def)
  from assms(1) have m:
    "sorted_wrt (\<lambda>p q. phys_end p < phys_start q) ps"
    "\<forall>p \<in> set ps. phys_start p \<le> phys_end p \<and> phys_start p \<in> req_address ` D \<and> \<not> phys_foreign p"
    "(\<Union>p \<in> set ps. range_bytes p) = (\<Union>r \<in> D. request_bytes r)"
    "\<forall>r \<in> D. \<exists>p \<in> set ps. request_bytes r \<subseteq> range_bytes p"
    "\<forall>p \<in> set ps. (phys_read p \<longleftrightarrow> (\<exists>r \<in> D. reads (req_access r) \<and> req_address r \<in> range_bytes p)) \<and>
      (phys_write p \<longleftrightarrow> (\<exists>r \<in> D. writes (req_access r) \<and> req_address r \<in> range_bytes p))"
    unfolding merged_def by blast+
  show ?thesis unfolding merged_def
  proof (intro conjI)
    show "sorted_wrt (\<lambda>p q. phys_end p < phys_start q) (ps @ [?n])"
      using m(1) assms(4) by (simp add: sorted_wrt_append)
    show "\<forall>p \<in> set (ps @ [?n]). phys_start p \<le> phys_end p \<and> phys_start p \<in> req_address ` insert r D \<and>
        \<not> phys_foreign p"
      using m(2) request_end_ge [OF assms(3)] by auto
    show "(\<Union>p \<in> set (ps @ [?n]). range_bytes p) = (\<Union>r \<in> insert r D. request_bytes r)"
      using m(3) n by auto
    show "\<forall>r \<in> insert r D. \<exists>p \<in> set (ps @ [?n]). request_bytes r \<subseteq> range_bytes p"
      using m(4) n by auto
    show "\<forall>p \<in> set (ps @ [?n]).
        (phys_read p \<longleftrightarrow> (\<exists>r \<in> insert r D. reads (req_access r) \<and> req_address r \<in> range_bytes p)) \<and>
        (phys_write p \<longleftrightarrow> (\<exists>r \<in> insert r D. writes (req_access r) \<and> req_address r \<in> range_bytes p))"
      using m(5) n fresh beyond self by auto
  qed
qed

lemma add_request_extend:
  assumes "merged (qs @ [l]) D" and "\<forall>r' \<in> D. valid_request r'" and "valid_request r"
    and "phys_start l \<le> req_address r" and "req_address r \<le> phys_end l"
  shows "merged (qs @ [add_access (req_access r) (l\<lparr>phys_end := max (phys_end l) (request_end r)\<rparr>)])
      (insert r D)"
    (is "merged (qs @ [?n]) _")
proof -
  from assms(1) have m:
    "sorted_wrt (\<lambda>p q. phys_end p < phys_start q) (qs @ [l])"
    "\<forall>p \<in> set (qs @ [l]). phys_start p \<le> phys_end p \<and> phys_start p \<in> req_address ` D \<and> \<not> phys_foreign p"
    "(\<Union>p \<in> set (qs @ [l]). range_bytes p) = (\<Union>r \<in> D. request_bytes r)"
    "\<forall>r \<in> D. \<exists>p \<in> set (qs @ [l]). request_bytes r \<subseteq> range_bytes p"
    "\<forall>p \<in> set (qs @ [l]). (phys_read p \<longleftrightarrow> (\<exists>r \<in> D. reads (req_access r) \<and> req_address r \<in> range_bytes p)) \<and>
      (phys_write p \<longleftrightarrow> (\<exists>r \<in> D. writes (req_access r) \<and> req_address r \<in> range_bytes p))"
    unfolding merged_def by blast+
  have order: "phys_end p \<le> phys_end l" "p \<in> set qs \<Longrightarrow> phys_end p < phys_start l"
    if "p \<in> set (qs @ [l])" for p
    using last_range_highest [OF m(1) _ that] m(2) by blast+
  have n: "range_bytes ?n = range_bytes l \<union> request_bytes r"
    using assms(4,5) request_end_ge [OF assms(3)]
    by (auto simp: range_bytes_def request_bytes_def le_max_iff_disj)
  have known: "req_address r' \<in> range_bytes ?n \<longleftrightarrow> req_address r' \<in> range_bytes l" if r': "r' \<in> D" for r'
  proof -
    from r' assms(2) have "valid_request r'" by blast
    from merged_address [OF assms(1) r' this] obtain p where
      p: "p \<in> set (qs @ [l])" "req_address r' \<in> range_bytes p" .
    then have "req_address r' \<le> phys_end l" using order(1) by (force simp: range_bytes_def)
    with n assms(4) show ?thesis by (auto simp: range_bytes_def request_bytes_def)
  qed
  have beyond: "req_address r \<notin> range_bytes p" if "p \<in> set qs" for p
    using order(2) [of p] that assms(4) by (auto simp: range_bytes_def)
  have self: "req_address r \<in> range_bytes ?n"
    using n request_end_ge [OF assms(3)] by (simp add: request_bytes_def)
  show ?thesis unfolding merged_def
  proof (intro conjI)
    show "sorted_wrt (\<lambda>p q. phys_end p < phys_start q) (qs @ [?n])"
      using m(1) by (simp add: sorted_wrt_append)
    show "\<forall>p \<in> set (qs @ [?n]). phys_start p \<le> phys_end p \<and> phys_start p \<in> req_address ` insert r D \<and>
        \<not> phys_foreign p"
      using m(2) by (auto simp: le_max_iff_disj)
    show "(\<Union>p \<in> set (qs @ [?n]). range_bytes p) = (\<Union>r \<in> insert r D. request_bytes r)"
      using m(3) n by auto
    show "\<forall>r \<in> insert r D. \<exists>p \<in> set (qs @ [?n]). request_bytes r \<subseteq> range_bytes p"
      using m(4) n by auto
    show "\<forall>p \<in> set (qs @ [?n]).
        (phys_read p \<longleftrightarrow> (\<exists>r \<in> insert r D. reads (req_access r) \<and> req_address r \<in> range_bytes p)) \<and>
        (phys_write p \<longleftrightarrow> (\<exists>r \<in> insert r D. writes (req_access r) \<and> req_address r \<in> range_bytes p))"
      using m(5) known beyond self by auto
  qed
qed

lemma add_request_merged:
  assumes "merged ps D" and "\<forall>r' \<in> D. valid_request r'" and "valid_request r"
    and "\<forall>r' \<in> D. req_address r' \<le> req_address r"
  shows "merged (add_request r ps) (insert r D)"
proof (cases ps rule: rev_cases)
  case Nil
  with add_request_new [OF assms(1-3)] show ?thesis by (simp add: add_request_def)
next
  case (snoc qs l)
  have l: "phys_start l \<in> req_address ` D" using assms(1) snoc by (simp add: merged_def)
  then have start: "phys_start l \<le> req_address r" using assms(4) by auto
  have overlap: "overlaps (phys_start l) (phys_end l) (req_address r) (request_end r) \<longleftrightarrow> req_address r \<le> phys_end l"
    using start request_end_ge [OF assms(3)] by (auto simp: overlaps_def)
  show ?thesis
  proof (cases "req_address r \<le> phys_end l")
    case True
    with add_request_extend [OF assms(1) [unfolded snoc] assms(2,3) start] overlap snoc show ?thesis
      by (simp add: add_request_def)
  next
    case False
    have "phys_end p < req_address r" if "p \<in> set ps" for p
    proof -
      have "phys_end p \<le> phys_end l"
        using last_range_highest(1) [of qs l p] assms(1) that snoc unfolding merged_def by blast
      with False show ?thesis by simp
    qed
    with add_request_new [OF assms(1-3)] False overlap snoc show ?thesis
      by (simp add: add_request_def)
  qed
qed

lemma merge_requests_merged:
  assumes "sorted (map req_address owned)" and "\<forall>r \<in> set owned. valid_request r"
  shows "merged (merge_requests owned) (set owned)"
  using assms
proof (induction owned rule: rev_induct)
  case Nil
  then show ?case by (simp add: merge_requests_def merged_def)
next
  case (snoc r owned)
  then have "merged (merge_requests owned) (set owned)" by (simp add: sorted_append)
  with snoc.prems show ?case
    using add_request_merged [of "merge_requests owned" "set owned" r]
    by (simp add: merge_requests_def sorted_append)
qed

section \<open>Binding\<close>

lemma find_cover:
  assumes "merged ps D" and "r \<in> D" and "valid_request r"
  obtains p where "List.find (\<lambda>p. covers (phys_start p) (phys_end p) (req_address r) (request_end r)) ps = Some p"
    "p \<in> set ps" "request_bytes r \<subseteq> range_bytes p"
proof -
  have covers: "covers (phys_start p) (phys_end p) (req_address r) (request_end r) \<longleftrightarrow>
      request_bytes r \<subseteq> range_bytes p" for p
    using request_end_ge [OF assms(3)] by (auto simp: covers_def request_bytes_def range_bytes_def)
  from assms obtain q where "q \<in> set ps" "request_bytes r \<subseteq> range_bytes q"
    unfolding merged_def by blast
  then have "List.find (\<lambda>p. covers (phys_start p) (phys_end p) (req_address r) (request_end r)) ps \<noteq> None"
    by (auto simp: find_None_iff covers)
  with that show ?thesis by (auto dest: find_SomeD simp: covers)
qed

lemma binding_of_simps [simp]:
  "bind_owner (binding_of r s e src) = req_owner r" "bind_address (binding_of r s e src) = req_address r"
  "bind_size (binding_of r s e src) = req_size r" "bind_start (binding_of r s e src) = s"
  "bind_end (binding_of r s e src) = e" "bind_source (binding_of r s e src) = src"
  "bind_generation (binding_of r s e src) = req_generation r"
  by (simp_all add: binding_of_def)

lemma failure_of_owner [simp]: "fail_owner (failure_of r reason) = req_owner r"
  by (simp add: failure_of_def)

lemma bind_owned_bound:
  assumes "merged ps D" and "\<forall>r \<in> D. valid_request r" and "set owned \<subseteq> D"
  shows "map bind_owner (bind_owned ps owned) = map req_owner owned \<and>
    (\<forall>b \<in> set (bind_owned ps owned). \<exists>r \<in> set owned. \<exists>p \<in> set ps. request_bytes r \<subseteq> range_bytes p \<and>
       b = binding_of r (phys_start p) (phys_end p) (req_source r)) \<and>
    (\<forall>r \<in> set owned. \<exists>p \<in> set ps. request_bytes r \<subseteq> range_bytes p \<and>
       binding_of r (phys_start p) (phys_end p) (req_source r) \<in> set (bind_owned ps owned))"
  using assms(3)
proof (induction owned)
  case Nil
  then show ?case by (simp add: bind_owned_def List.map_filter_def)
next
  case (Cons r owned)
  then have "r \<in> D" by simp
  with assms(2) have "valid_request r" by blast
  from find_cover [OF assms(1) \<open>r \<in> D\<close> this] obtain p where
    p: "List.find (\<lambda>p. covers (phys_start p) (phys_end p) (req_address r) (request_end r)) ps = Some p"
    "p \<in> set ps" "request_bytes r \<subseteq> range_bytes p" .
  have "bind_owned ps (r # owned) = binding_of r (phys_start p) (phys_end p) (req_source r) # bind_owned ps owned"
    using p(1) by (simp add: bind_owned_def List.map_filter_def)
  with Cons.IH Cons.prems p(2,3) show ?case by (simp, blast)
qed

section \<open>Sorting out\<close>

text \<open>Where a request goes.\<close>

definition owned_request :: "WatchpointForeignRange list \<Rightarrow> WatchpointRequest \<Rightarrow> bool" where
  "owned_request foreign r \<longleftrightarrow> valid_request r \<and>
     best_cover (req_address r) (request_end r) foreign = None \<and>
     \<not> partial_same_start (req_address r) (request_end r) foreign"

definition bound_to_foreign :: "WatchpointForeignRange list \<Rightarrow> WatchpointRequest \<Rightarrow> WatchpointBinding \<Rightarrow> bool" where
  "bound_to_foreign foreign r b \<longleftrightarrow> valid_request r \<and> (\<exists>c.
     smallest_cover (req_address r) (request_end r) (set foreign) (Some c) \<and>
     b = binding_of r (foreign_start c) (foreign_end c) ForeignSource)"

definition justly_failed :: "WatchpointForeignRange list \<Rightarrow> WatchpointRequest \<Rightarrow> WatchpointBindingFailure \<Rightarrow> bool" where
  "justly_failed foreign r f \<longleftrightarrow>
     (f = failure_of r InvalidRange \<and> \<not> valid_request r) \<or>
     (f = failure_of r PartialSameStartForeignOverlap \<and> valid_request r \<and>
      smallest_cover (req_address r) (request_end r) (set foreign) None \<and>
      (\<exists>c \<in> set foreign. foreign_start c = req_address r \<and> req_address r \<le> foreign_end c \<and>
         foreign_end c < request_end r))"

lemma partial_overlap:
  assumes "partial_same_start a e foreign" and "best_cover a e foreign = None" and "a \<le> e"
  shows "\<exists>c \<in> set foreign. foreign_start c = a \<and> a \<le> foreign_end c \<and> foreign_end c < e"
proof -
  from assms(1) obtain c where c: "c \<in> set foreign" "foreign_start c = a" "a \<le> foreign_end c"
    by (auto simp: partial_same_start_def list_ex_iff overlaps_def)
  from best_cover_smallest [of a e foreign] assms(2)
  have "\<forall>f \<in> set foreign. \<not> covers (foreign_start f) (foreign_end f) a e"
    by (simp add: smallest_cover_def)
  with c(1) have "\<not> covers (foreign_start c) (foreign_end c) a e" by blast
  with c show ?thesis by (auto simp: covers_def not_le)
qed

lemma sort_out_result:
  assumes "sort_out foreign rs = (fs, bs, owned)"
  shows "image_mset bind_owner (mset bs) + image_mset fail_owner (mset fs) + image_mset req_owner (mset owned)
      = image_mset req_owner (mset rs) \<and>
    (\<forall>f \<in> set fs. \<exists>r \<in> set rs. justly_failed foreign r f) \<and>
    (\<forall>b \<in> set bs. \<exists>r \<in> set rs. bound_to_foreign foreign r b) \<and>
    owned = filter (owned_request foreign) rs"
  using assms
proof (induction rs arbitrary: fs bs owned)
  case Nil
  then show ?case by simp
next
  case (Cons r rs)
  obtain fs' bs' owned' where rest: "sort_out foreign rs = (fs', bs', owned')" by (rule prod_cases3)
  note IH = Cons.IH [OF rest]
  show ?case
  proof (cases "range_end (req_address r) (req_size r)")
    case None
    with Cons.prems rest have "fs = failure_of r InvalidRange # fs'" "bs = bs'" "owned = owned'"
      by (auto simp: Let_def)
    moreover have "justly_failed foreign r (failure_of r InvalidRange)" "\<not> owned_request foreign r"
      using None by (auto simp: justly_failed_def owned_request_def)
    ultimately show ?thesis using IH by auto
  next
    case (Some e)
    then have e: "request_end r = e" by (simp add: request_end_def)
    have le: "req_address r \<le> e" using request_end_ge [of r] Some e by simp
    note best = best_cover_smallest [of "req_address r" e foreign]
    show ?thesis
    proof (cases "best_cover (req_address r) e foreign")
      case c: (Some c)
      let ?b = "binding_of r (foreign_start c) (foreign_end c) ForeignSource"
      from Cons.prems rest Some c have "fs = fs'" "bs = ?b # bs'" "owned = owned'"
        by (auto simp: Let_def)
      moreover have "bound_to_foreign foreign r ?b" "\<not> owned_request foreign r"
        using best Some c by (auto simp: bound_to_foreign_def owned_request_def e)
      ultimately show ?thesis using IH by auto
    next
      case None
      show ?thesis
      proof (cases "partial_same_start (req_address r) e foreign")
        case True
        let ?f = "failure_of r PartialSameStartForeignOverlap"
        from Cons.prems rest Some None True have "fs = ?f # fs'" "bs = bs'" "owned = owned'"
          by (auto simp: Let_def)
        moreover have "justly_failed foreign r ?f" "\<not> owned_request foreign r"
          using partial_overlap [OF True None le] best None Some e True
          by (auto simp: justly_failed_def owned_request_def)
        ultimately show ?thesis using IH by auto
      next
        case False
        with Cons.prems rest Some None have "fs = fs'" "bs = bs'" "owned = r # owned'"
          by (auto simp: Let_def)
        moreover have "owned_request foreign r" using Some None False by (simp add: owned_request_def e)
        ultimately show ?thesis using IH by auto
      qed
    qed
  qed
qed

end
