(* ===== verification/WatchpointContracts.thy ===== *)
theory WatchpointContracts
  imports WatchpointPlanning
begin

text \<open>
  What the watchpoint plan and its registry promise: every request is accounted for, the physical
  ranges watch exactly the bytes asked for, and the registry is a finite map from owners to
  requests whose reconciled bindings cover it.
\<close>

section \<open>The plan\<close>

definition bound_to_owned :: "WatchpointPhysicalRange list \<Rightarrow> WatchpointRequest \<Rightarrow> WatchpointBinding \<Rightarrow> bool" where
  "bound_to_owned ps r b \<longleftrightarrow> (\<exists>p \<in> set ps. request_bytes r \<subseteq> range_bytes p \<and>
     (reads (req_access r) \<longrightarrow> phys_read p) \<and> (writes (req_access r) \<longrightarrow> phys_write p) \<and>
     b = binding_of r (phys_start p) (phys_end p) (req_source r))"

lemma merged_flags:
  assumes "merged ps D" and "r \<in> D" and "valid_request r" and "p \<in> set ps" and "request_bytes r \<subseteq> range_bytes p"
  shows "(reads (req_access r) \<longrightarrow> phys_read p) \<and> (writes (req_access r) \<longrightarrow> phys_write p)"
proof -
  have "req_address r \<in> range_bytes p"
    using assms(5) request_end_ge [OF assms(3)] by (auto simp: request_bytes_def)
  with assms(1,2,4) show ?thesis unfolding merged_def by blast
qed

lemma plan_result:
  assumes "plan_watchpoint_bindings rs foreign = P"
  shows "image_mset bind_owner (mset (plan_bindings P)) + image_mset fail_owner (mset (plan_failures P))
      = image_mset req_owner (mset rs)"
    and "\<And>f. f \<in> set (plan_failures P) \<Longrightarrow> \<exists>r \<in> set rs. justly_failed foreign r f"
    and "\<And>b. b \<in> set (plan_bindings P) \<Longrightarrow> \<exists>r \<in> set rs. bound_to_foreign foreign r b \<or>
      (owned_request foreign r \<and> bound_to_owned (physical_ranges P) r b)"
    and "merged (physical_ranges P) {r \<in> set rs. owned_request foreign r}"
    and "\<And>r. r \<in> set rs \<Longrightarrow> owned_request foreign r \<Longrightarrow>
      \<exists>b \<in> set (plan_bindings P). bound_to_owned (physical_ranges P) r b"
proof -
  obtain fs bs owned where out: "sort_out foreign rs = (fs, bs, owned)" by (rule prod_cases3)
  define so where "so = sort_key req_address owned"
  define ps where "ps = merge_requests so"
  have P: "plan_failures P = fs" "physical_ranges P = ps"
    "plan_bindings P = sort_key (\<lambda>b. owner_key (bind_owner b)) (bs @ bind_owned ps so)"
    using assms out by (auto simp: plan_watchpoint_bindings_def Let_def so_def ps_def)
  from sort_out_result [OF out] have counts:
      "image_mset bind_owner (mset bs) + image_mset fail_owner (mset fs) + image_mset req_owner (mset owned)
        = image_mset req_owner (mset rs)"
    and failed: "\<forall>f \<in> set fs. \<exists>r \<in> set rs. justly_failed foreign r f"
    and foreign_bound: "\<forall>b \<in> set bs. \<exists>r \<in> set rs. bound_to_foreign foreign r b"
    and owned_eq: "owned = filter (owned_request foreign) rs" by blast+
  have so: "set so = {r \<in> set rs. owned_request foreign r}" "mset so = mset owned"
    by (simp_all add: so_def owned_eq)
  have valid: "\<forall>r \<in> set so. valid_request r" using so(1) by (simp add: owned_request_def)
  have merged: "merged ps (set so)"
    unfolding ps_def by (rule merge_requests_merged) (simp add: so_def, rule valid)
  from bind_owned_bound [OF merged valid order.refl] have
    owners: "map bind_owner (bind_owned ps so) = map req_owner so"
    and sound: "\<forall>b \<in> set (bind_owned ps so). \<exists>r \<in> set so. \<exists>p \<in> set ps. request_bytes r \<subseteq> range_bytes p \<and>
       b = binding_of r (phys_start p) (phys_end p) (req_source r)"
    and complete: "\<forall>r \<in> set so. \<exists>p \<in> set ps. request_bytes r \<subseteq> range_bytes p \<and>
       binding_of r (phys_start p) (phys_end p) (req_source r) \<in> set (bind_owned ps so)" by blast+
  have "image_mset bind_owner (mset (plan_bindings P)) =
      image_mset bind_owner (mset bs) + mset (map bind_owner (bind_owned ps so))"
    by (simp only: P mset_sort mset_append image_mset_union mset_map)
  also have "\<dots> = image_mset bind_owner (mset bs) + image_mset req_owner (mset owned)"
    by (simp only: owners mset_map so(2))
  finally have "image_mset bind_owner (mset (plan_bindings P)) + image_mset fail_owner (mset fs) =
      image_mset bind_owner (mset bs) + image_mset fail_owner (mset fs) + image_mset req_owner (mset owned)"
    by (simp only: ac_simps)
  with counts show "image_mset bind_owner (mset (plan_bindings P)) +
      image_mset fail_owner (mset (plan_failures P)) = image_mset req_owner (mset rs)"
    by (simp only: P(1))
  show "\<exists>r \<in> set rs. justly_failed foreign r f" if "f \<in> set (plan_failures P)" for f
    using that failed by (simp only: P(1))
  show "merged (physical_ranges P) {r \<in> set rs. owned_request foreign r}"
    using merged by (simp only: P(2) so(1))
  have owned_bound: "bound_to_owned ps r (binding_of r (phys_start p) (phys_end p) (req_source r))"
    if "r \<in> set so" "p \<in> set ps" "request_bytes r \<subseteq> range_bytes p" for r p
  proof -
    have "valid_request r" using valid that(1) by (rule bspec)
    from merged_flags [OF merged that(1) this that(2,3)] that show ?thesis
      unfolding bound_to_owned_def by blast
  qed
  show "\<exists>r \<in> set rs. bound_to_foreign foreign r b \<or>
      (owned_request foreign r \<and> bound_to_owned (physical_ranges P) r b)" if "b \<in> set (plan_bindings P)" for b
  proof -
    from that have "b \<in> set bs \<or> b \<in> set (bind_owned ps so)" by (simp add: P(3))
    then show ?thesis
    proof
      assume "b \<in> set bs"
      with foreign_bound show ?thesis by blast
    next
      assume "b \<in> set (bind_owned ps so)"
      with sound obtain r p where r: "r \<in> set so" "p \<in> set ps" "request_bytes r \<subseteq> range_bytes p"
        "b = binding_of r (phys_start p) (phys_end p) (req_source r)" by blast
      from owned_bound [OF r(1-3)] have "bound_to_owned (physical_ranges P) r b" by (simp only: r(4) P(2))
      with r(1) so(1) show ?thesis by blast
    qed
  qed
  show "\<exists>b \<in> set (plan_bindings P). bound_to_owned (physical_ranges P) r b"
    if "r \<in> set rs" "owned_request foreign r" for r
  proof -
    have r: "r \<in> set so" using so(1) that by blast
    with complete obtain p where p: "p \<in> set ps" "request_bytes r \<subseteq> range_bytes p"
      "binding_of r (phys_start p) (phys_end p) (req_source r) \<in> set (bind_owned ps so)" by blast
    from p(3) have "binding_of r (phys_start p) (phys_end p) (req_source r) \<in> set (plan_bindings P)"
      by (simp add: P(3))
    with owned_bound [OF r p(1,2)] show ?thesis unfolding P(2) by blast
  qed
qed

definition sample_owner :: "u32 \<Rightarrow> WatchpointOwner" where
  "sample_owner i = \<lparr>owner_kind = ProfileOwner, owner_index = i\<rparr>"

definition sample_request :: "u32 \<Rightarrow> u32 \<Rightarrow> u32 \<Rightarrow> MemoryAccess \<Rightarrow> WatchpointRequest" where
  "sample_request i a n acc = \<lparr>req_owner = sample_owner i, req_address = a, req_size = n, req_access = acc,
     req_source = StaticSource, req_generation = 0\<rparr>"

definition sample_requests :: "WatchpointRequest list" where
  "sample_requests = [sample_request 1 0x102 4 ReadAccess, sample_request 2 0x100 4 WriteAccess,
     sample_request 3 0x200 0 WriteAccess, sample_request 4 0x300 4 ReadWriteAccess]"

definition sample_foreign :: "WatchpointForeignRange list" where
  "sample_foreign = [\<lparr>foreign_start = 0x2F0, foreign_end = 0x3FF\<rparr>, \<lparr>foreign_start = 0x300, foreign_end = 0x30F\<rparr>]"

lemmas sample_plan_defs = sample_requests_def sample_foreign_def sample_request_def range_end_def best_cover_def
  better_cover_def covers_def overlaps_def partial_same_start_def failure_of_def binding_of_def

lemma sample_sort_out: "fst (sort_out sample_foreign sample_requests) =
    [failure_of (sample_request 3 0x200 0 WriteAccess) InvalidRange]"
  by (simp add: sample_plan_defs)

lemma sample_owned: "{r \<in> set sample_requests. owned_request sample_foreign r} =
    {sample_request 1 0x102 4 ReadAccess, sample_request 2 0x100 4 WriteAccess}"
proof -
  have "owned_request sample_foreign (sample_request 1 0x102 4 ReadAccess)"
    "owned_request sample_foreign (sample_request 2 0x100 4 WriteAccess)"
    "\<not> owned_request sample_foreign (sample_request 3 0x200 0 WriteAccess)"
    "\<not> owned_request sample_foreign (sample_request 4 0x300 4 ReadWriteAccess)"
    by (simp_all add: sample_plan_defs owned_request_def request_end_def)
  then show ?thesis unfolding sample_requests_def by auto
qed

lemma sample_bytes: "request_bytes (sample_request 1 0x102 4 ReadAccess) = {0x102 .. 0x105}"
    "request_bytes (sample_request 2 0x100 4 WriteAccess) = {0x100 .. 0x103}"
  by (simp_all add: request_bytes_def request_end_def sample_request_def range_end_def)

text \<open>
  C19. The plan accounts for every request once, by a binding or a failure. A failure is a request
  whose range is empty or leaves the address space, or one that starts where a shorter foreign range
  starts and no foreign range covers. A binding is to the smallest foreign range that covers the
  request, or, where none does, to a physical range of the plan that covers it and watches for its
  kind of access.
\<close>

theorem plan_accounts_for_every_request:
  "let P = plan_watchpoint_bindings rs foreign in
    image_mset bind_owner (mset (plan_bindings P)) + image_mset fail_owner (mset (plan_failures P))
      = image_mset req_owner (mset rs) \<and>
    (\<forall>f \<in> set (plan_failures P). \<exists>r \<in> set rs. justly_failed foreign r f) \<and>
    (\<forall>b \<in> set (plan_bindings P). \<exists>r \<in> set rs. bound_to_foreign foreign r b \<or>
       (owned_request foreign r \<and> bound_to_owned (physical_ranges P) r b))"
  unfolding Let_def using plan_result(1-3) [OF refl] by (intro conjI ballI)

theorem plan_accounts_for_every_request_witness:
  "let P = plan_watchpoint_bindings sample_requests sample_foreign in
    length (plan_failures P) = 1 \<and> length (plan_bindings P) = 3"
proof -
  let ?P = "plan_watchpoint_bindings sample_requests sample_foreign"
  have "plan_failures ?P = fst (sort_out sample_foreign sample_requests)"
    by (simp add: plan_watchpoint_bindings_def Let_def split: prod.split)
  then have "length (plan_failures ?P) = 1" by (simp add: sample_sort_out)
  moreover have "size (image_mset bind_owner (mset (plan_bindings ?P)) +
      image_mset fail_owner (mset (plan_failures ?P))) = length sample_requests"
    using plan_accounts_for_every_request [of sample_requests sample_foreign]
    by (simp only: Let_def size_image_mset size_mset)
  ultimately show ?thesis by (simp add: Let_def sample_requests_def)
qed

text \<open>
  C20. The physical ranges are disjoint, ascending and not foreign; together they watch exactly the
  bytes of the owned requests, no byte more; a range watches for reads, or for writes, exactly if a
  request that starts in it asks for them.
\<close>

theorem physical_ranges_watch_exactly_the_requests:
  "let P = plan_watchpoint_bindings rs foreign; D = {r \<in> set rs. owned_request foreign r} in
    sorted_wrt (\<lambda>p q. phys_end p < phys_start q) (physical_ranges P) \<and>
    (\<Union>p \<in> set (physical_ranges P). range_bytes p) = (\<Union>r \<in> D. request_bytes r) \<and>
    (\<forall>p \<in> set (physical_ranges P). phys_start p \<le> phys_end p \<and> \<not> phys_foreign p \<and>
       (phys_read p \<longleftrightarrow> (\<exists>r \<in> D. reads (req_access r) \<and> req_address r \<in> range_bytes p)) \<and>
       (phys_write p \<longleftrightarrow> (\<exists>r \<in> D. writes (req_access r) \<and> req_address r \<in> range_bytes p)))"
  unfolding Let_def
  using plan_result(4) [OF refl, of rs foreign, unfolded merged_def] by blast

theorem physical_ranges_watch_exactly_the_requests_witness:
  "let ps = physical_ranges (plan_watchpoint_bindings sample_requests sample_foreign) in
    (\<Union>p \<in> set ps. range_bytes p) = {0x102 .. 0x105} \<union> {0x100 .. 0x103}"
  using physical_ranges_watch_exactly_the_requests [of sample_requests sample_foreign]
  by (simp add: Let_def sample_owned sample_bytes)

section \<open>The registry\<close>

definition registry_inv :: "ProbeWatchpointRegistry \<Rightarrow> bool" where
  "registry_inv R \<longleftrightarrow> distinct (map req_owner (requests R)) \<and>
     (\<forall>r \<in> set (requests R). valid_request r) \<and>
     distinct (map bind_owner (bindings R)) \<and> failures R = []"

datatype registry_op =
    Upsert WatchpointRequest
  | Release WatchpointOwner
  | ReleaseKind WatchpointOwnerKind
  | ClearRequests
  | Reconcile "WatchpointForeignRange list"
  | ReleaseAll

fun registry_step :: "registry_op \<Rightarrow> ProbeWatchpointRegistry \<Rightarrow> ProbeWatchpointRegistry" where
  "registry_step (Upsert r) R = snd (upsert r R)"
| "registry_step (Release ow) R = snd (release ow R)"
| "registry_step (ReleaseKind k) R = snd (release_kind k R)"
| "registry_step ClearRequests R = clear_requests R"
| "registry_step (Reconcile foreign) R = snd (reconcile foreign R)"
| "registry_step ReleaseAll R = release_all R"

lemma registry_plan:
  assumes "registry_inv R" and "plan_watchpoint_bindings (requests R) [] = P"
  shows "plan_failures P = []" and "distinct (map bind_owner (plan_bindings P))"
    and "\<And>r. r \<in> set (requests R) \<Longrightarrow> \<exists>b \<in> set (plan_bindings P). bound_to_owned (physical_ranges P) r b"
    and "set (map bind_owner (plan_bindings P)) = set (map req_owner (requests R))"
proof -
  have owned: "owned_request [] r" if "r \<in> set (requests R)" for r
    using assms(1) that by (simp add: registry_inv_def owned_request_def best_cover_none partial_same_start_def)
  have "\<not> justly_failed [] r f" if "r \<in> set (requests R)" for r f
    using owned [OF that] by (simp add: justly_failed_def owned_request_def)
  with plan_result(2) [OF assms(2)] show none: "plan_failures P = []"
    by (metis all_not_in_conv set_empty)
  from plan_result(1) [OF assms(2)] none
  have owners: "mset (map bind_owner (plan_bindings P)) = mset (map req_owner (requests R))" by simp
  from assms(1) have "distinct (map req_owner (requests R))" by (simp add: registry_inv_def)
  with owners show "distinct (map bind_owner (plan_bindings P))"
    by (metis mset_eq_imp_distinct_iff)
  show "set (map bind_owner (plan_bindings P)) = set (map req_owner (requests R))"
    using owners by (rule mset_eq_setD)
  show "\<exists>b \<in> set (plan_bindings P). bound_to_owned (physical_ranges P) r b"
    if "r \<in> set (requests R)" for r
    using plan_result(5) [OF assms(2) that owned [OF that]] .
qed

lemma upsert_cases:
  assumes "valid_request r"
  obtains "List.find (\<lambda>q. req_owner q = req_owner r) (requests R) = None"
      "upsert r R = (True, R\<lparr>requests := requests R @ [r\<lparr>req_generation := next_binding_generation R\<rparr>],
        next_binding_generation := next_binding_generation R + 1\<rparr>)"
    | pre q post where "requests R = pre @ q # post" "req_owner q = req_owner r"
      "upsert r R = (True, R\<lparr>requests := pre @ r\<lparr>req_generation := next_binding_generation R\<rparr> # post,
        next_binding_generation := next_binding_generation R + 1\<rparr>)"
proof (cases "List.find (\<lambda>q. req_owner q = req_owner r) (requests R)")
  case None
  with assms that(1) show thesis by (auto simp: upsert_def Let_def)
next
  case (Some q)
  from find_split [OF Some] obtain pre post where
    "requests R = pre @ q # post" "req_owner q = req_owner r"
    "\<And>f. update_first (\<lambda>q. req_owner q = req_owner r) f (requests R) = pre @ f q # post" by metis
  with assms Some that(2) show thesis by (auto simp: upsert_def Let_def)
qed

lemma release_cases:
  obtains "List.find (\<lambda>q. req_owner q = ow) (requests R) = None" "release ow R = (False, R)"
    | pre q post where "requests R = pre @ q # post" "req_owner q = ow"
      "release ow R = (True, R\<lparr>requests := pre @ post\<rparr>)"
proof (cases "List.find (\<lambda>q. req_owner q = ow) (requests R)")
  case None
  with that(1) show thesis by (auto simp: release_def)
next
  case (Some q)
  from find_split [OF Some] obtain pre post where
    "requests R = pre @ q # post" "req_owner q = ow"
    "remove_first (\<lambda>q. req_owner q = ow) (requests R) = pre @ post" by metis
  with Some that(2) show thesis by (auto simp: release_def)
qed

lemma upsert_inv: "registry_inv R \<Longrightarrow> registry_inv (snd (upsert r R))"
proof (cases "valid_request r")
  case True
  assume inv: "registry_inv R"
  from upsert_cases [OF True, of R] show ?thesis
    by cases (use inv True in \<open>auto simp: registry_inv_def find_None_iff\<close>)
qed (simp add: upsert_def)

lemma release_inv: "registry_inv R \<Longrightarrow> registry_inv (snd (release ow R))"
  by (rule release_cases [of ow R]) (auto simp: registry_inv_def)

lemma reconcile_inv: "registry_inv R \<Longrightarrow> registry_inv (snd (reconcile foreign R))"
  using registry_plan(2) [OF _ refl] by (auto simp: reconcile_def registry_inv_def Let_def)

lemma registry_step_inv: "registry_inv R \<Longrightarrow> registry_inv (registry_step x R)"
proof -
  assume inv: "registry_inv R"
  then have "registry_inv (clear_requests R)" "registry_inv (release_all R)"
      "registry_inv (snd (release_kind k R))" for k
    by (auto simp: clear_requests_def release_all_def release_kind_def registry_inv_def Let_def
        distinct_map_filter)
  with inv show ?thesis by (cases x) (simp_all add: upsert_inv release_inv reconcile_inv)
qed

interpretation registry_machine: invariant_machine registry_step registry_inv
  by unfold_locales (rule registry_step_inv)

lemma new_registry_inv: "registry_inv new_registry"
  by (simp add: registry_inv_def new_registry_def)

lemma registry_reachable_inv: "reachable_from registry_step new_registry R \<Longrightarrow> registry_inv R"
  by (rule registry_machine.reachable_inv [OF _ new_registry_inv])


text \<open>
  In every reachable registry, reconciliation without unmanaged ranges succeeds: it keeps the
  requests, and afterwards exactly the requested owners have a binding, which is their own
  request's (address, size and generation) and whose physical range is one of the registry's,
  covers the request and watches for its accesses. With an unmanaged range it fails and changes
  nothing.
\<close>

lemma reconciled:
  assumes "registry_inv R"
  shows "fst (reconcile [] R) \<and> requests (snd (reconcile [] R)) = requests R \<and>
    (\<forall>ow. binding_for ow (snd (reconcile [] R)) \<noteq> None \<longleftrightarrow> ow \<in> set (map req_owner (requests R))) \<and>
    (\<forall>r \<in> set (requests R). \<exists>b. binding_for (req_owner r) (snd (reconcile [] R)) = Some b \<and>
       bound_to_owned (owned_physical (snd (reconcile [] R))) r b) \<and>
    (\<Union>p \<in> set (owned_physical (snd (reconcile [] R))). range_bytes p)
      = (\<Union>r \<in> set (requests R). request_bytes r)"
proof -
  let ?P = "plan_watchpoint_bindings (requests R) []"
  note plan = registry_plan [OF assms refl]
  have R': "reconcile [] R = (True, R\<lparr>owned_physical := physical_ranges ?P, bindings := plan_bindings ?P,
      failures := []\<rparr>)"
    using plan(1) by (simp add: reconcile_def Let_def)
  have lookup: "binding_for ow (snd (reconcile [] R)) = Some b \<longleftrightarrow> b \<in> set (plan_bindings ?P) \<and> bind_owner b = ow"
    for ow b
    using find_key_iff [OF plan(2)] by (simp add: R' binding_for_def)
  have "binding_for ow (snd (reconcile [] R)) \<noteq> None \<longleftrightarrow> ow \<in> set (map bind_owner (plan_bindings ?P))" for ow
    using lookup by (auto simp: image_iff)
  moreover have "\<exists>b. binding_for (req_owner r) (snd (reconcile [] R)) = Some b \<and>
      bound_to_owned (physical_ranges ?P) r b" if "r \<in> set (requests R)" for r
  proof -
    from plan(3) [OF that] obtain b where "b \<in> set (plan_bindings ?P)" "bound_to_owned (physical_ranges ?P) r b"
      by blast
    moreover from this(2) have "bind_owner b = req_owner r" by (auto simp: bound_to_owned_def)
    ultimately show ?thesis using lookup by blast
  qed
  moreover have "{r \<in> set (requests R). owned_request [] r} = set (requests R)"
    using assms by (auto simp: registry_inv_def owned_request_def best_cover_none partial_same_start_def)
  ultimately show ?thesis
    using plan(4) plan_result(4) [OF refl, of "requests R" "[]"] by (simp add: R' merged_def)
qed

theorem reconcile_binds_every_request:
  assumes "reachable_from registry_step new_registry R"
  shows "let (ok, R') = reconcile foreign R in
    if foreign \<noteq> [] then \<not> ok \<and> R' = R
    else ok \<and> requests R' = requests R \<and>
      (\<forall>ow. binding_for ow R' \<noteq> None \<longleftrightarrow> ow \<in> set (map req_owner (requests R))) \<and>
      (\<forall>r \<in> set (requests R). \<exists>b. binding_for (req_owner r) R' = Some b \<and>
         bound_to_owned (owned_physical R') r b) \<and>
      (\<Union>p \<in> set (owned_physical R'). range_bytes p) = (\<Union>r \<in> set (requests R). request_bytes r)"
  using reconciled [OF registry_reachable_inv [OF assms]]
  by (cases "foreign = []") (auto simp: reconcile_def case_prod_beta)

definition sample_registry_ops :: "registry_op list" where
  "sample_registry_ops = [Upsert (sample_request 1 0x102 4 ReadAccess), Upsert (sample_request 2 0x100 4 WriteAccess)]"

definition sample_watch_registry :: ProbeWatchpointRegistry where
  "sample_watch_registry = fold registry_step sample_registry_ops new_registry"

lemma sample_watch_reachable: "reachable_from registry_step new_registry sample_watch_registry"
  unfolding sample_watch_registry_def by (rule reachable_fold)

lemma sample_watch_requests: "requests sample_watch_registry =
    [(sample_request 1 0x102 4 ReadAccess)\<lparr>req_generation := 1\<rparr>,
     (sample_request 2 0x100 4 WriteAccess)\<lparr>req_generation := 2\<rparr>]"
  by (simp add: sample_watch_registry_def sample_registry_ops_def new_registry_def upsert_def
      sample_request_def sample_owner_def range_end_def)

theorem reconcile_binds_every_request_witness:
  "let (ok, R') = reconcile [] sample_watch_registry in
    ok \<and> binding_for (sample_owner 1) R' \<noteq> None \<and> binding_for (sample_owner 3) R' = None"
proof -
  obtain ok R' where R': "reconcile [] sample_watch_registry = (ok, R')" by fastforce
  have owners: "set (map req_owner (requests sample_watch_registry)) = {sample_owner 1, sample_owner 2}"
    by (simp add: sample_watch_requests sample_request_def)
  have "sample_owner 3 \<notin> {sample_owner 1, sample_owner 2}" by (simp add: sample_owner_def)
  with reconcile_binds_every_request [OF sample_watch_reachable, of "[]", unfolded R' owners]
  show ?thesis by (simp add: R') (metis not_None_eq)
qed

text \<open>The registry as a map from owners to what they asked for.\<close>

definition asked :: "WatchpointRequest \<Rightarrow> u32 \<times> u32 \<times> MemoryAccess \<times> WatchpointBindingSource" where
  "asked r = (req_address r, req_size r, req_access r, req_source r)"

definition registry_map ::
  "ProbeWatchpointRegistry \<Rightarrow> WatchpointOwner \<Rightarrow> (u32 \<times> u32 \<times> MemoryAccess \<times> WatchpointBindingSource) option" where
  "registry_map R = map_of (map (\<lambda>r. (req_owner r, asked r)) (requests R))"

lemma asked_generation [simp]: "asked (r\<lparr>req_generation := g\<rparr>) = asked r"
  by (simp add: asked_def)

abbreviation asked_map :: "WatchpointRequest list \<Rightarrow> WatchpointOwner \<Rightarrow>
    (u32 \<times> u32 \<times> MemoryAccess \<times> WatchpointBindingSource) option" where
  "asked_map rs \<equiv> map_of (map (\<lambda>r. (req_owner r, asked r)) rs)"

lemma asked_map_none: "ow \<notin> req_owner ` set rs \<Longrightarrow> asked_map rs ow = None"
  by (auto simp: map_of_eq_None_iff)

lemma asked_map_middle:
  assumes "req_owner q \<notin> req_owner ` set pre" and "req_owner q \<notin> req_owner ` set post"
  shows "asked_map (pre @ q # post) = (asked_map (pre @ post))(req_owner q \<mapsto> asked q)"
    and "(asked_map (pre @ post)) (req_owner q) = None"
  using asked_map_none [OF assms(1)] asked_map_none [OF assms(2)]
  by (auto simp: fun_eq_iff map_add_def split: option.split)

lemma upsert_map:
  assumes "registry_inv R" and "valid_request r"
  shows "fst (upsert r R) \<and> registry_map (snd (upsert r R)) = (registry_map R)(req_owner r \<mapsto> asked r) \<and>
    owned_physical (snd (upsert r R)) = owned_physical R \<and> bindings (snd (upsert r R)) = bindings R"
  using upsert_cases [OF assms(2), of R]
proof cases
  case 1
  let ?r = "r\<lparr>req_generation := next_binding_generation R\<rparr>"
  have "req_owner ?r \<notin> req_owner ` set (requests R)" using 1(1) by (auto simp: find_None_iff)
  from asked_map_middle(1) [OF this, of "[]"] 1(2) show ?thesis
    by (simp add: registry_map_def)
next
  case (2 pre q post)
  let ?r = "r\<lparr>req_generation := next_binding_generation R\<rparr>"
  have fresh: "req_owner ?r \<notin> req_owner ` set pre" "req_owner ?r \<notin> req_owner ` set post"
    using 2 assms(1) by (auto simp: registry_inv_def)
  moreover have "req_owner q = req_owner ?r" using 2 by simp
  ultimately have "asked_map (pre @ ?r # post) = (asked_map (pre @ q # post))(req_owner r \<mapsto> asked r)"
    using asked_map_middle(1) [of ?r pre post] asked_map_middle(1) [of q pre post] by simp
  with 2 show ?thesis by (simp add: registry_map_def)
qed

lemma release_map:
  assumes "registry_inv R"
  shows "fst (release ow R) = (registry_map R ow \<noteq> None) \<and>
    registry_map (snd (release ow R)) = (registry_map R)(ow := None) \<and>
    owned_physical (snd (release ow R)) = owned_physical R \<and> bindings (snd (release ow R)) = bindings R"
proof (cases rule: release_cases [of ow R])
  case 1
  then have "registry_map R ow = None"
    by (auto simp: registry_map_def find_None_iff map_of_eq_None_iff)
  with 1 show ?thesis by (auto simp: fun_eq_iff)
next
  case (2 pre q post)
  then have "req_owner q \<notin> req_owner ` set pre" "req_owner q \<notin> req_owner ` set post"
    using assms by (auto simp: registry_inv_def)
  from asked_map_middle [OF this] have
    "asked_map (pre @ q # post) ow \<noteq> None" "asked_map (pre @ post) = (asked_map (pre @ q # post))(ow := None)"
    using 2(2) by (auto simp: fun_eq_iff)
  with 2 show ?thesis by (simp add: registry_map_def)
qed

lemma release_kind_map:
  "registry_map (snd (release_kind k R)) ow = (if owner_kind ow = k then None else registry_map R ow) \<and>
    (fst (release_kind k R) \<longleftrightarrow> (\<exists>ow. owner_kind ow = k \<and> registry_map R ow \<noteq> None))"
proof -
  have "map_of (map (\<lambda>r. (req_owner r, asked r)) (filter (\<lambda>r. owner_kind (req_owner r) \<noteq> k) rs)) ow =
      (if owner_kind ow = k then None else map_of (map (\<lambda>r. (req_owner r, asked r)) rs) ow)" for rs
    by (induction rs) auto
  moreover have "length (filter (\<lambda>r. owner_kind (req_owner r) \<noteq> k) rs) \<noteq> length rs \<longleftrightarrow>
      (\<exists>r \<in> set rs. owner_kind (req_owner r) = k)" for rs :: "WatchpointRequest list"
    by (induction rs) (auto simp: less_Suc_eq_le [symmetric] le_less_trans [OF length_filter_le] nat_neq_iff)
  moreover have "(\<exists>r \<in> set (requests R). owner_kind (req_owner r) = k) \<longleftrightarrow>
      (\<exists>ow. owner_kind ow = k \<and> registry_map R ow \<noteq> None)"
    by (auto simp: registry_map_def map_of_eq_None_iff image_iff)
  ultimately show ?thesis by (simp add: registry_map_def release_kind_def Let_def)
qed

text \<open>
  C21. The registry implements a finite map from owners to requests: \<open>upsert\<close> of a valid request
  enters it, of an invalid one changes nothing and says so; \<open>release\<close> removes its owner and tells
  whether it was there; \<open>release_kind\<close> removes every owner of the kind. None of them touches the
  physical ranges or the bindings, which wait for reconciliation.
\<close>

theorem registry_implements_a_map:
  assumes "reachable_from registry_step new_registry R"
  shows "(if valid_request r
      then fst (upsert r R) \<and> registry_map (snd (upsert r R)) = (registry_map R)(req_owner r \<mapsto> asked r)
      else upsert r R = (False, R)) \<and>
    fst (release ow R) = (registry_map R ow \<noteq> None) \<and>
    registry_map (snd (release ow R)) = (registry_map R)(ow := None) \<and>
    registry_map (snd (release_kind k R)) = (\<lambda>ow. if owner_kind ow = k then None else registry_map R ow) \<and>
    fst (release_kind k R) = (\<exists>ow. owner_kind ow = k \<and> registry_map R ow \<noteq> None) \<and>
    (\<forall>R' \<in> {snd (upsert r R), snd (release ow R), snd (release_kind k R)}.
       owned_physical R' = owned_physical R \<and> bindings R' = bindings R)"
proof -
  note inv = registry_reachable_inv [OF assms]
  have "owned_physical (snd (release_kind k R)) = owned_physical R"
    "bindings (snd (release_kind k R)) = bindings R" by (simp_all add: release_kind_def Let_def)
  moreover have "\<not> valid_request r \<Longrightarrow> upsert r R = (False, R)" by (simp add: upsert_def)
  ultimately show ?thesis
    using upsert_map [OF inv, of r] release_map [OF inv, of ow] release_kind_map [of k R]
    by (cases "valid_request r") (auto simp: fun_eq_iff)
qed

theorem registry_implements_a_map_witness:
  "registry_map (snd (release (sample_owner 1) sample_watch_registry)) (sample_owner 1) = None \<and>
   registry_map (snd (upsert (sample_request 3 0x200 8 WriteAccess) sample_watch_registry)) (sample_owner 3)
     = Some (0x200, 8, WriteAccess, StaticSource)"
proof -
  have valid: "valid_request (sample_request 3 0x200 8 WriteAccess)"
    by (simp add: sample_request_def range_end_def)
  from registry_implements_a_map [OF sample_watch_reachable, of "sample_request 3 0x200 8 WriteAccess" "sample_owner 1"]
    valid show ?thesis by (auto simp: asked_def sample_request_def)
qed

text \<open>Generations, as long as the counter does not wrap around.\<close>

definition generations_inv :: "nat \<Rightarrow> ProbeWatchpointRegistry \<Rightarrow> bool" where
  "generations_inv n R \<longleftrightarrow> 0 < next_binding_generation R \<and> unat (next_binding_generation R) \<le> Suc n \<and>
     distinct (map req_generation (requests R)) \<and>
     (\<forall>r \<in> set (requests R). 0 < req_generation r \<and> req_generation r < next_binding_generation R)"

lemma generations_step:
  assumes "generations_inv n R" and "n + 2 < 2 ^ 64"
  shows "generations_inv (Suc n) (registry_step x R)"
proof -
  have "unat (next_binding_generation R) + 1 < 2 ^ 64" using assms by (auto simp: generations_inv_def)
  then have succ: "unat (next_binding_generation R + 1) = Suc (unat (next_binding_generation R))"
    by (simp add: unat_word_ariths(1))
  then have less: "next_binding_generation R < next_binding_generation R + 1" "0 < next_binding_generation R + 1"
    by (simp_all add: word_less_nat_alt)
  have trans: "g < next_binding_generation R + 1" if "g < next_binding_generation R" for g
    using that less(1) by (rule less_trans)
  have same: "generations_inv (Suc n) R'" if "next_binding_generation R' = next_binding_generation R"
      "requests R' = filter P (requests R)" for R' P
    using that assms(1) by (auto simp: generations_inv_def distinct_map_filter)
  show ?thesis
  proof (cases x)
    case (Upsert r)
    show ?thesis
    proof (cases "valid_request r")
      case True
      from upsert_cases [OF True, of R] show ?thesis
        by cases (use Upsert assms(1) succ less trans in
          \<open>auto simp: generations_inv_def image_iff\<close>)
    next
      case False
      then have "upsert r R = (False, R)" by (simp add: upsert_def)
      with same [of R "\<lambda>_. True"] Upsert show ?thesis by simp
    qed
  next
    case (Release ow)
    show ?thesis
    proof (cases rule: release_cases [of ow R])
      case 1
      with same [of R "\<lambda>_. True"] Release show ?thesis by simp
    next
      case 2
      with Release assms(1) show ?thesis by (auto simp: generations_inv_def)
    qed
  next
    case (ReleaseKind k)
    with same [of "snd (release_kind k R)"] show ?thesis by (simp add: release_kind_def Let_def)
  next
    case ClearRequests
    with same [of "clear_requests R" "\<lambda>_. False"] show ?thesis by (simp add: clear_requests_def)
  next
    case (Reconcile foreign)
    with same [of "snd (reconcile foreign R)" "\<lambda>_. True"] show ?thesis
      by (simp add: reconcile_def Let_def)
  next
    case ReleaseAll
    with same [of "release_all R" "\<lambda>_. False"] show ?thesis by (simp add: release_all_def)
  qed
qed

text \<open>
  Binding generations tell requests apart: after fewer than \<open>2 ^ 64 - 2\<close> operations no two requests
  share a generation, and every generation is nonzero and older than the next one, so a request
  that replaces another has a generation of its own.
\<close>

theorem binding_generations_are_fresh:
  assumes "length ops + 2 < 2 ^ 64"
  shows "let R = fold registry_step ops new_registry in
    distinct (map req_generation (requests R)) \<and>
    (\<forall>r \<in> set (requests R). 0 < req_generation r \<and> req_generation r < next_binding_generation R)"
proof -
  have "generations_inv (length ops) (fold registry_step ops new_registry)"
    using assms
  proof (induction ops rule: rev_induct)
    case Nil
    then show ?case by (simp add: generations_inv_def new_registry_def)
  next
    case (snoc x ops)
    then show ?case using generations_step [of "length ops" _ x] by simp
  qed
  then show ?thesis by (simp add: generations_inv_def Let_def)
qed

theorem binding_generations_are_fresh_witness:
  "map req_generation (requests (fold registry_step sample_registry_ops new_registry)) = [1, 2] \<and>
   distinct (map req_generation (requests (fold registry_step sample_registry_ops new_registry)))"
proof -
  have "length sample_registry_ops + 2 < 2 ^ 64" by (simp add: sample_registry_ops_def)
  from binding_generations_are_fresh [OF this] show ?thesis
    using sample_watch_requests by (simp add: Let_def sample_watch_registry_def)
qed

end
