(* ===== verification/InputArbiter.thy ===== *)
theory InputArbiter
  imports SavorPrelude
begin

text \<open>
  The arbiter of the guest's controller input (SavorCore/Runner/Runtime/Services/Input/InputArbiter.h
  and .cpp): leases that suspend one another, the bindings that say which input state a lease has
  published, and the relationships by which an execution waits for the guest to observe it. The
  input backend is an argument, a record of its operations on a state of its own, after
  IInputBackendPort.h.

  An identity is a number, 0 for none; an actor thread is a number; a failure's text is a
  constructor. A backend that throws is left out.
\<close>

section \<open>Input frames and the backend port\<close>

record GCInputFrame =
  buttons :: u16
  main_x :: u8
  main_y :: u8
  c_x :: u8
  c_y :: u8
  trig_l :: u8
  trig_r :: u8

definition NeutralFrame :: GCInputFrame where
  "NeutralFrame = \<lparr>buttons = 0, main_x = 128, main_y = 128, c_x = 128, c_y = 128, trig_l = 0, trig_r = 0\<rparr>"

record BackendInputPublication =
  pub_ok :: bool
  pub_epoch :: u64

record BackendInputPoll =
  poll_ok :: bool
  poll_epoch :: u64
  poll_callbacks :: u32
  poll_a_callbacks :: u32
  poll_frame :: GCInputFrame

record 'b InputBackendPort =
  port_available :: "u8 \<Rightarrow> 'b \<Rightarrow> bool"
  port_publish :: "u8 \<Rightarrow> GCInputFrame \<Rightarrow> 'b \<Rightarrow> BackendInputPublication \<times> 'b"
  port_poll :: "u8 \<Rightarrow> 'b \<Rightarrow> BackendInputPoll"

section \<open>Requests, states and receipts\<close>

datatype InputBorrowPolicy = PreserveHeldUntilBorrowerApplies | RequireStableNeutral

datatype InputLeaseStatus = Rejected | Active | Suspended | Released | Invalidated

datatype InputState = Neutral | Held | DeliveryPending | NeutralTransitionPending

datatype InputBindingKind = StableNeutral | HeldBinding | Delivery | NeutralTransition

datatype InputArbiterErrorCode =
    NoError
  | WrongThread
  | Stopped
  | InvalidArgument
  | WorksetEpochMismatch
  | BackendFailure

datatype InputProblem =
    OffActorThread
  | ShutDown
  | OwnerAndEpochRequired
  | PortUnavailable
  | StaleEpoch
  | ActiveLeaseMissing
  | ActiveLeaseUnsuspendable
  | PriorityInsufficient
  | ParentNotActive
  | BorrowingForbidden
  | ParentNotStableNeutral
  | LeaseNotActive
  | DeliveryMustComplete
  | TransitionMustBeObserved
  | TransitionBindingMissing
  | DeliveryNeedsNeutral
  | NotTheActiveDelivery
  | NotObserved
  | NotTheCurrentState
  | StaleLease
  | NotTheActiveLease
  | EpochRequired
  | EpochFixed
  | LeasesWithoutOwner
  | RelationshipUnknown
  | RelationshipStaleEpoch
  | RelationshipOutdated
  | BindingUnavailable
  | PollFailed
  | BackendRefused
  | ResumedNeutral

record InputLeaseRequest =
  req_owner :: u64
  req_port :: u8
  req_priority :: "32 word"
  req_suspendable :: bool
  req_borrowable :: bool
  req_movie_exclusive :: bool
  req_borrow_policy :: InputBorrowPolicy

record InputLeaseReceipt =
  lr_ok :: bool
  lr_status :: InputLeaseStatus
  lr_lease :: u64
  lr_epoch :: u64
  lr_message :: "InputProblem option"
  lr_error :: InputArbiterErrorCode

record InputExecutionBindingReceipt =
  br_ok :: bool
  br_binding :: u64
  br_lease :: u64
  br_epoch :: u64
  br_generation :: u64
  br_frame :: GCInputFrame
  br_kind :: InputBindingKind
  br_requires_observation :: bool
  br_message :: "InputProblem option"
  br_error :: InputArbiterErrorCode
  br_publication :: u64

record InputDeliveryReceipt =
  dr_ok :: bool
  dr_delivery :: u64
  dr_binding :: u64
  dr_lease :: u64
  dr_publication :: u64
  dr_poll :: u64
  dr_epoch :: u64
  dr_generation :: u64
  dr_callbacks :: u32
  dr_frame :: GCInputFrame
  dr_message :: "InputProblem option"
  dr_error :: InputArbiterErrorCode

record InputLeaseCloseReceipt =
  cr_ok :: bool
  cr_status :: InputLeaseStatus
  cr_lease :: u64
  cr_neutral_publication :: u64
  cr_resumed :: "u64 option"
  cr_epoch :: u64
  cr_message :: "InputProblem option"
  cr_error :: InputArbiterErrorCode

record InputArbiterOperationReceipt =
  or_ok :: bool
  or_error :: InputArbiterErrorCode
  or_message :: "InputProblem option"

record InputExecutionRelationshipReceipt =
  rr_ok :: bool
  rr_relationship :: u64
  rr_epoch :: u64
  rr_message :: "InputProblem option"
  rr_error :: InputArbiterErrorCode

record InputArbiterShutdownReceipt =
  sr_ok :: bool
  sr_cleanup_complete :: bool
  sr_taint_required :: bool
  sr_neutral_publication :: u64
  sr_epoch :: u64
  sr_message :: "InputProblem option"
  sr_error :: InputArbiterErrorCode

record InputArbiterSnapshot =
  sn_epoch :: u64
  sn_active :: "u64 option"
  sn_suspended :: nat
  sn_leases :: nat
  sn_bindings :: nat
  sn_relationships :: nat
  sn_state :: InputState
  sn_movie :: bool
  sn_stopped :: bool

record InputExecutionBindingEvidence =
  ev_lease :: u64
  ev_binding :: u64
  ev_publication :: u64
  ev_epoch :: u64
  ev_generation :: u64
  ev_frame :: GCInputFrame

text \<open>\<open>None\<close> is success.\<close>

type_synonym RelationshipOutcome = "InputProblem option"

record InputExecutionRelationshipInspection =
  in_ok :: bool
  in_requires_observation :: bool
  in_observed :: bool
  in_epoch :: u64
  in_callbacks :: u32
  in_a_callbacks :: u32
  in_frame :: GCInputFrame
  in_message :: "InputProblem option"

record LeaseState =
  ls_request :: InputLeaseRequest
  ls_id :: u64
  ls_epoch :: u64
  ls_status :: InputLeaseStatus
  ls_state :: InputState
  ls_generation :: u64
  ls_current :: "u64 option"
  ls_backend_neutral :: bool
  ls_mutated :: bool

record BindingState =
  bs_id :: u64
  bs_lease :: u64
  bs_epoch :: u64
  bs_generation :: u64
  bs_frame :: GCInputFrame
  bs_kind :: InputBindingKind
  bs_publication :: "u64 option"
  bs_publication_epoch :: u64
  bs_requires_observation :: bool
  bs_observed :: bool
  bs_poll :: u64
  bs_callbacks :: u32
  bs_delivery :: "u64 option"

record RelationshipState =
  ir_id :: u64
  ir_binding :: u64
  ir_lease :: u64
  ir_epoch :: u64
  ir_generation :: u64

record PublishedState =
  ps_publication :: u64
  ps_epoch :: u64

record InputArbiter =
  owner_thread :: thread_id
  arb_epoch :: u64
  next_lease :: u64
  next_binding :: u64
  next_publication :: u64
  next_poll_receipt :: u64
  next_delivery :: u64
  next_relationship :: u64
  active :: "u64 option"
  suspended :: "u64 list"
  leases :: "LeaseState store"
  bindings :: "BindingState store"
  relationships :: "RelationshipState store"
  stopped :: bool
  shutdown_receipt :: "InputArbiterShutdownReceipt option"

definition new_arbiter :: "thread_id \<Rightarrow> InputArbiter" where
  "new_arbiter th = \<lparr>owner_thread = th, arb_epoch = 0, next_lease = 1, next_binding = 1,
     next_publication = 1, next_poll_receipt = 1, next_delivery = 1, next_relationship = 1,
     active = None, suspended = [], leases = [], bindings = [], relationships = [],
     stopped = False, shutdown_receipt = None\<rparr>"

section \<open>Helpers\<close>

definition FindLease :: "u64 \<Rightarrow> InputArbiter \<Rightarrow> LeaseState option" where
  "FindLease l A = store_find (leases A) l"

definition FindBinding :: "u64 \<Rightarrow> InputArbiter \<Rightarrow> BindingState option" where
  "FindBinding i A = store_find (bindings A) i"

definition OnOwnerThread :: "thread_id \<Rightarrow> InputArbiter \<Rightarrow> bool" where
  "OnOwnerThread th A \<longleftrightarrow> th = owner_thread A"

definition IsStopped :: "InputArbiter \<Rightarrow> bool" where
  "IsStopped A \<longleftrightarrow> stopped A"

definition IsCurrent :: "u64 \<Rightarrow> InputArbiter \<Rightarrow> bool" where
  "IsCurrent epoch A \<longleftrightarrow> arb_epoch A \<noteq> 0 \<and> arb_epoch A = epoch"

definition IsNeutral :: "GCInputFrame \<Rightarrow> bool" where
  "IsNeutral frame \<longleftrightarrow> frame = NeutralFrame"

definition EraseRelationshipsForLease :: "u64 \<Rightarrow> InputArbiter \<Rightarrow> InputArbiter" where
  "EraseRelationshipsForLease l A = A\<lparr>relationships := store_erase_if (\<lambda>r. ir_lease r = l) (relationships A)\<rparr>"

definition EraseBindingsForLease :: "u64 \<Rightarrow> InputArbiter \<Rightarrow> InputArbiter" where
  "EraseBindingsForLease l A = EraseRelationshipsForLease l
     (A\<lparr>bindings := store_erase_if (\<lambda>b. bs_lease b = l) (bindings A)\<rparr>)"

definition EraseLeaseState :: "u64 \<Rightarrow> InputArbiter \<Rightarrow> InputArbiter" where
  "EraseLeaseState l A = (EraseBindingsForLease l A)\<lparr>leases := store_erase l (leases A)\<rparr>"

definition ClearRetainedState :: "InputArbiter \<Rightarrow> InputArbiter" where
  "ClearRetainedState A = A\<lparr>active := None, suspended := [], relationships := [], bindings := [], leases := []\<rparr>"

text \<open>A write through the pointer to a lease.\<close>

definition set_lease :: "u64 \<Rightarrow> LeaseState \<Rightarrow> InputArbiter \<Rightarrow> InputArbiter" where
  "set_lease l s A = A\<lparr>leases := store_modify l (\<lambda>_. s) (leases A)\<rparr>"

text \<open>\<open>None\<close> is a publication that failed.\<close>

definition PublishBackend ::
  "'b InputBackendPort \<Rightarrow> LeaseState \<Rightarrow> GCInputFrame \<Rightarrow> InputArbiter \<times> 'b \<Rightarrow>
    PublishedState option \<times> InputArbiter \<times> 'b" where
  "PublishBackend bk s frame S =
     (let (A, b) = S; (p, b) = port_publish bk (req_port (ls_request s)) frame b in
      if \<not> pub_ok p \<or> pub_epoch p = 0 then (None, A, b)
      else (Some \<lparr>ps_publication = next_publication A, ps_epoch = pub_epoch p\<rparr>,
        A\<lparr>next_publication := next_publication A + 1\<rparr>, b))"

definition new_binding ::
  "u64 \<Rightarrow> LeaseState \<Rightarrow> GCInputFrame \<Rightarrow> InputBindingKind \<Rightarrow> PublishedState option \<Rightarrow> u64 option \<Rightarrow> BindingState" where
  "new_binding i s frame kind p delivery = \<lparr>bs_id = i, bs_lease = ls_id s, bs_epoch = ls_epoch s,
     bs_generation = ls_generation s, bs_frame = frame, bs_kind = kind,
     bs_publication = map_option ps_publication p,
     bs_publication_epoch = (case p of None \<Rightarrow> 0 | Some q \<Rightarrow> ps_epoch q),
     bs_requires_observation = (p \<noteq> None), bs_observed = (p = None), bs_poll = 0, bs_callbacks = 0,
     bs_delivery = delivery\<rparr>"

definition BindCurrentState ::
  "LeaseState \<Rightarrow> GCInputFrame \<Rightarrow> InputBindingKind \<Rightarrow> PublishedState option \<Rightarrow> u64 option \<Rightarrow>
    InputArbiter \<Rightarrow> InputExecutionBindingReceipt \<times> InputArbiter" where
  "BindCurrentState s frame kind p delivery A =
     (let A = EraseBindingsForLease (ls_id s) A;
          i = next_binding A;
          A = A\<lparr>next_binding := next_binding A + 1,
                bindings := store_emplace i (new_binding i s frame kind p delivery) (bindings A)\<rparr>;
          A = set_lease (ls_id s) (s\<lparr>ls_current := Some i\<rparr>) A
      in (\<lparr>br_ok = True, br_binding = i, br_lease = ls_id s, br_epoch = ls_epoch s,
           br_generation = ls_generation s, br_frame = frame, br_kind = kind,
           br_requires_observation = (p \<noteq> None), br_message = None, br_error = NoError,
           br_publication = (case p of None \<Rightarrow> 0 | Some q \<Rightarrow> ps_publication q)\<rparr>, A))"

definition refused_binding ::
  "u64 \<Rightarrow> u64 \<Rightarrow> u64 \<Rightarrow> GCInputFrame \<Rightarrow> InputProblem \<Rightarrow> InputArbiterErrorCode \<Rightarrow> InputExecutionBindingReceipt" where
  "refused_binding i l epoch frame m e = \<lparr>br_ok = False, br_binding = i, br_lease = l, br_epoch = epoch,
     br_generation = 0, br_frame = frame, br_kind = StableNeutral, br_requires_observation = False,
     br_message = Some m, br_error = e, br_publication = 0\<rparr>"

section \<open>Acquiring and borrowing\<close>

definition refused_lease :: "u64 \<Rightarrow> InputProblem \<Rightarrow> InputArbiterErrorCode \<Rightarrow> InputLeaseReceipt" where
  "refused_lease epoch m e = \<lparr>lr_ok = False, lr_status = Rejected, lr_lease = 0, lr_epoch = epoch,
     lr_message = Some m, lr_error = e\<rparr>"

definition grant_lease ::
  "InputLeaseRequest \<Rightarrow> u64 \<Rightarrow> bool \<Rightarrow> InputArbiter \<Rightarrow> InputLeaseReceipt \<times> InputArbiter" where
  "grant_lease request epoch inherits_backend A =
     (let i = next_lease A;
          s = \<lparr>ls_request = request, ls_id = i, ls_epoch = epoch, ls_status = Active, ls_state = Neutral,
               ls_generation = 1, ls_current = None, ls_backend_neutral = (\<not> inherits_backend),
               ls_mutated = False\<rparr>
      in (\<lparr>lr_ok = True, lr_status = Active, lr_lease = i, lr_epoch = epoch, lr_message = None,
           lr_error = NoError\<rparr>,
          A\<lparr>next_lease := next_lease A + 1, leases := store_emplace i s (leases A), active := Some i\<rparr>))"

definition Acquire ::
  "'b InputBackendPort \<Rightarrow> thread_id \<Rightarrow> InputLeaseRequest \<Rightarrow> u64 \<Rightarrow> InputArbiter \<times> 'b \<Rightarrow>
    InputLeaseReceipt \<times> InputArbiter \<times> 'b" where
  "Acquire bk th request epoch S =
     (let (A, b) = S in
      if \<not> OnOwnerThread th A then (refused_lease epoch OffActorThread WrongThread, S)
      else if IsStopped A then (refused_lease epoch ShutDown Stopped, S)
      else if req_owner request = 0 \<or> epoch = 0 then (refused_lease epoch OwnerAndEpochRequired NoError, S)
      else if \<not> req_movie_exclusive request \<and> \<not> port_available bk (req_port request) b
      then (refused_lease epoch PortUnavailable NoError, S)
      else if arb_epoch A \<noteq> 0 \<and> arb_epoch A \<noteq> epoch then (refused_lease epoch StaleEpoch NoError, S)
      else
        let A = A\<lparr>arb_epoch := (if arb_epoch A = 0 then epoch else arb_epoch A)\<rparr> in
        case active A of
          None \<Rightarrow> (let (r, A) = grant_lease request epoch False A in (r, A, b))
        | Some a \<Rightarrow>
            (case FindLease a A of
               None \<Rightarrow> (refused_lease epoch ActiveLeaseMissing NoError, A, b)
             | Some s \<Rightarrow>
                 if req_movie_exclusive (ls_request s) \<or> \<not> req_suspendable (ls_request s)
                 then (refused_lease epoch ActiveLeaseUnsuspendable NoError, A, b)
                 else if sint (req_priority request) \<le> sint (req_priority (ls_request s))
                 then (refused_lease epoch PriorityInsufficient NoError, A, b)
                 else
                   let A = set_lease a (s\<lparr>ls_status := Suspended\<rparr>) A;
                       A = A\<lparr>suspended := suspended A @ [ls_id s]\<rparr>;
                       (r, A) = grant_lease request epoch True A
                   in (r, A, b)))"

text \<open>
  \<open>std::max\<close> of the two signed priorities. The sum overflows for a parent at the largest priority;
  the model wraps.
\<close>

definition borrowed_priority :: "32 word \<Rightarrow> 32 word \<Rightarrow> 32 word" where
  "borrowed_priority p parent = (if sint p < sint (parent + 1) then parent + 1 else p)"

definition Borrow ::
  "'b InputBackendPort \<Rightarrow> thread_id \<Rightarrow> u64 \<Rightarrow> InputLeaseRequest \<Rightarrow> u64 \<Rightarrow> InputArbiter \<times> 'b \<Rightarrow>
    InputLeaseReceipt \<times> InputArbiter \<times> 'b" where
  "Borrow bk th parent request epoch S =
     (let (A, b) = S in
      if \<not> OnOwnerThread th A then (refused_lease epoch OffActorThread WrongThread, S)
      else if IsStopped A then (refused_lease epoch ShutDown Stopped, S)
      else case FindLease parent A of
        None \<Rightarrow> (refused_lease epoch ParentNotActive NoError, S)
      | Some s \<Rightarrow>
          if active A \<noteq> Some parent \<or> ls_epoch s \<noteq> epoch \<or> \<not> IsCurrent epoch A
          then (refused_lease epoch ParentNotActive NoError, S)
          else if \<not> req_borrowable (ls_request s) then (refused_lease epoch BorrowingForbidden NoError, S)
          else if req_borrow_policy (ls_request s) = RequireStableNeutral \<and>
              (ls_state s \<noteq> Neutral \<or> \<not> ls_backend_neutral s)
          then (refused_lease epoch ParentNotStableNeutral NoError, S)
          else Acquire bk th (request\<lparr>req_priority :=
              borrowed_priority (req_priority request) (req_priority (ls_request s))\<rparr>) epoch S)"


section \<open>Applying and delivering input\<close>

definition ApplyState ::
  "'b InputBackendPort \<Rightarrow> thread_id \<Rightarrow> u64 \<Rightarrow> GCInputFrame \<Rightarrow> u64 \<Rightarrow> InputArbiter \<times> 'b \<Rightarrow>
    InputExecutionBindingReceipt \<times> InputArbiter \<times> 'b" where
  "ApplyState bk th l frame epoch S =
     (let (A, b) = S; refuse = (\<lambda>m e. (refused_binding 0 l epoch frame m e, S)) in
      if \<not> OnOwnerThread th A then refuse OffActorThread WrongThread
      else if IsStopped A then refuse ShutDown Stopped
      else case FindLease l A of
        None \<Rightarrow> refuse LeaseNotActive NoError
      | Some s \<Rightarrow>
          if active A \<noteq> Some l \<or> ls_status s \<noteq> Active then refuse LeaseNotActive NoError
          else if \<not> IsCurrent epoch A \<or> ls_epoch s \<noteq> epoch then refuse StaleEpoch WorksetEpochMismatch
          else if ls_state s = DeliveryPending then refuse DeliveryMustComplete NoError
          else
            let neutral = IsNeutral frame in
            if ls_state s = NeutralTransitionPending then
              (case ls_current s of
                 None \<Rightarrow> refuse TransitionMustBeObserved NoError
               | Some i \<Rightarrow>
                   if \<not> neutral then refuse TransitionMustBeObserved NoError
                   else case FindBinding i A of
                     None \<Rightarrow> refuse TransitionBindingMissing NoError
                   | Some c \<Rightarrow> (\<lparr>br_ok = True, br_binding = bs_id c, br_lease = bs_lease c,
                       br_epoch = bs_epoch c, br_generation = bs_generation c, br_frame = bs_frame c,
                       br_kind = bs_kind c, br_requires_observation = bs_requires_observation c,
                       br_message = None, br_error = NoError, br_publication = 0\<rparr>, S))
            else if neutral \<and> ls_state s = Neutral \<and> ls_backend_neutral s then
              (let (r, A) = BindCurrentState s frame StableNeutral None None A in (r, A, b))
            else
              (case PublishBackend bk s frame (A, b) of
                 (None, S') \<Rightarrow> (refused_binding 0 l epoch frame BackendRefused BackendFailure, S')
               | (Some p, A, b) \<Rightarrow>
                   let s = s\<lparr>ls_generation := ls_generation s + 1,
                         ls_state := (if neutral then NeutralTransitionPending else Held),
                         ls_backend_neutral := neutral, ls_mutated := True\<rparr>;
                       (r, A) = BindCurrentState s frame (if neutral then NeutralTransition else HeldBinding)
                         (Some p) None A
                   in (r, A, b)))"

definition BeginDelivery ::
  "'b InputBackendPort \<Rightarrow> thread_id \<Rightarrow> u64 \<Rightarrow> GCInputFrame \<Rightarrow> u64 \<Rightarrow> InputArbiter \<times> 'b \<Rightarrow>
    InputExecutionBindingReceipt \<times> InputArbiter \<times> 'b" where
  "BeginDelivery bk th l frame epoch S =
     (let (A, b) = S; refuse = (\<lambda>m e. (refused_binding 0 l epoch frame m e, S)) in
      if \<not> OnOwnerThread th A then refuse OffActorThread WrongThread
      else if IsStopped A then refuse ShutDown Stopped
      else case FindLease l A of
        None \<Rightarrow> refuse LeaseNotActive NoError
      | Some s \<Rightarrow>
          if active A \<noteq> Some l \<or> ls_status s \<noteq> Active then refuse LeaseNotActive NoError
          else if \<not> IsCurrent epoch A \<or> ls_epoch s \<noteq> epoch then refuse StaleEpoch WorksetEpochMismatch
          else if ls_state s \<noteq> Neutral \<or> \<not> ls_backend_neutral s then refuse DeliveryNeedsNeutral NoError
          else
            (case PublishBackend bk s frame (A, b) of
               (None, S') \<Rightarrow> (refused_binding 0 l epoch frame BackendRefused BackendFailure, S')
             | (Some p, A, b) \<Rightarrow>
                 let s = s\<lparr>ls_generation := ls_generation s + 1, ls_state := DeliveryPending,
                       ls_backend_neutral := IsNeutral frame, ls_mutated := True\<rparr>;
                     d = next_delivery A;
                     (r, A) = BindCurrentState s frame Delivery (Some p) (Some d)
                       (A\<lparr>next_delivery := next_delivery A + 1\<rparr>)
                 in (r, A, b)))"

text \<open>The guard that \<open>CompleteDelivery\<close> and \<open>ReplaceDelivery\<close> share.\<close>

definition exact_delivery ::
  "u64 \<Rightarrow> u64 \<Rightarrow> u64 \<Rightarrow> LeaseState \<Rightarrow> BindingState \<Rightarrow> InputArbiter \<Rightarrow> bool" where
  "exact_delivery l i epoch s d A \<longleftrightarrow> active A = Some l \<and> ls_status s = Active \<and>
     ls_state s = DeliveryPending \<and> ls_current s = Some i \<and> bs_lease d = l \<and> bs_epoch d = epoch \<and>
     bs_kind d = Delivery \<and> bs_delivery d \<noteq> None \<and> bs_publication d \<noteq> None"

definition refused_delivery :: "u64 \<Rightarrow> u64 \<Rightarrow> u64 \<Rightarrow> InputProblem \<Rightarrow> InputArbiterErrorCode \<Rightarrow> InputDeliveryReceipt" where
  "refused_delivery i l epoch m e = \<lparr>dr_ok = False, dr_delivery = 0, dr_binding = i, dr_lease = l,
     dr_publication = 0, dr_poll = 0, dr_epoch = epoch, dr_generation = 0, dr_callbacks = 0,
     dr_frame = NeutralFrame, dr_message = Some m, dr_error = e\<rparr>"

definition CompleteDelivery ::
  "'b InputBackendPort \<Rightarrow> thread_id \<Rightarrow> u64 \<Rightarrow> u64 \<Rightarrow> u64 \<Rightarrow> InputArbiter \<times> 'b \<Rightarrow>
    InputDeliveryReceipt \<times> InputArbiter \<times> 'b" where
  "CompleteDelivery bk th l i epoch S =
     (let (A, b) = S; refuse = (\<lambda>m e. (refused_delivery i l epoch m e, S)) in
      if \<not> OnOwnerThread th A then refuse OffActorThread WrongThread
      else if IsStopped A then refuse ShutDown Stopped
      else case (FindLease l A, FindBinding i A) of
        (Some s, Some d) \<Rightarrow>
          if \<not> exact_delivery l i epoch s d A then refuse NotTheActiveDelivery NoError
          else if \<not> bs_observed d \<or> bs_poll d = 0 then
            ((refused_delivery i l epoch NotObserved NoError)
               \<lparr>dr_delivery := the (bs_delivery d), dr_publication := the (bs_publication d),
                dr_generation := bs_generation d, dr_frame := bs_frame d\<rparr>, S)
          else
            let receipt = \<lparr>dr_ok = True, dr_delivery = the (bs_delivery d), dr_binding = i, dr_lease = l,
                  dr_publication = the (bs_publication d), dr_poll = bs_poll d, dr_epoch = epoch,
                  dr_generation = bs_generation d, dr_callbacks = bs_callbacks d, dr_frame = bs_frame d,
                  dr_message = None, dr_error = NoError\<rparr>;
                done = (\<lambda>s A. EraseBindingsForLease l A\<lparr>leases := store_modify l
                  (\<lambda>_. s\<lparr>ls_generation := ls_generation s + 1, ls_state := Neutral,
                    ls_backend_neutral := True, ls_current := None\<rparr>) (leases A)\<rparr>)
            in if IsNeutral (bs_frame d) then (receipt, done s A, b)
               else (case PublishBackend bk s NeutralFrame (A, b) of
                 (None, S') \<Rightarrow> (receipt\<lparr>dr_ok := False, dr_message := Some BackendRefused,
                    dr_error := BackendFailure\<rparr>, S')
               | (Some p, A, b) \<Rightarrow> (receipt, done (s\<lparr>ls_mutated := True\<rparr>) A, b))
      | _ \<Rightarrow> refuse NotTheActiveDelivery NoError)"

definition ReplaceDelivery ::
  "'b InputBackendPort \<Rightarrow> thread_id \<Rightarrow> u64 \<Rightarrow> u64 \<Rightarrow> GCInputFrame \<Rightarrow> u64 \<Rightarrow> InputArbiter \<times> 'b \<Rightarrow>
    InputExecutionBindingReceipt \<times> InputArbiter \<times> 'b" where
  "ReplaceDelivery bk th l i replacement epoch S =
     (let (A, b) = S; refuse = (\<lambda>m e. (refused_binding i l epoch replacement m e, S)) in
      if \<not> OnOwnerThread th A then refuse OffActorThread WrongThread
      else if IsStopped A then refuse ShutDown Stopped
      else case (FindLease l A, FindBinding i A) of
        (Some s, Some d) \<Rightarrow>
          if \<not> exact_delivery l i epoch s d A then refuse NotTheActiveDelivery NoError
          else if \<not> bs_observed d \<or> bs_poll d = 0 then refuse NotObserved NoError
          else
            (case PublishBackend bk s replacement (A, b) of
               (None, S') \<Rightarrow> (refused_binding i l epoch replacement BackendRefused BackendFailure, S')
             | (Some p, A, b) \<Rightarrow>
                 let A = EraseBindingsForLease l (EraseRelationshipsForLease l A);
                     s = s\<lparr>ls_generation := ls_generation s + 1, ls_state := DeliveryPending,
                       ls_backend_neutral := IsNeutral replacement, ls_mutated := True\<rparr>;
                     n = next_delivery A;
                     (r, A) = BindCurrentState s replacement Delivery (Some p) (Some n)
                       (A\<lparr>next_delivery := next_delivery A + 1\<rparr>)
                 in (r, A, b))
      | _ \<Rightarrow> refuse NotTheActiveDelivery NoError)"

section \<open>Relationships\<close>

definition operation_receipt :: "bool \<Rightarrow> InputArbiterErrorCode \<Rightarrow> InputProblem option \<Rightarrow> InputArbiterOperationReceipt" where
  "operation_receipt ok e m = \<lparr>or_ok = ok, or_error = e, or_message = m\<rparr>"

definition ValidateBinding ::
  "thread_id \<Rightarrow> InputExecutionBindingEvidence \<Rightarrow> InputArbiter \<Rightarrow> InputArbiterOperationReceipt" where
  "ValidateBinding th ev A =
     (if \<not> OnOwnerThread th A then operation_receipt False WrongThread (Some OffActorThread)
      else if IsStopped A then operation_receipt False Stopped (Some ShutDown)
      else case (FindLease (ev_lease ev) A, FindBinding (ev_binding ev) A) of
        (Some s, Some c) \<Rightarrow>
          if active A \<noteq> Some (ev_lease ev) \<or> ls_status s \<noteq> Active \<or> ls_epoch s \<noteq> ev_epoch ev \<or>
             \<not> IsCurrent (ev_epoch ev) A \<or> ls_current s \<noteq> Some (ev_binding ev) \<or>
             ls_generation s \<noteq> ev_generation ev \<or> bs_lease c \<noteq> ev_lease ev \<or>
             bs_epoch c \<noteq> ev_epoch ev \<or> bs_generation c \<noteq> ev_generation ev \<or>
             bs_frame c \<noteq> ev_frame ev \<or>
             (case bs_publication c of None \<Rightarrow> 0 | Some p \<Rightarrow> p) \<noteq> ev_publication ev
          then operation_receipt False NoError (Some NotTheCurrentState)
          else operation_receipt True NoError None
      | _ \<Rightarrow> operation_receipt False NoError (Some NotTheCurrentState))"

definition CreateExecutionRelationship ::
  "thread_id \<Rightarrow> InputExecutionBindingEvidence \<Rightarrow> InputArbiter \<Rightarrow>
    InputExecutionRelationshipReceipt \<times> InputArbiter" where
  "CreateExecutionRelationship th ev A =
     (let v = ValidateBinding th ev A in
      if \<not> or_ok v then
        (\<lparr>rr_ok = False, rr_relationship = 0, rr_epoch = ev_epoch ev, rr_message = or_message v,
          rr_error = or_error v\<rparr>, A)
      else
        let i = next_relationship A in
        (\<lparr>rr_ok = True, rr_relationship = i, rr_epoch = ev_epoch ev, rr_message = None, rr_error = NoError\<rparr>,
         A\<lparr>next_relationship := next_relationship A + 1,
           relationships := store_emplace i \<lparr>ir_id = i, ir_binding = ev_binding ev, ir_lease = ev_lease ev,
             ir_epoch = ev_epoch ev, ir_generation = ev_generation ev\<rparr> (relationships A)\<rparr>))"

definition RemoveExecutionRelationship ::
  "thread_id \<Rightarrow> u64 \<Rightarrow> InputArbiter \<Rightarrow> InputArbiterOperationReceipt \<times> InputArbiter" where
  "RemoveExecutionRelationship th i A =
     (if \<not> OnOwnerThread th A then (operation_receipt False WrongThread (Some OffActorThread), A)
      else if IsStopped A then (operation_receipt False Stopped (Some ShutDown), A)
      else (operation_receipt True NoError None, A\<lparr>relationships := store_erase i (relationships A)\<rparr>))"

definition ValidateRelationship :: "thread_id \<Rightarrow> u64 \<Rightarrow> u64 \<Rightarrow> InputArbiter \<Rightarrow> RelationshipOutcome" where
  "ValidateRelationship th i epoch A =
     (if \<not> OnOwnerThread th A then Some OffActorThread
      else if IsStopped A then Some ShutDown
      else case store_find (relationships A) i of
        None \<Rightarrow> Some RelationshipUnknown
      | Some r \<Rightarrow>
          if \<not> IsCurrent epoch A \<or> ir_epoch r \<noteq> epoch then Some RelationshipStaleEpoch
          else case (FindLease (ir_lease r) A, FindBinding (ir_binding r) A) of
            (Some s, Some c) \<Rightarrow>
              if active A \<noteq> Some (ls_id s) \<or> ls_status s \<noteq> Active \<or> ls_current s \<noteq> Some (bs_id c) \<or>
                 ls_generation s \<noteq> ir_generation r \<or> bs_generation c \<noteq> ir_generation r
              then Some RelationshipOutdated else None
          | _ \<Rightarrow> Some RelationshipOutdated)"

definition set_binding :: "u64 \<Rightarrow> BindingState \<Rightarrow> InputArbiter \<Rightarrow> InputArbiter" where
  "set_binding i c A = A\<lparr>bindings := store_modify i (\<lambda>_. c) (bindings A)\<rparr>"

definition Complete ::
  "'b InputBackendPort \<Rightarrow> thread_id \<Rightarrow> u64 \<Rightarrow> u64 \<Rightarrow> InputArbiter \<times> 'b \<Rightarrow>
    RelationshipOutcome \<times> InputArbiter \<times> 'b" where
  "Complete bk th i epoch S =
     (let (A, b) = S in
      case ValidateRelationship th i epoch A of
        Some m \<Rightarrow> (Some m, S)
      | None \<Rightarrow>
          (case store_find (relationships A) i of
             None \<Rightarrow> (Some BindingUnavailable, S)
           | Some r \<Rightarrow>
               (case (FindBinding (ir_binding r) A, FindLease (ir_lease r) A) of
                  (Some c, Some s) \<Rightarrow>
                    let poll = port_poll bk (req_port (ls_request s)) b;
                        erase = (\<lambda>A. A\<lparr>relationships := store_erase i (relationships A)\<rparr>);
                        settle = (\<lambda>A. erase (if bs_kind c = NeutralTransition
                          then set_lease (ir_lease r) (s\<lparr>ls_state := Neutral\<rparr>) A else A))
                    in if bs_requires_observation c \<and> \<not> bs_observed c then
                         (if \<not> poll_ok poll then (Some PollFailed, erase A, b)
                          else if poll_epoch poll \<noteq> bs_publication_epoch c \<or> poll_callbacks poll = 0
                          then (Some NotObserved, erase A, b)
                          else (None, settle ((set_binding (ir_binding r)
                            (c\<lparr>bs_observed := True, bs_poll := next_poll_receipt A,
                               bs_callbacks := poll_callbacks poll\<rparr>) A)
                            \<lparr>next_poll_receipt := next_poll_receipt A + 1\<rparr>), b))
                       else (None, settle A, b)
                | _ \<Rightarrow> (Some BindingUnavailable, S))))"

definition Cancel :: "thread_id \<Rightarrow> u64 \<Rightarrow> u64 \<Rightarrow> InputArbiter \<Rightarrow> RelationshipOutcome \<times> InputArbiter" where
  "Cancel th i epoch A =
     (if \<not> OnOwnerThread th A then (Some OffActorThread, A)
      else if IsStopped A then (Some ShutDown, A)
      else case store_find (relationships A) i of
        None \<Rightarrow> (None, A)
      | Some r \<Rightarrow>
          if \<not> IsCurrent epoch A \<or> ir_epoch r \<noteq> epoch then (Some RelationshipStaleEpoch, A)
          else (None, A\<lparr>relationships := store_erase i (relationships A)\<rparr>))"

definition failed_inspection :: "InputProblem \<Rightarrow> InputExecutionRelationshipInspection" where
  "failed_inspection m = \<lparr>in_ok = False, in_requires_observation = False, in_observed = False,
     in_epoch = 0, in_callbacks = 0, in_a_callbacks = 0, in_frame = NeutralFrame, in_message = Some m\<rparr>"

definition Inspect ::
  "'b InputBackendPort \<Rightarrow> thread_id \<Rightarrow> u64 \<Rightarrow> u64 \<Rightarrow> InputArbiter \<times> 'b \<Rightarrow>
    InputExecutionRelationshipInspection" where
  "Inspect bk th i epoch S =
     (let (A, b) = S in
      case ValidateRelationship th i epoch A of
        Some m \<Rightarrow> failed_inspection m
      | None \<Rightarrow>
          (case store_find (relationships A) i of
             None \<Rightarrow> failed_inspection BindingUnavailable
           | Some r \<Rightarrow>
               (case (FindBinding (ir_binding r) A, FindLease (ir_lease r) A) of
                  (Some c, Some s) \<Rightarrow>
                    let poll = port_poll bk (req_port (ls_request s)) b in
                    if \<not> poll_ok poll then failed_inspection PollFailed
                    else \<lparr>in_ok = True, in_requires_observation = bs_requires_observation c,
                      in_observed = (\<not> bs_requires_observation c \<or>
                        poll_epoch poll = bs_publication_epoch c \<and> poll_a_callbacks poll \<noteq> 0),
                      in_epoch = poll_epoch poll, in_callbacks = poll_callbacks poll,
                      in_a_callbacks = poll_a_callbacks poll, in_frame = poll_frame poll, in_message = None\<rparr>
                | _ \<Rightarrow> failed_inspection BindingUnavailable)))"

section \<open>Closing and shutting down\<close>

text \<open>
  The loop that resumes a suspended lease; \<open>stack\<close> is the vector from its back.
\<close>

fun resume_loop :: "bool \<Rightarrow> u64 list \<Rightarrow> InputArbiter \<Rightarrow> u64 option \<times> InputArbiter" where
  "resume_loop mutated [] A = (None, A\<lparr>suspended := []\<rparr>)"
| "resume_loop mutated (candidate # stack) A =
     (case FindLease candidate A of
        None \<Rightarrow> resume_loop mutated stack A
      | Some s \<Rightarrow>
          if ls_status s \<noteq> Suspended \<or> ls_epoch s \<noteq> arb_epoch A then resume_loop mutated stack A
          else
            let s = s\<lparr>ls_status := Active\<rparr>;
                A = A\<lparr>active := Some (ls_id s), suspended := rev stack\<rparr>
            in if mutated then
                 (Some (ls_id s), set_lease candidate (s\<lparr>ls_generation := ls_generation s + 1,
                    ls_state := Neutral, ls_backend_neutral := True, ls_mutated := True,
                    ls_current := None\<rparr>) (EraseBindingsForLease (ls_id s) A))
               else (Some (ls_id s), set_lease candidate s A))"

definition FinishClose :: "LeaseState \<Rightarrow> InputArbiter \<Rightarrow> InputLeaseCloseReceipt \<times> InputArbiter" where
  "FinishClose s A =
     (let A = A\<lparr>active := None, suspended := filter (\<lambda>l. l \<noteq> ls_id s) (suspended A)\<rparr>;
          A = EraseLeaseState (ls_id s) A;
          (resumed, A) = resume_loop (ls_mutated s) (rev (suspended A)) A
      in (\<lparr>cr_ok = True, cr_status = Released, cr_lease = ls_id s, cr_neutral_publication = 0,
           cr_resumed = resumed, cr_epoch = ls_epoch s,
           cr_message = (if resumed \<noteq> None \<and> ls_mutated s then Some ResumedNeutral else None),
           cr_error = NoError\<rparr>, A))"

definition close_receipt ::
  "bool \<Rightarrow> InputLeaseStatus \<Rightarrow> u64 \<Rightarrow> u64 \<Rightarrow> InputProblem option \<Rightarrow> InputArbiterErrorCode \<Rightarrow> InputLeaseCloseReceipt" where
  "close_receipt ok status l epoch m e = \<lparr>cr_ok = ok, cr_status = status, cr_lease = l,
     cr_neutral_publication = 0, cr_resumed = None, cr_epoch = epoch, cr_message = m, cr_error = e\<rparr>"

definition CloseLease ::
  "'b InputBackendPort \<Rightarrow> thread_id \<Rightarrow> u64 \<Rightarrow> u64 \<Rightarrow> InputArbiter \<times> 'b \<Rightarrow>
    InputLeaseCloseReceipt \<times> InputArbiter \<times> 'b" where
  "CloseLease bk th l epoch S =
     (let (A, b) = S in
      if \<not> OnOwnerThread th A
      then (close_receipt False Rejected l epoch (Some OffActorThread) WrongThread, S)
      else if IsStopped A then (close_receipt False Rejected l epoch (Some ShutDown) Stopped, S)
      else case FindLease l A of
        None \<Rightarrow> (close_receipt True Released l epoch None NoError, S)
      | Some s \<Rightarrow>
          if \<not> IsCurrent epoch A \<or> ls_epoch s \<noteq> epoch
          then (close_receipt False Rejected l epoch (Some StaleLease) WorksetEpochMismatch, S)
          else if active A \<noteq> Some l
          then (close_receipt False (ls_status s) l epoch (Some NotTheActiveLease) NoError, S)
          else if \<not> (suspended A \<noteq> [] \<and> \<not> ls_mutated s) \<and>
              \<not> (req_movie_exclusive (ls_request s) \<and> \<not> port_available bk (req_port (ls_request s)) b) \<and>
              \<not> ls_backend_neutral s
          then
            (case PublishBackend bk s NeutralFrame (A, b) of
               (None, S') \<Rightarrow> (close_receipt False (ls_status s) l epoch (Some BackendRefused) BackendFailure, S')
             | (Some p, A, b) \<Rightarrow>
                 let (r, A) = FinishClose (s\<lparr>ls_backend_neutral := True, ls_mutated := True\<rparr>) A
                 in (r\<lparr>cr_neutral_publication := ps_publication p\<rparr>, A, b))
          else (let (r, A) = FinishClose s A in (r, A, b)))"

definition InitializeWorksetEpoch ::
  "thread_id \<Rightarrow> u64 \<Rightarrow> InputArbiter \<Rightarrow> InputArbiterOperationReceipt \<times> InputArbiter" where
  "InitializeWorksetEpoch th epoch A =
     (if \<not> OnOwnerThread th A then (operation_receipt False WrongThread (Some OffActorThread), A)
      else if IsStopped A then (operation_receipt False Stopped (Some ShutDown), A)
      else if epoch = 0 then (operation_receipt False InvalidArgument (Some EpochRequired), A)
      else if arb_epoch A \<noteq> 0 \<and> arb_epoch A \<noteq> epoch
      then (operation_receipt False WorksetEpochMismatch (Some EpochFixed), A)
      else (operation_receipt True NoError None, A\<lparr>arb_epoch := epoch\<rparr>))"

definition shutdown_result ::
  "bool \<Rightarrow> u64 \<Rightarrow> u64 \<Rightarrow> InputProblem option \<Rightarrow> InputArbiterErrorCode \<Rightarrow> InputArbiterShutdownReceipt" where
  "shutdown_result ok publication epoch m e = \<lparr>sr_ok = ok, sr_cleanup_complete = ok,
     sr_taint_required = (\<not> ok), sr_neutral_publication = publication, sr_epoch = epoch,
     sr_message = m, sr_error = e\<rparr>"

definition Shutdown ::
  "'b InputBackendPort \<Rightarrow> thread_id \<Rightarrow> InputArbiter \<times> 'b \<Rightarrow>
    InputArbiterShutdownReceipt \<times> InputArbiter \<times> 'b" where
  "Shutdown bk th S =
     (let (A, b) = S; epoch = arb_epoch A in
      if \<not> OnOwnerThread th A
      then ((shutdown_result False 0 epoch (Some OffActorThread) WrongThread)\<lparr>sr_taint_required := False\<rparr>, S)
      else case shutdown_receipt A of
        Some r \<Rightarrow> (r, S)
      | None \<Rightarrow>
          let (r, A, b) =
            (case active A of
               None \<Rightarrow> (if leases A \<noteq> [] then shutdown_result False 0 epoch (Some LeasesWithoutOwner) NoError
                  else shutdown_result True 0 epoch None NoError, A, b)
             | Some a \<Rightarrow>
                 (case FindLease a A of
                    None \<Rightarrow> (shutdown_result False 0 epoch (Some ActiveLeaseMissing) NoError, A, b)
                  | Some s \<Rightarrow>
                      if \<not> (req_movie_exclusive (ls_request s) \<and> \<not> port_available bk (req_port (ls_request s)) b) \<and>
                         \<not> ls_backend_neutral s
                      then
                        (case PublishBackend bk s NeutralFrame (A, b) of
                           (None, A, b) \<Rightarrow>
                             (shutdown_result False 0 epoch (Some BackendRefused) BackendFailure, A, b)
                         | (Some p, A, b) \<Rightarrow>
                             (shutdown_result True (ps_publication p) epoch None NoError, A, b))
                      else (shutdown_result True 0 epoch None NoError, A, b)))
          in (r, (ClearRetainedState A)\<lparr>stopped := True, shutdown_receipt := Some r\<rparr>, b))"

definition arbiter_snapshot :: "InputArbiter \<Rightarrow> InputArbiterSnapshot" where
  "arbiter_snapshot A =
     (let s = (case active A of None \<Rightarrow> None | Some a \<Rightarrow> FindLease a A)
      in \<lparr>sn_epoch = arb_epoch A, sn_active = active A, sn_suspended = length (suspended A),
          sn_leases = length (leases A), sn_bindings = length (bindings A),
          sn_relationships = length (relationships A),
          sn_state = (case s of None \<Rightarrow> Neutral | Some s \<Rightarrow> ls_state s),
          sn_movie = (case s of None \<Rightarrow> False | Some s \<Rightarrow> req_movie_exclusive (ls_request s)),
          sn_stopped = stopped A\<rparr>)"

end
