(* ===== verification/InputInvariant.thy ===== *)
theory InputInvariant
  imports InputArbiter
begin

text \<open>
  The invariant of the input arbiter, stated over the three stores as maps: the leases form one
  stack of rising priority, a binding is its lease's current one and fits its state, and a
  relationship names the current binding and generation of its lease. One lemma per primitive
  change of the stores.
\<close>

section \<open>The stores as maps\<close>

definition drop_if :: "('v \<Rightarrow> bool) \<Rightarrow> ('k \<Rightarrow> 'v option) \<Rightarrow> 'k \<Rightarrow> 'v option" where
  "drop_if P M = (\<lambda>j. case M j of None \<Rightarrow> None | Some v \<Rightarrow> if P v then None else Some v)"

lemma drop_if_Some [simp]: "drop_if P M j = Some v \<longleftrightarrow> M j = Some v \<and> \<not> P v"
  by (auto simp: drop_if_def split: option.split)

lemma store_maps:
  "store_find (store_modify k f m) = (store_find m)(k := map_option f (store_find m k))"
  "store_find (store_erase k m) = (store_find m)(k := None)"
  "store_find m k = None \<Longrightarrow> store_find (store_emplace k v m) = (store_find m)(k \<mapsto> v)"
  "store_wf m \<Longrightarrow> store_find (store_erase_if P m) = drop_if P (store_find m)"
  by (auto simp: fun_eq_iff um.find_simps drop_if_def split: option.split)

lemma store_empty: "store_find [] = (\<lambda>_. None)"
  by (auto simp: fun_eq_iff um.find_empty)

section \<open>The invariant\<close>

type_synonym lease_map = "u64 \<Rightarrow> LeaseState option"
type_synonym binding_map = "u64 \<Rightarrow> BindingState option"
type_synonym relationship_map = "u64 \<Rightarrow> RelationshipState option"

definition lease_stack :: "u64 option \<Rightarrow> u64 list \<Rightarrow> u64 list" where
  "lease_stack act sus = (case act of None \<Rightarrow> [] | Some a \<Rightarrow> [a]) @ rev sus"

definition priority_of :: "lease_map \<Rightarrow> u64 \<Rightarrow> int" where
  "priority_of L l = (case L l of None \<Rightarrow> 0 | Some s \<Rightarrow> sint (req_priority (ls_request s)))"

definition lease_ok :: "u64 \<Rightarrow> u64 option \<Rightarrow> u64 \<Rightarrow> LeaseState \<Rightarrow> bool" where
  "lease_ok ep act l s \<longleftrightarrow> ls_id s = l \<and> ls_epoch s = ep \<and> ep \<noteq> 0 \<and>
     ls_status s = (if act = Some l then Active else Suspended) \<and>
     (act \<noteq> Some l \<longrightarrow> req_suspendable (ls_request s) \<and> \<not> req_movie_exclusive (ls_request s))"

definition stack_ok :: "u64 \<Rightarrow> u64 option \<Rightarrow> u64 list \<Rightarrow> lease_map \<Rightarrow> bool" where
  "stack_ok ep act sus L \<longleftrightarrow>
     distinct (lease_stack act sus) \<and> (act = None \<longrightarrow> sus = []) \<and>
     (\<forall>l. L l \<noteq> None \<longleftrightarrow> l \<in> set (lease_stack act sus)) \<and>
     (\<forall>l s. L l = Some s \<longrightarrow> lease_ok ep act l s) \<and>
     sorted_wrt (\<lambda>l m. priority_of L m < priority_of L l) (lease_stack act sus)"

fun kind_fits :: "InputState \<Rightarrow> InputBindingKind \<Rightarrow> bool" where
  "kind_fits Neutral k \<longleftrightarrow> k = StableNeutral \<or> k = NeutralTransition"
| "kind_fits Held k \<longleftrightarrow> k = HeldBinding"
| "kind_fits DeliveryPending k \<longleftrightarrow> k = Delivery"
| "kind_fits NeutralTransitionPending k \<longleftrightarrow> k = NeutralTransition"

definition binding_fits :: "LeaseState \<Rightarrow> BindingState \<Rightarrow> bool" where
  "binding_fits s c \<longleftrightarrow> bs_lease c = ls_id s \<and> bs_epoch c = ls_epoch s \<and> bs_generation c = ls_generation s \<and>
     IsNeutral (bs_frame c) = ls_backend_neutral s \<and> kind_fits (ls_state s) (bs_kind c) \<and>
     (bs_kind c \<in> {StableNeutral, NeutralTransition} \<longrightarrow> IsNeutral (bs_frame c)) \<and>
     (bs_kind c = HeldBinding \<longrightarrow> \<not> IsNeutral (bs_frame c)) \<and>
     (bs_kind c = Delivery \<longleftrightarrow> bs_delivery c \<noteq> None) \<and>
     (bs_requires_observation c \<longleftrightarrow> bs_publication c \<noteq> None) \<and>
     (bs_requires_observation c \<longleftrightarrow> bs_kind c \<noteq> StableNeutral) \<and>
     (bs_observed c \<and> bs_requires_observation c \<longrightarrow> bs_callbacks c \<noteq> 0 \<and> bs_poll c \<noteq> 0)"

definition bindings_ok :: "lease_map \<Rightarrow> binding_map \<Rightarrow> bool" where
  "bindings_ok L B \<longleftrightarrow>
     (\<forall>i c. B i = Some c \<longrightarrow> bs_id c = i \<and>
        (\<exists>s. L (bs_lease c) = Some s \<and> ls_current s = Some i \<and> binding_fits s c)) \<and>
     (\<forall>l s. L l = Some s \<longrightarrow>
        (case ls_current s of
           None \<Rightarrow> ls_state s = Neutral
         | Some i \<Rightarrow> \<exists>c. B i = Some c \<and> bs_lease c = l))"

definition relationships_ok :: "lease_map \<Rightarrow> relationship_map \<Rightarrow> bool" where
  "relationships_ok L R \<longleftrightarrow> (\<forall>i r. R i = Some r \<longrightarrow> ir_id r = i \<and>
     (\<exists>s. L (ir_lease r) = Some s \<and> ls_epoch s = ir_epoch r \<and> ls_current s = Some (ir_binding r) \<and>
        ls_generation s = ir_generation r))"

definition counters_ok :: "nat \<Rightarrow> InputArbiter \<Rightarrow> bool" where
  "counters_ok n A \<longleftrightarrow>
     (\<forall>c \<in> {next_lease A, next_binding A, next_publication A, next_poll_receipt A, next_delivery A,
        next_relationship A}. 0 < c \<and> unat c \<le> Suc n) \<and>
     (\<forall>l s. store_find (leases A) l = Some s \<longrightarrow> 0 < l \<and> l < next_lease A \<and>
        0 < ls_generation s \<and> unat (ls_generation s) \<le> Suc n) \<and>
     (\<forall>i c. store_find (bindings A) i = Some c \<longrightarrow> 0 < i \<and> i < next_binding A) \<and>
     (\<forall>i r. store_find (relationships A) i = Some r \<longrightarrow> 0 < i \<and> i < next_relationship A)"

definition stores_ok :: "InputArbiter \<Rightarrow> bool" where
  "stores_ok A \<longleftrightarrow> store_wf (leases A) \<and> store_wf (bindings A) \<and> store_wf (relationships A)"

definition stopped_ok :: "InputArbiter \<Rightarrow> bool" where
  "stopped_ok A \<longleftrightarrow> (stopped A \<longleftrightarrow> shutdown_receipt A \<noteq> None) \<and>
     (stopped A \<longrightarrow> active A = None \<and> suspended A = [] \<and> leases A = [] \<and> bindings A = [] \<and> relationships A = [])"

definition arbiter_inv :: "nat \<Rightarrow> InputArbiter \<Rightarrow> bool" where
  "arbiter_inv n A \<longleftrightarrow> stores_ok A \<and> counters_ok n A \<and>
     stack_ok (arb_epoch A) (active A) (suspended A) (store_find (leases A)) \<and>
     bindings_ok (store_find (leases A)) (store_find (bindings A)) \<and>
     relationships_ok (store_find (leases A)) (store_find (relationships A)) \<and> stopped_ok A"

section \<open>The stack\<close>

lemma sorted_by_cong:
  "(\<And>x. x \<in> set xs \<Longrightarrow> f x = g x) \<Longrightarrow>
    sorted_wrt (\<lambda>x y. (f y :: int) < f x) xs = sorted_wrt (\<lambda>x y. g y < g x) xs"
  by (induction xs) auto

lemma stack_ok_lease:
  assumes "stack_ok ep act sus L" and "L l = Some s"
  shows "lease_ok ep act l s" and "l \<in> set (lease_stack act sus)"
  using assms unfolding stack_ok_def by blast+

lemma stack_ok_update:
  assumes "stack_ok ep act sus L" and "L l = Some s"
    and "ls_id s' = ls_id s" "ls_epoch s' = ls_epoch s" "ls_status s' = ls_status s" "ls_request s' = ls_request s"
  shows "stack_ok ep act sus (L(l \<mapsto> s'))"
proof -
  have "priority_of (L(l \<mapsto> s')) = priority_of L"
    using assms(2,6) by (auto simp: fun_eq_iff priority_of_def)
  moreover have "lease_ok ep act l s'"
    using stack_ok_lease(1) [OF assms(1,2)] assms(3-6) by (simp add: lease_ok_def)
  moreover have "(L(l \<mapsto> s')) m \<noteq> None \<longleftrightarrow> L m \<noteq> None" for m
    using assms(2) by simp
  ultimately show ?thesis
    using assms(1) unfolding stack_ok_def by (simp add: fun_upd_apply)
qed

lemma stack_ok_first:
  assumes "stack_ok ep None sus L" and "lease_ok ep (Some l) l s"
  shows "stack_ok ep (Some l) sus (L(l \<mapsto> s))"
proof -
  from assms(1) have "sus = []" "\<And>l. L l = None" by (auto simp: stack_ok_def lease_stack_def)
  with assms(2) show ?thesis by (simp add: stack_ok_def lease_stack_def)
qed

lemma stack_ok_push:
  assumes "stack_ok ep (Some a) sus L" and "L a = Some c" and "L l = None"
    and "lease_ok ep (Some l) l s"
    and "req_suspendable (ls_request c)" "\<not> req_movie_exclusive (ls_request c)"
    and "sint (req_priority (ls_request c)) < sint (req_priority (ls_request s))"
  shows "stack_ok ep (Some l) (sus @ [a]) (L(a \<mapsto> c\<lparr>ls_status := Suspended\<rparr>, l \<mapsto> s))"
    (is "stack_ok _ _ _ ?L")
proof -
  have la: "l \<noteq> a" using assms(2,3) by auto
  have fresh: "l \<notin> set (lease_stack (Some a) sus)"
    using assms(1,3) unfolding stack_ok_def by blast
  have stack: "lease_stack (Some l) (sus @ [a]) = l # lease_stack (Some a) sus"
    by (simp add: lease_stack_def)
  have prio: "priority_of ?L m = priority_of L m" if "m \<in> set (lease_stack (Some a) sus)" for m
    using that fresh assms(2) by (auto simp: priority_of_def)
  have below: "priority_of L m \<le> priority_of L a" if "m \<in> set (lease_stack (Some a) sus)" for m
    using that assms(1) by (auto simp: stack_ok_def lease_stack_def)
  have "priority_of L a < priority_of ?L l"
    using assms(2,7) by (simp add: priority_of_def)
  with below prio have above: "\<forall>m \<in> set (lease_stack (Some a) sus). priority_of ?L m < priority_of ?L l"
    by fastforce
  have ok: "lease_ok ep (Some l) m t" if "?L m = Some t" for m t
  proof -
    consider "m = l" | "m = a" "m \<noteq> l" | "m \<noteq> l" "m \<noteq> a" by blast
    then show ?thesis
    proof cases
      case 1
      with that assms(4) show ?thesis by simp
    next
      case 2
      with that have "t = c\<lparr>ls_status := Suspended\<rparr>" by simp
      with stack_ok_lease(1) [OF assms(1,2)] assms(5,6) 2 show ?thesis by (simp add: lease_ok_def)
    next
      case 3
      with that have "L m = Some t" by simp
      from stack_ok_lease(1) [OF assms(1) this] 3 show ?thesis by (simp add: lease_ok_def)
    qed
  qed
  have dom: "?L m \<noteq> None \<longleftrightarrow> m \<in> set (l # lease_stack (Some a) sus)" for m
    using assms(1,2) unfolding stack_ok_def by auto
  have sorted: "sorted_wrt (\<lambda>l m. priority_of ?L m < priority_of ?L l) (lease_stack (Some a) sus)"
    using assms(1) sorted_by_cong [of "lease_stack (Some a) sus" "priority_of ?L" "priority_of L"] prio
    unfolding stack_ok_def by blast
  show ?thesis
    unfolding stack_ok_def stack using assms(1) fresh ok dom sorted above
    by (auto simp: stack_ok_def)
qed

lemma stack_ok_last:
  assumes "stack_ok ep (Some l) [] L"
  shows "stack_ok ep None [] (L(l := None))"
proof -
  have "L m = None" if "m \<noteq> l" for m
    using assms that unfolding stack_ok_def lease_stack_def by (metis (no_types) append.simps empty_iff list.set rev.simps(1) insert_iff option.simps(5))
  then show ?thesis by (auto simp: stack_ok_def lease_stack_def)
qed

lemma stack_ok_pop:
  assumes "stack_ok ep (Some l) (sus @ [a]) L" and "L a = Some c"
    and "ls_id c' = ls_id c" "ls_epoch c' = ls_epoch c" "ls_status c' = Active" "ls_request c' = ls_request c"
  shows "stack_ok ep (Some a) sus (L(l := None, a \<mapsto> c'))"
    (is "stack_ok _ _ _ ?L")
proof -
  have stack: "lease_stack (Some l) (sus @ [a]) = l # lease_stack (Some a) sus"
    by (simp add: lease_stack_def)
  have fresh: "l \<notin> set (lease_stack (Some a) sus)" "distinct (lease_stack (Some a) sus)" "a \<noteq> l"
    using assms(1) unfolding stack_ok_def stack by (auto simp: lease_stack_def)
  have prio: "priority_of ?L m = priority_of L m" if "m \<in> set (lease_stack (Some a) sus)" for m
    using that fresh assms(2,6) by (auto simp: priority_of_def)
  have dom: "?L m \<noteq> None \<longleftrightarrow> m \<in> set (lease_stack (Some a) sus)" for m
    using assms(1,2) fresh unfolding stack_ok_def stack by (auto simp: lease_stack_def)
  have ok: "lease_ok ep (Some a) m t" if "?L m = Some t" for m t
  proof (cases "m = a")
    case True
    with that stack_ok_lease(1) [OF assms(1,2)] assms(3-6) show ?thesis by (simp add: lease_ok_def)
  next
    case False
    with that have "m \<noteq> l" "L m = Some t" by (auto split: if_splits)
    from stack_ok_lease(1) [OF assms(1) this(2)] this(1) False show ?thesis by (simp add: lease_ok_def)
  qed
  have "sorted_wrt (\<lambda>l m. priority_of ?L m < priority_of ?L l) (lease_stack (Some a) sus)"
    using assms(1) sorted_by_cong [of "lease_stack (Some a) sus" "priority_of ?L" "priority_of L"] prio
    unfolding stack_ok_def stack by auto
  with fresh dom ok show ?thesis by (simp add: stack_ok_def)
qed


section \<open>Bindings and relationships\<close>

lemma bindings_ok_binding:
  assumes "bindings_ok L B" and "B i = Some c"
  obtains s where "bs_id c = i" "L (bs_lease c) = Some s" "ls_current s = Some i" "binding_fits s c"
  using assms unfolding bindings_ok_def by blast

lemma bindings_ok_lease:
  assumes "bindings_ok L B" and "L l = Some s"
  shows "case ls_current s of None \<Rightarrow> ls_state s = Neutral | Some i \<Rightarrow> \<exists>c. B i = Some c \<and> bs_lease c = l"
  using assms unfolding bindings_ok_def by blast

lemma bindings_okI:
  assumes "\<And>i c. B i = Some c \<Longrightarrow> bs_id c = i \<and>
      (\<exists>s. L (bs_lease c) = Some s \<and> ls_current s = Some i \<and> binding_fits s c)"
    and "\<And>l s. L l = Some s \<Longrightarrow>
      (case ls_current s of None \<Rightarrow> ls_state s = Neutral | Some i \<Rightarrow> \<exists>c. B i = Some c \<and> bs_lease c = l)"
  shows "bindings_ok L B"
  using assms unfolding bindings_ok_def by blast

lemma bindings_ok_current:
  assumes "bindings_ok L B" and "L l = Some s" and "ls_current s = Some i"
  obtains c where "B i = Some c" "bs_lease c = l" "bs_id c = i" "binding_fits s c"
proof -
  from bindings_ok_lease [OF assms(1,2)] assms(3) obtain c where c: "B i = Some c" "bs_lease c = l" by auto
  obtain t where "bs_id c = i" "L (bs_lease c) = Some t" "binding_fits t c"
    by (rule bindings_ok_binding [OF assms(1) c(1)])
  with c assms(2) that show ?thesis by auto
qed

lemma bindings_ok_none:
  "bindings_ok L B \<Longrightarrow> L l = Some s \<Longrightarrow> ls_current s = None \<Longrightarrow> ls_state s = Neutral"
  using bindings_ok_lease by fastforce

lemma bindings_ok_rebind:
  assumes "bindings_ok L B" and "B i = None" and "ls_id s = l" and "ls_current s = Some i"
    and "bs_id c = i" and "bs_lease c = l" and "binding_fits s c"
  shows "bindings_ok (L(l \<mapsto> s)) ((drop_if (\<lambda>b. bs_lease b = l) B)(i \<mapsto> c))"
    (is "bindings_ok ?L ?B")
proof (rule bindings_okI)
  fix j d assume d: "?B j = Some d"
  show "bs_id d = j \<and> (\<exists>s. ?L (bs_lease d) = Some s \<and> ls_current s = Some j \<and> binding_fits s d)" 
  proof (cases "j = i")
    case True
    with d assms show ?thesis by simp
  next
    case False
    with d have "B j = Some d" "bs_lease d \<noteq> l" by simp_all
    from bindings_ok_binding [OF assms(1) this(1)] this(2) show ?thesis by auto
  qed
next
  fix m t assume t: "?L m = Some t"
  show "case ls_current t of None \<Rightarrow> ls_state t = Neutral | Some i \<Rightarrow> \<exists>c. ?B i = Some c \<and> bs_lease c = m"
  proof (cases "m = l")
    case True
    with t assms(4,6) show ?thesis by auto
  next
    case False
    with t have L: "L m = Some t" by simp
    show ?thesis
    proof (cases "ls_current t")
      case None
      with bindings_ok_none [OF assms(1) L] show ?thesis by simp
    next
      case (Some j)
      from bindings_ok_lease [OF assms(1) L] Some obtain d where d: "B j = Some d" "bs_lease d = m" by auto
      with assms(2) have "j \<noteq> i" by auto
      with d False Some show ?thesis by simp
    qed
  qed
qed

lemma bindings_ok_unbind:
  assumes "bindings_ok L B" and "case x of None \<Rightarrow> True | Some s \<Rightarrow> ls_current s = None \<and> ls_state s = Neutral"
  shows "bindings_ok (L(l := x)) (drop_if (\<lambda>b. bs_lease b = l) B)"
    (is "bindings_ok ?L ?B")
proof (rule bindings_okI)
  fix j d assume "?B j = Some d"
  then have "B j = Some d" "bs_lease d \<noteq> l" by simp_all
  from bindings_ok_binding [OF assms(1) this(1)] this(2)
  show "bs_id d = j \<and> (\<exists>s. ?L (bs_lease d) = Some s \<and> ls_current s = Some j \<and> binding_fits s d)" by auto
next
  fix m t assume t: "?L m = Some t"
  show "case ls_current t of None \<Rightarrow> ls_state t = Neutral | Some i \<Rightarrow> \<exists>c. ?B i = Some c \<and> bs_lease c = m"
  proof (cases "m = l")
    case True
    with t assms(2) show ?thesis by simp
  next
    case False
    with t have L: "L m = Some t" by simp
    show ?thesis
    proof (cases "ls_current t")
      case None
      with bindings_ok_none [OF assms(1) L] show ?thesis by simp
    next
      case (Some j)
      from bindings_ok_lease [OF assms(1) L] Some obtain d where "B j = Some d" "bs_lease d = m" by auto
      with False Some show ?thesis by simp
    qed
  qed
qed

text \<open>What bindings and relationships see of a lease.\<close>

definition same_view :: "LeaseState \<Rightarrow> LeaseState \<Rightarrow> bool" where
  "same_view s s' \<longleftrightarrow> ls_id s' = ls_id s \<and> ls_epoch s' = ls_epoch s \<and> ls_generation s' = ls_generation s \<and>
     ls_backend_neutral s' = ls_backend_neutral s \<and> ls_state s' = ls_state s \<and> ls_current s' = ls_current s"

lemma binding_fits_view: "same_view s s' \<Longrightarrow> binding_fits s' c = binding_fits s c"
  by (simp add: same_view_def binding_fits_def)

lemma bindings_ok_view:
  assumes "bindings_ok L B" and "L l = Some s" and "same_view s s'"
  shows "bindings_ok (L(l \<mapsto> s')) B"
proof (rule bindings_okI)
  fix i c assume "B i = Some c"
  then obtain t where t: "bs_id c = i" "L (bs_lease c) = Some t" "ls_current t = Some i" "binding_fits t c"
    by (rule bindings_ok_binding [OF assms(1)])
  show "bs_id c = i \<and> (\<exists>t. (L(l \<mapsto> s')) (bs_lease c) = Some t \<and> ls_current t = Some i \<and> binding_fits t c)"
  proof (cases "bs_lease c = l")
    case True
    with t assms(2,3) binding_fits_view [OF assms(3), of c] show ?thesis by (simp add: same_view_def)
  qed (use t in simp)
next
  fix m t assume t: "(L(l \<mapsto> s')) m = Some t"
  show "case ls_current t of None \<Rightarrow> ls_state t = Neutral | Some i \<Rightarrow> \<exists>c. B i = Some c \<and> bs_lease c = m"
  proof (cases "m = l")
    case True
    with t bindings_ok_lease [OF assms(1,2)] assms(3) show ?thesis
      by (auto simp: same_view_def split: option.splits)
  next
    case False
    with t bindings_ok_lease [OF assms(1), of m t] show ?thesis by simp
  qed
qed

lemma bindings_ok_new_lease:
  assumes "bindings_ok L B" and "L l = None" and "ls_current s = None" and "ls_state s = Neutral"
  shows "bindings_ok (L(l \<mapsto> s)) B"
proof (rule bindings_okI)
  fix i c assume "B i = Some c"
  then obtain t where t: "bs_id c = i" "L (bs_lease c) = Some t" "ls_current t = Some i" "binding_fits t c"
    by (rule bindings_ok_binding [OF assms(1)])
  then have "bs_lease c \<noteq> l" using assms(2) by auto
  with t show "bs_id c = i \<and> (\<exists>t. (L(l \<mapsto> s)) (bs_lease c) = Some t \<and> ls_current t = Some i \<and> binding_fits t c)"
    by simp
next
  fix m t assume "(L(l \<mapsto> s)) m = Some t"
  with bindings_ok_lease [OF assms(1), of m t] assms(3,4)
  show "case ls_current t of None \<Rightarrow> ls_state t = Neutral | Some i \<Rightarrow> \<exists>c. B i = Some c \<and> bs_lease c = m"
    by (cases "m = l") auto
qed

lemma bindings_ok_observe:
  assumes "bindings_ok L B" and "B i = Some c" and "L l = Some s" and "bs_lease c = l"
    and "bs_id c' = bs_id c" "bs_lease c' = bs_lease c" "ls_current s' = ls_current s" "binding_fits s' c'"
  shows "bindings_ok (L(l \<mapsto> s')) (B(i \<mapsto> c'))"
    (is "bindings_ok ?L ?B")
proof -
  from bindings_ok_binding [OF assms(1,2)] assms(3,4) have c: "bs_id c = i" "ls_current s = Some i" by auto
  show ?thesis
  proof (rule bindings_okI)
    fix j d assume d: "?B j = Some d"
    show "bs_id d = j \<and> (\<exists>s. ?L (bs_lease d) = Some s \<and> ls_current s = Some j \<and> binding_fits s d)"
    proof (cases "j = i")
      case True
      with d c assms show ?thesis by simp
    next
      case False
      with d have B: "B j = Some d" by simp
      from bindings_ok_binding [OF assms(1) B] obtain t where
        t: "bs_id d = j" "L (bs_lease d) = Some t" "ls_current t = Some j" "binding_fits t d" .
      have "bs_lease d \<noteq> l" using t(2,3) assms(3) c(2) False by auto
      with t show ?thesis by simp
    qed
  next
    fix m t assume t: "?L m = Some t"
    show "case ls_current t of None \<Rightarrow> ls_state t = Neutral | Some i \<Rightarrow> \<exists>c. ?B i = Some c \<and> bs_lease c = m"
    proof (cases "m = l")
      case True
      with t c assms(4,6,7) show ?thesis by auto
    next
      case False
      with t have L: "L m = Some t" by simp
      show ?thesis
      proof (cases "ls_current t")
        case None
        with bindings_ok_none [OF assms(1) L] show ?thesis by simp
      next
        case (Some j)
        from bindings_ok_lease [OF assms(1) L] Some obtain d where d: "B j = Some d" "bs_lease d = m" by auto
        with assms(2,4) False have "j \<noteq> i" by auto
        with d Some show ?thesis by simp
      qed
    qed
  qed
qed

lemma relationships_ok_relationship:
  assumes "relationships_ok L R" and "R i = Some r"
  obtains s where "ir_id r = i" "L (ir_lease r) = Some s" "ls_epoch s = ir_epoch r"
    "ls_current s = Some (ir_binding r)" "ls_generation s = ir_generation r"
  using assms unfolding relationships_ok_def by blast

lemma relationships_ok_drop:
  "relationships_ok L R \<Longrightarrow> relationships_ok (L(l := x)) (drop_if (\<lambda>r. ir_lease r = l) R)"
  unfolding relationships_ok_def by fastforce

lemma relationships_ok_view:
  "relationships_ok L R \<Longrightarrow> L l = Some s \<Longrightarrow> ls_epoch s' = ls_epoch s \<Longrightarrow> ls_current s' = ls_current s \<Longrightarrow>
    ls_generation s' = ls_generation s \<Longrightarrow> relationships_ok (L(l \<mapsto> s')) R"
  unfolding relationships_ok_def by fastforce

lemma relationships_ok_new_lease:
  "relationships_ok L R \<Longrightarrow> L l = None \<Longrightarrow> relationships_ok (L(l \<mapsto> s)) R"
  unfolding relationships_ok_def by fastforce

lemma relationships_ok_erase: "relationships_ok L R \<Longrightarrow> relationships_ok L (R(i := None))"
  unfolding relationships_ok_def by simp

lemma relationships_ok_add:
  "relationships_ok L R \<Longrightarrow> ir_id r = i \<Longrightarrow> L (ir_lease r) = Some s \<Longrightarrow> ls_epoch s = ir_epoch r \<Longrightarrow>
    ls_current s = Some (ir_binding r) \<Longrightarrow> ls_generation s = ir_generation r \<Longrightarrow> relationships_ok L (R(i \<mapsto> r))"
  unfolding relationships_ok_def by simp

end
