(* ===== verification/InputOperations.thy ===== *)
theory InputOperations
  imports InputInvariant
begin

text \<open>
  Every operation of the arbiter keeps its invariant, as long as no counter has wrapped around: the
  bound of the invariant grows by one with every operation.
\<close>

section \<open>Counters\<close>

lemma counter_next:
  assumes "unat (c :: u64) \<le> Suc n" and "n + 2 < 2 ^ 64"
  shows "unat (c + 1) \<le> Suc (Suc n)" and "0 < c + 1" and "c < c + 1" and "x < c \<Longrightarrow> x < c + 1"
proof -
  have "unat (c + 1) = unat c + 1" using assms by (simp add: unat_word_ariths(1))
  with assms show "unat (c + 1) \<le> Suc (Suc n)" "0 < c + 1" "c < c + 1" "x < c \<Longrightarrow> x < c + 1"
    by (simp_all add: word_less_nat_alt)
qed

lemma arbiter_inv_mono: "arbiter_inv n A \<Longrightarrow> arbiter_inv (Suc n) A"
  unfolding arbiter_inv_def counters_ok_def by (auto intro: le_SucI)

lemma arbiter_inv_parts:
  assumes "arbiter_inv n A"
  shows "store_wf (leases A)" "store_wf (bindings A)" "store_wf (relationships A)"
    and "counters_ok n A"
    and "stack_ok (arb_epoch A) (active A) (suspended A) (store_find (leases A))"
    and "bindings_ok (store_find (leases A)) (store_find (bindings A))"
    and "relationships_ok (store_find (leases A)) (store_find (relationships A))"
    and "stopped_ok A"
  using assms unfolding arbiter_inv_def stores_ok_def by blast+

lemma counters_parts:
  assumes "counters_ok n A"
  shows "0 < next_lease A" "unat (next_lease A) \<le> Suc n" "0 < next_binding A" "unat (next_binding A) \<le> Suc n"
    "0 < next_publication A" "unat (next_publication A) \<le> Suc n"
    "0 < next_poll_receipt A" "unat (next_poll_receipt A) \<le> Suc n"
    "0 < next_delivery A" "unat (next_delivery A) \<le> Suc n"
    "0 < next_relationship A" "unat (next_relationship A) \<le> Suc n"
    "\<And>l s. store_find (leases A) l = Some s \<Longrightarrow> 0 < l \<and> l < next_lease A \<and>
        0 < ls_generation s \<and> unat (ls_generation s) \<le> Suc n"
    "\<And>i c. store_find (bindings A) i = Some c \<Longrightarrow> 0 < i \<and> i < next_binding A"
    "\<And>i r. store_find (relationships A) i = Some r \<Longrightarrow> 0 < i \<and> i < next_relationship A"
  using assms unfolding counters_ok_def by auto

lemma counters_okI:
  assumes "0 < next_lease A" "unat (next_lease A) \<le> Suc n" "0 < next_binding A" "unat (next_binding A) \<le> Suc n"
    "0 < next_publication A" "unat (next_publication A) \<le> Suc n"
    "0 < next_poll_receipt A" "unat (next_poll_receipt A) \<le> Suc n"
    "0 < next_delivery A" "unat (next_delivery A) \<le> Suc n"
    "0 < next_relationship A" "unat (next_relationship A) \<le> Suc n"
    "\<And>l s. store_find (leases A) l = Some s \<Longrightarrow> 0 < l \<and> l < next_lease A \<and>
        0 < ls_generation s \<and> unat (ls_generation s) \<le> Suc n"
    "\<And>i c. store_find (bindings A) i = Some c \<Longrightarrow> 0 < i \<and> i < next_binding A"
    "\<And>i r. store_find (relationships A) i = Some r \<Longrightarrow> 0 < i \<and> i < next_relationship A"
  shows "counters_ok n A"
  using assms unfolding counters_ok_def by auto

text \<open>A counter that an operation leaves or increments.\<close>

definition bumped :: "u64 \<Rightarrow> u64 \<Rightarrow> bool" where
  "bumped c c' \<longleftrightarrow> c' = c \<or> c' = c + 1"

lemma bumped_ok:
  assumes "bumped c c'" and "0 < c" and "unat c \<le> Suc n" and "n + 2 < 2 ^ 64"
  shows "0 < c'" and "unat c' \<le> Suc (Suc n)" and "x < c \<Longrightarrow> x < c'"
  using assms counter_next [OF assms(3,4)] unfolding bumped_def by (auto intro: le_SucI)

lemma next_binding_free: "arbiter_inv n A \<Longrightarrow> store_find (bindings A) (next_binding A) = None"
  using counters_parts(14) [OF arbiter_inv_parts(4), of n A "next_binding A"]
  by (cases "store_find (bindings A) (next_binding A)") auto

lemma next_lease_free: "arbiter_inv n A \<Longrightarrow> store_find (leases A) (next_lease A) = None"
  using counters_parts(13) [OF arbiter_inv_parts(4), of n A "next_lease A"]
  by (cases "store_find (leases A) (next_lease A)") auto

lemma next_relationship_free:
  "arbiter_inv n A \<Longrightarrow> store_find (relationships A) (next_relationship A) = None"
  using counters_parts(15) [OF arbiter_inv_parts(4), of n A "next_relationship A"]
  by (cases "store_find (relationships A) (next_relationship A)") auto

section \<open>Replacing the binding of a lease\<close>

lemma BindCurrentState_result:
  assumes "arbiter_inv n A" and "ls_id s = l"
  shows "snd (BindCurrentState s frame kind p d (A\<lparr>next_publication := np, next_delivery := nd\<rparr>)) =
    A\<lparr>next_publication := np, next_delivery := nd, next_binding := next_binding A + 1,
      leases := store_modify l (\<lambda>_. s\<lparr>ls_current := Some (next_binding A)\<rparr>) (leases A),
      bindings := store_emplace (next_binding A) (new_binding (next_binding A) s frame kind p d)
        (store_erase_if (\<lambda>b. bs_lease b = l) (bindings A)),
      relationships := store_erase_if (\<lambda>r. ir_lease r = l) (relationships A)\<rparr>"
  using assms(2) by (simp add: BindCurrentState_def EraseBindingsForLease_def EraseRelationshipsForLease_def
      set_lease_def Let_def)

lemma rebind_inv:
  assumes inv: "arbiter_inv n A" and room: "n + 2 < 2 ^ 64" and live: "\<not> stopped A"
    and lease: "store_find (leases A) l = Some s"
    and s': "ls_id s' = l" "ls_epoch s' = ls_epoch s" "ls_status s' = ls_status s" "ls_request s' = ls_request s"
    and gen: "bumped (ls_generation s) (ls_generation s')"
    and counters: "bumped (next_publication A) np" "bumped (next_delivery A) nd"
    and fits: "binding_fits (s'\<lparr>ls_current := Some (next_binding A)\<rparr>)
      (new_binding (next_binding A) s' frame kind p d)"
  shows "arbiter_inv (Suc n) (snd (BindCurrentState s' frame kind p d
    (A\<lparr>next_publication := np, next_delivery := nd\<rparr>)))"
proof -
  note parts = arbiter_inv_parts [OF inv]
  note cs = counters_parts [OF parts(4)]
  note succ = counter_next [OF _ room]
  let ?L = "store_find (leases A)" and ?B = "store_find (bindings A)" and ?R = "store_find (relationships A)"
  let ?s = "s'\<lparr>ls_current := Some (next_binding A)\<rparr>"
  let ?c = "new_binding (next_binding A) s' frame kind p d"
  have id: "ls_id s = l" using stack_ok_lease(1) [OF parts(5) lease] by (simp add: lease_ok_def)
  have free: "?B (next_binding A) = None" by (rule next_binding_free [OF inv])
  have maps: "store_find (store_modify l (\<lambda>_. ?s) (leases A)) = ?L(l \<mapsto> ?s)"
    "store_find (store_emplace (next_binding A) ?c (store_erase_if (\<lambda>b. bs_lease b = l) (bindings A))) =
      (drop_if (\<lambda>b. bs_lease b = l) ?B)(next_binding A \<mapsto> ?c)"
    "store_find (store_erase_if (\<lambda>r. ir_lease r = l) (relationships A)) = drop_if (\<lambda>r. ir_lease r = l) ?R"
    using lease free parts(2,3) by (simp_all add: store_maps drop_if_def)
  have stack: "stack_ok (arb_epoch A) (active A) (suspended A) (?L(l \<mapsto> ?s))"
    by (rule stack_ok_update [OF parts(5) lease]) (simp_all add: s' id)
  have binds: "bindings_ok (?L(l \<mapsto> ?s)) ((drop_if (\<lambda>b. bs_lease b = l) ?B)(next_binding A \<mapsto> ?c))"
    by (rule bindings_ok_rebind [OF parts(6) free]) (use s'(1) fits in \<open>simp_all add: new_binding_def\<close>)
  have rels: "relationships_ok (?L(l \<mapsto> ?s)) (drop_if (\<lambda>r. ir_lease r = l) ?R)"
    by (rule relationships_ok_drop [OF parts(7)])
  have g: "0 < ls_generation s'" "unat (ls_generation s') \<le> Suc (Suc n)"
    using bumped_ok [OF gen _ _ room] cs(13) [OF lease] by simp_all
  show ?thesis
    unfolding BindCurrentState_result [OF inv s'(1)] arbiter_inv_def stores_ok_def
  proof (intro conjI)
    show "counters_ok (Suc n) (A\<lparr>next_publication := np, next_delivery := nd, next_binding := next_binding A + 1,
      leases := store_modify l (\<lambda>_. ?s) (leases A),
      bindings := store_emplace (next_binding A) ?c (store_erase_if (\<lambda>b. bs_lease b = l) (bindings A)),
      relationships := store_erase_if (\<lambda>r. ir_lease r = l) (relationships A)\<rparr>)"
      (is "counters_ok _ ?A")
      by (rule counters_okI)
        (use cs g succ bumped_ok [OF counters(1) _ _ room] bumped_ok [OF counters(2) _ _ room] lease in
          \<open>auto simp: maps le_SucI split: if_splits\<close>)
  qed (use parts live in \<open>simp_all add: maps stack binds rels um.wf_intros stopped_ok_def\<close>)
qed

section \<open>Dropping the binding of a lease\<close>

lemma unbind_inv:
  assumes inv: "arbiter_inv n A" and room: "n + 2 < 2 ^ 64" and live: "\<not> stopped A"
    and lease: "store_find (leases A) l = Some s"
    and s': "ls_id s' = l" "ls_epoch s' = ls_epoch s" "ls_status s' = ls_status s" "ls_request s' = ls_request s"
      "ls_current s' = None" "ls_state s' = Neutral"
    and gen: "bumped (ls_generation s) (ls_generation s')"
    and counters: "bumped (next_publication A) np"
  shows "arbiter_inv (Suc n) ((EraseBindingsForLease l (A\<lparr>next_publication := np\<rparr>))
    \<lparr>leases := store_modify l (\<lambda>_. s') (leases A)\<rparr>)"
proof -
  note parts = arbiter_inv_parts [OF inv]
  note cs = counters_parts [OF parts(4)]
  let ?L = "store_find (leases A)" and ?B = "store_find (bindings A)" and ?R = "store_find (relationships A)"
  have id: "ls_id s = l" using stack_ok_lease(1) [OF parts(5) lease] by (simp add: lease_ok_def)
  have maps: "store_find (store_modify l (\<lambda>_. s') (leases A)) = ?L(l \<mapsto> s')"
    "store_find (store_erase_if (\<lambda>b. bs_lease b = l) (bindings A)) = drop_if (\<lambda>b. bs_lease b = l) ?B"
    "store_find (store_erase_if (\<lambda>r. ir_lease r = l) (relationships A)) = drop_if (\<lambda>r. ir_lease r = l) ?R"
    using lease parts(2,3) by (simp_all add: store_maps)
  have stack: "stack_ok (arb_epoch A) (active A) (suspended A) (?L(l \<mapsto> s'))"
    by (rule stack_ok_update [OF parts(5) lease]) (simp_all add: s' id)
  have binds: "bindings_ok (?L(l \<mapsto> s')) (drop_if (\<lambda>b. bs_lease b = l) ?B)"
    by (rule bindings_ok_unbind [OF parts(6)]) (simp add: s')
  have rels: "relationships_ok (?L(l \<mapsto> s')) (drop_if (\<lambda>r. ir_lease r = l) ?R)"
    by (rule relationships_ok_drop [OF parts(7)])
  have g: "0 < ls_generation s'" "unat (ls_generation s') \<le> Suc (Suc n)"
    using bumped_ok [OF gen _ _ room] cs(13) [OF lease] by simp_all
  have result: "(EraseBindingsForLease l (A\<lparr>next_publication := np\<rparr>))
      \<lparr>leases := store_modify l (\<lambda>_. s') (leases A)\<rparr> =
    A\<lparr>next_publication := np, leases := store_modify l (\<lambda>_. s') (leases A),
      bindings := store_erase_if (\<lambda>b. bs_lease b = l) (bindings A),
      relationships := store_erase_if (\<lambda>r. ir_lease r = l) (relationships A)\<rparr>" (is "_ = ?A")
    by (simp add: EraseBindingsForLease_def EraseRelationshipsForLease_def)
  show ?thesis
    unfolding result arbiter_inv_def stores_ok_def
  proof (intro conjI)
    show "counters_ok (Suc n) ?A"
      by (rule counters_okI)
        (use cs g bumped_ok [OF counters _ _ room] lease in \<open>auto simp: maps le_SucI split: if_splits\<close>)
  qed (use parts live in \<open>simp_all add: maps stack binds rels um.wf_intros stopped_ok_def\<close>)
qed

section \<open>Publishing\<close>

lemma PublishBackend_result:
  assumes "PublishBackend bk s frame (A, b) = (q, A', b')"
  obtains
    (failed) p where "port_publish bk (req_port (ls_request s)) frame b = (p, b')"
      "\<not> pub_ok p \<or> pub_epoch p = 0" "q = None" "A' = A"
  | (published) p where "port_publish bk (req_port (ls_request s)) frame b = (p, b')"
      "pub_ok p" "pub_epoch p \<noteq> 0" "q = Some \<lparr>ps_publication = next_publication A, ps_epoch = pub_epoch p\<rparr>"
      "A' = A\<lparr>next_publication := next_publication A + 1\<rparr>"
proof -
  obtain p b1 where run: "port_publish bk (req_port (ls_request s)) frame b = (p, b1)" by fastforce
  show thesis
  proof (cases "\<not> pub_ok p \<or> pub_epoch p = 0")
    case True
    with assms run have "q = None" "A' = A" "b' = b1" by (simp_all add: PublishBackend_def)
    with failed run True show thesis by blast
  next
    case False
    with assms run have "q = Some \<lparr>ps_publication = next_publication A, ps_epoch = pub_epoch p\<rparr>"
      "A' = A\<lparr>next_publication := next_publication A + 1\<rparr>" "b' = b1" by (simp_all add: PublishBackend_def)
    with published run False show thesis by blast
  qed
qed

text \<open>What a refused call did to the backend: nothing, or a publication that the backend refused.\<close>

definition unpublished :: "'b InputBackendPort \<Rightarrow> 'b \<Rightarrow> 'b \<Rightarrow> bool" where
  "unpublished bk b b' \<longleftrightarrow> b' = b \<or> (\<exists>port frame p. port_publish bk port frame b = (p, b') \<and>
     (\<not> pub_ok p \<or> pub_epoch p = 0))"

lemma unpublished_same [simp]: "unpublished bk b b"
  by (simp add: unpublished_def)

lemma unpublished_refused:
  "port_publish bk port frame b = (p, b') \<Longrightarrow> \<not> pub_ok p \<or> pub_epoch p = 0 \<Longrightarrow> unpublished bk b b'"
  unfolding unpublished_def by blast

end
