(* ===== verification/InputLeases.thy ===== *)
theory InputLeases
  imports InputOperations
begin

text \<open>
  The lease operations: what \<open>Acquire\<close>, \<open>Borrow\<close>, \<open>CloseLease\<close>, \<open>Shutdown\<close> and
  \<open>InitializeWorksetEpoch\<close> make of the arbiter, and that they keep its invariant.
\<close>

lemma store_none: "(\<And>k. store_find m k = None) \<Longrightarrow> m = []"
  using map_of_eq_empty_iff [of m] by (simp add: store_find_def fun_eq_iff)

lemma arbiter_lease:
  assumes "arbiter_inv n A" and "store_find (leases A) l = Some s"
  shows "ls_id s = l" "ls_epoch s = arb_epoch A" "arb_epoch A \<noteq> 0"
    "ls_status s = (if active A = Some l then Active else Suspended)"
    "l \<in> set (lease_stack (active A) (suspended A))"
    "active A \<noteq> Some l \<Longrightarrow> req_suspendable (ls_request s) \<and> \<not> req_movie_exclusive (ls_request s)"
  using stack_ok_lease(1) [OF arbiter_inv_parts(5) [OF assms(1)] assms(2)] arbiter_inv_parts(5) [OF assms(1)] assms(2)
  by (auto simp: lease_ok_def stack_ok_def split: if_splits)

lemma arbiter_active:
  assumes "arbiter_inv n A" and "active A = Some a"
  obtains s where "store_find (leases A) a = Some s" "ls_id s = a" "ls_status s = Active"
proof -
  have "a \<in> set (lease_stack (active A) (suspended A))" using assms(2) by (simp add: lease_stack_def)
  then have "store_find (leases A) a \<noteq> None"
    using arbiter_inv_parts(5) [OF assms(1)] unfolding stack_ok_def by blast
  then obtain s where "store_find (leases A) a = Some s" by auto
  with arbiter_lease [OF assms(1) this] assms(2) that show thesis by simp
qed

lemma arbiter_idle:
  assumes "arbiter_inv n A" and "active A = None"
  shows "suspended A = []" "leases A = []" "bindings A = []" "relationships A = []"
proof -
  note parts = arbiter_inv_parts [OF assms(1)]
  show sus: "suspended A = []" using parts(5) assms(2) by (simp add: stack_ok_def)
  have none: "store_find (leases A) l = None" for l
    using parts(5) assms(2) sus by (simp add: stack_ok_def lease_stack_def)
  then show "leases A = []" using parts(1) by (metis store_none)
  have "store_find (bindings A) i = None" for i
    using parts(6) none unfolding bindings_ok_def by (cases "store_find (bindings A) i") auto
  then show "bindings A = []" using parts(2) by (metis store_none)
  have "store_find (relationships A) i = None" for i
    using parts(7) none unfolding relationships_ok_def by (cases "store_find (relationships A) i") auto
  then show "relationships A = []" using parts(3) by (metis store_none)
qed


section \<open>Acquiring\<close>

text \<open>The arbiter with one more lease, active.\<close>

definition granted :: "InputLeaseRequest \<Rightarrow> u64 \<Rightarrow> bool \<Rightarrow> InputArbiter \<Rightarrow> LeaseState" where
  "granted request epoch inherits A = \<lparr>ls_request = request, ls_id = next_lease A, ls_epoch = epoch,
     ls_status = Active, ls_state = Neutral, ls_generation = 1, ls_current = None,
     ls_backend_neutral = (\<not> inherits), ls_mutated = False\<rparr>"

lemma grant_lease_result:
  "grant_lease request epoch inherits A = (r, A') \<Longrightarrow> lr_ok r \<and> lr_lease r = next_lease A \<and>
    A' = A\<lparr>next_lease := next_lease A + 1,
      leases := store_emplace (next_lease A) (granted request epoch inherits A) (leases A),
      active := Some (next_lease A)\<rparr>"
  by (auto simp: grant_lease_def granted_def Let_def)

lemma grant_inv:
  assumes inv: "arbiter_inv n A" and room: "n + 2 < 2 ^ 64" and live: "\<not> stopped A"
    and stack: "stack_ok ep (Some (next_lease A)) sus ((store_find L')(next_lease A \<mapsto> s))"
    and s: "ls_id s = next_lease A" "ls_generation s = 1" "ls_current s = None" "ls_state s = Neutral"
    and wf: "store_wf L'" and L': "store_find L' (next_lease A) = None"
    and binds: "bindings_ok (store_find L') (store_find (bindings A))"
    and rels: "relationships_ok (store_find L') (store_find (relationships A))"
    and old: "\<And>l t. store_find L' l = Some t \<Longrightarrow> \<exists>t'. store_find (leases A) l = Some t' \<and> ls_generation t = ls_generation t'"
  shows "arbiter_inv (Suc n) (A\<lparr>arb_epoch := ep, next_lease := next_lease A + 1,
    leases := store_emplace (next_lease A) s L', active := Some (next_lease A), suspended := sus\<rparr>)"
proof -
  note parts = arbiter_inv_parts [OF inv]
  note cs = counters_parts [OF parts(4)]
  note succ = counter_next [OF cs(2) room]
  have map: "store_find (store_emplace (next_lease A) s L') = (store_find L')(next_lease A \<mapsto> s)"
    by (rule store_maps(3) [OF L'])
  have gens: "0 < l \<and> l < next_lease A + 1 \<and> 0 < ls_generation t \<and> unat (ls_generation t) \<le> Suc (Suc n)"
    if "((store_find L')(next_lease A \<mapsto> s)) l = Some t" for l t
  proof (cases "l = next_lease A")
    case True
    with that s cs(1) succ show ?thesis by simp
  next
    case False
    with that old obtain t' where "store_find (leases A) l = Some t'" "ls_generation t = ls_generation t'"
      by fastforce
    with cs(13) [of l t'] succ(4) [of l] show ?thesis by auto
  qed
  have counters: "counters_ok (Suc n) (A\<lparr>arb_epoch := ep, next_lease := next_lease A + 1,
    leases := store_emplace (next_lease A) s L', active := Some (next_lease A), suspended := sus\<rparr>)"
    by (rule counters_okI) (use cs(3-12) cs(14-15) succ gens in \<open>simp_all add: map le_SucI\<close>)
  have binds': "bindings_ok ((store_find L')(next_lease A \<mapsto> s)) (store_find (bindings A))"
    by (rule bindings_ok_new_lease [OF binds L' s(3,4)])
  have rels': "relationships_ok ((store_find L')(next_lease A \<mapsto> s)) (store_find (relationships A))"
    by (rule relationships_ok_new_lease [OF rels L'])
  show ?thesis
    unfolding arbiter_inv_def stores_ok_def using counters stack binds' rels' wf parts live
    by (simp add: map um.wf_intros stopped_ok_def)
qed

lemma lease_acquire_result:
  assumes inv: "arbiter_inv n A" and run: "Acquire bk th req ep (A, b) = (r, A', b')"
  obtains
    (refused) "\<not> lr_ok r" "A' = A" "b' = b"
  | (first) "lr_ok r" "lr_lease r = next_lease A" "b' = b" "\<not> stopped A" "active A = None" "ep \<noteq> 0"
      "arb_epoch A = 0 \<or> arb_epoch A = ep" "req_movie_exclusive req \<or> port_available bk (req_port req) b"
      "A' = A\<lparr>arb_epoch := ep, next_lease := next_lease A + 1,
        leases := store_emplace (next_lease A) (granted req ep False A) (leases A),
        active := Some (next_lease A), suspended := suspended A\<rparr>"
  | (pushed) a s where "lr_ok r" "lr_lease r = next_lease A" "b' = b" "\<not> stopped A" "active A = Some a"
      "store_find (leases A) a = Some s" "arb_epoch A = ep"
      "req_movie_exclusive req \<or> port_available bk (req_port req) b"
      "req_suspendable (ls_request s)" "\<not> req_movie_exclusive (ls_request s)"
      "sint (req_priority (ls_request s)) < sint (req_priority req)"
      "A' = A\<lparr>arb_epoch := ep, next_lease := next_lease A + 1,
        leases := store_emplace (next_lease A) (granted req ep True A)
          (store_modify a (\<lambda>_. s\<lparr>ls_status := Suspended\<rparr>) (leases A)),
        active := Some (next_lease A), suspended := suspended A @ [a]\<rparr>"
proof -
  have refused_lease: "\<not> lr_ok (refused_lease e m k)" for e m k by (simp add: refused_lease_def)
  show thesis
  proof (cases "\<not> OnOwnerThread th A \<or> IsStopped A \<or> req_owner req = 0 \<or> ep = 0 \<or>
      \<not> req_movie_exclusive req \<and> \<not> port_available bk (req_port req) b \<or>
      arb_epoch A \<noteq> 0 \<and> arb_epoch A \<noteq> ep")
    case True
    with run have "\<not> lr_ok r \<and> A' = A \<and> b' = b"
      by (auto simp: Acquire_def refused_lease split: if_splits)
    with refused show thesis by blast
  next
    case False
    then have ok: "\<not> stopped A" "ep \<noteq> 0" "arb_epoch A = 0 \<or> arb_epoch A = ep"
    "req_movie_exclusive req \<or> port_available bk (req_port req) b" by (auto simp: IsStopped_def)
    show thesis
    proof (cases "active A")
      case None
      from run False None obtain r0 A0 where g: "grant_lease req ep False (A\<lparr>arb_epoch := ep\<rparr>) = (r0, A0)"
        "r = r0" "A' = A0" "b' = b"
        by (auto simp: Acquire_def Let_def split: if_splits prod.splits)
      from grant_lease_result [OF g(1)] g(2-4) show thesis
        by (intro first [OF _ _ _ ok(1) None ok(2-4)]) (simp_all add: granted_def)
    next
      case (Some a)
      obtain s where s: "store_find (leases A) a = Some s" "ls_id s = a"
        by (rule arbiter_active [OF inv Some])
      have ep: "arb_epoch A = ep" using arbiter_lease(3) [OF inv s(1)] ok(3) by simp
      show thesis
      proof (cases "req_movie_exclusive (ls_request s) \<or> \<not> req_suspendable (ls_request s) \<or>
          sint (req_priority req) \<le> sint (req_priority (ls_request s))")
        case True
        with run False Some s ep ok have "\<not> lr_ok r \<and> A' = A \<and> b' = b"
          by (auto simp: Acquire_def refused_lease FindLease_def Let_def split: if_splits)
        with refused show thesis by blast
      next
        case free: False
        let ?A = "A\<lparr>leases := store_modify a (\<lambda>_. s\<lparr>ls_status := Suspended\<rparr>) (leases A),
          suspended := suspended A @ [a]\<rparr>"
        from run False Some s ep ok free obtain r0 A0 where g: "grant_lease req ep True ?A = (r0, A0)"
          "r = r0" "A' = A0" "b' = b"
          by (auto simp: Acquire_def FindLease_def set_lease_def Let_def split: if_splits prod.splits)
        from grant_lease_result [OF g(1)] g(2-4) free ep show thesis
          by (intro pushed [OF _ _ _ ok(1) Some s(1) ep ok(4)]) (simp_all add: granted_def)
      qed
    qed
  qed
qed

lemma lease_acquire_inv:
  assumes inv: "arbiter_inv n A" and room: "n + 2 < 2 ^ 64" and run: "Acquire bk th req ep (A, b) = (r, A', b')"
  shows "arbiter_inv (Suc n) A'"
  using inv run
proof (cases rule: lease_acquire_result)
  case refused
  with arbiter_inv_mono [OF inv] show ?thesis by simp
next
  case first
  note parts = arbiter_inv_parts [OF inv]
  have empty: "store_find (leases A) = (\<lambda>_. None)" "suspended A = []"
    using arbiter_idle [OF inv first(5)] store_empty by simp_all
  have "stack_ok ep None [] (\<lambda>_. None)" by (simp add: stack_ok_def lease_stack_def)
  then have "stack_ok ep (Some (next_lease A)) (suspended A)
      ((store_find (leases A))(next_lease A \<mapsto> granted req ep False A))"
    unfolding empty by (rule stack_ok_first) (simp add: lease_ok_def granted_def first(6))
  then show ?thesis
    unfolding first(9)
    by (rule grant_inv [OF inv room first(4)])
      (use parts next_lease_free [OF inv] in \<open>simp_all add: granted_def\<close>)
next
  case (pushed a s)
  note parts = arbiter_inv_parts [OF inv]
  let ?s = "s\<lparr>ls_status := Suspended\<rparr>" and ?L = "store_find (leases A)"
  have free: "?L (next_lease A) = None" "next_lease A \<noteq> a"
    using next_lease_free [OF inv] pushed(6) by auto
  have map: "store_find (store_modify a (\<lambda>_. ?s) (leases A)) = ?L(a \<mapsto> ?s)"
    using pushed(6) by (simp add: store_maps)
  have "stack_ok ep (Some (next_lease A)) (suspended A @ [a])
      (?L(a \<mapsto> ?s, next_lease A \<mapsto> granted req ep True A))"
    using parts(5) pushed(5,7) arbiter_lease(3) [OF inv pushed(6)] free pushed(6,9-11)
    by (intro stack_ok_push) (simp_all add: lease_ok_def granted_def)
  moreover have "bindings_ok (?L(a \<mapsto> ?s)) (store_find (bindings A))"
    by (rule bindings_ok_view [OF parts(6) pushed(6)]) (simp add: same_view_def)
  moreover have "relationships_ok (?L(a \<mapsto> ?s)) (store_find (relationships A))"
    by (rule relationships_ok_view [OF parts(7) pushed(6)]) simp_all
  ultimately show ?thesis
    unfolding pushed(12)
    by (intro grant_inv [OF inv room pushed(4)])
      (use parts(1) free pushed(6) in \<open>auto simp: map granted_def um.wf_intros split: if_splits\<close>)
qed

lemma Borrow_result:
  assumes "Borrow bk th parent req ep (A, b) = (r, A', b')"
  obtains (refused) "\<not> lr_ok r" "A' = A" "b' = b"
  | (acquired) s where "FindLease parent A = Some s" "active A = Some parent"
      "req_borrowable (ls_request s)"
      "req_borrow_policy (ls_request s) = RequireStableNeutral \<longrightarrow> ls_state s = Neutral \<and> ls_backend_neutral s"
      "Acquire bk th (req\<lparr>req_priority :=
        borrowed_priority (req_priority req) (req_priority (ls_request s))\<rparr>) ep (A, b) = (r, A', b')"
  using assms
  by (auto simp: Borrow_def refused_lease_def split: if_splits option.splits)

lemma Borrow_inv:
  "arbiter_inv n A \<Longrightarrow> n + 2 < 2 ^ 64 \<Longrightarrow> Borrow bk th parent req ep (A, b) = (r, A', b') \<Longrightarrow>
    arbiter_inv (Suc n) A'"
  by (erule Borrow_result) (auto intro: arbiter_inv_mono lease_acquire_inv)

section \<open>Closing\<close>

text \<open>The lease that a close resumes: as it was, or neutral again when the closed one had published.\<close>

definition resumed_lease :: "bool \<Rightarrow> LeaseState \<Rightarrow> LeaseState" where
  "resumed_lease mutated c = (if mutated
     then c\<lparr>ls_status := Active, ls_generation := ls_generation c + 1, ls_state := Neutral,
       ls_backend_neutral := True, ls_mutated := True, ls_current := None\<rparr>
     else c\<lparr>ls_status := Active\<rparr>)"

definition resumed_bindings :: "bool \<Rightarrow> u64 \<Rightarrow> u64 \<Rightarrow> BindingState store \<Rightarrow> BindingState store" where
  "resumed_bindings mutated l a m = (let m = store_erase_if (\<lambda>x. bs_lease x = l) m
     in if mutated then store_erase_if (\<lambda>x. bs_lease x = a) m else m)"

definition resumed_relationships :: "bool \<Rightarrow> u64 \<Rightarrow> u64 \<Rightarrow> RelationshipState store \<Rightarrow> RelationshipState store" where
  "resumed_relationships mutated l a m = (let m = store_erase_if (\<lambda>x. ir_lease x = l) m
     in if mutated then store_erase_if (\<lambda>x. ir_lease x = a) m else m)"

lemma FinishClose_result:
  assumes inv: "arbiter_inv n A" and l: "active A = Some l" and id: "ls_id s = l"
    and run: "FinishClose s (A\<lparr>next_publication := np\<rparr>) = (r, A')"
  obtains
    (emptied) "suspended A = []" "cr_ok r" "cr_resumed r = None" "cr_neutral_publication r = 0"
      "A' = A\<lparr>next_publication := np, active := None, suspended := [], leases := store_erase l (leases A),
        bindings := store_erase_if (\<lambda>x. bs_lease x = l) (bindings A),
        relationships := store_erase_if (\<lambda>x. ir_lease x = l) (relationships A)\<rparr>"
  | (resumed) below a c where "suspended A = below @ [a]" "store_find (leases A) a = Some c" "a \<noteq> l"
      "cr_ok r" "cr_resumed r = Some a" "cr_neutral_publication r = 0"
      "A' = A\<lparr>next_publication := np, active := Some a, suspended := below,
        leases := store_modify a (\<lambda>_. resumed_lease (ls_mutated s) c) (store_erase l (leases A)),
        bindings := resumed_bindings (ls_mutated s) l a (bindings A),
        relationships := resumed_relationships (ls_mutated s) l a (relationships A)\<rparr>"
proof -
  have distinct: "distinct (l # rev (suspended A))"
    using arbiter_inv_parts(5) [OF inv] l by (simp add: stack_ok_def lease_stack_def)
  then have filter: "filter (\<lambda>x. x \<noteq> l) (suspended A) = suspended A" by (auto simp: filter_id_conv)
  have cleared: "EraseLeaseState l (A\<lparr>next_publication := np, active := None\<rparr>) =
    A\<lparr>next_publication := np, active := None, leases := store_erase l (leases A),
        bindings := store_erase_if (\<lambda>x. bs_lease x = l) (bindings A),
        relationships := store_erase_if (\<lambda>x. ir_lease x = l) (relationships A)\<rparr>" (is "_ = ?A")
    by (simp add: EraseLeaseState_def EraseBindingsForLease_def EraseRelationshipsForLease_def)
  obtain res A1 where loop: "resume_loop (ls_mutated s) (rev (suspended A)) ?A = (res, A1)"
    by fastforce
  have run': "A' = A1" "cr_ok r" "cr_resumed r = res" "cr_neutral_publication r = 0"
    using run loop by (auto simp: FinishClose_def id filter cleared Let_def)
  show thesis
  proof (cases "suspended A" rule: rev_cases)
    case Nil
    with loop run' show thesis by (intro emptied) auto
  next
    case (snoc below a)
    have al: "a \<noteq> l" using distinct snoc by auto
    have "a \<in> set (lease_stack (active A) (suspended A))" by (simp add: lease_stack_def snoc)
    then obtain c where c: "store_find (leases A) a = Some c"
      using arbiter_inv_parts(5) [OF inv] unfolding stack_ok_def by blast
    have facts: "ls_id c = a" "ls_status c = Suspended" "ls_epoch c = arb_epoch A"
      using arbiter_lease [OF inv c] l al by auto
    have find: "FindLease a ?A = Some c" using c al by (simp add: FindLease_def um.find_simps)
    have top: "rev (suspended A) = a # rev below" by (simp add: snoc)
    have "A1 = A\<lparr>next_publication := np, active := Some a, suspended := below,
        leases := store_modify a (\<lambda>_. resumed_lease (ls_mutated s) c) (store_erase l (leases A)),
        bindings := resumed_bindings (ls_mutated s) l a (bindings A),
        relationships := resumed_relationships (ls_mutated s) l a (relationships A)\<rparr> \<and> res = Some a"
      using loop facts unfolding top resume_loop.simps find
      by (auto simp: Let_def set_lease_def EraseBindingsForLease_def EraseRelationshipsForLease_def
          resumed_lease_def resumed_bindings_def resumed_relationships_def split: if_splits)
    with run' show thesis by (intro resumed [OF snoc c al]) auto
  qed
qed

lemma FinishClose_inv:
  assumes inv: "arbiter_inv n A" and room: "n + 2 < 2 ^ 64" and live: "\<not> stopped A"
    and l: "active A = Some l" and id: "ls_id s = l" and np: "bumped (next_publication A) np"
    and run: "FinishClose s (A\<lparr>next_publication := np\<rparr>) = (r, A')"
  shows "arbiter_inv (Suc n) A'"
proof -
  note parts = arbiter_inv_parts [OF inv]
  note cs = counters_parts [OF parts(4)]
  note pub = bumped_ok [OF np cs(5,6) room]
  let ?L = "store_find (leases A)" and ?B = "store_find (bindings A)" and ?R = "store_find (relationships A)"
  have maps: "store_find (store_erase l (leases A)) = ?L(l := None)"
    "store_find (store_erase_if (\<lambda>x. bs_lease x = l) (bindings A)) = drop_if (\<lambda>x. bs_lease x = l) ?B"
    "store_find (store_erase_if (\<lambda>x. ir_lease x = l) (relationships A)) = drop_if (\<lambda>x. ir_lease x = l) ?R"
    using parts(2,3) by (simp_all add: store_maps)
  have binds: "bindings_ok (?L(l := None)) (drop_if (\<lambda>x. bs_lease x = l) ?B)"
    by (rule bindings_ok_unbind [OF parts(6)]) simp
  have rels: "relationships_ok (?L(l := None)) (drop_if (\<lambda>x. ir_lease x = l) ?R)"
    by (rule relationships_ok_drop [OF parts(7)])
  from inv l id run show ?thesis
  proof (cases rule: FinishClose_result)
    case emptied
    have stack: "stack_ok (arb_epoch A) None [] (?L(l := None))"
      using parts(5) l emptied(1) by (intro stack_ok_last) simp
    have counters: "counters_ok (Suc n) A'"
      unfolding emptied(5)
      by (rule counters_okI) (use cs pub in \<open>auto simp: maps le_SucI split: if_splits\<close>)
    show ?thesis
      unfolding arbiter_inv_def stores_ok_def using counters stack binds rels parts(1-3) live parts(8)
      by (simp add: emptied(5) maps um.wf_intros stopped_ok_def)
  next
    case (resumed below a c)
    let ?c = "resumed_lease (ls_mutated s) c"
    let ?L' = "?L(l := None, a \<mapsto> ?c)"
    let ?B' = "if ls_mutated s then drop_if (\<lambda>x. bs_lease x = a) (drop_if (\<lambda>x. bs_lease x = l) ?B)
      else drop_if (\<lambda>x. bs_lease x = l) ?B"
    let ?R' = "if ls_mutated s then drop_if (\<lambda>x. ir_lease x = a) (drop_if (\<lambda>x. ir_lease x = l) ?R)
      else drop_if (\<lambda>x. ir_lease x = l) ?R"
    have maps': "store_find (store_modify a (\<lambda>_. ?c) (store_erase l (leases A))) = ?L'"
      "store_find (resumed_bindings (ls_mutated s) l a (bindings A)) = ?B'"
      "store_find (resumed_relationships (ls_mutated s) l a (relationships A)) = ?R'"
      using parts(1-3) resumed(2,3)
      by (simp_all add: resumed_bindings_def resumed_relationships_def store_maps maps um.wf_intros fun_eq_iff)
    have wf: "store_wf (resumed_bindings (ls_mutated s) l a (bindings A))"
      "store_wf (resumed_relationships (ls_mutated s) l a (relationships A))"
      using parts(2,3) by (simp_all add: resumed_bindings_def resumed_relationships_def Let_def um.wf_intros)
    have c: "(?L(l := None)) a = Some c" using resumed(2,3) by simp
    have stack: "stack_ok (arb_epoch A) (Some a) below ?L'"
      using parts(5) l resumed(1) resumed(2)
      by (intro stack_ok_pop [where L = ?L and c = c]) (simp_all add: resumed_lease_def)
    have binds': "bindings_ok ?L' ?B'"
    proof (cases "ls_mutated s")
      case True
      then have "bindings_ok ?L' (drop_if (\<lambda>x. bs_lease x = a) (drop_if (\<lambda>x. bs_lease x = l) ?B))"
        by (intro bindings_ok_unbind [OF binds]) (simp add: resumed_lease_def)
      then show ?thesis by (simp only: True if_True)
    next
      case False
      then have "same_view c ?c" by (simp add: resumed_lease_def same_view_def)
      from bindings_ok_view [OF binds c this] show ?thesis by (simp only: False if_False)
    qed
    have rels': "relationships_ok ?L' ?R'"
    proof (cases "ls_mutated s")
      case True
      from relationships_ok_drop [OF rels, of a "Some ?c"] show ?thesis by (simp only: True if_True)
    next
      case False
      then have "ls_epoch ?c = ls_epoch c" "ls_current ?c = ls_current c" "ls_generation ?c = ls_generation c"
        by (simp_all add: resumed_lease_def)
      from relationships_ok_view [OF rels c this] show ?thesis by (simp only: False if_False)
    qed
    have "bumped (ls_generation c) (ls_generation ?c)" by (simp add: bumped_def resumed_lease_def)
    then have gen: "0 < ls_generation ?c" "unat (ls_generation ?c) \<le> Suc (Suc n)"
      using bumped_ok [OF _ _ _ room] cs(13) [OF resumed(2)] by blast+
    have counters: "counters_ok (Suc n) A'"
      unfolding resumed(7)
    proof (rule counters_okI, goal_cases)
      case (13 m t)
      with cs(13) gen resumed(2) show ?case by (auto simp: maps' le_SucI split: if_splits)
    next
      case (14 i x)
      then have "?B i = Some x" by (simp add: maps' split: if_splits)
      with cs(14) show ?case by simp
    next
      case (15 i x)
      then have "?R i = Some x" by (simp add: maps' split: if_splits)
      with cs(15) show ?case by simp
    qed (use cs(1-12) pub in \<open>simp_all add: le_SucI\<close>)
    show ?thesis
      unfolding arbiter_inv_def stores_ok_def using counters stack binds' rels' parts(1) wf live parts(8)
      by (simp add: resumed(7) maps' um.wf_intros stopped_ok_def)
  qed
qed

lemma CloseLease_result:
  assumes run: "CloseLease bk th l ep (A, b) = (r, A', b')"
  obtains
    (refused) "\<not> cr_ok r" "A' = A" "unpublished bk b b'"
  | (absent) "cr_ok r" "A' = A" "b' = b" "FindLease l A = None" "cr_resumed r = None"
  | (kept) s where "\<not> stopped A" "active A = Some l" "FindLease l A = Some s" "b' = b"
      "FinishClose s A = (r, A')"
      "suspended A \<noteq> [] \<and> \<not> ls_mutated s \<or> ls_backend_neutral s \<or>
        req_movie_exclusive (ls_request s) \<and> \<not> port_available bk (req_port (ls_request s)) b"
  | (neutralised) s p r0 where "\<not> stopped A" "active A = Some l" "FindLease l A = Some s"
      "port_publish bk (req_port (ls_request s)) NeutralFrame b = (p, b')" "pub_ok p" "pub_epoch p \<noteq> 0"
      "FinishClose (s\<lparr>ls_backend_neutral := True, ls_mutated := True\<rparr>)
        (A\<lparr>next_publication := next_publication A + 1\<rparr>) = (r0, A')"
      "r = r0\<lparr>cr_neutral_publication := next_publication A\<rparr>"
proof (cases "\<not> OnOwnerThread th A \<or> IsStopped A")
  case True
  with run have "\<not> cr_ok r" "A' = A" "b' = b"
    by (auto simp: CloseLease_def close_receipt_def split: if_splits)
  with refused show thesis by simp
next
  case on: False
  show thesis
  proof (cases "FindLease l A")
    case None
    with on run absent show thesis by (auto simp: CloseLease_def close_receipt_def)
  next
    case (Some s)
    show thesis
    proof (cases "\<not> IsCurrent ep A \<or> ls_epoch s \<noteq> ep \<or> active A \<noteq> Some l")
      case True
      with on Some run have "\<not> cr_ok r" "A' = A" "b' = b"
        by (auto simp: CloseLease_def close_receipt_def split: if_splits)
      with refused show thesis by simp
    next
      case current: False
      then have live: "\<not> stopped A" "active A = Some l" using on by (simp_all add: IsStopped_def)
      let ?publish = "\<not> (suspended A \<noteq> [] \<and> \<not> ls_mutated s) \<and>
        \<not> (req_movie_exclusive (ls_request s) \<and> \<not> port_available bk (req_port (ls_request s)) b) \<and>
        \<not> ls_backend_neutral s"
      show thesis
      proof (cases ?publish)
        case False
        have "FinishClose s A = (r, A') \<and> b' = b"
          using run on Some current unfolding CloseLease_def
          by (simp only: if_not_P [OF False] Let_def prod.case option.case if_False simp_thms split: prod.splits)
            auto
        with False show thesis by (intro kept [OF live Some]) auto
      next
        case True
        obtain q A1 b1 where pub: "PublishBackend bk s NeutralFrame (A, b) = (q, A1, b1)" by (rule prod_cases3)
        have run': "(case (q, A1, b1) of
            (None, S') \<Rightarrow> (close_receipt False (ls_status s) l ep (Some BackendRefused) BackendFailure, S')
          | (Some p, A, b) \<Rightarrow>
              let (r, A) = FinishClose (s\<lparr>ls_backend_neutral := True, ls_mutated := True\<rparr>) A
              in (r\<lparr>cr_neutral_publication := ps_publication p\<rparr>, A, b)) = (r, A', b')"
          using run on Some current True pub by (simp add: CloseLease_def)
        from pub show thesis
        proof (cases rule: PublishBackend_result)
          case (failed p)
          with run' have "\<not> cr_ok r" "A' = A" "b1 = b'" by (auto simp: close_receipt_def)
          with refused failed show thesis by (blast intro: unpublished_refused)
        next
          case (published p)
          obtain r0 A2 where fin: "FinishClose (s\<lparr>ls_backend_neutral := True, ls_mutated := True\<rparr>) A1 = (r0, A2)"
            by fastforce
          with run' published have "r = r0\<lparr>cr_neutral_publication := next_publication A\<rparr>" "A' = A2" "b' = b1"
            by auto
          with neutralised [OF live Some] published fin show thesis by blast
        qed
      qed
    qed
  qed
qed

lemma CloseLease_inv:
  assumes inv: "arbiter_inv n A" and room: "n + 2 < 2 ^ 64" and run: "CloseLease bk th l ep (A, b) = (r, A', b')"
  shows "arbiter_inv (Suc n) A'"
  using run
proof (cases rule: CloseLease_result)
  case (kept s)
  have id: "ls_id s = l" using arbiter_lease [OF inv] kept(3) by (simp add: FindLease_def)
  have "FinishClose s (A\<lparr>next_publication := next_publication A\<rparr>) = (r, A')" using kept(5) by simp
  from FinishClose_inv [OF inv room kept(1,2) id _ this] show ?thesis by (simp add: bumped_def)
next
  case (neutralised s p r0)
  have id: "ls_id (s\<lparr>ls_backend_neutral := True, ls_mutated := True\<rparr>) = l"
    using arbiter_lease [OF inv] neutralised(3) by (simp add: FindLease_def)
  from FinishClose_inv [OF inv room neutralised(1,2) id _ neutralised(7)] show ?thesis
    by (simp add: bumped_def)
qed (use arbiter_inv_mono [OF inv] in simp_all)

section \<open>The epoch and the end\<close>

lemma stack_ok_idle: "stack_ok ep None [] (\<lambda>_. None)"
  by (simp add: stack_ok_def lease_stack_def)

lemma InitializeWorksetEpoch_result:
  assumes inv: "arbiter_inv n A" and run: "InitializeWorksetEpoch th ep A = (r, A')"
  shows "A' = A \<or> ep \<noteq> 0 \<and> A' = A\<lparr>arb_epoch := ep\<rparr> \<and> active A = None"
proof -
  have "active A = None" if "arb_epoch A = 0"
    using arbiter_active [OF inv] arbiter_lease(3) [OF inv] that by (metis not_Some_eq)
  with run show ?thesis by (auto simp: InitializeWorksetEpoch_def split: if_splits)
qed

lemma InitializeWorksetEpoch_inv:
  assumes inv: "arbiter_inv n A" and run: "InitializeWorksetEpoch th ep A = (r, A')"
  shows "arbiter_inv (Suc n) A'"
  using InitializeWorksetEpoch_result [OF assms]
proof (elim disjE conjE)
  assume e: "A' = A\<lparr>arb_epoch := ep\<rparr>" and idle: "active A = None"
  note empty = arbiter_idle [OF inv idle]
  from arbiter_inv_mono [OF inv] have inv': "arbiter_inv (Suc n) A" .
  note parts = arbiter_inv_parts [OF inv']
  have "counters_ok (Suc n) A'" using parts(4) by (simp add: e counters_ok_def)
  moreover have "stack_ok ep None [] (store_find (leases A))"
    unfolding empty store_empty by (rule stack_ok_idle)
  ultimately show ?thesis
    using parts unfolding arbiter_inv_def by (simp add: e idle empty stores_ok_def stopped_ok_def)
qed (use arbiter_inv_mono [OF inv] in simp)

lemma arbiter_shutdown_result:
  assumes run: "Shutdown bk th (A, b) = (r, A', b')"
  obtains
    (same) "A' = A" "b' = b" "\<not> OnOwnerThread th A \<and> \<not> sr_ok r \<or> shutdown_receipt A = Some r"
  | (idle) "shutdown_receipt A = None" "active A = None" "b' = b" "sr_ok r \<longleftrightarrow> leases A = []"
      "A' = (ClearRetainedState A)\<lparr>stopped := True, shutdown_receipt := Some r\<rparr>"
  | (lost) a where "shutdown_receipt A = None" "active A = Some a" "FindLease a A = None" "b' = b" "\<not> sr_ok r"
      "A' = (ClearRetainedState A)\<lparr>stopped := True, shutdown_receipt := Some r\<rparr>"
  | (kept) a s where "shutdown_receipt A = None" "active A = Some a" "FindLease a A = Some s" "b' = b" "sr_ok r"
      "ls_backend_neutral s \<or>
        req_movie_exclusive (ls_request s) \<and> \<not> port_available bk (req_port (ls_request s)) b"
      "A' = (ClearRetainedState A)\<lparr>stopped := True, shutdown_receipt := Some r\<rparr>"
  | (failed) a s where "shutdown_receipt A = None" "active A = Some a" "FindLease a A = Some s"
      "unpublished bk b b'" "\<not> sr_ok r"
      "A' = (ClearRetainedState A)\<lparr>stopped := True, shutdown_receipt := Some r\<rparr>"
  | (neutralised) a s p where "shutdown_receipt A = None" "active A = Some a" "FindLease a A = Some s"
      "port_publish bk (req_port (ls_request s)) NeutralFrame b = (p, b')" "pub_ok p" "pub_epoch p \<noteq> 0" "sr_ok r"
      "A' = (ClearRetainedState (A\<lparr>next_publication := next_publication A + 1\<rparr>))
        \<lparr>stopped := True, shutdown_receipt := Some r\<rparr>"
proof (cases "\<not> OnOwnerThread th A \<or> shutdown_receipt A \<noteq> None")
  case True
  with run have "A' = A" "b' = b" "\<not> OnOwnerThread th A \<and> \<not> sr_ok r \<or> shutdown_receipt A = Some r"
    by (cases "OnOwnerThread th A"; auto simp: Shutdown_def shutdown_result_def)+
  with same show thesis by blast
next
  case False
  then have none: "shutdown_receipt A = None" by simp
  show thesis
  proof (cases "active A")
    case None
    with False run have "b' = b" "sr_ok r \<longleftrightarrow> leases A = []"
      "A' = (ClearRetainedState A)\<lparr>stopped := True, shutdown_receipt := Some r\<rparr>"
      by (auto simp: Shutdown_def shutdown_result_def Let_def split: if_splits)
    with idle [OF none None] show thesis by blast
  next
    case (Some a)
    show thesis
    proof (cases "FindLease a A")
      case None
      with False Some run have "b' = b" "\<not> sr_ok r"
        "A' = (ClearRetainedState A)\<lparr>stopped := True, shutdown_receipt := Some r\<rparr>"
        by (auto simp: Shutdown_def shutdown_result_def Let_def)
      with lost [OF none Some None] show thesis by blast
    next
      case lease: (Some s)
      let ?publish = "\<not> (req_movie_exclusive (ls_request s) \<and> \<not> port_available bk (req_port (ls_request s)) b) \<and>
        \<not> ls_backend_neutral s"
      show thesis
      proof (cases ?publish)
        case p: False
        with False Some lease run have "b' = b" "sr_ok r"
          "A' = (ClearRetainedState A)\<lparr>stopped := True, shutdown_receipt := Some r\<rparr>"
          by (auto simp: Shutdown_def shutdown_result_def Let_def)
        with p kept [OF none Some lease] show thesis by blast
      next
        case True
        obtain q A1 b1 where pub: "PublishBackend bk s NeutralFrame (A, b) = (q, A1, b1)" by (rule prod_cases3)
        from pub show thesis
        proof (cases rule: PublishBackend_result)
          case (failed p)
          have "unpublished bk b b1" using failed(1,2) by (rule unpublished_refused)
          moreover have "b' = b1" "\<not> sr_ok r"
            "A' = (ClearRetainedState A)\<lparr>stopped := True, shutdown_receipt := Some r\<rparr>"
            using False Some lease True run pub failed(3,4)
            by (auto simp: Shutdown_def shutdown_result_def Let_def)
          ultimately show thesis using that(5) [OF none Some lease] by blast
        next
          case (published p)
          with False Some lease True run pub have "b' = b1" "sr_ok r"
            "A' = (ClearRetainedState (A\<lparr>next_publication := next_publication A + 1\<rparr>))
              \<lparr>stopped := True, shutdown_receipt := Some r\<rparr>"
            by (auto simp: Shutdown_def shutdown_result_def Let_def)
          with that(6) [OF none Some lease] published(1-3) show thesis by blast
        qed
      qed
    qed
  qed
qed

lemma arbiter_shutdown_inv:
  assumes inv: "arbiter_inv n A" and room: "n + 2 < 2 ^ 64" and run: "Shutdown bk th (A, b) = (r, A', b')"
  shows "arbiter_inv (Suc n) A'"
proof -
  note parts = arbiter_inv_parts [OF inv]
  note cs = counters_parts [OF parts(4)]
  have stopped: "arbiter_inv (Suc n) ((ClearRetainedState (A\<lparr>next_publication := np\<rparr>))
      \<lparr>stopped := True, shutdown_receipt := Some r\<rparr>)" if "bumped (next_publication A) np" for np
  proof -
    note pub = bumped_ok [OF that cs(5,6) room]
    have "bindings_ok (\<lambda>_. None) (\<lambda>_. None)" "relationships_ok (\<lambda>_. None) (\<lambda>_. None)"
      by (simp_all add: bindings_ok_def relationships_ok_def)
    moreover have "counters_ok (Suc n) ((ClearRetainedState (A\<lparr>next_publication := np\<rparr>))
      \<lparr>stopped := True, shutdown_receipt := Some r\<rparr>)"
      by (rule counters_okI) (use cs pub in \<open>simp_all add: ClearRetainedState_def le_SucI store_empty\<close>)
    ultimately show ?thesis
      by (simp add: arbiter_inv_def ClearRetainedState_def stores_ok_def um.wf_empty store_empty stack_ok_idle stopped_ok_def)
  qed
  from run show ?thesis
  proof (cases rule: arbiter_shutdown_result)
    case same
    with arbiter_inv_mono [OF inv] show ?thesis by simp
  qed (use stopped [of "next_publication A"] stopped [of "next_publication A + 1"] in
      \<open>simp_all add: bumped_def\<close>)
qed

end
