(* ===== verification/InputBindings.thy ===== *)
theory InputBindings
  imports InputLeases
begin

text \<open>
  The operations that publish input and observe it: what they make of the arbiter, and that they keep
  its invariant. Applying, beginning and replacing share one effect, a publication that gives the
  active lease a new generation and a new binding.
\<close>

section \<open>Publishing a frame for the active lease\<close>

definition published_lease :: "InputState \<Rightarrow> GCInputFrame \<Rightarrow> LeaseState \<Rightarrow> LeaseState" where
  "published_lease st frame s = s\<lparr>ls_generation := ls_generation s + 1, ls_state := st,
     ls_backend_neutral := IsNeutral frame, ls_mutated := True\<rparr>"

definition republishes ::
  "'b InputBackendPort \<Rightarrow> u64 \<Rightarrow> GCInputFrame \<Rightarrow> InputState \<Rightarrow> InputBindingKind \<Rightarrow> u64 option \<Rightarrow>
    InputArbiter \<times> 'b \<Rightarrow> InputExecutionBindingReceipt \<times> InputArbiter \<times> 'b \<Rightarrow> bool" where
  "republishes bk l frame st kind d S S' = (case (S, S') of ((A, b), (r, A', b')) \<Rightarrow>
     \<exists>s p. \<not> stopped A \<and> active A = Some l \<and> FindLease l A = Some s \<and>
       port_publish bk (req_port (ls_request s)) frame b = (p, b') \<and> pub_ok p \<and> pub_epoch p \<noteq> 0 \<and>
       (r, A') = BindCurrentState (published_lease st frame s) frame kind
         (Some \<lparr>ps_publication = next_publication A, ps_epoch = pub_epoch p\<rparr>) d
         (A\<lparr>next_publication := next_publication A + 1,
            next_delivery := (if d = None then next_delivery A else next_delivery A + 1)\<rparr>))"

lemma republishes_lease:
  assumes "republishes bk l frame st kind d (A, b) (r, A', b')"
  obtains s p where "\<not> stopped A" "active A = Some l" "store_find (leases A) l = Some s"
    "(r, A') = BindCurrentState (published_lease st frame s) frame kind
       (Some \<lparr>ps_publication = next_publication A, ps_epoch = pub_epoch p\<rparr>) d
       (A\<lparr>next_publication := next_publication A + 1,
          next_delivery := (if d = None then next_delivery A else next_delivery A + 1)\<rparr>)"
    "port_publish bk (req_port (ls_request s)) frame b = (p, b')" "pub_ok p" "pub_epoch p \<noteq> 0"
proof -
  obtain s p where "\<not> stopped A \<and> active A = Some l \<and> store_find (leases A) l = Some s \<and>
       port_publish bk (req_port (ls_request s)) frame b = (p, b') \<and> pub_ok p \<and> pub_epoch p \<noteq> 0 \<and>
       (r, A') = BindCurrentState (published_lease st frame s) frame kind
         (Some \<lparr>ps_publication = next_publication A, ps_epoch = pub_epoch p\<rparr>) d
         (A\<lparr>next_publication := next_publication A + 1,
            next_delivery := (if d = None then next_delivery A else next_delivery A + 1)\<rparr>)"
    using assms unfolding republishes_def prod.case FindLease_def by (elim exE) (rule that)
  then show thesis by (elim conjE) (rule that [of s p])
qed

text \<open>The states and kinds that go together in a publication.\<close>

definition publication_fits :: "GCInputFrame \<Rightarrow> InputState \<Rightarrow> InputBindingKind \<Rightarrow> u64 option \<Rightarrow> bool" where
  "publication_fits frame st kind d \<longleftrightarrow>
     (st, kind, d = None) = (if IsNeutral frame then (NeutralTransitionPending, NeutralTransition, True)
        else (Held, HeldBinding, True)) \<or>
     (st, kind, d = None) = (DeliveryPending, Delivery, False)"

lemma republishes_inv:
  assumes inv: "arbiter_inv n A" and room: "n + 2 < 2 ^ 64"
    and rep: "republishes bk l frame st kind d (A, b) (r, A', b')" and fits: "publication_fits frame st kind d"
  shows "arbiter_inv (Suc n) A'"
proof -
  from rep obtain s p where s: "\<not> stopped A" "active A = Some l" "store_find (leases A) l = Some s"
    and A': "(r, A') = BindCurrentState (published_lease st frame s) frame kind
         (Some \<lparr>ps_publication = next_publication A, ps_epoch = pub_epoch p\<rparr>) d
         (A\<lparr>next_publication := next_publication A + 1,
            next_delivery := (if d = None then next_delivery A else next_delivery A + 1)\<rparr>)"
    and "port_publish bk (req_port (ls_request s)) frame b = (p, b')" "pub_ok p" "pub_epoch p \<noteq> 0"
    by (rule republishes_lease)
  have id: "ls_id s = l" using arbiter_lease [OF inv s(3)] by simp
  have "arbiter_inv (Suc n) (snd (BindCurrentState (published_lease st frame s) frame kind
         (Some \<lparr>ps_publication = next_publication A, ps_epoch = pub_epoch p\<rparr>) d
         (A\<lparr>next_publication := next_publication A + 1,
            next_delivery := (if d = None then next_delivery A else next_delivery A + 1)\<rparr>)))"
    by (rule rebind_inv [OF inv room s(1,3)])
      (use fits id in \<open>auto simp: published_lease_def bumped_def binding_fits_def new_binding_def
         publication_fits_def split: if_splits\<close>)
  then show ?thesis by (simp add: A' [symmetric])
qed

lemma ApplyState_result:
  assumes run: "ApplyState bk th l frame ep (A, b) = (r, A', b')"
  obtains
    (refused) "\<not> br_ok r" "A' = A" "unpublished bk b b'"
  | (pending) s i c where "br_ok r" "A' = A" "b' = b" "FindLease l A = Some s" "active A = Some l"
      "ls_state s = NeutralTransitionPending" "ls_current s = Some i" "FindBinding i A = Some c"
      "frame = NeutralFrame" "br_binding r = bs_id c"
  | (confirmed) s where "\<not> stopped A" "active A = Some l" "FindLease l A = Some s" "ls_state s = Neutral"
      "ls_backend_neutral s" "frame = NeutralFrame" "b' = b"
      "(r, A') = BindCurrentState s frame StableNeutral None None A"
  | (published) st kind where "publication_fits frame st kind None"
      "republishes bk l frame st kind None (A, b) (r, A', b')"
proof (cases "\<not> OnOwnerThread th A \<or> IsStopped A \<or> FindLease l A = None")
  case True
  with run have "\<not> br_ok r" "A' = A" "b' = b"
    by (auto simp: ApplyState_def refused_binding_def Let_def split: if_splits)
  with refused show thesis by simp
next
  case False
  then obtain s where s: "FindLease l A = Some s" and on: "OnOwnerThread th A" "\<not> IsStopped A" by auto
  show thesis
  proof (cases "active A \<noteq> Some l \<or> ls_status s \<noteq> Active \<or> \<not> IsCurrent ep A \<or> ls_epoch s \<noteq> ep \<or>
      ls_state s = DeliveryPending")
    case True
    with run on s have "\<not> br_ok r" "A' = A" "b' = b"
      by (auto simp: ApplyState_def refused_binding_def Let_def split: if_splits)
    with refused show thesis by simp
  next
    case ready: False
    then have live: "\<not> stopped A" "active A = Some l" using on by (simp_all add: IsStopped_def)
    consider (transition) "ls_state s = NeutralTransitionPending"
      | (stable) "ls_state s \<noteq> NeutralTransitionPending" "IsNeutral frame" "ls_state s = Neutral" "ls_backend_neutral s"
      | (publish) "ls_state s \<noteq> NeutralTransitionPending"
          "\<not> (IsNeutral frame \<and> ls_state s = Neutral \<and> ls_backend_neutral s)" by blast
    then show thesis
    proof cases
      case transition
      show thesis
      proof (cases "ls_current s = None \<or> \<not> IsNeutral frame \<or> FindBinding (the (ls_current s)) A = None")
        case True
        with run on s ready transition have "\<not> br_ok r" "A' = A" "b' = b"
          by (auto simp: ApplyState_def refused_binding_def Let_def split: if_splits option.splits)
        with refused show thesis by simp
      next
        case False
        then obtain i c where c: "ls_current s = Some i" "FindBinding i A = Some c" "IsNeutral frame" by auto
        with run on s ready transition have "br_ok r" "A' = A" "b' = b" "br_binding r = bs_id c"
          by (auto simp: ApplyState_def Let_def)
        with pending [OF _ _ _ s live(2) transition c(1,2)] c(3) show thesis by (simp add: IsNeutral_def)
      qed
    next
      case stable
      with run on s ready have "(r, A') = BindCurrentState s frame StableNeutral None None A" "b' = b"
        by (auto simp: ApplyState_def Let_def split: prod.splits)
      with confirmed [OF live s] stable show thesis by (simp add: IsNeutral_def)
    next
      case publish
      have cond: "(IsNeutral frame \<and> ls_state s = Neutral \<and> ls_backend_neutral s) = False" using publish(2) by blast
      obtain q A1 b1 where pub: "PublishBackend bk s frame (A, b) = (q, A1, b1)" by (rule prod_cases3)
      let ?st = "if IsNeutral frame then NeutralTransitionPending else Held"
      let ?kind = "if IsNeutral frame then NeutralTransition else HeldBinding"
      have none: "r = refused_binding 0 l ep frame BackendRefused BackendFailure \<and> A' = A1 \<and> b' = b1"
        if "q = None"
        using run on s ready publish(1) pub that by (simp add: ApplyState_def Let_def cond)
      have some: "(r, A') = BindCurrentState (published_lease ?st frame s) frame ?kind (Some p) None A1 \<and> b' = b1"
        if "q = Some p" for p
        using run on s ready publish(1) pub that
        by (auto simp: ApplyState_def published_lease_def Let_def cond split: prod.splits if_splits)
      from pub show thesis
      proof (cases rule: PublishBackend_result)
        case (failed p)
        from failed(3) none have "\<not> br_ok r" "A' = A1" "b' = b1" by (simp_all add: refused_binding_def)
        with refused failed show thesis by (simp add: unpublished_refused)
      next
        case (published p)
        have "republishes bk l frame ?st ?kind None (A, b) (r, A', b')"
          unfolding republishes_def prod.case
          by (rule exI [of _ s], rule exI [of _ p]) (use live s published some [OF published(4)] in simp)
        moreover have "publication_fits frame ?st ?kind None" by (simp add: publication_fits_def)
        ultimately show thesis using that(4) by blast
      qed
    qed
  qed
qed

lemma ApplyState_inv:
  assumes inv: "arbiter_inv n A" and room: "n + 2 < 2 ^ 64"
    and run: "ApplyState bk th l frame ep (A, b) = (r, A', b')"
  shows "arbiter_inv (Suc n) A'"
  using run
proof (cases rule: ApplyState_result)
  case (confirmed s)
  have s: "store_find (leases A) l = Some s" using confirmed(3) by (simp add: FindLease_def)
  have id: "ls_id s = l" using arbiter_lease [OF inv s] by simp
  have "arbiter_inv (Suc n) (snd (BindCurrentState s frame StableNeutral None None
      (A\<lparr>next_publication := next_publication A, next_delivery := next_delivery A\<rparr>)))"
    by (rule rebind_inv [OF inv room confirmed(1) s])
      (use confirmed id in \<open>simp_all add: bumped_def binding_fits_def new_binding_def IsNeutral_def\<close>)
  then show ?thesis by (simp add: confirmed(8) [symmetric])
next
  case (published st kind)
  then show ?thesis by (intro republishes_inv [OF inv room])
qed (use arbiter_inv_mono [OF inv] in simp_all)

section \<open>Deliveries\<close>

lemma BeginDelivery_result:
  assumes run: "BeginDelivery bk th l frame ep (A, b) = (r, A', b')"
  obtains
    (refused) "\<not> br_ok r" "A' = A" "unpublished bk b b'"
  | (published) "br_ok r" "publication_fits frame DeliveryPending Delivery (Some (next_delivery A))"
      "republishes bk l frame DeliveryPending Delivery (Some (next_delivery A)) (A, b) (r, A', b')"
proof (cases "\<not> OnOwnerThread th A \<or> IsStopped A \<or> FindLease l A = None")
  case True
  with run have "\<not> br_ok r" "A' = A" "b' = b"
    by (auto simp: BeginDelivery_def refused_binding_def Let_def split: if_splits)
  with refused show thesis by simp
next
  case False
  then obtain s where s: "FindLease l A = Some s" and on: "OnOwnerThread th A" "\<not> IsStopped A" by auto
  show thesis
  proof (cases "active A \<noteq> Some l \<or> ls_status s \<noteq> Active \<or> \<not> IsCurrent ep A \<or> ls_epoch s \<noteq> ep \<or>
      ls_state s \<noteq> Neutral \<or> \<not> ls_backend_neutral s")
    case True
    with run on s have "\<not> br_ok r" "A' = A" "b' = b"
      by (auto simp: BeginDelivery_def refused_binding_def Let_def split: if_splits)
    with refused show thesis by simp
  next
    case ready: False
    then have live: "\<not> stopped A" "active A = Some l" using on by (simp_all add: IsStopped_def)
    obtain q A1 b1 where pub: "PublishBackend bk s frame (A, b) = (q, A1, b1)" by (rule prod_cases3)
    have none: "r = refused_binding 0 l ep frame BackendRefused BackendFailure \<and> A' = A1 \<and> b' = b1"
      if "q = None"
      using run on s ready pub that by (simp add: BeginDelivery_def Let_def)
    have some: "(r, A') = BindCurrentState (published_lease DeliveryPending frame s) frame Delivery (Some p)
        (Some (next_delivery A1)) (A1\<lparr>next_delivery := next_delivery A1 + 1\<rparr>) \<and> b' = b1"
      if "q = Some p" for p
      using run on s ready pub that
      by (auto simp: BeginDelivery_def published_lease_def Let_def split: prod.splits)
    from pub show thesis
    proof (cases rule: PublishBackend_result)
      case (failed p)
      from failed(3) none have "\<not> br_ok r" "A' = A1" "b' = b1" by (simp_all add: refused_binding_def)
      with refused failed show thesis by (simp add: unpublished_refused)
    next
      case (published p)
      note bind = some [OF published(4)]
      have "br_ok r" using bind by (auto simp: BindCurrentState_def Let_def)
      moreover have "republishes bk l frame DeliveryPending Delivery (Some (next_delivery A)) (A, b) (r, A', b')"
        unfolding republishes_def prod.case
        by (rule exI [of _ s], rule exI [of _ p]) (use live s published bind in simp)
      ultimately show thesis using that(2) by (simp add: publication_fits_def)
    qed
  qed
qed

lemma BeginDelivery_inv:
  assumes inv: "arbiter_inv n A" and room: "n + 2 < 2 ^ 64"
    and run: "BeginDelivery bk th l frame ep (A, b) = (r, A', b')"
  shows "arbiter_inv (Suc n) A'"
  using run
proof (cases rule: BeginDelivery_result)
  case published
  then show ?thesis by (intro republishes_inv [OF inv room])
qed (use arbiter_inv_mono [OF inv] in simp)

lemma store_erase_if_idem: "store_erase_if P (store_erase_if P m) = store_erase_if P m"
  by (simp add: store_erase_if_def)

lemma BindCurrentState_erased:
  "BindCurrentState s frame kind p d ((EraseBindingsForLease (ls_id s) (EraseRelationshipsForLease (ls_id s) A))
     \<lparr>next_delivery := nd\<rparr>) = BindCurrentState s frame kind p d (A\<lparr>next_delivery := nd\<rparr>)"
  by (simp add: BindCurrentState_def EraseBindingsForLease_def EraseRelationshipsForLease_def
      store_erase_if_idem set_lease_def Let_def)

lemma FindLease_id: "arbiter_inv n A \<Longrightarrow> FindLease l A = Some s \<Longrightarrow> ls_id s = l"
  using arbiter_lease(1) by (simp add: FindLease_def)

lemma ReplaceDelivery_result:
  assumes inv: "arbiter_inv n A" and run: "ReplaceDelivery bk th l i frame ep (A, b) = (r, A', b')"
  obtains
    (refused) "\<not> br_ok r" "A' = A" "unpublished bk b b'"
  | (published) s c where "br_ok r" "FindLease l A = Some s" "FindBinding i A = Some c"
      "exact_delivery l i ep s c A" "bs_observed c"
      "publication_fits frame DeliveryPending Delivery (Some (next_delivery A))"
      "republishes bk l frame DeliveryPending Delivery (Some (next_delivery A)) (A, b) (r, A', b')"
proof (cases "\<not> OnOwnerThread th A \<or> IsStopped A \<or> FindLease l A = None \<or> FindBinding i A = None")
  case True
  with run have "\<not> br_ok r" "A' = A" "b' = b"
    by (auto simp: ReplaceDelivery_def refused_binding_def Let_def split: if_splits option.splits)
  with refused show thesis by simp
next
  case False
  then obtain s c where s: "FindLease l A = Some s" "FindBinding i A = Some c"
    and on: "OnOwnerThread th A" "\<not> IsStopped A" by auto
  show thesis
  proof (cases "\<not> exact_delivery l i ep s c A \<or> \<not> bs_observed c \<or> bs_poll c = 0")
    case True
    with run on s have "\<not> br_ok r" "A' = A" "b' = b"
      by (auto simp: ReplaceDelivery_def refused_binding_def Let_def split: if_splits)
    with refused show thesis by simp
  next
    case ready: False
    then have live: "\<not> stopped A" "active A = Some l" using on by (simp_all add: IsStopped_def exact_delivery_def)
    obtain q A1 b1 where pub: "PublishBackend bk s frame (A, b) = (q, A1, b1)" by (rule prod_cases3)
    have none: "r = refused_binding i l ep frame BackendRefused BackendFailure \<and> A' = A1 \<and> b' = b1"
      if "q = None"
      using run on s ready pub that by (simp add: ReplaceDelivery_def Let_def)
    have pid: "ls_id (published_lease DeliveryPending frame s) = l"
      using FindLease_id [OF inv s(1)] by (simp add: published_lease_def)
    have "(r, A') = BindCurrentState (published_lease DeliveryPending frame s) frame Delivery (Some p)
        (Some (next_delivery A1)) ((EraseBindingsForLease l (EraseRelationshipsForLease l A1))
          \<lparr>next_delivery := next_delivery A1 + 1\<rparr>) \<and> b' = b1"
      if "q = Some p" for p
      using run on s ready pub that
      by (auto simp: ReplaceDelivery_def published_lease_def Let_def EraseBindingsForLease_def
          EraseRelationshipsForLease_def split: prod.splits)
    then have some: "(r, A') = BindCurrentState (published_lease DeliveryPending frame s) frame Delivery (Some p)
        (Some (next_delivery A1)) (A1\<lparr>next_delivery := next_delivery A1 + 1\<rparr>) \<and> b' = b1"
      if "q = Some p" for p
      using that BindCurrentState_erased [of "published_lease DeliveryPending frame s", unfolded pid] by simp
    from pub show thesis
    proof (cases rule: PublishBackend_result)
      case (failed p)
      from failed(3) none have "\<not> br_ok r" "A' = A1" "b' = b1" by (simp_all add: refused_binding_def)
      with refused failed show thesis by (simp add: unpublished_refused)
    next
      case (published p)
      note bind = some [OF published(4)]
      have "br_ok r" using bind by (auto simp: BindCurrentState_def Let_def)
      moreover have "republishes bk l frame DeliveryPending Delivery (Some (next_delivery A)) (A, b) (r, A', b')"
        unfolding republishes_def prod.case
        by (rule exI [of _ s], rule exI [of _ p]) (use live s published bind in simp)
      moreover have "exact_delivery l i ep s c A" "bs_observed c" using ready by simp_all
      ultimately show thesis using that(2) s by (simp add: publication_fits_def)
    qed
  qed
qed

lemma ReplaceDelivery_inv:
  assumes inv: "arbiter_inv n A" and room: "n + 2 < 2 ^ 64"
    and run: "ReplaceDelivery bk th l i frame ep (A, b) = (r, A', b')"
  shows "arbiter_inv (Suc n) A'"
  using inv run
proof (cases rule: ReplaceDelivery_result)
  case (published s c)
  then show ?thesis by (intro republishes_inv [OF inv room])
qed (use arbiter_inv_mono [OF inv] in simp)

text \<open>A lease whose delivery is complete.\<close>

definition delivered_lease :: "bool \<Rightarrow> LeaseState \<Rightarrow> LeaseState" where
  "delivered_lease mutated s = s\<lparr>ls_mutated := mutated \<or> ls_mutated s, ls_generation := ls_generation s + 1,
     ls_state := Neutral, ls_backend_neutral := True, ls_current := None\<rparr>"

definition delivered :: "u64 \<Rightarrow> LeaseState \<Rightarrow> u64 \<Rightarrow> InputArbiter \<Rightarrow> InputArbiter" where
  "delivered l s np A = (EraseBindingsForLease l (A\<lparr>next_publication := np\<rparr>))
     \<lparr>leases := store_modify l (\<lambda>_. s) (leases A)\<rparr>"

lemma CompleteDelivery_result:
  assumes run: "CompleteDelivery bk th l i ep (A, b) = (r, A', b')"
  obtains
    (refused) "\<not> dr_ok r" "A' = A" "unpublished bk b b'"
  | (neutral) s c where "dr_ok r" "\<not> stopped A" "active A = Some l" "FindLease l A = Some s"
      "FindBinding i A = Some c" "exact_delivery l i ep s c A" "bs_observed c" "IsNeutral (bs_frame c)"
      "b' = b" "A' = delivered l (delivered_lease False s) (next_publication A) A"
      "dr_frame r = bs_frame c" "dr_callbacks r = bs_callbacks c"
  | (restored) s c p where "dr_ok r" "\<not> stopped A" "active A = Some l" "FindLease l A = Some s"
      "FindBinding i A = Some c" "exact_delivery l i ep s c A" "bs_observed c" "\<not> IsNeutral (bs_frame c)"
      "port_publish bk (req_port (ls_request s)) NeutralFrame b = (p, b')" "pub_ok p" "pub_epoch p \<noteq> 0"
      "A' = delivered l (delivered_lease True s) (next_publication A + 1) A"
      "dr_frame r = bs_frame c" "dr_callbacks r = bs_callbacks c"
proof (cases "\<not> OnOwnerThread th A \<or> IsStopped A \<or> FindLease l A = None \<or> FindBinding i A = None")
  case True
  with run have "\<not> dr_ok r" "A' = A" "b' = b"
    by (auto simp: CompleteDelivery_def refused_delivery_def Let_def split: if_splits option.splits)
  with refused show thesis by simp
next
  case False
  then obtain s c where s: "FindLease l A = Some s" "FindBinding i A = Some c"
    and on: "OnOwnerThread th A" "\<not> IsStopped A" by auto
  show thesis
  proof (cases "\<not> exact_delivery l i ep s c A \<or> \<not> bs_observed c \<or> bs_poll c = 0")
    case True
    with run on s have "\<not> dr_ok r" "A' = A" "b' = b"
      by (auto simp: CompleteDelivery_def refused_delivery_def Let_def split: if_splits)
    with refused show thesis by simp
  next
    case ready: False
    then have live: "\<not> stopped A" "active A = Some l" and exact: "exact_delivery l i ep s c A" "bs_observed c"
      using on by (simp_all add: IsStopped_def exact_delivery_def)
    have erased: "leases (EraseBindingsForLease l B) = leases B" for B
      by (simp add: EraseBindingsForLease_def EraseRelationshipsForLease_def)
    show thesis
    proof (cases "IsNeutral (bs_frame c)")
      case True
      with run on s ready have "dr_ok r" "b' = b" "A' = delivered l (delivered_lease False s) (next_publication A) A"
        "dr_frame r = bs_frame c" "dr_callbacks r = bs_callbacks c"
        by (auto simp: CompleteDelivery_def Let_def delivered_def delivered_lease_def erased)
      with neutral [OF _ live s exact True] show thesis by blast
    next
      case busy: False
      obtain q A1 b1 where pub: "PublishBackend bk s NeutralFrame (A, b) = (q, A1, b1)" by (rule prod_cases3)
      from pub show thesis
      proof (cases rule: PublishBackend_result)
        case (failed p)
        with run on s ready busy pub have "\<not> dr_ok r" "A' = A" "b' = b1"
          by (auto simp: CompleteDelivery_def Let_def)
        with refused failed show thesis by (simp add: unpublished_refused)
      next
        case (published p)
        with run on s ready busy pub have "dr_ok r" "b' = b1"
          "A' = delivered l (delivered_lease True s) (next_publication A + 1) A"
          "dr_frame r = bs_frame c" "dr_callbacks r = bs_callbacks c"
          by (auto simp: CompleteDelivery_def Let_def delivered_def delivered_lease_def erased)
        with restored [OF _ live s exact busy] published(1-3) show thesis by blast
      qed
    qed
  qed
qed

lemma delivered_inv:
  assumes inv: "arbiter_inv n A" and room: "n + 2 < 2 ^ 64" and live: "\<not> stopped A"
    and s: "FindLease l A = Some s" and np: "bumped (next_publication A) np"
  shows "arbiter_inv (Suc n) (delivered l (delivered_lease m s) np A)"
  unfolding delivered_def
  by (rule unbind_inv [OF inv room live, of l s])
    (use s np FindLease_id [OF inv s] in \<open>simp_all add: delivered_lease_def bumped_def FindLease_def\<close>)

lemma CompleteDelivery_inv:
  assumes inv: "arbiter_inv n A" and room: "n + 2 < 2 ^ 64"
    and run: "CompleteDelivery bk th l i ep (A, b) = (r, A', b')"
  shows "arbiter_inv (Suc n) A'"
  using run
proof (cases rule: CompleteDelivery_result)
  case (neutral s c)
  with delivered_inv [OF inv room, of l s "next_publication A"] show ?thesis by (simp add: bumped_def)
next
  case (restored s c p)
  with delivered_inv [OF inv room, of l s "next_publication A + 1"] show ?thesis by (simp add: bumped_def)
qed (use arbiter_inv_mono [OF inv] in simp)

section \<open>Relationships\<close>

lemma arbiter_inv_erase_relationship:
  assumes inv: "arbiter_inv n A"
  shows "arbiter_inv (Suc n) (A\<lparr>relationships := store_erase i (relationships A)\<rparr>)"
proof -
  from arbiter_inv_mono [OF inv] have inv': "arbiter_inv (Suc n) A" .
  note parts = arbiter_inv_parts [OF inv'] and cs = counters_parts [OF arbiter_inv_parts(4) [OF inv']]
  have "counters_ok (Suc n) (A\<lparr>relationships := store_erase i (relationships A)\<rparr>)"
    by (rule counters_okI) (use cs in \<open>auto simp: store_maps split: if_splits\<close>)
  moreover have "relationships_ok (store_find (leases A)) (store_find (store_erase i (relationships A)))"
    using relationships_ok_erase [OF parts(7)] by (simp add: store_maps)
  moreover have "stopped_ok (A\<lparr>relationships := store_erase i (relationships A)\<rparr>)"
    using parts(8) by (simp add: stopped_ok_def store_erase_def)
  ultimately show ?thesis
    using parts unfolding arbiter_inv_def stores_ok_def by (simp add: um.wf_intros)
qed

lemma ValidateBinding_ok:
  assumes "or_ok (ValidateBinding th ev A)"
  obtains s c where "\<not> stopped A" "FindLease (ev_lease ev) A = Some s" "FindBinding (ev_binding ev) A = Some c"
    "active A = Some (ev_lease ev)" "ls_status s = Active" "ls_epoch s = ev_epoch ev" "ls_current s = Some (ev_binding ev)"
    "ls_generation s = ev_generation ev" "bs_frame c = ev_frame ev"
  using assms
  by (auto simp: ValidateBinding_def operation_receipt_def IsStopped_def split: if_splits option.splits)

lemma CreateExecutionRelationship_result:
  assumes run: "CreateExecutionRelationship th ev A = (r, A')"
  obtains
    (refused) "\<not> rr_ok r" "A' = A"
  | (created) s c where "rr_ok r" "rr_relationship r = next_relationship A" "\<not> stopped A"
      "FindLease (ev_lease ev) A = Some s" "FindBinding (ev_binding ev) A = Some c"
      "ls_epoch s = ev_epoch ev" "ls_current s = Some (ev_binding ev)" "ls_generation s = ev_generation ev"
      "A' = A\<lparr>next_relationship := next_relationship A + 1, relationships := store_emplace (next_relationship A)
        \<lparr>ir_id = next_relationship A, ir_binding = ev_binding ev, ir_lease = ev_lease ev,
          ir_epoch = ev_epoch ev, ir_generation = ev_generation ev\<rparr> (relationships A)\<rparr>"
proof (cases "or_ok (ValidateBinding th ev A)")
  case False
  with run have "\<not> rr_ok r" "A' = A" by (auto simp: CreateExecutionRelationship_def Let_def)
  with refused show thesis by blast
next
  case True
  then obtain s c where s: "\<not> stopped A" "FindLease (ev_lease ev) A = Some s" "FindBinding (ev_binding ev) A = Some c"
    "active A = Some (ev_lease ev)" "ls_status s = Active" "ls_epoch s = ev_epoch ev" "ls_current s = Some (ev_binding ev)"
    "ls_generation s = ev_generation ev" "bs_frame c = ev_frame ev" by (rule ValidateBinding_ok)
  from run True have "rr_ok r" "rr_relationship r = next_relationship A"
    "A' = A\<lparr>next_relationship := next_relationship A + 1, relationships := store_emplace (next_relationship A)
        \<lparr>ir_id = next_relationship A, ir_binding = ev_binding ev, ir_lease = ev_lease ev,
          ir_epoch = ev_epoch ev, ir_generation = ev_generation ev\<rparr> (relationships A)\<rparr>"
    by (auto simp: CreateExecutionRelationship_def Let_def)
  with created s show thesis by blast
qed

lemma CreateExecutionRelationship_inv:
  assumes inv: "arbiter_inv n A" and room: "n + 2 < 2 ^ 64"
    and run: "CreateExecutionRelationship th ev A = (r, A')"
  shows "arbiter_inv (Suc n) A'"
  using run
proof (cases rule: CreateExecutionRelationship_result)
  case (created s c)
  note parts = arbiter_inv_parts [OF inv]
  note cs = counters_parts [OF parts(4)]
  note succ = counter_next [OF cs(12) room]
  let ?r = "\<lparr>ir_id = next_relationship A, ir_binding = ev_binding ev, ir_lease = ev_lease ev,
          ir_epoch = ev_epoch ev, ir_generation = ev_generation ev\<rparr>"
  let ?R = "store_find (relationships A)"
  have map: "store_find (store_emplace (next_relationship A) ?r (relationships A)) = ?R(next_relationship A \<mapsto> ?r)"
    by (rule store_maps(3) [OF next_relationship_free [OF inv]])
  have s: "store_find (leases A) (ev_lease ev) = Some s" using created(4) by (simp add: FindLease_def)
  have rels: "relationships_ok (store_find (leases A)) (?R(next_relationship A \<mapsto> ?r))"
    by (rule relationships_ok_add [OF parts(7), of _ _ s]) (use s created in simp_all)
  have counters: "counters_ok (Suc n) A'"
    unfolding created(9)
    by (rule counters_okI) (use cs succ in \<open>auto simp: map le_SucI split: if_splits\<close>)
  show ?thesis
    unfolding arbiter_inv_def stores_ok_def using counters rels parts created(3)
    by (simp add: created(9) map um.wf_intros stopped_ok_def)
qed (use arbiter_inv_mono [OF inv] in simp)

lemma RemoveExecutionRelationship_result:
  "RemoveExecutionRelationship th i A = (r, A') \<Longrightarrow>
     A' = A \<or> A' = A\<lparr>relationships := store_erase i (relationships A)\<rparr>"
  by (auto simp: RemoveExecutionRelationship_def split: if_splits)

lemma Cancel_result:
  "Cancel th i ep A = (r, A') \<Longrightarrow> A' = A \<or> A' = A\<lparr>relationships := store_erase i (relationships A)\<rparr>"
  by (auto simp: Cancel_def split: if_splits option.splits)

lemma relationship_inv:
  "arbiter_inv n A \<Longrightarrow> A' = A \<or> A' = A\<lparr>relationships := store_erase i (relationships A)\<rparr> \<Longrightarrow>
    arbiter_inv (Suc n) A'"
  using arbiter_inv_mono arbiter_inv_erase_relationship by blast

lemma ValidateRelationship_None:
  assumes "ValidateRelationship th i ep A = None"
  obtains q s c where "\<not> stopped A" "store_find (relationships A) i = Some q" "FindLease (ir_lease q) A = Some s"
    "FindBinding (ir_binding q) A = Some c" "ir_epoch q = ep" "IsCurrent ep A" "active A = Some (ls_id s)"
    "ls_status s = Active" "ls_current s = Some (bs_id c)" "ls_generation s = ir_generation q"
    "bs_generation c = ir_generation q" "OnOwnerThread th A"
  using assms by (auto simp: ValidateRelationship_def IsStopped_def split: if_splits option.splits)

text \<open>The arbiter after a completion: the binding perhaps observed, a transition perhaps ended.\<close>

definition settled :: "u64 \<Rightarrow> RelationshipState \<Rightarrow> LeaseState \<Rightarrow> BindingState \<Rightarrow> InputArbiter \<Rightarrow> InputArbiter" where
  "settled i q s c A = A\<lparr>relationships := store_erase i (relationships A),
     leases := (if bs_kind c = NeutralTransition
       then store_modify (ir_lease q) (\<lambda>_. s\<lparr>ls_state := Neutral\<rparr>) (leases A) else leases A)\<rparr>"

lemma settled_leases:
  assumes "store_find (leases A) (ir_lease q) = Some s"
  shows "store_find (leases (settled i q s c A)) = (store_find (leases A))
    (ir_lease q \<mapsto> if bs_kind c = NeutralTransition then s\<lparr>ls_state := Neutral\<rparr> else s)"
proof (cases "bs_kind c = NeutralTransition")
  case True
  then have "leases (settled i q s c A) = store_modify (ir_lease q) (\<lambda>_. s\<lparr>ls_state := Neutral\<rparr>) (leases A)"
    by (simp add: settled_def)
  with assms show ?thesis by (simp add: True store_maps(1))
next
  case False
  then have "leases (settled i q s c A) = leases A" by (simp add: settled_def)
  with assms False show ?thesis by (simp only: if_False map_upd_triv)
qed

definition observed_binding :: "BindingState \<Rightarrow> u64 \<Rightarrow> u32 \<Rightarrow> BindingState" where
  "observed_binding c receipt callbacks =
     c\<lparr>bs_observed := True, bs_poll := receipt, bs_callbacks := callbacks\<rparr>"

lemma Complete_result:
  assumes run: "Complete bk th i ep (A, b) = (m, A', b')"
  obtains
    (refused) e where "m = Some e" "b' = b" "A' = A \<or> A' = A\<lparr>relationships := store_erase i (relationships A)\<rparr>"
  | (already) q s c where "m = None" "b' = b" "ValidateRelationship th i ep A = None"
      "store_find (relationships A) i = Some q" "FindLease (ir_lease q) A = Some s"
      "FindBinding (ir_binding q) A = Some c" "bs_requires_observation c \<longrightarrow> bs_observed c"
      "A' = settled i q s c A"
  | (observed) q s c where "m = None" "b' = b" "ValidateRelationship th i ep A = None"
      "store_find (relationships A) i = Some q" "FindLease (ir_lease q) A = Some s"
      "FindBinding (ir_binding q) A = Some c" "bs_requires_observation c" "\<not> bs_observed c"
      "poll_ok (port_poll bk (req_port (ls_request s)) b)"
      "poll_epoch (port_poll bk (req_port (ls_request s)) b) = bs_publication_epoch c"
      "poll_callbacks (port_poll bk (req_port (ls_request s)) b) \<noteq> 0"
      "A' = settled i q s c (A\<lparr>next_poll_receipt := next_poll_receipt A + 1,
        bindings := store_modify (ir_binding q) (\<lambda>_. observed_binding c (next_poll_receipt A)
          (poll_callbacks (port_poll bk (req_port (ls_request s)) b))) (bindings A)\<rparr>)"
proof (cases "ValidateRelationship th i ep A")
  case (Some e)
  with run have "m = Some e" "b' = b" "A' = A" by (auto simp: Complete_def)
  with refused show thesis by blast
next
  case None
  then obtain q s c where q: "store_find (relationships A) i = Some q" "FindLease (ir_lease q) A = Some s"
    "FindBinding (ir_binding q) A = Some c" by (rule ValidateRelationship_None)
  let ?poll = "port_poll bk (req_port (ls_request s)) b"
  consider (already') "bs_requires_observation c \<longrightarrow> bs_observed c"
    | (failed) "bs_requires_observation c" "\<not> bs_observed c"
        "\<not> poll_ok ?poll \<or> poll_epoch ?poll \<noteq> bs_publication_epoch c \<or> poll_callbacks ?poll = 0"
    | (seen) "bs_requires_observation c" "\<not> bs_observed c" "poll_ok ?poll"
        "poll_epoch ?poll = bs_publication_epoch c" "poll_callbacks ?poll \<noteq> 0" by blast
  then show thesis
  proof cases
    case already'
    with run None q have "m = None" "b' = b" "A' = settled i q s c A"
      by (auto simp: Complete_def Let_def settled_def set_lease_def)
    with already [OF _ _ None q already'] show thesis by blast
  next
    case failed
    with run None q have "\<exists>e. m = Some e" "b' = b" "A' = A\<lparr>relationships := store_erase i (relationships A)\<rparr>"
      by (auto simp: Complete_def Let_def split: if_splits)
    with refused show thesis by blast
  next
    case seen
    with run None q have "m = None" "b' = b"
      "A' = settled i q s c (A\<lparr>next_poll_receipt := next_poll_receipt A + 1,
        bindings := store_modify (ir_binding q) (\<lambda>_. observed_binding c (next_poll_receipt A)
          (poll_callbacks ?poll)) (bindings A)\<rparr>)"
      by (auto simp: Complete_def Let_def settled_def set_lease_def set_binding_def observed_binding_def)
    with observed [OF _ _ None q seen] show thesis by blast
  qed
qed

lemma binding_fits_observed:
  assumes "binding_fits s c" and "receipt \<noteq> 0" and "callbacks \<noteq> 0"
  shows "binding_fits s (observed_binding c receipt callbacks)"
proof -
  have same: "bs_lease (observed_binding c receipt callbacks) = bs_lease c"
    "bs_epoch (observed_binding c receipt callbacks) = bs_epoch c"
    "bs_generation (observed_binding c receipt callbacks) = bs_generation c"
    "bs_frame (observed_binding c receipt callbacks) = bs_frame c"
    "bs_kind (observed_binding c receipt callbacks) = bs_kind c"
    "bs_delivery (observed_binding c receipt callbacks) = bs_delivery c"
    "bs_publication (observed_binding c receipt callbacks) = bs_publication c"
    "bs_requires_observation (observed_binding c receipt callbacks) = bs_requires_observation c"
    "bs_callbacks (observed_binding c receipt callbacks) = callbacks"
    "bs_poll (observed_binding c receipt callbacks) = receipt"
    by (simp_all add: observed_binding_def)
  show ?thesis using assms unfolding binding_fits_def same by blast
qed

lemma settled_inv:
  assumes inv: "arbiter_inv n A" and room: "n + 2 < 2 ^ 64" and live: "\<not> stopped A"
    and q: "store_find (relationships A) i = Some q" "FindLease (ir_lease q) A = Some s"
      "FindBinding (ir_binding q) A = Some c" "ls_current s = Some (bs_id c)"
    and np: "bumped (next_poll_receipt A) np"
    and c': "c' = c \<or> bs_requires_observation c \<and> (\<exists>cb. cb \<noteq> 0 \<and> c' = observed_binding c (next_poll_receipt A) cb)"
  shows "arbiter_inv (Suc n) (settled i q s c (A\<lparr>next_poll_receipt := np,
    bindings := store_modify (ir_binding q) (\<lambda>_. c') (bindings A)\<rparr>))" (is "arbiter_inv _ ?A")
proof -
  note parts = arbiter_inv_parts [OF inv]
  note cs = counters_parts [OF parts(4)]
  note poll = bumped_ok [OF np cs(7,8) room]
  let ?L = "store_find (leases A)" and ?B = "store_find (bindings A)" and ?R = "store_find (relationships A)"
  let ?l = "ir_lease q" and ?i = "ir_binding q"
  let ?s = "if bs_kind c = NeutralTransition then s\<lparr>ls_state := Neutral\<rparr> else s"
  have s: "?L ?l = Some s" "?B ?i = Some c" using q by (simp_all add: FindLease_def FindBinding_def)
  obtain t where t: "?L (bs_lease c) = Some t" "ls_current t = Some ?i" "bs_id c = ?i" "binding_fits t c"
    by (rule bindings_ok_binding [OF parts(6) s(2)]) blast
  have "ls_current s = Some ?i" using q(4) t(3) by simp
  from bindings_ok_current [OF parts(6) s(1) this] s(2) have lease: "bs_lease c = ?l" by auto
  with t s have fits: "binding_fits s c" by simp
  have maps: "store_find (leases ?A) = ?L(?l \<mapsto> ?s)"
    by (subst settled_leases) (simp_all add: s(1))
  have maps': "store_find (bindings ?A) = ?B(?i \<mapsto> c')" "store_find (relationships ?A) = ?R(i := None)"
    using s(2) by (simp_all add: settled_def store_maps(1,2))
  have stack: "stack_ok (arb_epoch A) (active A) (suspended A) (?L(?l \<mapsto> ?s))"
    by (rule stack_ok_update [OF parts(5) s(1)]) simp_all
  have binds: "bindings_ok (?L(?l \<mapsto> ?s)) (?B(?i \<mapsto> c'))"
  proof (rule bindings_ok_observe [OF parts(6) s(2,1) lease])
    show "bs_id c' = bs_id c" "bs_lease c' = bs_lease c" "ls_current ?s = ls_current s"
      using c' by (auto simp: observed_binding_def)
    have "next_poll_receipt A \<noteq> 0" using cs(7) by simp
    then have "binding_fits s c'" using c' fits by (auto intro: binding_fits_observed)
    moreover have "bs_kind c' = bs_kind c" using c' by (auto simp: observed_binding_def)
    ultimately show "binding_fits ?s c'" by (auto simp: binding_fits_def)
  qed
  have rels: "relationships_ok (?L(?l \<mapsto> ?s)) (?R(i := None))"
    by (rule relationships_ok_view [OF relationships_ok_erase [OF parts(7)] s(1)]) simp_all
  have counters: "counters_ok (Suc n) ?A"
  proof (rule counters_okI, goal_cases)
    case (13 l t)
    then have "(?L(?l \<mapsto> ?s)) l = Some t" by (simp only: maps)
    with cs(13) [of l t] cs(13) [OF s(1)] show ?case
      by (auto simp: settled_def le_SucI split: if_splits)
  next
    case (14 j x)
    then have "(?B(?i \<mapsto> c')) j = Some x" by (simp only: maps')
    with cs(14) [of j x] cs(14) [OF s(2)] show ?case by (auto simp: settled_def split: if_splits)
  next
    case (15 j x)
    then have "(?R(i := None)) j = Some x" by (simp only: maps')
    with cs(15) [of j x] show ?case by (auto simp: settled_def split: if_splits)
  qed (use cs(1-12) poll in \<open>simp_all add: settled_def le_SucI\<close>)
  show ?thesis
    unfolding arbiter_inv_def stores_ok_def maps maps' using counters stack binds rels parts(1-3) live parts(8)
    by (simp add: settled_def um.wf_intros stopped_ok_def)
qed

lemma store_modify_same:
  assumes "store_wf m" and "store_find m k = Some v"
  shows "store_modify k (\<lambda>_. v) m = m"
  unfolding store_modify_def
proof (rule map_idI)
  fix x assume x: "x \<in> set m"
  then have "map_of m (fst x) = Some (snd x)" using assms(1) by (simp add: store_wf_def)
  then have "fst x = k \<Longrightarrow> snd x = v" using assms(2) by (simp add: store_find_def)
  then show "(case x of (k', w) \<Rightarrow> (k', if k' = k then v else w)) = x" by (auto split: prod.split)
qed

lemma Complete_inv:
  assumes inv: "arbiter_inv n A" and room: "n + 2 < 2 ^ 64"
    and run: "Complete bk th i ep (A, b) = (m, A', b')"
  shows "arbiter_inv (Suc n) A'"
  using run
proof (cases rule: Complete_result)
  case (refused e)
  with relationship_inv [OF inv] show ?thesis by blast
next
  case (already q s c)
  have current: "\<not> stopped A" "ls_current s = Some (bs_id c)"
    by (use already(4-6) in \<open>auto intro: ValidateRelationship_None [OF already(3)]\<close>)
  have "store_modify (ir_binding q) (\<lambda>_. c) (bindings A) = bindings A"
    using store_modify_same [OF arbiter_inv_parts(2) [OF inv]] already(6) by (simp add: FindBinding_def)
  with settled_inv [OF inv room current(1) already(4-6) current(2), of "next_poll_receipt A" c]
  show ?thesis by (simp add: already(8) bumped_def)
next
  case (observed q s c)
  have current: "\<not> stopped A" "ls_current s = Some (bs_id c)"
    by (use observed(4-6) in \<open>auto intro: ValidateRelationship_None [OF observed(3)]\<close>)
  show ?thesis
    unfolding observed(12)
    by (rule settled_inv [OF inv room current(1) observed(4-6) current(2)])
      (use observed in \<open>auto simp: bumped_def\<close>)
qed

end
