(* ===== verification/InputMachine.thy ===== *)
theory InputMachine
  imports InputBindings
begin

text \<open>
  The arbiter as a machine that interleaves its operations, on any thread, with the guest's polls of
  the backend: every operation keeps the invariant.
\<close>

section \<open>The machine\<close>

datatype 'c input_operation =
    Input_Acquire InputLeaseRequest u64
  | Input_Borrow u64 InputLeaseRequest u64
  | Input_ApplyState u64 GCInputFrame u64
  | Input_BeginDelivery u64 GCInputFrame u64
  | Input_CompleteDelivery u64 u64 u64
  | Input_ReplaceDelivery u64 u64 GCInputFrame u64
  | Input_CreateRelationship InputExecutionBindingEvidence
  | Input_RemoveRelationship u64
  | Input_Complete u64 u64
  | Input_Cancel u64 u64
  | Input_CloseLease u64 u64
  | Input_InitializeWorksetEpoch u64
  | Input_Shutdown
  | Input_GuestPoll 'c

fun arbiter_call ::
  "'b InputBackendPort \<Rightarrow> ('c \<Rightarrow> 'b \<Rightarrow> 'b) \<Rightarrow> thread_id \<Rightarrow> 'c input_operation \<Rightarrow> InputArbiter \<times> 'b \<Rightarrow> InputArbiter \<times> 'b" where
  "arbiter_call bk poll th (Input_Acquire req ep) S = snd (Acquire bk th req ep S)"
| "arbiter_call bk poll th (Input_Borrow l req ep) S = snd (Borrow bk th l req ep S)"
| "arbiter_call bk poll th (Input_ApplyState l f ep) S = snd (ApplyState bk th l f ep S)"
| "arbiter_call bk poll th (Input_BeginDelivery l f ep) S = snd (BeginDelivery bk th l f ep S)"
| "arbiter_call bk poll th (Input_CompleteDelivery l i ep) S = snd (CompleteDelivery bk th l i ep S)"
| "arbiter_call bk poll th (Input_ReplaceDelivery l i f ep) S = snd (ReplaceDelivery bk th l i f ep S)"
| "arbiter_call bk poll th (Input_CreateRelationship ev) S = (snd (CreateExecutionRelationship th ev (fst S)), snd S)"
| "arbiter_call bk poll th (Input_RemoveRelationship i) S = (snd (RemoveExecutionRelationship th i (fst S)), snd S)"
| "arbiter_call bk poll th (Input_Complete i ep) S = snd (Complete bk th i ep S)"
| "arbiter_call bk poll th (Input_Cancel i ep) S = (snd (Cancel th i ep (fst S)), snd S)"
| "arbiter_call bk poll th (Input_CloseLease l ep) S = snd (CloseLease bk th l ep S)"
| "arbiter_call bk poll th (Input_InitializeWorksetEpoch ep) S = (snd (InitializeWorksetEpoch th ep (fst S)), snd S)"
| "arbiter_call bk poll th Input_Shutdown S = snd (Shutdown bk th S)"
| "arbiter_call bk poll th (Input_GuestPoll c) S = (fst S, poll c (snd S))"

text \<open>The state carries the number of calls, which bounds every counter of the arbiter.\<close>

fun arbiter_step ::
  "'b InputBackendPort \<Rightarrow> ('c \<Rightarrow> 'b \<Rightarrow> 'b) \<Rightarrow> thread_id \<times> 'c input_operation \<Rightarrow>
    nat \<times> InputArbiter \<times> 'b \<Rightarrow> nat \<times> InputArbiter \<times> 'b" where
  "arbiter_step bk poll (th, op) (n, S) = (Suc n, arbiter_call bk poll th op S)"

lemma call_result:
  assumes "snd p = S"
  obtains r where "p = (r, S)"
  using assms by (cases p) auto

lemma arbiter_call_inv:
  assumes inv: "arbiter_inv n A" and room: "n + 2 < 2 ^ 64"
    and run: "arbiter_call bk poll th op (A, b) = (A', b')"
  shows "arbiter_inv (Suc n) A'"
proof (cases op)
  case (Input_Acquire req ep)
  obtain r where "Acquire bk th req ep (A, b) = (r, A', b')" using run Input_Acquire by (auto elim: call_result)
  then show ?thesis by (rule lease_acquire_inv [OF inv room])
next
  case (Input_Borrow l req ep)
  obtain r where "Borrow bk th l req ep (A, b) = (r, A', b')" using run Input_Borrow by (auto elim: call_result)
  then show ?thesis by (rule Borrow_inv [OF inv room])
next
  case (Input_ApplyState l f ep)
  obtain r where "ApplyState bk th l f ep (A, b) = (r, A', b')" using run Input_ApplyState by (auto elim: call_result)
  then show ?thesis by (rule ApplyState_inv [OF inv room])
next
  case (Input_BeginDelivery l f ep)
  obtain r where "BeginDelivery bk th l f ep (A, b) = (r, A', b')" using run Input_BeginDelivery by (auto elim: call_result)
  then show ?thesis by (rule BeginDelivery_inv [OF inv room])
next
  case (Input_CompleteDelivery l i ep)
  obtain r where "CompleteDelivery bk th l i ep (A, b) = (r, A', b')" using run Input_CompleteDelivery by (auto elim: call_result)
  then show ?thesis by (rule CompleteDelivery_inv [OF inv room])
next
  case (Input_ReplaceDelivery l i f ep)
  obtain r where "ReplaceDelivery bk th l i f ep (A, b) = (r, A', b')" using run Input_ReplaceDelivery by (auto elim: call_result)
  then show ?thesis by (rule ReplaceDelivery_inv [OF inv room])
next
  case (Input_CreateRelationship ev)
  then have "A' = snd (CreateExecutionRelationship th ev A)" using run by simp
  then show ?thesis using CreateExecutionRelationship_inv [OF inv room, of th ev "fst (CreateExecutionRelationship th ev A)" A'] by simp
next
  case (Input_RemoveRelationship i)
  then have "A' = snd (RemoveExecutionRelationship th i A)" using run by simp
  then show ?thesis using relationship_inv [OF inv] RemoveExecutionRelationship_result [of th i A "fst (RemoveExecutionRelationship th i A)" A'] by simp
next
  case (Input_Complete i ep)
  obtain r where "Complete bk th i ep (A, b) = (r, A', b')" using run Input_Complete by (auto elim: call_result)
  then show ?thesis by (rule Complete_inv [OF inv room])
next
  case (Input_Cancel i ep)
  then have "A' = snd (Cancel th i ep A)" using run by simp
  then show ?thesis using relationship_inv [OF inv] Cancel_result [of th i ep A "fst (Cancel th i ep A)" A'] by simp
next
  case (Input_CloseLease l ep)
  obtain r where "CloseLease bk th l ep (A, b) = (r, A', b')" using run Input_CloseLease by (auto elim: call_result)
  then show ?thesis by (rule CloseLease_inv [OF inv room])
next
  case (Input_InitializeWorksetEpoch ep)
  then have "A' = snd (InitializeWorksetEpoch th ep A)" using run by simp
  then show ?thesis using InitializeWorksetEpoch_inv [OF inv, of th ep "fst (InitializeWorksetEpoch th ep A)" A'] by simp
next
  case Input_Shutdown
  obtain r where "Shutdown bk th (A, b) = (r, A', b')" using run Input_Shutdown by (auto elim: call_result)
  then show ?thesis by (rule arbiter_shutdown_inv [OF inv room])
next
  case (Input_GuestPoll c)
  then show ?thesis using run arbiter_inv_mono [OF inv] by simp
qed

interpretation arbiter_machine: invariant_machine "arbiter_step bk poll"
  "\<lambda>(n, A, b). n + 2 < 2 ^ 64 \<longrightarrow> arbiter_inv n A" for bk :: "'b InputBackendPort" and poll :: "'c \<Rightarrow> 'b \<Rightarrow> 'b"
proof
  fix s :: "nat \<times> InputArbiter \<times> 'b" and x :: "thread_id \<times> 'c input_operation"
  assume inv: "case s of (n, A, b) \<Rightarrow> n + 2 < 2 ^ 64 \<longrightarrow> arbiter_inv n A"
  obtain n A b where s: "s = (n, A, b)" by (rule prod_cases3)
  obtain th op where x: "x = (th, op)" by fastforce
  obtain A' b' where run: "arbiter_call bk poll th op (A, b) = (A', b')" by fastforce
  have "arbiter_inv (Suc n) A'" if "Suc n + 2 < 2 ^ 64"
    using arbiter_call_inv [OF _ _ run] inv that by (simp add: s)
  with run show "case arbiter_step bk poll x s of (n, A, b) \<Rightarrow> n + 2 < 2 ^ 64 \<longrightarrow> arbiter_inv n A"
    by (simp add: s x)
qed

lemma new_arbiter_inv: "arbiter_inv 0 (new_arbiter th)"
  by (simp add: arbiter_inv_def new_arbiter_def stores_ok_def counters_ok_def stack_ok_def lease_stack_def
      bindings_ok_def relationships_ok_def stopped_ok_def store_empty um.wf_empty)

lemma arbiter_reachable_inv:
  "reachable_from (arbiter_step bk poll) (0, new_arbiter th, b0) (n, A, b) \<Longrightarrow> n + 2 < 2 ^ 64 \<Longrightarrow> arbiter_inv n A"
  using arbiter_machine.reachable_inv [of bk poll "(0, new_arbiter th, b0)" "(n, A, b)"]
  by (simp add: new_arbiter_inv)

end
