(* ===== verification/PadBackend.thy ===== *)
theory PadBackend
  imports InputArbiter
begin

text \<open>
  The input backend the arbiter runs on: the Dolphin backend's input port
  (SavorCore/Runner/Runtime/DolphinWrapperBackend.cpp), the wrapper's publication epochs
  (SavorCore/Core/DolphinWrapper.cpp) and the controller override that the guest polls
  (SavorCore/Core/Input/GCPadOverride.h and .cpp). The values the override returns to Dolphin are
  floating-point numbers computed from the frame and are left out; what a poll changes is modelled.

  The locale states what the arbiter relies on, and the interpretation discharges it for the
  controller override. The guest's answers are recorded beside the state, so that what it has seen can
  be compared with the counters.
\<close>

section \<open>The controller override\<close>

record GCPadOverride =
  m_installed :: bool
  m_cur :: GCInputFrame
  m_publication_epoch :: u64
  m_callback_count :: u32
  m_a_control_callback_count :: u32

definition new_pad :: GCPadOverride where
  "new_pad = \<lparr>m_installed = False, m_cur = NeutralFrame, m_publication_epoch = 0,
     m_callback_count = 0, m_a_control_callback_count = 0\<rparr>"

definition publishFrame :: "u64 \<Rightarrow> GCInputFrame \<Rightarrow> GCPadOverride \<Rightarrow> GCPadOverride" where
  "publishFrame publication_epoch f p = p\<lparr>m_cur := f, m_publication_epoch := publication_epoch,
     m_callback_count := 0, m_a_control_callback_count := 0\<rparr>"

text \<open>The controller exists or not; installing a second time changes nothing.\<close>

definition install :: "bool \<Rightarrow> GCPadOverride \<Rightarrow> GCPadOverride" where
  "install controller p =
     (if m_installed p \<or> \<not> controller then p
      else p\<lparr>m_cur := NeutralFrame, m_publication_epoch := 0, m_callback_count := 0,
             m_a_control_callback_count := 0, m_installed := True\<rparr>)"

text \<open>One call of the installed function: the frame it answers from, and its counters.\<close>

definition pad_callback :: "string \<Rightarrow> string \<Rightarrow> GCPadOverride \<Rightarrow> GCInputFrame \<times> GCPadOverride" where
  "pad_callback grp control p =
     (m_cur p,
      if m_publication_epoch p \<noteq> 0
      then p\<lparr>m_callback_count := m_callback_count p + 1,
             m_a_control_callback_count :=
               (if grp = ''Buttons'' \<and> control = ''A'' then m_a_control_callback_count p + 1
                else m_a_control_callback_count p)\<rparr>
      else p)"

section \<open>The wrapper and the backend's port\<close>

record DolphinInput =
  backend_open :: bool
  has_wrapper :: bool
  system_pad_is_inited :: bool
  input_publication_epoch :: u64
  pad :: GCPadOverride

definition isInputReady :: "'g DolphinInput_scheme \<Rightarrow> bool" where
  "isInputReady D \<longleftrightarrow> system_pad_is_inited D"

definition publishInputEpoch :: "GCInputFrame \<Rightarrow> 'g DolphinInput_scheme \<Rightarrow> u64 \<times> 'g DolphinInput_scheme" where
  "publishInputEpoch f D =
     (if \<not> system_pad_is_inited D then (0, D)
      else
        let e = input_publication_epoch D + 1;
            e = (if e = 0 then e + 1 else e)
        in (e, D\<lparr>input_publication_epoch := e, pad := publishFrame e f (pad D)\<rparr>))"

definition IsAvailable :: "u8 \<Rightarrow> 'g DolphinInput_scheme \<Rightarrow> bool" where
  "IsAvailable p D \<longleftrightarrow> p = 0 \<and> backend_open D \<and> has_wrapper D \<and> isInputReady D"

definition Publish ::
  "u8 \<Rightarrow> GCInputFrame \<Rightarrow> 'g DolphinInput_scheme \<Rightarrow> BackendInputPublication \<times> 'g DolphinInput_scheme" where
  "Publish p frame D =
     (if \<not> IsAvailable p D then (\<lparr>pub_ok = False, pub_epoch = 0\<rparr>, D)
      else
        let (e, D) = publishInputEpoch frame D
        in (if e = 0 then \<lparr>pub_ok = False, pub_epoch = 0\<rparr> else \<lparr>pub_ok = True, pub_epoch = e\<rparr>, D))"

definition QueryPoll :: "u8 \<Rightarrow> 'g DolphinInput_scheme \<Rightarrow> BackendInputPoll" where
  "QueryPoll p D =
     (if \<not> IsAvailable p D
      then \<lparr>poll_ok = False, poll_epoch = 0, poll_callbacks = 0, poll_a_callbacks = 0, poll_frame = NeutralFrame\<rparr>
      else \<lparr>poll_ok = True, poll_epoch = m_publication_epoch (pad D), poll_callbacks = m_callback_count (pad D),
        poll_a_callbacks = m_a_control_callback_count (pad D), poll_frame = m_cur (pad D)\<rparr>)"

definition dolphin_port :: "'g DolphinInput_scheme InputBackendPort" where
  "dolphin_port = \<lparr>port_available = IsAvailable, port_publish = Publish, port_poll = QueryPoll\<rparr>"

text \<open>
  The guest polls a control of the controller. It reaches the counters only through the function
  that \<open>install\<close> hands to Dolphin; without it the poll is none of the override's business.
\<close>

definition guest_poll :: "string \<times> string \<Rightarrow> 'g DolphinInput_scheme \<Rightarrow> 'g DolphinInput_scheme" where
  "guest_poll c D =
     (if m_installed (pad D) then D\<lparr>pad := snd (pad_callback (fst c) (snd c) (pad D))\<rparr> else D)"

section \<open>Opening the backend\<close>

text \<open>
  A new wrapper, whose settings may have initialized the pads or not; \<open>controller\<close> tells whether
  Dolphin has the controller the override is to be installed on. An opening that succeeds installs
  it before the session, and so before any arbiter, exists.
\<close>

definition ConfigurePortsStandardPadP1 :: "bool \<Rightarrow> DolphinInput \<Rightarrow> DolphinInput" where
  "ConfigurePortsStandardPadP1 controller D =
     D\<lparr>system_pad_is_inited := True, pad := install controller (pad D)\<rparr>"

definition opened_input :: "bool \<Rightarrow> bool \<Rightarrow> DolphinInput" where
  "opened_input settings_initialize controller =
     (let wrapper = \<lparr>backend_open = False, has_wrapper = False,
            system_pad_is_inited = settings_initialize, input_publication_epoch = 0, pad = new_pad\<rparr>
      in (ConfigurePortsStandardPadP1 controller wrapper)\<lparr>has_wrapper := True, backend_open := True\<rparr>)"

section \<open>What the guest was answered\<close>

text \<open>
  A record of the guest's side, which no operation of the code reads or writes: every answer it got
  from the installed function, with the publication that was held then.
\<close>

record WatchedInput = DolphinInput +
  guest_answers :: "(u64 \<times> GCInputFrame) list"

definition watched_poll :: "string \<times> string \<Rightarrow> WatchedInput \<Rightarrow> WatchedInput" where
  "watched_poll c W =
     (if m_installed (pad W)
      then (guest_poll c W)\<lparr>guest_answers := guest_answers W @
             [(m_publication_epoch (pad W), fst (pad_callback (fst c) (snd c) (pad W)))]\<rparr>
      else W)"

definition watched_input :: "bool \<Rightarrow> bool \<Rightarrow> WatchedInput" where
  "watched_input settings_initialize controller =
     DolphinInput.extend (opened_input settings_initialize controller) \<lparr>guest_answers = []\<rparr>"

section \<open>What the arbiter relies on\<close>

text \<open>
  \<open>shown\<close> is the frame the guest sees and \<open>shown_epoch\<close> its publication; \<open>seen b e f\<close> says that the
  guest was answered with the frame \<open>f\<close> while the publication \<open>e\<close> was held; \<open>good\<close> is the backend's own
  invariant.
\<close>

locale input_backend =
  fixes bk :: "'b InputBackendPort"
    and poll_by_guest :: "'c \<Rightarrow> 'b \<Rightarrow> 'b"
    and shown :: "'b \<Rightarrow> GCInputFrame"
    and shown_epoch :: "'b \<Rightarrow> u64"
    and seen :: "'b \<Rightarrow> u64 \<Rightarrow> GCInputFrame \<Rightarrow> bool"
    and good :: "'b \<Rightarrow> bool"
  assumes publish_shows: "good b \<Longrightarrow> port_publish bk p f b = (r, b') \<Longrightarrow> pub_ok r \<Longrightarrow> pub_epoch r \<noteq> 0 \<Longrightarrow>
      shown b' = f \<and> shown_epoch b' = pub_epoch r \<and> port_available bk p b"
    and publish_counts: "good b \<Longrightarrow> port_publish bk p f b = (r, b') \<Longrightarrow> unat (shown_epoch b) + 1 < 2 ^ 64 \<Longrightarrow>
      unat (shown_epoch b') \<le> unat (shown_epoch b) + 1 \<and> shown_epoch b \<le> shown_epoch b' \<and>
      (pub_ok r \<and> pub_epoch r \<noteq> 0 \<longrightarrow> shown_epoch b < shown_epoch b')"
    and publish_refused: "good b \<Longrightarrow> port_publish bk p f b = (r, b') \<Longrightarrow> \<not> pub_ok r \<or> pub_epoch r = 0 \<Longrightarrow>
      shown b' = shown b \<and> shown_epoch b' = shown_epoch b"
    and publish_available: "good b \<Longrightarrow> port_publish bk p f b = (r, b') \<Longrightarrow>
      port_available bk q b' = port_available bk q b"
    and poll_reads: "good b \<Longrightarrow> poll_ok (port_poll bk p b) \<Longrightarrow>
      poll_epoch (port_poll bk p b) = shown_epoch b \<and> poll_frame (port_poll bk p b) = shown b"
    and poll_seen: "good b \<Longrightarrow> poll_ok (port_poll bk p b) \<Longrightarrow> poll_callbacks (port_poll bk p b) \<noteq> 0 \<Longrightarrow>
      seen b (poll_epoch (port_poll bk p b)) (poll_frame (port_poll bk p b))"
    and publish_seen: "good b \<Longrightarrow> port_publish bk p f b = (r, b') \<Longrightarrow> seen b e g \<Longrightarrow> seen b' e g"
    and guest_seen: "good b \<Longrightarrow> seen b e g \<Longrightarrow> seen (poll_by_guest c b) e g"
    and guest_keeps: "good b \<Longrightarrow> shown (poll_by_guest c b) = shown b \<and>
      shown_epoch (poll_by_guest c b) = shown_epoch b \<and>
      port_available bk q (poll_by_guest c b) = port_available bk q b"
    and good_publish: "good b \<Longrightarrow> port_publish bk p f b = (r, b') \<Longrightarrow> unat (shown_epoch b) + 1 < 2 ^ 64 \<Longrightarrow>
      good b'"
    and good_guest: "good b \<Longrightarrow> good (poll_by_guest c b)"

text \<open>
  The override's own invariant: its publication is the wrapper's latest; the guest was answered only
  under publications so far, under the current one with its frame, and as often as is counted.
\<close>

definition pad_good :: "WatchedInput \<Rightarrow> bool" where
  "pad_good W \<longleftrightarrow> m_publication_epoch (pad W) = input_publication_epoch W \<and>
     (\<forall>(e, f) \<in> set (guest_answers W). e \<le> m_publication_epoch (pad W) \<and>
       (e = m_publication_epoch (pad W) \<longrightarrow> f = m_cur (pad W))) \<and>
     m_callback_count (pad W) = (if m_publication_epoch (pad W) = 0 then 0
       else of_nat (count_list (guest_answers W) (m_publication_epoch (pad W), m_cur (pad W))))"

lemma pad_counted:
  assumes "pad_good W" and "m_callback_count (pad W) \<noteq> 0"
  shows "(m_publication_epoch (pad W), m_cur (pad W)) \<in> set (guest_answers W)"
  using assms by (auto simp: pad_good_def count_list_0_iff split: if_splits intro: ccontr)

lemma pad_epoch_rises:
  assumes "unat (e :: u64) + 1 < 2 ^ 64"
  shows "e + 1 \<noteq> 0" "e < e + 1" "unat (e + 1) = unat e + 1"
proof -
  show succ: "unat (e + 1) = unat e + 1" using assms by (simp add: unat_word_ariths(1))
  then show "e < e + 1" by (simp add: word_less_nat_alt)
  from succ show "e + 1 \<noteq> 0" by (metis add_is_0 unat_0 zero_neq_one)
qed

lemmas publish_simps = dolphin_port_def Publish_def publishInputEpoch_def publishFrame_def IsAvailable_def
  isInputReady_def Let_def

lemma pad_good_publish:
  assumes good: "pad_good W" and pub: "Publish p f W = (r, W')"
    and bound: "unat (m_publication_epoch (pad W)) + 1 < 2 ^ 64"
  shows "pad_good W'"
proof (cases "W' = W")
  case False
  let ?e = "m_publication_epoch (pad W) + 1"
  have epoch: "m_publication_epoch (pad W) = input_publication_epoch W" using good by (simp add: pad_good_def)
  note rises = pad_epoch_rises [OF bound]
  have W': "W' = W\<lparr>input_publication_epoch := ?e, pad := publishFrame ?e f (pad W)\<rparr>"
    using pub False rises(1) epoch
    by (auto simp: Publish_def publishInputEpoch_def IsAvailable_def isInputReady_def Let_def split: if_splits)
  have old: "e < ?e" if "(e, g) \<in> set (guest_answers W)" for e g
    using good that rises(2) by (fastforce simp: pad_good_def)
  then have "count_list (guest_answers W) (?e, f) = 0" by (fastforce simp: count_list_0_iff)
  with old rises(1) show ?thesis by (fastforce simp: W' pad_good_def publishFrame_def)
qed (use good in simp)

lemma pad_good_poll:
  assumes "pad_good W"
  shows "pad_good (watched_poll c W)"
  using assms by (auto simp: pad_good_def watched_poll_def guest_poll_def pad_callback_def)

lemma watched_poll_keeps:
  "m_cur (pad (watched_poll c W)) = m_cur (pad W)"
  "m_publication_epoch (pad (watched_poll c W)) = m_publication_epoch (pad W)"
  "backend_open (watched_poll c W) = backend_open W" "has_wrapper (watched_poll c W) = has_wrapper W"
  "system_pad_is_inited (watched_poll c W) = system_pad_is_inited W"
  "x \<in> set (guest_answers W) \<Longrightarrow> x \<in> set (guest_answers (watched_poll c W))"
  by (auto simp: watched_poll_def guest_poll_def pad_callback_def)

lemma watched_input_good: "pad_good (watched_input i controller)"
  by (simp add: pad_good_def watched_input_def opened_input_def ConfigurePortsStandardPadP1_def install_def
      new_pad_def DolphinInput.defs Let_def)

lemma Publish_answers: "Publish p f W = (r, W') \<Longrightarrow> guest_answers W' = guest_answers W"
  by (auto simp: Publish_def publishInputEpoch_def Let_def split: if_splits)

interpretation dolphin: input_backend dolphin_port watched_poll "\<lambda>W. m_cur (pad W)"
  "\<lambda>W. m_publication_epoch (pad W)" "\<lambda>W e f. (e, f) \<in> set (guest_answers W)" pad_good
proof (unfold_locales, goal_cases)
  case (2 b p f r b')
  have "m_publication_epoch (pad b) = input_publication_epoch b" using 2(1) by (simp add: pad_good_def)
  with pad_epoch_rises [OF 2(3)] 2(2) show ?case
    by (auto simp: publish_simps word_less_nat_alt word_le_nat_alt split: if_splits)
next
  case (6 b p)
  then show ?case using pad_counted [of b] by (auto simp: dolphin_port_def QueryPoll_def split: if_splits)
next
  case (7 b p f r b' e g)
  then show ?case using Publish_answers [of p f b r b'] by (simp add: dolphin_port_def)
next
  case (10 b p f r b')
  then show ?case using pad_good_publish [of b p f r b'] by (simp add: dolphin_port_def)
qed (auto simp: publish_simps QueryPoll_def watched_poll_keeps pad_good_poll split: if_splits)

end
