(* ===== verification/InputPad.thy ===== *)
theory InputPad
  imports InputMachine PadBackend
begin

text \<open>
  What the arbiter's records say of the pad: the flags that the backend is neutral and the binding of
  the latest publication are compared with the frame the guest is shown, over any backend that keeps
  the contract \<open>input_backend\<close>.
\<close>

section \<open>What the records tell\<close>

text \<open>
  Going down the stack, as long as no lease has published: a lease that says the backend is neutral
  is right, and so is an empty stack.
\<close>

fun neutral_told :: "lease_map \<Rightarrow> u64 list \<Rightarrow> bool \<Rightarrow> bool" where
  "neutral_told L [] N \<longleftrightarrow> N"
| "neutral_told L (l # ls) N \<longleftrightarrow>
     (case L l of None \<Rightarrow> False
      | Some s \<Rightarrow> (ls_backend_neutral s \<longrightarrow> N) \<and> (ls_mutated s \<or> neutral_told L ls N))"

text \<open>
  A binding to be observed belongs to a publication so far, the latest one with the frame shown; if
  it is on record as observed, the guest saw its frame under its publication.
\<close>

definition epochs_told :: "binding_map \<Rightarrow> u64 \<Rightarrow> GCInputFrame \<Rightarrow> (u64 \<Rightarrow> GCInputFrame \<Rightarrow> bool) \<Rightarrow> bool" where
  "epochs_told B e f S \<longleftrightarrow> (\<forall>i c. B i = Some c \<and> bs_requires_observation c \<longrightarrow>
     bs_publication_epoch c \<le> e \<and> (bs_publication_epoch c = e \<longrightarrow> bs_frame c = f) \<and>
     (bs_observed c \<longrightarrow> S (bs_publication_epoch c) (bs_frame c)))"

definition ports_available :: "lease_map \<Rightarrow> (u8 \<Rightarrow> bool) \<Rightarrow> bool" where
  "ports_available L avail \<longleftrightarrow> (\<forall>l s. L l = Some s \<and> (ls_mutated s \<or> \<not> req_movie_exclusive (ls_request s)) \<longrightarrow>
     avail (req_port (ls_request s)))"

definition told ::
  "'b InputBackendPort \<Rightarrow> ('b \<Rightarrow> GCInputFrame) \<Rightarrow> ('b \<Rightarrow> u64) \<Rightarrow> ('b \<Rightarrow> u64 \<Rightarrow> GCInputFrame \<Rightarrow> bool) \<Rightarrow>
    nat \<Rightarrow> InputArbiter \<Rightarrow> 'b \<Rightarrow> bool" where
  "told bk shown epoch seen n A b \<longleftrightarrow> unat (epoch b) \<le> n \<and>
     epochs_told (store_find (bindings A)) (epoch b) (shown b) (seen b) \<and>
     ports_available (store_find (leases A)) (\<lambda>p. port_available bk p b) \<and>
     (stopped A \<or> neutral_told (store_find (leases A)) (lease_stack (active A) (suspended A)) (shown b = NeutralFrame))"

lemma neutral_told_cong:
  assumes "\<And>l. l \<in> set ls \<Longrightarrow> map_option (\<lambda>s. (ls_backend_neutral s, ls_mutated s)) (L l) =
    map_option (\<lambda>s. (ls_backend_neutral s, ls_mutated s)) (L' l)"
  shows "neutral_told L ls N \<longleftrightarrow> neutral_told L' ls N"
  using assms
proof (induction ls)
  case (Cons l ls)
  have "map_option (\<lambda>s. (ls_backend_neutral s, ls_mutated s)) (L l) =
    map_option (\<lambda>s. (ls_backend_neutral s, ls_mutated s)) (L' l)" using Cons.prems by simp
  moreover have "neutral_told L ls N \<longleftrightarrow> neutral_told L' ls N" using Cons by simp
  ultimately show ?case by (cases "L l"; cases "L' l") auto
qed simp

text \<open>A write to a lease that leaves the two flags alone, and the rest of the stack under a new top.\<close>

lemma neutral_told_update:
  "L l = Some s \<Longrightarrow> ls_backend_neutral s' = ls_backend_neutral s \<Longrightarrow> ls_mutated s' = ls_mutated s \<Longrightarrow>
    neutral_told (L(l \<mapsto> s')) ls N \<longleftrightarrow> neutral_told L ls N"
  by (rule neutral_told_cong) simp

lemma neutral_told_other: "l \<notin> set ls \<Longrightarrow> neutral_told (L(l := x)) ls N \<longleftrightarrow> neutral_told L ls N"
  by (rule neutral_told_cong) auto

lemma epochs_told_drop: "epochs_told B e f S \<Longrightarrow> epochs_told (drop_if P B) e f S"
  unfolding epochs_told_def by auto

lemma epochs_told_erase: "epochs_told B e f S \<Longrightarrow> epochs_told (B(i := None)) e f S"
  unfolding epochs_told_def by auto

lemma epochs_told_add:
  "epochs_told B e f S \<Longrightarrow> (bs_requires_observation c \<Longrightarrow> bs_publication_epoch c \<le> e \<and>
    (bs_publication_epoch c = e \<longrightarrow> bs_frame c = f) \<and>
    (bs_observed c \<longrightarrow> S (bs_publication_epoch c) (bs_frame c))) \<Longrightarrow> epochs_told (B(i \<mapsto> c)) e f S"
  unfolding epochs_told_def by auto

lemma epochs_told_later:
  "epochs_told B e f S \<Longrightarrow> e < e' \<Longrightarrow> (\<And>e f. S e f \<Longrightarrow> S' e f) \<Longrightarrow> epochs_told B e' f' S'"
  unfolding epochs_told_def by fastforce

lemma epochs_told_same:
  "epochs_told B e f S \<Longrightarrow> (\<And>e f. S e f \<Longrightarrow> S' e f) \<Longrightarrow> epochs_told B e f S'"
  unfolding epochs_told_def by fastforce

lemma ports_available_update:
  "ports_available L avail \<Longrightarrow> (ls_mutated s \<or> \<not> req_movie_exclusive (ls_request s) \<Longrightarrow> avail (req_port (ls_request s))) \<Longrightarrow>
    ports_available (L(l \<mapsto> s)) avail"
  unfolding ports_available_def by auto

lemma ports_available_erase: "ports_available L avail \<Longrightarrow> ports_available (L(l := None)) avail"
  unfolding ports_available_def by auto

lemma ports_availableD:
  "ports_available L avail \<Longrightarrow> L l = Some s \<Longrightarrow> ls_mutated s \<or> \<not> req_movie_exclusive (ls_request s) \<Longrightarrow>
    avail (req_port (ls_request s))"
  unfolding ports_available_def by blast

lemma told_parts:
  assumes "told bk shown epoch seen n A b"
  shows "unat (epoch b) \<le> n" "epochs_told (store_find (bindings A)) (epoch b) (shown b) (seen b)"
    "ports_available (store_find (leases A)) (\<lambda>p. port_available bk p b)"
    "\<not> stopped A \<Longrightarrow> neutral_told (store_find (leases A)) (lease_stack (active A) (suspended A)) (shown b = NeutralFrame)"
  using assms unfolding told_def by blast+

lemma told_Suc: "told bk shown epoch seen n A b \<Longrightarrow> told bk shown epoch seen (Suc n) A b"
  unfolding told_def by simp

lemma told_active:
  assumes "told bk shown epoch seen n A b" and "\<not> stopped A" and "active A = Some l" and "store_find (leases A) l = Some s"
  shows "ls_backend_neutral s \<Longrightarrow> shown b = NeutralFrame"
    and "ls_mutated s \<or> neutral_told (store_find (leases A)) (rev (suspended A)) (shown b = NeutralFrame)"
  using told_parts(4) [OF assms(1,2)] assms(3,4) by (simp_all add: lease_stack_def)

section \<open>Operations that publish nothing\<close>

context input_backend
begin

lemma told_unpublished:
  assumes "told bk shown shown_epoch seen n A b" and "good b" and "unpublished bk b b'" and "n + 2 < 2 ^ 64"
  shows "told bk shown shown_epoch seen (Suc n) A b'" and "good b'"
proof -
  have bound: "unat (shown_epoch b) + 1 < 2 ^ 64" using told_parts(1) [OF assms(1)] assms(4) by simp
  have same: "shown b' = shown b \<and> shown_epoch b' = shown_epoch b \<and> good b' \<and>
      (\<forall>q. port_available bk q b' = port_available bk q b) \<and> (\<forall>e g. seen b e g \<longrightarrow> seen b' e g)"
    using assms(2,3) bound publish_refused publish_available good_publish publish_seen
    unfolding unpublished_def by metis
  then have "epochs_told (store_find (bindings A)) (shown_epoch b') (shown b') (seen b')"
    using epochs_told_same [OF told_parts(2) [OF assms(1)]] by simp
  with same assms(1) show "told bk shown shown_epoch seen (Suc n) A b'" "good b'" unfolding told_def by auto
qed

lemma told_poll:
  "told bk shown shown_epoch seen n A b \<Longrightarrow> good b \<Longrightarrow> told bk shown shown_epoch seen (Suc n) A (poll_by_guest c b)"
  using guest_keeps guest_seen epochs_told_same [of _ _ _ "seen b" "seen (poll_by_guest c b)"]
  unfolding told_def by simp

lemma told_acquired:
  assumes inv: "arbiter_inv n A" and told: "told bk shown shown_epoch seen n A b"
    and run: "Acquire bk th req ep (A, b) = (r, A', b')"
  shows "told bk shown shown_epoch seen (Suc n) A' b'" and "b' = b"
proof -
  note parts = told_parts [OF told]
  have free: "store_find (leases A) (next_lease A) = None" by (rule next_lease_free [OF inv])
  from inv run have "told bk shown shown_epoch seen (Suc n) A' b' \<and> b' = b"
  proof (cases rule: lease_acquire_result)
    case refused
    then show ?thesis using told_Suc [OF told] by simp
  next
    case first
    have "suspended A = []" by (rule arbiter_idle(1) [OF inv first(5)])
    moreover have "ports_available ((store_find (leases A))(next_lease A \<mapsto> granted req ep False A))
        (\<lambda>p. port_available bk p b)"
      by (rule ports_available_update [OF parts(3)]) (use first(8) in \<open>auto simp: granted_def\<close>)
    ultimately show ?thesis
      using parts(1,2) parts(4) [OF first(4)] first
      by (simp add: told_def store_maps free lease_stack_def granted_def)
  next
    case (pushed a s)
    let ?s = "s\<lparr>ls_status := Suspended\<rparr>" and ?L = "store_find (leases A)"
    have map: "store_find (store_emplace (next_lease A) (granted req ep True A)
        (store_modify a (\<lambda>_. ?s) (leases A))) = ?L(a \<mapsto> ?s, next_lease A \<mapsto> granted req ep True A)"
      using pushed(6) free by (subst store_maps(3)) (auto simp: store_maps)
    have g: "\<not> ls_backend_neutral (granted req ep True A)" "\<not> ls_mutated (granted req ep True A)"
      by (simp_all add: granted_def)
    have "ports_available (?L(a \<mapsto> ?s, next_lease A \<mapsto> granted req ep True A)) (\<lambda>p. port_available bk p b)"
      by (intro ports_available_update [OF ports_available_update [OF parts(3)]])
        (use pushed(8) ports_availableD [OF parts(3) pushed(6)] in \<open>auto simp: granted_def\<close>)
    moreover have "next_lease A \<notin> set (lease_stack (Some a) (suspended A))"
      using arbiter_inv_parts(5) [OF inv] free unfolding stack_ok_def pushed(5) by blast
    then have "neutral_told (?L(a \<mapsto> ?s, next_lease A \<mapsto> granted req ep True A)) (lease_stack (Some a) (suspended A)) N =
        neutral_told ?L (lease_stack (Some a) (suspended A)) N" for N
      using neutral_told_update [where L = ?L and s = s and s' = ?s, OF pushed(6)] by (simp add: neutral_told_other)
    moreover have "lease_stack (Some (next_lease A)) (suspended A @ [a]) = next_lease A # lease_stack (Some a) (suspended A)"
      by (simp add: lease_stack_def)
    ultimately show ?thesis
      using parts(1,2) parts(4) [OF pushed(4)] pushed(3,4,5)
      unfolding pushed(12) told_def by (simp add: map g)
  qed
  then show "told bk shown shown_epoch seen (Suc n) A' b'" "b' = b" by blast+
qed

section \<open>Operations that publish\<close>

lemma told_publish:
  assumes "port_publish bk port frame b = (p, b')" "pub_ok p" "pub_epoch p \<noteq> 0" "good b"
    and "unat (shown_epoch b) \<le> n" "n + 2 < 2 ^ 64"
  shows "shown b' = frame" "shown_epoch b' = pub_epoch p" "port_available bk port b"
    "unat (shown_epoch b') \<le> Suc n" "shown_epoch b < shown_epoch b'" "good b'"
    "port_available bk q b' = port_available bk q b" "seen b e g \<Longrightarrow> seen b' e g"
  using publish_shows [OF assms(4,1,2,3)] publish_counts [OF assms(4,1)] publish_available [OF assms(4,1)]
    good_publish [OF assms(4,1)] publish_seen [OF assms(4,1)] assms(2,3,5,6) by auto

lemma told_republished:
  assumes inv: "arbiter_inv n A" and told: "told bk shown shown_epoch seen n A b" and good: "good b"
    and room: "n + 2 < 2 ^ 64" and rep: "republishes bk l frame st kind d (A, b) (r, A', b')"
  shows "told bk shown shown_epoch seen (Suc n) A' b' \<and> good b'"
proof -
  note parts = told_parts [OF told]
  from rep obtain s p where s: "\<not> stopped A" "active A = Some l" "store_find (leases A) l = Some s"
    and A': "(r, A') = BindCurrentState (published_lease st frame s) frame kind
         (Some \<lparr>ps_publication = next_publication A, ps_epoch = pub_epoch p\<rparr>) d
         (A\<lparr>next_publication := next_publication A + 1,
            next_delivery := (if d = None then next_delivery A else next_delivery A + 1)\<rparr>)"
    and pub: "port_publish bk (req_port (ls_request s)) frame b = (p, b')" "pub_ok p" "pub_epoch p \<noteq> 0"
    by (rule republishes_lease)
  note sh = told_publish [OF pub good parts(1) room]
  let ?s = "published_lease st frame s" and ?L = "store_find (leases A)"
  let ?c = "new_binding (next_binding A) ?s frame kind
    (Some \<lparr>ps_publication = next_publication A, ps_epoch = pub_epoch p\<rparr>) d"
  have id: "ls_id ?s = l" using arbiter_lease(1) [OF inv s(3)] by (simp add: published_lease_def)
  have free: "store_find (bindings A) (next_binding A) = None" by (rule next_binding_free [OF inv])
  have snd: "A' = snd (r, A')" by simp
  note result = snd [unfolded A' BindCurrentState_result [OF inv id]]
  have maps: "store_find (leases A') = ?L(l \<mapsto> ?s\<lparr>ls_current := Some (next_binding A)\<rparr>)"
    "store_find (bindings A') = (drop_if (\<lambda>b. bs_lease b = l) (store_find (bindings A)))(next_binding A \<mapsto> ?c)"
    using arbiter_inv_parts(2) [OF inv] free s(3) by (simp_all add: result store_maps drop_if_def)
  have "epochs_told (store_find (bindings A')) (shown_epoch b') (shown b') (seen b')"
    unfolding maps
    by (intro epochs_told_add epochs_told_drop epochs_told_later [OF parts(2) sh(5) sh(8)])
      (simp_all add: new_binding_def sh)
  moreover have "ports_available (store_find (leases A')) (\<lambda>q. port_available bk q b')"
    unfolding maps sh(7)
    by (intro ports_available_update [OF parts(3)]) (simp add: published_lease_def sh(3))
  moreover have "neutral_told (store_find (leases A')) (l # rev (suspended A)) (shown b' = NeutralFrame)"
    unfolding maps by (simp add: published_lease_def IsNeutral_def sh(1))
  moreover have "stopped A' = stopped A" "active A' = Some l" "suspended A' = suspended A"
    using s(2) by (simp_all add: result)
  ultimately show ?thesis using sh(4,6) by (simp add: told_def lease_stack_def)
qed

lemma told_applied:
  assumes inv: "arbiter_inv n A" and told: "told bk shown shown_epoch seen n A b" and good: "good b"
    and room: "n + 2 < 2 ^ 64" and run: "ApplyState bk th l frame ep (A, b) = (r, A', b')"
  shows "told bk shown shown_epoch seen (Suc n) A' b' \<and> good b'"
  using run
proof (cases rule: ApplyState_result)
  case refused
  then show ?thesis using told_unpublished [OF told good _ room] by simp
next
  case pending
  then show ?thesis using told_Suc [OF told] good by simp
next
  case (confirmed s)
  note parts = told_parts [OF told]
  have s: "store_find (leases A) l = Some s" using confirmed(3) by (simp add: FindLease_def)
  let ?s = "s\<lparr>ls_current := Some (next_binding A)\<rparr>" and ?L = "store_find (leases A)"
  let ?c = "new_binding (next_binding A) s frame StableNeutral None None"
  have id: "ls_id s = l" by (rule arbiter_lease(1) [OF inv s])
  have free: "store_find (bindings A) (next_binding A) = None" by (rule next_binding_free [OF inv])
  have snd: "A' = snd (r, A')" by simp
  note result = snd [unfolded confirmed(8)] BindCurrentState_result [OF inv id, where frame = frame and
    kind = StableNeutral and p = None and d = None and np = "next_publication A" and nd = "next_delivery A"]
  have A': "A' = A\<lparr>next_binding := next_binding A + 1, leases := store_modify l (\<lambda>_. ?s) (leases A),
      bindings := store_emplace (next_binding A) ?c (store_erase_if (\<lambda>b. bs_lease b = l) (bindings A)),
      relationships := store_erase_if (\<lambda>r. ir_lease r = l) (relationships A)\<rparr>"
    using result by simp
  have maps: "store_find (leases A') = ?L(l \<mapsto> ?s)"
    "store_find (bindings A') = (drop_if (\<lambda>b. bs_lease b = l) (store_find (bindings A)))(next_binding A \<mapsto> ?c)"
    using arbiter_inv_parts(2) [OF inv] free s by (simp_all add: A' store_maps drop_if_def)
  have "epochs_told (store_find (bindings A')) (shown_epoch b) (shown b) (seen b)"
    unfolding maps by (intro epochs_told_add epochs_told_drop parts(2)) (simp_all add: new_binding_def)
  moreover have "ports_available (store_find (leases A')) (\<lambda>q. port_available bk q b)"
    unfolding maps using ports_availableD [OF parts(3) s] by (intro ports_available_update [OF parts(3)]) simp
  moreover have "neutral_told (?L(l \<mapsto> ?s)) ls N = neutral_told ?L ls N" for ls N
    by (rule neutral_told_update [where L = ?L and s = s, OF s]) simp_all
  moreover have "stopped A' = stopped A" "active A' = active A" "suspended A' = suspended A"
    by (simp_all add: A')
  ultimately show ?thesis using parts(1) parts(4) [OF confirmed(1)] good confirmed(7)
    by (simp add: told_def maps)
next
  case (published st kind)
  with told_republished [OF inv told good room] show ?thesis by blast
qed

lemma told_began:
  assumes inv: "arbiter_inv n A" and told: "told bk shown shown_epoch seen n A b" and good: "good b"
    and room: "n + 2 < 2 ^ 64" and run: "BeginDelivery bk th l frame ep (A, b) = (r, A', b')"
  shows "told bk shown shown_epoch seen (Suc n) A' b' \<and> good b'"
  using run
proof (cases rule: BeginDelivery_result)
  case refused
  then show ?thesis using told_unpublished [OF told good _ room] by simp
next
  case published
  with told_republished [OF inv told good room] show ?thesis by blast
qed

lemma told_replaced:
  assumes inv: "arbiter_inv n A" and told: "told bk shown shown_epoch seen n A b" and good: "good b"
    and room: "n + 2 < 2 ^ 64" and run: "ReplaceDelivery bk th l i frame ep (A, b) = (r, A', b')"
  shows "told bk shown shown_epoch seen (Suc n) A' b' \<and> good b'"
  using inv run
proof (cases rule: ReplaceDelivery_result)
  case refused
  then show ?thesis using told_unpublished [OF told good _ room] by simp
next
  case (published s c)
  with told_republished [OF inv told good room] show ?thesis by blast
qed

lemma told_delivered:
  assumes inv: "arbiter_inv n A" and told: "told bk shown shown_epoch seen n A b" and live: "\<not> stopped A"
    and l: "active A = Some l" and s: "store_find (leases A) l = Some s"
    and neutral: "shown b' = NeutralFrame" and epoch: "unat (shown_epoch b') \<le> Suc n"
    and later: "b' = b \<or> shown_epoch b < shown_epoch b'" and keep: "\<And>e g. seen b e g \<Longrightarrow> seen b' e g"
    and avail: "\<And>q. port_available bk q b' = port_available bk q b"
      "m \<Longrightarrow> port_available bk (req_port (ls_request s)) b"
  shows "told bk shown shown_epoch seen (Suc n) (delivered l (delivered_lease m s) np A) b'"
proof -
  note parts = told_parts [OF told]
  let ?s = "delivered_lease m s" and ?A = "delivered l (delivered_lease m s) np A"
  have maps: "store_find (leases ?A) = (store_find (leases A))(l \<mapsto> ?s)"
    "store_find (bindings ?A) = drop_if (\<lambda>b. bs_lease b = l) (store_find (bindings A))"
    using arbiter_inv_parts(2) [OF inv] s
    by (simp_all add: delivered_def EraseBindingsForLease_def EraseRelationshipsForLease_def store_maps)
  have same: "stopped ?A = stopped A" "active ?A = Some l" "suspended ?A = suspended A"
    using l by (simp_all add: delivered_def EraseBindingsForLease_def EraseRelationshipsForLease_def)
  have "epochs_told (store_find (bindings A)) (shown_epoch b') (shown b') (seen b')"
    using later epochs_told_later [OF parts(2), where S' = "seen b'"] keep parts(2) by blast
  then have "epochs_told (store_find (bindings ?A)) (shown_epoch b') (shown b') (seen b')"
    unfolding maps by (rule epochs_told_drop)
  moreover have "ports_available (store_find (leases ?A)) (\<lambda>q. port_available bk q b')"
    unfolding maps avail(1) using ports_availableD [OF parts(3) s] avail(2)
    by (intro ports_available_update [OF parts(3)]) (auto simp: delivered_lease_def)
  moreover have "neutral_told (store_find (leases ?A)) ls True" if "set ls \<subseteq> set (lease_stack (active A) (suspended A))" for ls
    using that
  proof (induction ls)
    case (Cons k ls)
    then have "store_find (leases A) k \<noteq> None"
      using arbiter_inv_parts(5) [OF inv] unfolding stack_ok_def by simp
    with Cons show ?case by (auto simp: maps split: option.split)
  qed simp
  ultimately show ?thesis using epoch neutral l by (simp add: told_def same)
qed

lemma told_completed_delivery:
  assumes inv: "arbiter_inv n A" and told: "told bk shown shown_epoch seen n A b" and good: "good b"
    and room: "n + 2 < 2 ^ 64" and run: "CompleteDelivery bk th l i ep (A, b) = (r, A', b')"
  shows "told bk shown shown_epoch seen (Suc n) A' b' \<and> good b'"
  using run
proof (cases rule: CompleteDelivery_result)
  case refused
  then show ?thesis using told_unpublished [OF told good _ room] by simp
next
  case (neutral s c)
  have s: "store_find (leases A) l = Some s" "store_find (bindings A) i = Some c"
    using neutral(4,5) by (simp_all add: FindLease_def FindBinding_def)
  have "ls_current s = Some i" using neutral(6) by (simp add: exact_delivery_def)
  from bindings_ok_current [OF arbiter_inv_parts(6) [OF inv] s(1) this] s(2) have "binding_fits s c" by auto
  with neutral(8) have "ls_backend_neutral s" by (simp add: binding_fits_def)
  with told_active(1) [OF told neutral(2,3) s(1)] have "shown b = NeutralFrame" by simp
  with told_delivered [OF inv told neutral(2,3) s(1), of b False "next_publication A"] told_parts(1) [OF told] good
  show ?thesis by (simp add: neutral(9,10))
next
  case (restored s c p)
  have s: "store_find (leases A) l = Some s" using restored(4) by (simp add: FindLease_def)
  note sh = told_publish [OF restored(9-11) good told_parts(1) [OF told] room]
  from told_delivered [OF inv told restored(2,3) s, of b' True "next_publication A + 1"] sh
  show ?thesis by (simp add: restored(12))
qed

section \<open>The other operations\<close>

lemma told_relationships:
  "told bk shown shown_epoch seen n A b \<Longrightarrow> told bk shown shown_epoch seen (Suc n) (A\<lparr>relationships := R, next_relationship := c\<rparr>) b"
  by (simp add: told_def)

lemma told_settled:
  assumes told: "told bk shown shown_epoch seen n A b" and live: "\<not> stopped A"
    and s: "store_find (leases A) (ir_lease q) = Some s" and c: "store_find (bindings A) (ir_binding q) = Some c"
    and c': "c' = c \<or> c' = observed_binding c receipt callbacks \<and> seen b (bs_publication_epoch c) (bs_frame c)"
  shows "told bk shown shown_epoch seen (Suc n) (settled i q s c (A\<lparr>next_poll_receipt := np,
    bindings := store_modify (ir_binding q) (\<lambda>_. c') (bindings A)\<rparr>)) b" (is "told _ _ _ _ _ ?A _")
proof -
  note parts = told_parts [OF told]
  let ?s = "if bs_kind c = NeutralTransition then s\<lparr>ls_state := Neutral\<rparr> else s" and ?L = "store_find (leases A)"
  have maps: "store_find (leases ?A) = ?L(ir_lease q \<mapsto> ?s)"
    by (subst settled_leases) (simp_all add: s)
  have map: "store_find (bindings ?A) = (store_find (bindings A))(ir_binding q \<mapsto> c')"
    using c by (simp add: settled_def store_maps(1))
  have "bs_requires_observation c' = bs_requires_observation c" "bs_publication_epoch c' = bs_publication_epoch c"
    "bs_frame c' = bs_frame c" using c' by (auto simp: observed_binding_def)
  then have "epochs_told (store_find (bindings ?A)) (shown_epoch b) (shown b) (seen b)"
    unfolding map using parts(2) c c' by (intro epochs_told_add) (auto simp: epochs_told_def)
  moreover have "ports_available (store_find (leases ?A)) (\<lambda>q. port_available bk q b)"
    unfolding maps using ports_availableD [OF parts(3) s] by (intro ports_available_update [OF parts(3)]) (auto split: if_splits)
  moreover have "neutral_told (store_find (leases ?A)) ls N = neutral_told ?L ls N" for ls N
    unfolding maps by (rule neutral_told_update [where L = ?L and s = s, OF s]) simp_all
  moreover have "stopped ?A = stopped A" "active ?A = active A" "suspended ?A = suspended A"
    by (simp_all add: settled_def)
  ultimately show ?thesis using parts(1) parts(4) [OF live] by (simp add: told_def)
qed

lemma told_completed:
  assumes inv: "arbiter_inv n A" and told: "told bk shown shown_epoch seen n A b" and good: "good b"
    and run: "Complete bk th i ep (A, b) = (m, A', b')"
  shows "told bk shown shown_epoch seen (Suc n) A' b' \<and> b' = b"
  using run
proof (cases rule: Complete_result)
  case (refused e)
  then show ?thesis
    using told_Suc [OF told] told_relationships [OF told, where R = "store_erase i (relationships A)" and c = "next_relationship A"] by auto
next
  case (already q s c)
  have live: "\<not> stopped A" by (rule ValidateRelationship_None [OF already(3)])
  have found: "store_find (leases A) (ir_lease q) = Some s" "store_find (bindings A) (ir_binding q) = Some c"
    using already(5,6) by (simp_all add: FindLease_def FindBinding_def)
  have "store_modify (ir_binding q) (\<lambda>_. c) (bindings A) = bindings A"
    using store_modify_same [OF arbiter_inv_parts(2) [OF inv]] found(2) by simp
  with told_settled [OF told live found, of c _ _ i "next_poll_receipt A"] show ?thesis
    by (simp add: already(2,8))
next
  case (observed q s c)
  have live: "\<not> stopped A" by (rule ValidateRelationship_None [OF observed(3)])
  have found: "store_find (leases A) (ir_lease q) = Some s" "store_find (bindings A) (ir_binding q) = Some c"
    using observed(5,6) by (simp_all add: FindLease_def FindBinding_def)
  note poll = observed(9-11)
  have "bs_frame c = shown b"
    using told_parts(2) [OF told] found(2) observed(7) poll(2) poll_reads [OF good poll(1)]
    by (simp add: epochs_told_def)
  with poll_seen [OF good poll(1,3)] poll_reads [OF good poll(1)] poll(2)
  have "seen b (bs_publication_epoch c) (bs_frame c)" by simp
  then show ?thesis
    unfolding observed(2,12) by (intro conjI refl told_settled [OF told live found]) blast
qed

text \<open>
  After a close, \<open>s\<close> the closed lease as it was or marked by the neutral publication, and \<open>b'\<close> the
  backend then.
\<close>

lemma told_finished:
  assumes inv: "arbiter_inv n A" and told: "told bk shown shown_epoch seen n A b" and live: "\<not> stopped A"
    and l: "active A = Some l" and s: "store_find (leases A) l = Some s" and id: "ls_id s' = l"
    and run: "FinishClose s' (A\<lparr>next_publication := np\<rparr>) = (r, A')"
    and epoch: "unat (shown_epoch b') \<le> Suc n"
    and pub: "b' = b \<and> \<not> ls_mutated s' \<and> \<not> ls_mutated s \<or>
      shown b' = NeutralFrame \<and> (b' = b \<or> shown_epoch b < shown_epoch b')"
    and keep: "\<And>e g. seen b e g \<Longrightarrow> seen b' e g"
    and avail: "\<And>q. port_available bk q b' = port_available bk q b"
  shows "told bk shown shown_epoch seen (Suc n) A' b'"
proof -
  note parts = told_parts [OF told]
  let ?L = "store_find (leases A)" and ?B = "store_find (bindings A)"
  have maps: "store_find (store_erase l (leases A)) = ?L(l := None)"
    "store_find (store_erase_if (\<lambda>x. bs_lease x = l) (bindings A)) = drop_if (\<lambda>x. bs_lease x = l) ?B"
    using arbiter_inv_parts(2) [OF inv] by (simp_all add: store_maps)
  have epochs: "epochs_told ?B (shown_epoch b') (shown b') (seen b')"
    using pub epochs_told_later [OF parts(2), where S' = "seen b'"] keep parts(2) by blast
  have tail: "shown b' = NeutralFrame \<or> neutral_told ?L (rev (suspended A)) (shown b' = NeutralFrame)"
    using pub told_active(2) [OF told live l s] by blast
  have fresh: "l \<notin> set (rev (suspended A))"
    using arbiter_inv_parts(5) [OF inv] l unfolding stack_ok_def by (simp add: lease_stack_def)
  from inv l id run show ?thesis
  proof (cases rule: FinishClose_result)
    case emptied
    then show ?thesis
      using epochs epoch tail parts(3) ports_available_erase [OF parts(3)]
      by (auto simp: told_def maps epochs_told_drop lease_stack_def avail)
  next
    case (resumed below a c)
    let ?c = "resumed_lease (ls_mutated s') c"
    have L': "store_find (leases A') = ?L(l := None, a \<mapsto> ?c)"
      using resumed(2,3) by (simp add: resumed(7) store_maps(1) maps)
    have "epochs_told (store_find (bindings A')) (shown_epoch b') (shown b') (seen b')"
      using arbiter_inv_parts(2) [OF inv] epochs
      by (simp add: resumed(7) resumed_bindings_def Let_def store_maps um.wf_intros epochs_told_drop)
    moreover have "\<not> req_movie_exclusive (ls_request c)"
      using arbiter_lease(6) [OF inv resumed(2)] l resumed(3) by simp
    then have "ports_available (store_find (leases A')) (\<lambda>q. port_available bk q b')"
      unfolding L' avail using ports_availableD [OF parts(3) resumed(2)]
      by (intro ports_available_update ports_available_erase parts(3)) (simp add: resumed_lease_def)
    moreover have "neutral_told (store_find (leases A')) (a # rev below) (shown b' = NeutralFrame)"
    proof (cases "ls_mutated s'")
      case True
      then have "shown b' = NeutralFrame" using pub by blast
      with True show ?thesis by (simp add: L' resumed_lease_def)
    next
      case False
      have flags: "ls_backend_neutral ?c = ls_backend_neutral c" "ls_mutated ?c = ls_mutated c"
        using False by (simp_all add: resumed_lease_def)
      have notin: "l \<notin> set (a # rev below)" using fresh by (simp add: resumed(1))
      have c: "(?L(l := None)) a = Some c" using resumed(2,3) by simp
      have same: "neutral_told (store_find (leases A')) (a # rev below) N = neutral_told ?L (a # rev below) N" for N
        unfolding L' neutral_told_update [where L = "?L(l := None)" and s = c and s' = ?c, OF c flags]
        by (rule neutral_told_other [OF notin])
      have stack: "rev (suspended A) = a # rev below" by (simp add: resumed(1))
      show ?thesis
      proof (cases "shown b' = NeutralFrame")
        case True
        have "neutral_told ?L ls True" if "set ls \<subseteq> set (rev (suspended A))" for ls
          using that
        proof (induction ls)
          case (Cons k ls)
          then have "k \<in> set (lease_stack (active A) (suspended A))" by (auto simp: lease_stack_def)
          then have "?L k \<noteq> None" using arbiter_inv_parts(5) [OF inv] unfolding stack_ok_def by blast
          with Cons show ?case by auto
        qed simp
        from this [of "a # rev below"] show ?thesis unfolding same using True stack by simp
      next
        case False
        then show ?thesis unfolding same using tail stack by simp
      qed
    qed
    ultimately show ?thesis using epoch by (simp add: told_def resumed(7) lease_stack_def)
  qed
qed

lemma told_closed:
  assumes inv: "arbiter_inv n A" and told: "told bk shown shown_epoch seen n A b" and good: "good b"
    and room: "n + 2 < 2 ^ 64" and run: "CloseLease bk th l ep (A, b) = (r, A', b')"
  shows "told bk shown shown_epoch seen (Suc n) A' b' \<and> good b'"
  using run
proof (cases rule: CloseLease_result)
  case refused
  then show ?thesis using told_unpublished [OF told good _ room] by simp
next
  case absent
  then show ?thesis using told_Suc [OF told] good by simp
next
  case (kept s)
  note parts = told_parts [OF told]
  have s: "store_find (leases A) l = Some s" using kept(3) by (simp add: FindLease_def)
  have id: "ls_id s = l" by (rule arbiter_lease(1) [OF inv s])
  have fin: "FinishClose s (A\<lparr>next_publication := next_publication A\<rparr>) = (r, A')" using kept(5) by simp
  have "\<not> ls_mutated s \<or> shown b = NeutralFrame"
    using kept(6) told_active(1) [OF told kept(1,2) s] ports_availableD [OF parts(3) s] by blast
  then show ?thesis
    using told_finished [OF inv told kept(1,2) s id fin, of b] parts(1) good kept(4) by auto
next
  case (neutralised s p r0)
  have s: "store_find (leases A) l = Some s" using neutralised(3) by (simp add: FindLease_def)
  have id: "ls_id (s\<lparr>ls_backend_neutral := True, ls_mutated := True\<rparr>) = l"
    using arbiter_lease(1) [OF inv s] by simp
  note sh = told_publish [OF neutralised(4-6) good told_parts(1) [OF told] room]
  show ?thesis
    using told_finished [OF inv told neutralised(1,2) s id neutralised(7), of b'] sh by auto
qed

lemma told_initialized:
  assumes inv: "arbiter_inv n A" and told: "told bk shown shown_epoch seen n A b"
    and run: "InitializeWorksetEpoch th ep A = (r, A')"
  shows "told bk shown shown_epoch seen (Suc n) A' b"
  using InitializeWorksetEpoch_result [OF inv run] told_Suc [OF told] by (auto simp: told_def)

lemma told_stopped:
  assumes "unat (shown_epoch b) \<le> n"
  shows "told bk shown shown_epoch seen n ((ClearRetainedState A)\<lparr>stopped := True, shutdown_receipt := r\<rparr>) b"
  using assms by (simp add: told_def ClearRetainedState_def epochs_told_def ports_available_def store_empty)

lemma told_shutdown:
  assumes inv: "arbiter_inv n A" and told: "told bk shown shown_epoch seen n A b" and good: "good b"
    and room: "n + 2 < 2 ^ 64" and run: "Shutdown bk th (A, b) = (r, A', b')"
  shows "told bk shown shown_epoch seen (Suc n) A' b' \<and> good b'"
  using run
proof (cases rule: arbiter_shutdown_result)
  case same
  then show ?thesis using told_Suc [OF told] good by simp
next
  case (failed a s)
  note told' = told_unpublished [OF told good failed(4) room]
  show ?thesis using told_stopped [OF told_parts(1) [OF told'(1)]] told'(2) by (simp add: failed(6))
next
  case (neutralised a s p)
  note sh = told_publish [OF neutralised(4-6) good told_parts(1) [OF told] room]
  show ?thesis using told_stopped [OF sh(4)] sh(6) by (simp add: neutralised(8))
qed (use told_stopped [of b "Suc n"] told_parts(1) [OF told] good in simp_all)

section \<open>The machine on a backend\<close>

lemma told_call:
  assumes inv: "arbiter_inv n A" and told: "told bk shown shown_epoch seen n A b" and good: "good b"
    and room: "n + 2 < 2 ^ 64" and run: "arbiter_call bk poll_by_guest th op (A, b) = (A', b')"
  shows "told bk shown shown_epoch seen (Suc n) A' b' \<and> good b'"
proof (cases op)
  case (Input_Acquire req ep)
  obtain r where "Acquire bk th req ep (A, b) = (r, A', b')" using run Input_Acquire by (auto elim: call_result)
  then show ?thesis using told_acquired [OF inv told] good by blast
next
  case (Input_Borrow l req ep)
  obtain r where "Borrow bk th l req ep (A, b) = (r, A', b')" using run Input_Borrow by (auto elim: call_result)
  then show ?thesis
  proof (cases rule: Borrow_result)
    case (acquired s)
    then show ?thesis using told_acquired [OF inv told] good by blast
  qed (use told_Suc [OF told] good in simp)
next
  case (Input_ApplyState l f ep)
  obtain r where "ApplyState bk th l f ep (A, b) = (r, A', b')" using run Input_ApplyState by (auto elim: call_result)
  then show ?thesis by (rule told_applied [OF inv told good room])
next
  case (Input_BeginDelivery l f ep)
  obtain r where "BeginDelivery bk th l f ep (A, b) = (r, A', b')" using run Input_BeginDelivery by (auto elim: call_result)
  then show ?thesis by (rule told_began [OF inv told good room])
next
  case (Input_CompleteDelivery l i ep)
  obtain r where "CompleteDelivery bk th l i ep (A, b) = (r, A', b')" using run Input_CompleteDelivery by (auto elim: call_result)
  then show ?thesis by (rule told_completed_delivery [OF inv told good room])
next
  case (Input_ReplaceDelivery l i f ep)
  obtain r where "ReplaceDelivery bk th l i f ep (A, b) = (r, A', b')" using run Input_ReplaceDelivery by (auto elim: call_result)
  then show ?thesis by (rule told_replaced [OF inv told good room])
next
  case (Input_CreateRelationship ev)
  then have run': "CreateExecutionRelationship th ev A = (fst (CreateExecutionRelationship th ev A), A')" "b' = b"
    using run by (auto simp: prod_eq_iff)
  from run'(1) show ?thesis
  proof (cases rule: CreateExecutionRelationship_result)
    case (created s c)
    have "A' = A\<lparr>relationships := relationships A', next_relationship := next_relationship A'\<rparr>"
      by (simp add: created(9))
    then show ?thesis using told_relationships [OF told] good run'(2) by metis
  qed (use told_Suc [OF told] good run'(2) in simp)
next
  case (Input_RemoveRelationship i)
  then have "A' = snd (RemoveExecutionRelationship th i A)" "b' = b" using run by simp_all
  with RemoveExecutionRelationship_result [of th i A "fst (RemoveExecutionRelationship th i A)" A']
  show ?thesis using told_Suc [OF told] good
      told_relationships [OF told, where R = "store_erase i (relationships A)" and c = "next_relationship A"] by auto
next
  case (Input_Complete i ep)
  obtain r where "Complete bk th i ep (A, b) = (r, A', b')" using run Input_Complete by (auto elim: call_result)
  then show ?thesis using told_completed [OF inv told good] good by blast
next
  case (Input_Cancel i ep)
  then have "A' = snd (Cancel th i ep A)" "b' = b" using run by simp_all
  with Cancel_result [of th i ep A "fst (Cancel th i ep A)" A']
  show ?thesis using told_Suc [OF told] good
      told_relationships [OF told, where R = "store_erase i (relationships A)" and c = "next_relationship A"] by auto
next
  case (Input_CloseLease l ep)
  obtain r where "CloseLease bk th l ep (A, b) = (r, A', b')" using run Input_CloseLease by (auto elim: call_result)
  then show ?thesis by (rule told_closed [OF inv told good room])
next
  case (Input_InitializeWorksetEpoch ep)
  then have "A' = snd (InitializeWorksetEpoch th ep A)" "b' = b" using run by simp_all
  then show ?thesis
    using told_initialized [OF inv told, of th ep "fst (InitializeWorksetEpoch th ep A)" A'] good by simp
next
  case Input_Shutdown
  obtain r where "Shutdown bk th (A, b) = (r, A', b')" using run Input_Shutdown by (auto elim: call_result)
  then show ?thesis by (rule told_shutdown [OF inv told good room])
next
  case (Input_GuestPoll c)
  then show ?thesis using run told_poll [OF told good, of c] good_guest [OF good, of c] by auto
qed

end

sublocale input_backend \<subseteq> pad_machine: invariant_machine "arbiter_step bk poll_by_guest"
  "\<lambda>(n, A, b). n + 2 < 2 ^ 64 \<longrightarrow> arbiter_inv n A \<and> told bk shown shown_epoch seen n A b \<and> good b"
proof
  fix s and x :: "thread_id \<times> 'c input_operation" assume inv: "case s of (n, A, b) \<Rightarrow> n + 2 < 2 ^ 64 \<longrightarrow>
    arbiter_inv n A \<and> told bk shown shown_epoch seen n A b \<and> good b"
  obtain n A b where s: "s = (n, A, b)" by (rule prod_cases3)
  obtain th op where x: "x = (th, op)" by fastforce
  obtain A' b' where run: "arbiter_call bk poll_by_guest th op (A, b) = (A', b')" by fastforce
  have "arbiter_inv (Suc n) A' \<and> told bk shown shown_epoch seen (Suc n) A' b' \<and> good b'" if less: "Suc n + 2 < 2 ^ 64"
  proof -
    have room: "n + 2 < 2 ^ 64" using less by simp
    then have ok: "arbiter_inv n A" "told bk shown shown_epoch seen n A b" "good b" using inv by (simp_all add: s)
    from arbiter_call_inv [OF ok(1) room run] told_call [OF ok room run] show ?thesis by blast
  qed
  with run show "case arbiter_step bk poll_by_guest x s of (n, A, b) \<Rightarrow> n + 2 < 2 ^ 64 \<longrightarrow>
    arbiter_inv n A \<and> told bk shown shown_epoch seen n A b \<and> good b"
    by (simp add: s x)
qed

text \<open>The controller override under the arbiter, from the state in which opening the backend leaves it.\<close>

abbreviation pad_told :: "nat \<Rightarrow> InputArbiter \<Rightarrow> WatchedInput \<Rightarrow> bool" where
  "pad_told \<equiv> told dolphin_port (\<lambda>W. m_cur (pad W)) (\<lambda>W. m_publication_epoch (pad W))
     (\<lambda>W e f. (e, f) \<in> set (guest_answers W))"

lemma dolphin_reachable:
  assumes "reachable_from (arbiter_step dolphin_port watched_poll)
      (0, new_arbiter th, watched_input settings controller) (n, A, W)"
    and "n + 2 < 2 ^ 64"
  shows "arbiter_inv n A" "pad_told n A W" "pad_good W"
proof -
  have "arbiter_inv 0 (new_arbiter th)" by (rule new_arbiter_inv)
  moreover have "m_cur (pad (watched_input settings controller)) = NeutralFrame"
    "m_publication_epoch (pad (watched_input settings controller)) = 0"
    by (simp_all add: watched_input_def opened_input_def ConfigurePortsStandardPadP1_def install_def new_pad_def
        DolphinInput.defs Let_def)
  then have "pad_told 0 (new_arbiter th) (watched_input settings controller)"
    by (simp add: told_def new_arbiter_def epochs_told_def ports_available_def store_empty lease_stack_def)
  moreover note watched_input_good
  ultimately show "arbiter_inv n A" "pad_told n A W" "pad_good W"
    using dolphin.pad_machine.reachable_inv [OF assms(1)] assms(2) by simp_all
qed

end
