(* ===== verification/InputContracts.thy ===== *)
theory InputContracts
  imports InputPad
begin

text \<open>
  The properties of the input arbiter, over every reachable state: the stack of leases, what is
  current, and what the guest is shown.
\<close>

section \<open>A sample session\<close>

definition sample_lease :: "u8 \<Rightarrow> 32 word \<Rightarrow> bool \<Rightarrow> InputLeaseRequest" where
  "sample_lease p priority movie = \<lparr>req_owner = 9, req_port = p, req_priority = priority,
     req_suspendable = True, req_borrowable = True, req_movie_exclusive = movie,
     req_borrow_policy = PreserveHeldUntilBorrowerApplies\<rparr>"

definition pressed :: GCInputFrame where
  "pressed = NeutralFrame\<lparr>buttons := 1\<rparr>"

definition sample_pad :: WatchedInput where
  "sample_pad = watched_input False True"

definition sample_run ::
  "(thread_id \<times> (string \<times> string) input_operation) list \<Rightarrow> nat \<times> InputArbiter \<times> WatchedInput" where
  "sample_run ops = fold (arbiter_step dolphin_port watched_poll) ops (0, new_arbiter 1, sample_pad)"

lemma sample_run_reachable:
  "reachable_from (arbiter_step dolphin_port watched_poll) (0, new_arbiter 1, sample_pad) (sample_run ops)"
  using reachable_fold [of "arbiter_step dolphin_port watched_poll" "(0, new_arbiter 1, sample_pad)" ops]
  by (simp add: sample_run_def)

definition holding :: "(thread_id \<times> (string \<times> string) input_operation) list" where
  "holding = [(1, Input_Acquire (sample_lease 0 1 False) 5), (1, Input_ApplyState 1 pressed 5)]"

text \<open>The evidence of the binding that the pressed state got, a relationship on it, and a poll.\<close>

definition observing :: "(thread_id \<times> (string \<times> string) input_operation) list" where
  "observing = holding @ [(1, Input_CreateRelationship \<lparr>ev_lease = 1, ev_binding = 1, ev_publication = 1,
     ev_epoch = 5, ev_generation = 2, ev_frame = pressed\<rparr>), (1, Input_GuestPoll (''Buttons'', ''A''))]"

lemma sample_holding: "case sample_run holding of (n, A, D) \<Rightarrow> n = 2 \<and> active A = Some 1 \<and> m_cur (pad D) = pressed"
  by code_simp

lemma sample_observing:
  "case sample_run observing of (n, A, D) \<Rightarrow> n = 4 \<and> ValidateRelationship 1 1 5 A = None"
  by code_simp

section \<open>The leases\<close>

text \<open>
  C35. The leases form one stack. On any backend, in every state a session reaches, the active lease
  lies on top of the suspended ones and these are all the leases there are, each once and under its
  own identity; all belong to the arbiter's epoch; only the top is active, the others were suspendable
  and not exclusive; and priorities rise strictly towards the top. Without an active lease nothing is
  kept.
\<close>

theorem leases_form_one_stack:
  assumes reach: "reachable_from (arbiter_step bk poll) (0, new_arbiter th, b0) (n, A, b)" and "n + 2 < 2 ^ 64"
  shows "distinct (lease_stack (active A) (suspended A)) \<and>
    (\<forall>l. FindLease l A \<noteq> None \<longleftrightarrow> l \<in> set (lease_stack (active A) (suspended A))) \<and>
    (\<forall>l s. FindLease l A = Some s \<longrightarrow> ls_id s = l \<and> ls_epoch s = arb_epoch A \<and>
       ls_status s = (if active A = Some l then Active else Suspended) \<and>
       (active A \<noteq> Some l \<longrightarrow> req_suspendable (ls_request s) \<and> \<not> req_movie_exclusive (ls_request s))) \<and>
    sorted_wrt (\<lambda>l m. \<forall>s t. FindLease l A = Some s \<and> FindLease m A = Some t \<longrightarrow>
       sint (req_priority (ls_request t)) < sint (req_priority (ls_request s)))
      (lease_stack (active A) (suspended A)) \<and>
    (active A = None \<longrightarrow> suspended A = [] \<and> leases A = [] \<and> bindings A = [] \<and> relationships A = [])"
proof -
  have inv: "arbiter_inv n A" by (rule arbiter_reachable_inv [OF assms])
  have stack: "stack_ok (arb_epoch A) (active A) (suspended A) (store_find (leases A))"
    by (rule arbiter_inv_parts(5) [OF inv])
  then have sorted: "sorted_wrt (\<lambda>l m. priority_of (store_find (leases A)) m < priority_of (store_find (leases A)) l)
      (lease_stack (active A) (suspended A))" by (simp add: stack_ok_def)
  have "sorted_wrt (\<lambda>l m. \<forall>s t. FindLease l A = Some s \<and> FindLease m A = Some t \<longrightarrow>
       sint (req_priority (ls_request t)) < sint (req_priority (ls_request s)))
      (lease_stack (active A) (suspended A))"
    by (rule sorted_wrt_mono_rel [OF _ sorted]) (auto simp: FindLease_def priority_of_def)
  moreover have "FindLease l A \<noteq> None \<longleftrightarrow> l \<in> set (lease_stack (active A) (suspended A))" for l
    using stack unfolding stack_ok_def FindLease_def by blast
  moreover have "distinct (lease_stack (active A) (suspended A))" using stack unfolding stack_ok_def by blast
  moreover have "ls_id s = l \<and> ls_epoch s = arb_epoch A \<and>
       ls_status s = (if active A = Some l then Active else Suspended) \<and>
       (active A \<noteq> Some l \<longrightarrow> req_suspendable (ls_request s) \<and> \<not> req_movie_exclusive (ls_request s))"
    if "FindLease l A = Some s" for l s
    using arbiter_lease [OF inv, of l s] that by (simp add: FindLease_def)
  moreover note arbiter_idle [OF inv]
  ultimately show ?thesis by blast
qed

theorem leases_form_one_stack_witness:
  "\<exists>n A D. sample_run holding = (n, A, D) \<and> active A = Some 1 \<and> FindLease 1 A \<noteq> None"
proof -
  obtain n A D where run: "sample_run holding = (n, A, D)" by (rule prod_cases3)
  with sample_holding have n: "n = 2" and act: "active A = Some 1" by simp_all
  have "reachable_from (arbiter_step dolphin_port watched_poll) (0, new_arbiter 1, sample_pad) (n, A, D)"
    using sample_run_reachable [of holding] run by simp
  from leases_form_one_stack [OF this] n
  have "FindLease 1 A \<noteq> None \<longleftrightarrow> 1 \<in> set (lease_stack (active A) (suspended A))" by simp
  then show ?thesis using run act by (simp add: lease_stack_def)
qed

text \<open>
  C36. Operations work the stack. On any backend and in every state a session reaches: an acquisition
  that succeeds puts a new lease on top, a close that succeeds on a lease that is still there takes
  the top off and reports the lease below as resumed, closing a lease that is gone succeeds and does
  nothing, and a refused acquisition or close leaves the arbiter as it was.
\<close>

theorem operations_work_the_stack:
  assumes reach: "reachable_from (arbiter_step bk poll) (0, new_arbiter th, b0) (n, A, b)" and "n + 2 < 2 ^ 64"
  shows "(Acquire bk t req ep (A, b) = (r, A1, b1) \<longrightarrow>
      (if lr_ok r then FindLease (lr_lease r) A = None \<and>
         lease_stack (active A1) (suspended A1) = lr_lease r # lease_stack (active A) (suspended A)
       else A1 = A)) \<and>
    (CloseLease bk t l ep (A, b) = (c, A2, b2) \<longrightarrow>
      (if cr_ok c \<and> FindLease l A \<noteq> None then
         lease_stack (active A) (suspended A) = l # lease_stack (active A2) (suspended A2) \<and>
         cr_resumed c = active A2 \<and> FindLease l A2 = None
       else A2 = A))"
proof (intro conjI impI)
  have inv: "arbiter_inv n A" by (rule arbiter_reachable_inv [OF assms])
  show "if lr_ok r then FindLease (lr_lease r) A = None \<and>
      lease_stack (active A1) (suspended A1) = lr_lease r # lease_stack (active A) (suspended A) else A1 = A"
    if "Acquire bk t req ep (A, b) = (r, A1, b1)"
    using inv that
    by (cases rule: lease_acquire_result) (use next_lease_free [OF inv] in \<open>simp_all add: lease_stack_def FindLease_def\<close>)
  have popped: "lease_stack (active A) (suspended A) = l # lease_stack (active A2) (suspended A2) \<and>
      cr_resumed c' = active A2 \<and> FindLease l A2 = None"
    if "active A = Some l" "ls_id s = l" "FinishClose s (A\<lparr>next_publication := np\<rparr>) = (c', A2)" for s np c'
    using inv that
    by (cases rule: FinishClose_result) (simp_all add: lease_stack_def FindLease_def um.find_simps that(1))
  show "if cr_ok c \<and> FindLease l A \<noteq> None then
      lease_stack (active A) (suspended A) = l # lease_stack (active A2) (suspended A2) \<and>
      cr_resumed c = active A2 \<and> FindLease l A2 = None else A2 = A"
    if run: "CloseLease bk t l ep (A, b) = (c, A2, b2)"
    using run
  proof (cases rule: CloseLease_result)
    case (kept s)
    have id: "ls_id s = l" by (rule FindLease_id [OF inv kept(3)])
    have fin: "FinishClose s (A\<lparr>next_publication := next_publication A\<rparr>) = (c, A2)" using kept(5) by simp
    from inv kept(2) id fin have "cr_ok c" by (cases rule: FinishClose_result) simp_all
    with popped [OF kept(2) id fin] kept(3) show ?thesis by simp
  next
    case (neutralised s p r0)
    have id: "ls_id (s\<lparr>ls_backend_neutral := True, ls_mutated := True\<rparr>) = l"
      using FindLease_id [OF inv neutralised(3)] by simp
    from inv neutralised(2) id neutralised(7) have "cr_ok r0" by (cases rule: FinishClose_result) simp_all
    with popped [OF neutralised(2) id neutralised(7)] neutralised(3,8) show ?thesis by simp
  qed simp_all
qed

theorem operations_work_the_stack_witness:
  "\<exists>n A D c A2 D2. sample_run holding = (n, A, D) \<and> CloseLease dolphin_port 1 1 5 (A, D) = (c, A2, D2) \<and>
    cr_ok c \<and> active A2 = None \<and> lease_stack (active A) (suspended A) = [1]"
proof -
  obtain n A D where run: "sample_run holding = (n, A, D)" by (rule prod_cases3)
  have "case sample_run holding of (n, A, D) \<Rightarrow> FindLease 1 A \<noteq> None \<and>
      (case CloseLease dolphin_port 1 1 5 (A, D) of (c, A2, D2) \<Rightarrow> cr_ok c \<and> active A2 = None \<and> suspended A2 = [])"
    by code_simp
  then obtain c A2 D2 where close: "CloseLease dolphin_port 1 1 5 (A, D) = (c, A2, D2)" "cr_ok c"
      "active A2 = None" "suspended A2 = []" "FindLease 1 A \<noteq> None"
    using run by (auto split: prod.splits)
  have reach: "reachable_from (arbiter_step dolphin_port watched_poll) (0, new_arbiter 1, sample_pad) (n, A, D)"
    using sample_run_reachable [of holding] run by simp
  have "n + 2 < 2 ^ 64" using sample_holding run by simp
  from operations_work_the_stack [OF reach this, where l = 1 and c = c and ?A2.0 = A2 and ?b2.0 = D2 and t = 1 and ep = 5] close
  have "lease_stack (active A) (suspended A) = [1]" by (simp add: lease_stack_def)
  with run close show ?thesis by blast
qed

section \<open>Bindings and relationships\<close>

text \<open>
  C37. What is kept is current. On any backend and in every reachable state: every binding is the
  current one of its lease and has its generation, epoch and view of the backend; a lease with a
  pending delivery has a delivery as its binding, a held one a held state; every relationship names
  its lease's current binding and generation. So a relationship is valid, on the owner's thread and
  in the arbiter's epoch, exactly when it is kept and its lease is the active one.
\<close>

theorem kept_bindings_are_current:
  assumes reach: "reachable_from (arbiter_step bk poll) (0, new_arbiter th, b0) (n, A, b)" and "n + 2 < 2 ^ 64"
  shows "(\<forall>i c. FindBinding i A = Some c \<longrightarrow> (\<exists>s. FindLease (bs_lease c) A = Some s \<and> ls_current s = Some i \<and>
       bs_generation c = ls_generation s \<and> bs_epoch c = arb_epoch A \<and>
       (ls_backend_neutral s \<longleftrightarrow> bs_frame c = NeutralFrame) \<and>
       (ls_state s = DeliveryPending \<longleftrightarrow> bs_kind c = Delivery) \<and> (ls_state s = Held \<longleftrightarrow> bs_kind c = HeldBinding) \<and>
       (bs_observed c \<and> bs_requires_observation c \<longrightarrow> bs_callbacks c \<noteq> 0))) \<and>
    (\<forall>i q. store_find (relationships A) i = Some q \<longrightarrow> (\<exists>s. FindLease (ir_lease q) A = Some s \<and>
       ls_current s = Some (ir_binding q) \<and> ls_generation s = ir_generation q)) \<and>
    (ValidateRelationship t i ep A = None \<longleftrightarrow> t = owner_thread A \<and> \<not> stopped A \<and> ep = arb_epoch A \<and>
       (\<exists>q. store_find (relationships A) i = Some q \<and> active A = Some (ir_lease q)))"
proof (intro conjI allI impI)
  have inv: "arbiter_inv n A" by (rule arbiter_reachable_inv [OF assms])
  note parts = arbiter_inv_parts [OF inv]
  fix j c assume "FindBinding j A = Some c"
  then have c: "store_find (bindings A) j = Some c" by (simp add: FindBinding_def)
  obtain s where s: "bs_id c = j" "store_find (leases A) (bs_lease c) = Some s" "ls_current s = Some j" "binding_fits s c"
    by (rule bindings_ok_binding [OF parts(6) c]) blast
  have "bs_epoch c = arb_epoch A" using s(4) arbiter_lease(2) [OF inv s(2)] by (simp add: binding_fits_def)
  moreover have "ls_state s = DeliveryPending \<longleftrightarrow> bs_kind c = Delivery" "ls_state s = Held \<longleftrightarrow> bs_kind c = HeldBinding"
    using s(4) by (cases "ls_state s"; auto simp: binding_fits_def)+
  ultimately show "\<exists>s. FindLease (bs_lease c) A = Some s \<and> ls_current s = Some j \<and>
       bs_generation c = ls_generation s \<and> bs_epoch c = arb_epoch A \<and>
       (ls_backend_neutral s \<longleftrightarrow> bs_frame c = NeutralFrame) \<and>
       (ls_state s = DeliveryPending \<longleftrightarrow> bs_kind c = Delivery) \<and> (ls_state s = Held \<longleftrightarrow> bs_kind c = HeldBinding) \<and>
       (bs_observed c \<and> bs_requires_observation c \<longrightarrow> bs_callbacks c \<noteq> 0)"
    using s by (intro exI [of _ s]) (auto simp: FindLease_def binding_fits_def IsNeutral_def)
next
  have inv: "arbiter_inv n A" by (rule arbiter_reachable_inv [OF assms])
  fix j q assume "store_find (relationships A) j = Some q"
  then show "\<exists>s. FindLease (ir_lease q) A = Some s \<and> ls_current s = Some (ir_binding q) \<and>
      ls_generation s = ir_generation q"
    using relationships_ok_relationship [OF arbiter_inv_parts(7) [OF inv]] by (metis FindLease_def)
next
  have inv: "arbiter_inv n A" by (rule arbiter_reachable_inv [OF assms])
  show "ValidateRelationship t i ep A = None \<longleftrightarrow> t = owner_thread A \<and> \<not> stopped A \<and> ep = arb_epoch A \<and>
       (\<exists>q. store_find (relationships A) i = Some q \<and> active A = Some (ir_lease q))"
  proof
    assume valid: "ValidateRelationship t i ep A = None"
    show "t = owner_thread A \<and> \<not> stopped A \<and> ep = arb_epoch A \<and>
       (\<exists>q. store_find (relationships A) i = Some q \<and> active A = Some (ir_lease q))"
      by (rule ValidateRelationship_None [OF valid])
        (use FindLease_id [OF inv] in \<open>auto simp: OnOwnerThread_def IsCurrent_def\<close>)
  next
    assume kept: "t = owner_thread A \<and> \<not> stopped A \<and> ep = arb_epoch A \<and>
       (\<exists>q. store_find (relationships A) i = Some q \<and> active A = Some (ir_lease q))"
    then obtain q where q: "store_find (relationships A) i = Some q" "active A = Some (ir_lease q)" by blast
    obtain s where s: "store_find (leases A) (ir_lease q) = Some s" "ls_epoch s = ir_epoch q"
      "ls_current s = Some (ir_binding q)" "ls_generation s = ir_generation q"
      by (rule relationships_ok_relationship [OF arbiter_inv_parts(7) [OF inv] q(1)]) blast
    obtain c where c: "store_find (bindings A) (ir_binding q) = Some c" "bs_id c = ir_binding q" "binding_fits s c"
      by (rule bindings_ok_current [OF arbiter_inv_parts(6) [OF inv] s(1,3)]) blast
    show "ValidateRelationship t i ep A = None"
      using kept q s c arbiter_lease [OF inv s(1)]
      by (simp add: ValidateRelationship_def OnOwnerThread_def IsStopped_def IsCurrent_def FindLease_def
          FindBinding_def binding_fits_def)
  qed
qed

theorem kept_bindings_are_current_witness:
  "\<exists>n A D q. sample_run observing = (n, A, D) \<and> store_find (relationships A) 1 = Some q \<and> active A = Some (ir_lease q)"
proof -
  obtain n A D where run: "sample_run observing = (n, A, D)" by (rule prod_cases3)
  with sample_observing have n: "n = 4" and valid: "ValidateRelationship 1 1 5 A = None" by simp_all
  have reach: "reachable_from (arbiter_step dolphin_port watched_poll) (0, new_arbiter 1, sample_pad) (n, A, D)"
    using sample_run_reachable [of observing] run by simp
  have "n + 2 < 2 ^ 64" using n by simp
  from kept_bindings_are_current [OF reach this, of 1 1 5] valid run show ?thesis by blast
qed

section \<open>What the guest is shown\<close>

text \<open>
  C38. No input is left behind. On the controller override, from the state in which opening the
  backend leaves it, installed before any arbiter exists (or not, when Dolphin has no controller),
  and with the guest polling at any time: whenever the arbiter runs without an active lease the pad shows the neutral frame, and so it does whenever the active
  lease says the backend is neutral. A shutdown that reports success leaves the pad neutral too,
  unless an exclusive lease on an unavailable port lies over suspended ones. Every port outside
  controller 0 is unavailable.
\<close>

theorem no_input_left_behind:
  assumes reach: "reachable_from (arbiter_step dolphin_port watched_poll)
      (0, new_arbiter th, watched_input settings controller) (n, A, D)"
    and room: "n + 2 < 2 ^ 64"
  shows "(\<not> stopped A \<and> active A = None \<longrightarrow> m_cur (pad D) = NeutralFrame) \<and>
    (\<forall>l s. active A = Some l \<and> FindLease l A = Some s \<and> ls_backend_neutral s \<longrightarrow> m_cur (pad D) = NeutralFrame) \<and>
    (\<forall>t r A' D'. \<not> stopped A \<and> Shutdown dolphin_port t (A, D) = (r, A', D') \<and> sr_ok r \<and>
       \<not> (\<exists>l s. active A = Some l \<and> FindLease l A = Some s \<and> req_movie_exclusive (ls_request s) \<and>
            \<not> IsAvailable (req_port (ls_request s)) D \<and> suspended A \<noteq> []) \<longrightarrow>
       stopped A' \<and> m_cur (pad D') = NeutralFrame)"
proof (intro conjI allI impI; (elim conjE)?)
  note inv = dolphin_reachable [OF reach room]
  note tells = told_active [OF inv(2)]
  show idle: "m_cur (pad D) = NeutralFrame" if "\<not> stopped A" "active A = None"
    using told_parts(4) [OF inv(2) that(1)] that(2) arbiter_idle(1) [OF inv(1) that(2)] by (simp add: lease_stack_def)
  have live: "\<not> stopped A" if "active A = Some l" for l
    using arbiter_inv_parts(8) [OF inv(1)] that by (auto simp: stopped_ok_def)
  show "m_cur (pad D) = NeutralFrame" if "active A = Some l" "FindLease l A = Some s" "ls_backend_neutral s" for l s
    using tells(1) [OF live [OF that(1)] that(1)] that(2,3) by (simp add: FindLease_def)
  fix t r A' D'
  assume running: "\<not> stopped A" and run: "Shutdown dolphin_port t (A, D) = (r, A', D')" and ok: "sr_ok r"
    and single: "\<not> (\<exists>l s. active A = Some l \<and> FindLease l A = Some s \<and> req_movie_exclusive (ls_request s) \<and>
            \<not> IsAvailable (req_port (ls_request s)) D \<and> suspended A \<noteq> [])"
  have none: "shutdown_receipt A = None" using arbiter_inv_parts(8) [OF inv(1)] running by (auto simp: stopped_ok_def)
  from run have "stopped A' \<and> m_cur (pad D') = NeutralFrame"
  proof (cases rule: arbiter_shutdown_result)
    case (idle)
    then show ?thesis
      using told_parts(4) [OF inv(2) running] arbiter_idle(1) [OF inv(1) idle(2)] by (simp add: lease_stack_def)
  next
    case (kept a s)
    have s: "store_find (leases A) a = Some s" using kept(3) by (simp add: FindLease_def)
    have "m_cur (pad D) = NeutralFrame"
    proof (cases "ls_backend_neutral s")
      case True
      with tells(1) [OF running kept(2) s] show ?thesis by simp
    next
      case False
      with kept(6) have movie: "req_movie_exclusive (ls_request s)" "\<not> IsAvailable (req_port (ls_request s)) D"
        by (simp_all add: dolphin_port_def)
      with single kept(2,3) have "suspended A = []" by blast
      moreover have "\<not> ls_mutated s"
        using ports_availableD [OF told_parts(3) [OF inv(2)] s] movie by (auto simp: dolphin_port_def)
      ultimately show ?thesis using tells(2) [OF running kept(2) s] by simp
    qed
    with kept show ?thesis by simp
  next
    case (neutralised a s p)
    with dolphin.publish_shows [OF inv(3) neutralised(4-6)] show ?thesis by simp
  qed (use ok none in simp_all)
  then show "stopped A'" "m_cur (pad D') = NeutralFrame" by simp_all
qed

theorem no_input_left_behind_witness:
  "\<exists>n A D r A' D'. sample_run holding = (n, A, D) \<and> m_cur (pad D) = pressed \<and>
    Shutdown dolphin_port 1 (A, D) = (r, A', D') \<and> sr_ok r \<and> m_cur (pad D') = NeutralFrame"
proof -
  obtain n A D where run: "sample_run holding = (n, A, D)" by (rule prod_cases3)
  have "case sample_run holding of (n, A, D) \<Rightarrow> \<not> stopped A \<and> suspended A = [] \<and>
      sr_ok (fst (Shutdown dolphin_port 1 (A, D)))"
    by code_simp
  then have shut: "\<not> stopped A" "suspended A = []" "sr_ok (fst (Shutdown dolphin_port 1 (A, D)))"
    using run by simp_all
  obtain r A' D' where down: "Shutdown dolphin_port 1 (A, D) = (r, A', D')" by (rule prod_cases3)
  have reach: "reachable_from (arbiter_step dolphin_port watched_poll) (0, new_arbiter 1, sample_pad) (n, A, D)"
    using sample_run_reachable [of holding] run by simp
  have room: "n + 2 < 2 ^ 64" and pressed: "m_cur (pad D) = pressed" using sample_holding run by simp_all
  from no_input_left_behind [OF reach [unfolded sample_pad_def] room] shut down have "m_cur (pad D') = NeutralFrame" by simp
  with run pressed down shut(3) show ?thesis by simp
qed

text \<open>
  The case left out: a press held on controller 0, then an exclusive lease on controller 1 over it.
  The shutdown reports a complete cleanup and leaves the button pressed.
\<close>

definition movie_over_press :: "(thread_id \<times> (string \<times> string) input_operation) list" where
  "movie_over_press = holding @ [(1, Input_Acquire (sample_lease 1 2 True) 5)]"

lemma shutdown_under_movie_leaves_input:
  "case sample_run movie_over_press of (n, A, D) \<Rightarrow>
     (case Shutdown dolphin_port 1 (A, D) of (r, A', D') \<Rightarrow>
        sr_ok r \<and> sr_cleanup_complete r \<and> \<not> sr_taint_required r \<and> m_cur (pad D') = pressed)"
  by code_simp

text \<open>
  C39. A completion means the guest saw the input. On the controller override, from the state in
  which opening the backend leaves it, with every answer the guest gets from the installed function
  written down beside the publication then held: when completing a relationship succeeds whose
  binding had to be observed and was not yet, the pad still shows the binding's frame under the
  binding's own publication, the guest was answered with that frame under that publication, with no
  other frame under it, and the count is the number of those answers (modulo the 32 bits of the
  counter). The binding is then on record as observed with that count, its lease has left a pending
  transition, and the relationship is gone. Completing a delivery succeeds only on such a record, so
  there too the guest was answered with the delivered frame under its publication.
\<close>

theorem completion_means_observed:
  assumes reach: "reachable_from (arbiter_step dolphin_port watched_poll)
      (0, new_arbiter th, watched_input settings controller) (n, A, D)"
    and room: "n + 2 < 2 ^ 64"
  shows "(\<forall>i ep A' D' q c. Complete dolphin_port t i ep (A, D) = (None, A', D') \<and>
      store_find (relationships A) i = Some q \<and> FindBinding (ir_binding q) A = Some c \<and>
      bs_requires_observation c \<and> \<not> bs_observed c \<longrightarrow>
        D' = D \<and> m_cur (pad D) = bs_frame c \<and> m_publication_epoch (pad D) = bs_publication_epoch c \<and>
        (bs_publication_epoch c, bs_frame c) \<in> set (guest_answers D) \<and>
        (\<forall>f. (bs_publication_epoch c, f) \<in> set (guest_answers D) \<longrightarrow> f = bs_frame c) \<and>
        m_callback_count (pad D) = of_nat (count_list (guest_answers D) (bs_publication_epoch c, bs_frame c)) \<and>
        m_callback_count (pad D) \<noteq> 0 \<and> store_find (relationships A') i = None \<and>
        (\<exists>c' s. FindBinding (ir_binding q) A' = Some c' \<and> bs_observed c' \<and>
           bs_callbacks c' = m_callback_count (pad D) \<and> FindLease (ir_lease q) A' = Some s \<and>
           ls_state s \<noteq> NeutralTransitionPending)) \<and>
    (\<forall>l i ep r A' D'. CompleteDelivery dolphin_port t l i ep (A, D) = (r, A', D') \<and> dr_ok r \<longrightarrow>
      (\<exists>c. FindBinding i A = Some c \<and> bs_kind c = Delivery \<and> bs_observed c \<and> bs_callbacks c \<noteq> 0 \<and>
         (bs_publication_epoch c, bs_frame c) \<in> set (guest_answers D) \<and>
         dr_frame r = bs_frame c \<and> dr_callbacks r = bs_callbacks c) \<and> m_cur (pad D') = NeutralFrame)"
proof (intro conjI allI impI; (elim conjE)?)
  note inv = dolphin_reachable [OF reach room]
  note parts = arbiter_inv_parts [OF inv(1)]
  fix i ep A' D' q c
  assume run: "Complete dolphin_port t i ep (A, D) = (None, A', D')"
    and q: "store_find (relationships A) i = Some q" and c: "FindBinding (ir_binding q) A = Some c"
    and watch: "bs_requires_observation c" "\<not> bs_observed c"
  let ?goal = "D' = D \<and> m_cur (pad D) = bs_frame c \<and> m_publication_epoch (pad D) = bs_publication_epoch c \<and>
        (bs_publication_epoch c, bs_frame c) \<in> set (guest_answers D) \<and>
        (\<forall>f. (bs_publication_epoch c, f) \<in> set (guest_answers D) \<longrightarrow> f = bs_frame c) \<and>
        m_callback_count (pad D) = of_nat (count_list (guest_answers D) (bs_publication_epoch c, bs_frame c)) \<and>
        m_callback_count (pad D) \<noteq> 0 \<and> store_find (relationships A') i = None \<and>
        (\<exists>c' s. FindBinding (ir_binding q) A' = Some c' \<and> bs_observed c' \<and>
           bs_callbacks c' = m_callback_count (pad D) \<and> FindLease (ir_lease q) A' = Some s \<and>
           ls_state s \<noteq> NeutralTransitionPending)"
  from run have goal: ?goal
  proof (cases rule: Complete_result)
    case (already q' s c')
    with q c watch show ?thesis by simp
  next
    case (observed q' s c')
    then have same: "q' = q" "c' = c" using q c by simp_all
    note obs = observed(9-12) [unfolded same]
    have poll: "m_publication_epoch (pad D) = bs_publication_epoch c" "m_callback_count (pad D) \<noteq> 0"
      "poll_callbacks (port_poll dolphin_port (req_port (ls_request s)) D) = m_callback_count (pad D)"
      using obs(1-3) by (auto simp: dolphin_port_def QueryPoll_def split: if_splits)
    have epoch: "m_publication_epoch (pad D) \<noteq> 0" using inv(3) poll(2) by (auto simp: pad_good_def)
    have cb: "store_find (bindings A) (ir_binding q) = Some c" using c by (simp add: FindBinding_def)
    have shown: "m_cur (pad D) = bs_frame c"
      using told_parts(2) [OF inv(2)] cb watch(1) poll(1) by (auto simp: epochs_told_def)
    have answers: "(bs_publication_epoch c, bs_frame c) \<in> set (guest_answers D)"
      using pad_counted [OF inv(3) poll(2)] poll(1) shown by simp
    have only: "f = bs_frame c" if "(bs_publication_epoch c, f) \<in> set (guest_answers D)" for f
      using inv(3) that poll(1) shown by (auto simp: pad_good_def)
    have number: "m_callback_count (pad D) =
        of_nat (count_list (guest_answers D) (bs_publication_epoch c, bs_frame c))"
      using inv(3) epoch poll(1) shown by (simp add: pad_good_def)
    have s: "store_find (leases A) (ir_lease q) = Some s" using observed(5) same by (simp add: FindLease_def)
    obtain u where u: "store_find (leases A) (bs_lease c) = Some u" "ls_current u = Some (ir_binding q)" "binding_fits u c"
      by (rule bindings_ok_binding [OF parts(6) cb]) blast
    have "ls_current s = Some (ir_binding q)"
      by (rule relationships_ok_relationship [OF parts(7) q]) (use s in simp)
    from bindings_ok_current [OF parts(6) s this] cb have fits: "binding_fits s c" by auto
    let ?A = "A\<lparr>next_poll_receipt := next_poll_receipt A + 1, bindings := store_modify (ir_binding q)
        (\<lambda>_. observed_binding c (next_poll_receipt A) (m_callback_count (pad D))) (bindings A)\<rparr>"
    have A': "A' = settled i q s c ?A" using obs(4) poll(3) by simp
    have "FindLease (ir_lease q) A' = Some (if bs_kind c = NeutralTransition then s\<lparr>ls_state := Neutral\<rparr> else s)"
      unfolding FindLease_def A' by (subst settled_leases) (simp_all add: s)
    moreover have "bs_kind c = NeutralTransition" if "ls_state s = NeutralTransitionPending"
      using fits that by (simp add: binding_fits_def)
    ultimately have "\<exists>s'. FindLease (ir_lease q) A' = Some s' \<and> ls_state s' \<noteq> NeutralTransitionPending" by auto
    moreover have "FindBinding (ir_binding q) A' = Some (observed_binding c (next_poll_receipt A) (m_callback_count (pad D)))"
      using cb by (simp add: FindBinding_def A' settled_def um.find_simps)
    moreover have "store_find (relationships A') i = None" by (simp add: A' settled_def um.find_simps)
    ultimately have "\<exists>c' s. FindBinding (ir_binding q) A' = Some c' \<and> bs_observed c' \<and>
           bs_callbacks c' = m_callback_count (pad D) \<and> FindLease (ir_lease q) A' = Some s \<and>
           ls_state s \<noteq> NeutralTransitionPending" "store_find (relationships A') i = None"
      by (auto simp: observed_binding_def)
    with observed(2) shown poll(1,2) answers only number show ?thesis by blast
  qed simp
  from goal show "f = bs_frame c" if "(bs_publication_epoch c, f) \<in> set (guest_answers D)" for f
    using that by blast
  from goal show "D' = D" "m_cur (pad D) = bs_frame c" "m_publication_epoch (pad D) = bs_publication_epoch c"
    "(bs_publication_epoch c, bs_frame c) \<in> set (guest_answers D)"
    "m_callback_count (pad D) = of_nat (count_list (guest_answers D) (bs_publication_epoch c, bs_frame c))"
    "m_callback_count (pad D) \<noteq> 0" "store_find (relationships A') i = None"
    "\<exists>c' s. FindBinding (ir_binding q) A' = Some c' \<and> bs_observed c' \<and>
           bs_callbacks c' = m_callback_count (pad D) \<and> FindLease (ir_lease q) A' = Some s \<and>
           ls_state s \<noteq> NeutralTransitionPending" by blast+
next
  note inv = dolphin_reachable [OF reach room]
  note parts = arbiter_inv_parts [OF inv(1)]
  fix l i ep r A' D'
  assume run: "CompleteDelivery dolphin_port t l i ep (A, D) = (r, A', D')" and ok: "dr_ok r"
  have seen: "bs_kind c = Delivery \<and> bs_callbacks c \<noteq> 0 \<and>
      (bs_publication_epoch c, bs_frame c) \<in> set (guest_answers D) \<and> (IsNeutral (bs_frame c) \<longrightarrow> m_cur (pad D) = NeutralFrame)"
    if d: "FindLease l A = Some s" "FindBinding i A = Some c" "exact_delivery l i ep s c A" "bs_observed c"
      "\<not> stopped A" "active A = Some l" for s c
  proof -
    have s: "store_find (leases A) l = Some s" "store_find (bindings A) i = Some c"
      using d(1,2) by (simp_all add: FindLease_def FindBinding_def)
    have cur: "ls_current s = Some i" "bs_kind c = Delivery" using d(3) by (simp_all add: exact_delivery_def)
    from bindings_ok_current [OF parts(6) s(1) cur(1)] s(2) have fits: "binding_fits s c" by auto
    then have "bs_callbacks c \<noteq> 0" "IsNeutral (bs_frame c) = ls_backend_neutral s" "bs_requires_observation c"
      using d(4) cur(2) by (auto simp: binding_fits_def)
    moreover from this(3) have "(bs_publication_epoch c, bs_frame c) \<in> set (guest_answers D)"
      using told_parts(2) [OF inv(2)] s(2) d(4) by (simp add: epochs_told_def)
    moreover note told_active(1) [OF inv(2) d(5,6) s(1)] cur(2)
    ultimately show ?thesis by blast
  qed
  from run have "(\<exists>c. FindBinding i A = Some c \<and> bs_kind c = Delivery \<and> bs_observed c \<and> bs_callbacks c \<noteq> 0 \<and>
         (bs_publication_epoch c, bs_frame c) \<in> set (guest_answers D) \<and>
         dr_frame r = bs_frame c \<and> dr_callbacks r = bs_callbacks c) \<and> m_cur (pad D') = NeutralFrame"
  proof (cases rule: CompleteDelivery_result)
    case (neutral s c)
    with seen [OF neutral(4-7) neutral(2,3)] show ?thesis by simp
  next
    case (restored s c p)
    with seen [OF restored(4-7) restored(2,3)] dolphin.publish_shows [OF inv(3) restored(9-11)] show ?thesis by simp
  qed (use ok in simp)
  then show "\<exists>c. FindBinding i A = Some c \<and> bs_kind c = Delivery \<and> bs_observed c \<and> bs_callbacks c \<noteq> 0 \<and>
         (bs_publication_epoch c, bs_frame c) \<in> set (guest_answers D) \<and>
         dr_frame r = bs_frame c \<and> dr_callbacks r = bs_callbacks c" "m_cur (pad D') = NeutralFrame" by blast+
qed

theorem completion_means_observed_witness:
  "\<exists>n A D A'. sample_run observing = (n, A, D) \<and> Complete dolphin_port 1 1 5 (A, D) = (None, A', D) \<and>
    m_installed (pad D) \<and> m_cur (pad D) = pressed \<and> (1, pressed) \<in> set (guest_answers D) \<and>
    m_callback_count (pad D) = 1"
proof -
  obtain n A D where run: "sample_run observing = (n, A, D)" by (rule prod_cases3)
  have "case sample_run observing of (n, A, D) \<Rightarrow> n = 4 \<and> m_installed (pad D) \<and> count_list (guest_answers D) (1, pressed) = 1 \<and>
      fst (Complete dolphin_port 1 1 5 (A, D)) = None \<and>
      (case store_find (relationships A) 1 of None \<Rightarrow> False | Some q \<Rightarrow>
        (case FindBinding (ir_binding q) A of None \<Rightarrow> False
         | Some c \<Rightarrow> bs_requires_observation c \<and> \<not> bs_observed c \<and> bs_frame c = pressed \<and> bs_publication_epoch c = 1))"
    by code_simp
  then obtain q c where sample: "n = 4" "m_installed (pad D)" "count_list (guest_answers D) (1, pressed) = 1"
    "fst (Complete dolphin_port 1 1 5 (A, D)) = None"
    "store_find (relationships A) 1 = Some q" "FindBinding (ir_binding q) A = Some c"
    "bs_requires_observation c" "\<not> bs_observed c" "bs_frame c = pressed" "bs_publication_epoch c = 1"
    using run by (auto split: option.splits)
  obtain A' D' where complete: "Complete dolphin_port 1 1 5 (A, D) = (None, A', D')"
    using sample(4) by (metis prod.collapse)
  have reach: "reachable_from (arbiter_step dolphin_port watched_poll) (0, new_arbiter 1, sample_pad) (n, A, D)"
    using sample_run_reachable [of observing] run by simp
  have room: "n + 2 < 2 ^ 64" using sample(1) by simp
  note observed = completion_means_observed [OF reach [unfolded sample_pad_def] room, of 1, THEN conjunct1, rule_format]
  have "D' = D \<and> m_cur (pad D) = pressed \<and> (1, pressed) \<in> set (guest_answers D) \<and>
      m_callback_count (pad D) = of_nat (count_list (guest_answers D) (1, pressed))"
    using observed [of 1 5 A' D' q c] complete sample(5-10) by simp
  with run complete sample(2,3) show ?thesis by auto
qed

end
