(* ===== verification/ProgramTypes.thy ===== *)
theory ProgramTypes
  imports SavorPrelude
begin

text \<open>
  The values of the program runtime
  (SavorCore/Runner/Runtime/ProgramRuntime/Model/ProgramTypes.h, ProgramIdentifiers.h and .cpp):
  content hashes with their hexadecimal text, schema identities, type references, schemas and the
  payloads a value can have. A \<open>std::string\<close> and a vector of bytes are lists of bytes. A
  \<open>float\<close> and a \<open>double\<close> are their bit patterns, an \<open>std::int32_t\<close> and an \<open>std::int64_t\<close>
  words that \<open>sint\<close> reads; the constructor of the payload says which.
\<close>

section \<open>Content hashes\<close>

text \<open>\<open>bytes\<close> is an array of 32 bytes: a list, whose length \<open>hash_wf\<close> fixes.\<close>

record ContentHash256 =
  hash_bytes :: "u8 list"

definition hash_wf :: "ContentHash256 \<Rightarrow> bool" where
  "hash_wf h \<longleftrightarrow> length (hash_bytes h) = 32"

definition hash_empty :: "ContentHash256 \<Rightarrow> bool" where
  "hash_empty h \<longleftrightarrow> list_all (\<lambda>b. b = 0) (hash_bytes h)"

text \<open>The characters \<open>0123456789abcdef\<close>, by their codes.\<close>

definition kHex :: "u8 list" where
  "kHex = [48, 49, 50, 51, 52, 53, 54, 55, 56, 57, 97, 98, 99, 100, 101, 102]"

definition ToHex :: "ContentHash256 \<Rightarrow> u8 list" where
  "ToHex h = concat (map (\<lambda>b. [kHex ! unat (drop_bit 4 b), kHex ! unat (and b 15)]) (hash_bytes h))"

definition decode_digit :: "u8 \<Rightarrow> u8 option" where
  "decode_digit c =
    (if 48 \<le> c \<and> c \<le> 57 then Some (c - 48)
     else if 97 \<le> c \<and> c \<le> 102 then Some (c - 97 + 10)
     else None)"

fun decode_pairs :: "u8 list \<Rightarrow> u8 list option" where
  "decode_pairs (c # d # text) =
    (case (decode_digit c, decode_digit d) of
       (Some high, Some low) \<Rightarrow>
         (case decode_pairs text of
            None \<Rightarrow> None
          | Some bs \<Rightarrow> Some (or (push_bit 4 high) low # bs))
     | _ \<Rightarrow> None)"
| "decode_pairs _ = Some []"

definition FromHex :: "u8 list \<Rightarrow> ContentHash256 option" where
  "FromHex text =
    (if length text \<noteq> 64 then None
     else map_option (\<lambda>bs. \<lparr>hash_bytes = bs\<rparr>) (decode_pairs text))"

section \<open>Identities, types and schemas\<close>

record SchemaIdentity =
  canonical_id :: "u8 list"
  schema_version :: u32
  schema_hash :: ContentHash256

datatype BuiltinType = UnitT | BoolT | U8T | U16T | U32T | U64T | I32T | I64T | F32T | F64T

record TypeRef =
  builtin :: BuiltinType
  named :: "SchemaIdentity option"

definition Builtin :: "BuiltinType \<Rightarrow> TypeRef" where
  "Builtin t = \<lparr>builtin = t, named = None\<rparr>"

definition Named :: "SchemaIdentity \<Rightarrow> TypeRef" where
  "Named i = \<lparr>builtin = UnitT, named = Some i\<rparr>"

definition is_named :: "TypeRef \<Rightarrow> bool" where
  "is_named t \<longleftrightarrow> named t \<noteq> None"

datatype TypeSchemaKind =
    BoundedUtf8String
  | BoundedBytes
  | ClosedEnum
  | OptionalKind
  | RecordKind
  | BoundedList
  | ArtifactReferenceKind
  | ResourceHandleKind
  | EpochBoundOpaqueHandle

record EnumMemberDefinition =
  member_name :: "u8 list"
  member_value :: u64

record RecordFieldDefinition =
  field_name :: "u8 list"
  field_type :: TypeRef

record TypeSchemaDefinition =
  schema_identity :: SchemaIdentity
  schema_kind :: TypeSchemaKind
  maximum_size :: u64
  element_type :: "TypeRef option"
  enum_members :: "EnumMemberDefinition list"
  record_fields :: "RecordFieldDefinition list"
  permits_incomplete :: bool

section \<open>Payloads, values and graphs\<close>

record ArtifactReference =
  artifact_id :: "u8 list"
  artifact_schema :: SchemaIdentity
  content_hash :: ContentHash256
  storage_reference :: "u8 list"
  artifact_complete :: bool

record HandleValue =
  handle_id :: u64
  handle_type :: SchemaIdentity
  workset_epoch :: u64

datatype ProgramValuePayload =
    UnitValue
  | BoolValue bool
  | U8Value u8
  | U16Value u16
  | U32Value u32
  | U64Value u64
  | I32Value u32
  | I64Value u64
  | F32Value u32
  | F64Value u64
  | StringValue "u8 list"
  | BytesValue "u8 list"
  | EnumValue SchemaIdentity u64
  | OptionalValue "u64 option"
  | RecordValue "u64 list"
  | ListValue "u64 list"
  | ArtifactReferenceValue ArtifactReference
  | ResourceHandleValue HandleValue
  | OpaqueHandleValue HandleValue

record ProgramValue =
  value_id :: u64
  value_type :: TypeRef
  payload :: ProgramValuePayload

record ProgramValueGraph =
  graph_root :: u64
  graph_values :: "ProgramValue list"

section \<open>The hexadecimal text of a hash\<close>

lemma decode_kHex:
  assumes "unat d < 16"
  shows "decode_digit (kHex ! unat d) = Some d"
proof -
  have "list_all (\<lambda>d. decode_digit (kHex ! unat d) = Some d) (map word_of_nat [0..<16])"
    by code_simp
  from word_range [OF this _ assms] show ?thesis by simp
qed

lemma decode_encode_byte:
  "decode_digit (kHex ! unat (drop_bit 4 b)) = Some (drop_bit 4 b)"
  "decode_digit (kHex ! unat (and b 15)) = Some (and b 15)"
  "or (push_bit 4 (drop_bit 4 b)) (and b 15) = (b :: u8)"
proof -
  have low: "and b 15 = and b (mask 4)" by (simp add: mask_numeral)
  have "unat b < 256" using unsigned_less [of b, where 'a = nat] by simp
  then show "decode_digit (kHex ! unat (drop_bit 4 b)) = Some (drop_bit 4 b)"
    by (intro decode_kHex) (simp only: unat_drop_bit_div, simp)
  show "decode_digit (kHex ! unat (and b 15)) = Some (and b 15)"
    unfolding low by (intro decode_kHex) (simp only: unat_and_mask, simp)
  show "or (push_bit 4 (drop_bit 4 b)) (and b 15) = b"
    unfolding low by (intro bit_word_eqI) (auto simp: bit_simps)
qed

lemma decode_pairs_ToHex: "decode_pairs (ToHex h) = Some (hash_bytes h)"
proof -
  have "decode_pairs (concat (map (\<lambda>b. [kHex ! unat (drop_bit 4 b), kHex ! unat (and b 15)]) bs))
      = Some bs" for bs
    by (induction bs) (simp_all add: decode_encode_byte)
  then show ?thesis by (simp add: ToHex_def)
qed

lemma length_ToHex: "length (ToHex h) = 2 * length (hash_bytes h)"
proof -
  have "length (concat (map (\<lambda>b. [f b, g b]) bs)) = 2 * length bs" for f g and bs :: "u8 list"
    by (induction bs) simp_all
  then show ?thesis by (simp add: ToHex_def)
qed

lemma encode_decode_digit:
  assumes "decode_digit c = Some d"
  shows "kHex ! unat d = c \<and> d < 16"
proof -
  let ?P = "\<lambda>c. case decode_digit c of None \<Rightarrow> True | Some d \<Rightarrow> kHex ! unat d = c \<and> d < 16"
  have "list_all ?P (map word_of_nat [48..<58])" and "list_all ?P (map word_of_nat [97..<103])"
    by code_simp+
  note table = this [THEN word_range]
  have "48 \<le> unat c \<and> unat c < 58 \<or> 97 \<le> unat c \<and> unat c < 103"
    using assms by (auto simp: decode_digit_def word_le_nat_alt split: if_splits)
  then have "?P c" using table [of c] by linarith
  with assms show ?thesis by simp
qed

lemma split_digits:
  assumes "h < (16 :: u8)" and "l < 16"
  shows "drop_bit 4 (or (push_bit 4 h) l) = h" and "and (or (push_bit 4 h) l) 15 = l"
proof -
  have "take_bit 4 x = x" if "x < 16" for x :: u8
    using that by (simp add: take_bit_eq_mod word_less_nat_alt word_arith_nat_mod)
  then have "bit x n \<Longrightarrow> n < 4" if "x < 16" for x :: u8 and n
    using that by (metis bit_take_bit_iff)
  with assms have small: "\<And>n. bit h n \<Longrightarrow> n < 4" "\<And>n. bit l n \<Longrightarrow> n < 4" by blast+
  have low: "(15 :: u8) = mask 4" by (simp add: mask_numeral)
  show "drop_bit 4 (or (push_bit 4 h) l) = h"
    by (intro bit_word_eqI) (auto simp: bit_simps simp del: drop_bit_or dest: small)
  show "and (or (push_bit 4 h) l) 15 = l"
    unfolding low by (intro bit_word_eqI) (auto simp: bit_simps dest: small)
qed

lemma ToHex_decode_pairs:
  assumes "decode_pairs cs = Some bs" and "even (length cs)"
  shows "ToHex \<lparr>hash_bytes = bs\<rparr> = cs \<and> length cs = 2 * length bs"
  using assms
proof (induction cs arbitrary: bs rule: decode_pairs.induct)
  case (1 c d more)
  from "1.prems" obtain h l rest where digits: "decode_digit c = Some h" "decode_digit d = Some l"
    and rest: "decode_pairs more = Some rest" and bs: "bs = or (push_bit 4 h) l # rest"
    by (auto split: option.splits)
  have "ToHex \<lparr>hash_bytes = rest\<rparr> = more \<and> length more = 2 * length rest"
    using "1.IH" digits rest "1.prems" by simp
  moreover have "ToHex \<lparr>hash_bytes = bs\<rparr> = [c, d] @ ToHex \<lparr>hash_bytes = rest\<rparr>"
    using encode_decode_digit [OF digits(1)] encode_decode_digit [OF digits(2)]
    by (simp only: bs ToHex_def split_digits list.map concat.simps ContentHash256.simps)
  ultimately show ?case by (simp add: bs)
qed (auto simp: ToHex_def)

text \<open>The text determines the hash and the hash the text: the two functions are inverse.\<close>

lemma hash_text_roundtrip:
  "FromHex text = Some h \<longleftrightarrow> hash_wf h \<and> ToHex h = text"
proof
  assume from_hex: "FromHex text = Some h"
  then have length: "length text = 64" and "decode_pairs text = Some (hash_bytes h)"
    by (auto simp: FromHex_def split: if_splits)
  from ToHex_decode_pairs [OF this(2)] length have
    "ToHex h = text \<and> length text = 2 * length (hash_bytes h)"
    by (simp add: ToHex_def)
  with length show "hash_wf h \<and> ToHex h = text" by (simp add: hash_wf_def)
next
  assume "hash_wf h \<and> ToHex h = text"
  then show "FromHex text = Some h"
    using length_ToHex [of h] by (auto simp: FromHex_def hash_wf_def decode_pairs_ToHex)
qed

end
