(* ===== verification/Utf8Text.thy ===== *)
theory Utf8Text
  imports ProgramTypes
begin

text \<open>
  The test for well-formed UTF-8 that guards every string value of the program runtime
  (IsValidUtf8 in SavorCore/Runner/Runtime/ProgramRuntime/Model/ProgramValueArena.cpp), and its
  reference: a string is well formed when it is a sequence of encoded Unicode scalar values.
\<close>

section \<open>The loop of the code\<close>

text \<open>The bits of the lead byte and the number of continuation bytes it announces.\<close>

definition utf8_lead :: "u8 \<Rightarrow> (u32 \<times> nat) option" where
  "utf8_lead lead =
    (if and lead 0xe0 = 0xc0 then
       (if and lead 0x1f = 0 then None else Some (ucast (and lead 0x1f), 1))
     else if and lead 0xf0 = 0xe0 then Some (ucast (and lead 0x0f), 2)
     else if and lead 0xf8 = 0xf0 then Some (ucast (and lead 0x07), 3)
     else None)"

fun utf8_continue :: "nat \<Rightarrow> u32 \<Rightarrow> u8 list \<Rightarrow> (u32 \<times> u8 list) option" where
  "utf8_continue 0 code_point cursor = Some (code_point, cursor)"
| "utf8_continue (Suc n) code_point [] = None"
| "utf8_continue (Suc n) code_point (c # cursor) =
    (if and c 0xc0 \<noteq> 0x80 then None
     else utf8_continue n (or (push_bit 6 code_point) (ucast (and c 0x3f))) cursor)"

definition utf8_rejected :: "nat \<Rightarrow> u32 \<Rightarrow> bool" where
  "utf8_rejected count code_point \<longleftrightarrow>
    count = 1 \<and> code_point < 0x80 \<or>
    count = 2 \<and> code_point < 0x800 \<or>
    count = 3 \<and> code_point < 0x10000 \<or>
    code_point > 0x10ffff \<or>
    code_point \<ge> 0xd800 \<and> code_point \<le> 0xdfff"

text \<open>What follows a lead byte above 0x7f: the rest of the text behind one character.\<close>

definition utf8_sequence :: "u8 \<Rightarrow> u8 list \<Rightarrow> u8 list option" where
  "utf8_sequence lead cursor =
    (case utf8_lead lead of
       None \<Rightarrow> None
     | Some (code_point, count) \<Rightarrow>
         if length cursor < count then None
         else
           (case utf8_continue count code_point cursor of
              None \<Rightarrow> None
            | Some (result, rest) \<Rightarrow> if utf8_rejected count result then None else Some rest))"

lemma utf8_continue_length:
  "utf8_continue n code_point cursor = Some (result, rest) \<Longrightarrow> length cursor = n + length rest"
  by (induction n code_point cursor rule: utf8_continue.induct) (auto split: if_splits)

lemma utf8_sequence_length: "utf8_sequence lead cursor = Some rest \<Longrightarrow> length rest \<le> length cursor"
  by (fastforce simp: utf8_sequence_def dest: utf8_continue_length split: option.splits if_splits)

function IsValidUtf8 :: "u8 list \<Rightarrow> bool" where
  "IsValidUtf8 [] = True"
| "IsValidUtf8 (lead # cursor) =
    (if lead \<le> 0x7f then IsValidUtf8 cursor
     else (case utf8_sequence lead cursor of None \<Rightarrow> False | Some rest \<Rightarrow> IsValidUtf8 rest))"
  by pat_completeness auto
termination
  by (relation "measure length") (auto dest: utf8_sequence_length)

section \<open>The reference\<close>

definition scalar_value :: "nat \<Rightarrow> bool" where
  "scalar_value n \<longleftrightarrow> n \<le> 0x10ffff \<and> \<not> (0xd800 \<le> n \<and> n \<le> 0xdfff)"

definition utf8_codes :: "nat \<Rightarrow> nat list" where
  "utf8_codes n =
    (if n < 0x80 then [n]
     else if n < 0x800 then [192 + n div 64, 128 + n mod 64]
     else if n < 0x10000 then [224 + n div 4096, 128 + n div 64 mod 64, 128 + n mod 64]
     else [240 + n div 262144, 128 + n div 4096 mod 64, 128 + n div 64 mod 64, 128 + n mod 64])"

definition utf8_encode :: "nat \<Rightarrow> u8 list" where
  "utf8_encode n = map of_nat (utf8_codes n)"

definition utf8_text :: "nat list \<Rightarrow> u8 list" where
  "utf8_text ns = concat (map utf8_encode ns)"

section \<open>Bits of a byte as arithmetic\<close>

lemma byte_bits:
  fixes b :: u8
  shows "and b 0xc0 = 0x80 \<longleftrightarrow> unat b div 64 = 2"
    and "and b 0xe0 = 0xc0 \<longleftrightarrow> unat b div 32 = 6"
    and "and b 0xf0 = 0xe0 \<longleftrightarrow> unat b div 16 = 14"
    and "and b 0xf8 = 0xf0 \<longleftrightarrow> unat b div 8 = 30"
    and "unat (and b 0x3f) = unat b mod 64"
    and "unat (and b 0x1f) = unat b mod 32"
    and "unat (and b 0x0f) = unat b mod 16"
    and "unat (and b 0x07) = unat b mod 8"
  using high_bits_iff [of 6 2 2 b] high_bits_iff [of 5 3 6 b] high_bits_iff [of 4 4 14 b]
    high_bits_iff [of 3 5 30 b] unat_and_mask [of b 6] unat_and_mask [of b 5]
    unat_and_mask [of b 4] unat_and_mask [of b 3]
  by (simp_all add: mask_numeral push_bit_numeral)
lemma append_six_bits:
  fixes code_point :: u32 and c :: u8
  assumes "unat code_point < 67108864"
  shows "unat (or (push_bit 6 code_point) (ucast (and c 0x3f))) = unat code_point * 64 + unat c mod 64"
proof -
  have low_bits: "and c 0x3f = and c (mask 6)" by (simp add: mask_numeral)
  have low: "unat (ucast (and c 0x3f) :: u32) = unat c mod 64"
    by (simp add: unat_ucast_up byte_bits)
  have "and (push_bit 6 code_point) (ucast (and c 0x3f)) = (0 :: u32)"
    using bit_imp_le_length [of c] by (intro bit_word_eqI) (auto simp: low_bits bit_simps)
  then have "or (push_bit 6 code_point) (ucast (and c 0x3f)) = push_bit 6 code_point + (ucast (and c 0x3f) :: u32)"
    by (metis disjunctive_add_eq_or)
  also have "unat \<dots> = unat code_point * 64 + unat c mod 64"
  proof -
    have "unat (push_bit 6 code_point) = unat code_point * 64"
      using assms by (simp add: push_bit_eq_mult unat_word_ariths)
    moreover have "unat c mod 64 < 64" by simp
    ultimately show ?thesis
      using assms low by (subst unat_add_lem [THEN iffD1]) simp_all
  qed
  finally show ?thesis .
qed

section \<open>One character\<close>

lemma utf8_codes_bytes: "scalar_value n \<Longrightarrow> k \<in> set (utf8_codes n) \<Longrightarrow> k < 256"
  by (auto simp: utf8_codes_def scalar_value_def split: if_splits)

lemma utf8_encode_codes: "scalar_value n \<Longrightarrow> map unat (utf8_encode n) = utf8_codes n"
  by (auto simp: utf8_encode_def unat_of_nat intro!: map_idI dest: utf8_codes_bytes)

lemma utf8_encodeI: "utf8_codes n = map unat bs \<Longrightarrow> utf8_encode n = bs"
  by (simp add: utf8_encode_def comp_def)

lemma utf8_rejected_iff:
  "utf8_rejected count w \<longleftrightarrow>
    count = 1 \<and> unat w < 0x80 \<or> count = 2 \<and> unat w < 0x800 \<or> count = 3 \<and> unat w < 0x10000
    \<or> \<not> scalar_value (unat w)"
  by (auto simp: utf8_rejected_def scalar_value_def word_less_nat_alt word_le_nat_alt)

lemma utf8_lead_cases:
  assumes "utf8_lead lead = Some (code_point, count)"
  shows "count = 1 \<and> unat lead div 32 = 6 \<and> unat code_point = unat lead mod 32 \<or>
    count = 2 \<and> unat lead div 16 = 14 \<and> unat code_point = unat lead mod 16 \<or>
    count = 3 \<and> unat lead div 8 = 30 \<and> unat code_point = unat lead mod 8"
  using assms by (auto simp: utf8_lead_def byte_bits unat_ucast_up split: if_splits)

lemma utf8_leadI:
  "unat lead div 32 = 6 \<Longrightarrow> unat lead mod 32 \<noteq> 0 \<Longrightarrow> utf8_lead lead = Some (ucast (and lead 0x1f), 1)"
  "unat lead div 16 = 14 \<Longrightarrow> utf8_lead lead = Some (ucast (and lead 0x0f), 2)"
  "unat lead div 8 = 30 \<Longrightarrow> utf8_lead lead = Some (ucast (and lead 0x07), 3)"
proof -
  have *: "and lead 0x1f = 0 \<longleftrightarrow> unat lead mod 32 = 0"
    by (metis byte_bits(6) unat_eq_zero)
  show "unat lead div 32 = 6 \<Longrightarrow> unat lead mod 32 \<noteq> 0 \<Longrightarrow> utf8_lead lead = Some (ucast (and lead 0x1f), 1)"
    by (simp add: utf8_lead_def byte_bits *)
  show "unat lead div 16 = 14 \<Longrightarrow> utf8_lead lead = Some (ucast (and lead 0x0f), 2)"
    by (auto simp: utf8_lead_def byte_bits)
  show "unat lead div 8 = 30 \<Longrightarrow> utf8_lead lead = Some (ucast (and lead 0x07), 3)"
    by (auto simp: utf8_lead_def byte_bits)
qed

lemma utf8_continue_step:
  assumes "unat c div 64 = 2" and "unat code_point < 67108864"
  shows "\<exists>w. unat w = unat code_point * 64 + unat c mod 64
    \<and> utf8_continue (Suc n) code_point (c # cursor) = utf8_continue n w cursor"
  using assms append_six_bits [of code_point c]
  by (intro exI [of _ "or (push_bit 6 code_point) (ucast (and c 0x3f))"]) (simp add: byte_bits)

lemma utf8_continue_stepD:
  assumes "utf8_continue (Suc n) code_point cursor = Some (result, rest)" and "unat code_point < 67108864"
  obtains c more w where "cursor = c # more" "unat c div 64 = 2"
    "unat w = unat code_point * 64 + unat c mod 64" "utf8_continue n w more = Some (result, rest)"
proof (cases cursor)
  case (Cons c more)
  with assms show thesis
    using that [of c more "or (push_bit 6 code_point) (ucast (and c 0x3f))"]
      append_six_bits [of code_point c]
    by (simp add: byte_bits split: if_splits)
qed (use assms in simp)

lemma quotient_split: "(x :: nat) div d = q \<Longrightarrow> 0 < d \<Longrightarrow> \<exists>a < d. x = q * d + a \<and> x mod d = a"
  by (intro exI [of _ "x mod d"]) auto

lemma last_digit: "n = x * 64 + e \<Longrightarrow> e < 64 \<Longrightarrow> n div 64 = x \<and> n mod (64 :: nat) = e"
  by simp

lemma div_digits: "(n :: nat) div 4096 = n div 64 div 64" "n div 262144 = n div 64 div 64 div 64"
  using div_mult2_eq [of n 64 64] div_mult2_eq [of n 4096 64] by simp_all

lemma codes_two:
  assumes "L div 32 = 6" and "c div 64 = 2" and "n = L mod 32 * 64 + c mod 64" and "0x80 \<le> n"
  shows "utf8_codes n = [L, c]"
proof -
  from assms(1,2) obtain a b where L: "L = 192 + a" "a < 32" "L mod 32 = a"
    and c: "c = 128 + b" "b < 64" "c mod 64 = b"
    using quotient_split [of L 32 6] quotient_split [of c 64 2] by auto
  have "n = a * 64 + b" using assms(3) by (simp only: L(3) c(3))
  from last_digit [OF this c(2)] have "n div 64 = a" "n mod 64 = b" by auto
  moreover from this L have "n < 2048" by linarith
  ultimately show ?thesis using assms(4) L(1) c(1) by (simp add: utf8_codes_def)
qed

lemma codes_three:
  assumes "L div 16 = 14" and "c div 64 = 2" and "d div 64 = 2"
    and "n = (L mod 16 * 64 + c mod 64) * 64 + d mod 64" and "0x800 \<le> n"
  shows "utf8_codes n = [L, c, d]"
proof -
  from assms(1-3) obtain a b e where L: "L = 224 + a" "a < 16" "L mod 16 = a"
    and c: "c = 128 + b" "b < 64" "c mod 64 = b" and d: "d = 128 + e" "e < 64" "d mod 64 = e"
    using quotient_split [of L 16 14] quotient_split [of c 64 2] quotient_split [of d 64 2] by auto
  have "n = (a * 64 + b) * 64 + e" using assms(4) by (simp only: L(3) c(3) d(3))
  from last_digit [OF this d(2)] have n: "n div 64 = a * 64 + b" "n mod 64 = e" by auto
  from last_digit [OF n(1) c(2)] have "n div 4096 = a" "n div 64 mod 64 = b"
    by (simp_all only: div_digits)
  moreover from this L have "n < 65536" by linarith
  ultimately show ?thesis using assms(5) L(1) c(1) d(1) n(2) by (simp add: utf8_codes_def)
qed

lemma codes_four:
  assumes "L div 8 = 30" and "c div 64 = 2" and "d div 64 = 2" and "e div 64 = 2"
    and "n = ((L mod 8 * 64 + c mod 64) * 64 + d mod 64) * 64 + e mod 64" and "0x10000 \<le> n"
  shows "utf8_codes n = [L, c, d, e]"
proof -
  from assms(1-4) obtain a b f g where L: "L = 240 + a" "L mod 8 = a"
    and c: "c = 128 + b" "b < 64" "c mod 64 = b" and d: "d = 128 + f" "f < 64" "d mod 64 = f"
    and e: "e = 128 + g" "g < 64" "e mod 64 = g"
    using quotient_split [of L 8 30] quotient_split [of c 64 2] quotient_split [of d 64 2]
      quotient_split [of e 64 2] by auto
  have "n = ((a * 64 + b) * 64 + f) * 64 + g" using assms(5) by (simp only: L(2) c(3) d(3) e(3))
  from last_digit [OF this e(2)] have n: "n div 64 = (a * 64 + b) * 64 + f" "n mod 64 = g" by auto
  from last_digit [OF n(1) d(2)] have n2: "n div 4096 = a * 64 + b" "n div 64 mod 64 = f"
    by (simp_all only: div_digits)
  from last_digit [OF n2(1) c(2)] have "n div 262144 = a" "n div 4096 mod 64 = b"
    by (simp_all only: div_digits)
  with n2 show ?thesis using assms(6) L(1) c(1) d(1) e(1) n(2) by (simp add: utf8_codes_def)
qed

text \<open>A text that starts with a lead byte above 0x7f is read as one encoded scalar value.\<close>

lemma utf8_sequence_decodes:
  assumes "utf8_sequence lead cursor = Some rest"
  shows "\<exists>n. scalar_value n \<and> lead # cursor = utf8_encode n @ rest"
proof -
  obtain code_point count result where lead: "utf8_lead lead = Some (code_point, count)"
    and run: "utf8_continue count code_point cursor = Some (result, rest)"
    and ok: "\<not> utf8_rejected count result"
    using assms by (auto simp: utf8_sequence_def split: option.splits if_splits)
  have scalar: "scalar_value (unat result)" using ok by (simp add: utf8_rejected_iff)
  have goal: ?thesis if "utf8_codes (unat result) = map unat (lead # cs)" "cursor = cs @ rest" for cs
    using scalar utf8_encodeI [OF that(1)] that(2) by (intro exI [of _ "unat result"]) simp
  consider (one) "count = 1" "unat lead div 32 = 6" "unat code_point = unat lead mod 32"
    | (two) "count = 2" "unat lead div 16 = 14" "unat code_point = unat lead mod 16"
    | (three) "count = 3" "unat lead div 8 = 30" "unat code_point = unat lead mod 8"
    using utf8_lead_cases [OF lead] by blast
  then show ?thesis
  proof cases
    case one
    from run one have run1: "utf8_continue (Suc 0) code_point cursor = Some (result, rest)" by simp
    have "unat code_point < 67108864" using one(3) by simp
    from utf8_continue_stepD [OF run1 this] obtain c1 more w1 where c1: "cursor = c1 # more"
      "unat c1 div 64 = 2" "unat w1 = unat code_point * 64 + unat c1 mod 64"
      "utf8_continue 0 w1 more = Some (result, rest)" .
    show ?thesis
      using one c1 ok by (intro goal [of "[c1]"]) (simp_all add: codes_two utf8_rejected_iff)
  next
    case two
    from run two have run2: "utf8_continue (Suc (Suc 0)) code_point cursor = Some (result, rest)"
      by (simp add: numeral_2_eq_2)
    have "unat code_point < 16" using two(3) by simp
    then have "unat code_point < 67108864" by simp
    from utf8_continue_stepD [OF run2 this] obtain c1 more w1 where c1: "cursor = c1 # more"
      "unat c1 div 64 = 2" "unat w1 = unat code_point * 64 + unat c1 mod 64"
      "utf8_continue (Suc 0) w1 more = Some (result, rest)" .
    have "unat c1 mod 64 < 64" by simp
    with c1(3) \<open>unat code_point < 16\<close> have "unat w1 < 67108864" by linarith
    from utf8_continue_stepD [OF c1(4) this] obtain c2 more' w2 where c2: "more = c2 # more'"
      "unat c2 div 64 = 2" "unat w2 = unat w1 * 64 + unat c2 mod 64"
      "utf8_continue 0 w2 more' = Some (result, rest)" .
    show ?thesis
      using two c1 c2 ok by (intro goal [of "[c1, c2]"]) (simp_all add: codes_three utf8_rejected_iff)
  next
    case three
    from run three have run3: "utf8_continue (Suc (Suc (Suc 0))) code_point cursor = Some (result, rest)"
      by (simp add: numeral_3_eq_3)
    have "unat code_point < 8" using three(3) by simp
    then have "unat code_point < 67108864" by simp
    from utf8_continue_stepD [OF run3 this] obtain c1 more w1 where c1: "cursor = c1 # more"
      "unat c1 div 64 = 2" "unat w1 = unat code_point * 64 + unat c1 mod 64"
      "utf8_continue (Suc (Suc 0)) w1 more = Some (result, rest)" .
    have "unat c1 mod 64 < 64" by simp
    with c1(3) \<open>unat code_point < 8\<close> have "unat w1 < 4096" by linarith
    then have "unat w1 < 67108864" by simp
    from utf8_continue_stepD [OF c1(4) this] obtain c2 more' w2 where c2: "more = c2 # more'"
      "unat c2 div 64 = 2" "unat w2 = unat w1 * 64 + unat c2 mod 64"
      "utf8_continue (Suc 0) w2 more' = Some (result, rest)" .
    have "unat c2 mod 64 < 64" by simp
    with c2(3) \<open>unat w1 < 4096\<close> have "unat w2 < 67108864" by linarith
    from utf8_continue_stepD [OF c2(4) this] obtain c3 more'' w3 where c3: "more' = c3 # more''"
      "unat c3 div 64 = 2" "unat w3 = unat w2 * 64 + unat c3 mod 64"
      "utf8_continue 0 w3 more'' = Some (result, rest)" .
    show ?thesis
      using three c1 c2 c3 ok
      by (intro goal [of "[c1, c2, c3]"]) (simp_all add: codes_four utf8_rejected_iff)
  qed
qed

text \<open>An encoded scalar value outside ASCII is read back, whatever follows.\<close>

lemma byte_of_nat: "k < 256 \<Longrightarrow> unat (of_nat k :: u8) = k"
  by (simp add: unat_of_nat)

lemma utf8_sequenceI:
  assumes "utf8_lead lead = Some (code_point, count)"
    and "utf8_continue count code_point cursor = Some (w, rest)" and "\<not> utf8_rejected count w"
  shows "utf8_sequence lead cursor = Some rest"
  using assms utf8_continue_length [OF assms(2)] by (simp add: utf8_sequence_def)

lemma utf8_sequence_two:
  assumes "unat lead div 32 = 6" and "unat c div 64 = 2"
    and "unat lead mod 32 * 64 + unat c mod 64 = n" and "0x80 \<le> n" and "scalar_value n"
  shows "utf8_sequence lead (c # rest) = Some rest"
proof -
  have cp: "unat (ucast (and lead 0x1f) :: u32) = unat lead mod 32"
    by (simp add: unat_ucast_up byte_bits)
  have "unat c mod 64 < 64" by simp
  with assms(3,4) have "unat lead mod 32 \<noteq> 0" by linarith
  from utf8_leadI(1) [OF assms(1) this] have lead: "utf8_lead lead = Some (ucast (and lead 0x1f), 1)" .
  have "unat (ucast (and lead 0x1f) :: u32) < 67108864" unfolding cp by simp
  from utf8_continue_step [OF assms(2) this, of 0 rest] obtain w where
    w: "unat w = n" "utf8_continue 1 (ucast (and lead 0x1f)) (c # rest) = Some (w, rest)"
    using assms(3) by (auto simp: cp)
  from lead w(2) show ?thesis
    by (rule utf8_sequenceI) (use w(1) assms(4,5) in \<open>simp add: utf8_rejected_iff\<close>)
qed

lemma utf8_sequence_three:
  assumes "unat lead div 16 = 14" and "unat c div 64 = 2" and "unat d div 64 = 2"
    and "(unat lead mod 16 * 64 + unat c mod 64) * 64 + unat d mod 64 = n"
    and "0x800 \<le> n" and "scalar_value n"
  shows "utf8_sequence lead (c # d # rest) = Some rest"
proof -
  have cp: "unat (ucast (and lead 0x0f) :: u32) = unat lead mod 16"
    by (simp add: unat_ucast_up byte_bits)
  have bounds: "unat lead mod 16 < 16" "unat c mod 64 < 64" by simp_all
  have "unat (ucast (and lead 0x0f) :: u32) < 67108864" unfolding cp by simp
  from utf8_continue_step [OF assms(2) this, of 1 "d # rest"] obtain w where
    w: "unat w = unat lead mod 16 * 64 + unat c mod 64"
      "utf8_continue 2 (ucast (and lead 0x0f)) (c # d # rest) = utf8_continue 1 w (d # rest)"
    by (auto simp: cp numeral_2_eq_2)
  have "unat w < 67108864" using w(1) bounds by linarith
  from utf8_continue_step [OF assms(3) this, of 0 rest] obtain w' where
    w': "unat w' = n" "utf8_continue 1 w (d # rest) = Some (w', rest)"
    using assms(4) w(1) by auto
  from utf8_leadI(2) [OF assms(1)] w(2) [unfolded w'(2)] show ?thesis
    by (rule utf8_sequenceI) (use w'(1) assms(5,6) in \<open>simp add: utf8_rejected_iff\<close>)
qed

lemma utf8_sequence_four:
  assumes "unat lead div 8 = 30" and "unat c div 64 = 2" and "unat d div 64 = 2"
    and "unat e div 64 = 2"
    and "((unat lead mod 8 * 64 + unat c mod 64) * 64 + unat d mod 64) * 64 + unat e mod 64 = n"
    and "0x10000 \<le> n" and "scalar_value n"
  shows "utf8_sequence lead (c # d # e # rest) = Some rest"
proof -
  have cp: "unat (ucast (and lead 0x07) :: u32) = unat lead mod 8"
    by (simp add: unat_ucast_up byte_bits)
  have bounds: "unat lead mod 8 < 8" "unat c mod 64 < 64" "unat d mod 64 < 64" by simp_all
  have "unat (ucast (and lead 0x07) :: u32) < 67108864" unfolding cp by simp
  from utf8_continue_step [OF assms(2) this, of 2 "d # e # rest"] obtain w where
    w: "unat w = unat lead mod 8 * 64 + unat c mod 64"
      "utf8_continue 3 (ucast (and lead 0x07)) (c # d # e # rest) = utf8_continue 2 w (d # e # rest)"
    by (auto simp: cp numeral_3_eq_3 numeral_2_eq_2)
  have "unat w < 512" using w(1) bounds by linarith
  then have "unat w < 67108864" by simp
  from utf8_continue_step [OF assms(3) this, of 1 "e # rest"] obtain w' where
    w': "unat w' = unat w * 64 + unat d mod 64"
      "utf8_continue 2 w (d # e # rest) = utf8_continue 1 w' (e # rest)"
    by (auto simp: numeral_2_eq_2)
  have "unat w' < 67108864" using w'(1) bounds \<open>unat w < 512\<close> by linarith
  from utf8_continue_step [OF assms(4) this, of 0 rest] obtain w'' where
    w'': "unat w'' = n" "utf8_continue 1 w' (e # rest) = Some (w'', rest)"
    using assms(5) w(1) w'(1) by auto
  from utf8_leadI(3) [OF assms(1)] w(2) [unfolded w'(2) w''(2)] show ?thesis
    by (rule utf8_sequenceI) (use w''(1) assms(6,7) in \<open>simp add: utf8_rejected_iff\<close>)
qed

lemma utf8_sequence_encodes:
  assumes "scalar_value n" and "0x80 \<le> n"
  shows "\<exists>lead cs. utf8_encode n = lead # cs \<and> \<not> lead \<le> 0x7f
    \<and> (\<forall>rest. utf8_sequence lead (cs @ rest) = Some rest)"
proof -
  have top: "n < 1114112" using assms(1) by (simp add: scalar_value_def)
  have above: "\<not> (of_nat (128 + k) :: u8) \<le> 0x7f" if "k < 128" for k
  proof -
    have "unat (of_nat (128 + k) :: u8) = 128 + k" using that by (intro byte_of_nat) simp
    then show ?thesis unfolding word_le_nat_alt by simp
  qed
  have digits: "n div 64 div 64 = n div 4096" "n div 4096 div 64 = n div 262144"
    by (simp_all only: div_digits)
  have split: "n = n div 64 * 64 + n mod 64" "n div 64 = n div 4096 * 64 + n div 64 mod 64"
    "n div 4096 = n div 262144 * 64 + n div 4096 mod 64"
    using div_mult_mod_eq [of n 64] div_mult_mod_eq [of "n div 64" 64]
      div_mult_mod_eq [of "n div 4096" 64] by (simp_all only: digits)
  have byte: "unat (of_nat (k + x) :: u8) = k + x" if "k + x < 256" for k x
    using that by (rule byte_of_nat)
  have tail: "unat (of_nat (128 + x mod 64) :: u8) div 64 = 2"
    "unat (of_nat (128 + x mod 64) :: u8) mod 64 = x mod 64" for x
  proof -
    have "(128 + x mod 64) mod 64 = x mod 64"
      using mod_mult_self3 [of 2 64 "x mod 64"] by simp
    moreover have "x mod 64 < 64" by simp
    moreover from this have "unat (of_nat (128 + x mod 64) :: u8) = 128 + x mod 64"
      by (intro byte) linarith
    ultimately show "unat (of_nat (128 + x mod 64) :: u8) div 64 = 2"
      "unat (of_nat (128 + x mod 64) :: u8) mod 64 = x mod 64"
      by simp_all
  qed
  consider "n < 0x800" | "0x800 \<le> n" "n < 0x10000" | "0x10000 \<le> n" by linarith
  then show ?thesis
  proof cases
    case 1
    let ?L = "of_nat (192 + n div 64) :: u8"
    have bound: "n div 64 < 32" using 1 by (simp add: less_mult_imp_div_less)
    moreover from this have "unat ?L = 192 + n div 64" by (intro byte) linarith
    ultimately have L: "unat ?L div 32 = 6" "unat ?L mod 32 = n div 64"
      using mod_mult_self3 [of 6 32 "n div 64"] by simp_all
    have "utf8_sequence ?L (of_nat (128 + n mod 64) # rest) = Some rest" for rest
      by (rule utf8_sequence_two [where n = n]) (simp_all only: L tail assms flip: split)
    moreover have "utf8_encode n = [?L, of_nat (128 + n mod 64)]"
      using 1 assms(2) by (simp add: utf8_encode_def utf8_codes_def)
    moreover have "\<not> ?L \<le> 0x7f" using above [of "64 + n div 64"] bound by simp
    ultimately show ?thesis by auto
  next
    case 2
    let ?L = "of_nat (224 + n div 4096) :: u8"
    have bound: "n div 4096 < 16" using 2 by (simp add: less_mult_imp_div_less)
    moreover from this have "unat ?L = 224 + n div 4096" by (intro byte) linarith
    ultimately have L: "unat ?L div 16 = 14" "unat ?L mod 16 = n div 4096"
      using mod_mult_self3 [of 14 16 "n div 4096"] by simp_all
    have "utf8_sequence ?L (of_nat (128 + n div 64 mod 64) # of_nat (128 + n mod 64) # rest) = Some rest"
      for rest
      by (rule utf8_sequence_three [where n = n]) (simp_all only: L tail assms 2 flip: split)
    moreover have "utf8_encode n = [?L, of_nat (128 + n div 64 mod 64), of_nat (128 + n mod 64)]"
      using 2 by (simp add: utf8_encode_def utf8_codes_def)
    moreover have "\<not> ?L \<le> 0x7f" using above [of "96 + n div 4096"] bound by simp
    ultimately show ?thesis by auto
  next
    case 3
    let ?L = "of_nat (240 + n div 262144) :: u8"
    have bound: "n div 262144 < 8" using top by (simp add: less_mult_imp_div_less)
    moreover from this have "unat ?L = 240 + n div 262144" by (intro byte) linarith
    ultimately have L: "unat ?L div 8 = 30" "unat ?L mod 8 = n div 262144"
      using mod_mult_self3 [of 30 8 "n div 262144"] by simp_all
    have "utf8_sequence ?L (of_nat (128 + n div 4096 mod 64) # of_nat (128 + n div 64 mod 64)
        # of_nat (128 + n mod 64) # rest) = Some rest" for rest
      by (rule utf8_sequence_four [where n = n]) (simp_all only: L tail assms 3 flip: split)
    moreover have "utf8_encode n = [?L, of_nat (128 + n div 4096 mod 64),
        of_nat (128 + n div 64 mod 64), of_nat (128 + n mod 64)]"
      using 3 by (simp add: utf8_encode_def utf8_codes_def)
    moreover have "\<not> ?L \<le> 0x7f" using above [of "112 + n div 262144"] bound by simp
    ultimately show ?thesis by auto
  qed
qed

section \<open>The test and the reference agree\<close>

lemma IsValidUtf8_decodes:
  "IsValidUtf8 s \<Longrightarrow> \<exists>ns. list_all scalar_value ns \<and> s = utf8_text ns"
proof (induction s rule: length_induct)
  case (1 s)
  show ?case
  proof (cases s)
    case Nil
    then show ?thesis by (intro exI [of _ "[]"]) (simp add: utf8_text_def)
  next
    case (Cons lead cursor)
    obtain n rest where n: "scalar_value n" "s = utf8_encode n @ rest" "IsValidUtf8 rest"
      "length rest < length s"
    proof (cases "lead \<le> 0x7f")
      case True
      then have "unat lead < 128" by (simp add: word_le_nat_alt)
      then have "scalar_value (unat lead)" "utf8_encode (unat lead) = [lead]"
        by (simp_all add: scalar_value_def utf8_encode_def utf8_codes_def)
      with True Cons 1(2) show thesis by (intro that [of "unat lead" cursor]) simp_all
    next
      case False
      with Cons 1(2) obtain rest where rest: "utf8_sequence lead cursor = Some rest" "IsValidUtf8 rest"
        by (auto split: option.splits)
      obtain n where n: "scalar_value n" "lead # cursor = utf8_encode n @ rest"
        using utf8_sequence_decodes [OF rest(1)] by blast
      have "length rest < length s" using Cons utf8_sequence_length [OF rest(1)] by simp
      with Cons rest(2) n show thesis by (intro that [of n rest]) simp_all
    qed
    from 1(1) n obtain ns where "list_all scalar_value ns" "rest = utf8_text ns" by blast
    with n show ?thesis by (intro exI [of _ "n # ns"]) (simp add: utf8_text_def)
  qed
qed

lemma IsValidUtf8_encodes:
  "list_all scalar_value ns \<Longrightarrow> IsValidUtf8 (utf8_text ns)"
proof (induction ns)
  case Nil
  then show ?case by (simp add: utf8_text_def)
next
  case (Cons n ns)
  have text_Cons: "utf8_text (n # ns) = utf8_encode n @ utf8_text ns" by (simp add: utf8_text_def)
  show ?case
  proof (cases "n < 0x80")
    case True
    then have "utf8_encode n = [of_nat n]" "(of_nat n :: u8) \<le> 0x7f"
      by (simp_all add: utf8_encode_def utf8_codes_def word_le_nat_alt unat_of_nat)
    with Cons show ?thesis by (simp add: text_Cons)
  next
    case False
    with Cons.prems obtain lead cs where "utf8_encode n = lead # cs" "\<not> lead \<le> 0x7f"
      "\<forall>rest. utf8_sequence lead (cs @ rest) = Some rest"
      using utf8_sequence_encodes [of n] by auto
    with Cons show ?thesis by (simp add: text_Cons)
  qed
qed

theorem utf8_test_is_exact:
  "IsValidUtf8 s \<longleftrightarrow> (\<exists>ns. list_all scalar_value ns \<and> s = utf8_text ns)"
  using IsValidUtf8_decodes IsValidUtf8_encodes by blast

end
