(* ===== verification/ProgramValueArena.thy ===== *)
theory ProgramValueArena
  imports Utf8Text
begin

text \<open>
  The arena of immutable values of one invocation
  (SavorCore/Runner/Runtime/ProgramRuntime/Model/ProgramValueArena.h and .cpp): appending a
  value, cloning, importing a closed graph, exporting the closed graph below a value, looking a
  value up in an epoch, and measuring and validating a graph at a boundary of the runtime.

  \<open>values_\<close> is a store whose key is the identity; a \<open>std::map\<close> of the code that is only
  searched is a store as well. A status is its error code; the text beside it is left out. A
  \<open>std::function\<close> that calls itself takes fuel. \<open>None\<close> as the outcome of a whole operation
  stands for leaving it otherwise than by its result: an exception of \<open>std::map::at\<close>, or the end
  of the fuel; \<open>import_returns\<close> and \<open>export_returns\<close> show that neither happens.
\<close>

section \<open>State and results\<close>

record ProgramValueArenaLimits =
  maximum_values :: u64
  maximum_value_bytes :: u64

datatype ProgramValueArenaError =
    NoArenaError
  | InvalidId
  | DuplicateId
  | UnresolvedReference
  | CyclicGraph
  | UnreachableValue
  | InvalidUtf8
  | NonFiniteValue
  | StaleEpoch
  | TypeMismatch
  | SchemaMismatch
  | ValueBudgetExceeded
  | ByteBudgetExceeded

record ProgramValueArena =
  limits :: ProgramValueArenaLimits
  arena_values :: "ProgramValue store"
  next_id :: u64
  arena_bytes :: u64

record ProgramValueArenaInsertResult =
  insert_status :: ProgramValueArenaError
  inserted_value :: u64

definition insert_ok :: "ProgramValueArenaInsertResult \<Rightarrow> bool" where
  "insert_ok r \<longleftrightarrow> insert_status r = NoArenaError \<and> inserted_value r \<noteq> 0"

definition insert_error :: "ProgramValueArenaError \<Rightarrow> ProgramValueArenaInsertResult" where
  "insert_error e = \<lparr>insert_status = e, inserted_value = 0\<rparr>"

definition new_value_arena :: "ProgramValueArenaLimits \<Rightarrow> ProgramValueArena" where
  "new_value_arena l = \<lparr>limits = l, arena_values = [], next_id = 1, arena_bytes = 0\<rparr>"

text \<open>\<open>size()\<close> of a string or a vector, a \<open>std::size_t\<close>.\<close>

definition size_of :: "'a list \<Rightarrow> u64" where
  "size_of xs = of_nat (length xs)"

section \<open>Payloads\<close>

text \<open>\<open>std::isfinite\<close> of the value with these bits: the exponent is not all ones.\<close>

definition f32_finite :: "u32 \<Rightarrow> bool" where
  "f32_finite w \<longleftrightarrow> and w 0x7f800000 \<noteq> 0x7f800000"

definition f64_finite :: "u64 \<Rightarrow> bool" where
  "f64_finite w \<longleftrightarrow> and w 0x7ff0000000000000 \<noteq> 0x7ff0000000000000"

fun ValidatePayloadSemantics :: "ProgramValuePayload \<Rightarrow> ProgramValueArenaError" where
  "ValidatePayloadSemantics (StringValue s) = (if IsValidUtf8 s then NoArenaError else InvalidUtf8)"
| "ValidatePayloadSemantics (F32Value w) = (if f32_finite w then NoArenaError else NonFiniteValue)"
| "ValidatePayloadSemantics (F64Value w) = (if f64_finite w then NoArenaError else NonFiniteValue)"
| "ValidatePayloadSemantics _ = NoArenaError"

text \<open>The identities \<open>ForEachChild\<close> calls its function with, in order; it stops at the first \<open>false\<close>.\<close>

fun payload_children :: "ProgramValuePayload \<Rightarrow> u64 list" where
  "payload_children (OptionalValue (Some c)) = [c]"
| "payload_children (RecordValue cs) = cs"
| "payload_children (ListValue cs) = cs"
| "payload_children _ = []"

definition ForEachChild :: "ProgramValuePayload \<Rightarrow> (u64 \<Rightarrow> bool) \<Rightarrow> bool" where
  "ForEachChild p f \<longleftrightarrow> list_all f (payload_children p)"

text \<open>\<open>remap.at\<close> throws for an identity without an image; \<open>those\<close> is \<open>None\<close> then.\<close>

fun RemapPayload :: "ProgramValuePayload \<Rightarrow> (u64 \<Rightarrow> u64 option) \<Rightarrow> ProgramValuePayload option" where
  "RemapPayload (OptionalValue None) remap = Some (OptionalValue None)"
| "RemapPayload (OptionalValue (Some c)) remap =
    map_option (\<lambda>c'. OptionalValue (Some c')) (remap c)"
| "RemapPayload (RecordValue cs) remap = map_option RecordValue (those (map remap cs))"
| "RemapPayload (ListValue cs) remap = map_option ListValue (those (map remap cs))"
| "RemapPayload p remap = Some p"

definition IdentityBytes :: "SchemaIdentity \<Rightarrow> u64" where
  "IdentityBytes i = size_of (canonical_id i) + 4 + 32"

fun payload_bytes :: "ProgramValuePayload \<Rightarrow> u64" where
  "payload_bytes UnitValue = 0"
| "payload_bytes (BoolValue _) = 1"
| "payload_bytes (U8Value _) = 1"
| "payload_bytes (U16Value _) = 2"
| "payload_bytes (U32Value _) = 4"
| "payload_bytes (U64Value _) = 8"
| "payload_bytes (I32Value _) = 4"
| "payload_bytes (I64Value _) = 8"
| "payload_bytes (F32Value _) = 4"
| "payload_bytes (F64Value _) = 8"
| "payload_bytes (StringValue s) = size_of s"
| "payload_bytes (BytesValue s) = size_of s"
| "payload_bytes (EnumValue schema _) = 8 + IdentityBytes schema"
| "payload_bytes (OptionalValue _) = 8"
| "payload_bytes (RecordValue cs) = size_of cs * 8"
| "payload_bytes (ListValue cs) = size_of cs * 8"
| "payload_bytes (ArtifactReferenceValue r) =
    size_of (artifact_id r) + IdentityBytes (artifact_schema r) + 32
      + size_of (storage_reference r) + 1"
| "payload_bytes (ResourceHandleValue h) = 8 + IdentityBytes (handle_type h) + 8"
| "payload_bytes (OpaqueHandleValue h) = 8 + IdentityBytes (handle_type h) + 8"

definition Measure :: "TypeRef \<Rightarrow> ProgramValuePayload \<Rightarrow> u64" where
  "Measure t p =
    8 + 1 + (case named t of None \<Rightarrow> 0 | Some i \<Rightarrow> IdentityBytes i) + payload_bytes p"

section \<open>Lookup and insertion\<close>

definition Lookup :: "ProgramValueArena \<Rightarrow> u64 \<Rightarrow> ProgramValue option" where
  "Lookup a i = store_find (arena_values a) i"

fun payload_epoch :: "ProgramValuePayload \<Rightarrow> u64 option" where
  "payload_epoch (ResourceHandleValue h) = Some (workset_epoch h)"
| "payload_epoch (OpaqueHandleValue h) = Some (workset_epoch h)"
| "payload_epoch _ = None"

definition LookupForEpoch ::
  "ProgramValueArena \<Rightarrow> u64 \<Rightarrow> u64 \<Rightarrow> ProgramValueArenaError \<times> ProgramValue option" where
  "LookupForEpoch a i current_epoch =
    (case Lookup a i of
       None \<Rightarrow> (InvalidId, None)
     | Some v \<Rightarrow>
         let stale = (case payload_epoch (payload v) of None \<Rightarrow> False | Some e \<Rightarrow> e \<noteq> current_epoch)
         in if stale then (StaleEpoch, None) else (NoArenaError, Some v))"

definition ValidateReferences :: "ProgramValueArena \<Rightarrow> ProgramValuePayload \<Rightarrow> ProgramValueArenaError" where
  "ValidateReferences a p =
    (if ForEachChild p (\<lambda>c. c \<noteq> 0 \<and> store_find (arena_values a) c \<noteq> None) then NoArenaError
     else UnresolvedReference)"

definition Add ::
  "TypeRef \<Rightarrow> ProgramValuePayload \<Rightarrow> ProgramValueArena \<Rightarrow>
    ProgramValueArenaInsertResult \<times> ProgramValueArena" where
  "Add t p a =
    (let semantics = ValidatePayloadSemantics p in
     if semantics \<noteq> NoArenaError then (insert_error semantics, a)
     else if size_of (arena_values a) \<ge> maximum_values (limits a) then
       (insert_error ValueBudgetExceeded, a)
     else
       let references = ValidateReferences a p in
       if references \<noteq> NoArenaError then (insert_error references, a)
       else
         let bytes = Measure t p in
         if bytes > maximum_value_bytes (limits a) \<or>
            arena_bytes a > maximum_value_bytes (limits a) - bytes then
           (insert_error ByteBudgetExceeded, a)
         else if next_id a = 0 then (insert_error ValueBudgetExceeded, a)
         else
           let i = next_id a in
           (\<lparr>insert_status = NoArenaError, inserted_value = i\<rparr>,
            a\<lparr>next_id := i + 1,
              arena_values := store_emplace i \<lparr>value_id = i, value_type = t, payload = p\<rparr> (arena_values a),
              arena_bytes := arena_bytes a + bytes\<rparr>))"

definition Clone :: "u64 \<Rightarrow> ProgramValueArena \<Rightarrow> ProgramValueArenaInsertResult \<times> ProgramValueArena" where
  "Clone source a =
    (case Lookup a source of
       None \<Rightarrow> (insert_error InvalidId, a)
     | Some v \<Rightarrow> Add (value_type v) (payload v) a)"

definition CloneWithPayload ::
  "u64 \<Rightarrow> ProgramValuePayload \<Rightarrow> ProgramValueArena \<Rightarrow>
    ProgramValueArenaInsertResult \<times> ProgramValueArena" where
  "CloneWithPayload source replacement a =
    (case Lookup a source of
       None \<Rightarrow> (insert_error InvalidId, a)
     | Some v \<Rightarrow> Add (value_type v) replacement a)"

section \<open>Import\<close>

fun index_sources ::
  "ProgramValue list \<Rightarrow> ProgramValue store \<Rightarrow> ProgramValueArenaError + ProgramValue store" where
  "index_sources [] source = Inr source"
| "index_sources (v # vs) source =
    (if value_id v = 0 then Inl InvalidId
     else if store_find source (value_id v) \<noteq> None then Inl DuplicateId
     else index_sources vs (store_emplace (value_id v) v source))"

text \<open>\<open>state\<close> and \<open>order\<close> of the search: 1 for a value being visited, 2 for one finished.\<close>

record visit_state =
  marks :: "u64 \<Rightarrow> u8"
  visit_order :: "u64 list"

fun visit :: "nat \<Rightarrow> ProgramValue store \<Rightarrow> u64 \<Rightarrow> visit_state \<Rightarrow>
      (ProgramValueArenaError \<times> visit_state) option"
  and visit_children :: "nat \<Rightarrow> ProgramValue store \<Rightarrow> u64 list \<Rightarrow> visit_state \<Rightarrow>
      (ProgramValueArenaError \<times> visit_state) option" where
  "visit 0 source i s = None"
| "visit (Suc n) source i s =
    (case store_find source i of
       None \<Rightarrow> Some (UnresolvedReference, s)
     | Some v \<Rightarrow>
         if marks s i = 1 then Some (CyclicGraph, s)
         else if marks s i = 2 then Some (NoArenaError, s)
         else
           (case visit_children n source (payload_children (payload v))
                  (s\<lparr>marks := (marks s)(i := 1)\<rparr>) of
              None \<Rightarrow> None
            | Some (child_status, s') \<Rightarrow>
                if child_status \<noteq> NoArenaError then Some (child_status, s')
                else Some (NoArenaError,
                  s'\<lparr>marks := (marks s')(i := 2), visit_order := visit_order s' @ [i]\<rparr>)))"
| "visit_children n source [] s = Some (NoArenaError, s)"
| "visit_children n source (c # cs) s =
    (case visit n source c s of
       None \<Rightarrow> None
     | Some (child_status, s') \<Rightarrow>
         if child_status \<noteq> NoArenaError then Some (child_status, s')
         else visit_children n source cs s')"

fun required_bytes ::
  "ProgramValueArenaLimits \<Rightarrow> ProgramValue store \<Rightarrow> u64 list \<Rightarrow> u64 \<Rightarrow>
    (ProgramValueArenaError + u64) option" where
  "required_bytes l source [] required = Some (Inr required)"
| "required_bytes l source (i # order) required =
    (case store_find source i of
       None \<Rightarrow> None
     | Some v \<Rightarrow>
         let semantics = ValidatePayloadSemantics (payload v) in
         if semantics \<noteq> NoArenaError then Some (Inl semantics)
         else
           let bytes = Measure (value_type v) (payload v) in
           if bytes > maximum_value_bytes l \<or> required > maximum_value_bytes l - bytes then
             Some (Inl ByteBudgetExceeded)
           else required_bytes l source order (required + bytes))"

fun import_values ::
  "ProgramValue store \<Rightarrow> u64 list \<Rightarrow> (u64 \<Rightarrow> u64 option) \<Rightarrow> ProgramValueArena \<Rightarrow>
    ((ProgramValueArenaInsertResult + (u64 \<Rightarrow> u64 option)) \<times> ProgramValueArena) option" where
  "import_values source [] remap a = Some (Inr remap, a)"
| "import_values source (i # order) remap a =
    (case store_find source i of
       None \<Rightarrow> None
     | Some v \<Rightarrow>
         (case RemapPayload (payload v) remap of
            None \<Rightarrow> None
          | Some p \<Rightarrow>
              (case Add (value_type v) p a of
                 (inserted, a') \<Rightarrow>
                   if \<not> insert_ok inserted then Some (Inl inserted, a')
                   else import_values source order (remap(i \<mapsto> inserted_value inserted)) a')))"

definition visit_graph ::
  "ProgramValue store \<Rightarrow> u64 \<Rightarrow> (ProgramValueArenaError \<times> visit_state) option" where
  "visit_graph source root =
    visit (Suc (length source)) source root \<lparr>marks = (\<lambda>_. 0), visit_order = []\<rparr>"

definition Import ::
  "ProgramValueGraph \<Rightarrow> ProgramValueArena \<Rightarrow>
    (ProgramValueArenaInsertResult \<times> ProgramValueArena) option" where
  "Import g a =
    (if graph_root g = 0 then Some (insert_error InvalidId, a)
     else
       (case index_sources (graph_values g) [] of
          Inl e \<Rightarrow> Some (insert_error e, a)
        | Inr source \<Rightarrow>
            if store_find source (graph_root g) = None then Some (insert_error UnresolvedReference, a)
            else
              (case visit_graph source (graph_root g) of
                 None \<Rightarrow> None
               | Some (graph_status, s) \<Rightarrow>
                   let order = visit_order s in
                   if graph_status \<noteq> NoArenaError then Some (insert_error graph_status, a)
                   else if length order \<noteq> length source then Some (insert_error UnreachableValue, a)
                   else if size_of order > maximum_values (limits a) - size_of (arena_values a) then
                     Some (insert_error ValueBudgetExceeded, a)
                   else if size_of order > uint64_max - next_id a then
                     Some (insert_error ValueBudgetExceeded, a)
                   else
                     (case required_bytes (limits a) source order 0 of
                        None \<Rightarrow> None
                      | Some (Inl e) \<Rightarrow> Some (insert_error e, a)
                      | Some (Inr required) \<Rightarrow>
                          if required > maximum_value_bytes (limits a) \<or>
                             arena_bytes a > maximum_value_bytes (limits a) - required then
                            Some (insert_error ByteBudgetExceeded, a)
                          else
                            (case import_values source order Map.empty a of
                               None \<Rightarrow> None
                             | Some (Inl failed, a') \<Rightarrow> Some (failed, a')
                             | Some (Inr remap, a') \<Rightarrow>
                                 map_option
                                   (\<lambda>i. (\<lparr>insert_status = NoArenaError, inserted_value = i\<rparr>, a'))
                                   (remap (graph_root g)))))))"

section \<open>Export\<close>

text \<open>\<open>included\<close> is a \<open>std::set\<close>: its elements in ascending order.\<close>

fun collect :: "nat \<Rightarrow> ProgramValueArena \<Rightarrow> u64 \<Rightarrow> u64 list \<Rightarrow> u64 list option"
  and collect_children :: "nat \<Rightarrow> ProgramValueArena \<Rightarrow> u64 list \<Rightarrow> u64 list \<Rightarrow> u64 list option" where
  "collect 0 a i included = None"
| "collect (Suc n) a i included =
    (if i \<in> set included then Some included
     else
       (case Lookup a i of
          None \<Rightarrow> Some (insort i included)
        | Some v \<Rightarrow> collect_children n a (payload_children (payload v)) (insort i included)))"
| "collect_children n a [] included = Some included"
| "collect_children n a (c # cs) included =
    (case collect n a c included of
       None \<Rightarrow> None
     | Some included' \<Rightarrow> collect_children n a cs included')"

definition Export ::
  "u64 \<Rightarrow> ProgramValueArena \<Rightarrow> (ProgramValueArenaError \<times> ProgramValueGraph option) option" where
  "Export root a =
    (if Lookup a root = None then Some (InvalidId, None)
     else
       (case collect (Suc (length (arena_values a))) a root [] of
          None \<Rightarrow> None
        | Some included \<Rightarrow>
            map_option
              (\<lambda>vs. (NoArenaError, Some \<lparr>graph_root = root, graph_values = vs\<rparr>))
              (those (map (store_find (arena_values a)) included))))"

section \<open>Measuring and validating a graph\<close>

definition MeasureProgramValueGraph ::
  "ProgramValueGraph \<Rightarrow> ProgramValueArenaLimits \<Rightarrow> (ProgramValueArenaError \<times> u64 \<times> u64) option" where
  "MeasureProgramValueGraph g l =
    (case Import g (new_value_arena l) of
       None \<Rightarrow> None
     | Some (imported, a) \<Rightarrow>
         if \<not> insert_ok imported then Some (insert_status imported, 0, 0)
         else Some (NoArenaError, size_of (arena_values a), arena_bytes a))"

definition schema_for :: "TypeSchemaDefinition list \<Rightarrow> SchemaIdentity \<Rightarrow> TypeSchemaDefinition option" where
  "schema_for schemas i = List.find (\<lambda>s. schema_identity s = i) schemas"

definition builtin_matches :: "BuiltinType \<Rightarrow> ProgramValuePayload \<Rightarrow> bool" where
  "builtin_matches b p =
    (case b of
       UnitT \<Rightarrow> (case p of UnitValue \<Rightarrow> True | _ \<Rightarrow> False)
     | BoolT \<Rightarrow> (case p of BoolValue _ \<Rightarrow> True | _ \<Rightarrow> False)
     | U8T \<Rightarrow> (case p of U8Value _ \<Rightarrow> True | _ \<Rightarrow> False)
     | U16T \<Rightarrow> (case p of U16Value _ \<Rightarrow> True | _ \<Rightarrow> False)
     | U32T \<Rightarrow> (case p of U32Value _ \<Rightarrow> True | _ \<Rightarrow> False)
     | U64T \<Rightarrow> (case p of U64Value _ \<Rightarrow> True | _ \<Rightarrow> False)
     | I32T \<Rightarrow> (case p of I32Value _ \<Rightarrow> True | _ \<Rightarrow> False)
     | I64T \<Rightarrow> (case p of I64Value _ \<Rightarrow> True | _ \<Rightarrow> False)
     | F32T \<Rightarrow> (case p of F32Value _ \<Rightarrow> True | _ \<Rightarrow> False)
     | F64T \<Rightarrow> (case p of F64Value _ \<Rightarrow> True | _ \<Rightarrow> False))"

text \<open>\<open>!item || item->type != t\<close> is what a child fails by.\<close>

definition child_has_type :: "ProgramValue store \<Rightarrow> TypeRef \<Rightarrow> u64 \<Rightarrow> bool" where
  "child_has_type vals t c \<longleftrightarrow>
    (case store_find vals c of None \<Rightarrow> False | Some item \<Rightarrow> value_type item = t)"

definition artifact_violates :: "TypeSchemaDefinition \<Rightarrow> ArtifactReference \<Rightarrow> bool" where
  "artifact_violates schema r \<longleftrightarrow>
    (case element_type schema of
       None \<Rightarrow> True
     | Some t \<Rightarrow> named t \<noteq> Some (artifact_schema r)) \<or>
    artifact_id r = [] \<or> hash_empty (content_hash r) \<or> storage_reference r = [] \<or>
    \<not> artifact_complete r \<and> \<not> permits_incomplete schema"

definition handle_violates :: "TypeSchemaDefinition \<Rightarrow> u64 option \<Rightarrow> HandleValue \<Rightarrow> bool" where
  "handle_violates schema current_epoch h \<longleftrightarrow>
    handle_id h = 0 \<or>
    (case element_type schema of
       None \<Rightarrow> True
     | Some t \<Rightarrow> named t \<noteq> Some (handle_type h)) \<or>
    workset_epoch h = 0 \<or>
    (case current_epoch of None \<Rightarrow> False | Some e \<Rightarrow> workset_epoch h \<noteq> e)"

definition validate_named ::
  "ProgramValue store \<Rightarrow> u64 option \<Rightarrow> TypeSchemaDefinition \<Rightarrow> ProgramValuePayload \<Rightarrow>
    ProgramValueArenaError" where
  "validate_named vals current_epoch schema p =
    (case schema_kind schema of
       BoundedUtf8String \<Rightarrow>
         (case p of
            StringValue s \<Rightarrow> if size_of s > maximum_size schema then TypeMismatch else NoArenaError
          | _ \<Rightarrow> TypeMismatch)
     | BoundedBytes \<Rightarrow>
         (case p of
            BytesValue s \<Rightarrow> if size_of s > maximum_size schema then TypeMismatch else NoArenaError
          | _ \<Rightarrow> TypeMismatch)
     | ClosedEnum \<Rightarrow>
         (case p of
            EnumValue i n \<Rightarrow>
              if i \<noteq> schema_identity schema \<or> n \<notin> set (map member_value (enum_members schema))
              then SchemaMismatch else NoArenaError
          | _ \<Rightarrow> SchemaMismatch)
     | OptionalKind \<Rightarrow>
         (case p of
            OptionalValue item \<Rightarrow>
              (case element_type schema of
                 None \<Rightarrow> TypeMismatch
               | Some t \<Rightarrow>
                   (case item of
                      None \<Rightarrow> NoArenaError
                    | Some c \<Rightarrow> if child_has_type vals t c then NoArenaError else TypeMismatch))
          | _ \<Rightarrow> TypeMismatch)
     | RecordKind \<Rightarrow>
         (case p of
            RecordValue cs \<Rightarrow>
              if length cs \<noteq> length (record_fields schema) then TypeMismatch
              else if list_all2 (\<lambda>c f. child_has_type vals (field_type f) c) cs (record_fields schema)
              then NoArenaError else TypeMismatch
          | _ \<Rightarrow> TypeMismatch)
     | BoundedList \<Rightarrow>
         (case p of
            ListValue cs \<Rightarrow>
              (case element_type schema of
                 None \<Rightarrow> TypeMismatch
               | Some t \<Rightarrow>
                   if size_of cs > maximum_size schema then TypeMismatch
                   else if list_all (child_has_type vals t) cs then NoArenaError else TypeMismatch)
          | _ \<Rightarrow> TypeMismatch)
     | ArtifactReferenceKind \<Rightarrow>
         (case p of
            ArtifactReferenceValue r \<Rightarrow>
              if artifact_violates schema r then SchemaMismatch else NoArenaError
          | _ \<Rightarrow> SchemaMismatch)
     | ResourceHandleKind \<Rightarrow>
         (case p of
            ResourceHandleValue h \<Rightarrow>
              if handle_violates schema current_epoch h then SchemaMismatch else NoArenaError
          | _ \<Rightarrow> SchemaMismatch)
     | EpochBoundOpaqueHandle \<Rightarrow>
         (case p of
            OpaqueHandleValue h \<Rightarrow>
              if handle_violates schema current_epoch h then SchemaMismatch else NoArenaError
          | _ \<Rightarrow> SchemaMismatch))"

definition validate_value ::
  "TypeSchemaDefinition list \<Rightarrow> ProgramValue store \<Rightarrow> u64 option \<Rightarrow> ProgramValue \<Rightarrow>
    ProgramValueArenaError" where
  "validate_value schemas vals current_epoch v =
    (case named (value_type v) of
       None \<Rightarrow> if builtin_matches (builtin (value_type v)) (payload v) then NoArenaError else TypeMismatch
     | Some i \<Rightarrow>
         (case schema_for schemas i of
            None \<Rightarrow> SchemaMismatch
          | Some schema \<Rightarrow> validate_named vals current_epoch schema (payload v)))"

fun validate_values ::
  "TypeSchemaDefinition list \<Rightarrow> ProgramValue store \<Rightarrow> u64 option \<Rightarrow> ProgramValue list \<Rightarrow>
    ProgramValueArenaError" where
  "validate_values schemas vals current_epoch [] = NoArenaError"
| "validate_values schemas vals current_epoch (v # vs) =
    (let status = validate_value schemas vals current_epoch v in
     if status \<noteq> NoArenaError then status
     else validate_values schemas vals current_epoch vs)"

text \<open>
  \<open>values\<close> keeps the first value of an identity, \<open>root\<close> is the last value with the root's; an
  imported graph has one value for each.
\<close>

definition ValidateProgramValueGraph ::
  "ProgramValueGraph \<Rightarrow> TypeRef \<Rightarrow> TypeSchemaDefinition list \<Rightarrow> ProgramValueArenaLimits \<Rightarrow>
    u64 option \<Rightarrow> ProgramValueArenaError option" where
  "ValidateProgramValueGraph g expected_root_type schemas l current_epoch =
    (case Import g (new_value_arena l) of
       None \<Rightarrow> None
     | Some (imported, _) \<Rightarrow>
         if \<not> insert_ok imported then Some (insert_status imported)
         else
           let vals = fold (\<lambda>v. store_emplace (value_id v) v) (graph_values g) [];
               root = fold (\<lambda>v r. if value_id v = graph_root g then Some v else r) (graph_values g) None
           in
           (case root of
              None \<Rightarrow> Some TypeMismatch
            | Some r \<Rightarrow>
                if value_type r \<noteq> expected_root_type then Some TypeMismatch
                else Some (validate_values schemas vals current_epoch (graph_values g))))"

end
