(* ===== verification/ValueDenotation.thy ===== *)
theory ValueDenotation
  imports ProgramValueArena
begin

text \<open>
  What a value of the arena means, and what every arena satisfies. The abstract specification of
  a graph of values is a tree: identities are gone, each node has its type, its payload without
  the identities, and the trees of its children. An arena's values refer to older values only, so
  every value of it has exactly one tree, and appending a value leaves every tree as it is.
\<close>

section \<open>Trees\<close>

fun payload_shape :: "ProgramValuePayload \<Rightarrow> ProgramValuePayload" where
  "payload_shape (OptionalValue c) = OptionalValue (map_option (\<lambda>_. 0) c)"
| "payload_shape (RecordValue cs) = RecordValue (map (\<lambda>_. 0) cs)"
| "payload_shape (ListValue cs) = ListValue (map (\<lambda>_. 0) cs)"
| "payload_shape p = p"

datatype value_tree =
  ValueTree (tree_type: TypeRef) (tree_shape: ProgramValuePayload) (tree_children: "value_tree list")

type_synonym value_lookup = "u64 \<Rightarrow> ProgramValue option"

inductive denotes :: "value_lookup \<Rightarrow> u64 \<Rightarrow> value_tree \<Rightarrow> bool" for look :: value_lookup where
  denotesI: "look i = Some v \<Longrightarrow> list_all2 (denotes look) (payload_children (payload v)) ts \<Longrightarrow>
    denotes look i (ValueTree (value_type v) (payload_shape (payload v)) ts)"

inductive_cases denotesE: "denotes look i t"

inductive_simps denotes_iff: "denotes look i (ValueTree t p ts)"

lemma denotes_unique: "denotes look i t \<Longrightarrow> denotes look i u \<Longrightarrow> t = u"
proof (induction i t arbitrary: u rule: denotes.induct)
  case (denotesI i v ts)
  from denotesI.prems denotesI.hyps obtain us where
    u: "u = ValueTree (value_type v) (payload_shape (payload v)) us"
    and us: "list_all2 (denotes look) (payload_children (payload v)) us"
    by (auto elim: denotesE)
  have "list_all2 (\<lambda>c t. denotes look c t \<and> (\<forall>x. denotes look c x \<longrightarrow> t = x))
      (payload_children (payload v)) ts"
    using denotesI.IH by (rule list_all2_mono) blast
  with us have "ts = us"
    by (auto simp: list_all2_conv_all_nth intro!: nth_equalityI)
  with u show ?case by simp
qed

lemma denotes_mono:
  assumes "denotes look i t" and "\<And>j v. look j = Some v \<Longrightarrow> look' j = Some v"
  shows "denotes look' i t"
  using assms(1)
proof (induction i t rule: denotes.induct)
  case (denotesI i v ts)
  then show ?case
    by (intro denotes.denotesI) (auto simp: assms(2) elim: list_all2_mono)
qed

lemma denotes_child:
  assumes "denotes look i t" and "look i = Some v" and "c \<in> set (payload_children (payload v))"
  obtains u where "denotes look c u" "size u < size t"
proof -
  from assms(1,2) obtain ts where ts: "t = ValueTree (value_type v) (payload_shape (payload v)) ts"
    "list_all2 (denotes look) (payload_children (payload v)) ts"
    by (auto elim: denotesE)
  from assms(3) obtain k where k: "k < length (payload_children (payload v))"
    "payload_children (payload v) ! k = c" by (auto simp: in_set_conv_nth)
  have "ts ! k \<in> set ts" "denotes look c (ts ! k)"
    using k list_all2_nthD [OF ts(2) k(1)] list_all2_lengthD [OF ts(2)] by auto
  then obtain u where "u \<in> set ts" "denotes look c u" by blast
  moreover have "size u < size t"
    using size_list_estimation' [of u ts "size u" size] \<open>u \<in> set ts\<close> ts(1) by simp
  ultimately show thesis using that by blast
qed

section \<open>Payload operations\<close>

lemma payload_children_RemapPayload:
  "RemapPayload p remap = Some q \<Longrightarrow> those (map remap (payload_children p)) = Some (payload_children q)"
  by (cases "(p, remap)" rule: RemapPayload.cases) auto

lemma RemapPayload_total:
  assumes "\<forall>c \<in> set (payload_children p). remap c \<noteq> None"
  shows "RemapPayload p remap \<noteq> None"
proof -
  have "those (map remap cs) \<noteq> None" if "\<forall>c \<in> set cs. remap c \<noteq> None" for cs
    using that by (induction cs) auto
  with assms show ?thesis by (cases "(p, remap)" rule: RemapPayload.cases) auto
qed

lemma those_SomeD: "those (map f xs) = Some ys \<Longrightarrow> list_all2 (\<lambda>x y. f x = Some y) xs ys"
  by (induction xs arbitrary: ys) (auto split: option.splits)

lemma RemapPayload_same:
  assumes "RemapPayload p remap = Some q"
  shows "payload_shape q = payload_shape p" "payload_bytes q = payload_bytes p"
    "ValidatePayloadSemantics q = ValidatePayloadSemantics p"
    "list_all2 (\<lambda>c c'. remap c = Some c') (payload_children p) (payload_children q)"
proof -
  show l: "list_all2 (\<lambda>c c'. remap c = Some c') (payload_children p) (payload_children q)"
    using payload_children_RemapPayload [OF assms] by (rule those_SomeD)
  have len: "length (payload_children q) = length (payload_children p)"
    using l by (simp add: list_all2_lengthD)
  show "payload_shape q = payload_shape p" "payload_bytes q = payload_bytes p"
    "ValidatePayloadSemantics q = ValidatePayloadSemantics p"
    using assms len
    by (cases "(p, remap)" rule: RemapPayload.cases;
        auto simp: size_of_def map_replicate_const dest: those_SomeD list_all2_lengthD)+
qed

lemma payload_eq_iff:
  "p = q \<longleftrightarrow> payload_shape p = payload_shape q \<and> payload_children p = payload_children q"
  by (cases p; cases q) (auto simp: map_option_case split: option.splits)

section \<open>The invariant of an arena\<close>

text \<open>
  The identities given out are 1, 2, and so on up to the one before \<open>next_id\<close>, which is 0 when
  every identity has been given out.
\<close>

definition id_used :: "ProgramValueArena \<Rightarrow> u64 \<Rightarrow> bool" where
  "id_used a i \<longleftrightarrow> i \<noteq> 0 \<and> i \<le> next_id a - 1"

definition arena_value_ok :: "ProgramValueArena \<Rightarrow> u64 \<Rightarrow> ProgramValue \<Rightarrow> bool" where
  "arena_value_ok a i v \<longleftrightarrow>
    value_id v = i \<and> ValidatePayloadSemantics (payload v) = NoArenaError \<and>
    (\<forall>c \<in> set (payload_children (payload v)). c \<noteq> 0 \<and> c < i)"

definition value_size :: "ProgramValue \<Rightarrow> nat" where
  "value_size v = unat (Measure (value_type v) (payload v))"

definition arena_inv :: "ProgramValueArena \<Rightarrow> bool" where
  "arena_inv a \<longleftrightarrow>
    store_wf (arena_values a) \<and>
    (\<forall>i. Lookup a i \<noteq> None \<longleftrightarrow> id_used a i) \<and>
    (\<forall>i v. Lookup a i = Some v \<longrightarrow> arena_value_ok a i v) \<and>
    unat (next_id a - 1) = length (arena_values a) \<and>
    length (arena_values a) \<le> unat (maximum_values (limits a)) \<and>
    unat (arena_bytes a) = (\<Sum>p \<leftarrow> arena_values a. value_size (snd p)) \<and>
    arena_bytes a \<le> maximum_value_bytes (limits a)"

definition extends :: "ProgramValueArena \<Rightarrow> ProgramValueArena \<Rightarrow> bool" where
  "extends a b \<longleftrightarrow> limits b = limits a \<and> (\<forall>i v. Lookup a i = Some v \<longrightarrow> Lookup b i = Some v)"

lemma extends_refl: "extends a a"
  and extends_trans: "extends a b \<Longrightarrow> extends b c \<Longrightarrow> extends a c"
  by (auto simp: extends_def)

lemma extends_denotes: "extends a b \<Longrightarrow> denotes (Lookup a) i t \<Longrightarrow> denotes (Lookup b) i t"
  by (erule denotes_mono) (auto simp: extends_def)

lemma new_value_arena_inv: "arena_inv (new_value_arena l)"
  by (auto simp: arena_inv_def new_value_arena_def store_wf_def Lookup_def store_find_def id_used_def)

lemma arena_invD:
  assumes "arena_inv a"
  shows "store_wf (arena_values a)" "Lookup a i \<noteq> None \<longleftrightarrow> id_used a i"
    "Lookup a i = Some v \<Longrightarrow> arena_value_ok a i v"
    "unat (next_id a - 1) = length (arena_values a)"
    "length (arena_values a) \<le> unat (maximum_values (limits a))"
    "unat (arena_bytes a) = (\<Sum>p \<leftarrow> arena_values a. value_size (snd p))"
    "arena_bytes a \<le> maximum_value_bytes (limits a)"
  using assms unfolding arena_inv_def by blast+

text \<open>A reference of a stored value is a stored value of a smaller identity.\<close>

lemma arena_child:
  assumes "arena_inv a" and "Lookup a i = Some v" and "c \<in> set (payload_children (payload v))"
  shows "Lookup a c \<noteq> None" and "c < i" and "c \<noteq> 0"
proof -
  have "arena_value_ok a i v" using arena_invD(3) [OF assms(1,2)] .
  with assms(3) show c: "c < i" "c \<noteq> 0" by (auto simp: arena_value_ok_def)
  have "id_used a i" using arena_invD(2) [OF assms(1), of i] assms(2) by simp
  with c have "id_used a c" by (auto simp: id_used_def)
  with arena_invD(2) [OF assms(1)] show "Lookup a c \<noteq> None" by blast
qed

lemma arena_denotes:
  assumes "arena_inv a" and "Lookup a i \<noteq> None"
  shows "\<exists>t. denotes (Lookup a) i t"
  using assms(2)
proof (induction "unat i" arbitrary: i rule: less_induct)
  case less
  obtain v where v: "Lookup a i = Some v" using less.prems by auto
  have "\<forall>c \<in> set (payload_children (payload v)). \<exists>t. denotes (Lookup a) c t"
    using less.hyps arena_child [OF assms(1) v] by (auto simp: word_less_nat_alt)
  then obtain f where f: "\<forall>c \<in> set (payload_children (payload v)). denotes (Lookup a) c (f c)"
    by metis
  have "list_all2 (denotes (Lookup a)) (payload_children (payload v))
      (map f (payload_children (payload v)))"
    using f by (auto simp: list_all2_conv_all_nth)
  from denotesI [of "Lookup a", OF v this] show ?case by blast
qed

section \<open>Appending a value\<close>

definition arena_after :: "TypeRef \<Rightarrow> ProgramValuePayload \<Rightarrow> ProgramValueArena \<Rightarrow> ProgramValueArena" where
  "arena_after t p a = a\<lparr>next_id := next_id a + 1,
     arena_values := store_emplace (next_id a) \<lparr>value_id = next_id a, value_type = t, payload = p\<rparr>
       (arena_values a),
     arena_bytes := arena_bytes a + Measure t p\<rparr>"

definition addable :: "TypeRef \<Rightarrow> ProgramValuePayload \<Rightarrow> ProgramValueArena \<Rightarrow> bool" where
  "addable t p a \<longleftrightarrow>
    ValidatePayloadSemantics p = NoArenaError \<and>
    (\<forall>c \<in> set (payload_children p). id_used a c) \<and>
    length (arena_values a) < unat (maximum_values (limits a)) \<and>
    unat (arena_bytes a) + unat (Measure t p) \<le> unat (maximum_value_bytes (limits a))"

lemma budget_test:
  fixes b m used :: u64
  shows "b > m \<or> used > m - b \<longleftrightarrow> \<not> unat used + unat b \<le> unat m"
proof (cases "b \<le> m")
  case True
  then have "unat (m - b) = unat m - unat b" by (rule unat_sub)
  with True show ?thesis by (auto simp: word_less_nat_alt word_le_nat_alt)
next
  case False
  then show ?thesis by (auto simp: word_less_nat_alt word_le_nat_alt)
qed

lemma ValidateReferences_iff:
  assumes "arena_inv a"
  shows "ValidateReferences a p = NoArenaError \<longleftrightarrow> (\<forall>c \<in> set (payload_children p). id_used a c)"
proof -
  have "c \<noteq> 0 \<and> store_find (arena_values a) c \<noteq> None \<longleftrightarrow> id_used a c" for c
    using arena_invD(2) [OF assms, of c] by (auto simp: Lookup_def id_used_def)
  then show ?thesis
    unfolding ValidateReferences_def ForEachChild_def by (simp add: list_all_iff)
qed

lemma size_of_arena:
  assumes "arena_inv a"
  shows "unat (size_of (arena_values a)) = length (arena_values a)"
  using arena_invD(4) [OF assms] of_nat_le_word [of "length (arena_values a)" "next_id a - 1"]
  by (simp add: size_of_def)

lemma id_used_less: "next_id a \<noteq> 0 \<Longrightarrow> id_used a i \<Longrightarrow> i < next_id a"
  using word_less_Suc [of "next_id a - 1" i] by (simp add: id_used_def)

lemma next_id_fresh:
  assumes "arena_inv a" and "length (arena_values a) < unat (maximum_values (limits a))"
  shows "next_id a \<noteq> 0" and "Lookup a (next_id a) = None"
proof -
  show "next_id a \<noteq> 0"
  proof
    assume "next_id a = 0"
    then have "length (arena_values a) = unat (- 1 :: u64)" using arena_invD(4) [OF assms(1)] by simp
    moreover have "maximum_values (limits a) \<le> - 1" by simp
    ultimately show False using assms(2) by (metis leD word_le_nat_alt)
  qed
  then have "\<not> id_used a (next_id a)"
    using id_used_less by blast
  with arena_invD(2) [OF assms(1)] show "Lookup a (next_id a) = None" by blast
qed

text \<open>A value is appended exactly when it is addable, and otherwise the arena stays as it is.\<close>

lemma Add_outcome:
  assumes "arena_inv a"
  shows "addable t p a \<Longrightarrow> Add t p a =
      (\<lparr>insert_status = NoArenaError, inserted_value = next_id a\<rparr>, arena_after t p a)"
    and "\<not> addable t p a \<Longrightarrow> \<exists>e. e \<noteq> NoArenaError \<and> Add t p a = (insert_error e, a)"
proof -
  have count: "size_of (arena_values a) \<ge> maximum_values (limits a)
      \<longleftrightarrow> \<not> length (arena_values a) < unat (maximum_values (limits a))"
    using size_of_arena [OF assms] by (auto simp: word_le_nat_alt)
  note tests = count budget_test ValidateReferences_iff [OF assms]
  show "Add t p a = (\<lparr>insert_status = NoArenaError, inserted_value = next_id a\<rparr>, arena_after t p a)"
    if "addable t p a"
    using that next_id_fresh(1) [OF assms]
    unfolding Add_def Let_def tests by (simp add: addable_def arena_after_def add.commute)
  show "\<exists>e. e \<noteq> NoArenaError \<and> Add t p a = (insert_error e, a)" if "\<not> addable t p a"
    using that next_id_fresh(1) [OF assms] tests(3)
    unfolding Add_def Let_def tests
    by (auto simp: addable_def ValidateReferences_iff [OF assms] intro: exI [of _ "ValidateReferences a p"])
qed

lemma Lookup_arena_after:
  assumes "arena_inv a" and "addable t p a"
  shows "Lookup (arena_after t p a) i =
    (if i = next_id a then Some \<lparr>value_id = next_id a, value_type = t, payload = p\<rparr> else Lookup a i)"
proof -
  have "Lookup a (next_id a) = None"
    using next_id_fresh(2) [OF assms(1)] assms(2) by (simp add: addable_def)
  then show ?thesis
    unfolding Lookup_def arena_after_def by (auto simp: um.find_emplace)
qed

lemma extends_arena_after: "arena_inv a \<Longrightarrow> addable t p a \<Longrightarrow> extends a (arena_after t p a)"
  using next_id_fresh(2) [of a]
  by (auto simp: extends_def Lookup_arena_after addable_def) (auto simp: arena_after_def)

lemma arena_after_inv:
  assumes inv: "arena_inv a" and add: "addable t p a"
  shows "arena_inv (arena_after t p a)"
proof -
  let ?b = "arena_after t p a"
  note fresh = next_id_fresh [OF inv]
  have room: "length (arena_values a) < unat (maximum_values (limits a))"
    and bytes: "unat (arena_bytes a) + unat (Measure t p) \<le> unat (maximum_value_bytes (limits a))"
    using add by (simp_all add: addable_def)
  have new: "arena_values ?b = (next_id a, \<lparr>value_id = next_id a, value_type = t, payload = p\<rparr>) # arena_values a"
    using fresh(2) room by (simp add: arena_after_def store_emplace_def Lookup_def store_find_def)
  have used: "id_used ?b i \<longleftrightarrow> i = next_id a \<or> id_used a i" for i
  proof -
    have "i \<le> next_id a \<longleftrightarrow> i = next_id a \<or> i \<le> next_id a - 1"
      using word_less_Suc [of "next_id a - 1" i] fresh(1) [OF room] by (auto simp: le_less)
    then show ?thesis using fresh(1) [OF room] by (auto simp: id_used_def arena_after_def)
  qed
  have sum: "unat (arena_bytes a + Measure t p) = unat (arena_bytes a) + unat (Measure t p)"
    using bytes by (metis unat_add_lem le_less_trans unsigned_less)
  show ?thesis
    unfolding arena_inv_def
  proof (intro conjI allI impI)
    show "store_wf (arena_values ?b)"
      using arena_invD(1) [OF inv] by (simp add: arena_after_def um.wf_emplace)
    show "Lookup ?b i \<noteq> None \<longleftrightarrow> id_used ?b i" for i
      using arena_invD(2) [OF inv, of i] used [of i] by (simp add: Lookup_arena_after [OF inv add])
    show "arena_value_ok ?b i v" if "Lookup ?b i = Some v" for i v
    proof (cases "i = next_id a")
      case True
      with that add show ?thesis
        using used fresh(1) [OF room]
        by (auto simp: Lookup_arena_after [OF inv add] arena_value_ok_def addable_def
            intro: id_used_less) (auto simp: id_used_def)
    next
      case False
      with that show ?thesis
        using arena_invD(3) [OF inv, of i v]
        by (simp add: Lookup_arena_after [OF inv add] arena_value_ok_def)
    qed
    have "0 < unat (next_id a)" using fresh(1) [OF room] by (simp add: unat_gt_0)
    then show "unat (next_id ?b - 1) = length (arena_values ?b)"
      using arena_invD(4) [OF inv] fresh(1) [OF room] unfolding new
      by (simp add: arena_after_def unat_minus_one word_zero_less)
    show "length (arena_values ?b) \<le> unat (maximum_values (limits ?b))"
      unfolding new using room by (simp add: arena_after_def)
    show "unat (arena_bytes ?b) = (\<Sum>p \<leftarrow> arena_values ?b. value_size (snd p))"
      unfolding new using arena_invD(6) [OF inv] sum by (simp add: arena_after_def value_size_def)
    show "arena_bytes ?b \<le> maximum_value_bytes (limits ?b)"
      using bytes sum by (simp add: arena_after_def word_le_nat_alt)
  qed
qed

end
