(* ===== verification/GraphSearch.thy ===== *)
theory GraphSearch
  imports ValueDenotation
begin

text \<open>
  The depth-first search by which an import checks a graph (the recursive \<open>visit\<close> of
  ProgramValueArena::Import): it returns, it succeeds exactly when the value it starts from has a
  tree, and then its order lists the values reachable from there, children first.
\<close>

section \<open>References of a graph and orders closed under them\<close>

definition refers :: "value_lookup \<Rightarrow> u64 \<Rightarrow> u64 \<Rightarrow> bool" where
  "refers look i c \<longleftrightarrow> (\<exists>v. look i = Some v \<and> c \<in> set (payload_children (payload v)))"

definition closed_order :: "value_lookup \<Rightarrow> u64 list \<Rightarrow> bool" where
  "closed_order look xs \<longleftrightarrow>
    (\<forall>k < length xs. look (xs ! k) \<noteq> None \<and> (\<forall>c. refers look (xs ! k) c \<longrightarrow> c \<in> set (take k xs)))"

lemma closed_order_Nil [simp]: "closed_order look []"
  by (simp add: closed_order_def)

lemma closed_order_snoc [simp]:
  "closed_order look (xs @ [x]) \<longleftrightarrow>
    closed_order look xs \<and> look x \<noteq> None \<and> (\<forall>c. refers look x c \<longrightarrow> c \<in> set xs)"
  by (auto simp: closed_order_def nth_append less_Suc_eq)

lemma closed_order_append: "closed_order look (xs @ ys) \<Longrightarrow> closed_order look xs"
  by (induction ys rule: rev_induct) (auto simp flip: append_assoc)

lemma closed_order_look: "closed_order look xs \<Longrightarrow> i \<in> set xs \<Longrightarrow> look i \<noteq> None"
  by (auto simp: closed_order_def in_set_conv_nth)

lemma closed_order_refers:
  assumes "closed_order look xs" and "i \<in> set xs" and "refers look i c"
  shows "c \<in> set xs"
proof -
  from assms(2) obtain k where "k < length xs" "xs ! k = i" by (auto simp: in_set_conv_nth)
  with assms(1,3) have "c \<in> set (take k xs)" by (auto simp: closed_order_def)
  then show ?thesis by (rule in_set_takeD)
qed

lemma closed_order_reach:
  assumes "closed_order look xs" and "i \<in> set xs" and "(refers look)\<^sup>*\<^sup>* i j"
  shows "j \<in> set xs"
  using assms(3) by induction (use assms closed_order_refers in blast)+

lemma closed_order_denotes:
  assumes "closed_order look xs" and "i \<in> set xs"
  shows "\<exists>t. denotes look i t"
proof -
  have "\<forall>i \<in> set xs. \<exists>t. denotes look i t"
    using assms(1)
  proof (induction xs rule: rev_induct)
    case (snoc x xs)
    then obtain v where v: "look x = Some v" by auto
    from snoc have "\<forall>c \<in> set (payload_children (payload v)). \<exists>t. denotes look c t"
      using v by (auto simp: refers_def)
    then obtain f where "\<forall>c \<in> set (payload_children (payload v)). denotes look c (f c)" by metis
    then have "list_all2 (denotes look) (payload_children (payload v))
        (map f (payload_children (payload v)))"
      by (auto simp: list_all2_conv_all_nth)
    from denotesI [of look, OF v this] snoc show ?case by auto
  qed simp
  with assms(2) show ?thesis by blast
qed

lemma denotes_reach:
  assumes "(refers look)\<^sup>*\<^sup>* i j" and "denotes look i t"
  shows "\<exists>u. denotes look j u"
  using assms(1)
proof induction
  case (step y z)
  then obtain u where u: "denotes look y u" by blast
  obtain v where "look y = Some v" "z \<in> set (payload_children (payload v))"
    using step(2) by (auto simp: refers_def)
  from denotes_child [OF u this] show ?case by blast
qed (use assms in blast)

section \<open>What a successful search has done\<close>

definition search_ok :: "value_lookup \<Rightarrow> visit_state \<Rightarrow> bool" where
  "search_ok look s \<longleftrightarrow>
    (\<forall>i. marks s i = 2 \<longleftrightarrow> i \<in> set (visit_order s)) \<and>
    distinct (visit_order s) \<and> closed_order look (visit_order s)"

lemma visit_white:
  assumes "visit (Suc n) source i s = Some (st, s')" and "marks s i \<noteq> 1" and "marks s i \<noteq> 2"
  obtains (unresolved) "store_find source i = None" "st = UnresolvedReference" "s' = s"
    | (failed) v where "store_find source i = Some v"
        "visit_children n source (payload_children (payload v)) (s\<lparr>marks := (marks s)(i := 1)\<rparr>)
          = Some (st, s')" "st \<noteq> NoArenaError"
    | (finished) v t where "store_find source i = Some v"
        "visit_children n source (payload_children (payload v)) (s\<lparr>marks := (marks s)(i := 1)\<rparr>)
          = Some (NoArenaError, t)"
        "st = NoArenaError" "s' = t\<lparr>marks := (marks t)(i := 2), visit_order := visit_order t @ [i]\<rparr>"
  using assms by (auto split: option.splits if_splits)

lemma visit_marked:
  assumes "visit (Suc n) source i s = Some (st, s')" and "marks s i = 1 \<or> marks s i = 2"
  shows "s' = s"
    and "st = NoArenaError \<Longrightarrow> marks s i = 2"
    and "st \<noteq> NoArenaError \<Longrightarrow> marks s i = 1 \<or> store_find source i = None"
  using assms by (auto split: option.splits if_splits)

lemma visit_children_Cons:
  assumes "visit_children n source (c # cs) s = Some (st, s')"
  obtains (failed) "visit n source c s = Some (st, s')" "st \<noteq> NoArenaError"
    | (first) t where "visit n source c s = Some (NoArenaError, t)"
        "visit_children n source cs t = Some (st, s')"
  using assms by (auto split: option.splits if_splits)

lemma visit_gray:
  "visit n source i s = Some (NoArenaError, s') \<Longrightarrow> marks s' j = 1 \<longleftrightarrow> marks s j = 1"
  "visit_children n source cs s = Some (NoArenaError, s') \<Longrightarrow> marks s' j = 1 \<longleftrightarrow> marks s j = 1"
proof (induction n source i s and n source cs s arbitrary: s' and s' rule: visit_visit_children.induct)
  case (2 n source i s)
  show ?case
  proof (cases "marks s i = 1 \<or> marks s i = 2")
    case True
    with visit_marked [OF "2.prems"] show ?thesis by simp
  next
    case False
    then have white: "marks s i \<noteq> 1" "marks s i \<noteq> 2" by auto
    from "2.prems" white show ?thesis
    proof (cases rule: visit_white)
      case (finished v t)
      from "2.IH" [OF finished(1) white finished(2)] white finished(4) show ?thesis by simp
    qed simp_all
  qed
next
  case (4 n source c cs s)
  from "4.prems" show ?case
    by (rule visit_children_Cons) (use "4.IH" in auto)
qed auto


text \<open>Whatever the outcome, a value that has been marked stays marked.\<close>

definition unmarked :: "ProgramValue store \<Rightarrow> visit_state \<Rightarrow> u64 set" where
  "unmarked source s = {i. store_find source i \<noteq> None \<and> marks s i \<noteq> 1 \<and> marks s i \<noteq> 2}"

lemma visit_unmarked:
  "visit n source i s = Some (st, s') \<Longrightarrow> unmarked source s' \<subseteq> unmarked source s"
  "visit_children n source cs s = Some (st, s') \<Longrightarrow> unmarked source s' \<subseteq> unmarked source s"
proof (induction n source i s and n source cs s arbitrary: st s' and st s'
    rule: visit_visit_children.induct)
  case (2 n source i s)
  show ?case
  proof (cases "marks s i = 1 \<or> marks s i = 2")
    case True
    with visit_marked [OF "2.prems"] show ?thesis by simp
  next
    case False
    then have white: "marks s i \<noteq> 1" "marks s i \<noteq> 2" by auto
    have gray: "unmarked source (s\<lparr>marks := (marks s)(i := 1)\<rparr>) \<subseteq> unmarked source s"
      by (auto simp: unmarked_def)
    from "2.prems" white show ?thesis
    proof (cases rule: visit_white)
      case (failed v)
      from "2.IH" [OF failed(1) white failed(2)] gray show ?thesis by blast
    next
      case (finished v t)
      from "2.IH" [OF finished(1) white finished(2)] gray finished(4) show ?thesis
        by (auto simp: unmarked_def)
    qed simp_all
  qed
next
  case (4 n source c cs s)
  from "4.prems" show ?case
  proof (cases rule: visit_children_Cons)
    case failed
    with "4.IH"(1) show ?thesis by blast
  next
    case (first t)
    from "4.IH"(1) [OF first(1)] "4.IH"(2) [OF first(1) refl _ first(2)] show ?thesis by auto
  qed
qed auto

lemma finite_unmarked: "finite (unmarked source s)"
proof -
  have "unmarked source s \<subseteq> fst ` set source"
    by (auto simp: unmarked_def store_find_def dest!: map_of_SomeD intro: rev_image_eqI)
  then show ?thesis by (rule finite_subset) simp
qed

text \<open>More fuel than unmarked values is enough.\<close>

lemma visit_returns:
  "card (unmarked source s) < n \<Longrightarrow> visit n source i s \<noteq> None"
  "card (unmarked source s) < n \<Longrightarrow> visit_children n source cs s \<noteq> None"
proof (induction n source i s and n source cs s rule: visit_visit_children.induct)
  case (2 n source i s)
  show ?case
  proof (cases "store_find source i = None \<or> marks s i = 1 \<or> marks s i = 2")
    case True
    then show ?thesis by (cases "store_find source i") auto
  next
    case False
    then obtain v where v: "store_find source i = Some v" and white: "marks s i \<noteq> 1" "marks s i \<noteq> 2"
      by auto
    let ?t = "s\<lparr>marks := (marks s)(i := 1)\<rparr>"
    have "unmarked source ?t = unmarked source s - {i}" and "i \<in> unmarked source s"
      using v white by (auto simp: unmarked_def)
    then have "card (unmarked source ?t) < n"
      using "2.prems" card_Diff1_less [OF finite_unmarked \<open>i \<in> unmarked source s\<close>] by simp
    from "2.IH" [OF v white this] obtain st t where
      "visit_children n source (payload_children (payload v)) ?t = Some (st, t)" by auto
    with v white show ?thesis by simp
  qed
next
  case (4 n source c cs s)
  then have "visit n source c s \<noteq> None" by blast
  then obtain st t where t: "visit n source c s = Some (st, t)" by auto
  have "card (unmarked source t) \<le> card (unmarked source s)"
    using visit_unmarked(1) [OF t] finite_unmarked by (rule card_mono [rotated])
  with "4.prems" have "card (unmarked source t) < n" by simp
  with "4.IH"(2) [OF t refl] t show ?case by simp
qed auto

lemma visit_sound:
  "visit n source i s = Some (NoArenaError, s') \<Longrightarrow> search_ok (store_find source) s \<Longrightarrow>
    search_ok (store_find source) s' \<and> i \<in> set (visit_order s') \<and>
    (\<exists>more. visit_order s' = visit_order s @ more \<and>
      (\<forall>j \<in> set more. (refers (store_find source))\<^sup>*\<^sup>* i j))"
  "visit_children n source cs s = Some (NoArenaError, s') \<Longrightarrow> search_ok (store_find source) s \<Longrightarrow>
    search_ok (store_find source) s' \<and> set cs \<subseteq> set (visit_order s') \<and>
    (\<exists>more. visit_order s' = visit_order s @ more \<and>
      (\<forall>j \<in> set more. \<exists>c \<in> set cs. (refers (store_find source))\<^sup>*\<^sup>* c j))"
proof (induction n source i s and n source cs s arbitrary: s' and s' rule: visit_visit_children.induct)
  case (2 n source i s)
  let ?look = "store_find source"
  show ?case
  proof (cases "marks s i = 1 \<or> marks s i = 2")
    case True
    with visit_marked [OF "2.prems"(1)] have "s' = s" "marks s i = 2" by simp_all
    with "2.prems"(2) show ?thesis by (auto simp: search_ok_def)
  next
    case False
    then have white: "marks s i \<noteq> 1" "marks s i \<noteq> 2" by auto
    from "2.prems"(1) white show ?thesis
    proof (cases rule: visit_white)
      case (finished v t)
      have "search_ok ?look (s\<lparr>marks := (marks s)(i := 1)\<rparr>)"
        using "2.prems"(2) white by (auto simp: search_ok_def)
      from "2.IH" [OF finished(1) white finished(2) this] obtain more where
        t: "search_ok ?look t" "set (payload_children (payload v)) \<subseteq> set (visit_order t)"
          "visit_order t = visit_order s @ more"
        and more: "\<forall>j \<in> set more. \<exists>c \<in> set (payload_children (payload v)). (refers ?look)\<^sup>*\<^sup>* c j"
        by auto
      have "marks t i = 1" using visit_gray(2) [OF finished(2)] by simp
      moreover have "marks t i = 2 \<longleftrightarrow> i \<in> set (visit_order t)"
        using t(1) unfolding search_ok_def by blast
      ultimately have "i \<notin> set (visit_order t)" by simp
      with t(1,2) finished(1) have "search_ok ?look s'"
        unfolding finished(4) by (auto simp: search_ok_def refers_def)
      moreover have "\<forall>j \<in> set (more @ [i]). (refers ?look)\<^sup>*\<^sup>* i j"
      proof -
        have "refers ?look i c" if "c \<in> set (payload_children (payload v))" for c
          using finished(1) that by (auto simp: refers_def)
        with more show ?thesis by (auto dest!: bspec intro: converse_rtranclp_into_rtranclp)
      qed
      ultimately show ?thesis
        using t(3) unfolding finished(4) by (auto intro!: exI [of _ "more @ [i]"])
    qed simp_all
  qed
next
  case (4 n source c cs s)
  from "4.prems"(1) show ?case
  proof (cases rule: visit_children_Cons)
    case (first t)
    from "4.IH"(1) [OF first(1) "4.prems"(2)] obtain more where t: "search_ok (store_find source) t"
      "c \<in> set (visit_order t)" "visit_order t = visit_order s @ more"
      "\<forall>j \<in> set more. (refers (store_find source))\<^sup>*\<^sup>* c j" by blast
    from "4.IH"(2) [OF first(1) refl _ first(2) t(1)] obtain more' where
      "search_ok (store_find source) s'" "set cs \<subseteq> set (visit_order s')"
      "visit_order s' = visit_order t @ more'"
      "\<forall>j \<in> set more'. \<exists>c \<in> set cs. (refers (store_find source))\<^sup>*\<^sup>* c j" by auto
    with t show ?thesis by (auto intro!: exI [of _ "more @ more'"])
  qed simp
qed auto

text \<open>A value with a tree is visited without an error when every value being visited is larger.\<close>

lemma visit_complete:
  "visit n source i s = Some (st, s') \<Longrightarrow> denotes (store_find source) i t \<Longrightarrow>
    (\<forall>j u. marks s j = 1 \<longrightarrow> denotes (store_find source) j u \<longrightarrow> size t < size u) \<Longrightarrow>
    st = NoArenaError"
  "visit_children n source cs s = Some (st, s') \<Longrightarrow>
    (\<forall>c \<in> set cs. \<exists>t. denotes (store_find source) c t \<and>
      (\<forall>j u. marks s j = 1 \<longrightarrow> denotes (store_find source) j u \<longrightarrow> size t < size u)) \<Longrightarrow>
    st = NoArenaError"
proof (induction n source i s and n source cs s arbitrary: st s' t and st s'
    rule: visit_visit_children.induct)
  case (2 n source i s)
  let ?look = "store_find source"
  from "2.prems"(2) obtain v where v: "?look i = Some v" by (auto elim: denotesE)
  have "marks s i \<noteq> 1" using "2.prems"(2,3) by blast
  show ?case
  proof (cases "marks s i = 2")
    case True
    with visit_marked(3) [OF "2.prems"(1)] v \<open>marks s i \<noteq> 1\<close> show ?thesis by auto
  next
    case False
    from "2.prems"(1) \<open>marks s i \<noteq> 1\<close> False show ?thesis
    proof (cases rule: visit_white)
      case (failed w)
      with v have w: "w = v" by simp
      have "\<exists>u. denotes ?look c u \<and> (\<forall>j x. ((marks s)(i := 1)) j = 1 \<longrightarrow> denotes ?look j x \<longrightarrow> size u < size x)"
        if c: "c \<in> set (payload_children (payload v))" for c
      proof -
        obtain u where u: "denotes ?look c u" "size u < size t"
          by (rule denotes_child [OF "2.prems"(2) v c])
        have "size u < size x" if "((marks s)(i := 1)) j = 1" "denotes ?look j x" for j x
        proof (cases "j = i")
          case True
          with that(2) "2.prems"(2) have "x = t" by (auto dest: denotes_unique)
          with u show ?thesis by simp
        next
          case False
          with that "2.prems"(3) have "size t < size x" by auto
          with u show ?thesis by simp
        qed
        with u show ?thesis by blast
      qed
      with "2.IH" [OF v \<open>marks s i \<noteq> 1\<close> False failed(2) [unfolded w]] show ?thesis by simp
    qed (use v in simp_all)
  qed
next
  case (4 n source c cs s)
  from "4.prems"(1) show ?case
  proof (cases rule: visit_children_Cons)
    case failed
    from "4.prems"(2) obtain t where "denotes (store_find source) c t"
      "\<forall>j u. marks s j = 1 \<longrightarrow> denotes (store_find source) j u \<longrightarrow> size t < size u" by auto
    from "4.IH"(1) [OF failed(1) this] failed(2) show ?thesis by simp
  next
    case (first t)
    have "\<forall>d \<in> set cs. \<exists>u. denotes (store_find source) d u \<and>
        (\<forall>j x. marks t j = 1 \<longrightarrow> denotes (store_find source) j x \<longrightarrow> size u < size x)"
      using "4.prems"(2) visit_gray(1) [OF first(1)] by simp
    from "4.IH"(2) [OF first(1) refl _ first(2) this] show ?thesis by simp
  qed
qed auto

section \<open>The search of a graph\<close>

lemma visit_graph_returns: "\<exists>st s. visit_graph source root = Some (st, s)"
proof -
  let ?s = "\<lparr>marks = (\<lambda>_. 0), visit_order = []\<rparr> :: visit_state"
  have "unmarked source ?s \<subseteq> fst ` set source"
    by (auto simp: unmarked_def store_find_def dest!: map_of_SomeD intro: rev_image_eqI)
  then have "card (unmarked source ?s) \<le> card (fst ` set source)" by (intro card_mono) simp_all
  also have "\<dots> \<le> length source" by (metis card_image_le card_length finite_set le_trans)
  finally have "visit_graph source root \<noteq> None"
    unfolding visit_graph_def by (intro visit_returns) simp
  then show ?thesis by auto
qed

lemma visit_graph_sound:
  assumes "visit_graph source root = Some (NoArenaError, s)"
  shows "search_ok (store_find source) s" "root \<in> set (visit_order s)"
    "\<forall>j \<in> set (visit_order s). (refers (store_find source))\<^sup>*\<^sup>* root j"
proof -
  have "search_ok (store_find source) \<lparr>marks = (\<lambda>_. 0), visit_order = []\<rparr>"
    by (simp add: search_ok_def)
  from visit_sound(1) [OF assms [unfolded visit_graph_def] this]
  show "search_ok (store_find source) s" "root \<in> set (visit_order s)"
    "\<forall>j \<in> set (visit_order s). (refers (store_find source))\<^sup>*\<^sup>* root j"
    by simp_all
qed

lemma visit_graph_denotes:
  assumes "visit_graph source root = Some (st, s)"
  shows "st = NoArenaError \<longleftrightarrow> (\<exists>t. denotes (store_find source) root t)"
proof
  assume "st = NoArenaError"
  with visit_graph_sound [of source root s] assms
  show "\<exists>t. denotes (store_find source) root t"
    using closed_order_denotes by (auto simp: search_ok_def)
next
  assume "\<exists>t. denotes (store_find source) root t"
  then obtain t where "denotes (store_find source) root t" ..
  from visit_complete(1) [OF assms [unfolded visit_graph_def] this] show "st = NoArenaError" by simp
qed

lemma visit_graph_order:
  assumes "visit_graph source root = Some (NoArenaError, s)"
  shows "closed_order (store_find source) (visit_order s)" "distinct (visit_order s)"
    "set (visit_order s) = {i. (refers (store_find source))\<^sup>*\<^sup>* root i}"
    "root \<in> set (visit_order s)"
proof -
  note sound = visit_graph_sound [OF assms]
  show closed: "closed_order (store_find source) (visit_order s)" and "distinct (visit_order s)"
    using sound(1) by (simp_all add: search_ok_def)
  show "set (visit_order s) = {i. (refers (store_find source))\<^sup>*\<^sup>* root i}"
    using sound(2,3) closed_order_reach [OF closed] by blast
  show "root \<in> set (visit_order s)" by (rule sound(2))
qed

end
