(* ===== verification/ValueImport.thy ===== *)
theory ValueImport
  imports GraphSearch
begin

text \<open>
  Importing a graph into an arena: which graphs are taken, and that the arena afterwards holds
  the tree of the graph's root, or is the arena it was.
\<close>

section \<open>The values of a graph\<close>

definition graph_lookup :: "ProgramValueGraph \<Rightarrow> value_lookup" where
  "graph_lookup g i = List.find (\<lambda>v. value_id v = i) (graph_values g)"

lemma index_sources_Inr:
  "index_sources vs source = Inr source' \<Longrightarrow>
    (\<forall>v \<in> set vs. value_id v \<noteq> 0 \<and> store_find source (value_id v) = None) \<and>
    distinct (map value_id vs) \<and> length source' = length source + length vs \<and>
    (\<forall>i. store_find source' i =
      (case List.find (\<lambda>v. value_id v = i) vs of Some v \<Rightarrow> Some v | None \<Rightarrow> store_find source i))"
proof (induction vs arbitrary: source)
  case (Cons v vs)
  from Cons.prems have v: "value_id v \<noteq> 0" "store_find source (value_id v) = None"
    and rest: "index_sources vs (store_emplace (value_id v) v source) = Inr source'"
    by (auto split: if_splits)
  note find = um.find_emplace
  from Cons.IH [OF rest] have IH:
    "\<forall>w \<in> set vs. value_id w \<noteq> 0 \<and> store_find (store_emplace (value_id v) v source) (value_id w) = None"
    "distinct (map value_id vs)"
    "length source' = length (store_emplace (value_id v) v source) + length vs"
    "\<forall>i. store_find source' i = (case List.find (\<lambda>v. value_id v = i) vs of Some v \<Rightarrow> Some v
      | None \<Rightarrow> store_find (store_emplace (value_id v) v source) i)" by blast+
  have later: "\<forall>w \<in> set vs. value_id w \<noteq> value_id v \<and> value_id w \<noteq> 0 \<and> store_find source (value_id w) = None"
    using IH(1) v by (auto simp: find split: if_splits)
  then have "List.find (\<lambda>w. value_id w = value_id v) vs = None"
    by (auto simp: find_None_iff)
  moreover have "value_id v \<notin> value_id ` set vs" using later by auto
  ultimately show ?case
    using IH v later um.size_emplace [OF v(2), of v] by (auto simp: find split: option.split)
qed simp

lemma index_sources_total:
  "\<forall>v \<in> set vs. value_id v \<noteq> 0 \<and> store_find source (value_id v) = None \<Longrightarrow>
    distinct (map value_id vs) \<Longrightarrow> \<exists>source'. index_sources vs source = Inr source'"
proof (induction vs arbitrary: source)
  case (Cons v vs)
  then have "\<forall>w \<in> set vs. value_id w \<noteq> 0 \<and> store_find (store_emplace (value_id v) v source) (value_id w) = None"
    by (auto simp: um.find_emplace image_iff)
  with Cons show ?case by auto
qed simp

lemma index_sources_error: "index_sources vs source = Inl e \<Longrightarrow> e \<noteq> NoArenaError"
  by (induction vs arbitrary: source) (auto split: if_splits)

lemma graph_index:
  "(\<exists>source. index_sources (graph_values g) [] = Inr source) \<longleftrightarrow>
    (\<forall>v \<in> set (graph_values g). value_id v \<noteq> 0) \<and> distinct (map value_id (graph_values g))"
  using index_sources_Inr [of "graph_values g" "[]"] index_sources_total [of "graph_values g" "[]"]
  by (auto simp: um.find_empty)

lemma graph_index_lookup:
  assumes "index_sources (graph_values g) [] = Inr source"
  shows "store_find source = graph_lookup g" "length source = length (graph_values g)"
proof -
  note index = index_sources_Inr [OF assms]
  show "store_find source = graph_lookup g"
    using index by (intro ext) (simp add: graph_lookup_def um.find_empty split: option.split)
  show "length source = length (graph_values g)" using index by simp
qed

section \<open>The byte budget of a graph\<close>

definition order_bytes :: "value_lookup \<Rightarrow> u64 list \<Rightarrow> nat" where
  "order_bytes look order = (\<Sum>i \<leftarrow> order. value_size (the (look i)))"

definition order_semantics :: "value_lookup \<Rightarrow> u64 list \<Rightarrow> bool" where
  "order_semantics look order \<longleftrightarrow>
    (\<forall>i \<in> set order. ValidatePayloadSemantics (payload (the (look i))) = NoArenaError)"

lemma required_bytes_outcome:
  assumes "\<forall>i \<in> set order. store_find source i \<noteq> None"
    and "unat required \<le> unat (maximum_value_bytes l)"
  shows "order_semantics (store_find source) order \<Longrightarrow>
      unat required + order_bytes (store_find source) order \<le> unat (maximum_value_bytes l) \<Longrightarrow>
      \<exists>r. required_bytes l source order required = Some (Inr r) \<and>
        unat r = unat required + order_bytes (store_find source) order"
    and "\<not> (order_semantics (store_find source) order \<and>
        unat required + order_bytes (store_find source) order \<le> unat (maximum_value_bytes l)) \<Longrightarrow>
      \<exists>e. e \<noteq> NoArenaError \<and> required_bytes l source order required = Some (Inl e)"
proof -
  have "(order_semantics (store_find source) order \<and>
      unat required + order_bytes (store_find source) order \<le> unat (maximum_value_bytes l) \<longrightarrow>
      (\<exists>r. required_bytes l source order required = Some (Inr r) \<and>
        unat r = unat required + order_bytes (store_find source) order)) \<and>
    (\<not> (order_semantics (store_find source) order \<and>
        unat required + order_bytes (store_find source) order \<le> unat (maximum_value_bytes l)) \<longrightarrow>
      (\<exists>e. e \<noteq> NoArenaError \<and> required_bytes l source order required = Some (Inl e)))"
    using assms
  proof (induction order arbitrary: required)
    case Nil
    then show ?case by (simp add: order_semantics_def order_bytes_def)
  next
    case (Cons i order)
    then obtain v where v: "store_find source i = Some v" by auto
    let ?b = "Measure (value_type v) (payload v)"
    show ?case
    proof (cases "ValidatePayloadSemantics (payload v) = NoArenaError \<and>
        unat required + unat ?b \<le> unat (maximum_value_bytes l)")
      case True
      then have sum: "unat (required + ?b) = unat required + unat ?b"
        by (metis unat_add_lem le_less_trans unsigned_less)
      have step: "required_bytes l source (i # order) required
          = required_bytes l source order (required + ?b)"
        using True v by (simp add: budget_test)
      have this_order: "order_bytes (store_find source) (i # order) = unat ?b + order_bytes (store_find source) order"
        "order_semantics (store_find source) (i # order) = order_semantics (store_find source) order"
        using v True by (simp_all add: order_bytes_def order_semantics_def value_size_def)
      then show ?thesis
        unfolding step this_order using Cons.IH [of "required + ?b"] Cons.prems True sum
        by (simp add: add.assoc)
    next
      case False
      then have "\<not> (order_semantics (store_find source) (i # order) \<and>
          unat required + order_bytes (store_find source) (i # order) \<le> unat (maximum_value_bytes l))"
        using v by (auto simp: order_bytes_def order_semantics_def value_size_def)
      moreover have "\<exists>e. e \<noteq> NoArenaError \<and> required_bytes l source (i # order) required = Some (Inl e)"
        using False v by (auto simp: budget_test Let_def)
      ultimately show ?thesis by blast
    qed
  qed
  then show "order_semantics (store_find source) order \<Longrightarrow>
      unat required + order_bytes (store_find source) order \<le> unat (maximum_value_bytes l) \<Longrightarrow>
      \<exists>r. required_bytes l source order required = Some (Inr r) \<and>
        unat r = unat required + order_bytes (store_find source) order"
    and "\<not> (order_semantics (store_find source) order \<and>
        unat required + order_bytes (store_find source) order \<le> unat (maximum_value_bytes l)) \<Longrightarrow>
      \<exists>e. e \<noteq> NoArenaError \<and> required_bytes l source order required = Some (Inl e)"
    by blast+
qed

section \<open>Adding the values, children first\<close>

text \<open>What the map of new identities satisfies when the values of \<open>ready\<close> have been added.\<close>

definition remap_ok ::
  "value_lookup \<Rightarrow> u64 list \<Rightarrow> (u64 \<Rightarrow> u64 option) \<Rightarrow> ProgramValueArena \<Rightarrow> bool" where
  "remap_ok look ready remap a \<longleftrightarrow>
    (\<forall>i \<in> set ready. \<exists>j. remap i = Some j \<and> id_used a j \<and>
      (\<forall>t. denotes look i t \<longrightarrow> denotes (Lookup a) j t))"

lemma remap_ok_extends:
  assumes "remap_ok look ready remap a" and "extends a b" and "arena_inv a" and "arena_inv b"
  shows "remap_ok look ready remap b"
  using assms arena_invD(2) [OF assms(3)] arena_invD(2) [OF assms(4)] extends_denotes [OF assms(2)]
  unfolding remap_ok_def extends_def by (metis option.exhaust)

lemma list_all2_member: "list_all2 P xs ys \<Longrightarrow> y \<in> set ys \<Longrightarrow> \<exists>x \<in> set xs. P x y"
  by (induction rule: list_all2_induct) auto

lemma add_remapped:
  assumes inv: "arena_inv a" and ok: "remap_ok look ready remap a"
    and v: "look i = Some v" and closed: "set (payload_children (payload v)) \<subseteq> set ready"
    and semantics: "ValidatePayloadSemantics (payload v) = NoArenaError"
    and count: "length (arena_values a) < unat (maximum_values (limits a))"
    and bytes: "unat (arena_bytes a) + value_size v \<le> unat (maximum_value_bytes (limits a))"
  shows "\<exists>p. RemapPayload (payload v) remap = Some p \<and> addable (value_type v) p a \<and>
    Measure (value_type v) p = Measure (value_type v) (payload v) \<and>
    remap_ok look (ready @ [i]) (remap(i \<mapsto> next_id a)) (arena_after (value_type v) p a)"
proof -
  have "\<forall>c \<in> set (payload_children (payload v)). remap c \<noteq> None"
    using ok closed by (auto simp: remap_ok_def)
  from RemapPayload_total [OF this] obtain p where p: "RemapPayload (payload v) remap = Some p" by auto
  note same = RemapPayload_same [OF p]
  have measure: "Measure (value_type v) p = Measure (value_type v) (payload v)"
    by (simp add: Measure_def same(2))
  have used: "id_used a c" if "c \<in> set (payload_children p)" for c
  proof -
    from that obtain d where "d \<in> set (payload_children (payload v))" "remap d = Some c"
      using list_all2_member [OF same(4)] by blast
    moreover from this closed obtain j where "remap d = Some j" "id_used a j"
      using ok unfolding remap_ok_def by blast
    ultimately show ?thesis by simp
  qed
  then have add: "addable (value_type v) p a"
    using semantics count bytes by (simp add: addable_def same(3) measure value_size_def)
  let ?b = "arena_after (value_type v) p a"
  have inv': "arena_inv ?b" using arena_after_inv [OF inv add] .
  have fresh: "Lookup ?b (next_id a) = Some \<lparr>value_id = next_id a, value_type = value_type v, payload = p\<rparr>"
    by (simp add: Lookup_arena_after [OF inv add])
  have kept: "remap_ok look ready remap ?b"
    using remap_ok_extends [OF ok extends_arena_after [OF inv add] inv inv'] .
  have "denotes (Lookup ?b) (next_id a) t" if t: "denotes look i t" for t
  proof -
    from t v obtain ts where ts: "t = ValueTree (value_type v) (payload_shape (payload v)) ts"
      "list_all2 (denotes look) (payload_children (payload v)) ts" by (auto elim: denotesE)
    have "list_all2 (denotes (Lookup ?b)) (payload_children p) ts"
      unfolding list_all2_conv_all_nth
    proof (intro conjI allI impI)
      show length: "length (payload_children p) = length ts"
        using same(4) ts(2) by (simp add: list_all2_lengthD [symmetric])
      fix k assume k: "k < length (payload_children p)"
      let ?c = "payload_children (payload v) ! k"
      have "remap ?c = Some (payload_children p ! k)" "?c \<in> set (payload_children (payload v))"
        using k same(4) by (auto simp: list_all2_conv_all_nth)
      moreover have "denotes look ?c (ts ! k)"
        using k ts(2) same(4) by (auto simp: list_all2_conv_all_nth)
      ultimately show "denotes (Lookup ?b) (payload_children p ! k) (ts ! k)"
        using kept closed by (force simp: remap_ok_def)
    qed
    from denotesI [of "Lookup ?b", OF fresh] this show ?thesis by (simp add: ts(1) same(1))
  qed
  moreover have "id_used ?b (next_id a)"
    using arena_invD(2) [OF inv', of "next_id a"] fresh by simp
  ultimately have "remap_ok look (ready @ [i]) (remap(i \<mapsto> next_id a)) ?b"
    using kept by (auto simp: remap_ok_def)
  with p add measure show ?thesis by blast
qed

lemma import_values_adds:
  assumes "arena_inv a" and "remap_ok (store_find source) ready remap a"
    and "closed_order (store_find source) (ready @ order)"
    and "order_semantics (store_find source) order"
    and "length (arena_values a) + length order \<le> unat (maximum_values (limits a))"
    and "unat (arena_bytes a) + order_bytes (store_find source) order
      \<le> unat (maximum_value_bytes (limits a))"
  shows "\<exists>remap' b. import_values source order remap a = Some (Inr remap', b) \<and>
    arena_inv b \<and> extends a b \<and> remap_ok (store_find source) (ready @ order) remap' b \<and>
    length (arena_values b) = length (arena_values a) + length order \<and>
    unat (arena_bytes b) = unat (arena_bytes a) + order_bytes (store_find source) order"
  using assms
proof (induction order arbitrary: ready remap a)
  case Nil
  then show ?case by (auto simp: order_bytes_def extends_refl)
next
  case (Cons i order)
  let ?look = "store_find source"
  have "closed_order ?look (ready @ [i])"
    using Cons.prems(3) closed_order_append [of ?look "ready @ [i]" order] by simp
  then obtain v where v: "?look i = Some v" and closed: "set (payload_children (payload v)) \<subseteq> set ready"
    by (auto simp: refers_def)
  have bytes: "order_bytes ?look (i # order) = value_size v + order_bytes ?look order"
    by (simp add: order_bytes_def v)
  have "\<exists>p. RemapPayload (payload v) remap = Some p \<and> addable (value_type v) p a \<and>
    Measure (value_type v) p = Measure (value_type v) (payload v) \<and>
    remap_ok ?look (ready @ [i]) (remap(i \<mapsto> next_id a)) (arena_after (value_type v) p a)"
    using Cons.prems(4-6) v bytes
    by (intro add_remapped [OF Cons.prems(1,2) v closed]) (auto simp: order_semantics_def)
  then obtain p where p: "RemapPayload (payload v) remap = Some p" "addable (value_type v) p a"
    "Measure (value_type v) p = Measure (value_type v) (payload v)"
    "remap_ok ?look (ready @ [i]) (remap(i \<mapsto> next_id a)) (arena_after (value_type v) p a)" by blast
  let ?b = "arena_after (value_type v) p a"
  have fresh: "next_id a \<noteq> 0" "Lookup a (next_id a) = None"
    using next_id_fresh [OF Cons.prems(1)] p(2) by (simp_all add: addable_def)
  have inv: "arena_inv ?b" by (rule arena_after_inv [OF Cons.prems(1) p(2)])
  have shape: "limits ?b = limits a" "length (arena_values ?b) = Suc (length (arena_values a))"
    using fresh by (simp_all add: arena_after_def Lookup_def um.size_emplace)
  have "unat (arena_bytes a) + unat (Measure (value_type v) p) < 2 ^ LENGTH(64)"
    using p(2) unsigned_less [of "maximum_value_bytes (limits a)", where 'a = nat]
    by (simp add: addable_def)
  then have used: "unat (arena_bytes ?b) = unat (arena_bytes a) + value_size v"
    using p(3) by (simp add: arena_after_def value_size_def unat_add_lem [THEN iffD1])
  have "order_semantics ?look order" using Cons.prems(4) by (simp add: order_semantics_def)
  moreover have "closed_order ?look ((ready @ [i]) @ order)" using Cons.prems(3) by simp
  moreover have "length (arena_values ?b) + length order \<le> unat (maximum_values (limits ?b))"
    and "unat (arena_bytes ?b) + order_bytes ?look order \<le> unat (maximum_value_bytes (limits ?b))"
    using Cons.prems(5,6) shape used bytes by simp_all
  ultimately obtain remap' c where rest:
    "import_values source order (remap(i \<mapsto> next_id a)) ?b = Some (Inr remap', c)"
    "arena_inv c" "extends ?b c" "remap_ok ?look ((ready @ [i]) @ order) remap' c"
    "length (arena_values c) = length (arena_values ?b) + length order"
    "unat (arena_bytes c) = unat (arena_bytes ?b) + order_bytes ?look order"
    using Cons.IH [OF inv p(4)] by blast
  have "import_values source (i # order) remap a = Some (Inr remap', c)"
    using v p(1) Add_outcome(1) [OF Cons.prems(1) p(2)] fresh(1) rest(1) by (simp add: insert_ok_def)
  moreover have "extends a c"
    using extends_trans [OF extends_arena_after [OF Cons.prems(1) p(2)] rest(3)] .
  ultimately show ?case
    using rest shape used bytes by (intro exI [of _ remap'] exI [of _ c]) simp
qed

section \<open>The outcome of an import\<close>

text \<open>
  The graphs an arena takes: closed, acyclic and without a value the root does not need, of
  proper payloads, within what is left of the budgets and of the identities.
\<close>

definition graph_bytes :: "ProgramValueGraph \<Rightarrow> nat" where
  "graph_bytes g = (\<Sum>v \<leftarrow> graph_values g. value_size v)"

definition graph_closed :: "ProgramValueGraph \<Rightarrow> bool" where
  "graph_closed g \<longleftrightarrow>
    graph_root g \<noteq> 0 \<and> (\<forall>v \<in> set (graph_values g). value_id v \<noteq> 0) \<and>
    distinct (map value_id (graph_values g)) \<and>
    (\<exists>t. denotes (graph_lookup g) (graph_root g) t) \<and>
    (\<forall>v \<in> set (graph_values g). (refers (graph_lookup g))\<^sup>*\<^sup>* (graph_root g) (value_id v)) \<and>
    (\<forall>v \<in> set (graph_values g). ValidatePayloadSemantics (payload v) = NoArenaError)"

definition graph_fits :: "ProgramValueGraph \<Rightarrow> ProgramValueArena \<Rightarrow> bool" where
  "graph_fits g a \<longleftrightarrow>
    length (arena_values a) + length (graph_values g) \<le> unat (maximum_values (limits a)) \<and>
    length (arena_values a) + length (graph_values g) < unat uint64_max \<and>
    unat (arena_bytes a) + graph_bytes g \<le> unat (maximum_value_bytes (limits a))"

lemma graph_lookup_value:
  assumes "distinct (map value_id (graph_values g))"
  shows "graph_lookup g i = Some v \<longleftrightarrow> v \<in> set (graph_values g) \<and> value_id v = i"
  unfolding graph_lookup_def by (rule find_key_iff [OF assms])

lemma graph_ids: "graph_lookup g i \<noteq> None \<longleftrightarrow> i \<in> value_id ` set (graph_values g)"
  by (auto simp: graph_lookup_def find_None_iff)

lemma same_ids_bytes:
  assumes ids: "distinct (map value_id (graph_values g))"
    and order: "distinct order" "set order = value_id ` set (graph_values g)"
  shows "order_bytes (graph_lookup g) order = graph_bytes g" "length order = length (graph_values g)"
    "order_semantics (graph_lookup g) order \<longleftrightarrow>
      (\<forall>v \<in> set (graph_values g). ValidatePayloadSemantics (payload v) = NoArenaError)"
proof -
  have look: "graph_lookup g (value_id v) = Some v" if "v \<in> set (graph_values g)" for v
    using graph_lookup_value [OF ids] that by blast
  have "order_bytes (graph_lookup g) order = (\<Sum>i \<in> set order. value_size (the (graph_lookup g i)))"
    unfolding order_bytes_def by (rule sum_list_distinct_conv_sum_set [OF order(1)])
  also have "\<dots> = (\<Sum>i \<leftarrow> map value_id (graph_values g). value_size (the (graph_lookup g i)))"
    unfolding order(2) by (subst sum_list_distinct_conv_sum_set [OF ids]) simp
  also have "\<dots> = graph_bytes g"
    unfolding graph_bytes_def map_map by (intro arg_cong [of _ _ sum_list] map_cong) (simp_all add: look)
  finally show "order_bytes (graph_lookup g) order = graph_bytes g" .
  show "length order = length (graph_values g)"
    using distinct_card [OF order(1)] distinct_card [OF ids] order(2) by simp
  show "order_semantics (graph_lookup g) order \<longleftrightarrow>
      (\<forall>v \<in> set (graph_values g). ValidatePayloadSemantics (payload v) = NoArenaError)"
    unfolding order_semantics_def order(2) by (auto simp: look)
qed

lemma count_test:
  assumes inv: "arena_inv a" and len: "length order < 2 ^ LENGTH(64)"
  shows "size_of order > maximum_values (limits a) - size_of (arena_values a) \<longleftrightarrow>
    \<not> length (arena_values a) + length order \<le> unat (maximum_values (limits a))"
proof -
  have count: "unat (size_of (arena_values a)) = length (arena_values a)" by (rule size_of_arena [OF inv])
  have "size_of (arena_values a) \<le> maximum_values (limits a)"
    using arena_invD(5) [OF inv] count by (simp add: word_le_nat_alt)
  then have "unat (maximum_values (limits a) - size_of (arena_values a))
      = unat (maximum_values (limits a)) - length (arena_values a)"
    by (simp add: unat_sub count)
  moreover have "unat (size_of order) = length order" using len by (simp add: size_of_def unat_of_nat)
  ultimately show ?thesis using arena_invD(5) [OF inv] by (simp add: word_less_nat_alt) linarith
qed

lemma identity_test:
  assumes inv: "arena_inv a" and len: "length order < 2 ^ LENGTH(64)" and nonempty: "order \<noteq> []"
    and fits: "length (arena_values a) + length order \<le> unat (maximum_values (limits a))"
  shows "size_of order > uint64_max - next_id a \<longleftrightarrow>
    \<not> length (arena_values a) + length order < unat uint64_max"
proof -
  have room: "length (arena_values a) < unat (maximum_values (limits a))"
    using fits nonempty by (metis add_strict_left_mono length_greater_0_conv less_le_trans add.right_neutral)
  note fresh = next_id_fresh(1) [OF inv room]
  have "unat (next_id a) = Suc (length (arena_values a))"
    using arena_invD(4) [OF inv] fresh unat_minus_one [OF fresh] unat_gt_0 [of "next_id a"] by simp
  moreover have "unat (uint64_max - next_id a) = unat uint64_max - unat (next_id a)"
    by (rule unat_sub) simp
  moreover have "unat (size_of order) = length order" using len by (simp add: size_of_def unat_of_nat)
  moreover have "unat (next_id a) \<le> unat uint64_max" by (simp flip: word_le_nat_alt)
  ultimately show ?thesis by (simp add: word_less_nat_alt) linarith
qed

lemma word_list_length:
  assumes "distinct order" and "(0 :: u64) \<notin> set order"
  shows "length order < 2 ^ LENGTH(64)"
proof -
  have "card (set order) < card (UNIV :: u64 set)"
    by (rule psubset_card_mono) (use assms in auto)
  then show ?thesis using assms distinct_card [of order] by (simp add: card_word)
qed

text \<open>The contract of an import: the tree of the root arrives, or nothing changes.\<close>

definition import_spec ::
  "ProgramValueGraph \<Rightarrow> ProgramValueArena \<Rightarrow>
    (ProgramValueArenaInsertResult \<times> ProgramValueArena) option \<Rightarrow> bool" where
  "import_spec g a out \<longleftrightarrow>
    (if graph_closed g \<and> graph_fits g a then
       \<exists>i b. out = Some (\<lparr>insert_status = NoArenaError, inserted_value = i\<rparr>, b) \<and> id_used b i \<and>
         arena_inv b \<and> extends a b \<and>
         (\<forall>t. denotes (graph_lookup g) (graph_root g) t \<longrightarrow> denotes (Lookup b) i t) \<and>
         length (arena_values b) = length (arena_values a) + length (graph_values g) \<and>
         unat (arena_bytes b) = unat (arena_bytes a) + graph_bytes g
     else \<exists>e. e \<noteq> NoArenaError \<and> out = Some (insert_error e, a))"

lemma import_spec_error:
  "\<not> (graph_closed g \<and> graph_fits g a) \<Longrightarrow> e \<noteq> NoArenaError \<Longrightarrow>
    import_spec g a (Some (insert_error e, a))"
  unfolding import_spec_def by auto

text \<open>The part of an import behind a successful search.\<close>

definition import_ordered ::
  "ProgramValueGraph \<Rightarrow> ProgramValueArena \<Rightarrow> ProgramValue store \<Rightarrow> u64 list \<Rightarrow>
    (ProgramValueArenaInsertResult \<times> ProgramValueArena) option" where
  "import_ordered g a source order =
    (if size_of order > maximum_values (limits a) - size_of (arena_values a) then
       Some (insert_error ValueBudgetExceeded, a)
     else if size_of order > uint64_max - next_id a then Some (insert_error ValueBudgetExceeded, a)
     else
       (case required_bytes (limits a) source order 0 of
          None \<Rightarrow> None
        | Some (Inl e) \<Rightarrow> Some (insert_error e, a)
        | Some (Inr required) \<Rightarrow>
            if required > maximum_value_bytes (limits a) \<or>
               arena_bytes a > maximum_value_bytes (limits a) - required then
              Some (insert_error ByteBudgetExceeded, a)
            else
              (case import_values source order Map.empty a of
                 None \<Rightarrow> None
               | Some (Inl failed, a') \<Rightarrow> Some (failed, a')
               | Some (Inr remap, a') \<Rightarrow>
                   map_option
                     (\<lambda>i. (\<lparr>insert_status = NoArenaError, inserted_value = i\<rparr>, a'))
                     (remap (graph_root g)))))"

lemma import_ordered_spec:
  assumes inv: "arena_inv a" and ids: "distinct (map value_id (graph_values g))"
    and nonzero: "graph_root g \<noteq> 0" "\<forall>v \<in> set (graph_values g). value_id v \<noteq> 0"
    and look: "store_find source = graph_lookup g"
    and order: "closed_order (graph_lookup g) order" "distinct order" "graph_root g \<in> set order"
      "set order = {i. (refers (graph_lookup g))\<^sup>*\<^sup>* (graph_root g) i}"
    and all: "set order = value_id ` set (graph_values g)"
  shows "import_spec g a (import_ordered g a source order)"
proof -
  note same = same_ids_bytes [OF ids order(2) all]
  have "0 \<notin> set order" using all nonzero(2) by auto
  then have len: "length order < 2 ^ LENGTH(64)" by (rule word_list_length [OF order(2)])
  have nonempty: "order \<noteq> []" using order(3) by auto
  have "\<exists>t. denotes (graph_lookup g) (graph_root g) t" by (rule closed_order_denotes [OF order(1,3)])
  moreover have "\<forall>v \<in> set (graph_values g). (refers (graph_lookup g))\<^sup>*\<^sup>* (graph_root g) (value_id v)"
    using order(4) all by blast
  ultimately have closed: "graph_closed g \<longleftrightarrow> order_semantics (graph_lookup g) order"
    using nonzero ids same(3) by (auto simp: graph_closed_def)
  note error = import_spec_error [of g a]
  note count = count_test [OF inv len]
  show ?thesis
  proof (cases "length (arena_values a) + length order \<le> unat (maximum_values (limits a)) \<and>
      length (arena_values a) + length order < unat uint64_max")
    case False
    then have "\<not> graph_fits g a" using same(2) by (auto simp: graph_fits_def)
    moreover have "import_ordered g a source order = Some (insert_error ValueBudgetExceeded, a)"
      using False count identity_test [OF inv len nonempty] unfolding import_ordered_def by metis
    ultimately show ?thesis using error by simp
  next
    case True
    have found: "\<forall>i \<in> set order. store_find source i \<noteq> None"
      using closed_order_look [OF order(1)] look by simp
    have tests: "\<not> size_of order > maximum_values (limits a) - size_of (arena_values a)"
      "\<not> size_of order > uint64_max - next_id a"
      using True count identity_test [OF inv len nonempty] by blast+
    note required = required_bytes_outcome [OF found, of 0 "limits a", simplified]
    show ?thesis
    proof (cases "order_semantics (graph_lookup g) order \<and>
        graph_bytes g \<le> unat (maximum_value_bytes (limits a))")
      case False
      then have "\<not> (graph_closed g \<and> graph_fits g a)" using closed by (auto simp: graph_fits_def)
      moreover obtain e where "e \<noteq> NoArenaError" "required_bytes (limits a) source order 0 = Some (Inl e)"
        using required(2) False same(1) look by auto
      ultimately show ?thesis using error [of e] tests by (simp add: import_ordered_def)
    next
      case bytes: True
      then obtain r where r: "required_bytes (limits a) source order 0 = Some (Inr r)"
        "unat r = graph_bytes g"
        using required(1) same(1) look by auto
      show ?thesis
      proof (cases "unat (arena_bytes a) + graph_bytes g \<le> unat (maximum_value_bytes (limits a))")
        case False
        then have "\<not> graph_fits g a" by (simp add: graph_fits_def)
        moreover have "import_ordered g a source order = Some (insert_error ByteBudgetExceeded, a)"
          using False tests r budget_test [where b = r] by (simp add: import_ordered_def)
        ultimately show ?thesis using error by simp
      next
        case room: True
        have "graph_closed g \<and> graph_fits g a"
          using closed bytes room True same(2) by (simp add: graph_fits_def)
        moreover obtain remap b where b: "import_values source order Map.empty a = Some (Inr remap, b)"
          "arena_inv b" "extends a b" "remap_ok (graph_lookup g) order remap b"
          "length (arena_values b) = length (arena_values a) + length order"
          "unat (arena_bytes b) = unat (arena_bytes a) + order_bytes (graph_lookup g) order"
          using import_values_adds [OF inv, of source "[]" Map.empty order] order(1) bytes room True same(1)
          by (auto simp: look remap_ok_def)
        moreover obtain i where i: "remap (graph_root g) = Some i" "id_used b i"
          "\<forall>t. denotes (graph_lookup g) (graph_root g) t \<longrightarrow> denotes (Lookup b) i t"
          using b(4) order(3) unfolding remap_ok_def by blast
        moreover have "import_ordered g a source order =
            Some (\<lparr>insert_status = NoArenaError, inserted_value = i\<rparr>, b)"
          using tests r b(1) i(1) room budget_test [where b = r] by (simp add: import_ordered_def)
        ultimately show ?thesis using same by (simp add: import_spec_def)
      qed
    qed
  qed
qed

lemma import_outcome:
  assumes inv: "arena_inv a"
  shows "import_spec g a (Import g a)"
proof -
  note error = import_spec_error [of g a]
  consider (bad_root) "graph_root g = 0"
    | (bad_ids) e where "graph_root g \<noteq> 0" "index_sources (graph_values g) [] = Inl e"
    | (indexed) source where "graph_root g \<noteq> 0" "index_sources (graph_values g) [] = Inr source"
    by (cases "index_sources (graph_values g) []") blast+
  then show ?thesis
  proof cases
    case bad_root
    then show ?thesis using error [of InvalidId] by (simp add: Import_def graph_closed_def)
  next
    case bad_ids
    then have "\<not> graph_closed g" using graph_index [of g] by (auto simp: graph_closed_def)
    then show ?thesis
      using bad_ids error [OF _ index_sources_error [OF bad_ids(2)]] by (simp add: Import_def)
  next
    case indexed
    have ids: "\<forall>v \<in> set (graph_values g). value_id v \<noteq> 0" "distinct (map value_id (graph_values g))"
      using graph_index [of g] indexed(2) by blast+
    note look = graph_index_lookup [OF indexed(2)]
    obtain st s where search: "visit_graph source (graph_root g) = Some (st, s)"
      using visit_graph_returns by blast
    consider (unresolved) "graph_lookup g (graph_root g) = None"
      | (failed) "graph_lookup g (graph_root g) \<noteq> None" "st \<noteq> NoArenaError"
      | (visited) "graph_lookup g (graph_root g) \<noteq> None" "st = NoArenaError" by blast
    then show ?thesis
    proof cases
      case unresolved
      then have "\<not> graph_closed g" by (auto simp: graph_closed_def elim: denotesE)
      then show ?thesis
        using indexed unresolved look(1) error [of UnresolvedReference] by (simp add: Import_def)
    next
      case failed
      then have "\<not> graph_closed g"
        using visit_graph_denotes [OF search] look(1) by (simp add: graph_closed_def)
      with failed show ?thesis using indexed search look(1) error [of st] by (auto simp: Import_def)
    next
      case visited
      note order = visit_graph_order [OF search [unfolded visited(2)], unfolded look(1)]
      have sub: "set (visit_order s) \<subseteq> value_id ` set (graph_values g)"
        using closed_order_look [OF order(1)] graph_ids by blast
      have length_ids: "length (graph_values g) = card (value_id ` set (graph_values g))"
        using distinct_card [OF ids(2)] by simp
      show ?thesis
      proof (cases "length (visit_order s) = length source")
        case False
        then have "set (visit_order s) \<noteq> value_id ` set (graph_values g)"
          using look(2) length_ids distinct_card [OF order(2)] by auto
        then have "\<not> graph_closed g" using sub order(3) by (auto simp: graph_closed_def)
        then show ?thesis
          using False visited indexed search look(1) error [of UnreachableValue]
          by (auto simp: Import_def)
      next
        case True
        then have all: "set (visit_order s) = value_id ` set (graph_values g)"
          using sub look(2) length_ids distinct_card [OF order(2)]
          by (intro card_subset_eq) simp_all
        have "Import g a = import_ordered g a source (visit_order s)"
          using True visited indexed search look(1) unfolding Import_def import_ordered_def Let_def by auto
        then show ?thesis
          using import_ordered_spec [OF inv ids(2) indexed(1) ids(1) look(1) order(1,2,4,3) all] by simp
      qed
    qed
  qed
qed

text \<open>An import returns, whatever the graph.\<close>

lemma import_returns: "arena_inv a \<Longrightarrow> Import g a \<noteq> None"
  using import_outcome [of a g] by (auto simp: import_spec_def split: if_splits)

end
