(* ===== verification/ValueExport.thy ===== *)
theory ValueExport
  imports ValueImport
begin

text \<open>
  Exporting the graph below a value: the closure of the value in ascending order, with the tree
  the value has in the arena. What is exported can be imported again.
\<close>

section \<open>Collecting the closure\<close>

definition closed_within :: "value_lookup \<Rightarrow> u64 set \<Rightarrow> u64 \<Rightarrow> bool" where
  "closed_within look S j \<longleftrightarrow> (\<forall>c. refers look j c \<longrightarrow> c \<in> S)"

lemma closed_within_mono: "closed_within look S j \<Longrightarrow> S \<subseteq> T \<Longrightarrow> closed_within look T j"
  by (auto simp: closed_within_def)

lemma closed_within_child:
  "look i = Some v \<Longrightarrow> closed_within look S i \<longleftrightarrow> set (payload_children (payload v)) \<subseteq> S"
  by (auto simp: closed_within_def refers_def)

text \<open>The values still being collected are larger than the one the search stands at.\<close>

lemma collect_closure:
  "collect n a i included = Some result \<Longrightarrow> arena_inv a \<Longrightarrow> id_used a i \<Longrightarrow>
    (\<forall>j \<in> set included. j \<le> i \<longrightarrow> closed_within (Lookup a) (set included) j) \<Longrightarrow>
    set included \<subseteq> set result \<and> i \<in> set result \<and>
    (\<forall>j \<in> set result. j \<in> set included \<or> (refers (Lookup a))\<^sup>*\<^sup>* i j) \<and>
    (\<forall>j \<in> set result. j \<in> set included \<and> i < j \<or> closed_within (Lookup a) (set result) j)"
  "collect_children n a cs included = Some result \<Longrightarrow> arena_inv a \<Longrightarrow>
    (\<forall>c \<in> set cs. id_used a c \<and> c < m) \<Longrightarrow>
    (\<forall>j \<in> set included. j < m \<longrightarrow> closed_within (Lookup a) (set included) j) \<Longrightarrow>
    set included \<subseteq> set result \<and> set cs \<subseteq> set result \<and>
    (\<forall>j \<in> set result. j \<in> set included \<or> (\<exists>c \<in> set cs. (refers (Lookup a))\<^sup>*\<^sup>* c j)) \<and>
    (\<forall>j \<in> set result. j \<in> set included \<and> m \<le> j \<or> closed_within (Lookup a) (set result) j)"
proof (induction n a i included and n a cs included arbitrary: result and result m
    rule: collect_collect_children.induct)
  case (2 n a i included)
  show ?case
  proof (cases "i \<in> set included")
    case True
    with "2.prems" show ?thesis by fastforce
  next
    case False
    obtain v where v: "Lookup a i = Some v"
      using arena_invD(2) [OF "2.prems"(2)] "2.prems"(3) by auto
    have run: "collect_children n a (payload_children (payload v)) (insort i included) = Some result"
      using "2.prems"(1) False v by simp
    have children: "\<forall>c \<in> set (payload_children (payload v)). id_used a c \<and> c < i"
      using arena_child [OF "2.prems"(2) v] arena_invD(2) [OF "2.prems"(2)] by blast
    have start: "\<forall>j \<in> set (insort i included). j < i \<longrightarrow> closed_within (Lookup a) (set (insort i included)) j"
      using "2.prems"(4) by (auto simp: set_insort_key intro: closed_within_mono)
    note step = "2.IH" [OF False v run "2.prems"(2) children start]
    have "closed_within (Lookup a) (set result) i"
      using step closed_within_child [of "Lookup a", OF v] by blast
    moreover have "(refers (Lookup a))\<^sup>*\<^sup>* i j" if "c \<in> set (payload_children (payload v))"
      "(refers (Lookup a))\<^sup>*\<^sup>* c j" for c j
      using that v by (auto simp: refers_def intro: converse_rtranclp_into_rtranclp)
    ultimately show ?thesis using step unfolding set_insort_key by (auto simp: le_less)
  qed
next
  case (4 n a c cs included)
  obtain mid where mid: "collect n a c included = Some mid" "collect_children n a cs mid = Some result"
    using "4.prems"(1) by (auto split: option.splits)
  have first: "set included \<subseteq> set mid \<and> c \<in> set mid \<and>
      (\<forall>j \<in> set mid. j \<in> set included \<or> (refers (Lookup a))\<^sup>*\<^sup>* c j) \<and>
      (\<forall>j \<in> set mid. j \<in> set included \<and> c < j \<or> closed_within (Lookup a) (set mid) j)"
    using "4.prems"(3,4) by (intro "4.IH"(1) [OF mid(1) "4.prems"(2)]) auto
  have "\<forall>j \<in> set mid. j < m \<longrightarrow> closed_within (Lookup a) (set mid) j"
    using first "4.prems"(4) closed_within_mono by blast
  with "4.prems"(3) have rest: "set mid \<subseteq> set result \<and> set cs \<subseteq> set result \<and>
      (\<forall>j \<in> set result. j \<in> set mid \<or> (\<exists>c \<in> set cs. (refers (Lookup a))\<^sup>*\<^sup>* c j)) \<and>
      (\<forall>j \<in> set result. j \<in> set mid \<and> m \<le> j \<or> closed_within (Lookup a) (set result) j)"
    by (intro "4.IH"(2) [OF mid(1,2) "4.prems"(2)]) auto
  have "j \<in> set included \<and> m \<le> j \<or> closed_within (Lookup a) (set result) j" if "j \<in> set result" for j
    using first rest that closed_within_mono [of "Lookup a" "set mid" j "set result"] by blast
  moreover have "j \<in> set included \<or> (\<exists>d \<in> set (c # cs). (refers (Lookup a))\<^sup>*\<^sup>* d j)"
    if "j \<in> set result" for j
    using first rest that by (metis list.set_intros)
  ultimately show ?case using first rest by auto
qed auto

lemma collect_sorted:
  "collect n a i included = Some result \<Longrightarrow> sorted included \<and> distinct included \<Longrightarrow>
    sorted result \<and> distinct result"
  "collect_children n a cs included = Some result \<Longrightarrow> sorted included \<and> distinct included \<Longrightarrow>
    sorted result \<and> distinct result"
  by (induction n a i included and n a cs included arbitrary: result and result
      rule: collect_collect_children.induct)
    (auto simp: sorted_insort distinct_insort split: if_splits option.splits)

lemma collect_total:
  "arena_inv a \<Longrightarrow> id_used a i \<Longrightarrow> unat i \<le> n \<Longrightarrow> collect n a i included \<noteq> None"
  "arena_inv a \<Longrightarrow> (\<forall>c \<in> set cs. id_used a c \<and> unat c \<le> n) \<Longrightarrow>
    collect_children n a cs included \<noteq> None"
proof (induction n a i included and n a cs included rule: collect_collect_children.induct)
  case (1 a i included)
  then show ?case by (simp add: id_used_def unat_eq_zero)
next
  case (2 n a i included)
  show ?case
  proof (cases "i \<in> set included")
    case False
    obtain v where v: "Lookup a i = Some v"
      using arena_invD(2) [OF "2.prems"(1)] "2.prems"(2) by auto
    have "\<forall>c \<in> set (payload_children (payload v)). id_used a c \<and> unat c \<le> n"
      using arena_child [OF "2.prems"(1) v] arena_invD(2) [OF "2.prems"(1)] "2.prems"(3)
      by (fastforce simp: word_less_nat_alt)
    with "2.IH" [OF False v "2.prems"(1)] False v show ?thesis by simp
  qed simp
next
  case (4 n a c cs included)
  then show ?case by (auto split: option.split)
qed simp

section \<open>The exported graph\<close>

lemma denotes_agree:
  assumes "denotes look i t" and "\<And>j. (refers look)\<^sup>*\<^sup>* i j \<Longrightarrow> look' j = look j"
  shows "denotes look' i t"
  using assms
proof (induction i t rule: denotes.induct)
  case (denotesI i v ts)
  have "list_all2 (denotes look') (payload_children (payload v)) ts"
    unfolding list_all2_conv_all_nth
  proof (intro conjI allI impI)
    show "length (payload_children (payload v)) = length ts"
      using denotesI.IH by (simp add: list_all2_lengthD)
    fix k assume k: "k < length (payload_children (payload v))"
    let ?c = "payload_children (payload v) ! k"
    have "refers look i ?c" using k denotesI.hyps by (auto simp: refers_def)
    then have "\<And>j. (refers look)\<^sup>*\<^sup>* ?c j \<Longrightarrow> look' j = look j"
      using denotesI.prems by (meson converse_rtranclp_into_rtranclp)
    then show "denotes look' ?c (ts ! k)"
      using list_all2_nthD [OF denotesI.IH k] by blast
  qed
  moreover have "look' i = Some v" using denotesI.prems [of i] denotesI.hyps by simp
  ultimately show ?case by (rule denotes.denotesI [rotated])
qed

lemma reach_agree:
  assumes "(refers look)\<^sup>*\<^sup>* i j" and "\<And>j. (refers look)\<^sup>*\<^sup>* i j \<Longrightarrow> look' j = look j"
  shows "(refers look')\<^sup>*\<^sup>* i j"
  using assms(1)
proof induction
  case (step y z)
  from step(2) assms(2) [OF step(1)] have "refers look' y z" by (simp add: refers_def)
  with step(3) show ?case by (rule rtranclp.rtrancl_into_rtrancl)
qed simp

lemma those_map_Some:
  "\<forall>x \<in> set xs. f x \<noteq> None \<Longrightarrow> those (map f xs) = Some (map (\<lambda>x. the (f x)) xs)"
  by (induction xs) auto

text \<open>The graph below \<open>root\<close>, as a specification.\<close>

definition graph_below :: "ProgramValueArena \<Rightarrow> u64 \<Rightarrow> ProgramValueGraph \<Rightarrow> bool" where
  "graph_below a root g \<longleftrightarrow>
    graph_root g = root \<and>
    sorted_wrt (<) (map value_id (graph_values g)) \<and>
    (\<forall>i. graph_lookup g i = (if (refers (Lookup a))\<^sup>*\<^sup>* root i then Lookup a i else None))"

lemma export_outcome:
  assumes inv: "arena_inv a"
  shows "Lookup a root \<noteq> None \<Longrightarrow>
      \<exists>g. Export root a = Some (NoArenaError, Some g) \<and> graph_below a root g"
    and "Lookup a root = None \<Longrightarrow> Export root a = Some (InvalidId, None)"
proof -
  assume root: "Lookup a root \<noteq> None"
  then have used: "id_used a root" using arena_invD(2) [OF inv] by blast
  then have "unat root \<le> Suc (length (arena_values a))"
    using arena_invD(4) [OF inv] by (auto simp: id_used_def word_le_nat_alt)
  from collect_total(1) [OF inv used this] obtain included where
    included: "collect (Suc (length (arena_values a))) a root [] = Some included"
    by (auto simp del: collect.simps)
  from collect_closure(1) [OF this inv used] have closure: "root \<in> set included"
    "\<forall>j \<in> set included. (refers (Lookup a))\<^sup>*\<^sup>* root j"
    "\<forall>j \<in> set included. closed_within (Lookup a) (set included) j" by auto
  have reach: "set included = {j. (refers (Lookup a))\<^sup>*\<^sup>* root j}"
  proof (intro set_eqI iffI CollectI)
    fix j assume "j \<in> {j. (refers (Lookup a))\<^sup>*\<^sup>* root j}"
    then have "(refers (Lookup a))\<^sup>*\<^sup>* root j" by simp
    then show "j \<in> set included"
      by induction (use closure in \<open>auto simp: closed_within_def\<close>)
  qed (use closure(2) in blast)
  have found: "\<forall>j \<in> set included. Lookup a j \<noteq> None"
  proof
    fix j assume "j \<in> set included"
    with reach have "(refers (Lookup a))\<^sup>*\<^sup>* root j" by simp
    then show "Lookup a j \<noteq> None"
      by induction (use root arena_child [OF inv] in \<open>auto simp: refers_def\<close>)
  qed
  let ?vs = "map (\<lambda>j. the (Lookup a j)) included"
  let ?g = "\<lparr>graph_root = root, graph_values = ?vs\<rparr>"
  have "those (map (store_find (arena_values a)) included) = Some ?vs"
    using those_map_Some [OF found] by (simp add: Lookup_def [abs_def])
  then have export: "Export root a = Some (NoArenaError, Some ?g)"
    using root included by (simp add: Export_def del: collect.simps)
  have ids: "map value_id ?vs = included"
    using found arena_invD(3) [OF inv] by (auto simp: arena_value_ok_def intro!: map_idI)
  have sorted: "sorted_wrt (<) included"
    using collect_sorted(1) [OF included] by (simp add: strict_sorted_iff)
  have "graph_lookup ?g i = (if (refers (Lookup a))\<^sup>*\<^sup>* root i then Lookup a i else None)" for i
  proof (cases "i \<in> set included")
    case True
    then obtain v where v: "Lookup a i = Some v" using found by auto
    moreover have "value_id v = i" using arena_invD(3) [OF inv v] by (simp add: arena_value_ok_def)
    moreover have "v \<in> set ?vs" using True v by force
    ultimately show ?thesis
      using graph_lookup_value [of ?g i v] ids sorted_wrt_less_distinct [OF sorted] True reach
      by (simp add: comp_def)
  next
    case False
    then have "graph_lookup ?g i = None" using graph_ids [of ?g i] ids by (simp add: flip: set_map)
    with False reach show ?thesis by simp
  qed
  with ids sorted have "graph_below a root ?g" by (simp add: graph_below_def)
  with export show "\<exists>g. Export root a = Some (NoArenaError, Some g) \<and> graph_below a root g" by blast
next
  assume "Lookup a root = None"
  then show "Export root a = Some (InvalidId, None)" by (simp add: Export_def)
qed

lemma export_returns: "arena_inv a \<Longrightarrow> Export root a \<noteq> None"
  using export_outcome [of a root] by (cases "Lookup a root = None") auto

end
