(* ===== verification/ValueTyping.thy ===== *)
theory ValueTyping
  imports ValueExport
begin

text \<open>
  Well-typed trees, and that the validation of a graph at the runtime's boundaries
  (ValidateProgramValueGraph) accepts exactly the graphs whose tree is well typed.
\<close>

section \<open>The type system\<close>

definition has_schema :: "TypeSchemaDefinition list \<Rightarrow> TypeRef \<Rightarrow> TypeSchemaDefinition \<Rightarrow> bool" where
  "has_schema schemas t s \<longleftrightarrow> (\<exists>i. named t = Some i \<and> schema_for schemas i = Some s)"

definition epoch_matches :: "u64 option \<Rightarrow> HandleValue \<Rightarrow> bool" where
  "epoch_matches epoch h \<longleftrightarrow> workset_epoch h \<noteq> 0 \<and> (\<forall>e. epoch = Some e \<longrightarrow> workset_epoch h = e)"

text \<open>
  A node of type \<open>t\<close> with this payload and children of these types; \<open>0\<close> stands in the payload
  where an identity was.
\<close>

inductive node_typed ::
  "TypeSchemaDefinition list \<Rightarrow> u64 option \<Rightarrow> TypeRef \<Rightarrow> ProgramValuePayload \<Rightarrow> TypeRef list \<Rightarrow> bool"
  for schemas epoch where
  builtin_node: "named t = None \<Longrightarrow> builtin_matches (builtin t) p \<Longrightarrow> node_typed schemas epoch t p []"
| string_node: "has_schema schemas t s \<Longrightarrow> schema_kind s = BoundedUtf8String \<Longrightarrow>
    size_of x \<le> maximum_size s \<Longrightarrow> node_typed schemas epoch t (StringValue x) []"
| bytes_node: "has_schema schemas t s \<Longrightarrow> schema_kind s = BoundedBytes \<Longrightarrow>
    size_of x \<le> maximum_size s \<Longrightarrow> node_typed schemas epoch t (BytesValue x) []"
| enum_node: "has_schema schemas t s \<Longrightarrow> schema_kind s = ClosedEnum \<Longrightarrow>
    m \<in> set (enum_members s) \<Longrightarrow>
    node_typed schemas epoch t (EnumValue (schema_identity s) (member_value m)) []"
| none_node: "has_schema schemas t s \<Longrightarrow> schema_kind s = OptionalKind \<Longrightarrow>
    element_type s = Some e \<Longrightarrow> node_typed schemas epoch t (OptionalValue None) []"
| some_node: "has_schema schemas t s \<Longrightarrow> schema_kind s = OptionalKind \<Longrightarrow>
    element_type s = Some e \<Longrightarrow> node_typed schemas epoch t (OptionalValue (Some 0)) [e]"
| record_node: "has_schema schemas t s \<Longrightarrow> schema_kind s = RecordKind \<Longrightarrow>
    node_typed schemas epoch t (RecordValue (replicate (length (record_fields s)) 0))
      (map field_type (record_fields s))"
| list_node: "has_schema schemas t s \<Longrightarrow> schema_kind s = BoundedList \<Longrightarrow>
    element_type s = Some e \<Longrightarrow> (of_nat n :: u64) \<le> maximum_size s \<Longrightarrow>
    node_typed schemas epoch t (ListValue (replicate n 0)) (replicate n e)"
| artifact_node: "has_schema schemas t s \<Longrightarrow> schema_kind s = ArtifactReferenceKind \<Longrightarrow>
    element_type s = Some e \<Longrightarrow> named e = Some (artifact_schema r) \<Longrightarrow>
    artifact_id r \<noteq> [] \<Longrightarrow> \<not> hash_empty (content_hash r) \<Longrightarrow> storage_reference r \<noteq> [] \<Longrightarrow>
    artifact_complete r \<or> permits_incomplete s \<Longrightarrow>
    node_typed schemas epoch t (ArtifactReferenceValue r) []"
| resource_node: "has_schema schemas t s \<Longrightarrow> schema_kind s = ResourceHandleKind \<Longrightarrow>
    element_type s = Some e \<Longrightarrow> named e = Some (handle_type h) \<Longrightarrow> handle_id h \<noteq> 0 \<Longrightarrow>
    epoch_matches epoch h \<Longrightarrow> node_typed schemas epoch t (ResourceHandleValue h) []"
| opaque_node: "has_schema schemas t s \<Longrightarrow> schema_kind s = EpochBoundOpaqueHandle \<Longrightarrow>
    element_type s = Some e \<Longrightarrow> named e = Some (handle_type h) \<Longrightarrow> handle_id h \<noteq> 0 \<Longrightarrow>
    epoch_matches epoch h \<Longrightarrow> node_typed schemas epoch t (OpaqueHandleValue h) []"

inductive_cases node_typedE: "node_typed schemas epoch t p ts"

fun well_typed :: "TypeSchemaDefinition list \<Rightarrow> u64 option \<Rightarrow> value_tree \<Rightarrow> bool" where
  "well_typed schemas epoch (ValueTree t p ts) \<longleftrightarrow>
    node_typed schemas epoch t p (map tree_type ts) \<and> list_all (well_typed schemas epoch) ts"

section \<open>One value\<close>

text \<open>The types of the children of a value, all of which resolve.\<close>

definition child_types :: "value_lookup \<Rightarrow> ProgramValue \<Rightarrow> TypeRef list" where
  "child_types look v = map (\<lambda>c. value_type (the (look c))) (payload_children (payload v))"

lemma child_has_type_iff:
  "store_find vals c \<noteq> None \<Longrightarrow> child_has_type vals t c \<longleftrightarrow> value_type (the (store_find vals c)) = t"
  by (auto simp: child_has_type_def)

lemma payload_kinds:
  "payload_shape p = StringValue x \<longleftrightarrow> p = StringValue x"
  "payload_shape p = BytesValue x \<longleftrightarrow> p = BytesValue x"
  "payload_shape p = EnumValue i n \<longleftrightarrow> p = EnumValue i n"
  "payload_shape p = OptionalValue None \<longleftrightarrow> p = OptionalValue None"
  "payload_shape p = OptionalValue (Some 0) \<longleftrightarrow> (\<exists>c. p = OptionalValue (Some c))"
  "payload_shape p = RecordValue (replicate k 0) \<longleftrightarrow> (\<exists>cs. p = RecordValue cs \<and> length cs = k)"
  "payload_shape p = ListValue (replicate k 0) \<longleftrightarrow> (\<exists>cs. p = ListValue cs \<and> length cs = k)"
  "payload_shape p = ArtifactReferenceValue r \<longleftrightarrow> p = ArtifactReferenceValue r"
  "payload_shape p = ResourceHandleValue h \<longleftrightarrow> p = ResourceHandleValue h"
  "payload_shape p = OpaqueHandleValue h \<longleftrightarrow> p = OpaqueHandleValue h"
  by (cases p; auto simp: map_replicate_const)+

lemma builtin_matches_shape: "builtin_matches b (payload_shape p) \<longleftrightarrow> builtin_matches b p"
  by (cases p) (auto simp: builtin_matches_def split: BuiltinType.splits)

lemma builtin_matches_leaf: "builtin_matches b p \<Longrightarrow> payload_children p = []"
  by (cases b; cases p) (simp_all add: builtin_matches_def)

lemma handle_violates_iff:
  "\<not> handle_violates s epoch h \<longleftrightarrow>
    handle_id h \<noteq> 0 \<and> (\<exists>e. element_type s = Some e \<and> named e = Some (handle_type h)) \<and>
    epoch_matches epoch h"
  by (auto simp: handle_violates_def epoch_matches_def split: option.splits)

lemma artifact_violates_iff:
  "\<not> artifact_violates s r \<longleftrightarrow>
    (\<exists>e. element_type s = Some e \<and> named e = Some (artifact_schema r)) \<and>
    artifact_id r \<noteq> [] \<and> \<not> hash_empty (content_hash r) \<and> storage_reference r \<noteq> [] \<and>
    (artifact_complete r \<or> permits_incomplete s)"
  by (auto simp: artifact_violates_def split: option.splits)

lemma fields_typed:
  assumes "\<forall>c \<in> set cs. store_find vals c \<noteq> None" and "length cs = length fs"
  shows "list_all2 (\<lambda>c f. child_has_type vals (field_type f) c) cs fs \<longleftrightarrow>
    map (\<lambda>c. value_type (the (store_find vals c))) cs = map field_type fs"
  using assms by (auto simp: list_all2_conv_all_nth list_eq_iff_nth_eq child_has_type_iff)

lemma elements_typed:
  assumes "\<forall>c \<in> set cs. store_find vals c \<noteq> None"
  shows "list_all (child_has_type vals t) cs \<longleftrightarrow>
    map (\<lambda>c. value_type (the (store_find vals c))) cs = replicate (length cs) t"
  using assms by (induction cs) (auto simp: child_has_type_iff)

lemma validate_named_sound:
  assumes s: "has_schema schemas t s"
    and found: "\<forall>c \<in> set (payload_children p). store_find vals c \<noteq> None"
    and ok: "validate_named vals epoch s p = NoArenaError"
  shows "node_typed schemas epoch t (payload_shape p)
    (map (\<lambda>c. value_type (the (store_find vals c))) (payload_children p))"
proof (cases "schema_kind s")
  case BoundedUtf8String
  with s ok show ?thesis
    by (auto simp: validate_named_def not_less split: ProgramValuePayload.splits if_splits intro: string_node)
next
  case BoundedBytes
  with s ok show ?thesis
    by (auto simp: validate_named_def not_less split: ProgramValuePayload.splits if_splits intro: bytes_node)
next
  case ClosedEnum
  with s ok show ?thesis
    by (auto simp: validate_named_def split: ProgramValuePayload.splits if_splits intro: enum_node)
next
  case OptionalKind
  with s ok found show ?thesis
    by (auto simp: validate_named_def child_has_type_def
        split: ProgramValuePayload.splits if_splits option.splits intro: none_node some_node)
next
  case RecordKind
  with ok obtain cs where cs: "p = RecordValue cs" "length cs = length (record_fields s)"
    "list_all2 (\<lambda>c f. child_has_type vals (field_type f) c) cs (record_fields s)"
    by (auto simp: validate_named_def split: ProgramValuePayload.splits if_splits)
  have "map (\<lambda>c. value_type (the (store_find vals c))) cs = map field_type (record_fields s)"
    using fields_typed [OF _ cs(2)] found cs(1,3) by simp
  with record_node [OF s RecordKind] cs show ?thesis by (simp add: map_replicate_const)
next
  case BoundedList
  with ok obtain cs e where cs: "p = ListValue cs" "element_type s = Some e"
    "size_of cs \<le> maximum_size s" "list_all (child_has_type vals e) cs"
    by (auto simp: validate_named_def not_less split: ProgramValuePayload.splits if_splits option.splits)
  have "map (\<lambda>c. value_type (the (store_find vals c))) cs = replicate (length cs) e"
    using elements_typed found cs(1,4) by simp
  with list_node [OF s BoundedList cs(2), of "length cs"] cs show ?thesis
    by (simp add: map_replicate_const size_of_def)
next
  case ArtifactReferenceKind
  with s ok show ?thesis
    by (auto simp: validate_named_def artifact_violates_iff split: ProgramValuePayload.splits if_splits
        intro: artifact_node)
next
  case ResourceHandleKind
  with s ok show ?thesis
    by (auto simp: validate_named_def handle_violates_iff split: ProgramValuePayload.splits if_splits
        intro: resource_node)
next
  case EpochBoundOpaqueHandle
  with s ok show ?thesis
    by (auto simp: validate_named_def handle_violates_iff split: ProgramValuePayload.splits if_splits
        intro: opaque_node)
qed

lemma has_schema_named: "has_schema schemas t s \<Longrightarrow> \<exists>i. named t = Some i \<and> schema_for schemas i = Some s"
  by (simp add: has_schema_def)

lemma validate_value_typed:
  assumes found: "\<forall>c \<in> set (payload_children (payload v)). store_find vals c \<noteq> None"
  shows "validate_value schemas vals epoch v = NoArenaError \<longleftrightarrow>
    node_typed schemas epoch (value_type v) (payload_shape (payload v)) (child_types (store_find vals) v)"
proof
  assume ok: "validate_value schemas vals epoch v = NoArenaError"
  show "node_typed schemas epoch (value_type v) (payload_shape (payload v)) (child_types (store_find vals) v)"
  proof (cases "named (value_type v)")
    case None
    with ok have "builtin_matches (builtin (value_type v)) (payload v)"
      by (simp add: validate_value_def split: if_splits)
    with None show ?thesis
      using builtin_node [OF None, of "payload_shape (payload v)"]
      by (simp add: builtin_matches_shape builtin_matches_leaf child_types_def)
  next
    case (Some ident)
    with ok obtain s where s: "schema_for schemas ident = Some s"
      "validate_named vals epoch s (payload v) = NoArenaError"
      by (auto simp: validate_value_def split: option.splits)
    with Some have "has_schema schemas (value_type v) s" by (simp add: has_schema_def)
    from validate_named_sound [OF this found s(2)] show ?thesis by (simp add: child_types_def)
  qed
next
  assume "node_typed schemas epoch (value_type v) (payload_shape (payload v)) (child_types (store_find vals) v)"
  then show "validate_value schemas vals epoch v = NoArenaError"
  proof (cases rule: node_typed.cases)
    case builtin_node
    then show ?thesis by (simp add: validate_value_def builtin_matches_shape)
  next
    case (enum_node s m)
    then show ?thesis
      using has_schema_named [OF enum_node(3)]
      by (auto simp: validate_value_def validate_named_def payload_kinds)
  next
    case (some_node s e)
    then obtain c where "payload v = OptionalValue (Some c)" by (auto simp: payload_kinds)
    with some_node found show ?thesis
      using has_schema_named [OF some_node(3)]
      by (auto simp: validate_value_def validate_named_def child_types_def child_has_type_def)
  next
    case (record_node s)
    then obtain cs where cs: "payload v = RecordValue cs" "length cs = length (record_fields s)"
      by (auto simp: payload_kinds)
    with record_node found show ?thesis
      using has_schema_named [OF record_node(3)] fields_typed [OF _ cs(2)]
      by (auto simp: validate_value_def validate_named_def child_types_def)
  next
    case (list_node s e n)
    then obtain cs where cs: "payload v = ListValue cs" "length cs = n" by (auto simp: payload_kinds)
    with list_node found show ?thesis
      using has_schema_named [OF list_node(3)] elements_typed [of cs vals e]
      by (auto simp: validate_value_def validate_named_def child_types_def size_of_def)
  qed (auto simp: validate_value_def validate_named_def payload_kinds artifact_violates_iff
      handle_violates_iff dest!: has_schema_named)
qed

section \<open>A graph\<close>

lemma well_typed_denotes:
  assumes "denotes look i t"
  shows "well_typed schemas epoch t \<longleftrightarrow>
    (\<forall>j v. (refers look)\<^sup>*\<^sup>* i j \<longrightarrow> look j = Some v \<longrightarrow>
      node_typed schemas epoch (value_type v) (payload_shape (payload v)) (child_types look v))"
  using assms
proof (induction i t rule: denotes.induct)
  case (denotesI i v ts)
  let ?ok = "\<lambda>v. node_typed schemas epoch (value_type v) (payload_shape (payload v)) (child_types look v)"
  let ?below = "\<lambda>i. \<forall>j v. (refers look)\<^sup>*\<^sup>* i j \<longrightarrow> look j = Some v \<longrightarrow> ?ok v"
  have "map tree_type ts = child_types look v"
    unfolding child_types_def using denotesI.IH
    by (induction rule: list_all2_induct) (auto elim: denotesE)
  moreover have "list_all (well_typed schemas epoch) ts \<longleftrightarrow>
      (\<forall>c \<in> set (payload_children (payload v)). ?below c)"
    using denotesI.IH by (induction rule: list_all2_induct) auto
  moreover have "?below i \<longleftrightarrow> ?ok v \<and> (\<forall>c \<in> set (payload_children (payload v)). ?below c)"
  proof -
    have child: "refers look i c \<longleftrightarrow> c \<in> set (payload_children (payload v))" for c
      using denotesI.hyps by (auto simp: refers_def)
    have "(refers look)\<^sup>*\<^sup>* i j \<longleftrightarrow>
        j = i \<or> (\<exists>c \<in> set (payload_children (payload v)). (refers look)\<^sup>*\<^sup>* c j)" for j
      using child by (blast elim: converse_rtranclpE intro: converse_rtranclp_into_rtranclp)
    then show ?thesis using denotesI.hyps by auto
  qed
  ultimately show ?case by simp
qed

lemma validate_values_iff:
  "validate_values schemas vals epoch vs = NoArenaError \<longleftrightarrow>
    (\<forall>v \<in> set vs. validate_value schemas vals epoch v = NoArenaError)"
  by (induction vs) (auto simp: Let_def)

lemma fold_emplace_lookup:
  "store_find (fold (\<lambda>v. store_emplace (value_id v) v) vs m) i =
    (case store_find m i of Some v \<Rightarrow> Some v | None \<Rightarrow> List.find (\<lambda>v. value_id v = i) vs)"
  by (induction vs arbitrary: m) (auto simp: um.find_emplace split: option.split)

lemma fold_last:
  "distinct (map value_id vs) \<Longrightarrow>
    fold (\<lambda>v r. if value_id v = i then Some v else r) vs r =
      (case List.find (\<lambda>v. value_id v = i) vs of Some v \<Rightarrow> Some v | None \<Rightarrow> r)"
proof (induction vs arbitrary: r)
  case (Cons v vs)
  show ?case
  proof (cases "value_id v = i")
    case True
    with Cons.prems have "List.find (\<lambda>v. value_id v = i) vs = None"
      by (auto simp: find_None_iff image_iff)
    with True Cons show ?thesis by simp
  qed (use Cons in simp)
qed simp

lemma graph_closed_children:
  assumes "graph_closed g" and "v \<in> set (graph_values g)" and "c \<in> set (payload_children (payload v))"
  shows "graph_lookup g c \<noteq> None"
proof -
  from assms(1) obtain t where t: "denotes (graph_lookup g) (graph_root g) t"
    and ids: "distinct (map value_id (graph_values g))"
    and reach: "\<forall>v \<in> set (graph_values g). (refers (graph_lookup g))\<^sup>*\<^sup>* (graph_root g) (value_id v)"
    by (auto simp: graph_closed_def)
  have v: "graph_lookup g (value_id v) = Some v" using graph_lookup_value [OF ids] assms(2) by blast
  obtain u where "denotes (graph_lookup g) (value_id v) u"
    using denotes_reach [OF _ t] reach assms(2) by blast
  from denotes_child [OF this v assms(3)] obtain w where "denotes (graph_lookup g) c w" by blast
  then show ?thesis by (auto elim: denotesE)
qed

text \<open>Validation accepts a graph when it is closed, fits, and its tree is well typed.\<close>

lemma validation_outcome:
  "ValidateProgramValueGraph g t schemas l epoch = Some NoArenaError \<longleftrightarrow>
    graph_closed g \<and> graph_fits g (new_value_arena l) \<and>
    (\<exists>u. denotes (graph_lookup g) (graph_root g) u \<and> tree_type u = t \<and> well_typed schemas epoch u)"
proof (cases "graph_closed g \<and> graph_fits g (new_value_arena l)")
  case False
  then obtain e where "e \<noteq> NoArenaError"
    "Import g (new_value_arena l) = Some (insert_error e, new_value_arena l)"
    using import_outcome [OF new_value_arena_inv, of g l] by (auto simp: import_spec_def)
  with False show ?thesis
    by (auto simp: ValidateProgramValueGraph_def insert_ok_def insert_error_def)
next
  case True
  then obtain i b where import: "Import g (new_value_arena l)
      = Some (\<lparr>insert_status = NoArenaError, inserted_value = i\<rparr>, b)" "id_used b i"
    using import_outcome [OF new_value_arena_inv, of g l] by (auto simp: import_spec_def)
  have ids: "distinct (map value_id (graph_values g))" using True by (simp add: graph_closed_def)
  obtain u where u: "denotes (graph_lookup g) (graph_root g) u" using True by (auto simp: graph_closed_def)
  then obtain r where r: "graph_lookup g (graph_root g) = Some r" "tree_type u = value_type r"
    by (auto elim: denotesE)
  let ?vals = "fold (\<lambda>v. store_emplace (value_id v) v) (graph_values g) []"
  have look: "store_find ?vals = graph_lookup g"
    by (intro ext) (simp add: fold_emplace_lookup graph_lookup_def um.find_empty)
  have root: "fold (\<lambda>v r. if value_id v = graph_root g then Some v else r) (graph_values g) None = Some r"
    using r(1) by (simp add: fold_last [OF ids] graph_lookup_def)
  have "validate_values schemas ?vals epoch (graph_values g) = NoArenaError \<longleftrightarrow>
      (\<forall>v \<in> set (graph_values g). node_typed schemas epoch (value_type v) (payload_shape (payload v))
        (child_types (graph_lookup g) v))"
    unfolding validate_values_iff
    using validate_value_typed [of _ ?vals schemas epoch] graph_closed_children True look by simp
  also have "\<dots> \<longleftrightarrow> well_typed schemas epoch u"
  proof -
    have "(refers (graph_lookup g))\<^sup>*\<^sup>* (graph_root g) j \<and> graph_lookup g j = Some v \<longleftrightarrow>
        v \<in> set (graph_values g) \<and> value_id v = j" for j v
      using True graph_lookup_value [OF ids, of j v] by (auto simp: graph_closed_def)
    then show ?thesis unfolding well_typed_denotes [OF u] by auto
  qed
  finally have types: "validate_values schemas ?vals epoch (graph_values g) = NoArenaError \<longleftrightarrow>
      well_typed schemas epoch u" .
  have "ValidateProgramValueGraph g t schemas l epoch = Some NoArenaError \<longleftrightarrow>
      value_type r = t \<and> well_typed schemas epoch u"
    using import types root
    by (simp add: ValidateProgramValueGraph_def insert_ok_def id_used_def Let_def)
  moreover have "denotes (graph_lookup g) (graph_root g) w \<longleftrightarrow> w = u" for w
    using u denotes_unique by blast
  ultimately show ?thesis using True r(2) by simp
qed

end
