(* ===== verification/ValueContracts.thy ===== *)
theory ValueContracts
  imports ValueTyping
begin

text \<open>
  The arena as a machine whose operations keep its invariant and only ever add values, and the
  properties of the program values.
\<close>

section \<open>The arena as a machine\<close>

datatype arena_call =
    AddCall TypeRef ProgramValuePayload
  | CloneCall u64
  | CloneWithPayloadCall u64 ProgramValuePayload
  | ImportCall ProgramValueGraph

fun arena_step :: "arena_call \<Rightarrow> ProgramValueArena \<Rightarrow> ProgramValueArena" where
  "arena_step (AddCall t p) a = snd (Add t p a)"
| "arena_step (CloneCall i) a = snd (Clone i a)"
| "arena_step (CloneWithPayloadCall i p) a = snd (CloneWithPayload i p a)"
| "arena_step (ImportCall g) a = (case Import g a of None \<Rightarrow> a | Some (_, b) \<Rightarrow> b)"

lemma Add_step:
  assumes "arena_inv a"
  shows "arena_inv (snd (Add t p a))" and "extends a (snd (Add t p a))"
proof -
  note outcome = Add_outcome [OF assms, of t p]
  show "arena_inv (snd (Add t p a))"
    using outcome arena_after_inv [OF assms, of t p] assms by (cases "addable t p a") auto
  show "extends a (snd (Add t p a))"
    using outcome extends_arena_after [OF assms, of t p] extends_refl by (cases "addable t p a") auto
qed

lemma arena_step_extends:
  assumes "arena_inv a"
  shows "arena_inv (arena_step x a) \<and> extends a (arena_step x a)"
proof (cases x)
  case (ImportCall g)
  then show ?thesis
    using import_outcome [OF assms, of g] assms extends_refl
    by (auto simp: import_spec_def split: if_splits)
qed (auto simp: Clone_def CloneWithPayload_def Add_step assms extends_refl split: option.splits)

interpretation arena_machine: monotone_machine arena_step arena_inv extends
  by unfold_locales (auto simp: arena_step_extends extends_refl intro: extends_trans)

abbreviation arena_reachable :: "ProgramValueArenaLimits \<Rightarrow> ProgramValueArena \<Rightarrow> bool" where
  "arena_reachable l \<equiv> reachable_from arena_step (new_value_arena l)"

lemma arena_reachable_inv: "arena_reachable l a \<Longrightarrow> arena_inv a"
  using arena_machine.reachable_inv new_value_arena_inv by blast

lemma arena_later:
  "arena_inv a \<Longrightarrow> reachable_from arena_step a b \<Longrightarrow> arena_inv b \<and> extends a b"
  using arena_machine.reachable_le by blast

lemma arena_reachable_limits: "arena_reachable l a \<Longrightarrow> limits a = l"
  using arena_later [OF new_value_arena_inv] by (fastforce simp: extends_def new_value_arena_def)

section \<open>An exported graph is closed\<close>

lemma graph_below_closed:
  assumes inv: "arena_inv a" and root: "Lookup a root \<noteq> None" and below: "graph_below a root g"
  shows "graph_closed g"
    and "denotes (graph_lookup g) (graph_root g) t \<longleftrightarrow> denotes (Lookup a) root t"
proof -
  have look: "graph_lookup g j = Lookup a j" if "(refers (Lookup a))\<^sup>*\<^sup>* root j" for j
    using below that by (simp add: graph_below_def)
  have groot: "graph_root g = root" using below by (simp add: graph_below_def)
  have ids: "distinct (map value_id (graph_values g))"
    using below sorted_wrt_less_distinct unfolding graph_below_def by blast
  obtain u where u: "denotes (Lookup a) root u" using arena_denotes [OF inv root] by blast
  from denotes_agree [OF u look] have u': "denotes (graph_lookup g) root u" .
  show "denotes (graph_lookup g) (graph_root g) t \<longleftrightarrow> denotes (Lookup a) root t"
    using denotes_unique [OF u] denotes_unique [OF u'] u u' groot by blast
  have node: "(refers (graph_lookup g))\<^sup>*\<^sup>* root (value_id v) \<and> value_id v \<noteq> 0 \<and>
      ValidatePayloadSemantics (payload v) = NoArenaError" if "v \<in> set (graph_values g)" for v
  proof -
    have "graph_lookup g (value_id v) = Some v" using graph_lookup_value [OF ids] that by blast
    then have reach: "(refers (Lookup a))\<^sup>*\<^sup>* root (value_id v)" and v: "Lookup a (value_id v) = Some v"
      using below by (auto simp: graph_below_def split: if_splits)
    have "id_used a (value_id v)" using arena_invD(2) [OF inv, of "value_id v"] v by simp
    with reach_agree [OF reach look] arena_invD(3) [OF inv v] show ?thesis
      by (simp add: id_used_def arena_value_ok_def)
  qed
  have "root \<noteq> 0" using arena_invD(2) [OF inv, of root] root by (auto simp: id_used_def)
  with ids u' node show "graph_closed g" by (auto simp: graph_closed_def groot)
qed

section \<open>A sample arena\<close>

definition sample_schema :: SchemaIdentity where
  "sample_schema = \<lparr>canonical_id = [108], schema_version = 1, schema_hash = \<lparr>hash_bytes = replicate 32 7\<rparr>\<rparr>"

definition sample_list_schema :: TypeSchemaDefinition where
  "sample_list_schema = \<lparr>schema_identity = sample_schema, schema_kind = BoundedList, maximum_size = 4,
     element_type = Some (Builtin U8T), enum_members = [], record_fields = [], permits_incomplete = False\<rparr>"

definition sample_limits :: ProgramValueArenaLimits where
  "sample_limits = \<lparr>maximum_values = 8, maximum_value_bytes = 500\<rparr>"

text \<open>A byte, a list that has it twice, and a copy of the list.\<close>

definition sample_calls :: "arena_call list" where
  "sample_calls = [AddCall (Builtin U8T) (U8Value 5), AddCall (Named sample_schema) (ListValue [1, 1]),
     CloneCall 2]"

definition sample_arena :: ProgramValueArena where
  "sample_arena = fold arena_step sample_calls (new_value_arena sample_limits)"

definition sample_graph :: ProgramValueGraph where
  "sample_graph = \<lparr>graph_root = 2, graph_values =
     [\<lparr>value_id = 1, value_type = Builtin U8T, payload = U8Value 5\<rparr>,
      \<lparr>value_id = 2, value_type = Named sample_schema, payload = ListValue [1, 1]\<rparr>]\<rparr>"

lemma sample_arena_reachable: "arena_reachable sample_limits sample_arena"
  unfolding sample_arena_def by (rule reachable_fold)

lemma sample_arena_value: "Lookup sample_arena 2 =
    Some \<lparr>value_id = 2, value_type = Named sample_schema, payload = ListValue [1, 1]\<rparr>"
  by code_simp

lemma sample_export: "Export 2 sample_arena = Some (NoArenaError, Some sample_graph)"
  by code_simp

lemma sample_sizes:
  "length (arena_values sample_arena) = 3" "arena_bytes sample_arena = 134"
  "map (\<lambda>v. Measure (value_type v) (payload v)) (graph_values sample_graph) = [10, 62]"
  by code_simp+

lemma sample_fits: "graph_fits sample_graph sample_arena"
proof -
  have "graph_bytes sample_graph = (\<Sum>w \<leftarrow> map (\<lambda>v. Measure (value_type v) (payload v))
      (graph_values sample_graph). unat w)"
    by (simp add: graph_bytes_def value_size_def comp_def)
  then have "graph_bytes sample_graph = 72" unfolding sample_sizes by simp
  moreover have "length (graph_values sample_graph) = 2" by (simp add: sample_graph_def)
  ultimately show ?thesis
    using sample_sizes arena_reachable_limits [OF sample_arena_reachable]
    by (simp add: graph_fits_def sample_limits_def unsigned_minus_1_eq_mask mask_eq_exp_minus_1)
qed

section \<open>The properties\<close>

text \<open>
  C22. Values are immutable and acyclic. In every arena that adding, cloning and importing can
  produce, every value has exactly one tree, which no later operation changes; the values are within
  the count budget, and the byte counter is the sum of what they measure and within its budget.
\<close>

theorem values_keep_their_tree:
  assumes "arena_reachable l a" and "reachable_from arena_step a b" and "Lookup a i = Some v"
  shows "Lookup b i = Some v \<and>
    (\<exists>t. \<forall>u. (denotes (Lookup a) i u \<longleftrightarrow> u = t) \<and> (denotes (Lookup b) i u \<longleftrightarrow> u = t)) \<and>
    length (arena_values b) \<le> unat (maximum_values l) \<and>
    unat (arena_bytes b) = (\<Sum>p \<leftarrow> arena_values b. value_size (snd p)) \<and>
    unat (arena_bytes b) \<le> unat (maximum_value_bytes l)"
proof -
  have inv: "arena_inv a" by (rule arena_reachable_inv [OF assms(1)])
  from arena_later [OF inv assms(2)] have b: "arena_inv b" "extends a b" by blast+
  have "limits b = l" using arena_reachable_limits [OF assms(1)] b(2) by (simp add: extends_def)
  moreover obtain t where t: "denotes (Lookup a) i t" using arena_denotes [OF inv] assms(3) by blast
  moreover have "denotes (Lookup b) i t" by (rule extends_denotes [OF b(2) t])
  ultimately have tree: "\<forall>u. (denotes (Lookup a) i u \<longleftrightarrow> u = t) \<and> (denotes (Lookup b) i u \<longleftrightarrow> u = t)"
    using denotes_unique [of "Lookup a" i] denotes_unique [of "Lookup b" i] by blast
  moreover have "Lookup b i = Some v" using b(2) assms(3) by (simp add: extends_def)
  moreover have "unat (arena_bytes b) \<le> unat (maximum_value_bytes l)"
    using arena_invD(7) [OF b(1)] \<open>limits b = l\<close> by (simp add: word_le_nat_alt)
  ultimately show ?thesis
    using arena_invD(5,6) [OF b(1)] \<open>limits b = l\<close> by auto
qed

theorem values_keep_their_tree_witness:
  "\<exists>t. denotes (Lookup sample_arena) 2 t \<and>
    denotes (Lookup (arena_step (ImportCall sample_graph) sample_arena)) 2 t"
  using values_keep_their_tree [OF sample_arena_reachable
      reachable_from.step [OF reachable_from.start] sample_arena_value, of "ImportCall sample_graph"]
  by blast

text \<open>
  C23. An import is all or nothing, and says when. A graph is taken exactly when its identities
  are nonzero and distinct, its root has a tree (every reference resolves and none is circular),
  every value is below the root, every payload is proper, and the count, the bytes and the
  identities left are enough. Then the returned value has the root's tree, all values keep theirs,
  and the counters grow by exactly the graph; otherwise an error is returned and the arena is
  unchanged. No import throws.
\<close>

theorem import_takes_a_closed_graph_or_nothing:
  assumes "arena_reachable l a"
  shows "if graph_closed g \<and> graph_fits g a then
      \<exists>i b. Import g a = Some (\<lparr>insert_status = NoArenaError, inserted_value = i\<rparr>, b) \<and> i \<noteq> 0 \<and>
        (\<exists>t. denotes (graph_lookup g) (graph_root g) t \<and> denotes (Lookup b) i t) \<and>
        (\<forall>j t. denotes (Lookup a) j t \<longrightarrow> denotes (Lookup b) j t) \<and>
        length (arena_values b) = length (arena_values a) + length (graph_values g) \<and>
        unat (arena_bytes b) = unat (arena_bytes a) + graph_bytes g
    else \<exists>e. e \<noteq> NoArenaError \<and> Import g a = Some (insert_error e, a)"
proof -
  have "import_spec g a (Import g a)" by (rule import_outcome [OF arena_reachable_inv [OF assms]])
  moreover have "\<exists>t. denotes (graph_lookup g) (graph_root g) t" if "graph_closed g"
    using that by (simp add: graph_closed_def)
  ultimately show ?thesis
    unfolding import_spec_def id_used_def using extends_denotes [of a]
    by (cases "graph_closed g \<and> graph_fits g a") (simp, blast, simp only: if_False)
qed

theorem import_takes_a_closed_graph_or_nothing_witness:
  "if graph_closed sample_graph \<and> graph_fits sample_graph sample_arena then
     \<exists>i b. Import sample_graph sample_arena =
       Some (\<lparr>insert_status = NoArenaError, inserted_value = i\<rparr>, b) \<and> length (arena_values b) = 5
   else Import sample_graph sample_arena = None"
proof -
  have "length (arena_values sample_arena) + length (graph_values sample_graph) = 5" by code_simp
  moreover have "graph_closed sample_graph"
    using export_outcome(1) [OF arena_reachable_inv [OF sample_arena_reachable], of 2]
      graph_below_closed(1) [OF arena_reachable_inv [OF sample_arena_reachable], of 2 sample_graph]
    by (auto simp: sample_export sample_arena_value)
  ultimately show ?thesis
    using import_takes_a_closed_graph_or_nothing [OF sample_arena_reachable, of sample_graph] sample_fits
    by auto
qed

text \<open>
  C24. Export and import are inverse up to identities. Exporting a value of an arena succeeds, the
  graph has ascending identities, and importing it into any arena with room for it gives a value
  with the same tree.
\<close>

theorem exported_graph_imports_to_the_same_tree:
  assumes "arena_reachable l a" and "Lookup a root \<noteq> None" and "arena_reachable m b"
  shows "\<exists>g. Export root a = Some (NoArenaError, Some g) \<and>
    sorted_wrt (<) (map value_id (graph_values g)) \<and>
    (graph_fits g b \<longrightarrow>
      (\<exists>i c t. Import g b = Some (\<lparr>insert_status = NoArenaError, inserted_value = i\<rparr>, c) \<and>
        denotes (Lookup a) root t \<and> denotes (Lookup c) i t))"
proof -
  have inv: "arena_inv a" by (rule arena_reachable_inv [OF assms(1)])
  obtain g where g: "Export root a = Some (NoArenaError, Some g)" "graph_below a root g"
    using export_outcome(1) [OF inv assms(2)] by blast
  note closed = graph_below_closed [OF inv assms(2) g(2)]
  obtain t where t: "denotes (Lookup a) root t" using arena_denotes [OF inv assms(2)] by blast
  have "\<exists>i c t. Import g b = Some (\<lparr>insert_status = NoArenaError, inserted_value = i\<rparr>, c) \<and>
      denotes (Lookup a) root t \<and> denotes (Lookup c) i t" if "graph_fits g b"
    using import_outcome [OF arena_reachable_inv [OF assms(3)], of g] that closed t
    unfolding import_spec_def by auto blast
  with g show ?thesis by (auto simp: graph_below_def)
qed

theorem exported_graph_imports_to_the_same_tree_witness:
  "\<exists>i c t. Import sample_graph sample_arena =
      Some (\<lparr>insert_status = NoArenaError, inserted_value = i\<rparr>, c) \<and>
    denotes (Lookup sample_arena) 2 t \<and> denotes (Lookup c) i t"
  using exported_graph_imports_to_the_same_tree [OF sample_arena_reachable _ sample_arena_reachable, of 2]
    sample_fits
  by (auto simp: sample_arena_value sample_export)

text \<open>
  C25. The boundary check is the type system. A graph passes validation against a type exactly when
  it is closed, fits the limits, and its tree has that type at the root and is well typed at every
  node under the schemas and the epoch.
\<close>

theorem validation_accepts_well_typed_graphs:
  "ValidateProgramValueGraph g t schemas l epoch = Some NoArenaError \<longleftrightarrow>
    graph_closed g \<and> graph_fits g (new_value_arena l) \<and>
    (\<exists>u. denotes (graph_lookup g) (graph_root g) u \<and> tree_type u = t \<and> well_typed schemas epoch u)"
  by (rule validation_outcome)

text \<open>The sample graph passes, and one byte short of its size it does not.\<close>

lemma sample_validates:
  "ValidateProgramValueGraph sample_graph (Named sample_schema) [sample_list_schema] sample_limits None
    = Some NoArenaError"
  "ValidateProgramValueGraph sample_graph (Named sample_schema) [sample_list_schema]
    \<lparr>maximum_values = 2, maximum_value_bytes = 71\<rparr> None = Some ByteBudgetExceeded"
  by code_simp+

text \<open>
  C26. The text test is UTF-8. The byte-level loop accepts exactly the byte strings that are
  sequences of encoded Unicode scalar values: no overlong form, no surrogate, nothing above
  0x10ffff, nothing truncated.
\<close>

theorem utf8_test_accepts_encoded_text:
  "IsValidUtf8 s \<longleftrightarrow> (\<exists>ns. list_all scalar_value ns \<and> s = utf8_text ns)"
  by (rule utf8_test_is_exact)

end
