(* ===== verification/ValueGraphs.thy ===== *)
theory ValueGraphs
  imports ValueContracts
begin

text \<open>
  How the executor builds and takes apart values: the free functions over closed graphs at the
  head of SavorCore/Runner/Runtime/ProgramRuntime/Execution/ProgramExecutor.cpp.
\<close>

section \<open>Looking values up and copying graphs\<close>

definition FindValue :: "ProgramValueGraph \<Rightarrow> u64 \<Rightarrow> ProgramValue option" where
  "FindValue g i = List.find (\<lambda>v. value_id v = i) (graph_values g)"

definition RootValue :: "ProgramValueGraph \<Rightarrow> ProgramValue option" where
  "RootValue g = FindValue g (graph_root g)"

text \<open>A default-constructed graph.\<close>

definition no_graph :: ProgramValueGraph where
  "no_graph = \<lparr>graph_root = 0, graph_values = []\<rparr>"

definition replace_id :: "(u64 \<Rightarrow> u64 option) \<Rightarrow> u64 \<Rightarrow> u64" where
  "replace_id remap i = (case remap i of None \<Rightarrow> 0 | Some j \<Rightarrow> j)"

fun remap_in_place :: "ProgramValuePayload \<Rightarrow> (u64 \<Rightarrow> u64 option) \<Rightarrow> ProgramValuePayload" where
  "remap_in_place (OptionalValue c) remap = OptionalValue (map_option (replace_id remap) c)"
| "remap_in_place (RecordValue cs) remap = RecordValue (map (replace_id remap) cs)"
| "remap_in_place (ListValue cs) remap = ListValue (map (replace_id remap) cs)"
| "remap_in_place p remap = p"

text \<open>\<open>remap.emplace(id, next_id++)\<close>: the counter advances whether or not the key is new.\<close>

fun append_remap :: "ProgramValue list \<Rightarrow> u64 \<Rightarrow> (u64 \<Rightarrow> u64 option) \<Rightarrow> (u64 \<Rightarrow> u64 option) \<times> u64" where
  "append_remap [] next remap = (remap, next)"
| "append_remap (v # vs) next remap =
    append_remap vs (next + 1)
      (if remap (value_id v) = None then remap(value_id v \<mapsto> next) else remap)"

definition copy_value :: "(u64 \<Rightarrow> u64 option) \<Rightarrow> ProgramValue \<Rightarrow> ProgramValue" where
  "copy_value remap v = v\<lparr>value_id := replace_id remap (value_id v),
     payload := remap_in_place (payload v) remap\<rparr>"

definition AppendGraph ::
  "ProgramValueGraph \<Rightarrow> ProgramValueGraph \<Rightarrow> u64 \<Rightarrow> u64 \<times> ProgramValueGraph \<times> u64" where
  "AppendGraph destination source next =
    (case append_remap (graph_values source) next Map.empty of
       (remap, next') \<Rightarrow>
         (replace_id remap (graph_root source),
          destination\<lparr>graph_values := graph_values destination @ map (copy_value remap) (graph_values source)\<rparr>,
          next'))"

section \<open>Constructors\<close>

definition ScalarGraph :: "TypeRef \<Rightarrow> ProgramValuePayload \<Rightarrow> ProgramValueGraph" where
  "ScalarGraph t p = \<lparr>graph_root = 1, graph_values = [\<lparr>value_id = 1, value_type = t, payload = p\<rparr>]\<rparr>"

definition UnitGraph :: ProgramValueGraph where
  "UnitGraph = ScalarGraph (Builtin UnitT) UnitValue"

fun append_children ::
  "ProgramValueGraph list \<Rightarrow> u64 list \<Rightarrow> ProgramValueGraph \<Rightarrow> u64 \<Rightarrow> u64 list \<times> ProgramValueGraph \<times> u64" where
  "append_children [] roots result next = (roots, result, next)"
| "append_children (child # children) roots result next =
    (case AppendGraph result child next of
       (root, result', next') \<Rightarrow> append_children children (roots @ [root]) result' next')"

definition push_root :: "ProgramValueGraph \<Rightarrow> u64 \<Rightarrow> TypeRef \<Rightarrow> ProgramValuePayload \<Rightarrow> ProgramValueGraph" where
  "push_root g i t p = \<lparr>graph_root = i,
     graph_values = graph_values g @ [\<lparr>value_id = i, value_type = t, payload = p\<rparr>]\<rparr>"

definition CompositeGraph :: "TypeRef \<Rightarrow> ProgramValueGraph list \<Rightarrow> bool \<Rightarrow> ProgramValueGraph" where
  "CompositeGraph t children is_list =
    (case append_children children [] no_graph 1 of
       (roots, result, next) \<Rightarrow>
         push_root result next t (if is_list then ListValue roots else RecordValue roots))"

definition OptionalGraph :: "TypeRef \<Rightarrow> ProgramValueGraph option \<Rightarrow> ProgramValueGraph" where
  "OptionalGraph t child =
    (case child of
       None \<Rightarrow> push_root no_graph 1 t (OptionalValue None)
     | Some c \<Rightarrow>
         (case AppendGraph no_graph c 1 of
            (root, result, next) \<Rightarrow> push_root result next t (OptionalValue (Some root))))"

definition AppendListGraph :: "ProgramValueGraph \<Rightarrow> ProgramValueGraph \<Rightarrow> TypeRef \<Rightarrow> ProgramValueGraph" where
  "AppendListGraph source element t =
    (case RootValue source of
       Some r \<Rightarrow>
         (case payload r of
            ListValue _ \<Rightarrow>
              let next = fold (\<lambda>v n. max n (value_id v + 1)) (graph_values source) 1 in
              (case AppendGraph source element next of
                 (element_root, result, _) \<Rightarrow>
                   if element_root = 0 then no_graph
                   else
                     (case RootValue result of
                        Some r' \<Rightarrow>
                          (case payload r' of
                             ListValue elements \<Rightarrow>
                               result\<lparr>graph_values := update_first (\<lambda>v. value_id v = graph_root result)
                                 (\<lambda>v. v\<lparr>value_type := t, payload := ListValue (elements @ [element_root])\<rparr>)
                                 (graph_values result)\<rparr>
                           | _ \<Rightarrow> no_graph)
                      | None \<Rightarrow> no_graph))
          | _ \<Rightarrow> no_graph)
     | None \<Rightarrow> no_graph)"

section \<open>Taking a value out of a graph\<close>

text \<open>
  The work list of \<open>ExtractGraph\<close>; its last element is the head here. \<open>None\<close> is the early return of
  an empty graph. Every round takes one element off the list, and the rounds that add elements
  mark a value of the graph that was not marked.
\<close>

function extract_reachable ::
  "ProgramValueGraph \<Rightarrow> u64 list \<Rightarrow> u64 list \<Rightarrow> u64 list option" where
  "extract_reachable g [] reachable = Some reachable"
| "extract_reachable g (current # pending) reachable =
    (if current \<in> set reachable then extract_reachable g pending reachable
     else
       (case FindValue g current of
          None \<Rightarrow> None
        | Some v \<Rightarrow>
            extract_reachable g (rev (payload_children (payload v)) @ pending) (current # reachable)))"
  by pat_completeness auto
termination
proof (relation "measures [\<lambda>(g, pending, reachable). card (value_id ` set (graph_values g) - set reachable),
    \<lambda>(g, pending, reachable). length pending]", goal_cases)
  case (3 g current pending reachable v)
  then have "current \<in> value_id ` set (graph_values g) - set reachable"
    by (auto simp: FindValue_def dest: find_SomeD)
  then have "card (value_id ` set (graph_values g) - set (current # reachable))
      < card (value_id ` set (graph_values g) - set reachable)"
    by (intro psubset_card_mono) auto
  then show ?case by simp
qed auto

definition ExtractGraph :: "ProgramValueGraph \<Rightarrow> u64 \<Rightarrow> ProgramValueGraph" where
  "ExtractGraph source root =
    (if FindValue source root = None then no_graph
     else
       (case extract_reachable source [root] [] of
          None \<Rightarrow> no_graph
        | Some reachable \<Rightarrow>
            let selected = \<lparr>graph_root = root,
                  graph_values = filter (\<lambda>v. value_id v \<in> set reachable) (graph_values source)\<rparr> in
            (case AppendGraph no_graph selected 1 of
               (new_root, result, _) \<Rightarrow> result\<lparr>graph_root := new_root\<rparr>)))"

section \<open>Literals, truth values and comparison\<close>

text \<open>\<open>LiteralPayload\<close> has the alternatives of a payload that refer to no other value.\<close>

record LiteralValue =
  literal_type :: TypeRef
  literal_payload :: ProgramValuePayload

definition FromLiteral :: "LiteralValue \<Rightarrow> ProgramValueGraph" where
  "FromLiteral l = ScalarGraph (literal_type l) (literal_payload l)"

definition Boolean :: "ProgramValueGraph \<Rightarrow> bool option" where
  "Boolean g =
    (case RootValue g of
       None \<Rightarrow> None
     | Some r \<Rightarrow> (case payload r of BoolValue b \<Rightarrow> Some b | _ \<Rightarrow> None))"

text \<open>
  \<open>==\<close> of the payloads: of the bits, but for floating-point numbers, where both zeros are equal and
  what is not a number differs from everything.
\<close>

definition f32_equal :: "u32 \<Rightarrow> u32 \<Rightarrow> bool" where
  "f32_equal x y \<longleftrightarrow>
    (x = y \<or> and x 0x7fffffff = 0 \<and> and y 0x7fffffff = 0) \<and>
    \<not> (and x 0x7f800000 = 0x7f800000 \<and> and x 0x007fffff \<noteq> 0)"

definition f64_equal :: "u64 \<Rightarrow> u64 \<Rightarrow> bool" where
  "f64_equal x y \<longleftrightarrow>
    (x = y \<or> and x 0x7fffffffffffffff = 0 \<and> and y 0x7fffffffffffffff = 0) \<and>
    \<not> (and x 0x7ff0000000000000 = 0x7ff0000000000000 \<and> and x 0x000fffffffffffff \<noteq> 0)"

definition payload_equal :: "ProgramValuePayload \<Rightarrow> ProgramValuePayload \<Rightarrow> bool" where
  "payload_equal p q \<longleftrightarrow>
    (case p of
       F32Value x \<Rightarrow> (case q of F32Value y \<Rightarrow> f32_equal x y | _ \<Rightarrow> False)
     | F64Value x \<Rightarrow> (case q of F64Value y \<Rightarrow> f64_equal x y | _ \<Rightarrow> False)
     | _ \<Rightarrow> p = q)"

text \<open>
  \<open>GraphEquivalent\<close> calls itself for the children; the index of the payload's alternative is
  compared by the constructors. \<open>None\<close> is the end of the fuel.
\<close>

fun equivalent_ids ::
  "nat \<Rightarrow> ProgramValueGraph \<Rightarrow> u64 \<Rightarrow> ProgramValueGraph \<Rightarrow> u64 \<Rightarrow> bool option"
  and equivalent_lists ::
  "nat \<Rightarrow> ProgramValueGraph \<Rightarrow> u64 list \<Rightarrow> ProgramValueGraph \<Rightarrow> u64 list \<Rightarrow> bool option" where
  "equivalent_ids 0 lhs i rhs j = None"
| "equivalent_ids (Suc n) lhs i rhs j =
    (case (FindValue lhs i, FindValue rhs j) of
       (Some left, Some right) \<Rightarrow>
         if value_type left \<noteq> value_type right then Some False
         else
           (case (payload left, payload right) of
              (OptionalValue l, OptionalValue r) \<Rightarrow>
                (case (l, r) of
                   (None, None) \<Rightarrow> Some True
                 | (Some c, Some d) \<Rightarrow> equivalent_ids n lhs c rhs d
                 | _ \<Rightarrow> Some False)
            | (RecordValue cs, RecordValue ds) \<Rightarrow>
                if length cs \<noteq> length ds then Some False else equivalent_lists n lhs cs rhs ds
            | (ListValue cs, ListValue ds) \<Rightarrow>
                if length cs \<noteq> length ds then Some False else equivalent_lists n lhs cs rhs ds
            | (p, q) \<Rightarrow> Some (payload_equal p q))
     | _ \<Rightarrow> Some False)"
| "equivalent_lists n lhs (c # cs) rhs (d # ds) =
    (case equivalent_ids n lhs c rhs d of
       None \<Rightarrow> None
     | Some equal \<Rightarrow> if \<not> equal then Some False else equivalent_lists n lhs cs rhs ds)"
| "equivalent_lists n lhs _ rhs _ = Some True"

definition GraphEquivalent :: "ProgramValueGraph \<Rightarrow> u64 \<Rightarrow> ProgramValueGraph \<Rightarrow> u64 \<Rightarrow> bool option" where
  "GraphEquivalent lhs i rhs j = equivalent_ids (Suc (length (graph_values lhs))) lhs i rhs j"

end
