(* ===== verification/ValueGraphTrees.thy ===== *)
theory ValueGraphTrees
  imports ValueGraphs
begin

text \<open>
  What the graph operations of the executor compute: the trees of their results, for operands that
  are closed graphs.
\<close>

section \<open>Copying a graph\<close>

lemma FindValue_lookup: "FindValue g = graph_lookup g"
  by (intro ext) (simp add: FindValue_def graph_lookup_def)

definition graph_tree :: "ProgramValueGraph \<Rightarrow> value_tree \<Rightarrow> bool" where
  "graph_tree g t \<longleftrightarrow> graph_closed g \<and> denotes (graph_lookup g) (graph_root g) t"

lemma graph_closed_tree: "graph_closed g \<Longrightarrow> \<exists>t. graph_tree g t"
  by (auto simp: graph_tree_def graph_closed_def)

lemma graph_tree_unique: "graph_tree g t \<Longrightarrow> graph_tree g u \<Longrightarrow> t = u"
  by (auto simp: graph_tree_def dest: denotes_unique)

lemma remap_in_place_simps [simp]:
  "payload_children (remap_in_place p m) = map (replace_id m) (payload_children p)"
  "payload_shape (remap_in_place p m) = payload_shape p"
  "ValidatePayloadSemantics (remap_in_place p m) = ValidatePayloadSemantics p"
  by (cases p; auto simp: comp_def option.map_comp split: option.splits; case_tac x14; simp)+

text \<open>A lookup that holds a renamed copy of another.\<close>

definition embeds :: "value_lookup \<Rightarrow> (u64 \<Rightarrow> u64 option) \<Rightarrow> value_lookup \<Rightarrow> bool" where
  "embeds look m look' \<longleftrightarrow>
    (\<forall>i v. look i = Some v \<longrightarrow>
      look' (replace_id m i) = Some (v\<lparr>value_id := replace_id m i, payload := remap_in_place (payload v) m\<rparr>))"

lemma embeds_denotes:
  assumes "embeds look m look'" and "denotes look i t"
  shows "denotes look' (replace_id m i) t"
  using assms(2)
proof (induction i t rule: denotes.induct)
  case (denotesI i v ts)
  have "look' (replace_id m i) = Some (v\<lparr>value_id := replace_id m i, payload := remap_in_place (payload v) m\<rparr>)"
    using assms(1) denotesI.hyps by (simp add: embeds_def)
  from denotes.denotesI [of look', OF this, of ts] denotesI.IH show ?case
    by (simp add: list_all2_map1 list_all2_mono)
qed

lemma embeds_refers:
  assumes "embeds look m look'" and "refers look i j"
  shows "refers look' (replace_id m i) (replace_id m j)"
  using assms by (fastforce simp: embeds_def refers_def)

lemma embeds_reach:
  assumes "embeds look m look'" and "(refers look)\<^sup>*\<^sup>* i j"
  shows "(refers look')\<^sup>*\<^sup>* (replace_id m i) (replace_id m j)"
  using assms(2) by induction (auto intro: rtranclp.rtrancl_into_rtrancl embeds_refers [OF assms(1)])

lemma reach_mono:
  assumes "(refers look)\<^sup>*\<^sup>* i j" and "\<And>j v. look j = Some v \<Longrightarrow> look' j = Some v"
  shows "(refers look')\<^sup>*\<^sup>* i j"
proof -
  have "refers look x y \<Longrightarrow> refers look' x y" for x y using assms(2) by (fastforce simp: refers_def)
  with assms(1) show ?thesis by (metis mono_rtranclp)
qed

lemma append_remap_result:
  "distinct (map value_id vs) \<Longrightarrow> \<forall>v \<in> set vs. m (value_id v) = None \<Longrightarrow>
    \<exists>m'. append_remap vs next m = (m', next + of_nat (length vs)) \<and>
      (\<forall>k < length vs. m' (value_id (vs ! k)) = Some (next + of_nat k)) \<and>
      (\<forall>i. i \<notin> value_id ` set vs \<longrightarrow> m' i = m i)"
proof (induction vs arbitrary: "next" m)
  case (Cons v vs)
  let ?m = "m(value_id v \<mapsto> next)"
  have "\<forall>w \<in> set vs. ?m (value_id w) = None" using Cons.prems by (auto simp: image_iff)
  moreover have "distinct (map value_id vs)" using Cons.prems(1) by simp
  ultimately obtain m' where
    m': "append_remap vs (next + 1) ?m = (m', next + 1 + of_nat (length vs))"
      "\<forall>k < length vs. m' (value_id (vs ! k)) = Some (next + 1 + of_nat k)"
      "\<forall>i. i \<notin> value_id ` set vs \<longrightarrow> m' i = ?m i"
    using Cons.IH by blast
  have "m' (value_id v) = Some next" using m'(3) Cons.prems(1) by auto
  with m' Cons.prems show ?case
    by (intro exI [of _ m']) (auto simp: nth_Cons add.assoc split: nat.split)
qed simp

text \<open>Graphs under construction: their identities are below the next one.\<close>

definition gathered :: "u64 \<Rightarrow> ProgramValueGraph \<Rightarrow> bool" where
  "gathered next g \<longleftrightarrow>
    distinct (map value_id (graph_values g)) \<and>
    (\<forall>v \<in> set (graph_values g). value_id v \<noteq> 0 \<and> value_id v < next \<and>
      ValidatePayloadSemantics (payload v) = NoArenaError)"

lemma AppendGraph_copies:
  assumes g: "gathered next g" and "next \<noteq> 0" and ids: "distinct (map value_id (graph_values source))"
    and room: "unat next + length (graph_values source) < 2 ^ 64"
    and semantics: "\<forall>v \<in> set (graph_values source). ValidatePayloadSemantics (payload v) = NoArenaError"
    and run: "AppendGraph g source next = (root, result, next')"
  obtains m where
    "gathered next' result" "unat next' = unat next + length (graph_values source)"
    "graph_root result = graph_root g"
    "graph_values result = graph_values g @ map (copy_value m) (graph_values source)"
    "root = replace_id m (graph_root source)"
    "embeds (graph_lookup source) m (graph_lookup result)"
    "\<forall>i v. graph_lookup g i = Some v \<longrightarrow> graph_lookup result i = Some v"
    "\<forall>v \<in> set (graph_values source). replace_id m (value_id v) \<noteq> 0"
proof -
  let ?vs = "graph_values source"
  obtain m where m: "append_remap ?vs next Map.empty = (m, next + of_nat (length ?vs))"
      "\<forall>k < length ?vs. m (value_id (?vs ! k)) = Some (next + of_nat k)"
    using append_remap_result [OF ids, of Map.empty "next"] by auto
  have result: "root = replace_id m (graph_root source)" "next' = next + of_nat (length ?vs)"
    "result = g\<lparr>graph_values := graph_values g @ map (copy_value m) ?vs\<rparr>"
    using run m(1) by (simp_all add: AppendGraph_def)
  have sum: "unat (next + of_nat k) = unat next + k" if "k \<le> length ?vs" for k
  proof -
    have "unat (of_nat k :: u64) = k" using that room by (simp add: unat_of_nat)
    then show ?thesis using that room by (simp add: unat_word_ariths)
  qed
  have id: "value_id (copy_value m (?vs ! k)) = next + of_nat k" if "k < length ?vs" for k
    using m(2) that by (simp add: copy_value_def replace_id_def)
  then have new_ids: "map value_id (map (copy_value m) ?vs) = map (\<lambda>k. next + of_nat k) [0..<length ?vs]"
    by (intro nth_equalityI) simp_all
  have new: "value_id v \<noteq> 0 \<and> next \<le> value_id v \<and> value_id v < next'"
    if v: "v \<in> set (map (copy_value m) ?vs)" for v
  proof -
    from v obtain k where k: "k < length ?vs" "v = copy_value m (?vs ! k)"
      by (auto simp: in_set_conv_nth)
    have "unat next \<noteq> 0" using assms(2) unat_eq_zero [of "next"] by blast
    moreover have v: "unat (value_id v) = unat next + k" using sum [of k] id [OF k(1)] k by simp
    moreover have "unat next' = unat next + length ?vs" using sum [of "length ?vs"] by (simp add: result(2))
    ultimately have "unat (value_id v) \<noteq> 0" "next \<le> value_id v" "value_id v < next'"
      using k(1) unfolding word_le_nat_alt word_less_nat_alt by linarith+
    then show ?thesis by (metis unat_eq_zero)
  qed
  have inj: "distinct (map (\<lambda>k. next + of_nat k) [0..<length ?vs])"
    unfolding distinct_map
  proof (intro conjI inj_onI)
    fix j k assume "j \<in> set [0..<length ?vs]" "k \<in> set [0..<length ?vs]" "next + of_nat j = next + of_nat k"
    then have "j \<le> length ?vs" "k \<le> length ?vs" "unat (next + of_nat j) = unat (next + of_nat k)"
      by (simp_all only: set_upt atLeastLessThan_iff less_imp_le)
    then show "j = k" unfolding sum [OF \<open>j \<le> length ?vs\<close>] sum [OF \<open>k \<le> length ?vs\<close>] by linarith
  qed simp
  have gathered: "gathered next' result"
  proof -
    have "next \<le> next'" using sum [of "length ?vs"] by (simp add: word_le_nat_alt result(2))
    then have old: "value_id v < next \<and> value_id v < next'" if "v \<in> set (graph_values g)" for v
      using g that by (auto simp: gathered_def)
    have "distinct (map value_id (graph_values g))" using g by (simp add: gathered_def)
    moreover have "distinct (map value_id (map (copy_value m) ?vs))" unfolding new_ids by (rule inj)
    moreover have "value_id v \<noteq> value_id w"
      if "v \<in> set (graph_values g)" "w \<in> set (map (copy_value m) ?vs)" for v w
      using old [OF that(1)] new [OF that(2)] by auto
    ultimately have ids: "distinct (map value_id (graph_values g @ map (copy_value m) ?vs))"
      unfolding map_append distinct_append by (auto simp del: map_map)
    have "ValidatePayloadSemantics (payload v) = NoArenaError" if "v \<in> set (map (copy_value m) ?vs)" for v
      using that semantics by (auto simp: copy_value_def)
    then have fine: "value_id v \<noteq> 0 \<and> value_id v < next' \<and> ValidatePayloadSemantics (payload v) = NoArenaError"
      if "v \<in> set (graph_values g) \<or> v \<in> set (map (copy_value m) ?vs)" for v
      using that old new g unfolding gathered_def by blast
    have "graph_values result = graph_values g @ map (copy_value m) ?vs" by (simp add: result(3))
    with ids fine show ?thesis unfolding gathered_def by (metis Un_iff set_append)
  qed
  have ids': "distinct (map value_id (graph_values result))" using gathered by (simp add: gathered_def)
  have "embeds (graph_lookup source) m (graph_lookup result)"
    unfolding embeds_def
  proof (intro allI impI)
    fix i v assume "graph_lookup source i = Some v"
    then have v: "v \<in> set ?vs" "value_id v = i" using graph_lookup_value [OF ids] by blast+
    then have "copy_value m v \<in> set (graph_values result)" by (simp add: result(3))
    then have "graph_lookup result (value_id (copy_value m v)) = Some (copy_value m v)"
      using graph_lookup_value [OF ids'] by blast
    then show "graph_lookup result (replace_id m i)
        = Some (v\<lparr>value_id := replace_id m i, payload := remap_in_place (payload v) m\<rparr>)"
      using v(2) by (simp add: copy_value_def)
  qed
  moreover have "\<forall>i v. graph_lookup g i = Some v \<longrightarrow> graph_lookup result i = Some v"
  proof (intro allI impI)
    fix i v assume v: "graph_lookup g i = Some v"
    have "distinct (map value_id (graph_values g))" using g by (simp add: gathered_def)
    from graph_lookup_value [OF this] v have "v \<in> set (graph_values g)" "value_id v = i" by blast+
    moreover from this(1) have "v \<in> set (graph_values result)" by (simp add: result(3))
    ultimately show "graph_lookup result i = Some v" using graph_lookup_value [OF ids'] by blast
  qed
  moreover have "\<forall>v \<in> set ?vs. replace_id m (value_id v) \<noteq> 0"
  proof
    fix v assume "v \<in> set ?vs"
    then have "copy_value m v \<in> set (map (copy_value m) ?vs)" by simp
    from new [OF this] show "replace_id m (value_id v) \<noteq> 0" by (simp add: copy_value_def)
  qed
  ultimately show thesis
    using that [of m] gathered sum [of "length ?vs"] result by simp
qed


text \<open>A graph under construction whose pending roots mean the trees \<open>ts\<close>.\<close>

definition assembled :: "u64 \<Rightarrow> ProgramValueGraph \<Rightarrow> u64 list \<Rightarrow> value_tree list \<Rightarrow> bool" where
  "assembled next g roots ts \<longleftrightarrow>
    gathered next g \<and> next \<noteq> 0 \<and> list_all2 (denotes (graph_lookup g)) roots ts \<and>
    (\<forall>v \<in> set (graph_values g). \<exists>r \<in> set roots. (refers (graph_lookup g))\<^sup>*\<^sup>* r (value_id v))"

lemma assembled_empty [simp]: "assembled 1 no_graph [] []"
  by (simp add: assembled_def gathered_def no_graph_def)

lemma graph_tree_parts:
  assumes "graph_tree g t"
  shows "distinct (map value_id (graph_values g))" "denotes (graph_lookup g) (graph_root g) t"
    "\<forall>v \<in> set (graph_values g). ValidatePayloadSemantics (payload v) = NoArenaError"
    "\<forall>v \<in> set (graph_values g). value_id v \<noteq> 0"
    "\<forall>v \<in> set (graph_values g). (refers (graph_lookup g))\<^sup>*\<^sup>* (graph_root g) (value_id v)"
    "graph_root g \<noteq> 0"
  using assms unfolding graph_tree_def graph_closed_def by blast+

lemma AppendGraph_assembles:
  assumes g: "assembled next g roots ts" and source: "graph_tree source t"
    and room: "unat next + length (graph_values source) < 2 ^ 64"
    and run: "AppendGraph g source next = (root, result, next')"
  shows "assembled next' result (roots @ [root]) (ts @ [t])"
    and "unat next' = unat next + length (graph_values source)"
proof -
  note parts = graph_tree_parts [OF source]
  have old: "gathered next g" "next \<noteq> 0" "list_all2 (denotes (graph_lookup g)) roots ts"
    "\<forall>v \<in> set (graph_values g). \<exists>r \<in> set roots. (refers (graph_lookup g))\<^sup>*\<^sup>* r (value_id v)"
    using g unfolding assembled_def by blast+
  obtain m where m: "gathered next' result" "unat next' = unat next + length (graph_values source)"
    "graph_values result = graph_values g @ map (copy_value m) (graph_values source)"
    "root = replace_id m (graph_root source)" "embeds (graph_lookup source) m (graph_lookup result)"
    "\<forall>i v. graph_lookup g i = Some v \<longrightarrow> graph_lookup result i = Some v"
    using AppendGraph_copies [OF old(1,2) parts(1) room parts(3) run] by metis
  show "unat next' = unat next + length (graph_values source)" by (rule m(2))
  have "unat next \<noteq> 0" using old(2) unat_eq_zero [of "next"] by blast
  with m(2) have "next' \<noteq> 0" using unat_eq_zero [of next'] by auto
  moreover have "list_all2 (denotes (graph_lookup result)) roots ts"
    using old(3) by (rule list_all2_mono) (use m(6) in \<open>blast intro: denotes_mono\<close>)
  then have "list_all2 (denotes (graph_lookup result)) (roots @ [root]) (ts @ [t])"
    using embeds_denotes [OF m(5) parts(2)] by (simp add: m(4) list_all2_appendI)
  moreover have "\<exists>r \<in> set (roots @ [root]). (refers (graph_lookup result))\<^sup>*\<^sup>* r (value_id v)"
    if "v \<in> set (graph_values result)" for v
  proof -
    consider "v \<in> set (graph_values g)" | w where "w \<in> set (graph_values source)" "v = copy_value m w"
      using \<open>v \<in> set (graph_values result)\<close> unfolding m(3) by auto
    then show ?thesis
    proof cases
      case 1
      with old(4) obtain r where "r \<in> set roots" "(refers (graph_lookup g))\<^sup>*\<^sup>* r (value_id v)" by blast
      with reach_mono [of "graph_lookup g" r "value_id v" "graph_lookup result"] m(6) show ?thesis by auto
    next
      case 2
      have "(refers (graph_lookup result))\<^sup>*\<^sup>* (replace_id m (graph_root source)) (replace_id m (value_id w))"
        using embeds_reach [OF m(5)] parts(5) 2(1) by blast
      with 2(2) show ?thesis by (simp add: m(4) copy_value_def)
    qed
  qed
  ultimately show "assembled next' result (roots @ [root]) (ts @ [t])"
    using m(1) unfolding assembled_def by blast
qed

lemma append_children_assembles:
  "assembled next g roots ts \<Longrightarrow> list_all2 graph_tree children us \<Longrightarrow>
    unat next + (\<Sum>c \<leftarrow> children. length (graph_values c)) < 2 ^ 64 \<Longrightarrow>
    append_children children roots g next = (roots', result, next') \<Longrightarrow>
    assembled next' result roots' (ts @ us) \<and> length roots' = length roots + length children"
proof (induction children arbitrary: "next" g roots ts us)
  case (Cons c children)
  from Cons.prems(2) obtain u us' where us: "us = u # us'" "graph_tree c u" "list_all2 graph_tree children us'"
    by (auto simp: list_all2_Cons1)
  obtain root g' n' where step: "AppendGraph g c next = (root, g', n')" by (metis prod_cases3)
  have room: "unat next + length (graph_values c) < 2 ^ 64" using Cons.prems(3) by simp
  note one = AppendGraph_assembles [OF Cons.prems(1) us(2) room step]
  have "append_children children (roots @ [root]) g' n' = (roots', result, next')"
    using Cons.prems(4) step by simp
  from Cons.IH [OF one(1) us(3) _ this] one(2) Cons.prems(3) us(1) show ?case by simp
qed simp

lemma push_root_tree:
  assumes g: "assembled next g roots ts" and p: "payload_children p = roots"
    "ValidatePayloadSemantics p = NoArenaError"
  shows "graph_tree (push_root g next type p) (ValueTree type (payload_shape p) ts)"
proof -
  let ?g = "push_root g next type p" and ?v = "\<lparr>value_id = next, value_type = type, payload = p\<rparr>"
  have old: "gathered next g" "next \<noteq> 0" "list_all2 (denotes (graph_lookup g)) roots ts"
    "\<forall>v \<in> set (graph_values g). \<exists>r \<in> set roots. (refers (graph_lookup g))\<^sup>*\<^sup>* r (value_id v)"
    using g unfolding assembled_def by blast+
  have vs: "graph_values ?g = graph_values g @ [?v]" "graph_root ?g = next" by (simp_all add: push_root_def)
  have "next \<notin> value_id ` set (graph_values g)" using old(1) by (auto simp: gathered_def)
  with old(1) have ids: "distinct (map value_id (graph_values ?g))" by (simp add: vs gathered_def)
  have root: "graph_lookup ?g next = Some ?v" using graph_lookup_value [OF ids] by (simp add: vs)
  have mono: "graph_lookup ?g i = Some v" if "graph_lookup g i = Some v" for i v
    using that graph_lookup_value [of g] graph_lookup_value [OF ids] old(1) by (simp add: vs gathered_def)
  have "list_all2 (denotes (graph_lookup ?g)) (payload_children (payload ?v)) ts"
    using old(3) unfolding p(1) [symmetric] ProgramValue.simps
    by (rule list_all2_mono) (blast intro: denotes_mono mono)
  from denotesI [of "graph_lookup ?g", OF root this]
  have tree: "denotes (graph_lookup ?g) (graph_root ?g) (ValueTree type (payload_shape p) ts)"
    by (simp add: vs)
  have "(refers (graph_lookup ?g))\<^sup>*\<^sup>* next (value_id v)" if v: "v \<in> set (graph_values ?g)" for v
  proof (cases "v = ?v")
    case False
    with v have "v \<in> set (graph_values g)" by (simp add: vs)
    with old(4) obtain r where r: "r \<in> set roots" "(refers (graph_lookup g))\<^sup>*\<^sup>* r (value_id v)" by blast
    have "refers (graph_lookup ?g) next r" using r(1) root p(1) by (simp add: refers_def)
    with reach_mono [OF r(2), of "graph_lookup ?g"] mono show ?thesis
      by (blast intro: converse_rtranclp_into_rtranclp)
  qed simp
  with tree ids old p(2) show ?thesis
    by (auto simp: graph_tree_def graph_closed_def vs gathered_def)
qed

text \<open>The constructors build the node whose children are the trees of the parts.\<close>

lemma ScalarGraph_tree:
  assumes "payload_children p = []" and "ValidatePayloadSemantics p = NoArenaError"
  shows "graph_tree (ScalarGraph t p) (ValueTree t (payload_shape p) [])"
  using push_root_tree [OF assembled_empty assms, of t]
  by (simp add: push_root_def no_graph_def ScalarGraph_def)

lemma CompositeGraph_tree:
  assumes "list_all2 graph_tree children us"
    and "1 + (\<Sum>c \<leftarrow> children. length (graph_values c)) < 2 ^ 64"
  shows "graph_tree (CompositeGraph t children is_list)
    (ValueTree t ((if is_list then ListValue else RecordValue) (replicate (length us) 0)) us)"
proof -
  obtain roots g n where run: "append_children children [] no_graph 1 = (roots, g, n)" by (metis prod_cases3)
  have one: "assembled n g roots us \<and> length roots = length children"
    using append_children_assembles [OF assembled_empty assms(1) _ run] assms(2) by simp
  then have "length roots = length us" using assms(1) by (simp add: list_all2_lengthD)
  with push_root_tree [of n g roots us "(if is_list then ListValue else RecordValue) roots" t] one run
  show ?thesis by (cases is_list) (simp_all add: CompositeGraph_def map_replicate_const)
qed

lemma OptionalGraph_tree:
  assumes "pred_option (\<lambda>c. graph_tree c (the u) \<and> length (graph_values c) < 2 ^ 64 - 1) child"
    and "child = None \<longleftrightarrow> u = None"
  shows "graph_tree (OptionalGraph t child)
    (ValueTree t (OptionalValue (map_option (\<lambda>_. 0) u)) (case u of None \<Rightarrow> [] | Some c \<Rightarrow> [c]))"
proof (cases child)
  case None
  with assms show ?thesis
    using push_root_tree [OF assembled_empty, of "OptionalValue None" t] by (simp add: OptionalGraph_def)
next
  case (Some c)
  with assms obtain v where u: "u = Some v" "graph_tree c v" "length (graph_values c) < 2 ^ 64 - 1"
    by (cases u) auto
  obtain root g n where run: "AppendGraph no_graph c 1 = (root, g, n)" by (metis prod_cases3)
  have "assembled n g [root] [v]"
    using AppendGraph_assembles(1) [OF assembled_empty u(2) _ run] u(3) by simp
  from push_root_tree [OF this, of "OptionalValue (Some root)" t] show ?thesis
    using Some u(1) run by (simp add: OptionalGraph_def)
qed

end
