(* ===== verification/ValueGraphParts.thy ===== *)
theory ValueGraphParts
  imports ValueGraphTrees
begin

text \<open>
  Taking a value out of a graph, appending to a list in place, and the comparison of two graphs:
  what they compute in terms of the trees the graphs stand for.
\<close>

section \<open>What a tree depends on\<close>

lemma denotes_same:
  assumes "denotes look i t" and "\<forall>j. (refers look)\<^sup>*\<^sup>* i j \<longrightarrow> look' j = look j"
  shows "denotes look' i t"
  using assms
proof (induction i t rule: denotes.induct)
  case (denotesI i v ts)
  have "list_all2 (denotes look') (payload_children (payload v)) ts"
    unfolding list_all2_conv_all_nth
  proof (intro conjI allI impI)
    show "length (payload_children (payload v)) = length ts"
      using denotesI.IH by (rule list_all2_lengthD)
    fix k assume k: "k < length (payload_children (payload v))"
    let ?c = "payload_children (payload v) ! k"
    have "refers look i ?c" using denotesI.hyps(1) k by (auto simp: refers_def)
    then have "\<forall>j. (refers look)\<^sup>*\<^sup>* ?c j \<longrightarrow> look' j = look j"
      using denotesI.prems by (blast intro: converse_rtranclp_into_rtranclp)
    then show "denotes look' ?c (ts ! k)" using list_all2_nthD [OF denotesI.IH k] by blast
  qed
  moreover have "look' i = Some v" using denotesI.prems denotesI.hyps(1) by simp
  ultimately show ?case by (rule denotes.denotesI [rotated])
qed

lemma reach_smaller:
  assumes "(refers look)\<^sup>*\<^sup>* i j" and "denotes look i t"
  shows "\<exists>u. denotes look j u \<and> size u \<le> size t"
  using assms(1)
proof induction
  case (step y z)
  then obtain u where u: "denotes look y u" "size u \<le> size t" by blast
  from step(2) obtain v where "look y = Some v" "z \<in> set (payload_children (payload v))"
    by (auto simp: refers_def)
  from denotes_child [OF u(1) this] u(2) show ?case by (metis le_trans less_imp_le)
qed (use assms(2) in blast)

lemma denotes_acyclic:
  assumes "denotes look i t" and "refers look i c"
  shows "\<not> (refers look)\<^sup>*\<^sup>* c i"
proof
  assume loop: "(refers look)\<^sup>*\<^sup>* c i"
  from assms(2) obtain v where "look i = Some v" "c \<in> set (payload_children (payload v))"
    by (auto simp: refers_def)
  from denotes_child [OF assms(1) this] obtain u where u: "denotes look c u" "size u < size t" .
  from reach_smaller [OF loop u(1)] obtain w where "denotes look i w" "size w \<le> size u" by blast
  with denotes_unique [OF assms(1)] u(2) show False by fastforce
qed

text \<open>A tree is no higher than the number of values it is made of.\<close>

fun tree_height :: "value_tree \<Rightarrow> nat" where
  "tree_height (ValueTree t p us) = Suc (fold max (map tree_height us) 0)"

lemma fold_max_le: "fold max xs a \<le> b \<longleftrightarrow> a \<le> b \<and> (\<forall>x \<in> set xs. x \<le> (b :: nat))"
  by (induction xs arbitrary: a) auto

lemma tree_height_child: "u \<in> set us \<Longrightarrow> tree_height u < tree_height (ValueTree t p us)"
  using fold_max_le [of "map tree_height us" 0 "fold max (map tree_height us) 0"] by auto

lemma height_le_card:
  assumes "denotes look i t" and "finite {j. look j \<noteq> None}"
  shows "tree_height t \<le> card {j. (refers look)\<^sup>*\<^sup>* i j}"
  using assms(1)
proof (induction i t rule: denotes.induct)
  case (denotesI i v ts)
  let ?R = "\<lambda>i. {j. (refers look)\<^sup>*\<^sup>* i j}"
  have i: "denotes look i (ValueTree (value_type v) (payload_shape (payload v)) ts)"
    using denotesI by (intro denotes.denotesI) (auto elim: list_all2_mono)
  have "look j \<noteq> None" if "j \<in> ?R i" for j
    using reach_smaller [OF _ i, of j] that by (auto elim: denotesE)
  then have finite: "finite (?R i)" using finite_subset [OF _ assms(2), of "?R i"] by blast
  have "tree_height u < card (?R i)" if u: "u \<in> set ts" for u
  proof -
    from u obtain k where k: "k < length ts" "u = ts ! k" by (auto simp: in_set_conv_nth)
    let ?c = "payload_children (payload v) ! k"
    have len: "length (payload_children (payload v)) = length ts"
      using denotesI.IH by (rule list_all2_lengthD)
    have height: "tree_height u \<le> card (?R ?c)"
      using list_all2_nthD [OF denotesI.IH, of k] k len by simp
    have c: "refers look i ?c" using denotesI.hyps(1) k len by (auto simp: refers_def)
    then have "?R ?c \<subset> ?R i"
      using denotes_acyclic [OF i c] by (auto intro: converse_rtranclp_into_rtranclp)
    from psubset_card_mono [OF finite this] height show ?thesis by simp
  qed
  moreover have "0 < card (?R i)" using finite by (auto simp: card_gt_0_iff)
  ultimately have "fold max (map tree_height ts) 0 \<le> card (?R i) - 1"
    unfolding fold_max_le by fastforce
  with \<open>0 < card (?R i)\<close> show ?case by simp
qed

lemma graph_height:
  assumes "graph_tree g t" and "denotes (graph_lookup g) i u"
  shows "tree_height u \<le> length (graph_values g)"
proof -
  let ?R = "{j. (refers (graph_lookup g))\<^sup>*\<^sup>* i j}"
  have ids: "{j. graph_lookup g j \<noteq> None} = value_id ` set (graph_values g)"
    by (rule set_eqI) (simp only: mem_Collect_eq graph_ids)
  have "?R \<subseteq> value_id ` set (graph_values g)"
  proof
    fix j assume "j \<in> ?R"
    then obtain w where "denotes (graph_lookup g) j w" using reach_smaller [OF _ assms(2)] by blast
    then have "graph_lookup g j \<noteq> None" by (auto elim: denotesE)
    then show "j \<in> value_id ` set (graph_values g)" by (simp only: graph_ids)
  qed
  then have "card ?R \<le> card (value_id ` set (graph_values g))" by (rule card_mono [rotated]) simp
  also have "\<dots> \<le> length (graph_values g)" by (metis card_length length_map list.set_map)
  finally show ?thesis using height_le_card [OF assms(2)] by (simp add: ids)
qed

section \<open>Extraction\<close>

lemma extract_reachable_result:
  "extract_reachable g pending reachable = Some result \<Longrightarrow>
    set reachable \<subseteq> set result \<and> set pending \<subseteq> set result \<and>
    (\<forall>j \<in> set result. j \<in> set reachable \<or> (\<exists>i \<in> set pending. (refers (graph_lookup g))\<^sup>*\<^sup>* i j)) \<and>
    (\<forall>j \<in> set result. j \<in> set reachable \<or> closed_within (graph_lookup g) (set result) j)"
proof (induction g pending reachable rule: extract_reachable.induct)
  case (2 g current pending reachable)
  show ?case
  proof (cases "current \<in> set reachable")
    case True
    with "2.IH"(1) "2.prems" show ?thesis by auto
  next
    case False
    with "2.prems" obtain v where v: "FindValue g current = Some v"
      and run: "extract_reachable g (rev (payload_children (payload v)) @ pending) (current # reachable)
        = Some result"
      by (auto split: option.splits)
    note IH = "2.IH"(2) [OF False v run]
    have look: "graph_lookup g current = Some v" using v by (simp add: FindValue_lookup)
    have "closed_within (graph_lookup g) (set result) current"
      using IH closed_within_child [of "graph_lookup g", OF look] by simp
    moreover have "(refers (graph_lookup g))\<^sup>*\<^sup>* current j"
      if "c \<in> set (payload_children (payload v))" "(refers (graph_lookup g))\<^sup>*\<^sup>* c j" for c j
      using that look by (auto simp: refers_def intro: converse_rtranclp_into_rtranclp)
    ultimately show ?thesis using IH by fastforce
  qed
qed auto

lemma extract_reachable_total:
  "\<forall>i \<in> set pending. \<exists>t. denotes (graph_lookup g) i t \<Longrightarrow> extract_reachable g pending reachable \<noteq> None"
proof (induction g pending reachable rule: extract_reachable.induct)
  case (2 g current pending reachable)
  from "2.prems" obtain t where t: "denotes (graph_lookup g) current t" by auto
  then obtain v where v: "FindValue g current = Some v"
    by (auto simp: FindValue_lookup elim: denotesE)
  have "\<forall>c \<in> set (payload_children (payload v)). \<exists>t. denotes (graph_lookup g) c t"
    using t v denotes_child [OF t] by (metis FindValue_lookup)
  then have "\<forall>i \<in> set (rev (payload_children (payload v)) @ pending). \<exists>t. denotes (graph_lookup g) i t"
    using "2.prems" by (simp add: ball_Un)
  with "2.IH"(2) [OF _ v] "2.IH"(1) "2.prems" v show ?case by (cases "current \<in> set reachable") simp_all
qed simp

lemma ExtractGraph_tree:
  assumes g: "graph_tree g t" and i: "denotes (graph_lookup g) i u" "i \<noteq> 0"
    and room: "length (graph_values g) < 2 ^ 64 - 1"
  shows "graph_tree (ExtractGraph g i) u"
proof -
  note parts = graph_tree_parts [OF g]
  obtain R where R: "extract_reachable g [i] [] = Some R" using extract_reachable_total [of "[i]" g "[]"] i by auto
  note result = extract_reachable_result [OF R]
  let ?s = "\<lparr>graph_root = i, graph_values = filter (\<lambda>v. value_id v \<in> set R) (graph_values g)\<rparr>"
  have look: "graph_lookup ?s j = graph_lookup g j" if "j \<in> set R" for j
  proof -
    have "List.find (\<lambda>v. value_id v = j) (filter (\<lambda>v. value_id v \<in> set R) vs)
        = List.find (\<lambda>v. value_id v = j) vs" for vs
      using that by (induction vs) auto
    then show ?thesis by (simp add: graph_lookup_def)
  qed
  have reach: "j \<in> set R" if "(refers (graph_lookup g))\<^sup>*\<^sup>* i j" for j
    using that by induction (use result in \<open>auto simp: closed_within_def\<close>)
  have tree: "denotes (graph_lookup ?s) i u"
    by (rule denotes_same [OF i(1)]) (use look reach in blast)
  have reach': "(refers (graph_lookup ?s))\<^sup>*\<^sup>* i j" if "(refers (graph_lookup g))\<^sup>*\<^sup>* i j" for j
    using that
  proof induction
    case (step y z)
    have "refers (graph_lookup ?s) y z"
      using step look [OF reach [OF step(1)]] by (simp add: refers_def)
    with step show ?case by auto
  qed simp
  have "graph_tree ?s u"
    unfolding graph_tree_def graph_closed_def
    using i(2) parts tree result reach' by (auto simp: distinct_map_filter)
  moreover have "length (graph_values ?s) < 2 ^ 64 - 1"
    using le_less_trans [OF length_filter_le room] by simp
  moreover obtain root r n where run: "AppendGraph no_graph ?s 1 = (root, r, n)" by (metis prod_cases3)
  ultimately have asm: "assembled n r [root] [u]"
    using AppendGraph_assembles(1) [OF assembled_empty _ _ run] by simp
  have "FindValue g i \<noteq> None" using i(1) by (auto simp: FindValue_lookup elim: denotesE)
  then have "ExtractGraph g i = r\<lparr>graph_root := root\<rparr>"
    unfolding ExtractGraph_def R Let_def by (simp only: if_False option.case run prod.case)
  moreover have "graph_tree (r\<lparr>graph_root := root\<rparr>) u"
  proof -
    have same: "graph_lookup (r\<lparr>graph_root := root\<rparr>) = graph_lookup r"
      by (intro ext) (simp add: graph_lookup_def)
    have "root \<noteq> 0"
    proof -
      from asm have "denotes (graph_lookup r) root u" by (simp add: assembled_def)
      then obtain v where "graph_lookup r root = Some v" by (auto elim: denotesE)
      then have "v \<in> set (graph_values r)" "value_id v = root"
        using asm graph_lookup_value [of r] by (auto simp: assembled_def gathered_def)
      with asm show ?thesis by (auto simp: assembled_def gathered_def)
    qed
    with asm show ?thesis
      unfolding graph_tree_def graph_closed_def same by (auto simp: assembled_def gathered_def)
  qed
  ultimately show ?thesis by simp
qed

section \<open>Appending to a list\<close>

lemma next_after_ids:
  fixes a :: u64
  assumes "\<forall>v \<in> set vs. unat (value_id v) < 2 ^ 64 - 1"
  defines "next \<equiv> fold (\<lambda>v n. max n (value_id v + 1)) vs a"
  shows "a \<le> next \<and> (\<forall>v \<in> set vs. value_id v < next) \<and> (next = a \<or> (\<exists>v \<in> set vs. next = value_id v + 1))"
  using assms(1) unfolding next_def
proof (induction vs arbitrary: a)
  case (Cons v vs)
  have "value_id v < value_id v + 1"
    using Cons.prems by (simp add: word_less_nat_alt unat_word_ariths)
  moreover let ?b = "max a (value_id v + 1)"
  let ?n = "fold (\<lambda>v n. max n (value_id v + 1)) vs ?b"
  have b: "a \<le> ?b" "value_id v + 1 \<le> ?b" "?b = a \<or> ?b = value_id v + 1" by (auto simp: max_def)
  have IH: "?b \<le> ?n" "\<forall>v \<in> set vs. value_id v < ?n" "?n = ?b \<or> (\<exists>v \<in> set vs. ?n = value_id v + 1)"
    using Cons.IH [of ?b] Cons.prems by auto
  have "a \<le> ?n" using b(1) IH(1) by (rule order_trans)
  moreover have "value_id v + 1 \<le> ?n" using b(2) IH(1) by (rule order_trans)
  moreover have "?n = a \<or> (\<exists>w \<in> set (v # vs). ?n = value_id w + 1)" using b(3) IH(3) by auto
  ultimately have "a \<le> ?n \<and> (\<forall>w \<in> set (v # vs). value_id w < ?n) \<and>
      (?n = a \<or> (\<exists>w \<in> set (v # vs). ?n = value_id w + 1))"
    using IH(2) less_le_trans by auto
  then show ?case by simp
qed simp

text \<open>
  The list is changed in place: the values of the element are appended to the graph and the root
  gets one more reference.
\<close>

lemma AppendListGraph_tree:
  assumes g: "graph_tree g (ValueTree s (ListValue zs) ts)" and e: "graph_tree e u"
    and ids: "\<forall>v \<in> set (graph_values g). unat (value_id v) + length (graph_values e) < 2 ^ 64 - 1"
    and room: "length (graph_values e) < 2 ^ 64 - 1"
  shows "graph_tree (AppendListGraph g e t) (ValueTree t (ListValue (0 # zs)) (ts @ [u]))"
proof -
  note parts = graph_tree_parts [OF g]
  obtain r cs where r: "graph_lookup g (graph_root g) = Some r" "payload r = ListValue cs"
    and cs: "list_all2 (denotes (graph_lookup g)) cs ts" and zs: "zs = map (\<lambda>_. 0) cs"
  proof -
    from parts(2) obtain r where r: "graph_lookup g (graph_root g) = Some r"
      "payload_shape (payload r) = ListValue zs"
      "list_all2 (denotes (graph_lookup g)) (payload_children (payload r)) ts"
      by (auto elim: denotesE)
    from r(2) obtain cs where "payload r = ListValue cs" "zs = map (\<lambda>_. 0) cs"
      by (cases "payload r") auto
    with r that show thesis by simp
  qed
  define n where "n = fold (\<lambda>v n. max n (value_id v + 1)) (graph_values g) 1"
  have n: "1 \<le> n" "\<forall>v \<in> set (graph_values g). value_id v < n" "unat n + length (graph_values e) < 2 ^ 64"
  proof -
    have small: "\<forall>v \<in> set (graph_values g). unat (value_id v) < 2 ^ 64 - 1" using ids by force
    note bounds = next_after_ids [OF small, of 1, folded n_def]
    then show "1 \<le> n" "\<forall>v \<in> set (graph_values g). value_id v < n" by blast+
    from bounds consider "n = 1" | v where "v \<in> set (graph_values g)" "n = value_id v + 1" by blast
    then show "unat n + length (graph_values e) < 2 ^ 64"
    proof cases
      case 2
      have "unat (value_id v + 1) = unat (value_id v) + 1"
        using small 2(1) by (simp add: unat_word_ariths)
      with 2 ids show ?thesis by fastforce
    qed (use room in simp)
  qed
  have gathered: "gathered n g" using parts n(2) by (simp add: gathered_def)
  have "n \<noteq> 0" using n(1) by auto
  note e_parts = graph_tree_parts [OF e]
  obtain root g' n' where run: "AppendGraph g e n = (root, g', n')" by (metis prod_cases3)
  obtain m where m: "gathered n' g'" "graph_root g' = graph_root g"
    "graph_values g' = graph_values g @ map (copy_value m) (graph_values e)"
    "root = replace_id m (graph_root e)" "embeds (graph_lookup e) m (graph_lookup g')"
    "\<forall>i v. graph_lookup g i = Some v \<longrightarrow> graph_lookup g' i = Some v"
    "\<forall>v \<in> set (graph_values e). replace_id m (value_id v) \<noteq> 0"
    using AppendGraph_copies [OF gathered \<open>n \<noteq> 0\<close> e_parts(1) n(3) e_parts(3) run] by metis
  define f where "f = (\<lambda>v. v\<lparr>value_type := t, payload := ListValue (cs @ [root])\<rparr> :: ProgramValue)"
  let ?h = "g'\<lparr>graph_values := update_first (\<lambda>v. value_id v = graph_root g') f (graph_values g')\<rparr>"
  have ids': "distinct (map value_id (graph_values g'))" using m(1) by (simp add: gathered_def)
  have root_e: "denotes (graph_lookup g') root u"
    unfolding m(4) by (rule embeds_denotes [OF m(5) e_parts(2)])
  have "root \<noteq> 0"
  proof -
    from e_parts(2) obtain v where "graph_lookup e (graph_root e) = Some v" by (auto elim: denotesE)
    then have "v \<in> set (graph_values e)" "value_id v = graph_root e"
      using graph_lookup_value [OF e_parts(1)] by blast+
    with m(4,7) show ?thesis by auto
  qed
  have r': "graph_lookup g' (graph_root g) = Some r" using m(6) r(1) by blast
  have result: "AppendListGraph g e t = ?h"
    using r r' \<open>root \<noteq> 0\<close> run
    by (simp add: AppendListGraph_def RootValue_def FindValue_lookup Let_def n_def [symmetric] m(2)
        f_def [symmetric])
  have look: "graph_lookup ?h i = (if i = graph_root g then Some (f r) else graph_lookup g' i)" for i
  proof (cases "i = graph_root g")
    case True
    have "graph_lookup ?h (graph_root g') = map_option f (graph_lookup g' (graph_root g'))"
      unfolding graph_lookup_def by (simp add: find_update_first f_def)
    with True r' show ?thesis by (simp add: m(2))
  next
    case False
    then show ?thesis
      unfolding graph_lookup_def by (simp add: m(2) find_update_first_other f_def)
  qed
  have old_tree: "denotes (graph_lookup g') c w" if "denotes (graph_lookup g) c w" for c w
    by (rule denotes_mono [OF that]) (use m(6) in blast)
  have g'_tree: "denotes (graph_lookup g') (graph_root g) (ValueTree s (ListValue zs) ts)"
    by (rule old_tree [OF parts(2)])
  have keeps: "denotes (graph_lookup ?h) c w"
    if "denotes (graph_lookup g') c w" "\<not> (refers (graph_lookup g'))\<^sup>*\<^sup>* c (graph_root g)" for c w
    by (rule denotes_same [OF that(1)]) (use that(2) in \<open>auto simp: look\<close>)
  have apart: "\<not> (refers (graph_lookup g'))\<^sup>*\<^sup>* root (graph_root g)"
  proof
    assume "(refers (graph_lookup g'))\<^sup>*\<^sup>* root (graph_root g)"
    moreover have "\<exists>k. (refers (graph_lookup e))\<^sup>*\<^sup>* (graph_root e) k \<and> j = replace_id m k"
      if "(refers (graph_lookup g'))\<^sup>*\<^sup>* root j" for j
      using that
    proof induction
      case (step y z)
      then obtain k where k: "(refers (graph_lookup e))\<^sup>*\<^sup>* (graph_root e) k" "y = replace_id m k" by blast
      obtain w where "denotes (graph_lookup e) k w" using reach_smaller [OF k(1) e_parts(2)] by blast
      then obtain v where v: "graph_lookup e k = Some v" by (auto elim: denotesE)
      with m(5) k(2) have "graph_lookup g' y
          = Some (v\<lparr>value_id := y, payload := remap_in_place (payload v) m\<rparr>)"
        unfolding embeds_def by blast
      with step(2) v have "\<exists>c. refers (graph_lookup e) k c \<and> z = replace_id m c"
        by (auto simp: refers_def)
      with k(1) show ?case by (blast intro: rtranclp.rtrancl_into_rtrancl)
    qed (use m(4) in blast)
    ultimately obtain k where k: "(refers (graph_lookup e))\<^sup>*\<^sup>* (graph_root e) k"
      "graph_root g = replace_id m k" by blast
    obtain w where "denotes (graph_lookup e) k w" using reach_smaller [OF k(1) e_parts(2)] by blast
    then obtain v where "graph_lookup e k = Some v" by (auto elim: denotesE)
    then have "v \<in> set (graph_values e)" "value_id v = k" using graph_lookup_value [OF e_parts(1)] by blast+
    then have "graph_root g \<in> value_id ` set (map (copy_value m) (graph_values e))"
      using k(2) by (force simp: copy_value_def)
    moreover have "graph_root g \<in> value_id ` set (graph_values g)"
      using r(1) graph_ids [of g "graph_root g"] by simp
    ultimately show False using ids' unfolding m(3) map_append distinct_append set_map by blast
  qed
  have "denotes (graph_lookup ?h) c w" if "c \<in> set cs" "denotes (graph_lookup g) c w" for c w
  proof (rule keeps [OF old_tree [OF that(2)]])
    have "refers (graph_lookup g') (graph_root g) c" using r' r(2) that(1) by (simp add: refers_def)
    then show "\<not> (refers (graph_lookup g'))\<^sup>*\<^sup>* c (graph_root g)" by (rule denotes_acyclic [OF g'_tree])
  qed
  with cs have "list_all2 (denotes (graph_lookup ?h)) cs ts" by (auto simp: list_all2_conv_all_nth)
  with keeps [OF root_e apart] have "list_all2 (denotes (graph_lookup ?h)) (cs @ [root]) (ts @ [u])"
    by (simp add: list_all2_appendI)
  then have tree: "denotes (graph_lookup ?h) (graph_root g) (ValueTree t (ListValue (0 # zs)) (ts @ [u]))"
    using denotesI [of "graph_lookup ?h" "graph_root g" "f r" "ts @ [u]"] look [of "graph_root g"]
    by (simp add: f_def zs map_replicate_const replicate_append_same [symmetric])
  have edges: "refers (graph_lookup ?h) x y" if "refers (graph_lookup g') x y" for x y
    using that r' r(2) look [of x] by (auto simp: refers_def f_def)
  have reach: "(refers (graph_lookup ?h))\<^sup>*\<^sup>* x y" if "(refers (graph_lookup g'))\<^sup>*\<^sup>* x y" for x y
    using that by induction (auto intro: rtranclp.rtrancl_into_rtrancl edges)
  have to_element: "refers (graph_lookup ?h) (graph_root g) root"
    using look [of "graph_root g"] by (simp add: refers_def f_def)
  have all: "(refers (graph_lookup ?h))\<^sup>*\<^sup>* (graph_root g) (value_id v)" if "v \<in> set (graph_values g')" for v
  proof -
    consider "v \<in> set (graph_values g)" | w where "w \<in> set (graph_values e)" "v = copy_value m w"
      using \<open>v \<in> set (graph_values g')\<close> unfolding m(3) by auto
    then show ?thesis
    proof cases
      case 1
      have "(refers (graph_lookup g'))\<^sup>*\<^sup>* (graph_root g) (value_id v)"
        by (rule reach_mono [of "graph_lookup g"]) (use parts(5) 1 m(6) in blast)+
      then show ?thesis by (rule reach)
    next
      case 2
      have "(refers (graph_lookup g'))\<^sup>*\<^sup>* root (value_id v)"
        using embeds_reach [OF m(5)] e_parts(5) 2 by (simp add: m(4) copy_value_def)
      from reach [OF this] to_element show ?thesis by (rule converse_rtranclp_into_rtranclp [rotated])
    qed
  qed
  have h_ids: "map value_id (graph_values ?h) = map value_id (graph_values g')" by (simp add: f_def)
  then have "distinct (map value_id (graph_values ?h))" using ids' by simp
  note h_value = graph_lookup_value [OF this]
  have fine: "(refers (graph_lookup ?h))\<^sup>*\<^sup>* (graph_root g) (value_id v) \<and> value_id v \<noteq> 0 \<and>
      ValidatePayloadSemantics (payload v) = NoArenaError" if v: "v \<in> set (graph_values ?h)" for v
  proof -
    have "value_id v \<in> set (map value_id (graph_values g'))" unfolding h_ids [symmetric] using v by simp
    then obtain v' where v': "v' \<in> set (graph_values g')" "value_id v' = value_id v" by auto
    have "graph_lookup ?h (value_id v) = Some v" using h_value v by blast
    then have "v = f r \<or> v \<in> set (graph_values g')"
      using look [of "value_id v"] graph_lookup_value [OF ids'] by (auto split: if_splits)
    then have "ValidatePayloadSemantics (payload v) = NoArenaError"
      using m(1) by (auto simp: f_def gathered_def)
    with v' all [OF v'(1)] m(1) show ?thesis by (auto simp: gathered_def)
  qed
  show ?thesis
    unfolding result graph_tree_def graph_closed_def
    using tree fine \<open>distinct (map value_id (graph_values ?h))\<close> parts(6) m(2) by auto
qed

section \<open>Comparison\<close>

text \<open>
  Trees that differ at most in what the comparison of floating-point numbers does not tell apart;
  a number that is not one differs from itself.
\<close>

fun tree_equivalent :: "value_tree \<Rightarrow> value_tree \<Rightarrow> bool" where
  "tree_equivalent (ValueTree t p us) (ValueTree t' p' us') \<longleftrightarrow>
    t = t' \<and> payload_equal p p' \<and> list_all2 tree_equivalent us us'"

definition composite :: "ProgramValuePayload \<Rightarrow> bool" where
  "composite p \<longleftrightarrow> (case p of OptionalValue _ \<Rightarrow> True | RecordValue _ \<Rightarrow> True | ListValue _ \<Rightarrow> True | _ \<Rightarrow> False)"

lemma leaf_payloads:
  assumes "\<not> composite p"
  shows "payload_children p = []" "payload_shape p = p"
    "payload_equal p (payload_shape q) = payload_equal p q"
    "payload_equal p q \<Longrightarrow> payload_children q = []"
  using assms by (cases p; cases q; simp add: composite_def payload_equal_def)+

lemma equivalent_leaves:
  assumes "FindValue lhs i = Some v" "FindValue rhs j = Some w" "value_type v = value_type w"
    and "\<not> composite (payload v)"
  shows "equivalent_ids (Suc n) lhs i rhs j = Some (payload_equal (payload v) (payload w))"
  using assms by (cases "payload v") (simp_all add: composite_def)

lemma equivalent_trees:
  "denotes (graph_lookup lhs) i a \<Longrightarrow> denotes (graph_lookup rhs) j b \<Longrightarrow> tree_height a \<le> n \<Longrightarrow>
    equivalent_ids n lhs i rhs j = Some (tree_equivalent a b)"
  "list_all2 (denotes (graph_lookup lhs)) cs us \<Longrightarrow> list_all2 (denotes (graph_lookup rhs)) ds ws \<Longrightarrow>
    \<forall>u \<in> set us. tree_height u \<le> n \<Longrightarrow> length cs = length ds \<Longrightarrow>
    equivalent_lists n lhs cs rhs ds = Some (list_all2 tree_equivalent us ws)"
proof (induction n lhs i rhs j and n lhs cs rhs ds arbitrary: a b and us ws
    rule: equivalent_ids_equivalent_lists.induct)
  case (1 lhs i rhs j)
  then show ?case by (cases a) simp
next
  case (2 n lhs i rhs j)
  from "2.prems"(1) obtain v us where v: "FindValue lhs i = Some v"
    "a = ValueTree (value_type v) (payload_shape (payload v)) us"
    and us: "list_all2 (denotes (graph_lookup lhs)) (payload_children (payload v)) us"
    by (auto simp: FindValue_lookup elim: denotesE)
  from "2.prems"(2) obtain w ws where w: "FindValue rhs j = Some w"
    "b = ValueTree (value_type w) (payload_shape (payload w)) ws"
    and ws: "list_all2 (denotes (graph_lookup rhs)) (payload_children (payload w)) ws"
    by (auto simp: FindValue_lookup elim: denotesE)
  have height: "\<forall>u \<in> set us. tree_height u \<le> n"
    using "2.prems"(3) tree_height_child [of _ us] unfolding v(2) by fastforce
  show ?case
  proof (cases "value_type v = value_type w")
    case False
    then show ?thesis by (simp add: v w)
  next
    case types: True
    have lists: ?thesis if "payload v = RecordValue cs \<and> payload w = RecordValue ds \<or>
      payload v = ListValue cs \<and> payload w = ListValue ds" for cs ds
    proof (cases "length cs = length ds")
      case True
      have "equivalent_lists n lhs cs rhs ds = Some (list_all2 tree_equivalent us ws)"
        using that True us ws height "2.IH"(2,3) [OF refl v(1) w(1)] types by auto
      with that True types show ?thesis
        by (auto simp: v w payload_equal_def map_replicate_const)
    qed (use that types in \<open>auto simp: v w payload_equal_def map_replicate_const\<close>)
    show ?thesis
    proof (cases "composite (payload v)")
      case False
      note leaf = leaf_payloads [OF this]
      have "us = []" using us leaf(1) by simp
      with leaf(2,3) leaf(4) [of "payload w"] ws show ?thesis
        using equivalent_leaves [of lhs i v rhs j w n] v w types False by auto
    next
      case True
      then show ?thesis
      proof (cases "payload v")
        case (OptionalValue c)
        then show ?thesis
          using us ws height types "2.IH"(1) [OF refl v(1) w(1)]
          by (cases "payload w"; cases c)
            (auto simp: v w payload_equal_def list_all2_Cons1 split: option.splits)
      next
        case (RecordValue cs)
        then show ?thesis
          using lists types by (cases "payload w") (auto simp: v w payload_equal_def)
      next
        case (ListValue cs)
        then show ?thesis
          using lists types by (cases "payload w") (auto simp: v w payload_equal_def)
      qed (simp_all add: composite_def)
    qed
  qed
next
  case (3 n lhs c cs rhs d ds)
  from "3.prems" obtain u us' w ws' where parts: "us = u # us'" "ws = w # ws'"
    "denotes (graph_lookup lhs) c u" "denotes (graph_lookup rhs) d w"
    "list_all2 (denotes (graph_lookup lhs)) cs us'" "list_all2 (denotes (graph_lookup rhs)) ds ws'"
    by (auto simp: list_all2_Cons1)
  have "equivalent_ids n lhs c rhs d = Some (tree_equivalent u w)"
    using "3.IH"(1) parts "3.prems"(3) by simp
  with "3.IH"(2) parts "3.prems" show ?case by auto
qed auto

lemma GraphEquivalent_trees:
  assumes "graph_tree g t" and "denotes (graph_lookup g) i a" and "denotes (graph_lookup h) j b"
  shows "GraphEquivalent g i h j = Some (tree_equivalent a b)"
  unfolding GraphEquivalent_def
  by (rule equivalent_trees(1) [OF assms(2,3)]) (use graph_height [OF assms(1,2)] in simp)

section \<open>Contracts of the graph operations\<close>

lemma root_children:
  assumes "graph_tree g (ValueTree t p ts)" and "RootValue g = Some r"
  shows "list_all2 (denotes (graph_lookup g)) (payload_children (payload r)) ts"
    and "\<forall>c \<in> set (payload_children (payload r)). c \<noteq> 0"
proof -
  note parts = graph_tree_parts [OF assms(1)]
  have r: "graph_lookup g (graph_root g) = Some r"
    using assms(2) by (simp add: RootValue_def FindValue_lookup)
  with parts(2) show children: "list_all2 (denotes (graph_lookup g)) (payload_children (payload r)) ts"
    by (auto simp: denotes_iff)
  show "\<forall>c \<in> set (payload_children (payload r)). c \<noteq> 0"
  proof
    fix c assume "c \<in> set (payload_children (payload r))"
    then obtain u where "denotes (graph_lookup g) c u"
      using children by (metis in_set_conv_nth list_all2_conv_all_nth)
    then obtain v where "graph_lookup g c = Some v" by (auto elim: denotesE)
    with parts(4) graph_lookup_value [OF parts(1)] show "c \<noteq> 0" by auto
  qed
qed

text \<open>
  C31. The graph operations build the trees they are named for. For operands that are closed graphs,
  with identities left, the composite of parts is the node whose children are their trees, an
  optional is absent or holds its part, appending to a list keeps its elements and adds the new one
  at the end, and extraction yields the tree of the value it is asked for.
\<close>

theorem graph_operations_build_trees:
  assumes "list_all2 graph_tree children us" and "1 + (\<Sum>c \<leftarrow> children. length (graph_values c)) < 2 ^ 64"
    and "graph_tree e u" and "length (graph_values e) < 2 ^ 64 - 1"
    and "graph_tree g (ValueTree s (ListValue zs) ts)" and "length (graph_values g) < 2 ^ 64 - 1"
    and "\<forall>v \<in> set (graph_values g). unat (value_id v) + length (graph_values e) < 2 ^ 64 - 1"
    and "denotes (graph_lookup g) i w" and "i \<noteq> 0"
  shows "graph_tree (CompositeGraph t children is_list)
      (ValueTree t ((if is_list then ListValue else RecordValue) (replicate (length us) 0)) us) \<and>
    graph_tree (OptionalGraph t None) (ValueTree t (OptionalValue None) []) \<and>
    graph_tree (OptionalGraph t (Some e)) (ValueTree t (OptionalValue (Some 0)) [u]) \<and>
    graph_tree (AppendListGraph g e t) (ValueTree t (ListValue (0 # zs)) (ts @ [u])) \<and>
    graph_tree (ExtractGraph g i) w"
  using CompositeGraph_tree [OF assms(1,2)] OptionalGraph_tree [of None None t]
    OptionalGraph_tree [of "Some u" "Some e" t] assms(3,4)
    AppendListGraph_tree [OF assms(5,3,7,4)] ExtractGraph_tree [OF assms(5,8,9,6)]
  by simp

definition sample_number :: "u8 \<Rightarrow> ProgramValueGraph" where
  "sample_number k = ScalarGraph (Builtin U8T) (U8Value k)"

definition sample_number_list :: ProgramValueGraph where
  "sample_number_list = CompositeGraph (Builtin U8T) [sample_number 1, sample_number 2] True"

lemma sample_number_tree: "graph_tree (sample_number k) (ValueTree (Builtin U8T) (U8Value k) [])"
  using ScalarGraph_tree [of "U8Value k" "Builtin U8T"] by (simp add: sample_number_def)

lemma sample_number_length: "length (graph_values (sample_number k)) = 1"
  by (simp add: sample_number_def ScalarGraph_def)

lemma sample_number_list_tree:
  "graph_tree sample_number_list (ValueTree (Builtin U8T) (ListValue [0, 0])
    [ValueTree (Builtin U8T) (U8Value 1) [], ValueTree (Builtin U8T) (U8Value 2) []])"
  using CompositeGraph_tree [of "[sample_number 1, sample_number 2]"
      "[ValueTree (Builtin U8T) (U8Value 1) [], ValueTree (Builtin U8T) (U8Value 2) []]" "Builtin U8T" True]
  by (simp add: sample_number_list_def sample_number_tree sample_number_length)

lemma sample_number_list_values:
  "graph_values sample_number_list =
    [\<lparr>value_id = 1, value_type = Builtin U8T, payload = U8Value 1\<rparr>,
     \<lparr>value_id = 2, value_type = Builtin U8T, payload = U8Value 2\<rparr>,
     \<lparr>value_id = 3, value_type = Builtin U8T, payload = ListValue [1, 2]\<rparr>]"
  "graph_root sample_number_list = 3"
  by (simp_all add: sample_number_list_def sample_number_def ScalarGraph_def CompositeGraph_def AppendGraph_def
      push_root_def no_graph_def copy_value_def replace_id_def)

theorem graph_operations_build_trees_witness:
  "graph_tree (AppendListGraph sample_number_list (sample_number 7) (Builtin U8T))
    (ValueTree (Builtin U8T) (ListValue [0, 0, 0]) [ValueTree (Builtin U8T) (U8Value 1) [],
      ValueTree (Builtin U8T) (U8Value 2) [], ValueTree (Builtin U8T) (U8Value 7) []])"
proof -
  have "denotes (graph_lookup sample_number_list) 3 (ValueTree (Builtin U8T) (ListValue [0, 0])
      [ValueTree (Builtin U8T) (U8Value 1) [], ValueTree (Builtin U8T) (U8Value 2) []])"
    using sample_number_list_tree by (simp add: graph_tree_def sample_number_list_values)
  from graph_operations_build_trees [OF _ _ sample_number_tree [of 7] _ sample_number_list_tree _ _ this,
      of "[]" "[]" "Builtin U8T" False]
  show ?thesis by (simp add: sample_number_list_values sample_number_def ScalarGraph_def)
qed

text \<open>
  C32. Projection undoes construction: the value extracted for a field of a constructed record, or
  for an element of a constructed list, has the tree of the part put there, and so has the value
  extracted from a constructed optional.
\<close>

theorem projection_undoes_construction:
  assumes "list_all2 graph_tree children us"
    and "1 + (\<Sum>c \<leftarrow> children. length (graph_values c)) < 2 ^ 64"
    and "RootValue (CompositeGraph t children is_list) = Some r"
    and "length (graph_values (CompositeGraph t children is_list)) < 2 ^ 64 - 1"
  shows "length (payload_children (payload r)) = length children \<and>
    (\<forall>k < length children.
      graph_tree (ExtractGraph (CompositeGraph t children is_list) (payload_children (payload r) ! k)) (us ! k))"
proof -
  let ?c = "CompositeGraph t children is_list"
  note tree = CompositeGraph_tree [OF assms(1,2), of t is_list]
  note parts = root_children [OF tree assms(3)]
  have len: "length (payload_children (payload r)) = length us" "length us = length children"
    using parts(1) assms(1) by (auto dest: list_all2_lengthD)
  have "graph_tree (ExtractGraph ?c (payload_children (payload r) ! k)) (us ! k)" if "k < length children" for k
    using ExtractGraph_tree [OF tree list_all2_nthD [OF parts(1)] _ assms(4)] parts(2) that len by simp
  with len show ?thesis by simp
qed

theorem projection_undoes_construction_witness:
  "graph_tree (ExtractGraph sample_number_list 2) (ValueTree (Builtin U8T) (U8Value 2) [])"
proof -
  have "RootValue sample_number_list
      = Some \<lparr>value_id = 3, value_type = Builtin U8T, payload = ListValue [1, 2]\<rparr>"
    by (simp add: RootValue_def FindValue_def sample_number_list_values)
  note root = this [unfolded sample_number_list_def]
  have "list_all2 graph_tree [sample_number 1, sample_number 2]
      [ValueTree (Builtin U8T) (U8Value 1) [], ValueTree (Builtin U8T) (U8Value 2) []]"
    by (simp add: sample_number_tree)
  from projection_undoes_construction [OF this _ root, THEN conjunct2, rule_format, of 1]
  show ?thesis
    unfolding sample_number_list_def [symmetric]
    by (simp add: sample_number_length sample_number_list_values)
qed

fun without_floats :: "value_tree \<Rightarrow> bool" where
  "without_floats (ValueTree t p us) \<longleftrightarrow>
    (case p of F32Value _ \<Rightarrow> False | F64Value _ \<Rightarrow> False | _ \<Rightarrow> True) \<and> list_all without_floats us"

lemma equivalent_without_floats:
  "without_floats a \<Longrightarrow> tree_equivalent a b \<longleftrightarrow> a = b"
proof (induction a b rule: tree_equivalent.induct)
  case (1 t p us t' p' us')
  have "payload_equal p p' \<longleftrightarrow> p = p'"
    using "1.prems" by (cases p) (simp_all add: payload_equal_def)
  moreover have "list_all2 tree_equivalent us us' \<longleftrightarrow> us = us'"
  proof -
    have "list_all2 tree_equivalent us us' \<longleftrightarrow> list_all2 (=) us us'"
      using "1" by (intro list.rel_cong refl) (auto simp: list_all_iff)
    then show ?thesis by (simp only: list.rel_eq)
  qed
  ultimately show ?case by simp
qed

text \<open>
  C33. The comparison of two graphs returns, and it compares what they stand for: the answer for two
  values of closed graphs is whether their trees agree in the types, the shapes and the leaves,
  however the values are numbered and shared. Trees without floating-point numbers agree exactly
  when they are equal.
\<close>

theorem graphs_compare_as_trees:
  assumes "graph_tree g t" and "denotes (graph_lookup g) i a" and "denotes (graph_lookup h) j b"
  shows "GraphEquivalent g i h j = Some (tree_equivalent a b) \<and>
    (without_floats a \<longrightarrow> GraphEquivalent g i h j = Some (a = b))"
  using GraphEquivalent_trees [OF assms] equivalent_without_floats [of a b] by simp

theorem graphs_compare_as_trees_witness:
  "GraphEquivalent sample_number_list 2 (sample_number 2) 1 = Some True"
proof -
  let ?t = "ValueTree (Builtin U8T) (U8Value 2) []"
  have "denotes (graph_lookup (sample_number 2)) 1 ?t"
    using graph_tree_parts(2) [OF sample_number_tree [of 2]] by (simp add: sample_number_def ScalarGraph_def)
  moreover have "denotes (graph_lookup sample_number_list) 2 ?t"
    using root_children(1) [OF sample_number_list_tree]
    by (simp add: RootValue_def FindValue_def sample_number_list_values)
  ultimately show ?thesis
    using graphs_compare_as_trees [OF sample_number_list_tree, of 2 ?t "sample_number 2" 1 ?t] by (simp add: payload_equal_def)
qed

end
