(* ===== verification/ProgramIr.thy ===== *)
theory ProgramIr
  imports ValueGraphs
begin

text \<open>
  The canonical programs the runtime executes
  (SavorCore/Runner/Runtime/ProgramRuntime/Model/ProgramIr.h and ProgramModel.h, the identities of
  ProgramIdentifiers.h, the verified modules of Verify/ProgramVerifier.h): functions of basic
  blocks in static single assignment form, the module around them, an invocation with its
  budgets, and its result. A strong identity is its number; 0 is the absent one.
\<close>

section \<open>Identities\<close>

record ModuleIdentity =
  module_id :: "u8 list"
  module_revision :: u32
  module_hash :: ContentHash256

record ExactDependencyIdentity =
  dependency_id :: "u8 list"
  dependency_version :: u32
  signature_hash :: ContentHash256

record ModuleImportIdentity =
  imported_module :: ModuleIdentity
  import_ir_version :: u32

record CapabilityPackIdentity =
  pack_id :: "u8 list"
  pack_version :: u32
  manifest_hash :: ContentHash256

section \<open>Instructions, blocks and functions\<close>

record ValueDefinition =
  definition_id :: u64
  definition_type :: TypeRef

datatype InstructionOpcode =
    Constant
  | Copy
  | Select
  | CheckedConvert
  | RecordConstruct
  | RecordProject
  | RecordUpdate
  | OptionalConstruct
  | OptionalIsPresent
  | OptionalExtract
  | ListConstruct
  | ListAppend
  | ListIndex
  | ListSize
  | AddChecked
  | SubtractChecked
  | MultiplyChecked
  | DivideChecked
  | RemainderChecked
  | NegateChecked
  | Equal
  | NotEqual
  | Less
  | LessEqual
  | Greater
  | GreaterEqual
  | BooleanAnd
  | BooleanOr
  | BooleanNot
  | CallLocal
  | CallImported
  | CallReducer
  | AwaitAction
  | EmitRecord
  | PublishArtifact
  | EnterScope
  | ExitScope
  | DeferCompensation
  | PromoteResource

datatype InstructionTargetKind =
    NoTarget
  | LocalFunctionTarget
  | ImportedFunctionTarget
  | ActionTarget
  | ReducerTarget
  | DeferredActionTarget

record InstructionTarget =
  target_kind :: InstructionTargetKind
  local_function :: u64
  dependency :: "ExactDependencyIdentity option"
  target_member_name :: "u8 list"

record Instruction =
  instruction_id :: u64
  opcode :: InstructionOpcode
  instruction_source :: u64
  instruction_result :: "ValueDefinition option"
  operands :: "u64 list"
  literal :: "LiteralValue option"
  target :: InstructionTarget
  selector :: "u8 list"
  ordinal :: u64
  instruction_scope :: u64

record BlockEdge =
  edge_target :: u64
  edge_arguments :: "u64 list"

record EnumSwitchCase =
  case_value :: u64
  case_edge :: BlockEdge

datatype TerminatorKind = Branch | ConditionalBranch | EnumSwitch | Return | StructuredFail

record StructuredFailure =
  failure_code :: "u8 list"
  failure_message :: "u8 list"
  failure_details :: "u64 option"

record Terminator =
  terminator_kind :: TerminatorKind
  terminator_source :: u64
  condition_or_selector :: "u64 option"
  edges :: "BlockEdge list"
  enum_cases :: "EnumSwitchCase list"
  default_edge :: "BlockEdge option"
  return_value :: "u64 option"
  terminator_domain_outcome :: "u64 option"
  failure :: "StructuredFailure option"

record BasicBlock =
  block_id :: u64
  block_arguments :: "ValueDefinition list"
  instructions :: "Instruction list"
  terminator :: Terminator

record ProgramFunction =
  function_id :: u64
  function_name :: "u8 list"
  function_arguments :: "ValueDefinition list"
  function_output_type :: TypeRef
  domain_outcome_type :: "TypeRef option"
  entry_block :: u64
  blocks :: "BasicBlock list"
  exported :: bool

section \<open>Modules\<close>

record ProgramBudgets =
  maximum_instructions :: u64
  maximum_calls :: u64
  maximum_call_depth :: u64
  maximum_action_requests :: u64
  maximum_emissions :: u64
  maximum_artifacts :: u64
  budget_values :: u64
  budget_value_bytes :: u64
  maximum_trace_events :: u64

datatype InvocationStatePolicy = RestoreBaseline | EstablishBaseline

datatype ExecutionIntent = LiveExecution | ReplayExecution

record ProgramPolicySet =
  state_policies :: "InvocationStatePolicy list"
  execution_intents :: "ExecutionIntent list"
  permits_movie_playback :: bool
  permits_movie_recording :: bool
  permits_capture :: bool
  permits_replay :: bool
  permits_resource_promotion :: bool

record ProgramEntrypoint =
  entrypoint_name :: "u8 list"
  entrypoint_function :: u64
  entrypoint_input_type :: TypeRef
  entrypoint_output_type :: TypeRef
  entrypoint_domain_outcome_type :: TypeRef
  emission_schemas :: "SchemaIdentity list"
  artifact_schemas :: "SchemaIdentity list"
  entrypoint_packs :: "CapabilityPackIdentity list"
  entrypoint_policies :: ProgramPolicySet
  narrowed_budgets :: "ProgramBudgets option"

record SourceMapEntry =
  location_id :: u64
  location_function :: "u64 option"
  location_block :: "u64 option"
  location_instruction :: "u64 option"
  source_name :: "u8 list"
  semantic_path :: "u8 list"
  source_line :: u32
  source_column :: u32

record ProgramSourceMap =
  source_map_version :: u32
  source_map_entries :: "SourceMapEntry list"

record ProgramModule =
  module_identity :: ModuleIdentity
  module_ir_version :: u32
  entrypoints :: "ProgramEntrypoint list"
  module_functions :: "ProgramFunction list"
  local_types :: "TypeSchemaDefinition list"
  module_imports :: "ModuleImportIdentity list"
  action_imports :: "ExactDependencyIdentity list"
  reducer_imports :: "ExactDependencyIdentity list"
  type_imports :: "SchemaIdentity list"
  module_packs :: "CapabilityPackIdentity list"
  module_policies :: ProgramPolicySet
  module_budgets :: ProgramBudgets
  source_map :: ProgramSourceMap

record ProgramDependencyLock =
  lock_ir_version :: u32
  lock_modules :: "ModuleImportIdentity list"
  lock_actions :: "ExactDependencyIdentity list"
  lock_reducers :: "ExactDependencyIdentity list"
  lock_types :: "SchemaIdentity list"
  lock_packs :: "CapabilityPackIdentity list"

text \<open>
  A verified module: of an \<open>ActionDescriptor\<close> the executor reads the two types only, and of the
  reducers and the capability packs nothing.
\<close>

record VerifiedActionBinding =
  action_import :: ExactDependencyIdentity
  action_input_type :: TypeRef
  action_output_type :: TypeRef

record VerifiedProgramModule =
  verified_module :: ProgramModule
  dependency_lock :: ProgramDependencyLock
  module_closure :: "ProgramModule list"
  type_closure :: "TypeSchemaDefinition list"
  verified_actions :: "VerifiedActionBinding list"

section \<open>Invocations\<close>

record InvocationStateRequest =
  state_policy :: InvocationStatePolicy
  session_lineage :: "u8 list"
  expected_session :: u64
  expected_epoch :: u64

record InvocationExecutionPolicy =
  execution_intent :: ExecutionIntent
  allow_movie_playback :: bool
  allow_movie_recording :: bool
  allow_input :: bool
  allow_capture :: bool
  record_trace :: bool
  handler_flags :: u32

record ProvenanceEntry =
  provenance_key :: "u8 list"
  provenance_text :: "u8 list"

record ProgramProvenance =
  requesting_component :: "u8 list"
  source_artifacts :: "ArtifactReference list"
  provenance_attributes :: "ProvenanceEntry list"

text \<open>The executor does not look at the invocation's dependencies and runtime profile.\<close>

record ProgramInvocation =
  invocation_id :: u64
  attempt_id :: u64
  invocation_module :: ModuleIdentity
  invocation_entrypoint :: "u8 list"
  invocation_state :: InvocationStateRequest
  execution :: InvocationExecutionPolicy
  invocation_input :: ProgramValueGraph
  invocation_limits :: ProgramBudgets
  invocation_provenance :: ProgramProvenance

section \<open>Results\<close>

datatype ProgramInfrastructureStatus =
    Completed
  | Rejected
  | Cancelled
  | TimedOut
  | BudgetExhausted
  | BackendFailed
  | ContractFailed

text \<open>The executor compares these statuses by \<open>>\<close>: they are ordered by severity.\<close>

datatype ProgramCleanupStatus = CleanedUp | CleanedUpWithDiagnostics | CleanupTainted

datatype SessionDisposition =
    DispositionClosed
  | DispositionClean
  | DispositionCleanWithDiagnostics
  | DispositionTainted

fun cleanup_rank :: "ProgramCleanupStatus \<Rightarrow> nat" where
  "cleanup_rank CleanedUp = 0"
| "cleanup_rank CleanedUpWithDiagnostics = 1"
| "cleanup_rank CleanupTainted = 2"

fun disposition_rank :: "SessionDisposition \<Rightarrow> nat" where
  "disposition_rank DispositionClosed = 0"
| "disposition_rank DispositionClean = 1"
| "disposition_rank DispositionCleanWithDiagnostics = 2"
| "disposition_rank DispositionTainted = 3"

lemma cleanup_rank_eq: "cleanup_rank x = cleanup_rank y \<longleftrightarrow> x = y"
  by (cases x; cases y) simp_all

lemma disposition_rank_eq: "disposition_rank x = disposition_rank y \<longleftrightarrow> x = y"
  by (cases x; cases y) simp_all

instantiation ProgramCleanupStatus :: linorder
begin

definition less_eq_ProgramCleanupStatus :: "ProgramCleanupStatus \<Rightarrow> ProgramCleanupStatus \<Rightarrow> bool" where
  "less_eq_ProgramCleanupStatus x y \<longleftrightarrow> cleanup_rank x \<le> cleanup_rank y"

definition less_ProgramCleanupStatus :: "ProgramCleanupStatus \<Rightarrow> ProgramCleanupStatus \<Rightarrow> bool" where
  "less_ProgramCleanupStatus x y \<longleftrightarrow> cleanup_rank x < cleanup_rank y"

instance
  by standard
    (auto simp: less_eq_ProgramCleanupStatus_def less_ProgramCleanupStatus_def cleanup_rank_eq)

end

instantiation SessionDisposition :: linorder
begin

definition less_eq_SessionDisposition :: "SessionDisposition \<Rightarrow> SessionDisposition \<Rightarrow> bool" where
  "less_eq_SessionDisposition x y \<longleftrightarrow> disposition_rank x \<le> disposition_rank y"

definition less_SessionDisposition :: "SessionDisposition \<Rightarrow> SessionDisposition \<Rightarrow> bool" where
  "less_SessionDisposition x y \<longleftrightarrow> disposition_rank x < disposition_rank y"

instance
  by standard
    (auto simp: less_eq_SessionDisposition_def less_SessionDisposition_def disposition_rank_eq)

end

datatype DiagnosticSeverity = Information | Warning | Error

text \<open>The messages of diagnostics are left out; their codes are kept.\<close>

record ProgramDiagnostic =
  severity :: DiagnosticSeverity
  diagnostic_code :: "u8 list"
  diagnostic_source :: "u64 option"

record ProgramEmission =
  emission_sequence :: u64
  emission_schema :: SchemaIdentity
  emission_value :: ProgramValueGraph
  emission_complete :: bool

record ProgramArtifact =
  artifact_sequence :: u64
  published_artifact :: ArtifactReference

text \<open>
  The attributes of a trace event are a key and a text: the number of the opcode, the identity of
  the block or the name of the function.
\<close>

datatype TraceAttribute = TracedOpcode InstructionOpcode | TracedBlock u64 | TracedFunction "u8 list"

record ProgramTraceEvent =
  trace_sequence :: u64
  trace_kind :: "u8 list"
  trace_source :: "u64 option"
  trace_epoch :: u64
  trace_attributes :: "TraceAttribute list"

record CleanupReceipt =
  receipt_resource :: u64
  receipt_status :: ProgramCleanupStatus

record ProgramResult =
  result_invocation :: u64
  result_attempt :: u64
  result_module :: ModuleIdentity
  result_entrypoint :: "u8 list"
  resolved_dependencies :: ProgramDependencyLock
  infrastructure :: ProgramInfrastructureStatus
  domain_outcome :: "ProgramValueGraph option"
  result_cleanup :: ProgramCleanupStatus
  session_disposition :: SessionDisposition
  result_output :: "ProgramValueGraph option"
  result_emissions :: "ProgramEmission list"
  result_artifacts :: "ProgramArtifact list"
  diagnostics :: "ProgramDiagnostic list"
  result_trace :: "ProgramTraceEvent list"
  cleanup_receipts :: "CleanupReceipt list"
  result_provenance :: ProgramProvenance

end
