(* ===== verification/CheckedArithmetic.thy ===== *)
theory CheckedArithmetic
  imports ProgramIr "HOL-Library.Signed_Division"
begin

text \<open>
  The checked arithmetic of the executor
  (SavorCore/Runner/Runtime/ProgramRuntime/Execution/ProgramExecutor.cpp): reading numbers out of
  graphs, exact conversions, the checked operations on integers of every width, their comparison.
  The template parameter \<open>T\<close> is the width of the word, with one definition for the unsigned types
  and one for the signed ones. The specification is arithmetic on the integers: an operation
  has a result exactly when the integer result fits its type.
\<close>

section \<open>Floating-point numbers\<close>

text \<open>
  The format of \<open>long double\<close>, and the rounding of the conversions to and from it, are the
  implementation's; the code uses these operations of it. A \<open>float\<close> and a \<open>double\<close> are their bits.
\<close>

record 'f floating =
  ld_of_int :: "int \<Rightarrow> 'f"
  ld_of_f32 :: "u32 \<Rightarrow> 'f"
  ld_of_f64 :: "u64 \<Rightarrow> 'f"
  ld_finite :: "'f \<Rightarrow> bool"
  ld_integral :: "'f \<Rightarrow> bool"
  ld_less :: "'f \<Rightarrow> 'f \<Rightarrow> bool"
  ld_equal :: "'f \<Rightarrow> 'f \<Rightarrow> bool"
  ld_two_to :: "nat \<Rightarrow> 'f"
  ld_negate :: "'f \<Rightarrow> 'f"
  ld_add :: "'f \<Rightarrow> 'f \<Rightarrow> 'f"
  ld_subtract :: "'f \<Rightarrow> 'f \<Rightarrow> 'f"
  ld_multiply :: "'f \<Rightarrow> 'f \<Rightarrow> 'f"
  ld_divide :: "'f \<Rightarrow> 'f \<Rightarrow> 'f"
  ld_fmod :: "'f \<Rightarrow> 'f \<Rightarrow> 'f"
  ld_to_int :: "'f \<Rightarrow> int"
  ld_to_f32 :: "'f \<Rightarrow> u32"
  ld_to_f64 :: "'f \<Rightarrow> u64"
  f32_of_int :: "int \<Rightarrow> u32"
  f64_of_int :: "int \<Rightarrow> u64"

text \<open>\<open><=\<close> is less or equal, so it is false where one side is not a number.\<close>

definition ld_at_most :: "'f floating \<Rightarrow> 'f \<Rightarrow> 'f \<Rightarrow> bool" where
  "ld_at_most fl x y \<longleftrightarrow> ld_less fl x y \<or> ld_equal fl x y"

definition f32_max :: u32 where
  "f32_max = 0x7f7fffff"

definition f32_lowest :: u32 where
  "f32_lowest = 0xff7fffff"

definition f64_max :: u64 where
  "f64_max = 0x7fefffffffffffff"

definition f64_lowest :: u64 where
  "f64_lowest = 0xffefffffffffffff"

section \<open>Numbers\<close>

record 'f Number =
  number_valid :: bool
  number_floating :: bool
  signed_integer :: bool
  unsigned_value :: u64
  signed_value :: u64
  floating_value :: 'f

definition no_number :: "'f floating \<Rightarrow> 'f Number" where
  "no_number fl = \<lparr>number_valid = False, number_floating = False, signed_integer = False,
     unsigned_value = 0, signed_value = 0, floating_value = ld_of_int fl 0\<rparr>"

definition unsigned_number :: "'f floating \<Rightarrow> 'a::len word \<Rightarrow> 'f Number" where
  "unsigned_number fl w = \<lparr>number_valid = True, number_floating = False, signed_integer = False,
     unsigned_value = ucast w, signed_value = 0, floating_value = ld_of_int fl (uint w)\<rparr>"

definition signed_number :: "'f floating \<Rightarrow> 'a::len word \<Rightarrow> 'f Number" where
  "signed_number fl w = \<lparr>number_valid = True, number_floating = False, signed_integer = True,
     unsigned_value = 0, signed_value = scast w, floating_value = ld_of_int fl (sint w)\<rparr>"

definition floating_number :: "bool \<Rightarrow> 'f \<Rightarrow> 'f Number" where
  "floating_number proper x = \<lparr>number_valid = proper, number_floating = True, signed_integer = True,
     unsigned_value = 0, signed_value = 0, floating_value = x\<rparr>"

definition ToNumber :: "'f floating \<Rightarrow> ProgramValueGraph \<Rightarrow> 'f Number" where
  "ToNumber fl g =
    (case RootValue g of
       None \<Rightarrow> no_number fl
     | Some r \<Rightarrow>
         (case payload r of
            U8Value w \<Rightarrow> unsigned_number fl w
          | U16Value w \<Rightarrow> unsigned_number fl w
          | U32Value w \<Rightarrow> unsigned_number fl w
          | U64Value w \<Rightarrow> unsigned_number fl w
          | I32Value w \<Rightarrow> signed_number fl w
          | I64Value w \<Rightarrow> signed_number fl w
          | F32Value w \<Rightarrow> floating_number (f32_finite w) (ld_of_f32 fl w)
          | F64Value w \<Rightarrow> floating_number (f64_finite w) (ld_of_f64 fl w)
          | _ \<Rightarrow> no_number fl))"

definition IsIntegerBuiltin :: "BuiltinType \<Rightarrow> bool" where
  "IsIntegerBuiltin t \<longleftrightarrow> t \<in> {U8T, U16T, U32T, U64T, I32T, I64T}"

section \<open>The limits of the integer types\<close>

definition signed_max :: "'a::len word" where
  "signed_max = word_of_int (2 ^ (LENGTH('a) - 1) - 1)"

definition signed_lowest :: "'a::len word" where
  "signed_lowest = word_of_int (- (2 ^ (LENGTH('a) - 1)))"

section \<open>Exact conversions to integers\<close>

text \<open>
  \<open>ExactIntegerConversion<T>\<close>; \<open>std::numeric_limits<T>::digits\<close> leaves the sign bit out. The test
  \<open>std::trunc(value) != value\<close> is \<open>ld_integral\<close>, \<open>std::ldexp(1, n)\<close> is \<open>ld_two_to\<close>.
\<close>

definition ToUnsigned :: "'f floating \<Rightarrow> 'f Number \<Rightarrow> 'a::len word option" where
  "ToUnsigned fl n =
    (if \<not> number_valid n then None
     else if number_floating n then
       (let x = floating_value n in
        if \<not> ld_finite fl x \<or> \<not> ld_integral fl x then None
        else if ld_less fl x (ld_of_int fl 0) \<or> ld_at_most fl (ld_two_to fl LENGTH('a)) x then None
        else Some (word_of_int (ld_to_int fl x)))
     else if signed_integer n then
       (if sint (signed_value n) < 0 then None
        else if signed_value n > ucast (- 1 :: 'a word) then None
        else Some (ucast (signed_value n)))
     else if unsigned_value n > ucast (- 1 :: 'a word) then None
     else Some (ucast (unsigned_value n)))"

definition ToSigned :: "'f floating \<Rightarrow> 'f Number \<Rightarrow> 'a::len word option" where
  "ToSigned fl n =
    (if \<not> number_valid n then None
     else if number_floating n then
       (let x = floating_value n; upper = ld_two_to fl (LENGTH('a) - 1) in
        if \<not> ld_finite fl x \<or> \<not> ld_integral fl x then None
        else if ld_less fl x (ld_negate fl upper) \<or> ld_at_most fl upper x then None
        else Some (word_of_int (ld_to_int fl x)))
     else if signed_integer n then
       (if sint (signed_value n) < sint (signed_lowest :: 'a word) \<or>
           sint (signed_value n) > sint (signed_max :: 'a word) then None
        else Some (scast (signed_value n)))
     else if unsigned_value n > ucast (signed_max :: 'a word) then None
     else Some (ucast (unsigned_value n)))"

definition ExactIntegerConversionGraph ::
  "'f floating \<Rightarrow> TypeRef \<Rightarrow> 'f Number \<Rightarrow> ProgramValueGraph option" where
  "ExactIntegerConversionGraph fl t n =
    (case builtin t of
       U8T \<Rightarrow> map_option (ScalarGraph t \<circ> U8Value) (ToUnsigned fl n)
     | U16T \<Rightarrow> map_option (ScalarGraph t \<circ> U16Value) (ToUnsigned fl n)
     | U32T \<Rightarrow> map_option (ScalarGraph t \<circ> U32Value) (ToUnsigned fl n)
     | U64T \<Rightarrow> map_option (ScalarGraph t \<circ> U64Value) (ToUnsigned fl n)
     | I32T \<Rightarrow> map_option (ScalarGraph t \<circ> I32Value) (ToSigned fl n)
     | I64T \<Rightarrow> map_option (ScalarGraph t \<circ> I64Value) (ToSigned fl n)
     | _ \<Rightarrow> None)"

section \<open>Conversions to floating-point numbers\<close>

text \<open>A magnitude is exact where the bits beyond the \<open>digits\<close> of the format are zero.\<close>

fun bit_width_nat :: "nat \<Rightarrow> nat \<Rightarrow> nat" where
  "bit_width_nat 0 n = 0"
| "bit_width_nat (Suc fuel) n = (if n = 0 then 0 else Suc (bit_width_nat fuel (n div 2)))"

definition bit_width :: "u64 \<Rightarrow> nat" where
  "bit_width w = bit_width_nat 64 (unat w)"

definition exact_magnitude :: "nat \<Rightarrow> u64 \<Rightarrow> bool" where
  "exact_magnitude digits magnitude \<longleftrightarrow>
    (if magnitude = 0 then True
     else
       let width = bit_width magnitude in
       if width \<le> digits then True
       else and magnitude (push_bit (width - digits) 1 - 1) = 0)"

definition number_magnitude :: "'f Number \<Rightarrow> u64" where
  "number_magnitude n =
    (if signed_integer n
     then if sint (signed_value n) < 0 then 0 - signed_value n else signed_value n
     else unsigned_value n)"

definition number_int :: "'f Number \<Rightarrow> int" where
  "number_int n = (if signed_integer n then sint (signed_value n) else uint (unsigned_value n))"

definition ExactFloat32Graph ::
  "'f floating \<Rightarrow> TypeRef \<Rightarrow> 'f Number \<Rightarrow> ProgramValueGraph option" where
  "ExactFloat32Graph fl t n =
    (if \<not> number_valid n then None
     else if number_floating n then
       (let x = floating_value n in
        if ld_less fl x (ld_of_f32 fl f32_lowest) \<or> ld_less fl (ld_of_f32 fl f32_max) x then None
        else if \<not> f32_finite (ld_to_f32 fl x) then None
        else Some (ScalarGraph t (F32Value (ld_to_f32 fl x))))
     else if \<not> exact_magnitude 24 (number_magnitude n) then None
     else
       (let converted = f32_of_int fl (number_int n) in
        if \<not> f32_finite converted then None else Some (ScalarGraph t (F32Value converted))))"

definition ExactFloat64Graph ::
  "'f floating \<Rightarrow> TypeRef \<Rightarrow> 'f Number \<Rightarrow> ProgramValueGraph option" where
  "ExactFloat64Graph fl t n =
    (if \<not> number_valid n then None
     else if number_floating n then
       (let x = floating_value n in
        if ld_less fl x (ld_of_f64 fl f64_lowest) \<or> ld_less fl (ld_of_f64 fl f64_max) x then None
        else if \<not> f64_finite (ld_to_f64 fl x) then None
        else Some (ScalarGraph t (F64Value (ld_to_f64 fl x))))
     else if \<not> exact_magnitude 53 (number_magnitude n) then None
     else
       (let converted = f64_of_int fl (number_int n) in
        if \<not> f64_finite converted then None else Some (ScalarGraph t (F64Value converted))))"

text \<open>\<open>NumberGraph\<close> is given a \<open>long double\<close>; the code uses it for floating-point results.\<close>

definition integral_within :: "'f floating \<Rightarrow> 'f \<Rightarrow> int \<Rightarrow> int \<Rightarrow> int option" where
  "integral_within fl x lowest greatest =
    (if \<not> ld_integral fl x \<or> ld_less fl x (ld_of_int fl lowest) \<or> ld_less fl (ld_of_int fl greatest) x
     then None
     else Some (ld_to_int fl x))"

definition NumberGraph :: "'f floating \<Rightarrow> TypeRef \<Rightarrow> 'f \<Rightarrow> ProgramValueGraph option" where
  "NumberGraph fl t x =
    (if \<not> ld_finite fl x then None
     else
       (case builtin t of
          U8T \<Rightarrow> map_option (ScalarGraph t \<circ> U8Value \<circ> word_of_int) (integral_within fl x 0 (2 ^ 8 - 1))
        | U16T \<Rightarrow> map_option (ScalarGraph t \<circ> U16Value \<circ> word_of_int) (integral_within fl x 0 (2 ^ 16 - 1))
        | U32T \<Rightarrow> map_option (ScalarGraph t \<circ> U32Value \<circ> word_of_int) (integral_within fl x 0 (2 ^ 32 - 1))
        | U64T \<Rightarrow> map_option (ScalarGraph t \<circ> U64Value \<circ> word_of_int) (integral_within fl x 0 (2 ^ 64 - 1))
        | I32T \<Rightarrow> map_option (ScalarGraph t \<circ> I32Value \<circ> word_of_int)
            (integral_within fl x (- (2 ^ 31)) (2 ^ 31 - 1))
        | I64T \<Rightarrow> map_option (ScalarGraph t \<circ> I64Value \<circ> word_of_int)
            (integral_within fl x (- (2 ^ 63)) (2 ^ 63 - 1))
        | F32T \<Rightarrow>
            if ld_less fl x (ld_of_f32 fl f32_lowest) \<or> ld_less fl (ld_of_f32 fl f32_max) x then None
            else Some (ScalarGraph t (F32Value (ld_to_f32 fl x)))
        | F64T \<Rightarrow>
            if ld_less fl x (ld_of_f64 fl f64_lowest) \<or> ld_less fl (ld_of_f64 fl f64_max) x then None
            else Some (ScalarGraph t (F64Value (ld_to_f64 fl x)))
        | _ \<Rightarrow> None))"

section \<open>Checked operations\<close>

text \<open>
  The narrow types are promoted to \<open>int\<close>, where these expressions neither wrap nor overflow; so the
  words of the type have the same values.
\<close>

definition CheckedAddUnsigned :: "'a::len word \<Rightarrow> 'a word \<Rightarrow> 'a word option" where
  "CheckedAddUnsigned lhs rhs = (if lhs > - 1 - rhs then None else Some (lhs + rhs))"

definition CheckedAddSigned :: "'a::len word \<Rightarrow> 'a word \<Rightarrow> 'a word option" where
  "CheckedAddSigned lhs rhs =
    (if sint rhs > 0 \<and> sint lhs > sint (signed_max - rhs) \<or>
        sint rhs < 0 \<and> sint lhs < sint (signed_lowest - rhs) then None
     else Some (lhs + rhs))"

definition CheckedSubtractUnsigned :: "'a::len word \<Rightarrow> 'a word \<Rightarrow> 'a word option" where
  "CheckedSubtractUnsigned lhs rhs = (if lhs < rhs then None else Some (lhs - rhs))"

definition CheckedSubtractSigned :: "'a::len word \<Rightarrow> 'a word \<Rightarrow> 'a word option" where
  "CheckedSubtractSigned lhs rhs =
    (if sint rhs < 0 \<and> sint lhs > sint (signed_max + rhs) \<or>
        sint rhs > 0 \<and> sint lhs < sint (signed_lowest + rhs) then None
     else Some (lhs - rhs))"

definition CheckedMultiplyUnsigned :: "'a::len word \<Rightarrow> 'a word \<Rightarrow> 'a word option" where
  "CheckedMultiplyUnsigned lhs rhs =
    (if lhs \<noteq> 0 \<and> rhs > - 1 div lhs then None else Some (lhs * rhs))"

definition magnitude :: "'a::len word \<Rightarrow> 'a word" where
  "magnitude w = (if sint w < 0 then 0 - w else w)"

definition CheckedMultiplySigned :: "'a::len word \<Rightarrow> 'a word \<Rightarrow> 'a word option" where
  "CheckedMultiplySigned lhs rhs =
    (let negative = ((sint lhs < 0) \<noteq> (sint rhs < 0));
         negative_limit = signed_max + 1;
         limit = (if negative then negative_limit else signed_max) in
     if magnitude lhs \<noteq> 0 \<and> magnitude rhs > limit div magnitude lhs then None
     else
       (let product = magnitude lhs * magnitude rhs in
        if \<not> negative then Some product
        else if product = negative_limit then Some signed_lowest
        else Some (- product)))"

definition CheckedDivideUnsigned :: "'a::len word \<Rightarrow> 'a word \<Rightarrow> 'a word option" where
  "CheckedDivideUnsigned lhs rhs = (if rhs = 0 then None else Some (lhs div rhs))"

definition CheckedDivideSigned :: "'a::len word \<Rightarrow> 'a word \<Rightarrow> 'a word option" where
  "CheckedDivideSigned lhs rhs =
    (if rhs = 0 then None
     else if lhs = signed_lowest \<and> rhs = - 1 then None
     else Some (word_of_int (sint lhs sdiv sint rhs)))"

definition CheckedRemainderUnsigned :: "'a::len word \<Rightarrow> 'a word \<Rightarrow> 'a word option" where
  "CheckedRemainderUnsigned lhs rhs = (if rhs = 0 then None else Some (lhs mod rhs))"

definition CheckedRemainderSigned :: "'a::len word \<Rightarrow> 'a word \<Rightarrow> 'a word option" where
  "CheckedRemainderSigned lhs rhs =
    (if rhs = 0 then None
     else if lhs = signed_lowest \<and> rhs = - 1 then Some 0
     else Some (word_of_int (sint lhs smod sint rhs)))"

definition CheckedNegateUnsigned :: "'a::len word \<Rightarrow> 'a word option" where
  "CheckedNegateUnsigned w = (if w \<noteq> 0 then None else Some 0)"

definition CheckedNegateSigned :: "'a::len word \<Rightarrow> 'a word option" where
  "CheckedNegateSigned w = (if w = signed_lowest then None else Some (- w))"

definition checked_unsigned :: "InstructionOpcode \<Rightarrow> 'a::len word \<Rightarrow> 'a word \<Rightarrow> 'a word option" where
  "checked_unsigned oc =
    (case oc of
       AddChecked \<Rightarrow> CheckedAddUnsigned
     | SubtractChecked \<Rightarrow> CheckedSubtractUnsigned
     | MultiplyChecked \<Rightarrow> CheckedMultiplyUnsigned
     | DivideChecked \<Rightarrow> CheckedDivideUnsigned
     | RemainderChecked \<Rightarrow> CheckedRemainderUnsigned
     | _ \<Rightarrow> (\<lambda>lhs rhs. None))"

definition checked_signed :: "InstructionOpcode \<Rightarrow> 'a::len word \<Rightarrow> 'a word \<Rightarrow> 'a word option" where
  "checked_signed oc =
    (case oc of
       AddChecked \<Rightarrow> CheckedAddSigned
     | SubtractChecked \<Rightarrow> CheckedSubtractSigned
     | MultiplyChecked \<Rightarrow> CheckedMultiplySigned
     | DivideChecked \<Rightarrow> CheckedDivideSigned
     | RemainderChecked \<Rightarrow> CheckedRemainderSigned
     | _ \<Rightarrow> (\<lambda>lhs rhs. None))"

text \<open>\<open>RootValue\<close> followed by \<open>std::get_if<T>\<close> on both sides.\<close>

definition root_payload :: "ProgramValueGraph \<Rightarrow> ProgramValuePayload option" where
  "root_payload g = map_option payload (RootValue g)"

definition CheckedIntegerBinaryGraph ::
  "TypeRef \<Rightarrow> ProgramValueGraph \<Rightarrow> ProgramValueGraph \<Rightarrow> InstructionOpcode \<Rightarrow> ProgramValueGraph option" where
  "CheckedIntegerBinaryGraph t lhs rhs oc =
    (case (builtin t, root_payload lhs, root_payload rhs) of
       (U8T, Some (U8Value x), Some (U8Value y)) \<Rightarrow>
         map_option (ScalarGraph t \<circ> U8Value) (checked_unsigned oc x y)
     | (U16T, Some (U16Value x), Some (U16Value y)) \<Rightarrow>
         map_option (ScalarGraph t \<circ> U16Value) (checked_unsigned oc x y)
     | (U32T, Some (U32Value x), Some (U32Value y)) \<Rightarrow>
         map_option (ScalarGraph t \<circ> U32Value) (checked_unsigned oc x y)
     | (U64T, Some (U64Value x), Some (U64Value y)) \<Rightarrow>
         map_option (ScalarGraph t \<circ> U64Value) (checked_unsigned oc x y)
     | (I32T, Some (I32Value x), Some (I32Value y)) \<Rightarrow>
         map_option (ScalarGraph t \<circ> I32Value) (checked_signed oc x y)
     | (I64T, Some (I64Value x), Some (I64Value y)) \<Rightarrow>
         map_option (ScalarGraph t \<circ> I64Value) (checked_signed oc x y)
     | _ \<Rightarrow> None)"

definition CheckedIntegerNegationGraph :: "TypeRef \<Rightarrow> ProgramValueGraph \<Rightarrow> ProgramValueGraph option" where
  "CheckedIntegerNegationGraph t source =
    (case (builtin t, root_payload source) of
       (U8T, Some (U8Value x)) \<Rightarrow> map_option (ScalarGraph t \<circ> U8Value) (CheckedNegateUnsigned x)
     | (U16T, Some (U16Value x)) \<Rightarrow> map_option (ScalarGraph t \<circ> U16Value) (CheckedNegateUnsigned x)
     | (U32T, Some (U32Value x)) \<Rightarrow> map_option (ScalarGraph t \<circ> U32Value) (CheckedNegateUnsigned x)
     | (U64T, Some (U64Value x)) \<Rightarrow> map_option (ScalarGraph t \<circ> U64Value) (CheckedNegateUnsigned x)
     | (I32T, Some (I32Value x)) \<Rightarrow> map_option (ScalarGraph t \<circ> I32Value) (CheckedNegateSigned x)
     | (I64T, Some (I64Value x)) \<Rightarrow> map_option (ScalarGraph t \<circ> I64Value) (CheckedNegateSigned x)
     | _ \<Rightarrow> None)"

text \<open>\<open>*lhs < *rhs ? -1 : *lhs > *rhs ? 1 : 0\<close>.\<close>

definition three_way :: "int \<Rightarrow> int \<Rightarrow> int" where
  "three_way x y = (if x < y then - 1 else if x > y then 1 else 0)"

definition CompareExactInteger :: "BuiltinType \<Rightarrow> ProgramValueGraph \<Rightarrow> ProgramValueGraph \<Rightarrow> int option" where
  "CompareExactInteger t lhs rhs =
    (case (t, root_payload lhs, root_payload rhs) of
       (U8T, Some (U8Value x), Some (U8Value y)) \<Rightarrow> Some (three_way (uint x) (uint y))
     | (U16T, Some (U16Value x), Some (U16Value y)) \<Rightarrow> Some (three_way (uint x) (uint y))
     | (U32T, Some (U32Value x), Some (U32Value y)) \<Rightarrow> Some (three_way (uint x) (uint y))
     | (U64T, Some (U64Value x), Some (U64Value y)) \<Rightarrow> Some (three_way (uint x) (uint y))
     | (I32T, Some (I32Value x), Some (I32Value y)) \<Rightarrow> Some (three_way (sint x) (sint y))
     | (I64T, Some (I64Value x), Some (I64Value y)) \<Rightarrow> Some (three_way (sint x) (sint y))
     | _ \<Rightarrow> None)"

end
