(* ===== verification/CheckedIntegers.thy ===== *)
theory CheckedIntegers
  imports CheckedArithmetic
begin

text \<open>
  The checked integer operations against arithmetic on the integers: a result exists exactly when
  the integer result exists and fits the type, and then it is that integer.
\<close>

section \<open>The specification\<close>

text \<open>Division truncates towards zero.\<close>

definition integer_op :: "InstructionOpcode \<Rightarrow> int \<Rightarrow> int \<Rightarrow> int option" where
  "integer_op oc a b =
    (case oc of
       AddChecked \<Rightarrow> Some (a + b)
     | SubtractChecked \<Rightarrow> Some (a - b)
     | MultiplyChecked \<Rightarrow> Some (a * b)
     | DivideChecked \<Rightarrow> if b = 0 then None else Some (a sdiv b)
     | RemainderChecked \<Rightarrow> if b = 0 then None else Some (a smod b)
     | _ \<Rightarrow> None)"

definition unsigned_of :: "int \<Rightarrow> 'a::len word option" where
  "unsigned_of k = (if 0 \<le> k \<and> k < 2 ^ LENGTH('a) then Some (word_of_int k) else None)"

definition signed_of :: "int \<Rightarrow> 'a::len word option" where
  "signed_of k =
    (if - (2 ^ (LENGTH('a) - 1)) \<le> k \<and> k < 2 ^ (LENGTH('a) - 1) then Some (word_of_int k) else None)"

section \<open>Words and integers\<close>

lemma uint_range: "0 \<le> uint (w :: 'a::len word)" "uint w < 2 ^ LENGTH('a)"
  by (simp_all add: uint_lt2p)

lemma sint_range:
  "- (2 ^ (LENGTH('a) - 1)) \<le> sint (w :: 'a::len word)" "sint w < 2 ^ (LENGTH('a) - 1)"
  using sint_ge [of w] sint_lt [of w] by simp_all

lemma uint_of_int: "0 \<le> k \<Longrightarrow> k < 2 ^ LENGTH('a) \<Longrightarrow> uint (word_of_int k :: 'a::len word) = k"
  by (simp add: uint_word_of_int take_bit_int_eq_self)

lemma sint_of_int:
  "- (2 ^ (LENGTH('a) - 1)) \<le> k \<Longrightarrow> k < 2 ^ (LENGTH('a) - 1) \<Longrightarrow>
    sint (word_of_int k :: 'a::len word) = k"
  by (simp add: sint_sbintrunc' signed_take_bit_int_eq_self)

lemma sint_limits:
  "sint (signed_max :: 'a::len word) = 2 ^ (LENGTH('a) - 1) - 1"
  "sint (signed_lowest :: 'a::len word) = - (2 ^ (LENGTH('a) - 1))"
  unfolding signed_max_def signed_lowest_def by (rule sint_of_int; simp)+

lemma power_sign: "(2 :: int) ^ LENGTH('a::len) = 2 * 2 ^ (LENGTH('a) - 1)"
proof -
  have "LENGTH('a) = Suc (LENGTH('a) - 1)" by simp
  then show ?thesis by (metis power_Suc)
qed

lemma signed_eq_iff: "(v :: 'a::len word) = w \<longleftrightarrow> sint v = sint w"
proof
  assume "sint v = sint w"
  then have "(word_of_int (sint v) :: 'a word) = word_of_int (sint w)" by (rule arg_cong)
  then show "v = w" by (simp only: of_int_sint scast_id)
qed simp

lemma word_ops_uint:
  fixes v w :: "'a::len word"
  shows "v + w = word_of_int (uint v + uint w)" "v - w = word_of_int (uint v - uint w)"
    "v * w = word_of_int (uint v * uint w)"
  by simp_all

lemma word_ops_sint:
  fixes v w :: "'a::len word"
  shows "v + w = word_of_int (sint v + sint w)" "v - w = word_of_int (sint v - sint w)"
    "v * w = word_of_int (sint v * sint w)" "- v = word_of_int (- sint v)"
  by simp_all

lemma quotient_below:
  fixes a b n :: int
  assumes "0 < a"
  shows "n div a < b \<longleftrightarrow> n < a * b"
proof
  assume "n div a < b"
  then have "a * (n div a) + a \<le> a * b"
    using assms mult_left_mono [of "n div a + 1" b a] by (simp add: algebra_simps)
  then show "n < a * b"
    using pos_mod_bound [OF assms, of n] mult_div_mod_eq [of a n] by linarith
next
  assume less: "n < a * b"
  have "a * (n div a) \<le> n" using pos_mod_sign [OF assms, of n] mult_div_mod_eq [of a n] by linarith
  with less have "a * (n div a) < a * b" by linarith
  then show "n div a < b" using assms by simp
qed

lemma unsigned_of_uint: "unsigned_of (uint w) = Some (w :: 'a::len word)"
  by (simp add: unsigned_of_def uint_lt2p)

lemma signed_of_sint: "signed_of (sint w) = Some (w :: 'a::len word)"
  using sint_range [of w] by (simp add: signed_of_def)

section \<open>Unsigned operations\<close>

lemma checked_unsigned_exact:
  fixes v w :: "'a::len word"
  shows "checked_unsigned oc v w = Option.bind (integer_op oc (uint v) (uint w)) unsigned_of"
proof -
  note range = uint_range [of v] uint_range [of w]
  have "word_of_int (2 ^ LENGTH('a) - 1 - uint w) = - 1 - w" by simp
  then have complement: "uint (- 1 - w) = 2 ^ LENGTH('a) - 1 - uint w"
    using uint_of_int [of "2 ^ LENGTH('a) - 1 - uint w", where 'a = 'a] range by simp
  have "CheckedAddUnsigned v w = unsigned_of (uint v + uint w)"
    using range by (auto simp: CheckedAddUnsigned_def unsigned_of_def word_less_def complement)
  moreover have "CheckedSubtractUnsigned v w = unsigned_of (uint v - uint w)"
    using range by (auto simp: CheckedSubtractUnsigned_def unsigned_of_def word_less_def)
  moreover have "CheckedMultiplyUnsigned v w = unsigned_of (uint v * uint w)"
  proof (cases "v = 0")
    case False
    then have "uint v \<noteq> 0" by (simp add: unsigned_eq_0_iff)
    then have "0 < uint v" using range(1) by linarith
    moreover have "uint (- 1 div v) = (2 ^ LENGTH('a) - 1) div uint v"
      by (simp add: uint_div unsigned_minus_1_eq_mask mask_eq_exp_minus_1)
    ultimately have "w > - 1 div v \<longleftrightarrow> \<not> uint v * uint w < 2 ^ LENGTH('a)"
      by (auto simp: word_less_def quotient_below)
    with False range show ?thesis
      by (simp add: CheckedMultiplyUnsigned_def unsigned_of_def)
  qed (simp add: CheckedMultiplyUnsigned_def unsigned_of_def)
  moreover have "CheckedDivideUnsigned v w = Option.bind (integer_op DivideChecked (uint v) (uint w)) unsigned_of"
  proof -
    have "uint v sdiv uint w = uint (v div w)"
      by (auto simp: signed_divide_int_def uint_div)
    then show ?thesis
      by (simp add: CheckedDivideUnsigned_def integer_op_def unsigned_of_uint unsigned_eq_0_iff)
  qed
  moreover have "CheckedRemainderUnsigned v w
      = Option.bind (integer_op RemainderChecked (uint v) (uint w)) unsigned_of"
  proof -
    have "uint v smod uint w = uint (v mod w)"
      using range by (simp add: smod_mod_positive uint_mod)
    then show ?thesis
      by (simp add: CheckedRemainderUnsigned_def integer_op_def unsigned_of_uint unsigned_eq_0_iff)
  qed
  ultimately show ?thesis
    by (cases oc) (simp_all add: checked_unsigned_def integer_op_def)
qed

section \<open>Signed operations\<close>

lemma magnitude_uint: "uint (magnitude w) = \<bar>sint (w :: 'a::len word)\<bar>"
proof -
  note range = sint_range [of w] power_sign [where 'a = 'a]
  have "magnitude w = word_of_int \<bar>sint w\<bar>"
    by (simp add: magnitude_def)
  moreover have "\<bar>sint w\<bar> < 2 ^ LENGTH('a)" using range by linarith
  ultimately show ?thesis using uint_of_int [of "\<bar>sint w\<bar>", where 'a = 'a] by simp
qed

lemma checked_multiply_signed:
  fixes v w :: "'a::len word"
  shows "CheckedMultiplySigned v w = signed_of (sint v * sint w)"
proof -
  let ?n = "2 ^ (LENGTH('a) - 1) :: int" and ?a = "\<bar>sint v\<bar>" and ?b = "\<bar>sint w\<bar>"
  define negative where "negative \<longleftrightarrow> (sint v < 0) \<noteq> (sint w < 0)"
  define limit :: "'a word" where "limit = (if negative then signed_max + 1 else signed_max)"
  define bound where "bound = (if negative then ?n else ?n - 1)"
  have "(signed_max :: 'a word) = word_of_int (?n - 1)" "(signed_max + 1 :: 'a word) = word_of_int ?n"
    by (simp_all add: signed_max_def)
  moreover have "0 < ?n" by simp
  ultimately have "uint (signed_max :: 'a word) = ?n - 1" and top: "uint (signed_max + 1 :: 'a word) = ?n"
    using uint_of_int [of "?n - 1", where 'a = 'a] uint_of_int [of ?n, where 'a = 'a]
      power_sign [where 'a = 'a] by (simp_all del: zero_less_power)
  then have limit: "uint limit = bound" by (simp add: limit_def bound_def)
  have sign: "sint v * sint w = (if negative then - (?a * ?b) else ?a * ?b)"
    by (auto simp: negative_def abs_if)
  have nonneg: "0 \<le> ?a * ?b" by simp
  have fits: "(signed_of (sint v * sint w) :: 'a word option)
      = (if bound < ?a * ?b then None else Some (word_of_int (sint v * sint w)))"
  proof -
    have "0 < ?n" by simp
    then have "- ?n \<le> sint v * sint w \<and> sint v * sint w < ?n \<longleftrightarrow> \<not> bound < ?a * ?b"
      using sign nonneg by (cases negative) (simp_all only: bound_def if_True if_False, linarith+)
    then show ?thesis by (simp add: signed_of_def)
  qed
  have test: "magnitude v \<noteq> 0 \<and> magnitude w > limit div magnitude v \<longleftrightarrow> bound < ?a * ?b"
  proof (cases "magnitude v = 0")
    case True
    then have "?a = 0" using magnitude_uint [of v] by simp
    moreover have "0 \<le> bound" by (simp add: bound_def)
    ultimately show ?thesis using True by simp
  next
    case False
    then have "uint (magnitude v) \<noteq> 0" by (simp add: unsigned_eq_0_iff)
    then have "0 < ?a" by (simp add: magnitude_uint)
    then show ?thesis
      using False by (simp add: word_less_def uint_div magnitude_uint limit quotient_below)
  qed
  have "magnitude v * magnitude w = word_of_int (?a * ?b)"
    using magnitude_uint [of v] magnitude_uint [of w] word_ops_uint(3) [of "magnitude v" "magnitude w"] by simp
  moreover have "(signed_lowest :: 'a word) = word_of_int (- ?n)" by (simp add: signed_lowest_def)
  moreover have "(signed_lowest :: 'a word) = - (signed_max + 1)"
    by (simp add: signed_max_def signed_lowest_def)
  moreover have "?a * ?b = ?n" if "word_of_int (?a * ?b) = (signed_max + 1 :: 'a word)" "?a * ?b \<le> ?n"
  proof -
    have "uint (word_of_int (?a * ?b) :: 'a word) = ?a * ?b"
      using that(2) nonneg power_sign [where 'a = 'a] zero_less_power [of "2 :: int" "LENGTH('a) - 1"]
      by (intro uint_of_int) linarith+
    with that(1) top show ?thesis by simp
  qed
  ultimately show ?thesis
    unfolding CheckedMultiplySigned_def Let_def negative_def [symmetric] limit_def [symmetric] test fits
    using sign by (auto simp: bound_def)
qed

lemma checked_divide_signed:
  fixes v w :: "'a::len word"
  assumes "w \<noteq> 0"
  shows "CheckedDivideSigned v w = signed_of (sint v sdiv sint w)"
proof -
  let ?n = "2 ^ (LENGTH('a) - 1) :: int"
  note range = sint_range [of v] sint_range [of w]
  have zero: "sint w \<noteq> 0" using assms signed_eq_iff [of w 0] by simp
  have bound: "\<bar>sint v sdiv sint w\<bar> \<le> \<bar>sint v\<bar>" using sdiv_int_range [of "sint v" "sint w"] by auto
  have "v = signed_lowest \<and> w = - 1 \<longleftrightarrow> sint v = - ?n \<and> sint w = - 1"
    using signed_eq_iff [of v signed_lowest] signed_eq_iff [of w "- 1"] by (simp add: sint_limits)
  moreover have "sint v sdiv sint w < ?n \<longleftrightarrow> \<not> (sint v = - ?n \<and> sint w = - 1)"
  proof (cases "sint v = - ?n")
    case True
    have "?n \<noteq> 0" by simp
    then have "?n sdiv sint w = - ?n \<longleftrightarrow> sint w = - 1" by (rule int_sdiv_negated_is_minus1)
    moreover have "sint v sdiv sint w = - (?n sdiv sint w)" unfolding True by (rule minus_sdiv_eq)
    moreover have "- ?n \<le> ?n sdiv sint w" 
      using bound True calculation(2) zero_less_power [of "2 :: int" "LENGTH('a) - 1"] by linarith
    ultimately show ?thesis using True by (cases "sint w = - 1") (simp, linarith)
  next
    case False
    with bound range show ?thesis by (auto simp: abs_if split: if_splits)
  qed
  moreover have "- ?n \<le> sint v sdiv sint w" using bound range by linarith
  ultimately show ?thesis
    using assms by (simp add: CheckedDivideSigned_def signed_of_def)
qed

lemma checked_remainder_signed:
  fixes v w :: "'a::len word"
  assumes "w \<noteq> 0"
  shows "CheckedRemainderSigned v w = signed_of (sint v smod sint w)"
proof -
  let ?n = "2 ^ (LENGTH('a) - 1) :: int"
  have zero: "sint w \<noteq> 0" using assms signed_eq_iff [of w 0] by simp
  have "\<bar>sint v smod sint w\<bar> < \<bar>sint w\<bar>" using smod_int_range [OF zero, of "sint v"] by auto
  then have "- ?n \<le> sint v smod sint w" "sint v smod sint w < ?n"
    using sint_range [of w] by linarith+
  moreover have "sint v smod sint w = 0" if "w = - 1"
    using that by (simp add: smod_int_alt_def)
  ultimately show ?thesis
    using assms by (auto simp: CheckedRemainderSigned_def signed_of_def)
qed

lemma checked_signed_exact:
  fixes v w :: "'a::len word"
  shows "checked_signed oc v w = Option.bind (integer_op oc (sint v) (sint w)) signed_of"
proof -
  let ?n = "2 ^ (LENGTH('a) - 1) :: int"
  note range = sint_range [of v] sint_range [of w]
  have differences: "sint (signed_max - w) = ?n - 1 - sint w" if "0 < sint w"
    using sint_of_int [of "?n - 1 - sint w", where 'a = 'a] that range by (simp add: signed_max_def)
  have sums: "sint (signed_max + w) = ?n - 1 + sint w" if "sint w < 0"
    using sint_of_int [of "?n - 1 + sint w", where 'a = 'a] that range by (simp add: signed_max_def)
  have low: "sint (signed_lowest - w) = - ?n - sint w" if "sint w < 0"
    using sint_of_int [of "- ?n - sint w", where 'a = 'a] that range by (simp add: signed_lowest_def)
  have low': "sint (signed_lowest + w) = - ?n + sint w" if "0 < sint w"
    using sint_of_int [of "- ?n + sint w", where 'a = 'a] that range by (simp add: signed_lowest_def)
  have "CheckedAddSigned v w = signed_of (sint v + sint w)"
    using range differences low unfolding CheckedAddSigned_def signed_of_def by auto
  moreover have "CheckedSubtractSigned v w = signed_of (sint v - sint w)"
    using range sums low' unfolding CheckedSubtractSigned_def signed_of_def by auto
  moreover have "CheckedDivideSigned v w = Option.bind (integer_op DivideChecked (sint v) (sint w)) signed_of"
    using checked_divide_signed [of w v]
      signed_eq_iff [of w 0] by (cases "w = 0") (simp_all add: CheckedDivideSigned_def integer_op_def)
  moreover have "CheckedRemainderSigned v w
      = Option.bind (integer_op RemainderChecked (sint v) (sint w)) signed_of"
    using checked_remainder_signed [of w v]
      signed_eq_iff [of w 0] by (cases "w = 0") (simp_all add: CheckedRemainderSigned_def integer_op_def)
  ultimately show ?thesis
    using checked_multiply_signed [of v w]
    by (cases oc) (simp_all add: checked_signed_def integer_op_def)
qed

lemma checked_negate_exact:
  fixes w :: "'a::len word"
  shows "CheckedNegateUnsigned w = unsigned_of (- uint w)"
    and "CheckedNegateSigned w = signed_of (- sint w)"
proof -
  have "w = 0 \<longleftrightarrow> uint w = 0" by (simp add: unsigned_eq_0_iff)
  then show "CheckedNegateUnsigned w = unsigned_of (- uint w)"
    using uint_range [of w] by (auto simp: CheckedNegateUnsigned_def unsigned_of_def)
  show "CheckedNegateSigned w = signed_of (- sint w)"
    using sint_range [of w] signed_eq_iff [of w signed_lowest]
    by (auto simp: CheckedNegateSigned_def signed_of_def sint_limits)
qed

section \<open>Conversions\<close>

lemma uint_ucast_wider:
  fixes w :: "'b::len word"
  assumes "LENGTH('b) \<le> LENGTH('a::len)"
  shows "uint (ucast w :: 'a word) = uint w"
proof -
  have "(2 :: int) ^ LENGTH('b) \<le> 2 ^ LENGTH('a)" using assms by simp
  with uint_range [of w] have "uint w < 2 ^ LENGTH('a)" by linarith
  from uint_of_int [OF uint_range(1) this] show ?thesis by simp
qed

lemma sint_scast_wider:
  fixes w :: "'b::len word"
  assumes "LENGTH('b) \<le> LENGTH('a::len)"
  shows "sint (scast w :: 'a word) = sint w"
proof -
  have "(2 :: int) ^ (LENGTH('b) - 1) \<le> 2 ^ (LENGTH('a) - 1)" using assms by simp
  with sint_range [of w] have "- (2 ^ (LENGTH('a) - 1)) \<le> sint w" "sint w < 2 ^ (LENGTH('a) - 1)"
    by linarith+
  from sint_of_int [OF this] show ?thesis by simp
qed

lemma ToUnsigned_exact:
  fixes w :: "'b::len word"
  assumes "LENGTH('b) \<le> 64" and "LENGTH('a::len) \<le> 64"
  shows "(ToUnsigned fl (unsigned_number fl w) :: 'a word option) = unsigned_of (uint w)"
    and "(ToUnsigned fl (signed_number fl w) :: 'a word option) = unsigned_of (sint w)"
proof -
  have top: "uint (ucast (- 1 :: 'a word) :: u64) = 2 ^ LENGTH('a) - 1"
    using assms(2) uint_ucast_wider [of "- 1 :: 'a word", where 'a = 64]
    by (simp add: unsigned_minus_1_eq_mask mask_eq_exp_minus_1)
  have u: "uint (ucast w :: u64) = uint w" using assms(1) by (simp add: uint_ucast_wider)
  have s: "sint (scast w :: u64) = sint w" using assms(1) by (simp add: sint_scast_wider)
  have test: "x > ucast (- 1 :: 'a word) \<longleftrightarrow> \<not> uint x < 2 ^ LENGTH('a)" for x :: u64
    by (auto simp: word_less_def top)
  have cast: "(ucast x :: 'a word) = word_of_int (uint x)" for x :: u64 by simp
  show "(ToUnsigned fl (unsigned_number fl w) :: 'a word option) = unsigned_of (uint w)"
    unfolding ToUnsigned_def unsigned_number_def test cast
    using u uint_range [of w] by (simp add: unsigned_of_def del: word_of_int_uint)
  have "uint (scast w :: u64) = sint w" if "0 \<le> sint w"
    using that s uint_of_int [of "sint w", where 'a = 64] sint_range [of "scast w :: u64"] by simp
  then show "(ToUnsigned fl (signed_number fl w) :: 'a word option) = unsigned_of (sint w)"
    unfolding ToUnsigned_def signed_number_def test cast
    using s by (auto simp: unsigned_of_def simp del: word_of_int_uint)
qed

lemma ToSigned_exact:
  fixes w :: "'b::len word"
  assumes "LENGTH('b) \<le> 64" and "LENGTH('a::len) \<le> 64"
  shows "(ToSigned fl (unsigned_number fl w) :: 'a word option) = signed_of (uint w)"
    and "(ToSigned fl (signed_number fl w) :: 'a word option) = signed_of (sint w)"
proof -
  have u: "uint (ucast w :: u64) = uint w" using assms(1) by (simp add: uint_ucast_wider)
  have s: "sint (scast w :: u64) = sint w" using assms(1) by (simp add: sint_scast_wider)
  have "uint (signed_max :: 'a word) = 2 ^ (LENGTH('a) - 1) - 1"
    using uint_of_int [of "2 ^ (LENGTH('a) - 1) - 1", where 'a = 'a] power_sign [where 'a = 'a]
      zero_less_power [of "2 :: int" "LENGTH('a) - 1"]
    by (simp add: signed_max_def del: zero_less_power)
  then have "uint (ucast (signed_max :: 'a word) :: u64) = 2 ^ (LENGTH('a) - 1) - 1"
    using assms(2) by (simp add: uint_ucast_wider)
  then have test: "x > ucast (signed_max :: 'a word) \<longleftrightarrow> \<not> uint x < 2 ^ (LENGTH('a) - 1)" for x :: u64
    by (auto simp: word_less_def)
  have cast: "(ucast x :: 'a word) = word_of_int (uint x)" "(scast x :: 'a word) = word_of_int (sint x)"
    for x :: u64 by simp_all
  have "- (2 ^ (LENGTH('a) - 1)) \<le> uint w"
    using uint_range [of w] zero_less_power [of "2 :: int" "LENGTH('a) - 1"] by linarith
  then show "(ToSigned fl (unsigned_number fl w) :: 'a word option) = signed_of (uint w)"
    unfolding ToSigned_def unsigned_number_def test cast
    using u by (simp add: signed_of_def del: word_of_int_uint)
  show "(ToSigned fl (signed_number fl w) :: 'a word option) = signed_of (sint w)"
    unfolding ToSigned_def signed_number_def cast sint_limits
    using s by (auto simp: signed_of_def simp del: of_int_sint)
qed

section \<open>Exactness\<close>

fun payload_int :: "ProgramValuePayload \<Rightarrow> int option" where
  "payload_int (U8Value w) = Some (uint w)"
| "payload_int (U16Value w) = Some (uint w)"
| "payload_int (U32Value w) = Some (uint w)"
| "payload_int (U64Value w) = Some (uint w)"
| "payload_int (I32Value w) = Some (sint w)"
| "payload_int (I64Value w) = Some (sint w)"
| "payload_int _ = None"

definition integer_payload :: "BuiltinType \<Rightarrow> int \<Rightarrow> ProgramValuePayload option" where
  "integer_payload t k =
    (case t of
       U8T \<Rightarrow> map_option U8Value (unsigned_of k)
     | U16T \<Rightarrow> map_option U16Value (unsigned_of k)
     | U32T \<Rightarrow> map_option U32Value (unsigned_of k)
     | U64T \<Rightarrow> map_option U64Value (unsigned_of k)
     | I32T \<Rightarrow> map_option I32Value (signed_of k)
     | I64T \<Rightarrow> map_option I64Value (signed_of k)
     | _ \<Rightarrow> None)"

definition holds_integer :: "BuiltinType \<Rightarrow> ProgramValueGraph \<Rightarrow> int \<Rightarrow> bool" where
  "holds_integer t g k \<longleftrightarrow> (\<exists>p. root_payload g = Some p \<and> builtin_matches t p \<and> payload_int p = Some k)"

lemma unsigned_of_Some: "unsigned_of k = Some w \<Longrightarrow> uint (w :: 'a::len word) = k"
  by (auto simp: unsigned_of_def uint_word_of_int take_bit_int_eq_self split: if_splits)

lemma signed_of_Some: "signed_of k = Some w \<Longrightarrow> sint (w :: 'a::len word) = k"
  using sint_of_int [of k, where 'a = 'a] by (auto simp: signed_of_def split: if_splits)

lemma integer_payload_int: "integer_payload t k = Some p \<Longrightarrow> payload_int p = Some k \<and> builtin_matches t p"
  by (cases t)
    (auto simp: integer_payload_def builtin_matches_def unsigned_of_Some signed_of_Some)

lemma holds_integer_cases:
  assumes "holds_integer t g k"
  obtains
      (u8) w where "t = U8T" "root_payload g = Some (U8Value w)" "k = uint w"
    | (u16) w where "t = U16T" "root_payload g = Some (U16Value w)" "k = uint w"
    | (u32) w where "t = U32T" "root_payload g = Some (U32Value w)" "k = uint w"
    | (u64) w where "t = U64T" "root_payload g = Some (U64Value w)" "k = uint w"
    | (i32) w where "t = I32T" "root_payload g = Some (I32Value w)" "k = sint w"
    | (i64) w where "t = I64T" "root_payload g = Some (I64Value w)" "k = sint w"
proof -
  from assms obtain p where p: "root_payload g = Some p" "builtin_matches t p" "payload_int p = Some k"
    by (auto simp: holds_integer_def)
  then show thesis
    by (cases p; cases t; simp add: builtin_matches_def that)
qed

lemma ToNumber_integer:
  assumes "holds_integer t g k"
  shows "ExactIntegerConversionGraph fl u (ToNumber fl g)
    = map_option (ScalarGraph u) (integer_payload (builtin u) k)"
proof -
  have number: "ToNumber fl g = (case root_payload g of None \<Rightarrow> no_number fl | Some p \<Rightarrow>
      (case p of
         U8Value w \<Rightarrow> unsigned_number fl w
       | U16Value w \<Rightarrow> unsigned_number fl w
       | U32Value w \<Rightarrow> unsigned_number fl w
       | U64Value w \<Rightarrow> unsigned_number fl w
       | I32Value w \<Rightarrow> signed_number fl w
       | I64Value w \<Rightarrow> signed_number fl w
       | F32Value w \<Rightarrow> floating_number (f32_finite w) (ld_of_f32 fl w)
       | F64Value w \<Rightarrow> floating_number (f64_finite w) (ld_of_f64 fl w)
       | _ \<Rightarrow> no_number fl))"
    by (cases "RootValue g") (simp_all add: ToNumber_def root_payload_def)
  note exact = ToUnsigned_exact ToSigned_exact
  show ?thesis
    using assms
    by (cases rule: holds_integer_cases; cases "builtin u";
        simp add: number ExactIntegerConversionGraph_def integer_payload_def exact option.map_comp)
qed

text \<open>
  C34. The checked integer operations are exact. On two integers of the type of the result, an
  operation, a negation and a conversion yield the scalar of the integer result when that
  exists and fits the type, and nothing otherwise (overflow, division by zero); a comparison
  yields the order of the integers.
\<close>

theorem checked_integers_are_exact:
  assumes "holds_integer (builtin t) lhs a" and "holds_integer (builtin t) rhs b"
  shows "CheckedIntegerBinaryGraph t lhs rhs oc
      = map_option (ScalarGraph t) (Option.bind (integer_op oc a b) (integer_payload (builtin t))) \<and>
    CheckedIntegerNegationGraph t lhs = map_option (ScalarGraph t) (integer_payload (builtin t) (- a)) \<and>
    ExactIntegerConversionGraph fl u (ToNumber fl lhs)
      = map_option (ScalarGraph u) (integer_payload (builtin u) a) \<and>
    CompareExactInteger (builtin t) lhs rhs = Some (three_way a b)"
proof (intro conjI)
  have bind: "map_option f (Option.bind x g) = Option.bind x (map_option f \<circ> g)" for f g x
    by (cases x) simp_all
  note binary = CheckedIntegerBinaryGraph_def integer_payload_def checked_unsigned_exact checked_signed_exact
    bind option.map_comp comp_def
  show "CheckedIntegerBinaryGraph t lhs rhs oc
      = map_option (ScalarGraph t) (Option.bind (integer_op oc a b) (integer_payload (builtin t)))"
    using assms(1)
    by (cases rule: holds_integer_cases) (use assms(2) in \<open>cases rule: holds_integer_cases; simp add: binary\<close>)+
  show "CheckedIntegerNegationGraph t lhs = map_option (ScalarGraph t) (integer_payload (builtin t) (- a))"
    using assms(1)
    by (cases rule: holds_integer_cases)
      (simp_all add: CheckedIntegerNegationGraph_def integer_payload_def checked_negate_exact option.map_comp)
  show "ExactIntegerConversionGraph fl u (ToNumber fl lhs)
      = map_option (ScalarGraph u) (integer_payload (builtin u) a)"
    by (rule ToNumber_integer [OF assms(1)])
  show "CompareExactInteger (builtin t) lhs rhs = Some (three_way a b)"
    using assms(1)
    by (cases rule: holds_integer_cases)
      (use assms(2) in \<open>cases rule: holds_integer_cases; simp add: CompareExactInteger_def\<close>)+
qed

text \<open>The least \<open>i32\<close> has no negation, and dividing it by \<open>-1\<close> overflows.\<close>

definition sample_i32 :: "int \<Rightarrow> ProgramValueGraph" where
  "sample_i32 k = ScalarGraph (Builtin I32T) (I32Value (word_of_int k))"

lemma sample_i32_holds:
  "- (2 ^ 31) \<le> k \<Longrightarrow> k < 2 ^ 31 \<Longrightarrow> holds_integer (builtin (Builtin I32T)) (sample_i32 k) k"
  using sint_of_int [of k, where 'a = 32]
  by (simp add: holds_integer_def sample_i32_def ScalarGraph_def root_payload_def RootValue_def FindValue_def
      Builtin_def builtin_matches_def)

theorem checked_integers_are_exact_witness:
  "CheckedIntegerBinaryGraph (Builtin I32T) (sample_i32 (- (2 ^ 31))) (sample_i32 (- 1)) DivideChecked = None
    \<and> CheckedIntegerNegationGraph (Builtin I32T) (sample_i32 (- (2 ^ 31))) = None
    \<and> CompareExactInteger I32T (sample_i32 (- (2 ^ 31))) (sample_i32 (- 1)) = Some (- 1)"
proof -
  note exact = checked_integers_are_exact [OF sample_i32_holds [of "- (2 ^ 31)"] sample_i32_holds [of "- 1"]]
  show ?thesis
    using exact [where oc = DivideChecked and u = "Builtin I32T" and fl = "undefined :: unit floating"]
    by (simp add: integer_op_def integer_payload_def signed_of_def Builtin_def three_way_def)
qed

end
