(* ===== verification/ProgramExecutor.thy ===== *)
theory ProgramExecutor
  imports CheckedArithmetic
begin

text \<open>
  The executor of canonical programs
  (SavorCore/Runner/Runtime/ProgramRuntime/Execution/ProgramExecutor.h and .cpp): its state, the
  operations on values, scopes and failures. \<open>frames\<close> and \<open>scopes\<close> are stacks whose head is
  the code's \<open>back()\<close>. Messages are left out, so every \<open>fail\<close> of an instruction is the same; the
  codes of diagnostics are kept. The reducers, the cancellation token and the format of \<open>long
  double\<close> are arguments. A graph that has been validated is closed, and on closed graphs the
  measure and the comparison return.
\<close>

section \<open>The state\<close>

definition ascii :: "string \<Rightarrow> u8 list" where
  "ascii text = map of_char text"

definition kInvocationScope :: u64 where
  "kInvocationScope = uint64_max"

datatype ProgramExecutorActivity = Idle | Runnable | AwaitingHost | Unwinding | Terminal

datatype ProgramHostOperation =
    PrepareInvocationState
  | InvokeAction
  | OpenScope
  | CloseScope
  | PromoteResourceOperation
  | FinishInvocation

datatype CancellationReason =
  NoCancellation | ExternalRequest | ShutdownRequest | ReservedLegacyValue3 | RuntimeFailure

record ExecutorHostRequest =
  request_operation :: ProgramHostOperation
  request_action :: "ExactDependencyIdentity option"
  request_input :: ProgramValueGraph
  request_scope :: u64
  request_parent :: u64
  request_resource :: u64
  cleanup_only :: bool
  diagnostic_selector :: "u8 list"

record DeferredAction =
  deferred_identity :: ExactDependencyIdentity
  deferred_input :: ProgramValueGraph

record Scope =
  scope_id :: u64
  scope_parent :: u64
  deferred :: "DeferredAction list"

record Frame =
  frame_module :: ProgramModule
  frame_function :: ProgramFunction
  frame_block :: "BasicBlock option"
  instruction_index :: nat
  frame_values :: "ProgramValueGraph store"
  return_destination :: "u64 option"

datatype PendingSuccess = BindValue | PushScope | CloseScopeSuccess | Promote | DeferredCleanup | FinishSuccess

record PendingHost =
  pending_request :: ExecutorHostRequest
  pending_success :: PendingSuccess
  pending_result :: "u64 option"
  pending_request_id :: "u64 option"

record Executor =
  verified :: "VerifiedProgramModule option"
  invocation :: ProgramInvocation
  executor_limits :: ProgramBudgets
  program_result :: ProgramResult
  activity :: ProgramExecutorActivity
  frames :: "Frame list"
  scopes :: "Scope list"
  pending :: "PendingHost option"
  unwinding :: bool
  explicit_scope_close :: bool
  explicit_cancellation :: CancellationReason
  instructions_executed :: u64
  calls_executed :: u64
  action_requests :: u64
  emissions :: u64
  artifacts :: u64
  value_count :: u64
  value_bytes :: u64
  next_trace :: u64
  next_emission :: u64
  next_artifact :: u64

record PumpResult =
  runnable :: bool
  host_request :: "ExecutorHostRequest option"
  terminal :: "ProgramResult option"
  emitted :: "ProgramEmission option"

definition pump_nothing :: PumpResult where
  "pump_nothing = \<lparr>runnable = False, host_request = None, terminal = None, emitted = None\<rparr>"

definition pump_runnable :: PumpResult where
  "pump_runnable = pump_nothing\<lparr>runnable := True\<rparr>"

text \<open>What the executor is given from outside: the arithmetic of \<open>long double\<close> and the reducers.\<close>

record 'f executor_env =
  floating_ops :: "'f floating"
  reducers :: "(ExactDependencyIdentity \<Rightarrow> ProgramValueGraph list \<Rightarrow> ProgramValueGraph option) option"

section \<open>Lookups\<close>

definition Function :: "ProgramModule \<Rightarrow> u64 \<Rightarrow> ProgramFunction option" where
  "Function m i = List.find (\<lambda>f. function_id f = i) (module_functions m)"

definition Block :: "ProgramFunction \<Rightarrow> u64 \<Rightarrow> BasicBlock option" where
  "Block f i = List.find (\<lambda>b. block_id b = i) (blocks f)"

definition Entrypoint :: "Executor \<Rightarrow> ProgramEntrypoint option" where
  "Entrypoint s =
    (case verified s of
       None \<Rightarrow> None
     | Some v \<Rightarrow> List.find (\<lambda>e. entrypoint_name e = invocation_entrypoint (invocation s))
         (entrypoints (verified_module v)))"

definition current_epoch :: "Executor \<Rightarrow> u64" where
  "current_epoch s = expected_epoch (invocation_state (invocation s))"

definition stale :: "u64 \<Rightarrow> ProgramValue \<Rightarrow> bool" where
  "stale epoch v \<longleftrightarrow>
    (case payload v of
       ResourceHandleValue h \<Rightarrow> workset_epoch h \<noteq> epoch
     | OpaqueHandleValue h \<Rightarrow> workset_epoch h \<noteq> epoch
     | _ \<Rightarrow> False)"

definition Value :: "Executor \<Rightarrow> u64 \<Rightarrow> ProgramValueGraph option" where
  "Value s i =
    (case frames s of
       [] \<Rightarrow> None
     | f # _ \<Rightarrow>
         (case store_find (frame_values f) i of
            None \<Rightarrow> None
          | Some g \<Rightarrow> if list_ex (stale (current_epoch s)) (graph_values g) then None else Some g))"

definition type_in :: "ValueDefinition list \<Rightarrow> u64 \<Rightarrow> TypeRef option" where
  "type_in ds i = map_option definition_type (List.find (\<lambda>d. definition_id d = i) ds)"

fun type_in_blocks :: "BasicBlock list \<Rightarrow> u64 \<Rightarrow> TypeRef option" where
  "type_in_blocks [] i = None"
| "type_in_blocks (b # bs) i =
    (case type_in (block_arguments b) i of
       Some t \<Rightarrow> Some t
     | None \<Rightarrow>
         (case type_in (List.map_filter instruction_result (instructions b)) i of
            Some t \<Rightarrow> Some t
          | None \<Rightarrow> type_in_blocks bs i))"

definition DefinitionType :: "Executor \<Rightarrow> u64 \<Rightarrow> TypeRef option" where
  "DefinitionType s i =
    (case frames s of
       [] \<Rightarrow> None
     | f # _ \<Rightarrow>
         (case type_in (function_arguments (frame_function f)) i of
            Some t \<Rightarrow> Some t
          | None \<Rightarrow> type_in_blocks (blocks (frame_function f)) i))"

definition Schema :: "Executor \<Rightarrow> TypeRef \<Rightarrow> TypeSchemaDefinition option" where
  "Schema s t =
    (case named t of
       None \<Rightarrow> None
     | Some i \<Rightarrow>
         (case (case frames s of [] \<Rightarrow> None | f # _ \<Rightarrow> schema_for (local_types (frame_module f)) i) of
            Some d \<Rightarrow> Some d
          | None \<Rightarrow>
              (case verified s of None \<Rightarrow> None | Some v \<Rightarrow> schema_for (type_closure v) i)))"

fun field_index :: "RecordFieldDefinition list \<Rightarrow> u8 list \<Rightarrow> nat option" where
  "field_index [] name = None"
| "field_index (d # ds) name =
    (if field_name d = name then Some 0 else map_option Suc (field_index ds name))"

definition RecordFieldIndex :: "Executor \<Rightarrow> Instruction \<Rightarrow> nat option" where
  "RecordFieldIndex s i =
    (case operands i of
       [] \<Rightarrow> None
     | source # _ \<Rightarrow>
         (case Option.bind (DefinitionType s source) (Schema s) of
            None \<Rightarrow> None
          | Some d \<Rightarrow>
              if schema_kind d \<noteq> RecordKind then None else field_index (record_fields d) (selector i)))"

definition action_binding :: "Executor \<Rightarrow> ExactDependencyIdentity \<Rightarrow> VerifiedActionBinding option" where
  "action_binding s i =
    (case verified s of
       None \<Rightarrow> None
     | Some v \<Rightarrow> List.find (\<lambda>b. action_import b = i) (verified_actions v))"

section \<open>Traces, diagnostics and failures\<close>

definition optional_source :: "u64 \<Rightarrow> u64 option" where
  "optional_source l = (if l \<noteq> 0 then Some l else None)"

definition Trace :: "string \<Rightarrow> u64 \<Rightarrow> TraceAttribute list \<Rightarrow> Executor \<Rightarrow> Executor" where
  "Trace kind source attributes s =
    (if \<not> record_trace (execution (invocation s)) \<or>
        size_of (result_trace (program_result s)) \<ge> maximum_trace_events (executor_limits s) then s
     else s\<lparr>next_trace := next_trace s + 1,
       program_result := (program_result s)\<lparr>result_trace := result_trace (program_result s) @
         [\<lparr>trace_sequence = next_trace s, trace_kind = ascii kind, trace_source = optional_source source,
           trace_epoch = current_epoch s, trace_attributes = attributes\<rparr>]\<rparr>\<rparr>)"

definition Diagnostic :: "DiagnosticSeverity \<Rightarrow> u8 list \<Rightarrow> u64 \<Rightarrow> Executor \<Rightarrow> Executor" where
  "Diagnostic sev code source s = s\<lparr>program_result := (program_result s)\<lparr>
     diagnostics := diagnostics (program_result s) @
       [\<lparr>severity = sev, diagnostic_code = code, diagnostic_source = optional_source source\<rparr>]\<rparr>\<rparr>"

definition set_infrastructure :: "ProgramInfrastructureStatus \<Rightarrow> Executor \<Rightarrow> Executor" where
  "set_infrastructure st s = s\<lparr>program_result := (program_result s)\<lparr>infrastructure := st\<rparr>\<rparr>"

definition start_unwinding :: "Executor \<Rightarrow> Executor" where
  "start_unwinding s = s\<lparr>unwinding := True, explicit_scope_close := False, activity := Unwinding\<rparr>"

definition BeginFailure ::
  "ProgramInfrastructureStatus \<Rightarrow> u8 list \<Rightarrow> u64 \<Rightarrow> Executor \<Rightarrow> Executor" where
  "BeginFailure st code source s =
    (if unwinding s \<or> activity s = Terminal then s
     else start_unwinding (Diagnostic Error code source (set_infrastructure st s)))"

section \<open>Binding a value\<close>

definition update_frame :: "(Frame \<Rightarrow> Frame) \<Rightarrow> Executor \<Rightarrow> Executor" where
  "update_frame u s = s\<lparr>frames := (case frames s of [] \<Rightarrow> [] | f # fs \<Rightarrow> u f # fs)\<rparr>"

definition insert_or_assign :: "u64 \<Rightarrow> 'v \<Rightarrow> 'v store \<Rightarrow> 'v store" where
  "insert_or_assign k v m = (if store_find m k = None then (k, v) # m else store_modify k (\<lambda>_. v) m)"

definition value_limits :: "Executor \<Rightarrow> ProgramValueArenaLimits" where
  "value_limits s = \<lparr>maximum_values = budget_values (executor_limits s),
     maximum_value_bytes = budget_value_bytes (executor_limits s)\<rparr>"

definition remaining_limits :: "u64 \<Rightarrow> u64 \<Rightarrow> Executor \<Rightarrow> ProgramValueArenaLimits" where
  "remaining_limits count bytes s =
    \<lparr>maximum_values =
       (if budget_values (executor_limits s) \<ge> count then budget_values (executor_limits s) - count else 0),
     maximum_value_bytes =
       (if budget_value_bytes (executor_limits s) \<ge> bytes
        then budget_value_bytes (executor_limits s) - bytes else 0)\<rparr>"

text \<open>The counters without the value that is replaced.\<close>

definition retained :: "u64 \<Rightarrow> Executor \<Rightarrow> (u64 \<times> u64) option" where
  "retained i s =
    (case (case frames s of [] \<Rightarrow> None | f # _ \<Rightarrow> store_find (frame_values f) i) of
       None \<Rightarrow> Some (value_count s, value_bytes s)
     | Some existing \<Rightarrow>
         (case the (MeasureProgramValueGraph existing (value_limits s)) of
            (status, count, bytes) \<Rightarrow>
              if status \<noteq> NoArenaError \<or> count > value_count s \<or> bytes > value_bytes s then None
              else Some (value_count s - count, value_bytes s - bytes)))"

definition known_types :: "Executor \<Rightarrow> TypeSchemaDefinition list" where
  "known_types s = (case verified s of None \<Rightarrow> [] | Some v \<Rightarrow> type_closure v)"

definition budget_error :: "ProgramValueArenaError \<Rightarrow> bool" where
  "budget_error e \<longleftrightarrow> e = ValueBudgetExceeded \<or> e = ByteBudgetExceeded"

definition Bind :: "u64 \<Rightarrow> TypeRef \<Rightarrow> ProgramValueGraph \<Rightarrow> Executor \<Rightarrow> bool \<times> Executor" where
  "Bind i t g s =
    (if i = 0 \<or> graph_values g = [] \<or> RootValue g = None then (False, s)
     else
       (case retained i s of
          None \<Rightarrow> (False, s)
        | Some (count, bytes) \<Rightarrow>
            let remaining = remaining_limits count bytes s;
                status = the (ValidateProgramValueGraph g t (known_types s) remaining (Some (current_epoch s))) in
            if status \<noteq> NoArenaError then
              (False,
               if budget_error status then BeginFailure BudgetExhausted (ascii ''value_budget'') 0 s
               else BeginFailure ContractFailed (ascii ''invalid_value'') 0 s)
            else
              (case the (MeasureProgramValueGraph g remaining) of
                 (measured, new_count, new_bytes) \<Rightarrow>
                   if measured \<noteq> NoArenaError then
                     (False, BeginFailure BudgetExhausted (ascii ''value_budget'') 0 s)
                   else
                     (True,
                      (update_frame (\<lambda>f. f\<lparr>frame_values := insert_or_assign i g (frame_values f)\<rparr>) s)
                        \<lparr>value_count := count + new_count, value_bytes := bytes + new_bytes\<rparr>))))"

section \<open>Waiting for the host, and cleanup\<close>

definition Suspend ::
  "ExecutorHostRequest \<Rightarrow> PendingSuccess \<Rightarrow> u64 option \<Rightarrow> Executor \<Rightarrow> PumpResult \<times> Executor" where
  "Suspend request success result_value s =
    (pump_nothing\<lparr>host_request := Some request\<rparr>,
     s\<lparr>pending := Some \<lparr>pending_request = request, pending_success = success,
         pending_result = result_value, pending_request_id = None\<rparr>,
       activity := AwaitingHost\<rparr>)"

definition scope_request :: "ProgramHostOperation \<Rightarrow> Scope \<Rightarrow> ExecutorHostRequest" where
  "scope_request oper scope = \<lparr>request_operation = oper, request_action = None, request_input = UnitGraph,
     request_scope = scope_id scope, request_parent = scope_parent scope, request_resource = 0,
     cleanup_only = True, diagnostic_selector = []\<rparr>"

definition deferred_request :: "DeferredAction \<Rightarrow> Scope \<Rightarrow> ExecutorHostRequest" where
  "deferred_request d scope = \<lparr>request_operation = InvokeAction, request_action = Some (deferred_identity d),
     request_input = deferred_input d, request_scope = scope_id scope, request_parent = scope_parent scope,
     request_resource = 0, cleanup_only = True, diagnostic_selector = []\<rparr>"

definition PumpCleanup :: "Executor \<Rightarrow> PumpResult \<times> Executor" where
  "PumpCleanup s =
    (case scopes s of
       [] \<Rightarrow> (pump_nothing, BeginFailure ContractFailed (ascii ''scope_underflow'') 0 s)
     | scope # outer \<Rightarrow>
         if deferred scope \<noteq> [] then
           Suspend (deferred_request (last (deferred scope)) scope) DeferredCleanup None
             (s\<lparr>scopes := scope\<lparr>deferred := butlast (deferred scope)\<rparr> # outer\<rparr>)
         else if explicit_scope_close s then
           Suspend (scope_request CloseScope scope) CloseScopeSuccess None s
         else if length (scopes s) > 1 then
           Suspend (scope_request CloseScope scope) CloseScopeSuccess None s
         else Suspend (scope_request FinishInvocation scope) FinishSuccess None s)"

definition BeginReturn :: "Terminator \<Rightarrow> Executor \<Rightarrow> Executor" where
  "BeginReturn t s =
    (let s1 = (case Option.bind (return_value t) (Value s) of
                 None \<Rightarrow> s
               | Some g \<Rightarrow> s\<lparr>program_result := (program_result s)\<lparr>result_output := Some g\<rparr>\<rparr>);
         s2 = (case Option.bind (terminator_domain_outcome t) (Value s1) of
                 None \<Rightarrow> s1
               | Some g \<Rightarrow> s1\<lparr>program_result := (program_result s1)\<lparr>domain_outcome := Some g\<rparr>\<rparr>) in
     start_unwinding (set_infrastructure Completed s2))"

section \<open>Blocks and calls\<close>

definition EnterBlock :: "BlockEdge \<Rightarrow> Executor \<Rightarrow> bool \<times> Executor" where
  "EnterBlock e s =
    (case frames s of
       [] \<Rightarrow> (False, s)
     | f # fs \<Rightarrow>
         (case Block (frame_function f) (edge_target e) of
            None \<Rightarrow> (False, s)
          | Some b \<Rightarrow>
              if length (block_arguments b) \<noteq> length (edge_arguments e) then (False, s)
              else
                (case those (map (store_find (frame_values f)) (edge_arguments e)) of
                   None \<Rightarrow> (False, s)
                 | Some gs \<Rightarrow>
                     let assigned = fold (\<lambda>(d, g) m. insert_or_assign (definition_id d) g m)
                           (zip (block_arguments b) gs) (frame_values f) in
                     (True, Trace ''branch'' (terminator_source (terminator b)) [TracedBlock (block_id b)]
                       (s\<lparr>frames := f\<lparr>frame_block := Some b, instruction_index := 0,
                          frame_values := assigned\<rparr> # fs\<rparr>)))))"

definition operand :: "Instruction \<Rightarrow> Executor \<Rightarrow> nat \<Rightarrow> ProgramValueGraph option" where
  "operand i s k = (if k \<ge> length (operands i) then None else Value s (operands i ! k))"

definition all_operands :: "Instruction \<Rightarrow> Executor \<Rightarrow> ProgramValueGraph list option" where
  "all_operands i s = those (map (Value s) (operands i))"

definition BuildInput :: "Instruction \<Rightarrow> TypeRef \<Rightarrow> Executor \<Rightarrow> ProgramValueGraph option" where
  "BuildInput i t s =
    (case all_operands i s of
       None \<Rightarrow> None
     | Some [] \<Rightarrow> Some UnitGraph
     | Some [g] \<Rightarrow> Some g
     | Some gs \<Rightarrow> Some (CompositeGraph t gs False))"

definition advance :: "Executor \<Rightarrow> Executor" where
  "advance s = update_frame (\<lambda>f. f\<lparr>instruction_index := Suc (instruction_index f)\<rparr>) s"

definition PushCall :: "ProgramModule \<Rightarrow> ProgramFunction \<Rightarrow> Instruction \<Rightarrow> Executor \<Rightarrow> bool \<times> Executor" where
  "PushCall m fn i s0 =
    (let s = s0\<lparr>calls_executed := calls_executed s0 + 1\<rparr> in
     if calls_executed s > maximum_calls (executor_limits s) \<or>
        size_of (frames s) + 1 > maximum_call_depth (executor_limits s) then
       (False, BeginFailure BudgetExhausted (ascii ''call_budget'') (instruction_source i) s)
     else if length (function_arguments fn) \<noteq> length (operands i) then
       (False, BeginFailure ContractFailed (ascii ''call_arity'') (instruction_source i) s)
     else
       (case (Block fn (entry_block fn), all_operands i s) of
          (Some b, Some gs) \<Rightarrow>
            let vals = fold (\<lambda>(d, g) m. store_emplace (definition_id d) g m)
                  (zip (function_arguments fn) gs) [];
                child = \<lparr>frame_module = m, frame_function = fn, frame_block = Some b, instruction_index = 0,
                  frame_values = vals, return_destination = map_option definition_id (instruction_result i)\<rparr>;
                s' = advance s in
            (True, Trace ''call'' (instruction_source i) [TracedFunction (function_name fn)]
              (s'\<lparr>frames := child # frames s'\<rparr>))
        | _ \<Rightarrow> (False, s)))"

end
