(* ===== verification/ExecutorSteps.thy ===== *)
theory ExecutorSteps
  imports ProgramExecutor
begin

text \<open>
  The steps of the executor
  (SavorCore/Runner/Runtime/ProgramRuntime/Execution/ProgramExecutor.cpp): an instruction, a
  terminator, and the public operations \<open>Start\<close>, \<open>Pump\<close>, \<open>BindPendingAction\<close>,
  \<open>DeliverHostCompletion\<close>, \<open>RequestCancellation\<close> and \<open>snapshot\<close>.
\<close>

section \<open>Instructions that compute a value\<close>

definition bool_graph :: "bool \<Rightarrow> ProgramValueGraph" where
  "bool_graph b = ScalarGraph (Builtin BoolT) (BoolValue b)"

definition evaluate_convert :: "'f floating \<Rightarrow> Instruction \<Rightarrow> Executor \<Rightarrow> ProgramValueGraph option" where
  "evaluate_convert fl i s =
    (case (instruction_result i, operand i s 0) of
       (Some d, Some g) \<Rightarrow>
         let n = ToNumber fl g; t = definition_type d in
         if \<not> number_valid n then None
         else if IsIntegerBuiltin (builtin t) then ExactIntegerConversionGraph fl t n
         else if builtin t = F32T then ExactFloat32Graph fl t n
         else if builtin t = F64T then ExactFloat64Graph fl t n
         else None
     | _ \<Rightarrow> None)"

text \<open>
  A list index whose value is missing is dereferenced by the code; here the instruction fails, as it
  does for every other missing operand.
\<close>

definition evaluate_projection :: "'f floating \<Rightarrow> Instruction \<Rightarrow> Executor \<Rightarrow> ProgramValueGraph option" where
  "evaluate_projection fl i s =
    (case operand i s 0 of
       None \<Rightarrow> None
     | Some g \<Rightarrow>
         (case root_payload g of
            None \<Rightarrow> None
          | Some p \<Rightarrow>
              let members = (case p of RecordValue cs \<Rightarrow> Some cs | ListValue cs \<Rightarrow> Some cs | _ \<Rightarrow> None);
                  index =
                    (if opcode i = RecordProject then RecordFieldIndex s i
                     else if length (operands i) > 1 then
                       (case operand i s 1 of
                          None \<Rightarrow> None
                        | Some h \<Rightarrow>
                            let n = ToNumber fl h in
                            if \<not> number_valid n \<or> number_floating n \<or> signed_integer n then None
                            else Some (unat (unsigned_value n)))
                     else Some 0) in
              (case (index, members) of
                 (Some k, Some cs) \<Rightarrow>
                   if k \<ge> length cs then None
                   else
                     let projected = ExtractGraph g (cs ! k) in
                     if graph_values projected = [] then None else Some projected
               | _ \<Rightarrow> None)))"

definition evaluate_update :: "Instruction \<Rightarrow> Executor \<Rightarrow> ProgramValueGraph option" where
  "evaluate_update i s =
    (case (operand i s 0, operand i s 1, instruction_result i) of
       (Some g, Some new, Some d) \<Rightarrow>
         (case (root_payload g, RecordFieldIndex s i) of
            (Some (RecordValue cs), Some field) \<Rightarrow>
              if field \<ge> length cs then None
              else Some (CompositeGraph (definition_type d)
                (map (\<lambda>k. if k = field then new else ExtractGraph g (cs ! k)) [0..<length cs]) False)
          | _ \<Rightarrow> None)
     | _ \<Rightarrow> None)"

definition evaluate_floating ::
  "'f floating \<Rightarrow> InstructionOpcode \<Rightarrow> 'f Number \<Rightarrow> 'f Number \<Rightarrow> 'f option" where
  "evaluate_floating fl oc lhs rhs =
    (let x = floating_value lhs; y = floating_value rhs; zero = ld_of_int fl 0 in
     case oc of
       AddChecked \<Rightarrow> Some (ld_add fl x y)
     | SubtractChecked \<Rightarrow> Some (ld_subtract fl x y)
     | MultiplyChecked \<Rightarrow> Some (ld_multiply fl x y)
     | DivideChecked \<Rightarrow> if ld_equal fl y zero then None else Some (ld_divide fl x y)
     | RemainderChecked \<Rightarrow>
         if ld_equal fl y zero \<or> number_floating lhs \<or> number_floating rhs then None
         else Some (ld_fmod fl x y)
     | _ \<Rightarrow> Some zero)"

definition evaluate_arithmetic :: "'f floating \<Rightarrow> Instruction \<Rightarrow> Executor \<Rightarrow> ProgramValueGraph option" where
  "evaluate_arithmetic fl i s =
    (case (operand i s 0, operand i s 1, instruction_result i) of
       (Some g, Some h, Some d) \<Rightarrow>
         let lhs = ToNumber fl g; rhs = ToNumber fl h; t = definition_type d in
         if \<not> number_valid lhs \<or> \<not> number_valid rhs then None
         else if IsIntegerBuiltin (builtin t) then CheckedIntegerBinaryGraph t g h (opcode i)
         else Option.bind (evaluate_floating fl (opcode i) lhs rhs) (NumberGraph fl t)
     | _ \<Rightarrow> None)"

definition evaluate_negation :: "'f floating \<Rightarrow> Instruction \<Rightarrow> Executor \<Rightarrow> ProgramValueGraph option" where
  "evaluate_negation fl i s =
    (case (operand i s 0, instruction_result i) of
       (Some g, Some d) \<Rightarrow>
         let n = ToNumber fl g; t = definition_type d in
         if number_valid n \<and> IsIntegerBuiltin (builtin t) then CheckedIntegerNegationGraph t g
         else if number_valid n then NumberGraph fl t (ld_negate fl (floating_value n))
         else None
     | _ \<Rightarrow> None)"

definition compare_floating :: "'f floating \<Rightarrow> InstructionOpcode \<Rightarrow> 'f \<Rightarrow> 'f \<Rightarrow> bool" where
  "compare_floating fl oc x y =
    (case oc of
       Less \<Rightarrow> ld_less fl x y
     | LessEqual \<Rightarrow> ld_at_most fl x y
     | Greater \<Rightarrow> ld_less fl y x
     | GreaterEqual \<Rightarrow> ld_at_most fl y x
     | _ \<Rightarrow> False)"

definition compare_exact :: "InstructionOpcode \<Rightarrow> int \<Rightarrow> bool" where
  "compare_exact oc c =
    (case oc of
       Less \<Rightarrow> c < 0
     | LessEqual \<Rightarrow> c \<le> 0
     | Greater \<Rightarrow> c > 0
     | GreaterEqual \<Rightarrow> c \<ge> 0
     | _ \<Rightarrow> False)"

definition evaluate_comparison :: "'f floating \<Rightarrow> Instruction \<Rightarrow> Executor \<Rightarrow> ProgramValueGraph option" where
  "evaluate_comparison fl i s =
    (case (operand i s 0, operand i s 1) of
       (Some g, Some h) \<Rightarrow>
         if opcode i = Equal then
           Some (bool_graph (the (GraphEquivalent g (graph_root g) h (graph_root h))))
         else if opcode i = NotEqual then
           Some (bool_graph (\<not> the (GraphEquivalent g (graph_root g) h (graph_root h))))
         else
           let lhs = ToNumber fl g; rhs = ToNumber fl h in
           if \<not> number_valid lhs \<or> \<not> number_valid rhs then None
           else
             (case (case RootValue g of
                      None \<Rightarrow> None
                    | Some r \<Rightarrow>
                        if IsIntegerBuiltin (builtin (value_type r))
                        then CompareExactInteger (builtin (value_type r)) g h else None) of
                Some c \<Rightarrow> Some (bool_graph (compare_exact (opcode i) c))
              | None \<Rightarrow>
                  Some (bool_graph (compare_floating fl (opcode i) (floating_value lhs) (floating_value rhs))))
     | _ \<Rightarrow> None)"

definition evaluate_boolean :: "Instruction \<Rightarrow> Executor \<Rightarrow> ProgramValueGraph option" where
  "evaluate_boolean i s =
    (case (operand i s 0, operand i s 1) of
       (Some g, Some h) \<Rightarrow>
         (case (Boolean g, Boolean h) of
            (Some x, Some y) \<Rightarrow> Some (bool_graph (if opcode i = BooleanAnd then x \<and> y else x \<or> y))
          | _ \<Rightarrow> None)
     | _ \<Rightarrow> None)"

definition evaluate_reducer :: "'f executor_env \<Rightarrow> Instruction \<Rightarrow> Executor \<Rightarrow> ProgramValueGraph option" where
  "evaluate_reducer env i s =
    (case (dependency (target i), instruction_result i, reducers env) of
       (Some d, Some _, Some reduce) \<Rightarrow> Option.bind (all_operands i s) (reduce d)
     | _ \<Rightarrow> None)"

text \<open>The graph an instruction binds as its result; \<open>None\<close> is a \<open>fail\<close>.\<close>

definition evaluate :: "'f executor_env \<Rightarrow> Instruction \<Rightarrow> Executor \<Rightarrow> ProgramValueGraph option" where
  "evaluate env i s =
    (let fl = floating_ops env in
     case opcode i of
       Constant \<Rightarrow> map_option FromLiteral (literal i)
     | Copy \<Rightarrow> operand i s 0
     | Select \<Rightarrow>
         (case (operand i s 0, operand i s 1, operand i s 2) of
            (Some c, Some g, Some h) \<Rightarrow>
              (case Boolean c of None \<Rightarrow> None | Some b \<Rightarrow> Some (if b then g else h))
          | _ \<Rightarrow> None)
     | CheckedConvert \<Rightarrow> evaluate_convert fl i s
     | RecordConstruct \<Rightarrow>
         (case (instruction_result i, all_operands i s) of
            (Some d, Some gs) \<Rightarrow> Some (CompositeGraph (definition_type d) gs False)
          | _ \<Rightarrow> None)
     | ListConstruct \<Rightarrow>
         (case (instruction_result i, all_operands i s) of
            (Some d, Some gs) \<Rightarrow> Some (CompositeGraph (definition_type d) gs True)
          | _ \<Rightarrow> None)
     | RecordProject \<Rightarrow> evaluate_projection fl i s
     | ListIndex \<Rightarrow> evaluate_projection fl i s
     | RecordUpdate \<Rightarrow> evaluate_update i s
     | OptionalConstruct \<Rightarrow>
         map_option (\<lambda>d. OptionalGraph (definition_type d) (if operands i = [] then None else operand i s 0))
           (instruction_result i)
     | OptionalIsPresent \<Rightarrow>
         (case Option.bind (operand i s 0) root_payload of
            Some (OptionalValue c) \<Rightarrow> Some (bool_graph (c \<noteq> None))
          | _ \<Rightarrow> None)
     | OptionalExtract \<Rightarrow>
         (case operand i s 0 of
            None \<Rightarrow> None
          | Some g \<Rightarrow>
              (case root_payload g of
                 Some (OptionalValue (Some c)) \<Rightarrow> Some (ExtractGraph g c)
               | _ \<Rightarrow> None))
     | ListAppend \<Rightarrow>
         (case (operand i s 0, operand i s 1, instruction_result i) of
            (Some g, Some e, Some d) \<Rightarrow>
              (case root_payload g of
                 Some (ListValue _) \<Rightarrow>
                   let appended = AppendListGraph g e (definition_type d) in
                   if graph_values appended = [] then None else Some appended
               | _ \<Rightarrow> None)
          | _ \<Rightarrow> None)
     | ListSize \<Rightarrow>
         (case Option.bind (operand i s 0) root_payload of
            Some (ListValue cs) \<Rightarrow>
              Some (ScalarGraph
                (case instruction_result i of Some d \<Rightarrow> definition_type d | None \<Rightarrow> Builtin U64T)
                (U64Value (size_of cs)))
          | _ \<Rightarrow> None)
     | AddChecked \<Rightarrow> evaluate_arithmetic fl i s
     | SubtractChecked \<Rightarrow> evaluate_arithmetic fl i s
     | MultiplyChecked \<Rightarrow> evaluate_arithmetic fl i s
     | DivideChecked \<Rightarrow> evaluate_arithmetic fl i s
     | RemainderChecked \<Rightarrow> evaluate_arithmetic fl i s
     | NegateChecked \<Rightarrow> evaluate_negation fl i s
     | Equal \<Rightarrow> evaluate_comparison fl i s
     | NotEqual \<Rightarrow> evaluate_comparison fl i s
     | Less \<Rightarrow> evaluate_comparison fl i s
     | LessEqual \<Rightarrow> evaluate_comparison fl i s
     | Greater \<Rightarrow> evaluate_comparison fl i s
     | GreaterEqual \<Rightarrow> evaluate_comparison fl i s
     | BooleanAnd \<Rightarrow> evaluate_boolean i s
     | BooleanOr \<Rightarrow> evaluate_boolean i s
     | BooleanNot \<Rightarrow>
         map_option (\<lambda>b. bool_graph (\<not> b)) (Option.bind (operand i s 0) Boolean)
     | CallReducer \<Rightarrow> evaluate_reducer env i s
     | _ \<Rightarrow> None)"

section \<open>The other instructions\<close>

text \<open>
  The innermost scope and frame exist whenever an instruction runs, so the branches for none, where
  the code calls \<open>back()\<close>, are never taken.
\<close>

type_synonym step = "PumpResult \<times> Executor"

definition instruction_failed :: "Instruction \<Rightarrow> Executor \<Rightarrow> step" where
  "instruction_failed i s =
    (pump_nothing, BeginFailure ContractFailed (ascii ''instruction_failed'') (instruction_source i) s)"

definition bind_result :: "Instruction \<Rightarrow> ProgramValueGraph \<Rightarrow> Executor \<Rightarrow> step" where
  "bind_result i g s =
    (case instruction_result i of
       None \<Rightarrow> instruction_failed i s
     | Some d \<Rightarrow>
         (case Bind (definition_id d) (definition_type d) g s of
            (bound, s') \<Rightarrow> if bound then (pump_runnable, advance s') else instruction_failed i s'))"

definition called :: "Instruction \<Rightarrow> bool \<times> Executor \<Rightarrow> step" where
  "called i = (\<lambda>(pushed, s). if pushed then (pump_runnable, s) else instruction_failed i s)"

definition same_module :: "ExactDependencyIdentity \<Rightarrow> ProgramModule \<Rightarrow> bool" where
  "same_module d m \<longleftrightarrow>
    module_id (module_identity m) = dependency_id d \<and>
    module_revision (module_identity m) = dependency_version d \<and>
    module_hash (module_identity m) = signature_hash d"

definition execute_call_local :: "Instruction \<Rightarrow> Executor \<Rightarrow> step" where
  "execute_call_local i s =
    (case frames s of
       [] \<Rightarrow> instruction_failed i s
     | f # _ \<Rightarrow>
         (case Function (frame_module f) (local_function (target i)) of
            None \<Rightarrow> instruction_failed i s
          | Some fn \<Rightarrow> called i (PushCall (frame_module f) fn i s)))"

definition execute_call_imported :: "Instruction \<Rightarrow> Executor \<Rightarrow> step" where
  "execute_call_imported i s =
    (case (dependency (target i), verified s) of
       (Some d, Some v) \<Rightarrow>
         (case List.find (same_module d) (module_closure v) of
            None \<Rightarrow> instruction_failed i s
          | Some m \<Rightarrow>
              (case List.find (\<lambda>f. function_name f = target_member_name (target i)) (module_functions m) of
                 None \<Rightarrow> instruction_failed i s
               | Some fn \<Rightarrow> called i (PushCall m fn i s)))
     | _ \<Rightarrow> instruction_failed i s)"

definition count_action :: "Executor \<Rightarrow> Executor" where
  "count_action s = s\<lparr>action_requests := action_requests s + 1\<rparr>"

definition actions_exhausted :: "Executor \<Rightarrow> bool" where
  "actions_exhausted s \<longleftrightarrow> action_requests s > maximum_action_requests (executor_limits s)"

definition action_input :: "Instruction \<Rightarrow> Executor \<Rightarrow> (ExactDependencyIdentity \<times> ProgramValueGraph) option" where
  "action_input i s =
    (case dependency (target i) of
       None \<Rightarrow> None
     | Some d \<Rightarrow>
         (case action_binding s d of
            None \<Rightarrow> None
          | Some b \<Rightarrow> map_option (\<lambda>g. (d, g)) (BuildInput i (action_input_type b) s)))"

definition execute_await :: "Instruction \<Rightarrow> Executor \<Rightarrow> step" where
  "execute_await i s =
    (case action_input i s of
       None \<Rightarrow> instruction_failed i s
     | Some (d, g) \<Rightarrow>
         let s1 = count_action s in
         if actions_exhausted s1 then
           (pump_nothing, BeginFailure BudgetExhausted (ascii ''action_budget'') (instruction_source i) s1)
         else
           (case scopes s1 of
              [] \<Rightarrow> instruction_failed i s1
            | scope # _ \<Rightarrow>
                Suspend \<lparr>request_operation = InvokeAction, request_action = Some d, request_input = g,
                    request_scope = scope_id scope, request_parent = scope_parent scope, request_resource = 0,
                    cleanup_only = False, diagnostic_selector = selector i\<rparr>
                  BindValue (map_option definition_id (instruction_result i)) (advance s1)))"

definition execute_emit :: "Instruction \<Rightarrow> Executor \<Rightarrow> step" where
  "execute_emit i s =
    (case operand i s 0 of
       None \<Rightarrow> instruction_failed i s
     | Some g \<Rightarrow>
         let s1 = s\<lparr>emissions := emissions s + 1\<rparr> in
         if emissions s1 > maximum_emissions (executor_limits s1) then instruction_failed i s1
         else
           (case Option.bind (RootValue g) (\<lambda>r. named (value_type r)) of
              None \<Rightarrow> instruction_failed i s1
            | Some schema \<Rightarrow>
                let e = \<lparr>emission_sequence = next_emission s1, emission_schema = schema, emission_value = g,
                      emission_complete = True\<rparr>;
                    r = program_result s1 in
                (pump_runnable\<lparr>emitted := Some e\<rparr>,
                 advance (s1\<lparr>next_emission := next_emission s1 + 1,
                   program_result := r\<lparr>result_emissions := result_emissions r @ [e]\<rparr>\<rparr>))))"

definition execute_publish :: "Instruction \<Rightarrow> Executor \<Rightarrow> step" where
  "execute_publish i s =
    (case operand i s 0 of
       None \<Rightarrow> instruction_failed i s
     | Some g \<Rightarrow>
         let s1 = s\<lparr>artifacts := artifacts s + 1\<rparr> in
         if artifacts s1 > maximum_artifacts (executor_limits s1) then instruction_failed i s1
         else
           (case root_payload g of
              Some (ArtifactReferenceValue a) \<Rightarrow>
                if \<not> artifact_complete a then instruction_failed i s1
                else
                  let r = program_result s1 in
                  (pump_runnable,
                   advance (s1\<lparr>next_artifact := next_artifact s1 + 1,
                     program_result := r\<lparr>result_artifacts := result_artifacts r @
                       [\<lparr>artifact_sequence = next_artifact s1, published_artifact = a\<rparr>]\<rparr>\<rparr>))
            | _ \<Rightarrow> instruction_failed i s1))"

text \<open>The request of an instruction that is not a cleanup request: without an input.\<close>

definition plain_request :: "ProgramHostOperation \<Rightarrow> u64 \<Rightarrow> u64 \<Rightarrow> u64 \<Rightarrow> ExecutorHostRequest" where
  "plain_request oper scope parent resource = \<lparr>request_operation = oper, request_action = None,
     request_input = UnitGraph, request_scope = scope, request_parent = parent,
     request_resource = resource, cleanup_only = False, diagnostic_selector = []\<rparr>"

definition execute_enter_scope :: "Instruction \<Rightarrow> Executor \<Rightarrow> step" where
  "execute_enter_scope i s =
    (case scopes s of
       [] \<Rightarrow> instruction_failed i s
     | scope # _ \<Rightarrow>
         if instruction_scope i = 0 then instruction_failed i s
         else Suspend (plain_request OpenScope (instruction_scope i) (scope_id scope) 0) PushScope None
           (advance s))"

definition execute_exit_scope :: "Instruction \<Rightarrow> Executor \<Rightarrow> step" where
  "execute_exit_scope i s =
    (case scopes s of
       scope # _ # _ \<Rightarrow>
         if scope_id scope \<noteq> instruction_scope i then instruction_failed i s
         else (pump_runnable, (advance s)\<lparr>explicit_scope_close := True, activity := Unwinding\<rparr>)
     | _ \<Rightarrow> instruction_failed i s)"

definition execute_defer :: "Instruction \<Rightarrow> Executor \<Rightarrow> step" where
  "execute_defer i s =
    (case (action_input i s, scopes s) of
       (Some (d, g), scope # outer) \<Rightarrow>
         let s1 = count_action s in
         if actions_exhausted s1 then
           (pump_nothing, BeginFailure BudgetExhausted (ascii ''action_budget'') (instruction_source i) s1)
         else
           (pump_runnable, advance (s1\<lparr>scopes := scope\<lparr>deferred := deferred scope @
             [\<lparr>deferred_identity = d, deferred_input = g\<rparr>]\<rparr> # outer\<rparr>))
     | _ \<Rightarrow> instruction_failed i s)"

definition execute_promote :: "Instruction \<Rightarrow> Executor \<Rightarrow> step" where
  "execute_promote i s =
    (case (Option.bind (operand i s 0) root_payload, scopes s) of
       (Some (ResourceHandleValue h), scope # _) \<Rightarrow>
         Suspend (plain_request PromoteResourceOperation (instruction_scope i) (scope_id scope) (handle_id h))
           Promote None (advance s)
     | _ \<Rightarrow> instruction_failed i s)"

definition ExecuteInstruction :: "'f executor_env \<Rightarrow> Instruction \<Rightarrow> Executor \<Rightarrow> step" where
  "ExecuteInstruction env i s0 =
    (let s = Trace ''instruction'' (instruction_source i) [TracedOpcode (opcode i)] s0 in
     case opcode i of
       CallLocal \<Rightarrow> execute_call_local i s
     | CallImported \<Rightarrow> execute_call_imported i s
     | AwaitAction \<Rightarrow> execute_await i s
     | EmitRecord \<Rightarrow> execute_emit i s
     | PublishArtifact \<Rightarrow> execute_publish i s
     | EnterScope \<Rightarrow> execute_enter_scope i s
     | ExitScope \<Rightarrow> execute_exit_scope i s
     | DeferCompensation \<Rightarrow> execute_defer i s
     | PromoteResource \<Rightarrow> execute_promote i s
     | _ \<Rightarrow>
         (case evaluate env i s of
            None \<Rightarrow> instruction_failed i s
          | Some g \<Rightarrow> bind_result i g s))"

section \<open>Terminators\<close>

definition invalid_edge :: "string \<Rightarrow> Terminator \<Rightarrow> Executor \<Rightarrow> Executor" where
  "invalid_edge code t s = BeginFailure ContractFailed (ascii code) (terminator_source t) s"

definition entered :: "string \<Rightarrow> Terminator \<Rightarrow> bool \<times> Executor \<Rightarrow> step" where
  "entered code t = (\<lambda>(ok, s). (pump_runnable, if ok then s else invalid_edge code t s))"

definition execute_switch :: "Terminator \<Rightarrow> Executor \<Rightarrow> step" where
  "execute_switch t s =
    (case condition_or_selector t of
       None \<Rightarrow> (pump_nothing, invalid_edge ''invalid_switch'' t s)
     | Some c \<Rightarrow>
         let selected =
           (case (case Option.bind (Value s c) root_payload of
                    Some (EnumValue _ k) \<Rightarrow> List.find (\<lambda>e. case_value e = k) (enum_cases t)
                  | _ \<Rightarrow> None) of
              Some e \<Rightarrow> Some (case_edge e)
            | None \<Rightarrow> default_edge t) in
         entered ''invalid_switch'' t
           (case selected of None \<Rightarrow> (False, s) | Some e \<Rightarrow> EnterBlock e s))"

text \<open>
  A return from a call binds the value in the frame of the caller. When that is not possible nothing
  is reported; the code returns an empty result, and the loop goes on.
\<close>

definition execute_return :: "Terminator \<Rightarrow> Executor \<Rightarrow> step" where
  "execute_return t s =
    (case (case return_value t of None \<Rightarrow> Some no_graph | Some i \<Rightarrow> Value s i) of
       None \<Rightarrow> (pump_nothing, BeginFailure ContractFailed (ascii ''missing_return'') (terminator_source t) s)
     | Some returned \<Rightarrow>
         (case frames s of
            f # caller # outer \<Rightarrow>
              let s1 = s\<lparr>frames := caller # outer\<rparr> in
              (case return_destination f of
                 None \<Rightarrow> (pump_runnable, s1)
               | Some d \<Rightarrow>
                   (case DefinitionType s1 d of
                      None \<Rightarrow> (pump_nothing, s1)
                    | Some ty \<Rightarrow>
                        (case Bind d ty returned s1 of
                           (bound, s2) \<Rightarrow> (if bound then pump_runnable else pump_nothing, s2))))
          | _ \<Rightarrow> (pump_runnable, BeginReturn t s)))"

definition ExecuteTerminator :: "Terminator \<Rightarrow> Executor \<Rightarrow> step" where
  "ExecuteTerminator t s =
    (case terminator_kind t of
       Branch \<Rightarrow>
         (case edges t of
            [e] \<Rightarrow> entered ''invalid_branch'' t (EnterBlock e s)
          | _ \<Rightarrow> (pump_runnable, invalid_edge ''invalid_branch'' t s))
     | ConditionalBranch \<Rightarrow>
         (case (condition_or_selector t, edges t) of
            (Some c, [e, e']) \<Rightarrow>
              entered ''invalid_branch'' t
                (case Option.bind (Value s c) Boolean of
                   None \<Rightarrow> (False, s)
                 | Some b \<Rightarrow> EnterBlock (if b then e else e') s)
          | _ \<Rightarrow> (pump_nothing, invalid_edge ''invalid_branch'' t s))
     | EnumSwitch \<Rightarrow> execute_switch t s
     | Return \<Rightarrow> execute_return t s
     | StructuredFail \<Rightarrow>
         (pump_runnable,
          BeginFailure ContractFailed
            (case failure t of Some f \<Rightarrow> failure_code f | None \<Rightarrow> ascii ''structured_failure'')
            (terminator_source t) s))"

section \<open>Starting\<close>

definition initial_result :: "ProgramInvocation \<Rightarrow> VerifiedProgramModule \<Rightarrow> ProgramResult" where
  "initial_result call v = \<lparr>result_invocation = invocation_id call, result_attempt = attempt_id call,
     result_module = invocation_module call, result_entrypoint = invocation_entrypoint call,
     resolved_dependencies = dependency_lock v, infrastructure = ContractFailed, domain_outcome = None,
     result_cleanup = CleanedUp, session_disposition = DispositionClean, result_output = None,
     result_emissions = [], result_artifacts = [], diagnostics = [], result_trace = [],
     cleanup_receipts = [], result_provenance = invocation_provenance call\<rparr>"

definition finite_budgets :: "ProgramBudgets \<Rightarrow> bool" where
  "finite_budgets b \<longleftrightarrow>
    maximum_instructions b \<noteq> 0 \<and> maximum_calls b \<noteq> 0 \<and> maximum_call_depth b \<noteq> 0 \<and>
    maximum_action_requests b \<noteq> 0 \<and> budget_values b \<noteq> 0 \<and> budget_value_bytes b \<noteq> 0 \<and>
    maximum_trace_events b \<noteq> 0"

text \<open>
  The function, its only argument, the block and the declared input type the invocation starts with.
\<close>

definition entry_function ::
  "VerifiedProgramModule \<Rightarrow> Executor \<Rightarrow> (ProgramFunction \<times> ValueDefinition \<times> BasicBlock \<times> TypeRef) option" where
  "entry_function v s =
    (case Entrypoint s of
       None \<Rightarrow> None
     | Some e \<Rightarrow>
         (case Function (verified_module v) (entrypoint_function e) of
            None \<Rightarrow> None
          | Some f \<Rightarrow>
              (case (function_arguments f, Block f (entry_block f)) of
                 ([d], Some b) \<Rightarrow> Some (f, d, b, entrypoint_input_type e)
               | _ \<Rightarrow> None)))"

definition Start ::
  "VerifiedProgramModule option \<Rightarrow> ProgramInvocation \<Rightarrow> Executor \<Rightarrow> bool \<times> Executor" where
  "Start module call s0 =
    (case module of
       None \<Rightarrow> (False, s0)
     | Some v \<Rightarrow>
         if activity s0 \<noteq> Idle \<or> invocation_id call = 0 \<or> attempt_id call = 0 \<or>
            expected_epoch (invocation_state call) = 0 then (False, s0)
         else
           let s = s0\<lparr>verified := Some v, invocation := call, executor_limits := invocation_limits call\<rparr>;
               input = invocation_input call in
           if \<not> finite_budgets (executor_limits s) then (False, s)
           else
             (case entry_function v s of
                None \<Rightarrow> (False, s)
              | Some (f, d, b, ty) \<Rightarrow>
                  if graph_values input = [] \<or> RootValue input = None then (False, s)
                  else if the (ValidateProgramValueGraph input ty (type_closure v) (value_limits s)
                      (Some (current_epoch s))) \<noteq> NoArenaError then (False, s)
                  else
                    (case the (MeasureProgramValueGraph input (value_limits s)) of
                       (status, count, bytes) \<Rightarrow>
                         if status \<noteq> NoArenaError then (False, s)
                         else
                           (True, Trace ''invocation_started'' 0 []
                             (s\<lparr>program_result := initial_result call v,
                               value_count := count, value_bytes := bytes,
                               frames := [\<lparr>frame_module = verified_module v, frame_function = f,
                                 frame_block = Some b, instruction_index = 0,
                                 frame_values = [(definition_id d, input)], return_destination = None\<rparr>],
                               scopes := [\<lparr>scope_id = kInvocationScope, scope_parent = 0, deferred = []\<rparr>],
                               activity := Runnable\<rparr>)))))"

section \<open>Pumping\<close>

definition cancellation_reason :: "CancellationReason \<Rightarrow> Executor \<Rightarrow> CancellationReason" where
  "cancellation_reason token s =
    (if explicit_cancellation s \<noteq> NoCancellation then explicit_cancellation s else token)"

text \<open>
  One round of the loop: \<open>Inl\<close> returns from \<open>Pump\<close>, \<open>Inr\<close> goes on with the quantum. Only a
  round that finds the instruction budget exhausted leaves the quantum as it is.
\<close>

definition pump_round :: "'f executor_env \<Rightarrow> u64 \<Rightarrow> Executor \<Rightarrow> step + (u64 \<times> Executor)" where
  "pump_round env quantum s0 =
    (if activity s0 = Unwinding then Inl (PumpCleanup s0)
     else
       (case frames s0 of
          [] \<Rightarrow> Inl (pump_nothing, s0)
        | f # _ \<Rightarrow>
            if activity s0 \<noteq> Runnable then Inl (pump_nothing, s0)
            else
              let s = s0\<lparr>instructions_executed := instructions_executed s0 + 1\<rparr> in
              if instructions_executed s > maximum_instructions (executor_limits s) then
                Inr (quantum, BeginFailure BudgetExhausted (ascii ''instruction_budget'') 0 s)
              else
                (case frame_block f of
                   None \<Rightarrow>
                     Inr (quantum + 1, BeginFailure ContractFailed (ascii ''missing_block'') 0 s)
                 | Some b \<Rightarrow>
                     (case (if instruction_index f < length (instructions b)
                            then ExecuteInstruction env (instructions b ! instruction_index f) s
                            else ExecuteTerminator (terminator b) s) of
                        (r, s') \<Rightarrow>
                          if host_request r \<noteq> None \<or> terminal r \<noteq> None \<or> emitted r \<noteq> None then Inl (r, s')
                          else Inr (quantum + 1, s')))))"

text \<open>\<open>None\<close> is the end of the fuel.\<close>

fun pump_loop :: "nat \<Rightarrow> 'f executor_env \<Rightarrow> u64 \<Rightarrow> u64 \<Rightarrow> Executor \<Rightarrow> step option" where
  "pump_loop 0 env maximum quantum s = None"
| "pump_loop (Suc n) env maximum quantum s =
    (if quantum < maximum then
       (case pump_round env quantum s of
          Inl result \<Rightarrow> Some result
        | Inr (quantum', s') \<Rightarrow> pump_loop n env maximum quantum' s')
     else
       Some (if activity s = Runnable \<or> activity s = Unwinding then pump_runnable else pump_nothing, s))"

definition Pump ::
  "nat \<Rightarrow> 'f executor_env \<Rightarrow> CancellationReason \<Rightarrow> u64 \<Rightarrow> Executor \<Rightarrow> step option" where
  "Pump fuel env token maximum s =
    (if activity s = Terminal then Some (pump_nothing\<lparr>terminal := Some (program_result s)\<rparr>, s)
     else if activity s = AwaitingHost \<or> activity s = Idle then Some (pump_nothing, s)
     else if maximum = 0 then Some (pump_runnable, s)
     else
       pump_loop fuel env maximum 0
         (if cancellation_reason token s \<noteq> NoCancellation \<and> \<not> unwinding s
          then BeginFailure Cancelled (ascii ''cancelled'') 0 s else s))"

section \<open>Completions and cancellation\<close>

definition BindPendingAction :: "u64 \<Rightarrow> Executor \<Rightarrow> bool \<times> Executor" where
  "BindPendingAction i s =
    (case pending s of
       None \<Rightarrow> (False, s)
     | Some p \<Rightarrow>
         if i = 0 \<or> activity s \<noteq> AwaitingHost \<or> pending_request_id p \<noteq> None then (False, s)
         else (True, s\<lparr>pending := Some (p\<lparr>pending_request_id := Some i\<rparr>)\<rparr>))"

datatype ProgramActionResolutionStatus =
    ActionCompleted
  | ActionRejected
  | ActionCancelled
  | ActionTimedOut
  | ActionStaleEpoch
  | ActionUnsupported
  | ActionFailed
  | ActionCleanupFailed

record ProgramActionResolution =
  resolution_request :: u64
  resolution_invocation :: u64
  resolution_attempt :: u64
  resolution_operation :: ProgramHostOperation
  resolution_status :: ProgramActionResolutionStatus
  resolution_epoch :: u64
  resolution_output :: ProgramValueGraph
  resolution_receipts :: "CleanupReceipt list"
  resolution_cleanup :: ProgramCleanupStatus
  resolution_disposition :: SessionDisposition
  resolution_code :: "u8 list"

definition resolution_matches :: "ProgramActionResolution \<Rightarrow> Executor \<Rightarrow> bool" where
  "resolution_matches c s \<longleftrightarrow>
    activity s = AwaitingHost \<and>
    (case pending s of
       None \<Rightarrow> False
     | Some p \<Rightarrow>
         pending_request_id p = Some (resolution_request c) \<and>
         resolution_operation c = request_operation (pending_request p)) \<and>
    resolution_invocation c = invocation_id (invocation s) \<and>
    resolution_attempt c = attempt_id (invocation s) \<and>
    resolution_epoch c \<noteq> 0 \<and> resolution_epoch c = current_epoch s"

definition note_receipt :: "CleanupReceipt \<Rightarrow> ProgramResult \<Rightarrow> ProgramResult" where
  "note_receipt receipt r =
    (let r1 = (if receipt_status receipt > result_cleanup r
               then r\<lparr>result_cleanup := receipt_status receipt\<rparr> else r) in
     if receipt_status receipt = CleanupTainted
     then r1\<lparr>session_disposition := DispositionTainted\<rparr> else r1)"

definition note_cleanup :: "ProgramActionResolution \<Rightarrow> ProgramResult \<Rightarrow> ProgramResult" where
  "note_cleanup c r =
    (let r1 = (if resolution_cleanup c > result_cleanup r
               then r\<lparr>result_cleanup := resolution_cleanup c\<rparr> else r);
         r2 = (if resolution_disposition c > session_disposition r1
               then r1\<lparr>session_disposition := resolution_disposition c\<rparr> else r1);
         r3 = fold note_receipt (resolution_receipts c) r2 in
     r3\<lparr>cleanup_receipts := cleanup_receipts r3 @ resolution_receipts c\<rparr>)"

definition is_cleanup :: "PendingSuccess \<Rightarrow> bool" where
  "is_cleanup p \<longleftrightarrow> p = DeferredCleanup \<or> p = CloseScopeSuccess \<or> p = FinishSuccess"

definition code_or :: "string \<Rightarrow> u8 list \<Rightarrow> u8 list" where
  "code_or otherwise code = (if code = [] then ascii otherwise else code)"

text \<open>A cleanup that failed: the session is tainted and the cleanup goes on.\<close>

definition cleanup_failed :: "ProgramActionResolution \<Rightarrow> PendingSuccess \<Rightarrow> Executor \<Rightarrow> Executor" where
  "cleanup_failed c success s0 =
    (let s = Diagnostic Error (code_or ''cleanup_failed'' (resolution_code c)) 0
           (s0\<lparr>program_result := (program_result s0)\<lparr>result_cleanup := CleanupTainted,
             session_disposition := DispositionTainted\<rparr>\<rparr>) in
     if success = FinishSuccess then
       (set_infrastructure BackendFailed s)\<lparr>activity := Terminal\<rparr>
     else
       let s1 =
         (if success = CloseScopeSuccess then
            (let s2 = s\<lparr>scopes := tl (scopes s), explicit_scope_close := False\<rparr> in
             if \<not> unwinding s2 then set_infrastructure BackendFailed (s2\<lparr>unwinding := True\<rparr>) else s2)
          else s) in
       s1\<lparr>activity := Unwinding\<rparr>)"

definition failed_status :: "ProgramActionResolutionStatus \<Rightarrow> ProgramInfrastructureStatus" where
  "failed_status st =
    (if st = ActionCancelled then Cancelled
     else if st = ActionTimedOut then TimedOut
     else if st = ActionStaleEpoch then ContractFailed
     else BackendFailed)"

definition complete_pending ::
  "ProgramActionResolution \<Rightarrow> PendingHost \<Rightarrow> VerifiedActionBinding option \<Rightarrow> Executor \<Rightarrow> bool \<times> Executor" where
  "complete_pending c p action s =
    (case pending_success p of
       BindValue \<Rightarrow>
         let s1 = s\<lparr>activity := Runnable\<rparr> in
         (case (pending_result p, action) of
            (Some i, Some b) \<Rightarrow> Bind i (action_output_type b) (resolution_output c) s1
          | (Some i, None) \<Rightarrow> (False, s1)
          | _ \<Rightarrow> (True, s1))
     | PushScope \<Rightarrow>
         (True, s\<lparr>scopes := \<lparr>scope_id = request_scope (pending_request p),
             scope_parent = request_parent (pending_request p), deferred = []\<rparr> # scopes s,
           activity := Runnable\<rparr>)
     | CloseScopeSuccess \<Rightarrow>
         let s1 = s\<lparr>scopes := tl (scopes s)\<rparr> in
         (True,
          if explicit_scope_close s1 then s1\<lparr>explicit_scope_close := False, activity := Runnable\<rparr>
          else s1\<lparr>activity := Unwinding\<rparr>)
     | Promote \<Rightarrow> (True, s\<lparr>activity := Runnable\<rparr>)
     | DeferredCleanup \<Rightarrow> (True, s\<lparr>activity := Unwinding\<rparr>)
     | FinishSuccess \<Rightarrow> (True, (Trace ''invocation_terminal'' 0 [] s)\<lparr>activity := Terminal\<rparr>))"

text \<open>The check of a completed action's output against the action's contract.\<close>

definition output_status ::
  "ProgramActionResolution \<Rightarrow> PendingHost \<Rightarrow> VerifiedActionBinding option \<Rightarrow> Executor \<Rightarrow> ProgramValueArenaError" where
  "output_status c p action s =
    (if resolution_status c = ActionCompleted \<and> request_operation (pending_request p) = InvokeAction then
       (case action of
          None \<Rightarrow> SchemaMismatch
        | Some b \<Rightarrow>
            the (ValidateProgramValueGraph (resolution_output c) (action_output_type b) (known_types s)
              (remaining_limits (value_count s) (value_bytes s) s) (Some (resolution_epoch c))))
     else NoArenaError)"

definition DeliverHostCompletion :: "ProgramActionResolution \<Rightarrow> Executor \<Rightarrow> bool \<times> Executor" where
  "DeliverHostCompletion c s0 =
    (case pending s0 of
       None \<Rightarrow> (False, s0)
     | Some p \<Rightarrow>
         if \<not> resolution_matches c s0 then (False, s0)
         else
           let action = Option.bind (request_action (pending_request p)) (action_binding s0);
               status = output_status c p action s0 in
           if request_action (pending_request p) \<noteq> None \<and> action = None then (False, s0)
           else if status \<noteq> NoArenaError \<and> \<not> budget_error status then (False, s0)
           else
             let s = s0\<lparr>pending := None, program_result := note_cleanup c (program_result s0)\<rparr> in
             if status \<noteq> NoArenaError then
               (True, BeginFailure BudgetExhausted (ascii ''value_budget'') 0 (s\<lparr>activity := Runnable\<rparr>))
             else if resolution_status c \<noteq> ActionCompleted then
               (True,
                if is_cleanup (pending_success p) then cleanup_failed c (pending_success p) s
                else BeginFailure (failed_status (resolution_status c))
                  (code_or ''action_failed'' (resolution_code c)) 0 (s\<lparr>activity := Runnable\<rparr>))
             else complete_pending c p action s)"

definition RequestCancellation :: "CancellationReason \<Rightarrow> Executor \<Rightarrow> bool \<times> Executor" where
  "RequestCancellation reason s =
    (if reason = NoCancellation \<or> activity s = Idle \<or> activity s = Terminal \<or>
        explicit_cancellation s \<noteq> NoCancellation then (False, s)
     else (True, s\<lparr>explicit_cancellation := reason\<rparr>))"

record ExecutorSnapshot =
  snapshot_activity :: ProgramExecutorActivity
  snapshot_invocation :: u64
  snapshot_epoch :: u64
  snapshot_counters :: "u64 \<times> u64 \<times> u64 \<times> u64 \<times> u64"
  call_depth :: u64
  scope_depth :: u64
  pending_action :: "u64 option"

definition snapshot :: "Executor \<Rightarrow> ExecutorSnapshot" where
  "snapshot s = \<lparr>snapshot_activity = activity s, snapshot_invocation = invocation_id (invocation s),
     snapshot_epoch = current_epoch s,
     snapshot_counters = (instructions_executed s, calls_executed s, action_requests s, emissions s, artifacts s),
     call_depth = size_of (frames s), scope_depth = size_of (scopes s),
     pending_action = Option.bind (pending s) pending_request_id\<rparr>"

end
