(* ===== verification/ExecutorInvariant.thy ===== *)
theory ExecutorInvariant
  imports ExecutorSteps
begin

text \<open>
  What every state of an executor satisfies between two calls: the stack of scopes is a chain down
  to the invocation's scope, the frames hold closed graphs, the budgets are kept, and the activity
  tells what may be pending and whether the program runs, unwinds or is done.
\<close>

section \<open>The data\<close>

fun scope_chain :: "Scope list \<Rightarrow> bool" where
  "scope_chain [] \<longleftrightarrow> False"
| "scope_chain [base] \<longleftrightarrow> scope_id base = kInvocationScope \<and> scope_parent base = 0"
| "scope_chain (inner # outer # rest) \<longleftrightarrow> scope_parent inner = scope_id outer \<and> scope_chain (outer # rest)"

definition frame_ok :: "Frame \<Rightarrow> bool" where
  "frame_ok f \<longleftrightarrow> (\<forall>p \<in> set (frame_values f). graph_closed (snd p))"

definition deferred_ok :: "Executor \<Rightarrow> bool" where
  "deferred_ok s \<longleftrightarrow>
    (\<forall>scope \<in> set (scopes s). \<forall>d \<in> set (deferred scope). action_binding s (deferred_identity d) \<noteq> None)"

definition core_inv :: "Executor \<Rightarrow> bool" where
  "core_inv s \<longleftrightarrow>
    verified s \<noteq> None \<and> current_epoch s \<noteq> 0 \<and> scope_chain (scopes s) \<and> deferred_ok s \<and>
    frames s \<noteq> [] \<and> list_all frame_ok (frames s) \<and>
    (maximum_call_depth (executor_limits s) \<noteq> uint64_max \<longrightarrow>
      length (frames s) \<le> unat (maximum_call_depth (executor_limits s))) \<and>
    length (result_trace (program_result s)) \<le> unat (maximum_trace_events (executor_limits s)) \<and>
    value_count s \<le> budget_values (executor_limits s) \<and>
    value_bytes s \<le> budget_value_bytes (executor_limits s)"

section \<open>The control state\<close>

text \<open>What an outstanding request is for, and what state it was made in.\<close>

definition pending_ok :: "PendingHost \<Rightarrow> Executor \<Rightarrow> bool" where
  "pending_ok p s \<longleftrightarrow>
    (let r = pending_request p; top = hd (scopes s) in
     case pending_success p of
       BindValue \<Rightarrow>
         \<not> unwinding s \<and> \<not> explicit_scope_close s \<and> request_operation r = InvokeAction \<and>
         \<not> cleanup_only r \<and> request_scope r = scope_id top \<and>
         (\<exists>d. request_action r = Some d \<and> action_binding s d \<noteq> None)
     | PushScope \<Rightarrow>
         \<not> unwinding s \<and> \<not> explicit_scope_close s \<and> request_operation r = OpenScope \<and>
         \<not> cleanup_only r \<and> request_parent r = scope_id top \<and> request_action r = None
     | Promote \<Rightarrow>
         \<not> unwinding s \<and> \<not> explicit_scope_close s \<and>
         request_operation r = PromoteResourceOperation \<and> \<not> cleanup_only r \<and> request_action r = None
     | DeferredCleanup \<Rightarrow>
         unwinding s \<noteq> explicit_scope_close s \<and> (explicit_scope_close s \<longrightarrow> length (scopes s) > 1) \<and>
         request_operation r = InvokeAction \<and> cleanup_only r \<and> request_scope r = scope_id top \<and>
         (\<exists>d. request_action r = Some d \<and> action_binding s d \<noteq> None)
     | CloseScopeSuccess \<Rightarrow>
         unwinding s \<noteq> explicit_scope_close s \<and> length (scopes s) > 1 \<and> deferred top = [] \<and>
         request_operation r = CloseScope \<and> cleanup_only r \<and> request_scope r = scope_id top \<and>
         request_action r = None
     | FinishSuccess \<Rightarrow>
         unwinding s \<and> \<not> explicit_scope_close s \<and> length (scopes s) = 1 \<and> deferred top = [] \<and>
         request_operation r = FinishInvocation \<and> cleanup_only r \<and> request_action r = None)"

definition control_inv :: "Executor \<Rightarrow> bool" where
  "control_inv s \<longleftrightarrow>
    (case activity s of
       Idle \<Rightarrow> False
     | Runnable \<Rightarrow> pending s = None \<and> \<not> unwinding s \<and> \<not> explicit_scope_close s
     | Unwinding \<Rightarrow>
         pending s = None \<and> unwinding s \<noteq> explicit_scope_close s \<and>
         (explicit_scope_close s \<longrightarrow> length (scopes s) > 1)
     | AwaitingHost \<Rightarrow> (\<exists>p. pending s = Some p \<and> pending_ok p s)
     | Terminal \<Rightarrow>
         pending s = None \<and> unwinding s \<and> \<not> explicit_scope_close s \<and> length (scopes s) = 1 \<and>
         deferred (hd (scopes s)) = [])"

definition idle_inv :: "Executor \<Rightarrow> bool" where
  "idle_inv s \<longleftrightarrow>
    activity s = Idle \<and> pending s = None \<and> \<not> unwinding s \<and> \<not> explicit_scope_close s"

definition executor_inv :: "Executor \<Rightarrow> bool" where
  "executor_inv s \<longleftrightarrow> idle_inv s \<or> core_inv s \<and> control_inv s"

text \<open>A state in which the program runs.\<close>

definition running :: "Executor \<Rightarrow> bool" where
  "running s \<longleftrightarrow> core_inv s \<and> activity s = Runnable \<and> pending s = None \<and> \<not> unwinding s \<and>
    \<not> explicit_scope_close s"

lemma running_inv: "running s \<Longrightarrow> core_inv s \<and> control_inv s"
  by (auto simp: running_def control_inv_def)

named_theorems exec_simps \<open>fields of the executor an operation leaves alone\<close>

section \<open>Budgets of values\<close>

lemma measure_outcome:
  "\<exists>status count bytes. MeasureProgramValueGraph g l = Some (status, count, bytes) \<and>
    (status = NoArenaError \<longrightarrow> graph_closed g \<and> count \<le> maximum_values l \<and> bytes \<le> maximum_value_bytes l)"
proof (cases "graph_closed g \<and> graph_fits g (new_value_arena l)")
  case True
  then obtain i b where b: "Import g (new_value_arena l)
      = Some (\<lparr>insert_status = NoArenaError, inserted_value = i\<rparr>, b)" "arena_inv b"
    "extends (new_value_arena l) b"
    using import_outcome [OF new_value_arena_inv, of g l] by (auto simp: import_spec_def)
  have "limits b = l" using b(3) by (simp add: extends_def new_value_arena_def)
  then show ?thesis
    using b arena_invD(5,7) [OF b(2)] size_of_arena [OF b(2)] True
    by (auto simp: MeasureProgramValueGraph_def insert_ok_def word_le_nat_alt)
next
  case False
  then obtain e where "e \<noteq> NoArenaError"
    "Import g (new_value_arena l) = Some (insert_error e, new_value_arena l)"
    using import_outcome [OF new_value_arena_inv, of g l] by (auto simp: import_spec_def)
  then show ?thesis by (auto simp: MeasureProgramValueGraph_def insert_ok_def insert_error_def)
qed

lemma validation_closed:
  assumes "the (ValidateProgramValueGraph g t schemas l epoch) = NoArenaError"
  shows "graph_closed g"
proof -
  have "ValidateProgramValueGraph g t schemas l epoch \<noteq> None"
    using import_returns [OF new_value_arena_inv, of g l]
    by (auto simp: ValidateProgramValueGraph_def Let_def split: option.splits)
  with assms have "ValidateProgramValueGraph g t schemas l epoch = Some NoArenaError" by auto
  then show ?thesis by (simp only: validation_outcome)
qed

lemma within_remaining:
  fixes n c m :: u64
  assumes "n \<le> (if m \<ge> c then m - c else 0)" and "c \<le> m"
  shows "c + n \<le> m"
proof -
  have "n \<le> m - c" using assms by simp
  then show ?thesis using assms(2) by (metis add.commute le_plus word_le_minus_mono_left)
qed

section \<open>Primitive operations\<close>

lemma core_inv_cong:
  assumes "verified s' = verified s" "invocation s' = invocation s" "scopes s' = scopes s" "frames s' = frames s"
    "executor_limits s' = executor_limits s" "value_count s' = value_count s" "value_bytes s' = value_bytes s"
    "result_trace (program_result s') = result_trace (program_result s)"
  shows "core_inv s' = core_inv s"
  using assms by (simp add: core_inv_def deferred_ok_def current_epoch_def action_binding_def current_epoch_def)

lemma Trace_fields [exec_simps]:
  "verified (Trace k l as s) = verified s" "scopes (Trace k l as s) = scopes s"
  "frames (Trace k l as s) = frames s" "executor_limits (Trace k l as s) = executor_limits s"
  "value_count (Trace k l as s) = value_count s" "value_bytes (Trace k l as s) = value_bytes s"
  "activity (Trace k l as s) = activity s" "pending (Trace k l as s) = pending s"
  "unwinding (Trace k l as s) = unwinding s" "explicit_scope_close (Trace k l as s) = explicit_scope_close s"
  "invocation (Trace k l as s) = invocation s"
  by (simp_all add: Trace_def)

lemma core_inv_Trace: "core_inv s \<Longrightarrow> core_inv (Trace k l as s)"
proof -
  assume s: "core_inv s"
  have "length (result_trace (program_result (Trace k l as s))) \<le> unat (maximum_trace_events (executor_limits s))"
  proof -
    have "length (result_trace (program_result s)) \<le> unat (maximum_trace_events (executor_limits s))"
      using s by (simp add: core_inv_def)
    then have "unat (size_of (result_trace (program_result s))) = length (result_trace (program_result s))"
      using of_nat_le_word by (auto simp: size_of_def)
    with s show ?thesis
      by (auto simp: Trace_def core_inv_def word_le_nat_alt not_le)
  qed
  with s show ?thesis
    by (simp add: core_inv_def deferred_ok_def current_epoch_def action_binding_def exec_simps)
qed

lemma BeginFailure_fields [exec_simps]:
  "verified (BeginFailure st c l s) = verified s" "scopes (BeginFailure st c l s) = scopes s"
  "frames (BeginFailure st c l s) = frames s" "executor_limits (BeginFailure st c l s) = executor_limits s"
  "value_count (BeginFailure st c l s) = value_count s" "value_bytes (BeginFailure st c l s) = value_bytes s"
  "pending (BeginFailure st c l s) = pending s" "invocation (BeginFailure st c l s) = invocation s"
  "result_trace (program_result (BeginFailure st c l s)) = result_trace (program_result s)"
  by (simp_all add: BeginFailure_def start_unwinding_def Diagnostic_def set_infrastructure_def)

lemma core_inv_BeginFailure [simp]: "core_inv (BeginFailure st c l s) = core_inv s"
  by (rule core_inv_cong) (simp_all add: exec_simps)

text \<open>A failure of a running program starts the unwinding.\<close>

lemma BeginFailure_running:
  assumes "\<not> unwinding s" "activity s \<noteq> Terminal"
  shows "activity (BeginFailure st c l s) = Unwinding" "unwinding (BeginFailure st c l s)"
    "\<not> explicit_scope_close (BeginFailure st c l s)"
  using assms by (simp_all add: BeginFailure_def start_unwinding_def)

text \<open>
  What a step of a running program leaves: the program runs on, unwinds or waits, and it waits for
  exactly the request that is returned.
\<close>

definition step_ok :: "step \<Rightarrow> bool" where
  "step_ok = (\<lambda>(r, s). core_inv s \<and> control_inv s \<and> activity s \<noteq> Terminal \<and>
     host_request r = map_option pending_request (pending s) \<and> terminal r = None)"

lemma step_ok_running: "running s \<Longrightarrow> host_request r = None \<Longrightarrow> terminal r = None \<Longrightarrow> step_ok (r, s)"
  by (auto simp: step_ok_def running_def control_inv_def)

lemma step_ok_failure:
  assumes "core_inv s" "pending s = None" "\<not> unwinding s" "activity s \<noteq> Terminal"
    "host_request r = None" "terminal r = None"
  shows "step_ok (r, BeginFailure st c l s)"
  using assms BeginFailure_running [of s st c l]
  by (simp add: step_ok_def control_inv_def exec_simps)

lemma running_failure:
  "running s \<Longrightarrow> host_request r = None \<Longrightarrow> terminal r = None \<Longrightarrow> step_ok (r, BeginFailure st c l s)"
  by (rule step_ok_failure) (simp_all add: running_def)

lemma running_Trace: "running s \<Longrightarrow> running (Trace k l as s)"
  by (simp add: running_def core_inv_Trace exec_simps)

lemma pump_results [simp]:
  "host_request pump_nothing = None" "host_request pump_runnable = None" "terminal pump_nothing = None"
  "terminal pump_runnable = None" "emitted pump_nothing = None" "emitted pump_runnable = None"
  by (simp_all add: pump_nothing_def pump_runnable_def)

lemma instruction_failed_ok: "running s \<Longrightarrow> step_ok (instruction_failed i s)"
  by (simp add: instruction_failed_def running_failure)

text \<open>A program that has begun to fail, or still runs: a second failure changes nothing.\<close>

lemma instruction_failed_again:
  assumes "core_inv s" "control_inv s" "pending s = None" "activity s = Runnable \<or> activity s = Unwinding \<and> unwinding s"
  shows "step_ok (instruction_failed i s)"
proof (cases "activity s = Runnable")
  case True
  with assms have "running s" by (simp add: running_def control_inv_def)
  then show ?thesis by (rule instruction_failed_ok)
next
  case False
  with assms show ?thesis by (simp add: instruction_failed_def BeginFailure_def step_ok_def)
qed

section \<open>Frames\<close>

lemma update_frame_fields [exec_simps]:
  "verified (update_frame u s) = verified s" "scopes (update_frame u s) = scopes s"
  "executor_limits (update_frame u s) = executor_limits s" "value_count (update_frame u s) = value_count s"
  "value_bytes (update_frame u s) = value_bytes s" "program_result (update_frame u s) = program_result s"
  "activity (update_frame u s) = activity s" "pending (update_frame u s) = pending s"
  "unwinding (update_frame u s) = unwinding s" "explicit_scope_close (update_frame u s) = explicit_scope_close s"
  "invocation (update_frame u s) = invocation s"
  by (simp_all add: update_frame_def)

lemma core_inv_update_frame:
  assumes "core_inv s" and "\<And>f. frame_ok f \<Longrightarrow> frame_ok (u f)"
  shows "core_inv (update_frame u s)"
  using assms
  by (auto simp: core_inv_def deferred_ok_def current_epoch_def action_binding_def update_frame_def split: list.splits)

lemma running_update_frame:
  "running s \<Longrightarrow> (\<And>f. frame_ok f \<Longrightarrow> frame_ok (u f)) \<Longrightarrow> running (update_frame u s)"
  by (simp add: running_def core_inv_update_frame exec_simps)

lemma running_advance: "running s \<Longrightarrow> running (advance s)"
  unfolding advance_def by (erule running_update_frame) (simp add: frame_ok_def)

lemma store_find_in: "store_find m k = Some v \<Longrightarrow> (k, v) \<in> set m"
  by (simp add: store_find_def map_of_SomeD)

lemma set_insert_or_assign: "p \<in> set (insert_or_assign k v m) \<Longrightarrow> p \<in> set m \<or> snd p = v"
  by (auto simp: insert_or_assign_def store_modify_def split: if_splits)

lemma frame_value_closed:
  assumes "core_inv s" and "frames s = f # fs" and "store_find (frame_values f) i = Some g"
  shows "graph_closed g"
  using assms store_find_in [OF assms(3)] by (fastforce simp: core_inv_def frame_ok_def)

lemma Value_closed:
  assumes "core_inv s" and "Value s i = Some g"
  shows "graph_closed g"
  using assms by (auto simp: Value_def frame_value_closed split: list.splits option.splits if_splits)

section \<open>Binding\<close>

lemma retained_bounds:
  assumes "core_inv s" and "retained i s = Some (count, bytes)"
  shows "count \<le> budget_values (executor_limits s) \<and> bytes \<le> budget_value_bytes (executor_limits s)"
proof -
  have max: "value_count s \<le> budget_values (executor_limits s)"
    "value_bytes s \<le> budget_value_bytes (executor_limits s)" using assms(1) by (simp_all add: core_inv_def)
  have "a - b \<le> m" if "b \<le> a" "a \<le> m" for a b m :: u64
    using that by (metis word_sub_le order_trans)
  with assms(2) max show ?thesis
    by (auto simp: retained_def split: option.splits prod.splits if_splits list.splits)
qed

lemma Bind_running:
  assumes s: "running s" and b: "Bind i t g s = (bound, s')"
  shows "core_inv s' \<and> control_inv s' \<and> pending s' = None \<and>
    (activity s' = Runnable \<or> activity s' = Unwinding \<and> unwinding s') \<and> (bound \<longrightarrow> running s') \<and>
    scopes s' = scopes s \<and> invocation s' = invocation s \<and> verified s' = verified s"
proof -
  have ok: "core_inv s" "pending s = None" "\<not> unwinding s" "activity s = Runnable" "\<not> explicit_scope_close s"
    using s by (simp_all add: running_def)
  have fails: "core_inv (BeginFailure st c l s) \<and> control_inv (BeginFailure st c l s) \<and>
      pending (BeginFailure st c l s) = None \<and> activity (BeginFailure st c l s) = Unwinding \<and>
      unwinding (BeginFailure st c l s)" for st c l
    using ok BeginFailure_running [of s st c l] by (simp add: control_inv_def exec_simps)
  show ?thesis
  proof (cases "retained i s")
    case None
    with b s running_inv [OF s] ok show ?thesis by (auto simp: Bind_def split: if_splits)
  next
    case (Some r)
    then obtain count bytes where r: "retained i s = Some (count, bytes)" by (cases r) auto
    let ?l = "remaining_limits count bytes s"
    obtain st n m where m: "MeasureProgramValueGraph g ?l = Some (st, n, m)"
      and le: "st = NoArenaError \<longrightarrow> graph_closed g \<and> n \<le> maximum_values ?l \<and> m \<le> maximum_value_bytes ?l"
      using measure_outcome by blast
    let ?s = "(update_frame (\<lambda>f. f\<lparr>frame_values := insert_or_assign i g (frame_values f)\<rparr>) s)
      \<lparr>value_count := count + n, value_bytes := bytes + m\<rparr>"
    have "running ?s" if "st = NoArenaError"
    proof -
      note bounds = retained_bounds [OF ok(1) r]
      have "count + n \<le> budget_values (executor_limits s)" "bytes + m \<le> budget_value_bytes (executor_limits s)"
        using le that bounds by (auto simp: remaining_limits_def intro: within_remaining)
      moreover have "running (update_frame (\<lambda>f. f\<lparr>frame_values := insert_or_assign i g (frame_values f)\<rparr>) s)"
        by (rule running_update_frame [OF s])
          (use le that in \<open>auto simp: frame_ok_def dest!: set_insert_or_assign\<close>)
      ultimately show ?thesis
        by (simp add: running_def core_inv_def deferred_ok_def current_epoch_def action_binding_def exec_simps)
    qed
    then show ?thesis
      using b s ok fails running_inv [OF s] r m
      by (auto simp: Bind_def Let_def exec_simps running_def control_inv_def split: if_splits)
  qed
qed

lemma bind_result_ok:
  assumes "running s"
  shows "step_ok (bind_result i g s)"
proof (cases "instruction_result i")
  case None
  with assms show ?thesis by (simp add: bind_result_def instruction_failed_ok)
next
  case (Some d)
  obtain bound s' where b: "Bind (definition_id d) (definition_type d) g s = (bound, s')" by fastforce
  note ok = Bind_running [OF assms b]
  show ?thesis
  proof (cases bound)
    case True
    with ok have "running (advance s')" by (blast intro: running_advance)
    with True Some b show ?thesis by (simp add: bind_result_def step_ok_running)
  next
    case False
    with Some b ok show ?thesis by (simp add: bind_result_def instruction_failed_again)
  qed
qed

section \<open>Calls and blocks\<close>

lemma those_all: "those (map h xs) = Some ys \<Longrightarrow> y \<in> set ys \<Longrightarrow> \<exists>x \<in> set xs. h x = Some y"
  by (induction xs arbitrary: ys) (auto split: option.splits)

lemma fold_stores_closed:
  assumes "\<And>k v m p. p \<in> set (put k v m) \<Longrightarrow> p \<in> set m \<or> snd p = v"
  shows "\<forall>g \<in> set gs. graph_closed g \<Longrightarrow> \<forall>p \<in> set m. graph_closed (snd p) \<Longrightarrow>
    \<forall>p \<in> set (fold (\<lambda>(d, g) m. put (definition_id d) g m) (zip ds gs) m). graph_closed (snd p)"
proof (induction ds arbitrary: gs m)
  case (Cons d ds)
  show ?case
  proof (cases gs)
    case (Cons g gs')
    have "\<forall>p \<in> set (put (definition_id d) g m). graph_closed (snd p)"
      using assms [of _ "definition_id d" g m] Cons.prems Cons by fastforce
    with Cons.IH [of gs' "put (definition_id d) g m"] Cons.prems Cons show ?thesis by simp
  qed (use Cons.prems in simp)
qed simp

lemma set_store_emplace: "p \<in> set (store_emplace k v m) \<Longrightarrow> p \<in> set m \<or> snd p = v"
  by (auto simp: store_emplace_def split: if_splits)

lemma EnterBlock_ok:
  assumes "running s" and "EnterBlock e s = (ok, s')"
  shows "running s' \<and> scopes s' = scopes s"
proof (cases ok)
  case True
  with assms(2) obtain f fs b gs where f: "frames s = f # fs"
    and gs: "those (map (store_find (frame_values f)) (edge_arguments e)) = Some gs"
    and s': "s' = Trace ''branch'' (terminator_source (terminator b)) [TracedBlock (block_id b)]
      (s\<lparr>frames := f\<lparr>frame_block := Some b, instruction_index := 0,
        frame_values := fold (\<lambda>(d, g) m. insert_or_assign (definition_id d) g m)
           (zip (block_arguments b) gs) (frame_values f)\<rparr> # fs\<rparr>)"
    by (auto simp: EnterBlock_def Let_def split: list.splits option.splits if_splits)
  have core: "core_inv s" using assms(1) by (simp add: running_def)
  have "graph_closed g" if "g \<in> set gs" for g
    using those_all [OF gs that] frame_value_closed [OF core f] by blast
  moreover have "\<forall>p \<in> set (frame_values f). graph_closed (snd p)"
    using core f by (simp add: core_inv_def frame_ok_def)
  ultimately have "\<forall>p \<in> set (fold (\<lambda>(d, g) m. insert_or_assign (definition_id d) g m)
      (zip (block_arguments b) gs) (frame_values f)). graph_closed (snd p)"
    by (intro fold_stores_closed set_insert_or_assign) auto
  with assms(1) f have "running (s\<lparr>frames := f\<lparr>frame_block := Some b, instruction_index := 0,
        frame_values := fold (\<lambda>(d, g) m. insert_or_assign (definition_id d) g m)
           (zip (block_arguments b) gs) (frame_values f)\<rparr> # fs\<rparr>)"
    by (simp add: running_def core_inv_def deferred_ok_def current_epoch_def action_binding_def frame_ok_def)
  then show ?thesis unfolding s' by (simp add: running_Trace exec_simps)
next
  case False
  then have "s' = s"
    using assms(2) by (auto simp: EnterBlock_def Let_def split: list.splits option.splits if_splits)
  with assms(1) show ?thesis by simp
qed

lemma running_cong:
  assumes "running s" "activity s' = activity s" "pending s' = pending s" "unwinding s' = unwinding s"
    "explicit_scope_close s' = explicit_scope_close s" "verified s' = verified s"
    "invocation s' = invocation s" "scopes s' = scopes s"
    "frames s' = frames s" "executor_limits s' = executor_limits s" "value_count s' = value_count s"
    "value_bytes s' = value_bytes s"
    "result_trace (program_result s') = result_trace (program_result s)"
  shows "running s'"
  using assms core_inv_cong [of s' s] by (simp add: running_def)

lemma called_ok:
  assumes "running s"
  shows "step_ok (called i (PushCall m fn i s))"
proof -
  let ?s = "s\<lparr>calls_executed := calls_executed s + 1\<rparr>"
  have r: "running ?s" by (rule running_cong [OF assms]) simp_all
  then have core: "core_inv ?s" by (simp add: running_def)
  have fails: "step_ok (instruction_failed i (BeginFailure st c l ?s))" for st c l
  proof -
    have "activity (BeginFailure st c l ?s) = Unwinding" "unwinding (BeginFailure st c l ?s)"
      "\<not> explicit_scope_close (BeginFailure st c l ?s)"
      using r by (intro BeginFailure_running; simp add: running_def)+
    with r show ?thesis
      by (intro instruction_failed_again) (simp_all add: exec_simps control_inv_def running_def)
  qed
  show ?thesis
  proof (cases "calls_executed ?s > maximum_calls (executor_limits ?s) \<or>
      size_of (frames ?s) + 1 > maximum_call_depth (executor_limits ?s)")
    case True
    with fails show ?thesis by (simp add: called_def PushCall_def Let_def)
  next
    case depth: False
    show ?thesis
    proof (cases "length (function_arguments fn) = length (operands i)")
      case False
      with fails depth show ?thesis by (simp add: called_def PushCall_def Let_def)
    next
      case args: True
      show ?thesis
      proof (cases "Block fn (entry_block fn) = None \<or> all_operands i ?s = None")
        case True
        then have "PushCall m fn i s = (False, ?s)"
          using depth args by (auto simp: PushCall_def Let_def split: option.splits)
        with r show ?thesis by (simp add: called_def instruction_failed_ok)
      next
        case False
        then obtain b gs where bg: "Block fn (entry_block fn) = Some b" "all_operands i ?s = Some gs" by auto
        define child where "child = \<lparr>frame_module = m, frame_function = fn, frame_block = Some b,
          instruction_index = 0,
          frame_values = fold (\<lambda>(d, g) m. store_emplace (definition_id d) g m) (zip (function_arguments fn) gs) [],
          return_destination = map_option definition_id (instruction_result i)\<rparr>"
        have "graph_closed g" if "g \<in> set gs" for g
          using those_all [of "Value ?s" "operands i" gs g] bg(2) that Value_closed [OF core]
          by (auto simp: all_operands_def)
        then have "\<forall>p \<in> set (frame_values child). graph_closed (snd p)"
          unfolding child_def Frame.simps by (intro fold_stores_closed set_store_emplace) auto
        then have ok: "frame_ok child" by (simp add: frame_ok_def)
        have a: "running (advance ?s)" using r by (rule running_advance)
        have len: "length (frames (advance ?s)) = length (frames s)"
          by (simp add: advance_def update_frame_def split: list.splits)
        have "length (child # frames (advance ?s)) \<le> unat (maximum_call_depth (executor_limits s))"
          if "maximum_call_depth (executor_limits s) \<noteq> uint64_max"
        proof -
          have "length (frames s) \<le> unat (maximum_call_depth (executor_limits s))"
            using r that by (simp add: running_def core_inv_def)
          from of_nat_le_word [OF this] have size: "unat (size_of (frames s)) = length (frames s)"
            "size_of (frames s) \<le> maximum_call_depth (executor_limits s)"
            by (simp_all add: size_of_def)
          then have "size_of (frames s) \<noteq> uint64_max" using that by (metis word_order.extremum_unique)
          then have "unat (size_of (frames s) + 1) = Suc (length (frames s))"
            using size by (metis Suc_eq_plus1 add.commute unatSuc add_eq_0_iff)
          with depth len show ?thesis by (simp add: word_le_nat_alt not_less)
        qed
        then have "running ((advance ?s)\<lparr>frames := child # frames (advance ?s)\<rparr>)"
          using a ok len by (simp add: running_def core_inv_def deferred_ok_def current_epoch_def action_binding_def)
            (simp add: advance_def exec_simps)
        then have "running (Trace ''call'' (instruction_source i) [TracedFunction (function_name fn)]
            ((advance ?s)\<lparr>frames := child # frames (advance ?s)\<rparr>))" by (rule running_Trace)
        then show ?thesis
          using depth args bg by (simp add: called_def PushCall_def Let_def child_def step_ok_running)
      qed
    qed
  qed
qed

lemma execute_calls_ok:
  assumes "running s"
  shows "step_ok (execute_call_local i s)" "step_ok (execute_call_imported i s)"
  using assms
  by (auto simp: execute_call_local_def execute_call_imported_def instruction_failed_ok called_ok
      split: list.splits option.splits)

section \<open>Instructions\<close>

lemma pending_ok_cong:
  assumes "verified s' = verified s" "scopes s' = scopes s" "unwinding s' = unwinding s"
    "explicit_scope_close s' = explicit_scope_close s"
  shows "pending_ok p s' = pending_ok p s"
  unfolding pending_ok_def action_binding_def assms by (rule refl)

lemma Suspend_ok:
  assumes "core_inv s" and "pending_ok \<lparr>pending_request = q, pending_success = p, pending_result = v,
      pending_request_id = None\<rparr> s"
  shows "step_ok (Suspend q p v s)"
proof -
  let ?s = "s\<lparr>pending := Some \<lparr>pending_request = q, pending_success = p, pending_result = v,
    pending_request_id = None\<rparr>, activity := AwaitingHost\<rparr>"
  have "core_inv ?s = core_inv s" by (rule core_inv_cong) simp_all
  moreover have "pending_ok h ?s = pending_ok h s" for h
    by (rule pending_ok_cong) simp_all
  ultimately show ?thesis
    using assms by (simp add: Suspend_def step_ok_def control_inv_def pump_nothing_def)
qed

lemma action_input_bound: "action_input i s = Some (d, g) \<Longrightarrow> action_binding s d \<noteq> None"
  by (auto simp: action_input_def split: option.splits)

lemma chain_nonempty: "core_inv s \<Longrightarrow> scopes s \<noteq> []"
  by (cases "scopes s") (simp_all add: core_inv_def)

lemma advance_fields [exec_simps]:
  "verified (advance s) = verified s" "scopes (advance s) = scopes s" "activity (advance s) = activity s"
  "pending (advance s) = pending s" "unwinding (advance s) = unwinding s"
  "explicit_scope_close (advance s) = explicit_scope_close s" "invocation (advance s) = invocation s"
  by (simp_all add: advance_def exec_simps)

lemma running_count_action: "running s \<Longrightarrow> running (count_action s)"
  unfolding count_action_def by (erule running_cong) simp_all

lemma execute_await_ok:
  assumes "running s"
  shows "step_ok (execute_await i s)"
proof (cases "action_input i s")
  case None
  with assms show ?thesis by (simp add: execute_await_def instruction_failed_ok)
next
  case (Some a)
  then obtain d g where a: "action_input i s = Some (d, g)" by (cases a) auto
  let ?s = "count_action s"
  have r: "running ?s" using assms by (rule running_count_action)
  show ?thesis
  proof (cases "actions_exhausted ?s")
    case True
    with a r show ?thesis by (simp add: execute_await_def running_failure)
  next
    case False
    have adv: "running (advance ?s)" using r by (rule running_advance)
    then obtain scope outer where scope: "scopes ?s = scope # outer"
      using chain_nonempty [of "advance ?s"] by (cases "scopes ?s") (auto simp: running_def exec_simps)
    have "verified ?s = verified s" by (simp add: count_action_def)
    with a action_input_bound [OF a] False scope adv show ?thesis
      by (auto simp: execute_await_def Let_def pending_ok_def running_def exec_simps action_binding_def
          intro!: Suspend_ok)
  qed
qed

lemma running_result:
  assumes "running s" and "result_trace r = result_trace (program_result s)"
  shows "running (s\<lparr>program_result := r\<rparr>)"
  by (rule running_cong [OF assms(1)]) (simp_all add: assms(2))

lemma execute_emit_ok:
  assumes "running s"
  shows "step_ok (execute_emit i s)"
proof -
  let ?s = "s\<lparr>emissions := emissions s + 1\<rparr>"
  have r: "running ?s" by (rule running_cong [OF assms]) simp_all
  have "running (?s\<lparr>next_emission := k, program_result := (program_result ?s)\<lparr>result_emissions := e\<rparr>\<rparr>)" for k e
    by (rule running_cong [OF r]) simp_all
  then have "running (advance (?s\<lparr>next_emission := k, program_result := (program_result ?s)\<lparr>result_emissions := e\<rparr>\<rparr>))"
    for k e by (rule running_advance)
  then show ?thesis
    using assms r
    by (auto simp: execute_emit_def Let_def instruction_failed_ok pump_runnable_def pump_nothing_def
        intro!: step_ok_running split: option.splits)
qed

lemma execute_publish_ok:
  assumes "running s"
  shows "step_ok (execute_publish i s)"
proof -
  let ?s = "s\<lparr>artifacts := artifacts s + 1\<rparr>"
  have r: "running ?s" by (rule running_cong [OF assms]) simp_all
  have "running (?s\<lparr>next_artifact := k, program_result := (program_result ?s)\<lparr>result_artifacts := e\<rparr>\<rparr>)" for k e
    by (rule running_cong [OF r]) simp_all
  then have "running (advance (?s\<lparr>next_artifact := k, program_result := (program_result ?s)\<lparr>result_artifacts := e\<rparr>\<rparr>))"
    for k e by (rule running_advance)
  then show ?thesis
    using assms r
    by (auto simp: execute_publish_def Let_def instruction_failed_ok
        intro!: step_ok_running split: option.splits ProgramValuePayload.splits)
qed

lemma execute_enter_scope_ok:
  assumes "running s"
  shows "step_ok (execute_enter_scope i s)"
  using assms running_advance [OF assms]
  by (auto simp: execute_enter_scope_def instruction_failed_ok pending_ok_def plain_request_def exec_simps
      running_def intro!: Suspend_ok split: list.splits)

lemma execute_promote_ok:
  assumes "running s"
  shows "step_ok (execute_promote i s)"
  using assms running_advance [OF assms]
  by (auto simp: execute_promote_def instruction_failed_ok pending_ok_def plain_request_def exec_simps
      running_def intro!: Suspend_ok split: list.splits option.splits ProgramValuePayload.splits)

lemma execute_exit_scope_ok:
  assumes "running s"
  shows "step_ok (execute_exit_scope i s)"
proof -
  let ?s = "(advance s)\<lparr>explicit_scope_close := True, activity := Unwinding\<rparr>"
  have "core_inv ?s = core_inv (advance s)" by (rule core_inv_cong) simp_all
  moreover have "running (advance s)" using assms by (rule running_advance)
  ultimately have "core_inv ?s" by (simp add: running_def)
  with assms have "step_ok (pump_runnable, ?s)" if "length (scopes s) > 1"
    using that by (simp add: step_ok_def control_inv_def running_def exec_simps)
  with instruction_failed_ok [OF assms] show ?thesis
    unfolding execute_exit_scope_def by (simp split: list.split)
qed

lemma execute_defer_ok:
  assumes "running s"
  shows "step_ok (execute_defer i s)"
proof (cases "action_input i s = None \<or> scopes s = []")
  case True
  with assms show ?thesis by (auto simp: execute_defer_def instruction_failed_ok split: option.splits)
next
  case False
  then obtain d g scope outer where a: "action_input i s = Some (d, g)" and scope: "scopes s = scope # outer"
    by (cases "scopes s") auto
  let ?s = "count_action s"
  have r: "running ?s" using assms by (rule running_count_action)
  show ?thesis
  proof (cases "actions_exhausted ?s")
    case True
    with a scope r show ?thesis by (simp add: execute_defer_def running_failure)
  next
    case False
    have scopes: "scopes ?s = scope # outer" "verified ?s = verified s"
      using scope by (simp_all add: count_action_def)
    let ?s' = "?s\<lparr>scopes := scope\<lparr>deferred := deferred scope @
      [\<lparr>deferred_identity = d, deferred_input = g\<rparr>]\<rparr> # outer\<rparr>"
    have "scope_chain (scopes ?s')"
      using r scopes by (cases outer) (auto simp: running_def core_inv_def)
    moreover have "deferred_ok ?s'"
      using r scopes action_input_bound [OF a]
      by (auto simp: running_def core_inv_def deferred_ok_def current_epoch_def action_binding_def)
    ultimately have "running ?s'" using r by (simp add: running_def core_inv_def current_epoch_def)
    then have "running (advance ?s')" by (rule running_advance)
    then have "step_ok (pump_runnable, advance ?s')" by (rule step_ok_running) simp_all
    then show ?thesis using a scope False by (simp add: execute_defer_def Let_def)
  qed
qed

lemma ExecuteInstruction_ok:
  assumes "running s"
  shows "step_ok (ExecuteInstruction env i s)"
proof -
  let ?s = "Trace ''instruction'' (instruction_source i) [TracedOpcode (opcode i)] s"
  have r: "running ?s" using assms by (rule running_Trace)
  have default: "step_ok (case evaluate env i ?s of None \<Rightarrow> instruction_failed i ?s | Some g \<Rightarrow> bind_result i g ?s)"
    using instruction_failed_ok [OF r] bind_result_ok [OF r] by (simp split: option.split)
  show ?thesis
    using execute_calls_ok [OF r] execute_await_ok [OF r] execute_emit_ok [OF r] execute_publish_ok [OF r]
      execute_enter_scope_ok [OF r] execute_exit_scope_ok [OF r] execute_defer_ok [OF r] execute_promote_ok [OF r]
      default
    unfolding ExecuteInstruction_def Let_def by (cases "opcode i") simp_all
qed

end
