(* ===== verification/ExecutorMachine.thy ===== *)
theory ExecutorMachine
  imports ExecutorInvariant
begin

text \<open>
  The operations of the executor keep its invariant: terminators, starting, the loop of \<open>Pump\<close>,
  which returns within its quantum, the completions of the host, and cancellation.
\<close>

section \<open>Terminators\<close>

lemma entered_ok:
  assumes "running s'"
  shows "step_ok (entered code t (ok, s'))"
  using assms by (simp add: entered_def invalid_edge_def step_ok_running running_failure)

lemma entered_EnterBlock: "running s \<Longrightarrow> step_ok (entered code t (EnterBlock e s))"
  using EnterBlock_ok [of s e] entered_ok by (metis surj_pair)

lemma invalid_edge_ok:
  "running s \<Longrightarrow> step_ok (pump_nothing, invalid_edge code t s)"
  "running s \<Longrightarrow> step_ok (pump_runnable, invalid_edge code t s)"
  by (simp_all add: invalid_edge_def running_failure)

lemma start_unwinding_ok:
  assumes "running s" and "result_trace (program_result s') = result_trace (program_result s)"
    and "s' = s\<lparr>program_result := program_result s'\<rparr>"
  shows "step_ok (pump_runnable, start_unwinding s')"
proof -
  have "core_inv (start_unwinding s') = core_inv s"
    unfolding start_unwinding_def by (rule core_inv_cong) (subst assms(3), simp add: assms(2))+
  moreover have "pending s' = pending s" by (subst assms(3)) simp
  ultimately show ?thesis
    using assms(1) by (simp add: step_ok_def running_def control_inv_def start_unwinding_def)
qed

lemma BeginReturn_ok: "running s \<Longrightarrow> step_ok (pump_runnable, BeginReturn t s)"
  unfolding BeginReturn_def Let_def set_infrastructure_def
  by (erule start_unwinding_ok) (auto split: option.splits)

lemma execute_return_ok:
  assumes "running s"
  shows "step_ok (execute_return t s)"
proof (cases "case return_value t of None \<Rightarrow> Some no_graph | Some i \<Rightarrow> Value s i")
  case None
  with assms show ?thesis by (simp add: execute_return_def running_failure)
next
  case (Some g)
  show ?thesis
  proof (cases "\<exists>f caller outer. frames s = f # caller # outer")
    case True
    then obtain f caller outer where f: "frames s = f # caller # outer" by blast
    let ?s = "s\<lparr>frames := caller # outer\<rparr>"
    have r: "running ?s"
      using assms f by (auto simp: running_def core_inv_def deferred_ok_def current_epoch_def action_binding_def)
    have "step_ok (if bound then pump_runnable else pump_nothing, s')" if "Bind i ty g ?s = (bound, s')" for i ty bound s'
      using Bind_running [OF r that] by (auto simp: step_ok_def)
    then show ?thesis
      using r Some f
      by (auto simp: execute_return_def Let_def step_ok_running split: option.split prod.split)
  next
    case False
    with Some BeginReturn_ok [OF assms] show ?thesis
      by (auto simp: execute_return_def split: list.split)
  qed
qed

lemma ExecuteTerminator_ok:
  assumes "running s"
  shows "step_ok (ExecuteTerminator t s)"
proof -
  have switch: "step_ok (execute_switch t s)"
    unfolding execute_switch_def Let_def
    using entered_EnterBlock [OF assms] entered_ok [OF assms] invalid_edge_ok [OF assms]
    by (auto split: option.split)
  have branch: "step_ok (case edges t of [e] \<Rightarrow> entered ''invalid_branch'' t (EnterBlock e s)
      | _ \<Rightarrow> (pump_runnable, invalid_edge ''invalid_branch'' t s))"
    using entered_EnterBlock [OF assms] invalid_edge_ok [OF assms] by (simp split: list.split)
  have conditional: "step_ok (case (condition_or_selector t, edges t) of
      (Some c, [e, e']) \<Rightarrow> entered ''invalid_branch'' t
        (case Option.bind (Value s c) Boolean of None \<Rightarrow> (False, s)
         | Some b \<Rightarrow> EnterBlock (if b then e else e') s)
    | _ \<Rightarrow> (pump_nothing, invalid_edge ''invalid_branch'' t s))"
    using entered_EnterBlock [OF assms] entered_ok [OF assms] invalid_edge_ok [OF assms]
    by (simp split: list.split option.split)
  show ?thesis
    unfolding ExecuteTerminator_def
    using switch branch conditional execute_return_ok [OF assms] running_failure [OF assms]
    by (cases "terminator_kind t") (simp_all only: TerminatorKind.case pump_results)
qed

section \<open>Cleanup\<close>

lemma scope_chain_deferred [simp]:
  "scope_chain (scope\<lparr>deferred := ds\<rparr> # outer) = scope_chain (scope # outer)"
  by (cases outer) simp_all

lemma PumpCleanup_ok:
  assumes "core_inv s" "control_inv s" "activity s = Unwinding"
  shows "step_ok (PumpCleanup s)"
proof -
  obtain scope outer where scope: "scopes s = scope # outer"
    using chain_nonempty [OF assms(1)] by (cases "scopes s") auto
  have ctl: "unwinding s \<noteq> explicit_scope_close s" "explicit_scope_close s \<longrightarrow> outer \<noteq> []"
    using assms(2,3) scope by (auto simp: control_inv_def)
  show ?thesis
  proof (cases "deferred scope = []")
    case True
    then show ?thesis
      using assms(1) ctl scope
      by (auto simp: PumpCleanup_def pending_ok_def scope_request_def intro!: Suspend_ok)
  next
    case False
    let ?d = "last (deferred scope)" and ?scopes = "scope\<lparr>deferred := butlast (deferred scope)\<rparr> # outer"
    let ?s = "s\<lparr>scopes := ?scopes\<rparr>"
    have "action_binding s (deferred_identity ?d) \<noteq> None"
      using assms(1) scope False by (simp add: core_inv_def deferred_ok_def)
    then have bound: "action_binding ?s (deferred_identity ?d) \<noteq> None" by (simp add: action_binding_def)
    have "deferred_ok ?s"
      using assms(1) scope by (auto simp: core_inv_def deferred_ok_def current_epoch_def action_binding_def dest: in_set_butlastD)
    then have "core_inv ?s"
      using assms(1) scope by (simp add: core_inv_def current_epoch_def)
    then have "step_ok (Suspend (deferred_request ?d scope) DeferredCleanup None ?s)"
      by (rule Suspend_ok)
        (use ctl bound in \<open>auto simp: pending_ok_def deferred_request_def Let_def length_greater_0_conv\<close>)
    then show ?thesis using False scope by (simp add: PumpCleanup_def)
  qed
qed

section \<open>The loop\<close>

text \<open>
  A round either returns, or goes on in a state that is running or unwinding; it uses up a part of
  the quantum unless the program unwinds.
\<close>

lemma pump_round_ok:
  assumes "core_inv s" "control_inv s" "activity s = Runnable \<or> activity s = Unwinding"
  shows "case pump_round env quantum s of
      Inl result \<Rightarrow> step_ok result
    | Inr (quantum', s') \<Rightarrow> core_inv s' \<and> control_inv s' \<and> activity s = Runnable \<and>
        (activity s' = Runnable \<or> activity s' = Unwinding) \<and>
        (quantum' = quantum + 1 \<or> quantum' = quantum \<and> activity s' = Unwinding)"
proof (cases "activity s = Unwinding")
  case True
  with PumpCleanup_ok [OF assms(1,2)] show ?thesis by (simp add: pump_round_def)
next
  case False
  with assms have run: "running s" by (auto simp: running_def control_inv_def)
  obtain f fs where f: "frames s = f # fs"
    using assms(1) by (cases "frames s") (auto simp: core_inv_def)
  let ?s = "s\<lparr>instructions_executed := instructions_executed s + 1\<rparr>"
  have r: "running ?s" by (rule running_cong [OF run]) simp_all
  have fails: "core_inv (BeginFailure st c l ?s) \<and> control_inv (BeginFailure st c l ?s) \<and>
      activity (BeginFailure st c l ?s) = Unwinding" for st c l
    using running_failure [OF r, of pump_nothing st c l] BeginFailure_running [of ?s st c l] r
    by (simp add: step_ok_def running_def)
  have goes_on: "core_inv s' \<and> control_inv s' \<and> (activity s' = Runnable \<or> activity s' = Unwinding)"
    if "step_ok (r, s')" and "host_request r = None" for r s'
    using that by (cases "activity s'") (auto simp: step_ok_def control_inv_def)
  show ?thesis
  proof (cases "instructions_executed ?s > maximum_instructions (executor_limits ?s)")
    case True
    with f False fails assms(3) show ?thesis by (simp add: pump_round_def Let_def)
  next
    case budget: False
    show ?thesis
    proof (cases "frame_block f")
      case None
      with f False fails assms(3) budget show ?thesis by (simp add: pump_round_def Let_def)
    next
      case (Some b)
      let ?x = "if instruction_index f < length (instructions b)
        then ExecuteInstruction env (instructions b ! instruction_index f) ?s
        else ExecuteTerminator (terminator b) ?s"
      obtain res s' where x: "?x = (res, s')" by fastforce
      have "step_ok (res, s')" unfolding x [symmetric]
        using ExecuteInstruction_ok [OF r, of env] ExecuteTerminator_ok [OF r] by simp
      with goes_on [OF this] f False assms(3) budget Some x show ?thesis
        by (simp add: pump_round_def Let_def)
    qed
  qed
qed

lemma pump_loop_ok:
  assumes "core_inv s" "control_inv s" "activity s = Runnable \<or> activity s = Unwinding"
    and "pump_loop n env maximum quantum s = Some (r, s')"
  shows "step_ok (r, s')"
  using assms
proof (induction n arbitrary: quantum s)
  case (Suc n)
  show ?case
  proof (cases "quantum < maximum")
    case True
    note round = pump_round_ok [OF Suc.prems(1-3), where env = env and quantum = quantum]
    show ?thesis
    proof (cases "pump_round env quantum s")
      case (Inl x)
      with round Suc.prems(4) True show ?thesis by simp
    next
      case (Inr x)
      then obtain q s'' where x: "pump_round env quantum s = Inr (q, s'')" by (cases x) auto
      with round have "core_inv s''" "control_inv s''" "activity s'' = Runnable \<or> activity s'' = Unwinding"
        by auto
      moreover have "pump_loop n env maximum q s'' = Some (r, s')" using Suc.prems(4) True x by simp
      ultimately show ?thesis by (rule Suc.IH)
    qed
  next
    case False
    with Suc.prems have "s' = s" "r = pump_runnable" by (auto split: if_splits)
    with Suc.prems show ?thesis by (auto simp: step_ok_def control_inv_def)
  qed
qed simp

text \<open>The loop returns: every round but one uses up the quantum, and the one is followed by cleanup.\<close>

lemma pump_loop_returns:
  assumes "core_inv s" "control_inv s" "activity s = Runnable \<or> activity s = Unwinding"
    and "quantum \<le> maximum" and "unat (maximum - quantum) + (if activity s = Unwinding then 1 else 2) \<le> n"
  shows "pump_loop n env maximum quantum s \<noteq> None"
  using assms
proof (induction n arbitrary: quantum s)
  case (Suc n)
  show ?case
  proof (cases "quantum < maximum")
    case True
    note round = pump_round_ok [OF Suc.prems(1-3), where env = env and quantum = quantum]
    show ?thesis
    proof (cases "pump_round env quantum s")
      case (Inl x)
      with True show ?thesis by simp
    next
      case (Inr x)
      then obtain q s' where x: "pump_round env quantum s = Inr (q, s')" by (cases x) auto
      with round have ok: "core_inv s'" "control_inv s'" "activity s' = Runnable \<or> activity s' = Unwinding"
        "activity s = Runnable" "q = quantum + 1 \<or> q = quantum \<and> activity s' = Unwinding"
        by auto
      have "quantum + 1 \<noteq> 0"
      proof
        assume "quantum + 1 = 0"
        then have "quantum = 0 - 1" by (simp only: eq_diff_eq)
        with True show False by simp
      qed
      then have "unat (quantum + 1) = Suc (unat quantum)" using unatSuc [of quantum] by (simp add: add.commute)
      moreover have "quantum + 1 \<le> maximum" using True by (rule inc_le)
      ultimately have "unat (maximum - (quantum + 1)) + 1 = unat (maximum - quantum)" "quantum + 1 \<le> maximum"
        using unat_sub [of "quantum + 1" maximum] unat_sub [of quantum maximum] Suc.prems(4)
        by (simp_all add: word_le_nat_alt)
      then have "q \<le> maximum" "unat (maximum - q) + (if activity s' = Unwinding then 1 else 2) \<le> n"
        using ok(4,5) Suc.prems(4,5) \<open>quantum + 1 \<le> maximum\<close> by auto
      from Suc.IH [OF ok(1-3) this] True x show ?thesis by simp
    qed
  qed simp
qed (simp split: if_splits)

lemma Pump_ok:
  assumes "executor_inv s" and "Pump n env token maximum s = Some (r, s')"
  shows "executor_inv s' \<and>
    (activity s \<noteq> AwaitingHost \<longrightarrow> host_request r = map_option pending_request (pending s')) \<and>
    (terminal r = (if activity s = Terminal then Some (program_result s) else None)) \<and>
    (activity s = Runnable \<or> activity s = Unwinding \<longrightarrow> activity s' \<noteq> Terminal \<and> activity s' \<noteq> Idle)"
proof (cases "activity s = Runnable \<or> activity s = Unwinding")
  case False
  then have "s' = s" "r = (if activity s = Terminal then pump_nothing\<lparr>terminal := Some (program_result s)\<rparr>
      else pump_nothing)"
    using assms(2) by (cases "activity s"; simp add: Pump_def)+
  with assms(1) False show ?thesis
    by (cases "activity s") (auto simp: executor_inv_def idle_inv_def control_inv_def pump_nothing_def)
next
  case True
  then have s: "core_inv s" "control_inv s" using assms(1) by (auto simp: executor_inv_def idle_inv_def)
  have step: "executor_inv s' \<and> host_request r = map_option pending_request (pending s') \<and> terminal r = None \<and>
      activity s' \<noteq> Terminal \<and> activity s' \<noteq> Idle" if "step_ok (r, s')"
    using that by (auto simp: step_ok_def executor_inv_def control_inv_def)
  show ?thesis
  proof (cases "maximum = 0")
    case True
    with assms(2) \<open>activity s = Runnable \<or> activity s = Unwinding\<close> s show ?thesis
      by (auto simp: Pump_def executor_inv_def control_inv_def)
  next
    case False
    let ?s = "if cancellation_reason token s \<noteq> NoCancellation \<and> \<not> unwinding s
      then BeginFailure Cancelled (ascii ''cancelled'') 0 s else s"
    have ok: "core_inv ?s \<and> control_inv ?s \<and> (activity ?s = Runnable \<or> activity ?s = Unwinding)"
      using True s BeginFailure_running [of s Cancelled "ascii ''cancelled''" 0]
      by (auto simp: control_inv_def exec_simps)
    have "pump_loop n env maximum 0 ?s = Some (r, s')"
      using assms(2) True False by (auto simp: Pump_def)
    with pump_loop_ok [of ?s n env maximum 0 r s'] ok have "step_ok (r, s')" by blast
    from step [OF this] True show ?thesis by auto
  qed
qed

lemma Pump_returns:
  assumes "executor_inv s" and "unat maximum + 2 \<le> n"
  shows "Pump n env token maximum s \<noteq> None"
proof (cases "(activity s = Runnable \<or> activity s = Unwinding) \<and> maximum \<noteq> 0")
  case False
  then show ?thesis by (cases "activity s") (auto simp: Pump_def)
next
  case True
  then have s: "core_inv s" "control_inv s" using assms(1) by (auto simp: executor_inv_def idle_inv_def)
  let ?s = "if cancellation_reason token s \<noteq> NoCancellation \<and> \<not> unwinding s
    then BeginFailure Cancelled (ascii ''cancelled'') 0 s else s"
  have ok: "core_inv ?s \<and> control_inv ?s \<and> (activity ?s = Runnable \<or> activity ?s = Unwinding)"
    using True s BeginFailure_running [of s Cancelled "ascii ''cancelled''" 0]
    by (auto simp: control_inv_def exec_simps)
  have "pump_loop n env maximum 0 ?s \<noteq> None"
    by (rule pump_loop_returns) (use ok assms(2) in auto)
  with True show ?thesis by (auto simp: Pump_def)
qed

section \<open>Starting and cancelling\<close>

lemma Start_ok:
  assumes "executor_inv s" and "Start m call s = (ok, s')"
  shows "executor_inv s'"
proof (cases "activity s = Idle \<and> ok")
  case False
  have "s' = s \<or> activity s = Idle \<and> \<not> ok \<and> (\<exists>v. s' = s\<lparr>verified := v, invocation := call,
      executor_limits := invocation_limits call\<rparr>)"
    using assms(2) False
    by (auto simp: Start_def Let_def split: option.splits if_splits prod.splits)
  with assms(1) show ?thesis
    by (auto simp: executor_inv_def idle_inv_def control_inv_def)
next
  case True
  let ?s = "s\<lparr>verified := m, invocation := call, executor_limits := invocation_limits call\<rparr>"
  from assms(2) True obtain v where m: "m = Some v" by (cases m) (auto simp: Start_def)
  obtain f d b ty where e: "entry_function v ?s = Some (f, d, b, ty)"
    using assms(2) True m by (cases "entry_function v ?s") (auto simp: Start_def Let_def split: if_splits)
  obtain st count bytes where measure:
    "MeasureProgramValueGraph (invocation_input call) (value_limits ?s) = Some (st, count, bytes)"
    "st = NoArenaError \<longrightarrow> count \<le> maximum_values (value_limits ?s) \<and> bytes \<le> maximum_value_bytes (value_limits ?s)"
    using measure_outcome by blast
  have good: "st = NoArenaError \<and> finite_budgets (invocation_limits call) \<and>
      the (ValidateProgramValueGraph (invocation_input call) ty (type_closure v) (value_limits ?s)
        (Some (current_epoch ?s))) = NoArenaError \<and>
      s' = Trace ''invocation_started'' 0 []
        (?s\<lparr>program_result := initial_result call v, value_count := count, value_bytes := bytes,
          frames := [\<lparr>frame_module = verified_module v, frame_function = f, frame_block = Some b,
            instruction_index = 0, frame_values = [(definition_id d, invocation_input call)],
            return_destination = None\<rparr>],
          scopes := [\<lparr>scope_id = kInvocationScope, scope_parent = 0, deferred = []\<rparr>], activity := Runnable\<rparr>)"
    using assms(2) True m e measure(1) by (auto simp: Start_def Let_def split: if_splits)
  then have valid: "the (ValidateProgramValueGraph (invocation_input call) ty (type_closure v) (value_limits ?s)
      (Some (current_epoch ?s))) = NoArenaError" and budgets: "finite_budgets (invocation_limits call)"
    and s': "s' = Trace ''invocation_started'' 0 []
      (?s\<lparr>program_result := initial_result call v, value_count := count, value_bytes := bytes,
        frames := [\<lparr>frame_module = verified_module v, frame_function = f, frame_block = Some b,
          instruction_index = 0, frame_values = [(definition_id d, invocation_input call)],
          return_destination = None\<rparr>],
        scopes := [\<lparr>scope_id = kInvocationScope, scope_parent = 0, deferred = []\<rparr>], activity := Runnable\<rparr>)"
    by blast+
  have epoch: "expected_epoch (invocation_state call) \<noteq> 0"
    using assms(2) True by (auto simp: Start_def Let_def split: if_splits option.splits)
  have idle: "idle_inv s" using assms(1) True by (auto simp: executor_inv_def control_inv_def)
  have closed: "graph_closed (invocation_input call)" using valid by (rule validation_closed)
  from measure(2) good have "count \<le> budget_values (invocation_limits call)"
    "bytes \<le> budget_value_bytes (invocation_limits call)" by (simp_all add: value_limits_def)
  moreover have "1 \<le> unat (maximum_call_depth (invocation_limits call))"
    using budgets by (simp add: finite_budgets_def Suc_le_eq unat_gt_0)
  ultimately have "running (?s\<lparr>program_result := initial_result call v, value_count := count, value_bytes := bytes,
        frames := [\<lparr>frame_module = verified_module v, frame_function = f, frame_block = Some b,
          instruction_index = 0, frame_values = [(definition_id d, invocation_input call)],
          return_destination = None\<rparr>],
        scopes := [\<lparr>scope_id = kInvocationScope, scope_parent = 0, deferred = []\<rparr>], activity := Runnable\<rparr>)"
    using idle m closed epoch
    by (simp add: running_def core_inv_def deferred_ok_def frame_ok_def idle_inv_def initial_result_def current_epoch_def)
  then have "running s'" unfolding s' by (rule running_Trace)
  then show ?thesis using running_inv by (auto simp: executor_inv_def)
qed

lemma inv_cong:
  assumes "executor_inv s" "activity s' = activity s" "pending s' = pending s" "unwinding s' = unwinding s"
    "explicit_scope_close s' = explicit_scope_close s" "verified s' = verified s"
    "invocation s' = invocation s" "scopes s' = scopes s"
    "frames s' = frames s" "executor_limits s' = executor_limits s" "value_count s' = value_count s"
    "value_bytes s' = value_bytes s" "program_result s' = program_result s"
  shows "executor_inv s'"
proof -
  have "core_inv s' = core_inv s" by (rule core_inv_cong) (simp_all add: assms)
  moreover have "control_inv s' = control_inv s"
    unfolding control_inv_def assms(2-8) pending_ok_cong [OF assms(6,8,4,5)] by (rule refl)
  moreover have "idle_inv s' = idle_inv s" unfolding idle_inv_def assms(2-5) by (rule refl)
  ultimately show ?thesis using assms(1) by (simp add: executor_inv_def)
qed

lemma RequestCancellation_ok: "executor_inv s \<Longrightarrow> executor_inv (snd (RequestCancellation reason s))"
  by (auto simp: RequestCancellation_def elim: inv_cong)

lemma BindPendingAction_ok:
  assumes "executor_inv s"
  shows "executor_inv (snd (BindPendingAction i s))"
proof (cases "fst (BindPendingAction i s)")
  case True
  then obtain p where p: "pending s = Some p" "activity s = AwaitingHost"
    "snd (BindPendingAction i s) = s\<lparr>pending := Some (p\<lparr>pending_request_id := Some i\<rparr>)\<rparr>"
    by (auto simp: BindPendingAction_def split: option.splits if_splits)
  let ?s = "s\<lparr>pending := Some (p\<lparr>pending_request_id := Some i\<rparr>)\<rparr>"
  have "core_inv ?s = core_inv s" by (rule core_inv_cong) simp_all
  moreover have "pending_ok (p\<lparr>pending_request_id := Some i\<rparr>) s = pending_ok p s" by (simp add: pending_ok_def)
  moreover have "pending_ok q ?s = pending_ok q s" for q by (rule pending_ok_cong) simp_all
  ultimately show ?thesis
    using assms p by (auto simp: executor_inv_def idle_inv_def control_inv_def)
next
  case False
  then have "snd (BindPendingAction i s) = s" by (auto simp: BindPendingAction_def split: option.splits)
  with assms show ?thesis by simp
qed

section \<open>Completions\<close>

text \<open>
  A deferred action that completes while the program unwinds, with an output for which the value
  budget has no room, makes the program run again; the invariant is for hosts that do not do that.
\<close>

definition cleanup_output_fits :: "ProgramActionResolution \<Rightarrow> Executor \<Rightarrow> bool" where
  "cleanup_output_fits c s \<longleftrightarrow>
    (case pending s of
       None \<Rightarrow> True
     | Some p \<Rightarrow>
         pending_success p = DeferredCleanup \<and> unwinding s \<longrightarrow>
         \<not> budget_error (output_status c p (Option.bind (request_action (pending_request p)) (action_binding s)) s))"

lemma note_cleanup_trace: "result_trace (note_cleanup c r) = result_trace r"
proof -
  have "result_trace (fold note_receipt rs r) = result_trace r" for rs r
    by (induction rs arbitrary: r) (simp_all add: note_receipt_def Let_def)
  then show ?thesis by (simp add: note_cleanup_def Let_def)
qed

lemma scope_chain_tl: "scope_chain xs \<Longrightarrow> length xs > 1 \<Longrightarrow> scope_chain (tl xs)"
  by (cases xs rule: scope_chain.cases) auto

lemma core_inv_tl:
  assumes "core_inv s" and "length (scopes s) > 1"
  shows "core_inv (s\<lparr>scopes := tl (scopes s)\<rparr>)"
proof -
  from assms(2) obtain x xs where "scopes s = x # xs" by (cases "scopes s") auto
  with assms scope_chain_tl [of "scopes s"] show ?thesis
    by (simp add: core_inv_def deferred_ok_def current_epoch_def action_binding_def)
qed

definition completion_ready :: "PendingHost \<Rightarrow> Executor \<Rightarrow> bool" where
  "completion_ready p s \<longleftrightarrow> core_inv s \<and> pending s = None \<and> pending_ok p s"

lemma resumed:
  assumes "completion_ready p s" and "\<not> unwinding s" "\<not> explicit_scope_close s"
  shows "running (s\<lparr>activity := Runnable\<rparr>)"
  using assms core_inv_cong [of "s\<lparr>activity := Runnable\<rparr>" s] by (simp add: completion_ready_def running_def)

lemma settles:
  assumes "running s"
  shows "executor_inv s" and "executor_inv (BeginFailure st c l s)"
  using running_inv [OF assms] running_failure [OF assms, of pump_nothing st c l]
  by (auto simp: executor_inv_def step_ok_def)

lemma failure_ok:
  assumes "completion_ready p s" and "\<not> unwinding s"
  shows "executor_inv (BeginFailure st c l (s\<lparr>activity := Runnable\<rparr>))"
proof -
  have "core_inv (s\<lparr>activity := Runnable\<rparr>) = core_inv s" by (rule core_inv_cong) simp_all
  with assms BeginFailure_running [of "s\<lparr>activity := Runnable\<rparr>" st c l] show ?thesis
    by (simp add: executor_inv_def control_inv_def completion_ready_def exec_simps)
qed

lemma cleanup_failed_ok:
  assumes "completion_ready p s" and "is_cleanup (pending_success p)"
  shows "executor_inv (cleanup_failed c (pending_success p) s)"
proof -
  have core: "core_inv s" "pending s = None" "pending_ok p s" using assms(1) by (simp_all add: completion_ready_def)
  let ?r = "program_result (Diagnostic Error (code_or ''cleanup_failed'' (resolution_code c)) 0
    (s\<lparr>program_result := (program_result s)\<lparr>result_cleanup := CleanupTainted,
      session_disposition := DispositionTainted\<rparr>\<rparr>))"
  have trace: "result_trace ?r = result_trace (program_result s)" by (simp add: Diagnostic_def)
  consider "pending_success p = FinishSuccess" | "pending_success p = CloseScopeSuccess"
    | "pending_success p = DeferredCleanup" using assms(2) by (auto simp: is_cleanup_def)
  then show ?thesis
  proof cases
    case 1
    have "core_inv (s\<lparr>program_result := ?r\<lparr>infrastructure := BackendFailed\<rparr>, activity := Terminal\<rparr>) = core_inv s"
      by (rule core_inv_cong) (simp_all add: trace)
    with 1 core show ?thesis
      by (simp add: cleanup_failed_def Let_def executor_inv_def control_inv_def pending_ok_def
          set_infrastructure_def Diagnostic_def)
  next
    case 2
    then have len: "length (scopes s) > 1" using core(3) by (simp add: pending_ok_def Let_def)
    have "core_inv (s\<lparr>scopes := tl (scopes s), explicit_scope_close := False, program_result := r,
        unwinding := u, activity := Unwinding\<rparr>) = core_inv (s\<lparr>scopes := tl (scopes s)\<rparr>)"
      if "result_trace r = result_trace (program_result s)" for r u
      by (rule core_inv_cong) (simp_all add: that)
    with core_inv_tl [OF core(1) len] have "core_inv (s\<lparr>scopes := tl (scopes s), explicit_scope_close := False,
        program_result := r, unwinding := u, activity := Unwinding\<rparr>)"
      if "result_trace r = result_trace (program_result s)" for r u using that by simp
    with trace have "core_inv (cleanup_failed c CloseScopeSuccess s)"
      by (simp add: cleanup_failed_def Let_def set_infrastructure_def Diagnostic_def core_inv_def deferred_ok_def
          action_binding_def current_epoch_def split: if_splits)
    with 2 core show ?thesis
      by (auto simp: cleanup_failed_def Let_def executor_inv_def control_inv_def set_infrastructure_def Diagnostic_def)
  next
    case 3
    have "core_inv (s\<lparr>program_result := ?r, activity := Unwinding\<rparr>) = core_inv s"
      by (rule core_inv_cong) (simp_all add: trace)
    with 3 core show ?thesis
      by (simp add: cleanup_failed_def Let_def executor_inv_def control_inv_def pending_ok_def Diagnostic_def)
  qed
qed

lemma complete_pending_ok:
  assumes ready: "completion_ready p s" and finish: "complete_pending c p action s = (ok, s')"
  shows "executor_inv s'"
proof (cases "pending_success p")
  case BindValue
  then have run: "running (s\<lparr>activity := Runnable\<rparr>)"
    using ready resumed [OF ready] by (simp add: completion_ready_def pending_ok_def Let_def)
  show ?thesis
  proof (cases "\<exists>i b. pending_result p = Some i \<and> action = Some b")
    case True
    then obtain i b where "pending_result p = Some i" "action = Some b" by blast
    then have "Bind i (action_output_type b) (resolution_output c) (s\<lparr>activity := Runnable\<rparr>) = (ok, s')"
      using finish BindValue by (simp add: complete_pending_def Let_def)
    from Bind_running [OF run this] show ?thesis by (simp add: executor_inv_def)
  next
    case False
    then have "s' = s\<lparr>activity := Runnable\<rparr>"
      using finish BindValue by (auto simp: complete_pending_def Let_def split: option.splits)
    with settles(1) [OF run] show ?thesis by simp
  qed
next
  case PushScope
  let ?q = "\<lparr>scope_id = request_scope (pending_request p), scope_parent = request_parent (pending_request p),
    deferred = []\<rparr>"
  have run: "running (s\<lparr>activity := Runnable\<rparr>)"
    using ready resumed [OF ready] PushScope by (simp add: completion_ready_def pending_ok_def Let_def)
  then obtain top outer where top: "scopes s = top # outer"
    using chain_nonempty [of "s\<lparr>activity := Runnable\<rparr>"] by (cases "scopes s") (auto simp: running_def)
  have "request_parent (pending_request p) = scope_id top"
    using ready PushScope top by (simp add: completion_ready_def pending_ok_def Let_def)
  with run top have "running (s\<lparr>scopes := ?q # scopes s, activity := Runnable\<rparr>)"
    by (simp add: running_def core_inv_def deferred_ok_def current_epoch_def action_binding_def)
  then show ?thesis using finish PushScope settles(1) by (auto simp: complete_pending_def)
next
  case CloseScopeSuccess
  then have p: "unwinding s \<noteq> explicit_scope_close s" "length (scopes s) > 1" "core_inv s" "pending s = None"
    using ready by (simp_all add: completion_ready_def pending_ok_def Let_def)
  have core: "core_inv (s\<lparr>scopes := tl (scopes s), explicit_scope_close := e, activity := a\<rparr>)" for e a
    using core_inv_tl [OF p(3,2)]
      core_inv_cong [of "s\<lparr>scopes := tl (scopes s), explicit_scope_close := e, activity := a\<rparr>"
        "s\<lparr>scopes := tl (scopes s)\<rparr>"] by simp
  have "core_inv s'"
    using finish CloseScopeSuccess core [where e = False and a = Runnable]
      core [where e = "explicit_scope_close s" and a = Unwinding]
    by (auto simp: complete_pending_def Let_def split: if_splits)
  with finish CloseScopeSuccess p show ?thesis
    by (auto simp: complete_pending_def Let_def executor_inv_def control_inv_def)
next
  case Promote
  then have "running (s\<lparr>activity := Runnable\<rparr>)"
    using ready resumed [OF ready] by (simp add: completion_ready_def pending_ok_def Let_def)
  then show ?thesis using finish Promote settles(1) by (auto simp: complete_pending_def)
next
  case DeferredCleanup
  have "core_inv (s\<lparr>activity := Unwinding\<rparr>) = core_inv s" by (rule core_inv_cong) simp_all
  with ready DeferredCleanup finish show ?thesis
    by (auto simp: complete_pending_def completion_ready_def pending_ok_def Let_def executor_inv_def control_inv_def)
next
  case FinishSuccess
  let ?t = "Trace ''invocation_terminal'' 0 [] s"
  have "core_inv (?t\<lparr>activity := Terminal\<rparr>) = core_inv ?t" by (rule core_inv_cong) simp_all
  with ready FinishSuccess finish core_inv_Trace [of s] show ?thesis
    by (auto simp: complete_pending_def completion_ready_def pending_ok_def Let_def executor_inv_def control_inv_def
        exec_simps)
qed

lemma DeliverHostCompletion_ok:
  assumes inv: "executor_inv s" and fits: "cleanup_output_fits c s"
    and run: "DeliverHostCompletion c s = (ok, s')"
  shows "executor_inv s'"
proof (cases "\<exists>p. pending s = Some p \<and> resolution_matches c s")
  case False
  then have "s' = s" using run by (auto simp: DeliverHostCompletion_def split: option.splits)
  with inv show ?thesis by simp
next
  case True
  then obtain p where p: "pending s = Some p" "resolution_matches c s" by blast
  then have s: "core_inv s" "pending_ok p s"
    using inv by (auto simp: executor_inv_def idle_inv_def resolution_matches_def control_inv_def)
  define action where "action = Option.bind (request_action (pending_request p)) (action_binding s)"
  define status where "status = output_status c p action s"
  let ?s = "s\<lparr>pending := None, program_result := note_cleanup c (program_result s)\<rparr>"
  have "core_inv ?s = core_inv s" by (rule core_inv_cong) (simp_all add: note_cleanup_trace)
  moreover have "pending_ok p ?s = pending_ok p s" by (rule pending_ok_cong) simp_all
  ultimately have ready: "completion_ready p ?s" using s by (simp add: completion_ready_def)
  note result = run [unfolded DeliverHostCompletion_def p(1) option.case Let_def, folded action_def,
      folded status_def]
  show ?thesis
  proof (cases "(request_action (pending_request p) \<noteq> None \<and> action = None) \<or>
      (status \<noteq> NoArenaError \<and> \<not> budget_error status)")
    case True
    then have "s' = s" using result p(2) by (auto split: if_splits)
    with inv show ?thesis by simp
  next
    case going: False
    show ?thesis
    proof (cases "status = NoArenaError")
      case False
      then have "request_operation (pending_request p) = InvokeAction" "budget_error status"
        using going by (auto simp: status_def output_status_def split: if_splits)
      with s(2) fits p(1) have "\<not> unwinding ?s"
        by (cases "pending_success p") (simp_all add: pending_ok_def Let_def cleanup_output_fits_def status_def action_def)
      from failure_ok [OF ready this] show ?thesis
        using result p(2) going False by (auto split: if_splits)
    next
      case fine: True
      show ?thesis
      proof (cases "resolution_status c = ActionCompleted")
        case True
        then have "complete_pending c p action ?s = (ok, s')"
          using result p(2) going fine by (auto split: if_splits)
        with ready show ?thesis by (rule complete_pending_ok)
      next
        case False
        show ?thesis
        proof (cases "is_cleanup (pending_success p)")
          case True
          with cleanup_failed_ok [OF ready True] False result p(2) going fine show ?thesis
            by (auto split: if_splits)
        next
          case plain: False
          then have "\<not> unwinding ?s"
            using s(2) by (cases "pending_success p") (simp_all add: pending_ok_def Let_def is_cleanup_def)
          from failure_ok [OF ready this] plain False result p(2) going fine show ?thesis
            by (auto split: if_splits)
        qed
      qed
    qed
  qed
qed

end
