(* ===== verification/ExecutorCleanup.thy ===== *)
theory ExecutorCleanup
  imports ExecutorMachine
begin

text \<open>
  The machine of the executor's calls, and its cleanup. The specification of the cleanup is the
  list of requests the stack of scopes owes: for each scope, innermost first, its deferred
  actions from the last to the first and then its close, and at the end of the invocation's scope
  the end of the invocation.
\<close>

section \<open>The machine\<close>

text \<open>
  The calls of the driver, in any order, with the completions the host gives. \<open>host\<close> is an assumption
  on the completions in the state they are delivered in; the code takes any, which is \<open>any_completion\<close>.
\<close>

inductive executor_step ::
  "'f executor_env \<Rightarrow> (ProgramActionResolution \<Rightarrow> Executor \<Rightarrow> bool) \<Rightarrow> Executor \<Rightarrow> Executor \<Rightarrow> bool"
  for env :: "'f executor_env" and host :: "ProgramActionResolution \<Rightarrow> Executor \<Rightarrow> bool" where
  start: "Start m call s = (ok, s') \<Longrightarrow> executor_step env host s s'"
| pump: "Pump n env token maximum s = Some (r, s') \<Longrightarrow> executor_step env host s s'"
| bind: "BindPendingAction i s = (ok, s') \<Longrightarrow> executor_step env host s s'"
| deliver: "host c s \<Longrightarrow> DeliverHostCompletion c s = (ok, s') \<Longrightarrow> executor_step env host s s'"
| cancel: "RequestCancellation reason s = (ok, s') \<Longrightarrow> executor_step env host s s'"

inductive_cases executor_stepE: "executor_step env host s s'"

definition any_completion :: "ProgramActionResolution \<Rightarrow> Executor \<Rightarrow> bool" where
  "any_completion c s \<longleftrightarrow> True"

definition executor_reachable ::
  "'f executor_env \<Rightarrow> (ProgramActionResolution \<Rightarrow> Executor \<Rightarrow> bool) \<Rightarrow> Executor \<Rightarrow> Executor \<Rightarrow> bool" where
  "executor_reachable env host init s \<longleftrightarrow> idle_inv init \<and> (executor_step env host)\<^sup>*\<^sup>* init s"

lemma executor_step_inv: "executor_step env cleanup_output_fits s s' \<Longrightarrow> executor_inv s \<Longrightarrow> executor_inv s'"
proof (erule executor_stepE)
  fix n token maximum r
  assume "executor_inv s" "Pump n env token maximum s = Some (r, s')"
  then show "executor_inv s'" using Pump_ok by blast
next
  fix i ok
  assume "executor_inv s" "BindPendingAction i s = (ok, s')"
  then show "executor_inv s'" using BindPendingAction_ok by (metis snd_conv)
next
  fix reason ok
  assume "executor_inv s" "RequestCancellation reason s = (ok, s')"
  then show "executor_inv s'" using RequestCancellation_ok by (metis snd_conv)
qed (use Start_ok DeliverHostCompletion_ok in blast)+

lemma executor_reachable_inv:
  assumes "executor_reachable env cleanup_output_fits init s"
  shows "executor_inv s"
proof -
  from assms have "(executor_step env cleanup_output_fits)\<^sup>*\<^sup>* init s" "executor_inv init"
    by (simp_all add: executor_reachable_def executor_inv_def)
  then show ?thesis by induction (auto intro: executor_step_inv)
qed

text \<open>
  Without the assumption a completion is refused or makes the program run again, though it unwinds.
\<close>

lemma overlarge_completion:
  assumes "\<not> cleanup_output_fits c s" and run: "DeliverHostCompletion c s = (ok, s')"
  shows "s' = s \<or> ok \<and> s' = s\<lparr>pending := None, program_result := note_cleanup c (program_result s),
    activity := Runnable\<rparr>"
proof -
  obtain p where p: "pending s = Some p" "pending_success p = DeferredCleanup" "unwinding s"
    "budget_error (output_status c p (Option.bind (request_action (pending_request p)) (action_binding s)) s)"
    using assms(1) by (auto simp: cleanup_output_fits_def split: option.splits)
  then have "output_status c p (Option.bind (request_action (pending_request p)) (action_binding s)) s \<noteq> NoArenaError"
    by (auto simp: budget_error_def)
  with run p show ?thesis
    by (auto simp: DeliverHostCompletion_def Let_def BeginFailure_def split: if_splits)
qed

lemma any_step_inv:
  assumes "executor_step env any_completion s s'" and inv: "executor_inv s"
  shows "executor_inv s' \<or> (\<exists>c. \<not> cleanup_output_fits c s \<and> DeliverHostCompletion c s = (True, s') \<and>
    activity s' = Runnable \<and> unwinding s')"
proof (cases "executor_step env cleanup_output_fits s s'")
  case False
  with assms(1) obtain c ok where c: "\<not> cleanup_output_fits c s" "DeliverHostCompletion c s = (ok, s')"
    by (auto elim!: executor_stepE intro: executor_step.intros)
  have "unwinding s" using c(1) by (auto simp: cleanup_output_fits_def split: option.splits)
  with overlarge_completion [OF c] c inv show ?thesis by auto
qed (use executor_step_inv inv in blast)

section \<open>What is owed\<close>

definition deferred_requests :: "Scope \<Rightarrow> ExecutorHostRequest list" where
  "deferred_requests scope = map (\<lambda>d. deferred_request d scope) (rev (deferred scope))"

fun owed :: "Scope list \<Rightarrow> ExecutorHostRequest list" where
  "owed [] = []"
| "owed [base] = deferred_requests base @ [scope_request FinishInvocation base]"
| "owed (inner # outer # rest) =
    deferred_requests inner @ scope_request CloseScope inner # owed (outer # rest)"

lemma owed_deferred:
  assumes "deferred scope \<noteq> []"
  shows "owed (scope # outer) = deferred_request (last (deferred scope)) scope #
    owed (scope\<lparr>deferred := butlast (deferred scope)\<rparr> # outer)"
proof -
  from assms obtain ds d where "deferred scope = ds @ [d]" by (cases "deferred scope" rule: rev_cases) auto
  then show ?thesis
    by (cases outer) (simp_all add: deferred_requests_def deferred_request_def scope_request_def)
qed

section \<open>A host that answers\<close>

text \<open>
  The answer is addressed to the request: the identities, the operation and the epoch are the
  executor's. What it says is the host's: any status, any output, receipts and code.
\<close>

definition addressed :: "ProgramActionResolution \<Rightarrow> ExecutorHostRequest \<Rightarrow> Executor \<Rightarrow> ProgramActionResolution" where
  "addressed c q s = c\<lparr>resolution_invocation := invocation_id (invocation s),
     resolution_attempt := attempt_id (invocation s), resolution_operation := request_operation q,
     resolution_epoch := current_epoch s\<rparr>"

text \<open>
  One round: pump, note the identity of the request, deliver the answer. The host may answer
  differently each time; \<open>n\<close> is the number of rounds left.
\<close>

fun unwind_run ::
  "'f executor_env \<Rightarrow> CancellationReason \<Rightarrow> u64 \<Rightarrow> (nat \<Rightarrow> ExecutorHostRequest \<Rightarrow> ProgramActionResolution) \<Rightarrow>
    nat \<Rightarrow> Executor \<Rightarrow> ExecutorHostRequest list \<times> Executor" where
  "unwind_run env token maximum host 0 s = ([], s)"
| "unwind_run env token maximum host (Suc n) s =
    (case Pump 1 env token maximum s of
       None \<Rightarrow> ([], s)
     | Some (r, s1) \<Rightarrow>
         (case host_request r of
            None \<Rightarrow> ([], s1)
          | Some q \<Rightarrow>
              let c = addressed (host n q) q s1;
                  s2 = snd (BindPendingAction (resolution_request c) s1);
                  s3 = snd (DeliverHostCompletion c s2) in
              (case unwind_run env token maximum host n s3 of (qs, s') \<Rightarrow> (q # qs, s'))))"

text \<open>
  An answer the executor takes: it has an identity, and the output of an action that completed
  satisfies the action's contract within the budget that is left.
\<close>

definition host_ok :: "(nat \<Rightarrow> ExecutorHostRequest \<Rightarrow> ProgramActionResolution) \<Rightarrow> Executor \<Rightarrow> bool" where
  "host_ok host s \<longleftrightarrow>
    (\<forall>n q d b. resolution_request (host n q) \<noteq> 0 \<and>
      (resolution_status (host n q) = ActionCompleted \<and> request_action q = Some d \<and>
       action_binding s d = Some b \<longrightarrow>
       the (ValidateProgramValueGraph (resolution_output (host n q)) (action_output_type b) (known_types s)
         (remaining_limits (value_count s) (value_bytes s) s) (Some (current_epoch s))) = NoArenaError))"

definition unwinds :: "Executor \<Rightarrow> bool" where
  "unwinds s \<longleftrightarrow> core_inv s \<and> activity s = Unwinding \<and> pending s = None \<and> unwinding s \<and>
    \<not> explicit_scope_close s \<and> current_epoch s \<noteq> 0"

definition waits_with :: "ExecutorHostRequest \<Rightarrow> PendingSuccess \<Rightarrow> Scope list \<Rightarrow> Executor \<Rightarrow> Executor" where
  "waits_with q success stack s = s\<lparr>scopes := stack,
     pending := Some \<lparr>pending_request = q, pending_success = success, pending_result = None,
       pending_request_id = None\<rparr>, activity := AwaitingHost\<rparr>"

lemma Pump_unwinding:
  assumes "unwinds s" and "maximum \<noteq> 0"
  shows "Pump 1 env token maximum s = Some (PumpCleanup s)"
  using assms by (auto simp: Pump_def unwinds_def pump_round_def word_zero_less)

text \<open>The request of the cleanup is the first one that is owed.\<close>

lemma PumpCleanup_request:
  assumes "unwinds s"
  obtains (deferred) scope outer where "scopes s = scope # outer" "deferred scope \<noteq> []"
      "PumpCleanup s = (pump_nothing\<lparr>host_request := Some (hd (owed (scopes s)))\<rparr>,
        waits_with (hd (owed (scopes s))) DeferredCleanup
          (scope\<lparr>deferred := butlast (deferred scope)\<rparr> # outer) s)"
      "tl (owed (scopes s)) = owed (scope\<lparr>deferred := butlast (deferred scope)\<rparr> # outer)"
      "\<exists>d. request_action (hd (owed (scopes s))) = Some d \<and> action_binding s d \<noteq> None"
      "request_operation (hd (owed (scopes s))) = InvokeAction"
    | (close) scope scope' outer where "scopes s = scope # scope' # outer"
      "PumpCleanup s = (pump_nothing\<lparr>host_request := Some (hd (owed (scopes s)))\<rparr>,
        waits_with (hd (owed (scopes s))) CloseScopeSuccess (scopes s) s)"
      "tl (owed (scopes s)) = owed (scope' # outer)"
      "request_action (hd (owed (scopes s))) = None" "request_operation (hd (owed (scopes s))) = CloseScope"
    | (finish) scope where "scopes s = [scope]"
      "PumpCleanup s = (pump_nothing\<lparr>host_request := Some (hd (owed (scopes s)))\<rparr>,
        waits_with (hd (owed (scopes s))) FinishSuccess (scopes s) s)"
      "tl (owed (scopes s)) = []"
      "request_action (hd (owed (scopes s))) = None" "request_operation (hd (owed (scopes s))) = FinishInvocation"
proof -
  from assms have core: "core_inv s" "\<not> explicit_scope_close s" by (simp_all add: unwinds_def)
  then obtain scope outer where scope: "scopes s = scope # outer"
    using chain_nonempty [OF core(1)] by (cases "scopes s") auto
  show thesis
  proof (cases "deferred scope = []")
    case False
    have "action_binding s (deferred_identity (last (deferred scope))) \<noteq> None"
      using core(1) scope False by (simp add: core_inv_def deferred_ok_def)
    then show thesis
      using scope False owed_deferred [OF False, of outer]
      by (intro deferred) (auto simp: PumpCleanup_def Suspend_def waits_with_def deferred_request_def)
  next
    case True
    show thesis
    proof (cases outer)
      case Nil
      then show thesis
        using scope True core(2)
        by (intro finish) (auto simp: PumpCleanup_def Suspend_def waits_with_def deferred_requests_def scope_request_def)
    next
      case (Cons scope' rest)
      then show thesis
        using scope True core(2)
        by (intro close) (auto simp: PumpCleanup_def Suspend_def waits_with_def deferred_requests_def scope_request_def)
    qed
  qed
qed

text \<open>Whatever the host answers, the cleanup goes on with the next request, or is done.\<close>

definition same_program :: "Executor \<Rightarrow> Executor \<Rightarrow> bool" where
  "same_program s s' \<longleftrightarrow> verified s' = verified s \<and> invocation s' = invocation s \<and>
    executor_limits s' = executor_limits s \<and> value_count s' = value_count s \<and> value_bytes s' = value_bytes s"

lemma answered:
  fixes s :: Executor and q :: ExecutorHostRequest and host n
  defines "c \<equiv> host n q"
  assumes success: "is_cleanup success" and s: "unwinding s" "\<not> explicit_scope_close s" "current_epoch s \<noteq> 0"
    and c: "host_ok host s"
    and action: "request_operation q = InvokeAction \<longleftrightarrow> request_action q \<noteq> None"
      "\<forall>d. request_action q = Some d \<longrightarrow> action_binding s d \<noteq> None"
  obtains s2 s3 where
    "BindPendingAction (resolution_request c) (waits_with q success stack s) = (True, s2)"
    "cleanup_output_fits (addressed c q (waits_with q success stack s)) s2"
    "DeliverHostCompletion (addressed c q (waits_with q success stack s)) s2 = (True, s3)"
    "activity s3 = (if success = FinishSuccess then Terminal else Unwinding)"
    "scopes s3 = (if success = CloseScopeSuccess then tl stack else stack)"
    "pending s3 = None" "unwinding s3" "\<not> explicit_scope_close s3" "same_program s s3"
    "infrastructure (program_result s3) = (if success = FinishSuccess \<and> resolution_status c \<noteq> ActionCompleted
      then BackendFailed else infrastructure (program_result s))"
proof -
  let ?s1 = "waits_with q success stack s" and ?c = "addressed c q (waits_with q success stack s)"
  let ?p = "\<lparr>pending_request = q, pending_success = success, pending_result = None,
    pending_request_id = Some (resolution_request c)\<rparr>"
  let ?s2 = "?s1\<lparr>pending := Some ?p\<rparr>"
  have id: "resolution_request c \<noteq> 0" using c unfolding host_ok_def c_def by blast
  then have bind: "BindPendingAction (resolution_request c) ?s1 = (True, ?s2)"
    by (simp add: BindPendingAction_def waits_with_def)
  have same: "current_epoch ?s2 = current_epoch s" "action_binding ?s2 = action_binding s"
    "known_types ?s2 = known_types s" "remaining_limits x y ?s2 = remaining_limits x y s"
    "current_epoch ?s1 = current_epoch s" for x y
    by (simp_all add: waits_with_def current_epoch_def action_binding_def [abs_def] known_types_def remaining_limits_def)
  have matches: "resolution_matches ?c ?s2"
    using s(3) by (simp add: resolution_matches_def same) (simp add: addressed_def waits_with_def current_epoch_def)
  define action where "action = Option.bind (request_action q) (action_binding s)"
  have bound: "request_action q \<noteq> None \<Longrightarrow> action \<noteq> None" using action(2) by (auto simp: action_def)
  have status: "output_status ?c ?p action ?s2 = NoArenaError"
  proof (cases "resolution_status c = ActionCompleted \<and> request_operation q = InvokeAction")
    case True
    with action obtain d b where d: "request_action q = Some d" "action_binding s d = Some b" by blast
    with c True have "the (ValidateProgramValueGraph (resolution_output c) (action_output_type b) (known_types s)
        (remaining_limits (value_count s) (value_bytes s) s) (Some (current_epoch s))) = NoArenaError"
      unfolding host_ok_def c_def by blast
    with True d show ?thesis
      by (simp add: output_status_def action_def same) (simp add: addressed_def waits_with_def current_epoch_def)
  qed (auto simp: output_status_def addressed_def)
  have pending: "pending ?s2 = Some ?p" by simp
  have fits: "cleanup_output_fits ?c ?s2"
    unfolding cleanup_output_fits_def pending option.case PendingHost.select_convs same(2)
      action_def [symmetric] status
    by (simp add: budget_error_def)
  let ?s = "?s2\<lparr>pending := None, program_result := note_cleanup ?c (program_result ?s2)\<rparr>"
  have run: "DeliverHostCompletion ?c ?s2 =
      (if resolution_status ?c \<noteq> ActionCompleted then (True, cleanup_failed ?c success ?s)
       else complete_pending ?c ?p action ?s)"
  proof -
    have bad: "(request_action q \<noteq> None \<and> action = None) = False" using bound by blast
    show ?thesis
      unfolding DeliverHostCompletion_def pending option.case PendingHost.select_convs same(2)
        action_def [symmetric] Let_def status bad
      using matches success by simp
  qed
  have infra: "infrastructure (note_cleanup ?c r) = infrastructure r" for r
  proof -
    have "infrastructure (fold note_receipt rs r) = infrastructure r" for rs r
      by (induction rs arbitrary: r) (simp_all add: note_receipt_def Let_def)
    then show ?thesis by (simp add: note_cleanup_def Let_def)
  qed
  have status_c: "resolution_status ?c = resolution_status c" by (simp add: addressed_def)
  define s3 where "s3 = snd (DeliverHostCompletion ?c ?s2)"
  have effect: "fst (DeliverHostCompletion ?c ?s2)"
    "activity s3 = (if success = FinishSuccess then Terminal else Unwinding)"
    "scopes s3 = (if success = CloseScopeSuccess then tl stack else stack)"
    "pending s3 = None" "unwinding s3" "\<not> explicit_scope_close s3" "same_program s s3"
    "infrastructure (program_result s3) = (if success = FinishSuccess \<and> resolution_status c \<noteq> ActionCompleted
      then BackendFailed else infrastructure (program_result s))"
    unfolding s3_def run status_c
    using success s(1,2) infra
    by (auto simp: is_cleanup_def cleanup_failed_def complete_pending_def Let_def same_program_def waits_with_def
        set_infrastructure_def Diagnostic_def Trace_def)
  then have "DeliverHostCompletion ?c ?s2 = (True, s3)" by (metis s3_def prod.collapse)
  from that [OF bind fits this effect(2-)] show thesis .
qed

lemma unwinds_inv: "unwinds s \<Longrightarrow> executor_inv s"
  by (simp add: unwinds_def executor_inv_def control_inv_def)

lemma host_ok_same:
  assumes "same_program s s'" and "host_ok host s"
  shows "host_ok host s'"
proof -
  from assms(1) have same: "verified s' = verified s" "invocation s' = invocation s"
    "executor_limits s' = executor_limits s" "value_count s' = value_count s" "value_bytes s' = value_bytes s"
    by (simp_all add: same_program_def)
  have "host_ok host s' = host_ok host s"
    unfolding host_ok_def action_binding_def known_types_def remaining_limits_def current_epoch_def same
    by (rule refl)
  with assms(2) show ?thesis by simp
qed

lemma owed_nonempty: "owed (scope # outer) \<noteq> []"
  by (cases outer) simp_all

text \<open>One round takes the first request that is owed and leaves the others.\<close>

lemma unwind_round:
  assumes s: "unwinds s" and c: "host_ok host s" and "maximum \<noteq> 0"
  obtains s' where
    "unwind_run env token maximum host (Suc n) s =
      (hd (owed (scopes s)) # fst (unwind_run env token maximum host n s'),
       snd (unwind_run env token maximum host n s'))"
    "same_program s s'"
    "tl (owed (scopes s)) = [] \<and> activity s' = Terminal \<and> executor_inv s' \<and>
       infrastructure (program_result s') \<in> {infrastructure (program_result s), BackendFailed} \<or>
     unwinds s' \<and> owed (scopes s') = tl (owed (scopes s)) \<and> owed (scopes s) \<noteq> [] \<and>
       tl (owed (scopes s)) \<noteq> [] \<and>
       infrastructure (program_result s') = infrastructure (program_result s)"
proof -
  have u: "unwinding s" "\<not> explicit_scope_close s" "current_epoch s \<noteq> 0"
    using s by (simp_all add: unwinds_def)
  note pump = Pump_unwinding [OF s assms(3), of env token]
  let ?q = "hd (owed (scopes s))"
  note conclude = that
  have round: thesis
    if cleanup: "PumpCleanup s = (pump_nothing\<lparr>host_request := Some ?q\<rparr>, waits_with ?q success stack s)"
      and success: "is_cleanup success"
      and action: "request_operation ?q = InvokeAction \<longleftrightarrow> request_action ?q \<noteq> None"
        "\<forall>d. request_action ?q = Some d \<longrightarrow> action_binding s d \<noteq> None"
      and ends: "success = FinishSuccess \<longrightarrow> tl (owed (scopes s)) = []"
      and rest: "success \<noteq> FinishSuccess \<longrightarrow>
        owed (if success = CloseScopeSuccess then tl stack else stack) = tl (owed (scopes s)) \<and>
        tl (owed (scopes s)) \<noteq> []"
    for success stack
  proof -
    let ?s1 = "waits_with ?q success stack s" and ?c = "host n ?q"
    obtain s2 s3 where step: "BindPendingAction (resolution_request ?c) ?s1 = (True, s2)"
      "cleanup_output_fits (addressed ?c ?q ?s1) s2"
      "DeliverHostCompletion (addressed ?c ?q ?s1) s2 = (True, s3)"
      "activity s3 = (if success = FinishSuccess then Terminal else Unwinding)"
      "scopes s3 = (if success = CloseScopeSuccess then tl stack else stack)"
      "pending s3 = None" "unwinding s3" "\<not> explicit_scope_close s3" "same_program s s3"
      "infrastructure (program_result s3) = (if success = FinishSuccess \<and> resolution_status ?c \<noteq> ActionCompleted
        then BackendFailed else infrastructure (program_result s))"
      by (rule answered [OF success u c action, of n stack])
    have inv1: "executor_inv ?s1"
      using Pump_ok [OF unwinds_inv [OF s] pump [unfolded cleanup]] by blast
    have inv2: "executor_inv s2" using BindPendingAction_ok [OF inv1] step(1) by (metis snd_conv)
    have inv3: "executor_inv s3" by (rule DeliverHostCompletion_ok [OF inv2 step(2,3)])
    have run: "unwind_run env token maximum host (Suc n) s =
        (?q # fst (unwind_run env token maximum host n s3), snd (unwind_run env token maximum host n s3))"
      using pump cleanup step(1,3) by (simp add: Let_def addressed_def split_def)
    have "unwinds s3" if "success \<noteq> FinishSuccess"
      using inv3 step(4-9) that u(3)
      by (simp add: unwinds_def executor_inv_def idle_inv_def same_program_def current_epoch_def)
    moreover have "owed (scopes s) \<noteq> []"
      using s chain_nonempty [of s] owed_nonempty by (cases "scopes s") (auto simp: unwinds_def)
    ultimately show thesis
      using conclude [OF run step(9)] inv3 step(4,5,10) ends rest by (cases "success = FinishSuccess") auto
  qed
  from s show thesis
  proof (cases rule: PumpCleanup_request)
    case (deferred scope outer)
    then show thesis
      using owed_nonempty by (intro round [of DeferredCleanup]) (auto simp: is_cleanup_def)
  next
    case (close scope scope' outer)
    then show thesis
      using owed_nonempty by (intro round [of CloseScopeSuccess]) (auto simp: is_cleanup_def)
  next
    case (finish scope)
    then show thesis by (intro round [of FinishSuccess]) (auto simp: is_cleanup_def)
  qed
qed

lemma unwind_run_owed:
  assumes "unwinds s" "host_ok host s" "maximum \<noteq> 0"
  shows "\<exists>s'. unwind_run env token maximum host (length (owed (scopes s))) s = (owed (scopes s), s') \<and>
    activity s' = Terminal \<and> executor_inv s' \<and>
    infrastructure (program_result s') \<in> {infrastructure (program_result s), BackendFailed}"
  using assms
proof (induction "length (owed (scopes s))" arbitrary: s)
  case 0
  then show ?case using chain_nonempty [of s] owed_nonempty by (cases "scopes s") (auto simp: unwinds_def)
next
  case (Suc n)
  obtain q qs where q: "owed (scopes s) = q # qs" using Suc.hyps(2) by (cases "owed (scopes s)") auto
  then have n: "n = length qs" using Suc.hyps(2) by simp
  obtain s' where round: "unwind_run env token maximum host (Suc n) s =
      (hd (owed (scopes s)) # fst (unwind_run env token maximum host n s'),
       snd (unwind_run env token maximum host n s'))"
    "same_program s s'"
    "tl (owed (scopes s)) = [] \<and> activity s' = Terminal \<and> executor_inv s' \<and>
       infrastructure (program_result s') \<in> {infrastructure (program_result s), BackendFailed} \<or>
     unwinds s' \<and> owed (scopes s') = tl (owed (scopes s)) \<and> owed (scopes s) \<noteq> [] \<and>
       tl (owed (scopes s)) \<noteq> [] \<and>
       infrastructure (program_result s') = infrastructure (program_result s)"
    by (rule unwind_round [OF Suc.prems, of env token n])
  from round(3) show ?case
  proof (elim disjE conjE)
    assume "tl (owed (scopes s)) = []" "activity s' = Terminal" "executor_inv s'"
      "infrastructure (program_result s') \<in> {infrastructure (program_result s), BackendFailed}"
    with q n show ?thesis unfolding Suc.hyps(2) [symmetric] round(1) by simp
  next
    assume more: "unwinds s'" "owed (scopes s') = tl (owed (scopes s))"
      "infrastructure (program_result s') = infrastructure (program_result s)"
    have "n = length (owed (scopes s'))" using more(2) q n by simp
    from Suc.hyps(1) [OF this more(1) host_ok_same [OF round(2) Suc.prems(2)] Suc.prems(3)] obtain t where
      "unwind_run env token maximum host n s' = (qs, t)" "activity t = Terminal" "executor_inv t"
      "infrastructure (program_result t) \<in> {infrastructure (program_result s), BackendFailed}"
      using more q n by (auto simp: \<open>n = length (owed (scopes s'))\<close> [symmetric])
    with q show ?thesis unfolding Suc.hyps(2) [symmetric] round(1) by simp
  qed
qed

end
