(* ===== verification/ExecutorContracts.thy ===== *)
theory ExecutorContracts
  imports ExecutorCleanup
begin

text \<open>
  What the executor promises to its driver, with a small program on which the promises are
  evaluated: it defers an action of a unit input and a unit output, and returns.
\<close>

section \<open>A program\<close>

definition sample_action :: ExactDependencyIdentity where
  "sample_action = \<lparr>dependency_id = [1], dependency_version = 1, signature_hash = \<lparr>hash_bytes = []\<rparr>\<rparr>"

definition sample_target :: InstructionTarget where
  "sample_target = \<lparr>target_kind = DeferredActionTarget, local_function = 0, dependency = Some sample_action,
     target_member_name = []\<rparr>"

definition sample_block :: BasicBlock where
  "sample_block = \<lparr>block_id = 1, block_arguments = [],
     instructions = [\<lparr>instruction_id = 1, opcode = DeferCompensation, instruction_source = 0,
       instruction_result = None, operands = [], literal = None, target = sample_target, selector = [],
       ordinal = 0, instruction_scope = 0\<rparr>],
     terminator = \<lparr>terminator_kind = Return, terminator_source = 0, condition_or_selector = None, edges = [],
       enum_cases = [], default_edge = None, return_value = None, terminator_domain_outcome = None,
       failure = None\<rparr>\<rparr>"

definition sample_function :: ProgramFunction where
  "sample_function = \<lparr>function_id = 1, function_name = ascii ''main'',
     function_arguments = [\<lparr>definition_id = 1, definition_type = Builtin UnitT\<rparr>],
     function_output_type = Builtin UnitT, domain_outcome_type = None, entry_block = 1,
     blocks = [sample_block], exported = True\<rparr>"

definition sample_budgets :: "u64 \<Rightarrow> ProgramBudgets" where
  "sample_budgets n = \<lparr>maximum_instructions = 10, maximum_calls = 10, maximum_call_depth = 4,
     maximum_action_requests = 10, maximum_emissions = 10, maximum_artifacts = 10, budget_values = n,
     budget_value_bytes = 1000, maximum_trace_events = 10\<rparr>"

definition sample_policies :: ProgramPolicySet where
  "sample_policies = \<lparr>state_policies = [RestoreBaseline], execution_intents = [LiveExecution],
     permits_movie_playback = False, permits_movie_recording = False, permits_capture = False,
     permits_replay = False, permits_resource_promotion = False\<rparr>"

definition sample_identity :: ModuleIdentity where
  "sample_identity = \<lparr>module_id = [1], module_revision = 1, module_hash = \<lparr>hash_bytes = []\<rparr>\<rparr>"

definition sample_module :: ProgramModule where
  "sample_module = \<lparr>module_identity = sample_identity, module_ir_version = 1,
     entrypoints = [\<lparr>entrypoint_name = ascii ''main'', entrypoint_function = 1,
       entrypoint_input_type = Builtin UnitT, entrypoint_output_type = Builtin UnitT,
       entrypoint_domain_outcome_type = Builtin UnitT, emission_schemas = [], artifact_schemas = [],
       entrypoint_packs = [], entrypoint_policies = sample_policies, narrowed_budgets = None\<rparr>],
     module_functions = [sample_function], local_types = [], module_imports = [],
     action_imports = [sample_action], reducer_imports = [], type_imports = [], module_packs = [],
     module_policies = sample_policies, module_budgets = sample_budgets 10,
     source_map = \<lparr>source_map_version = 1, source_map_entries = []\<rparr>\<rparr>"

definition sample_verified :: VerifiedProgramModule where
  "sample_verified = \<lparr>verified_module = sample_module,
     dependency_lock = \<lparr>lock_ir_version = 1, lock_modules = [], lock_actions = [sample_action],
       lock_reducers = [], lock_types = [], lock_packs = []\<rparr>,
     module_closure = [], type_closure = [],
     verified_actions = [\<lparr>action_import = sample_action, action_input_type = Builtin UnitT,
       action_output_type = Builtin UnitT\<rparr>]\<rparr>"

definition sample_provenance :: ProgramProvenance where
  "sample_provenance = \<lparr>requesting_component = [], source_artifacts = [], provenance_attributes = []\<rparr>"

text \<open>The call of the program with a budget of \<open>n\<close> values.\<close>

definition sample_call :: "u64 \<Rightarrow> ProgramInvocation" where
  "sample_call n = \<lparr>invocation_id = 7, attempt_id = 1, invocation_module = sample_identity,
     invocation_entrypoint = ascii ''main'',
     invocation_state = \<lparr>state_policy = RestoreBaseline, session_lineage = [], expected_session = 1,
       expected_epoch = 3\<rparr>,
     execution = \<lparr>execution_intent = LiveExecution, allow_movie_playback = False,
       allow_movie_recording = False, allow_input = False, allow_capture = False, record_trace = True,
       handler_flags = 0\<rparr>,
     invocation_input = UnitGraph, invocation_limits = sample_budgets n,
     invocation_provenance = sample_provenance\<rparr>"

definition sample_idle :: Executor where
  "sample_idle = \<lparr>verified = None, invocation = sample_call 0, executor_limits = sample_budgets 0,
     program_result = initial_result (sample_call 0) sample_verified, activity = Idle, frames = [],
     scopes = [], pending = None, unwinding = False, explicit_scope_close = False,
     explicit_cancellation = NoCancellation, instructions_executed = 0, calls_executed = 0,
     action_requests = 0, emissions = 0, artifacts = 0, value_count = 0, value_bytes = 0,
     next_trace = 1, next_emission = 1, next_artifact = 1\<rparr>"

definition sample_env :: "int executor_env" where
  "sample_env = \<lparr>floating_ops = \<lparr>ld_of_int = (\<lambda>k. k), ld_of_f32 = uint, ld_of_f64 = uint,
       ld_finite = (\<lambda>_. True), ld_integral = (\<lambda>_. True), ld_less = (<), ld_equal = (=),
       ld_two_to = (\<lambda>k. 2 ^ k), ld_negate = uminus, ld_add = (+), ld_subtract = (-), ld_multiply = (*),
       ld_divide = (div), ld_fmod = (mod), ld_to_int = (\<lambda>k. k), ld_to_f32 = word_of_int,
       ld_to_f64 = word_of_int, f32_of_int = word_of_int, f64_of_int = word_of_int\<rparr>, reducers = None\<rparr>"

text \<open>The program started; the action deferred; the unwinding begun by a cancellation or by the return.\<close>

definition sample_started :: "u64 \<Rightarrow> Executor" where
  "sample_started n = snd (Start (Some sample_verified) (sample_call n) sample_idle)"

definition sample_pump :: "u64 \<Rightarrow> Executor \<Rightarrow> Executor" where
  "sample_pump maximum s = snd (the (Pump 12 sample_env NoCancellation maximum s))"

definition sample_answer :: "u64 \<Rightarrow> ProgramHostOperation \<Rightarrow> ProgramActionResolution" where
  "sample_answer i oper = \<lparr>resolution_request = i, resolution_invocation = 7, resolution_attempt = 1,
     resolution_operation = oper, resolution_status = ActionCompleted, resolution_epoch = 3,
     resolution_output = UnitGraph, resolution_receipts = [], resolution_cleanup = CleanedUp,
     resolution_disposition = DispositionClean, resolution_code = []\<rparr>"

definition sample_bound :: "u64 \<Rightarrow> Executor \<Rightarrow> Executor" where
  "sample_bound i s = snd (BindPendingAction i s)"

definition sample_unwinding :: "u64 \<Rightarrow> Executor" where
  "sample_unwinding n = sample_pump 2 (sample_started n)"

definition sample_cancelled :: Executor where
  "sample_cancelled = sample_bound 5 (sample_pump 1
     (snd (RequestCancellation ExternalRequest (sample_pump 1 (sample_started 1)))))"

section \<open>The samples are reachable\<close>

lemma reachable_step:
  "executor_reachable env host init s \<Longrightarrow> executor_step env host s s' \<Longrightarrow> executor_reachable env host init s'"
  by (auto simp: executor_reachable_def)

lemma sample_started_reachable: "executor_reachable sample_env cleanup_output_fits sample_idle (sample_started n)"
proof -
  have "executor_reachable sample_env cleanup_output_fits sample_idle sample_idle"
    by (simp add: executor_reachable_def idle_inv_def sample_idle_def)
  moreover have "executor_step sample_env cleanup_output_fits sample_idle (sample_started n)"
    by (rule executor_step.start [where ok = "fst (Start (Some sample_verified) (sample_call n) sample_idle)"])
      (simp add: sample_started_def)
  ultimately show ?thesis by (rule reachable_step)
qed

lemma sample_pump_reachable:
  assumes "executor_reachable sample_env cleanup_output_fits sample_idle s" and "maximum \<le> 10"
  shows "executor_reachable sample_env cleanup_output_fits sample_idle (sample_pump maximum s)"
proof -
  have "unat maximum + 2 \<le> 12" using assms(2) by (simp add: word_le_nat_alt)
  from Pump_returns [OF executor_reachable_inv [OF assms(1)] this]
  obtain r s' where "Pump 12 sample_env NoCancellation maximum s = Some (r, s')" by fastforce
  then have "executor_step sample_env cleanup_output_fits s (sample_pump maximum s)"
    by (auto simp: sample_pump_def intro: executor_step.pump)
  with assms(1) show ?thesis by (rule reachable_step)
qed

lemma sample_unwinding_reachable: "executor_reachable sample_env cleanup_output_fits sample_idle (sample_unwinding n)"
  unfolding sample_unwinding_def by (rule sample_pump_reachable [OF sample_started_reachable]) simp

section \<open>Consistency\<close>

text \<open>
  C27. As long as the host keeps the assumption \<open>cleanup_output_fits\<close> (the output of a deferred action
  that completes while the program unwinds has room in the value budget), and whatever else it
  answers and the driver calls, in whatever order: the stack of scopes is a chain to the invocation's
  scope, the frames hold closed graphs, the depth, the trace and the values are within their budgets;
  a request is outstanding exactly while the executor awaits the host, and a program that is done has
  closed every scope and run every deferred action. The assumption is on the host, the code does not
  enforce it; and it is exact: from such a state no call, with any arguments and any completion,
  leads out of the invariant but the delivery of an output that breaks it, which makes the
  unwinding program run again.
\<close>

theorem executor_stays_consistent:
  assumes "executor_reachable env cleanup_output_fits init s"
  shows "executor_inv s \<and>
    (activity s = AwaitingHost \<longleftrightarrow> pending s \<noteq> None) \<and>
    (activity s \<noteq> Idle \<longrightarrow>
      scope_chain (scopes s) \<and> list_all frame_ok (frames s) \<and> frames s \<noteq> [] \<and>
      length (result_trace (program_result s)) \<le> unat (maximum_trace_events (executor_limits s)) \<and>
      value_count s \<le> budget_values (executor_limits s) \<and>
      value_bytes s \<le> budget_value_bytes (executor_limits s)) \<and>
    (activity s = Terminal \<longrightarrow>
      unwinding s \<and> length (scopes s) = 1 \<and> deferred (hd (scopes s)) = []) \<and>
    (\<forall>s'. executor_step env any_completion s s' \<longrightarrow>
      executor_inv s' \<or> (\<exists>c. \<not> cleanup_output_fits c s \<and> DeliverHostCompletion c s = (True, s') \<and>
        activity s' = Runnable \<and> unwinding s'))"
proof -
  have inv: "executor_inv s" by (rule executor_reachable_inv [OF assms])
  have "activity s = AwaitingHost \<longleftrightarrow> pending s \<noteq> None"
    "activity s \<noteq> Idle \<longrightarrow>
      scope_chain (scopes s) \<and> list_all frame_ok (frames s) \<and> frames s \<noteq> [] \<and>
      length (result_trace (program_result s)) \<le> unat (maximum_trace_events (executor_limits s)) \<and>
      value_count s \<le> budget_values (executor_limits s) \<and>
      value_bytes s \<le> budget_value_bytes (executor_limits s)"
    "activity s = Terminal \<longrightarrow>
      unwinding s \<and> length (scopes s) = 1 \<and> deferred (hd (scopes s)) = []"
    using inv by (cases "activity s"; auto simp: executor_inv_def idle_inv_def core_inv_def control_inv_def)+
  with inv any_step_inv [OF _ inv] show ?thesis by blast
qed

theorem executor_stays_consistent_witness:
  "activity (sample_unwinding 3) = Unwinding \<and> pending (sample_unwinding 3) = None \<and>
    value_count (sample_unwinding 3) \<le> 3"
proof -
  have state: "activity (sample_unwinding 3) = Unwinding"
    "budget_values (executor_limits (sample_unwinding 3)) = 3"
    by code_simp+
  with executor_stays_consistent [OF sample_unwinding_reachable [of 3]] show ?thesis by auto
qed

section \<open>Pumping\<close>

lemma pump_loop_mono:
  "pump_loop n env maximum quantum s = Some x \<Longrightarrow> n \<le> k \<Longrightarrow> pump_loop k env maximum quantum s = Some x"
proof (induction n arbitrary: k quantum s)
  case (Suc n)
  then obtain k' where "k = Suc k'" "n \<le> k'" by (cases k) auto
  with Suc show ?case by (auto split: if_splits sum.splits)
qed simp

lemma Pump_mono: "Pump n env token maximum s = Some x \<Longrightarrow> n \<le> k \<Longrightarrow> Pump k env token maximum s = Some x"
  by (auto simp: Pump_def split: if_splits intro: pump_loop_mono)

text \<open>
  C29. In a run whose host keeps the assumption \<open>cleanup_output_fits\<close>, every pump returns: with a quantum
  of \<open>maximum\<close> rounds the loop makes at most one round more, whatever the program does. (After a
  cleanup output that breaks the assumption a round with an exhausted instruction budget does not use
  up the quantum, so the bound is lost.) Unless a request is still outstanding it hands out the request the
  executor now waits for, and no other; it reports the result exactly when the program was done
  before, so the driver never misses the last answer; and pumping alone never ends a program.
\<close>

theorem pump_answers_in_its_quantum:
  assumes "executor_reachable env cleanup_output_fits init s"
  shows "\<exists>r s'. (\<forall>fuel \<ge> unat maximum + 2. Pump fuel env token maximum s = Some (r, s')) \<and>
    executor_inv s' \<and>
    (activity s \<noteq> AwaitingHost \<longrightarrow> host_request r = map_option pending_request (pending s')) \<and>
    terminal r = (if activity s = Terminal then Some (program_result s) else None) \<and>
    (activity s \<noteq> Terminal \<longrightarrow> activity s' \<noteq> Terminal)"
proof -
  have inv: "executor_inv s" by (rule executor_reachable_inv [OF assms])
  obtain r s' where run: "Pump (unat maximum + 2) env token maximum s = Some (r, s')"
    using Pump_returns [OF inv order_refl] by fastforce
  have "activity s \<noteq> Terminal \<longrightarrow> activity s' \<noteq> Terminal"
    using Pump_ok [OF inv run] run by (cases "activity s") (auto simp: Pump_def)
  with Pump_ok [OF inv run] Pump_mono [OF run] show ?thesis by blast
qed

theorem pump_answers_in_its_quantum_witness:
  "\<exists>r s'. Pump 4 sample_env NoCancellation 2 (sample_unwinding 3) = Some (r, s') \<and>
    host_request r = map_option pending_request (pending s') \<and> terminal r = None"
proof -
  have "activity (sample_unwinding 3) = Unwinding" by code_simp
  with pump_answers_in_its_quantum [OF sample_unwinding_reachable [of 3], of 2 NoCancellation]
  show ?thesis by fastforce
qed

section \<open>Cleanup\<close>

text \<open>
  C28. In a run whose host has kept the assumption \<open>cleanup_output_fits\<close>, an executor that unwinds
  performs everything it owes and ends, provided the answers are ones the executor takes (\<open>host_ok\<close>:
  each has an identity, and the output of an action that completed is valid for the action's type and
  fits the budget that is left; status, receipts and code are the host's to choose, and so is the
  output of what did not complete): the requests it hands out are, in this order, the deferred
  actions of each scope from the last to the first and the close of the scope, scope by scope from
  the innermost, and at the bottom the end of the invocation, no request twice and none left out. A
  cleanup that fails does not stop the others. Then the result is reported, and the status of the
  program is the one the unwinding began with unless the end of the invocation itself failed.
\<close>

theorem unwinding_performs_all_cleanup:
  assumes "executor_reachable env cleanup_output_fits init s" and "activity s = Unwinding" "unwinding s"
    and "host_ok host s" and "maximum \<noteq> 0"
  shows "\<exists>s'. unwind_run env token maximum host (length (owed (scopes s))) s = (owed (scopes s), s') \<and>
    executor_inv s' \<and> activity s' = Terminal \<and>
    Pump 1 env token maximum s' = Some (pump_nothing\<lparr>terminal := Some (program_result s')\<rparr>, s') \<and>
    infrastructure (program_result s') \<in> {infrastructure (program_result s), BackendFailed}"
proof -
  have "unwinds s"
    using executor_reachable_inv [OF assms(1)] assms(2,3)
    by (auto simp: unwinds_def executor_inv_def idle_inv_def control_inv_def core_inv_def)
  from unwind_run_owed [OF this assms(4,5), of env token] obtain s' where
    "unwind_run env token maximum host (length (owed (scopes s))) s = (owed (scopes s), s')"
    "executor_inv s'" "activity s' = Terminal"
    "infrastructure (program_result s') \<in> {infrastructure (program_result s), BackendFailed}"
    by blast
  then show ?thesis by (auto simp: Pump_def)
qed

definition sample_host :: "nat \<Rightarrow> ExecutorHostRequest \<Rightarrow> ProgramActionResolution" where
  "sample_host n q = (sample_answer 5 InvokeAction)\<lparr>resolution_status := ActionFailed\<rparr>"

theorem unwinding_performs_all_cleanup_witness:
  "\<exists>s'. unwind_run sample_env NoCancellation 2 sample_host 2 (sample_unwinding 3) =
      ([deferred_request \<lparr>deferred_identity = sample_action, deferred_input = UnitGraph\<rparr>
          \<lparr>scope_id = kInvocationScope, scope_parent = 0, deferred = []\<rparr>,
        scope_request FinishInvocation \<lparr>scope_id = kInvocationScope, scope_parent = 0, deferred = []\<rparr>], s') \<and>
    activity s' = Terminal"
proof -
  have state: "activity (sample_unwinding 3) = Unwinding" "unwinding (sample_unwinding 3)"
    "scopes (sample_unwinding 3) = [\<lparr>scope_id = kInvocationScope, scope_parent = 0,
      deferred = [\<lparr>deferred_identity = sample_action, deferred_input = UnitGraph\<rparr>]\<rparr>]"
    by code_simp+
  have "host_ok sample_host (sample_unwinding 3)"
    by (simp add: host_ok_def sample_host_def sample_answer_def)
  note ends = unwinding_performs_all_cleanup [OF sample_unwinding_reachable state(1,2) this, of 2 NoCancellation]
  have owed: "owed (scopes (sample_unwinding 3)) =
    [deferred_request \<lparr>deferred_identity = sample_action, deferred_input = UnitGraph\<rparr>
       \<lparr>scope_id = kInvocationScope, scope_parent = 0, deferred = []\<rparr>,
     scope_request FinishInvocation \<lparr>scope_id = kInvocationScope, scope_parent = 0, deferred = []\<rparr>]"
    by (simp add: state(3) deferred_requests_def deferred_request_def scope_request_def)
  have two: "length (owed (scopes (sample_unwinding 3))) = 2" by (simp add: owed)
  have "(2 :: u64) \<noteq> 0" by simp
  from ends [OF this] show ?thesis unfolding two unfolding owed by blast
qed

section \<open>A cleanup whose output does not fit\<close>

text \<open>
  C30. What happens outside that assumption: when the output of a deferred action does not fit the
  value budget while the program unwinds, the completion is taken, nothing is reported and the
  program is made to run again after it was cancelled or failed.
\<close>

theorem overlarge_cleanup_output_resumes:
  assumes "pending s = Some p" "pending_success p = DeferredCleanup" "unwinding s"
    and "resolution_matches c s"
    and "Option.bind (request_action (pending_request p)) (action_binding s) = Some b"
    and "budget_error (output_status c p (Some b) s)"
  shows "DeliverHostCompletion c s =
    (True, s\<lparr>pending := None, program_result := note_cleanup c (program_result s), activity := Runnable\<rparr>)"
proof -
  have "output_status c p (Some b) s \<noteq> NoArenaError" using assms(6) by (auto simp: budget_error_def)
  then show ?thesis
    using assms by (simp add: DeliverHostCompletion_def Let_def BeginFailure_def)
qed

text \<open>In the sample the cancelled program then runs to its return, and ends as completed.\<close>

theorem overlarge_cleanup_output_resumes_witness:
  "infrastructure (program_result sample_cancelled) = Cancelled \<and>
   (\<exists>s. DeliverHostCompletion (sample_answer 5 InvokeAction) sample_cancelled = (True, s) \<and>
     activity s = Runnable \<and> unwinding s \<and>
     (let t = snd (DeliverHostCompletion (sample_answer 6 FinishInvocation) (sample_bound 6 (sample_pump 2 (sample_pump 1 s))))
      in activity t = Terminal \<and> infrastructure (program_result t) = Completed))"
proof -
  let ?c = "sample_answer 5 InvokeAction"
  define p where "p = the (pending sample_cancelled)"
  have state: "pending sample_cancelled \<noteq> None" "unwinding sample_cancelled"
    "infrastructure (program_result sample_cancelled) = Cancelled"
    "resolution_matches ?c sample_cancelled"
    by code_simp+
  have more: "pending_success p = DeferredCleanup"
    "Option.bind (request_action (pending_request p)) (action_binding sample_cancelled)
      = Some (hd (verified_actions sample_verified))"
    "budget_error (output_status ?c p (Some (hd (verified_actions sample_verified))) sample_cancelled)"
    unfolding p_def by code_simp+
  have pending: "pending sample_cancelled = Some p" using state(1) by (auto simp: p_def)
  note resumes = overlarge_cleanup_output_resumes [OF pending more(1) state(2,4) more(2,3)]
  have "let s = snd (DeliverHostCompletion ?c sample_cancelled);
      t = snd (DeliverHostCompletion (sample_answer 6 FinishInvocation) (sample_bound 6 (sample_pump 2 (sample_pump 1 s))))
      in activity t = Terminal \<and> infrastructure (program_result t) = Completed"
    by code_simp
  with resumes state show ?thesis by (simp add: Let_def)
qed

end
