(* ===== verification/Spec2Isabelle.thy ===== *)
theory Spec2Isabelle
  imports SavorPrelude HostActivityContracts ProbeQueueContracts ProbeLatestContracts
    ProbePredicates CompletionLedger SessionSample AddressProgramContracts DecodedRegisters
    WatchpointContracts InputContracts ValueContracts ValueGraphParts CheckedIntegers
    ExecutorContracts
begin

text \<open>
  SAVOR drives a GameCube emulator (Dolphin) from worker processes: a workset of items is run on a
  worker, each item as a program over an emulation session, and the results travel back to a
  coordinator. This library models the parts of that machinery that keep state by rules of their
  own, as executable definitions translated from the C++ sources, and proves what makes them
  correct. Paths below are relative to src/.

  The parts and how they meet.

  \<^item> A worker keeps the outcome of every item until the coordinator has it: the worker completion
    ledger (SavorCore/Runner/Runtime/Worksets/WorkerCompletionLedger.h and .cpp).
  \<^item> An emulation session owns scopes and resources: the session resource ledger
    (Services/Resources/SessionResourceLedger.h and .cpp below SavorCore/Runner/Runtime). It releases
    them through a dispatcher, which in a session is the resource binding table
    (ProgramRuntime/Actions/SessionResourceBindingTable.h and .cpp).
  \<^item> Programs and probes name guest memory by address programs, run by two interpreters
    (SavorCore/Core/Memory/Soa/SoaAddrProgram.cpp and SavorProbe/AddressProgramEvaluator.h), written
    by a builder and checked by a validator (SavorProbe/ProbeProfile.cpp).
  \<^item> A probe stops the guest on memory accesses: the decoder of PowerPC loads and stores
    (SavorCore/Core/PowerPcMemoryAccessDecoder.cpp) tells what an instruction is about to access, and
    the watchpoint registry (SavorProbe/ProbeWatchpointRegistry.cpp) plans the physical memory checks
    that serve the logical requests.

  \<^item> What a hit probe records passes its predicate, sampling and window and goes through lock-free queues
    to a recorder thread (SavorProbe/ProbeEvent.cpp, ProbeRuntime.cpp), and a worker accounts for host
    work that holds the guest up (SavorCore/Runner/Runtime/Execution/HostActivityTracker.h).

  \<^item> Programs press the guest's buttons through the input arbiter
    (SavorCore/Runner/Runtime/Services/Input/InputArbiter.cpp), which lends the controller to one lease at
    a time, over the controller override the guest polls (SavorCore/Core/Input/GCPadOverride.cpp).

  \<^item> Programs compute on typed values, kept in an immutable arena and exchanged as closed graphs
    (ProgramRuntime/Model/ProgramTypes.h, ProgramIdentifiers.cpp and ProgramValueArena.cpp below
    SavorCore/Runner/Runtime).

  \<^item> The programs themselves, functions of basic blocks (ProgramRuntime/Model/ProgramIr.h and
    ProgramModel.h), are run by the executor (ProgramRuntime/Execution/ProgramExecutor.cpp), a machine
    its driver pumps: it suspends on requests to the host, such as the actions that acquire the
    resources above, takes their completions, and unwinds its scopes when it is done, fails or is
    cancelled. Its values are those of the arena, and it validates what the host returns.

  Theories, definitions and the code.

  \<^item> \<open>SavorPrelude\<close>: \<open>u8\<close> to \<open>u64\<close> and \<open>thread_id\<close>; \<open>std::find_if\<close> and a mutation or an erase through
    its iterator as \<open>List.find\<close>, \<open>update_first\<close>, \<open>remove_first\<close>; \<open>std::unordered_map\<close> as the store
    \<open>store_find\<close>, \<open>store_emplace\<close>, \<open>store_modify\<close>, \<open>store_erase\<close> under the locale \<open>keyed_store\<close>;
    reachability of a step function and the locales \<open>invariant_machine\<close> and \<open>monotone_machine\<close>, the
    contract every component's machine is an interpretation of.
  \<^item> \<open>CompletionLedger\<close>: the record \<open>WorkerCompletionLedger\<close> holds the members of the class; one
    definition per method (\<open>ReserveTerminal\<close>, \<open>CompleteTerminal\<close>, \<open>BeginNextPublication\<close> with its loop
    \<open>publication_loop\<close>, \<open>ConfirmPublished\<close>, \<open>AbortPublication\<close>, \<open>AcknowledgeTerminal\<close>, the outbound
    sequence, the snapshot). The lemmas show the capacity bounds, that terminals are published in
    their order under increasing outbound sequence numbers, the life of a terminal, and
    acknowledgements that are exact and idempotent.
  \<^item> \<open>ResourceLedger\<close> holds \<open>SessionResourceLedger\<close> and its methods; \<open>ResourceScopes\<close> the scope tree,
    \<open>ResourceUnwind\<close> the unwind loop and the invariant, \<open>ResourceHistory\<close> what is never undone,
    \<open>ResourceOperations\<close> that every operation keeps the invariant, \<open>ResourceCompletion\<close> what a finished
    unwind has done, \<open>ResourceContracts\<close> the properties.
  \<^item> \<open>ReleaseDispatcher\<close>: what the ledger may rely on of \<open>IResourceReleaseDispatcher\<close>, as the locale
    \<open>release_dispatcher\<close>; \<open>BindingTable\<close>: the class \<open>SessionResourceBindingTable\<close> and the interpretation
    of that locale on its \<open>TableRelease\<close> (\<open>Release\<close> in the code).
  \<^item> \<open>AddressPrograms\<close>: the operations of both interpreters (\<open>evaluate\<close>, \<open>eval_loop\<close>;
    \<open>evaluate_address_program_fixed\<close>, \<open>probe_loop\<close>, \<open>probe_operation\<close>), the builder (\<open>op_base_key\<close> and the
    other emitters, \<open>finalize_program\<close>) and \<open>validate_address_program\<close>; \<open>AddressInterpreters\<close> and
    \<open>AddressValidation\<close> their lemmas, \<open>AddressProgramContracts\<close> the properties.
  \<^item> \<open>MemoryAccessDecoder\<close>: \<open>DecodeCurrentMemoryAccess\<close>, its two forms and its tables, which are compared
    with what the bits of an opcode mean in the architecture (\<open>arch_mnemonic\<close>, \<open>arch_store\<close>,
    \<open>arch_size\<close>); \<open>DecodedRegisters\<close>: the registers and the values it reports.
  \<^item> \<open>WatchpointRegistry\<close>: \<open>plan_watchpoint_bindings\<close> and the class \<open>ProbeWatchpointRegistry\<close>;
    \<open>WatchpointPlanning\<close> the lemmas of the plan, \<open>WatchpointContracts\<close> the properties.
  \<^item> \<open>InputArbiter\<close>: the records of leases, bindings and relationships and one definition per method of
    the class, over a backend that is an argument; \<open>PadBackend\<close>: the locale \<open>input_backend\<close>, what the
    arbiter relies on of \<open>IInputBackendPort\<close>, and the controller override with the Dolphin backend's
    port, on which it is interpreted. The override's state starts as opening the backend leaves it
    (\<open>opened_input\<close>); \<open>WatchedInput\<close> extends it by a record of the answers the guest got, which no
    operation of the code reads or writes. \<open>InputInvariant\<close> states the invariant over the stores as maps,
    \<open>InputOperations\<close>, \<open>InputLeases\<close> and \<open>InputBindings\<close> show what every operation does and that it keeps
    it, \<open>InputMachine\<close> interleaves the operations with the guest's polls, \<open>InputPad\<close> compares the
    arbiter's records with what the pad shows, \<open>InputContracts\<close> holds the properties.
  \<^item> \<open>ProgramTypes\<close>: hashes, schemas, payloads, values and graphs; \<open>Utf8Text\<close>: \<open>IsValidUtf8\<close> and its
    reference; \<open>ProgramValueArena\<close>: the class (\<open>Add\<close>, \<open>Clone\<close>, \<open>Import\<close> with its search \<open>visit\<close>,
    \<open>Export\<close> with \<open>collect\<close>, \<open>LookupForEpoch\<close>), \<open>MeasureProgramValueGraph\<close> and
    \<open>ValidateProgramValueGraph\<close>. The specification is the tree a value denotes (\<open>ValueDenotation\<close>), well
    typed by \<open>well_typed\<close> (\<open>ValueTyping\<close>); \<open>GraphSearch\<close>, \<open>ValueImport\<close> and \<open>ValueExport\<close> relate the code's
    searches to it, \<open>ValueContracts\<close> makes the arena a machine and holds the properties.
  \<^item> \<open>ValueGraphs\<close>: the free functions at the head of ProgramExecutor.cpp that build and take apart graphs
    (\<open>AppendGraph\<close>, \<open>CompositeGraph\<close>, \<open>AppendListGraph\<close>, \<open>ExtractGraph\<close>, \<open>GraphEquivalent\<close>);
    \<open>ValueGraphTrees\<close> and \<open>ValueGraphParts\<close> relate them to trees. \<open>CheckedArithmetic\<close>: the checked
    operations and the exact conversions at their widths; \<open>CheckedIntegers\<close> compares them with
    arithmetic on integers. \<open>ProgramIr\<close>: modules, invocations and results.
  \<^item> \<open>ProgramExecutor\<close>: the record \<open>Executor\<close> holds the members of \<open>ProgramExecutor::Impl\<close>, with its
    lookups, \<open>Bind\<close>, \<open>BeginFailure\<close>, \<open>PumpCleanup\<close>, \<open>EnterBlock\<close> and \<open>PushCall\<close>; \<open>ExecutorSteps\<close>: the
    instructions (\<open>evaluate\<close> for those that only bind a value, \<open>execute_await\<close> and the like for the
    others), the terminators, and the public methods \<open>Start\<close>, \<open>Pump\<close> (its loop \<open>pump_loop\<close>),
    \<open>BindPendingAction\<close>, \<open>DeliverHostCompletion\<close>, \<open>RequestCancellation\<close>, \<open>snapshot\<close>. \<open>ExecutorInvariant\<close>
    states what holds between two calls and proves it of the steps, \<open>ExecutorMachine\<close> of the methods,
    \<open>ExecutorCleanup\<close> has the step relation of the driver's calls and the specification of the cleanup
    (\<open>owed\<close>), \<open>ExecutorContracts\<close> the properties.
  \<^item> \<open>HostActivityTracker\<close>: the lock-free accounting of host work
    (SavorCore/Runner/Runtime/Execution/HostActivityTracker.h), one step per atomic operation;
    \<open>HostActivityContracts\<close>: whatever the interleaving, one load gives the number of activities under
    way and every completion is drained or counted as lost exactly once.
  \<^item> \<open>ProbeEventQueue\<close> and \<open>ProbeLatestEvent\<close>: the bounded queue and the latest-event slots between the
    probes and the recorder (SavorProbe/ProbeEvent.cpp), one step per atomic operation under sequential
    consistency; \<open>ProbeQueueSteps\<close>, \<open>ProbeQueueContracts\<close> and \<open>ProbeLatestContracts\<close>: the queue is first in,
    first out, no slot is written and copied at once, and what is taken is what was published.
  \<^item> \<open>ProbeFilters\<close>: predicates, sampling, windows and dispatch of probe hits (SavorProbe/ProbeRuntime.cpp,
    ProbeProfile.cpp, ProbeWindowState.h, ProbeDispatchPolicy.h); \<open>ProbePredicates\<close>: the stack machine
    decides the expressions whose postfix form its programs are, and what the parser accepts is one.
  \<^item> \<open>SessionSample\<close> a session over a binding table, and this theory: what a scope's closing leaves in the binding table, across the two components.

  Conventions. A class is a record of its members and a method a function from arguments and state
  to result and state. A receipt that says whether the call went well is a sum, \<open>Inl\<close> the error code
  of every early return; constant message texts are left out where no code reads them back.
  \<open>std::this_thread::get_id()\<close> is an argument, since the code only compares it with the thread an
  object was made on. Unsigned integers are words of their width and wrap; \<open>std::size_t\<close> is 64 bits.
  An exception thrown by a client's callback is a value (\<open>ThrewException\<close>, \<open>ThrewUnknown\<close>). Allocation is
  taken to succeed, and a callback does not call back into the object that runs it. A property about
  the reachable states is over every sequence of calls, on any thread and with any arguments.

  Fuel and bounds. The walks over the scope tree (\<open>ancestor_loop\<close>, \<open>depth_loop\<close>) take fuel, one more
  than the number of scopes, and are proved to return within it in every reachable state; so do the
  recursive searches of a value graph, with one more than the number of its values (\<open>visit_returns\<close>,
  \<open>collect_total\<close>); the loops of
  the interpreters consume the program, and the validator's its distance to the end, so they need
  none. The properties of the input arbiter hold from a new arbiter on and for the first \<open>2 ^ 64 - 2\<close> calls, after which its
  identities could wrap around; the number of calls is part of the state of its machine. The loop of the executor's pump takes two more than
  its quantum as fuel and is proved to return within it. The event queue is modelled for its first
  \<open>2 ^ 62\<close> events, the latest-event slots for \<open>2 ^ 62 - 2\<close>, and the activity tracker until its sequence
  would wrap around. Nothing else
  is bounded: lists and programs have any length, and identities run to the end of
  their word, where the code refuses to hand out another.

  Not modelled. Of the executor: the texts beside the codes of failures, the clock and \<open>next_wake\<close>, which
  always returns nothing. The reducers, the cancellation token and the arithmetic of \<open>long double\<close> are
  arguments of the model. The properties of the executor over its runs are about hosts that
  keep the assumption \<open>cleanup_output_fits\<close>: the output of a deferred action that completes while the
  program unwinds has room in the value budget. It is a hypothesis on the host, which the code does
  not enforce, and a visible argument of \<open>executor_step\<close> and \<open>executor_reachable\<close>; \<open>any_completion\<close> is
  the host without it. That the cleanup ends needs in addition that the answers are ones the
  executor takes (\<open>host_ok\<close>). \<open>executor_stays_consistent\<close> shows that nothing but an output that breaks
  the assumption leads out of the invariant, and \<open>overlarge_cleanup_output_resumes\<close> what happens then. Sorting is stable in the model where the code's order of equal keys is not fixed, and
  no property depends on it. The floating-point registers a decoded store reads are the bits the
  reader returns. The rest of the probe runtime,
  the program runtime's registries, verifier and codec, the wire protocol and the capture
  format are plain state machines and codecs that can be added in the same way. The emulator wrapper,
  native hooks, databases, workflow coordination, the graphical front end and the worker runtime are
  effects on the emulator, SQLite, Qt and the operating system, which the sources only call.
\<close>

section \<open>The ledger over the binding table\<close>

text \<open>
  C40. Closing a scope leaves no binding of it behind. Take any resource ledger a session can
  reach, under whatever releases its unwinds were given, and any state of the binding table that
  binds and releases can reach. When a \<open>CloseScope\<close> that dispatches to the table completes, the
  external resources of the live resources of the subtree are out of the table, every other binding
  is still there, and no resource of the subtree is live.
\<close>

theorem closed_scope_leaves_no_binding:
  assumes ledger: "reachable_from (resource_step release_of) (new_resource_ledger t0, d0) (L, d)"
    and table: "reachable_from binding_step (new_binding_table t1, w0) (T, w)"
    and close: "ResourceLedger.CloseScope t s n (TableRelease u) L (T, w) = (res, L', T', w')"
    and completed: "outcome res = ResourceLedger.Completed"
  shows "(\<forall>i. Contains i T' \<longleftrightarrow> Contains i T \<and> i \<notin> {rel_external_id (res_release r) | r.
      r \<in> set (resources L) \<and> IsLive (res_status r) \<and> IsInScopeSubtree (res_scope r) s L}) \<and>
    (\<forall>r \<in> set (resources L). IsInScopeSubtree (res_scope r) s L \<longrightarrow>
      (\<forall>r' \<in> set (resources L'). res_id r' = res_id r \<longrightarrow> \<not> IsLive (res_status r')))"
proof (intro conjI)
  have inv: "resource_ledger_inv L" by (rule resource_reachable_inv [OF ledger])
  have "table_inv T" by (rule binding_reachable_inv [OF table])
  then have "bound_ids T' = bound_ids T - {rel_external_id (res_release r) | r.
      r \<in> set (resources L) \<and> live r \<and> IsInScopeSubtree (res_scope r) s L}"
    using binding_dispatcher.CloseScope_bound [OF inv close completed] by simp
  then show "\<forall>i. Contains i T' \<longleftrightarrow> Contains i T \<and> i \<notin> {rel_external_id (res_release r) | r.
      r \<in> set (resources L) \<and> live r \<and> IsInScopeSubtree (res_scope r) s L}"
    by (auto simp: Contains_iff)
  show "\<forall>r \<in> set (resources L). IsInScopeSubtree (res_scope r) s L \<longrightarrow>
      (\<forall>r' \<in> set (resources L'). res_id r' = res_id r \<longrightarrow> \<not> live r')"
  proof (intro ballI impI)
    fix r r' assume r: "r \<in> set (resources L)" "IsInScopeSubtree (res_scope r) s L"
      and r': "r' \<in> set (resources L')" "res_id r' = res_id r"
    have "outcome res = ResourceLedger.Completed \<or> outcome res = CleanupFailed" using completed by simp
    note facts = CloseScope_unwinds [OF inv close this]
    have step: "st \<in> set (result_steps res) \<Longrightarrow> step_status st = RS_Released" for st
      using facts completed by (cases "step_status st") auto
    obtain x where x: "x \<in> set (resources L)" "r' = settle_by (result_steps res) x"
      using facts r'(1) by auto
    have x_id: "res_id x = res_id r"
      using x(2) r'(2) by (auto simp: settle_by_def split: option.splits)
    show "\<not> live r'"
    proof (cases "List.find (\<lambda>st. released_id st = res_id x) (result_steps res)")
      case None
      then have "res_id r \<notin> set (map released_id (result_steps res))"
        by (auto simp: find_None_iff x_id)
      then have "\<not> live r" using facts r by auto
      moreover have "r' = x" using x(2) None by (simp add: settle_by_def)
      moreover have "x = r"
        using inv x(1) r(1) x_id FindResource_iff [of L]
        by (metis resource_ledger_inv_def option.inject)
      ultimately show ?thesis by simp
    next
      case (Some st)
      then have "step_status st = RS_Released" using step by (auto simp: find_Some_iff)
      then show ?thesis using Some x(2) by (simp add: settle_by_def)
    qed
  qed
qed

theorem closed_scope_leaves_no_binding_witness:
  "\<exists>res L' T' w'. ResourceLedger.CloseScope 1 2 0 (TableRelease 1) bound_session (bound_table, 0) = (res, L', T', w') \<and>
    Contains 1 bound_table \<and> \<not> Contains 1 T' \<and> w' = 1"
proof -
  obtain res L' T' w' where
    run: "ResourceLedger.CloseScope 1 2 0 (TableRelease 1) bound_session (bound_table, 0) = (res, L', T', w')"
    and closed: "outcome res = ResourceLedger.Completed" "w' = 1" by (rule bound_session_closes)
  from closed_scope_leaves_no_binding [OF bound_session_reachable bound_table_reachable run closed(1)]
  show ?thesis using run closed(2) bound_table_contains bound_session_resource by auto
qed

end
